(* ===== verification/Entourage_Prelude.thy ===== *)
theory Entourage_Prelude
  imports Complex_Main "HOL-Library.AList"
begin

text \<open>
  Shared notions of the development: the exceptions of the program as a datatype, fallible
  computations as sums with their sequencing, loops that may raise (\<open>fold_res\<close>), Python
  dictionaries as association lists in insertion order, and list lemmas the component
  theories use.
\<close>

named_theorems result_simps \<open>equations that run or invert a fallible computation\<close>
named_theorems dict_simps \<open>lookups in updated dictionaries\<close>

subsection \<open>Exceptions and fallible results\<close>

text \<open>
  One constructor per exception class the modelled code raises or catches, with its message
  (for \<open>KeyError\<close>, \<open>StaleActivation\<close> and \<open>SessionAlreadyExists\<close> the key or session ID the
  exception carries). \<open>OtherError\<close> is any other exception of user code: class name and message.
  \<open>SessionAlreadyExists\<close> is a subclass of \<open>ValueError\<close> in the source.
\<close>

datatype py_error =
    ValueError string
  | KeyError string
  | TypeError string
  | StaleActivation string
  | SessionAlreadyExists string
  | RecursionLimitExceeded string
  | OtherError string string

definition is_value_error :: "py_error \<Rightarrow> bool" where
  "is_value_error e = (case e of ValueError _ \<Rightarrow> True | SessionAlreadyExists _ \<Rightarrow> True | _ \<Rightarrow> False)"

definition is_key_error :: "py_error \<Rightarrow> bool" where
  "is_key_error e = (case e of KeyError _ \<Rightarrow> True | _ \<Rightarrow> False)"

type_synonym 'a res = "py_error + 'a"

definition rbind :: "'a res \<Rightarrow> ('a \<Rightarrow> 'b res) \<Rightarrow> 'b res" where
  "rbind m f = (case m of Inl e \<Rightarrow> Inl e | Inr x \<Rightarrow> f x)"

lemma rbind_Inl [simp, result_simps]: "rbind (Inl e) f = Inl e"
  by (simp add: rbind_def)

lemma rbind_Inr [simp, result_simps]: "rbind (Inr x) f = f x"
  by (simp add: rbind_def)

lemma rbind_eq_Inr [result_simps]: "rbind m f = Inr y \<longleftrightarrow> (\<exists>x. m = Inr x \<and> f x = Inr y)"
  by (cases m) auto

lemma rbind_eq_Inl [result_simps]:
  "rbind m f = Inl e \<longleftrightarrow> m = Inl e \<or> (\<exists>x. m = Inr x \<and> f x = Inl e)"
  by (cases m) auto

lemma rbind_cong [fundef_cong]:
  "m = m' \<Longrightarrow> (\<And>x. m' = Inr x \<Longrightarrow> f x = f' x) \<Longrightarrow> rbind m f = rbind m' f'"
  by (cases m') auto

lemma if_Inl_eq_Inr [result_simps]: "(if b then Inl e else m) = Inr y \<longleftrightarrow> \<not> b \<and> m = Inr y"
  by simp

text \<open>A \<open>for\<close> loop whose body updates a state and may raise: the first error ends it.\<close>

fun fold_res :: "('s \<Rightarrow> 'a \<Rightarrow> 's res) \<Rightarrow> 's \<Rightarrow> 'a list \<Rightarrow> 's res" where
  "fold_res f s [] = Inr s"
| "fold_res f s (x # xs) = rbind (f s x) (\<lambda>s'. fold_res f s' xs)"

lemma fold_res_append:
  "fold_res f s (xs @ ys) = rbind (fold_res f s xs) (\<lambda>s'. fold_res f s' ys)"
  by (induction xs arbitrary: s) (auto simp: rbind_def split: sum.splits)

lemma fold_res_invariant:
  assumes step: "\<And>s x s'. x \<in> set xs \<Longrightarrow> f s x = Inr s' \<Longrightarrow> P s \<Longrightarrow> P s'"
    and run: "fold_res f s xs = Inr t" and start: "P s"
  shows "P t"
  using assms
proof (induction xs arbitrary: s)
  case Nil
  then show ?case by simp
next
  case (Cons x xs)
  from Cons.prems(2) obtain s' where s': "f s x = Inr s'" "fold_res f s' xs = Inr t"
    by (auto simp: result_simps)
  have "P s'" using Cons.prems(1) [OF _ s'(1)] Cons.prems(3) by simp
  moreover have "\<And>s x s'. x \<in> set xs \<Longrightarrow> f s x = Inr s' \<Longrightarrow> P s \<Longrightarrow> P s'"
    using Cons.prems(1) by (meson list.set_intros(2))
  ultimately show ?case by (rule Cons.IH [OF _ s'(2), rotated])
qed

subsection \<open>Actions\<close>

text \<open>
  A method of a mutable object that may raise: from a state it gives the state it leaves, also when it
  raises, and its result.
\<close>

type_synonym ('s, 'a) act = "'s \<Rightarrow> 's \<times> 'a res"

definition ret :: "'a \<Rightarrow> ('s, 'a) act" where
  "ret x s = (s, Inr x)"

definition raise_error :: "py_error \<Rightarrow> ('s, 'a) act" where
  "raise_error e s = (s, Inl e)"

definition abind :: "('s, 'a) act \<Rightarrow> ('a \<Rightarrow> ('s, 'b) act) \<Rightarrow> ('s, 'b) act" where
  "abind m f s = (case m s of (s', Inl e) \<Rightarrow> (s', Inl e) | (s', Inr x) \<Rightarrow> f x s')"

definition aseq :: "('s, 'a) act \<Rightarrow> ('s, 'b) act \<Rightarrow> ('s, 'b) act" where
  "aseq m n = abind m (\<lambda>_. n)"

definition reads :: "('s \<Rightarrow> 'a) \<Rightarrow> ('s, 'a) act" where
  "reads f s = (s, Inr (f s))"

definition modifies :: "('s \<Rightarrow> 's) \<Rightarrow> ('s, unit) act" where
  "modifies f s = (f s, Inr ())"

definition lifts :: "'a res \<Rightarrow> ('s, 'a) act" where
  "lifts r s = (s, r)"

text \<open>\<open>try: m except Exception as e: h(e)\<close>.\<close>

definition catches :: "('s, 'a) act \<Rightarrow> (py_error \<Rightarrow> ('s, 'a) act) \<Rightarrow> ('s, 'a) act" where
  "catches m h s = (case m s of (s', Inl e) \<Rightarrow> h e s' | (s', Inr x) \<Rightarrow> (s', Inr x))"

fun for_each :: "('a \<Rightarrow> ('s, unit) act) \<Rightarrow> 'a list \<Rightarrow> ('s, unit) act" where
  "for_each f [] s = (s, Inr ())"
| "for_each f (x # xs) s = (case f x s of (s', Inl e) \<Rightarrow> (s', Inl e) | (s', Inr u) \<Rightarrow> for_each f xs s')"

text \<open>A loop that adds up what its body returns.\<close>

fun sum_each :: "('a \<Rightarrow> ('s, nat) act) \<Rightarrow> 'a list \<Rightarrow> nat \<Rightarrow> ('s, nat) act" where
  "sum_each f [] n s = (s, Inr n)"
| "sum_each f (x # xs) n s = (case f x s of (s', Inl e) \<Rightarrow> (s', Inl e) | (s', Inr k) \<Rightarrow> sum_each f xs (n + k) s')"

text \<open>A property of the state that an action keeps, whether it returns or raises.\<close>

definition keeps :: "('s \<Rightarrow> bool) \<Rightarrow> ('s, 'a) act \<Rightarrow> bool" where
  "keeps P m \<longleftrightarrow> (\<forall>s. P s \<longrightarrow> P (fst (m s)))"

named_theorems keeps_rules \<open>rules that show an action keeps a property\<close>

lemma keepsD: "keeps P m \<Longrightarrow> P s \<Longrightarrow> P (fst (m s))"
  by (simp add: keeps_def)

lemma keeps_ret [keeps_rules]: "keeps P (ret x)"
  by (simp add: keeps_def ret_def)

lemma keeps_raise [keeps_rules]: "keeps P (raise_error e)"
  by (simp add: keeps_def raise_error_def)

lemma keeps_reads [keeps_rules]: "keeps P (reads f)"
  by (simp add: keeps_def reads_def)

lemma keeps_lifts [keeps_rules]: "keeps P (lifts r)"
  by (simp add: keeps_def lifts_def)

lemma keeps_modifies: "(\<And>s. P s \<Longrightarrow> P (f s)) \<Longrightarrow> keeps P (modifies f)"
  by (simp add: keeps_def modifies_def)

lemma keeps_abind [keeps_rules]: "keeps P m \<Longrightarrow> (\<And>x. keeps P (f x)) \<Longrightarrow> keeps P (abind m f)"
  by (fastforce simp: keeps_def abind_def split: prod.splits sum.splits)

lemma keeps_aseq [keeps_rules]: "keeps P m \<Longrightarrow> keeps P n \<Longrightarrow> keeps P (aseq m n)"
  unfolding aseq_def by (rule keeps_abind)

lemma keeps_catches [keeps_rules]: "keeps P m \<Longrightarrow> (\<And>e. keeps P (h e)) \<Longrightarrow> keeps P (catches m h)"
  by (fastforce simp: keeps_def catches_def split: prod.splits sum.splits)

lemma keeps_for_each [keeps_rules]: "(\<And>x. x \<in> set xs \<Longrightarrow> keeps P (f x)) \<Longrightarrow> keeps P (for_each f xs)"
proof (induction xs)
  case (Cons x xs)
  then have "keeps P (f x)" "keeps P (for_each f xs)" by auto
  then show ?case by (fastforce simp: keeps_def split: prod.splits sum.splits)
qed (simp add: keeps_def)

lemma keeps_sum_each [keeps_rules]: "(\<And>x. x \<in> set xs \<Longrightarrow> keeps P (f x)) \<Longrightarrow> keeps P (sum_each f xs n)"
proof (induction xs arbitrary: n)
  case (Cons x xs)
  then have "keeps P (f x)" "\<And>n. keeps P (sum_each f xs n)" by auto
  then show ?case by (fastforce simp: keeps_def split: prod.splits sum.splits)
qed (simp add: keeps_def)

lemma keeps_pure [keeps_rules]: "keeps P (\<lambda>s. (s, f s))"
  by (simp add: keeps_def)

text \<open>A continuation of a read may use what was read.\<close>

lemma keeps_read_bind: "(\<And>s. P s \<Longrightarrow> P (fst (f (g s) s))) \<Longrightarrow> keeps P (abind (reads g) f)"
  by (simp add: keeps_def abind_def reads_def)

lemma keeps_if [keeps_rules]: "(b \<Longrightarrow> keeps P m) \<Longrightarrow> (\<not> b \<Longrightarrow> keeps P n) \<Longrightarrow> keeps P (if b then m else n)"
  by simp

lemma keeps_option [keeps_rules]:
  "(v = None \<Longrightarrow> keeps P m) \<Longrightarrow> (\<And>x. v = Some x \<Longrightarrow> keeps P (f x)) \<Longrightarrow> keeps P (case v of None \<Rightarrow> m | Some x \<Rightarrow> f x)"
  by (cases v) auto

lemma keeps_prod [keeps_rules]: "(\<And>x y. v = (x, y) \<Longrightarrow> keeps P (f x y)) \<Longrightarrow> keeps P (case v of (x, y) \<Rightarrow> f x y)"
  by (cases v) auto

subsection \<open>Dictionaries\<close>

text \<open>
  A Python dictionary is an association list with distinct keys in insertion order:
  \<open>d.get(k)\<close> is \<open>map_of d k\<close>, \<open>d[k] = v\<close> is \<open>AList.update\<close> (which keeps the position of an
  existing key and appends a new one), \<open>del d[k]\<close> is \<open>AList.delete\<close>.
\<close>

definition dict_ok :: "('k \<times> 'v) list \<Rightarrow> bool" where
  "dict_ok d = distinct (map fst d)"

lemma map_of_update [simp, dict_simps]: "map_of (AList.update k v d) = (map_of d)(k \<mapsto> v)"
  by (simp add: update_conv')

lemma map_of_delete [simp, dict_simps]: "map_of (AList.delete k d) = (map_of d)(k := None)"
  by (simp add: delete_conv')

lemma dict_ok_Nil [simp]: "dict_ok []"
  by (simp add: dict_ok_def)

lemma dict_ok_update [simp, intro]: "dict_ok d \<Longrightarrow> dict_ok (AList.update k v d)"
  unfolding dict_ok_def by (rule distinct_update)

lemma dict_ok_delete [simp, intro]: "dict_ok d \<Longrightarrow> dict_ok (AList.delete k d)"
  unfolding dict_ok_def by (rule distinct_delete)

lemma dict_ok_map_of: "dict_ok d \<Longrightarrow> (k, v) \<in> set d \<longleftrightarrow> map_of d k = Some v"
  unfolding dict_ok_def by (metis map_of_SomeD map_of_is_SomeI)

text \<open>\<open>d.setdefault(k, v)\<close> as a state update.\<close>

definition dict_default :: "'k \<Rightarrow> 'v \<Rightarrow> ('k \<times> 'v) list \<Rightarrow> ('k \<times> 'v) list" where
  "dict_default k v d = (case map_of d k of None \<Rightarrow> AList.update k v d | Some _ \<Rightarrow> d)"

lemma map_of_dict_default [simp, dict_simps]:
  "map_of (dict_default k v d) k' =
     (if k' = k then Some (case map_of d k of None \<Rightarrow> v | Some w \<Rightarrow> w) else map_of d k')"
  by (auto simp: dict_default_def split: option.splits)

subsection \<open>Lists\<close>

text \<open>The first element with the least key: \<open>ORDER BY key, rowid LIMIT 1\<close> over rows in rowid order.\<close>

fun min_by :: "('a \<Rightarrow> 'b::linorder) \<Rightarrow> 'a list \<Rightarrow> 'a option" where
  "min_by f [] = None"
| "min_by f (x # xs) =
     (case min_by f xs of None \<Rightarrow> Some x | Some y \<Rightarrow> (if f x \<le> f y then Some x else Some y))"

lemma min_by_None [simp]: "min_by f xs = None \<longleftrightarrow> xs = []"
  by (cases xs) (auto split: option.splits)

lemma min_by_Some:
  "min_by f xs = Some x \<Longrightarrow> x \<in> set xs \<and> (\<forall>y \<in> set xs. f x \<le> f y)"
proof (induction xs arbitrary: x)
  case (Cons a xs)
  show ?case
  proof (cases "min_by f xs")
    case None
    with Cons.prems show ?thesis by simp
  next
    case (Some y)
    with Cons.IH [OF Some] Cons.prems show ?thesis
      by (auto split: if_splits)
  qed
qed simp

lemma min_by_in: "min_by f xs = Some x \<Longrightarrow> x \<in> set xs"
  by (simp add: min_by_Some)

lemma min_by_le: "min_by f xs = Some x \<Longrightarrow> y \<in> set xs \<Longrightarrow> f x \<le> f y"
  by (simp add: min_by_Some)

lemma find_Some_in: "find P xs = Some x \<Longrightarrow> x \<in> set xs \<and> P x"
  by (auto simp: find_Some_iff)

lemma find_map_same:
  assumes "\<And>x. P (f x) = P x"
  shows "find P (map f xs) = map_option f (find P xs)"
  using assms by (induction xs) auto

lemma find_append: "find P (xs @ ys) = (case find P xs of None \<Rightarrow> find P ys | Some x \<Rightarrow> Some x)"
  by (induction xs) auto

text \<open>\<open>LIMIT n\<close>, where no limit is every row.\<close>

definition take_opt :: "nat option \<Rightarrow> 'a list \<Rightarrow> 'a list" where
  "take_opt n xs = (case n of None \<Rightarrow> xs | Some k \<Rightarrow> take k xs)"

lemma set_take_opt: "set (take_opt n xs) \<subseteq> set xs"
  by (auto simp: take_opt_def dest: in_set_takeD split: option.splits)

lemma distinct_take_opt: "distinct xs \<Longrightarrow> distinct (take_opt n xs)"
  by (simp add: take_opt_def split: option.splits)

lemma length_take_opt: "length (take_opt n xs) \<le> length xs"
  by (simp add: take_opt_def split: option.splits)

end
