(* ===== verification/Py_Values.thy ===== *)
theory Py_Values
  imports Entourage_Prelude
begin

text \<open>
  The Python values the program handles: JSON data, floats with their non-finite values,
  truthiness, and the text the code builds from values (\<open>str\<close> of an integer, \<open>repr\<close> of a string,
  \<open>json.dumps\<close> of a list of strings). A finite float is an exact rational: rounding is not
  modelled. A character is a code point below 256.
\<close>

subsection \<open>Values\<close>

datatype pyfloat = Fin rat | PosInf | NegInf | NaN

definition isfinite :: "pyfloat \<Rightarrow> bool" where
  "isfinite x = (case x of Fin _ \<Rightarrow> True | _ \<Rightarrow> False)"

text \<open>The number behind a finite float; the code reads it only after \<open>math.isfinite\<close>.\<close>

definition fin_val :: "pyfloat \<Rightarrow> rat" where
  "fin_val x = (case x of Fin r \<Rightarrow> r | _ \<Rightarrow> 0)"

lemma isfinite_Fin [simp]: "isfinite (Fin r)"
  by (simp add: isfinite_def)

lemma fin_val_Fin [simp]: "fin_val (Fin r) = r"
  by (simp add: fin_val_def)

lemma isfiniteE: "isfinite x \<Longrightarrow> (\<And>r. x = Fin r \<Longrightarrow> P) \<Longrightarrow> P"
  by (cases x) (auto simp: isfinite_def)

datatype json =
    JNull
  | JBool bool
  | JInt int
  | JFloat pyfloat
  | JStr string
  | JList "json list"
  | JObj "(string \<times> json) list"

type_synonym dict = "(string \<times> json) list"

text \<open>\<open>bool(value)\<close>: zero, the empty containers and \<open>None\<close> are false.\<close>

fun truthy :: "json \<Rightarrow> bool" where
  "truthy JNull = False"
| "truthy (JBool b) = b"
| "truthy (JInt i) = (i \<noteq> 0)"
| "truthy (JFloat x) = (x \<noteq> Fin 0)"
| "truthy (JStr s) = (s \<noteq> [])"
| "truthy (JList xs) = (xs \<noteq> [])"
| "truthy (JObj d) = (d \<noteq> [])"

definition is_obj :: "json \<Rightarrow> bool" where
  "is_obj v = (case v of JObj _ \<Rightarrow> True | _ \<Rightarrow> False)"

lemma is_obj_JObj [simp]: "is_obj (JObj d)"
  by (simp add: is_obj_def)

text \<open>A value every float of which is finite: what \<open>json.dumps(..., allow_nan=False)\<close> accepts.\<close>

fun json_finite :: "json \<Rightarrow> bool" where
  "json_finite (JFloat x) = isfinite x"
| "json_finite (JList xs) = list_all json_finite xs"
| "json_finite (JObj d) = list_all (\<lambda>kv. json_finite (snd kv)) d"
| "json_finite _ = True"

text \<open>
  The content of a value up to the order of object keys: keys sorted at every level. Two values
  have the same \<open>json.dumps(..., sort_keys=True)\<close> text when their canonical forms are equal.
\<close>

fun str_less_eq :: "string \<Rightarrow> string \<Rightarrow> bool" where
  "str_less_eq [] _ = True"
| "str_less_eq (c # cs) [] = False"
| "str_less_eq (c # cs) (d # ds) =
     (if (of_char c :: nat) < of_char d then True
      else if c = d then str_less_eq cs ds else False)"

fun insert_key :: "string \<times> 'v \<Rightarrow> (string \<times> 'v) list \<Rightarrow> (string \<times> 'v) list" where
  "insert_key kv [] = [kv]"
| "insert_key kv (x # xs) =
     (if str_less_eq (fst kv) (fst x) then kv # x # xs else x # insert_key kv xs)"

fun canon :: "json \<Rightarrow> json" where
  "canon (JList xs) = JList (map canon xs)"
| "canon (JObj d) = JObj (foldr insert_key (map (\<lambda>kv. (fst kv, canon (snd kv))) d) [])"
| "canon v = v"

text \<open>\<open>d.get(k, v)\<close>, \<open>isinstance(v, str)\<close> and the text of a string.\<close>

definition dict_get :: "dict \<Rightarrow> string \<Rightarrow> json \<Rightarrow> json" where
  "dict_get d k v = (case map_of d k of None \<Rightarrow> v | Some w \<Rightarrow> w)"

definition is_str :: "json \<Rightarrow> bool" where
  "is_str v = (case v of JStr _ \<Rightarrow> True | _ \<Rightarrow> False)"

definition str_of :: "json \<Rightarrow> string" where
  "str_of v = (case v of JStr s \<Rightarrow> s | _ \<Rightarrow> [])"

subsection \<open>Text\<close>

definition starts_with :: "string \<Rightarrow> string \<Rightarrow> bool" where
  "starts_with p s = (take (length p) s = p)"

lemma starts_with_append [simp]: "starts_with p (p @ s)"
  by (simp add: starts_with_def)

lemma starts_with_iff: "starts_with p s \<longleftrightarrow> (\<exists>t. s = p @ t)"
  unfolding starts_with_def by (metis append_take_drop_id append_eq_conv_conj)

text \<open>\<open>str(n)\<close> for a non-negative integer, and its inverse.\<close>

definition digit_char :: "nat \<Rightarrow> char" where
  "digit_char d = char_of (48 + d)"

fun nat_text :: "nat \<Rightarrow> string" where
  "nat_text n = (if n < 10 then [digit_char n] else nat_text (n div 10) @ [digit_char (n mod 10)])"

declare nat_text.simps [simp del]

definition text_nat :: "string \<Rightarrow> nat" where
  "text_nat s = foldl (\<lambda>a c. 10 * a + (of_char c - 48)) 0 s"

lemma of_digit_char: "d < 10 \<Longrightarrow> (of_char (digit_char d) :: nat) = 48 + d"
  by (simp add: digit_char_def)

lemma text_nat_nat_text: "text_nat (nat_text n) = n"
proof (induction n rule: nat_text.induct)
  case (1 n)
  show ?case
  proof (cases "n < 10")
    case True
    then show ?thesis
      by (subst nat_text.simps) (simp add: text_nat_def of_digit_char)
  next
    case False
    then have "text_nat (nat_text n) = 10 * text_nat (nat_text (n div 10)) + n mod 10"
      by (subst nat_text.simps) (simp add: text_nat_def of_digit_char)
    with False "1.IH" show ?thesis by simp
  qed
qed

lemma nat_text_inj [simp]: "nat_text m = nat_text n \<longleftrightarrow> m = n"
  by (metis text_nat_nat_text)

definition int_text :: "int \<Rightarrow> string" where
  "int_text i = (if i < 0 then CHR ''-'' # nat_text (nat (- i)) else nat_text (nat i))"

text \<open>\<open>repr(s)\<close> of a string: the quote choice and the escapes of CPython for printable text.\<close>

definition hex_char :: "nat \<Rightarrow> char" where
  "hex_char d = char_of (if d < 10 then 48 + d else 87 + d)"

definition hex2 :: "nat \<Rightarrow> string" where
  "hex2 n = [hex_char (n div 16), hex_char (n mod 16)]"

definition repr_char :: "char \<Rightarrow> char \<Rightarrow> string" where
  "repr_char q c =
     (let n = (of_char c :: nat) in
      if c = q \<or> n = 92 then [CHR 0x5C, c]
      else if n = 10 then [CHR 0x5C, CHR ''n'']
      else if n = 13 then [CHR 0x5C, CHR ''r'']
      else if n = 9 then [CHR 0x5C, CHR ''t'']
      else if n < 32 \<or> n \<ge> 127 \<and> n \<le> 160 \<or> n = 173 then [CHR 0x5C, CHR ''x''] @ hex2 n
      else [c])"

definition repr_str :: "string \<Rightarrow> string" where
  "repr_str s =
     (let q = (if CHR 0x27 \<in> set s \<and> CHR 0x22 \<notin> set s then CHR 0x22 else CHR 0x27)
      in q # concat (map (repr_char q) s) @ [q])"

subsection \<open>\<open>json.dumps\<close> of a list of strings\<close>

text \<open>
  The text \<open>_identity\<close> hashes: a JSON array of strings with \<open>ensure_ascii=True\<close>. The encoding of
  a string is uniquely decodable, so the text determines the list.
\<close>

definition json_esc :: "char \<Rightarrow> string" where
  "json_esc c =
     (let n = (of_char c :: nat) in
      if n = 34 \<or> n = 92 then [CHR 0x5C, c]
      else if n = 10 then [CHR 0x5C, CHR ''n'']
      else if n = 13 then [CHR 0x5C, CHR ''r'']
      else if n = 9 then [CHR 0x5C, CHR ''t'']
      else if n = 12 then [CHR 0x5C, CHR ''f'']
      else if n = 8 then [CHR 0x5C, CHR ''b'']
      else if n < 32 \<or> n > 126 then [CHR 0x5C, CHR ''u'', CHR ''0'', CHR ''0''] @ hex2 n
      else [c])"

definition dumps_str :: "string \<Rightarrow> string" where
  "dumps_str s = CHR 0x22 # concat (map json_esc s) @ [CHR 0x22]"

fun dumps_tail :: "string list \<Rightarrow> string" where
  "dumps_tail [] = '']''"
| "dumps_tail (s # ss) = '', '' @ dumps_str s @ dumps_tail ss"

definition dumps_strs :: "string list \<Rightarrow> string" where
  "dumps_strs ss =
     (case ss of [] \<Rightarrow> ''[]'' | s # ss' \<Rightarrow> ''['' @ dumps_str s @ dumps_tail ss')"

text \<open>Reading one character back: the inverse of \<open>json_esc\<close> on any following text.\<close>

definition hex_val :: "char \<Rightarrow> nat" where
  "hex_val c = (let n = (of_char c :: nat) in if n < 58 then n - 48 else n - 87)"

definition unesc :: "string \<Rightarrow> char \<times> string" where
  "unesc s =
     (case s of
        [] \<Rightarrow> (CHR 0x00, [])
      | c # t \<Rightarrow>
          if (of_char c :: nat) \<noteq> 92 then (c, t)
          else (case t of
                  [] \<Rightarrow> (CHR 0x00, [])
                | d # u \<Rightarrow>
                    if d = CHR ''n'' then (CHR 0x0A, u)
                    else if d = CHR ''r'' then (CHR 0x0D, u)
                    else if d = CHR ''t'' then (CHR 0x09, u)
                    else if d = CHR ''f'' then (CHR 0x0C, u)
                    else if d = CHR ''b'' then (CHR 0x08, u)
                    else if d = CHR ''u''
                      then (char_of (16 * hex_val (u ! 2) + hex_val (u ! 3)), drop 4 u)
                    else (d, u)))"

lemma hex_val_hex_char: "d < 16 \<Longrightarrow> hex_val (hex_char d) = d"
  by (simp add: hex_val_def hex_char_def Let_def)

lemma of_char_lt: "(of_char c :: nat) < 256"
  by simp

lemma char_eq_nat: "c = d \<longleftrightarrow> (of_char c :: nat) = of_char d"
  by simp

lemma of_char_eqD: "(of_char c :: nat) = n \<Longrightarrow> c = char_of n"
  by auto

lemma char_codes:
  "char_of (34::nat) = CHR 0x22" "char_of (92::nat) = CHR 0x5C" "char_of (10::nat) = CHR 0x0A"
  "char_of (13::nat) = CHR 0x0D" "char_of (9::nat) = CHR 0x09" "char_of (12::nat) = CHR 0x0C"
  "char_of (8::nat) = CHR 0x08"
  by code_simp+

lemma unesc_json_esc: "unesc (json_esc c @ rest) = (c, rest)"
proof -
  let ?n = "of_char c :: nat"
  have n: "?n < 256" by simp
  have hex: "hex_val (hex_char (?n div 16)) = ?n div 16" "hex_val (hex_char (?n mod 16)) = ?n mod 16"
    using n by (auto intro!: hex_val_hex_char simp: less_mult_imp_div_less)
  have glue: "char_of (16 * (?n div 16) + ?n mod 16) = c"
    by (metis char_of_char mult_div_mod_eq)
  consider "?n = 34" | "?n = 92" | "?n = 10" | "?n = 13" | "?n = 9" | "?n = 12" | "?n = 8"
    | (plain) "?n \<notin> {34, 92, 10, 13, 9, 12, 8}" by blast
  then show ?thesis
  proof cases
    case plain
    then show ?thesis
      by (auto simp: unesc_def json_esc_def Let_def hex2_def hex glue)
  qed (auto dest!: of_char_eqD simp: unesc_def json_esc_def char_codes)
qed

lemma json_esc_not_quote: "json_esc c \<noteq> CHR 0x22 # x" "json_esc c \<noteq> []"
  by (auto simp: json_esc_def Let_def hex2_def)

lemma esc_stream_inj:
  "concat (map json_esc s) @ CHR 0x22 # u = concat (map json_esc t) @ CHR 0x22 # v \<Longrightarrow> s = t \<and> u = v"
proof (induction s arbitrary: t)
  case Nil
  then show ?case
    by (cases t) (auto simp: Cons_eq_append_conv json_esc_not_quote dest: sym)
next
  case (Cons c s)
  show ?case
  proof (cases t)
    case Nil
    with Cons.prems show ?thesis
      by (auto simp: append_eq_Cons_conv json_esc_not_quote)
  next
    case (Cons d t')
    let ?a = "concat (map json_esc s) @ CHR 0x22 # u"
    let ?b = "concat (map json_esc t') @ CHR 0x22 # v"
    from Cons.prems Cons have "unesc (json_esc c @ ?a) = unesc (json_esc d @ ?b)" by simp
    then have "c = d" "?a = ?b" by (simp_all add: unesc_json_esc)
    with Cons.IH [of t'] Cons show ?thesis by simp
  qed
qed

lemma dumps_str_stream_inj: "dumps_str s @ u = dumps_str t @ v \<Longrightarrow> s = t \<and> u = v"
  using esc_stream_inj [of s u t v] by (simp add: dumps_str_def)

lemma dumps_tail_inj: "dumps_tail ss = dumps_tail ts \<Longrightarrow> ss = ts"
proof (induction ss arbitrary: ts)
  case Nil
  then show ?case by (cases ts) auto
next
  case (Cons s ss)
  then show ?case by (cases ts) (auto dest!: dumps_str_stream_inj)
qed

lemma dumps_strs_inj: "dumps_strs ss = dumps_strs ts \<longleftrightarrow> ss = ts"
proof
  assume eq: "dumps_strs ss = dumps_strs ts"
  show "ss = ts"
  proof (cases ss; cases ts)
    fix s ss' t ts' assume "ss = s # ss'" "ts = t # ts'"
    with eq show ?thesis
      by (auto simp: dumps_strs_def dest!: dumps_str_stream_inj dumps_tail_inj)
  qed (use eq in \<open>auto simp: dumps_strs_def dumps_str_def\<close>)
qed simp

subsection \<open>Exceptions as text\<close>

text \<open>\<open>type(error).__name__\<close> and \<open>str(error)\<close>.\<close>

definition error_class :: "py_error \<Rightarrow> string" where
  "error_class e = (case e of ValueError _ \<Rightarrow> ''ValueError'' | KeyError _ \<Rightarrow> ''KeyError'' | TypeError _ \<Rightarrow> ''TypeError''
     | StaleActivation _ \<Rightarrow> ''StaleActivation'' | SessionAlreadyExists _ \<Rightarrow> ''SessionAlreadyExists''
     | RecursionLimitExceeded _ \<Rightarrow> ''RecursionLimitExceeded'' | OtherError c _ \<Rightarrow> c)"

definition error_text :: "py_error \<Rightarrow> string" where
  "error_text e = (case e of ValueError m \<Rightarrow> m | KeyError k \<Rightarrow> repr_str k | TypeError m \<Rightarrow> m
     | StaleActivation s \<Rightarrow> s | SessionAlreadyExists s \<Rightarrow> s | RecursionLimitExceeded m \<Rightarrow> m | OtherError _ m \<Rightarrow> m)"

end
