(* ===== verification/Session_Backend.thy ===== *)
theory Session_Backend
  imports Py_Values
begin

text \<open>
  The types of the storage contract (\<open>entourage/session_backend.py\<close>): activations, publications,
  spawned children, session status and the observations a store returns. Times are exact numbers
  (\<open>rat\<close>); a caller's float arguments keep their non-finite values (\<open>pyfloat\<close>) until the code has
  checked them. A mail event is a JSON object.
\<close>

datatype status = Ready | Active | Waiting | Complete | Failed

definition status_text :: "status \<Rightarrow> string" where
  "status_text s =
     (case s of Ready \<Rightarrow> ''ready'' | Active \<Rightarrow> ''active'' | Waiting \<Rightarrow> ''waiting''
        | Complete \<Rightarrow> ''complete'' | Failed \<Rightarrow> ''failed'')"

lemma status_text_inj [simp]: "status_text a = status_text b \<longleftrightarrow> a = b"
  by (cases a; cases b) (simp_all add: status_text_def)

text \<open>The leased snapshot a claim returns.\<close>

record activation =
  a_session_id :: string
  a_executable :: string
  a_token :: string
  a_state :: json
  a_events :: "dict list"
  a_has_more :: bool
  a_attempt :: nat
  a_last_error :: "string option"

record publication =
  pub_session_id :: string
  pub_event :: dict

record spawn =
  sp_session_id :: string
  sp_executable :: string
  sp_state :: json

record session_snapshot =
  sn_executable :: string
  sn_state :: json
  sn_status :: status
  sn_deadline :: "rat option"
  sn_revision :: nat
  sn_attempts :: nat
  sn_last_error :: "string option"

record session_listing =
  sl_session_id :: string
  sl_executable :: string
  sl_status :: status
  sl_deadline :: "rat option"
  sl_revision :: nat
  sl_attempts :: nat
  sl_worker :: "string option"
  sl_lease_until :: "rat option"

text \<open>\<open>event.get("event_id")\<close> as the nonempty string the contract requires, if it is one.\<close>

definition event_key :: "dict \<Rightarrow> string option" where
  "event_key e = (case map_of e ''event_id'' of
     Some (JStr s) \<Rightarrow> (if s = [] then None else Some s) | _ \<Rightarrow> None)"

lemma event_key_Some:
  "event_key e = Some k \<longleftrightarrow> map_of e ''event_id'' = Some (JStr k) \<and> k \<noteq> []"
  by (auto simp: event_key_def split: option.splits json.splits)

end
