(* ===== verification/Local_Sessions.thy ===== *)
theory Local_Sessions
  imports Session_Backend
begin

text \<open>
  The SQLite session store (\<open>entourage/sessions.py\<close>, class \<open>LocalSessions\<close>). The database is a
  record of its three tables, each a list in row order: \<open>wake_sessions\<close> by rowid, \<open>wake_inputs\<close>
  by \<open>seq\<close>, \<open>wake_definitions\<close>. An operation is one transaction: it returns the new database, or
  an exception and then no database (the rollback). Each reading of the clock is an argument, in
  the order of the calls; a fresh lease token (\<open>uuid4\<close>) is an argument of \<open>claim\<close>.
\<close>

subsection \<open>Tables\<close>

record session_row =
  s_id :: string
  s_executable :: string
  s_state :: json
  s_status :: status
  s_deadline :: "rat option"
  s_token :: "string option"
  s_lease_until :: "rat option"
  s_revision :: nat
  s_last_claim :: nat
  s_completed_at :: "rat option"
  s_attempts :: nat
  s_worker :: "string option"
  s_last_error :: "string option"

record input_row =
  i_session :: string
  i_event_id :: string
  i_event :: dict
  i_incorporated :: bool

record wake_db =
  sessions :: "session_row list"
  inputs :: "input_row list"
  definitions :: "(string \<times> json) list"

definition empty_db :: wake_db where
  "empty_db = \<lparr>sessions = [], inputs = [], definitions = []\<rparr>"

text \<open>\<open>SELECT * FROM wake_sessions WHERE id = ?\<close> and \<open>UPDATE wake_sessions SET ... WHERE id = ?\<close>.\<close>

definition find_session :: "wake_db \<Rightarrow> string \<Rightarrow> session_row option" where
  "find_session db sid = find (\<lambda>r. s_id r = sid) (sessions db)"

definition update_session :: "string \<Rightarrow> (session_row \<Rightarrow> session_row) \<Rightarrow> wake_db \<Rightarrow> wake_db" where
  "update_session sid f db =
     db\<lparr>sessions := map (\<lambda>r. if s_id r = sid then f r else r) (sessions db)\<rparr>"

text \<open>\<open>SELECT 1 FROM wake_inputs WHERE session_id = ? AND event_id = ?\<close>; pending mail in \<open>seq\<close> order.\<close>

definition has_input :: "wake_db \<Rightarrow> string \<Rightarrow> string \<Rightarrow> bool" where
  "has_input db sid eid = list_ex (\<lambda>i. i_session i = sid \<and> i_event_id i = eid) (inputs db)"

definition pending :: "wake_db \<Rightarrow> string \<Rightarrow> input_row list" where
  "pending db sid = filter (\<lambda>i. i_session i = sid \<and> \<not> i_incorporated i) (inputs db)"

subsection \<open>Definitions\<close>

definition bind_definition :: "wake_db \<Rightarrow> string \<Rightarrow> json \<Rightarrow> wake_db res" where
  "bind_definition db executable contract =
     (if \<not> json_finite contract then Inl (ValueError ''Out of range float values are not JSON compliant'')
      else let encoded = canon contract in
        case map_of (definitions db) executable of
          Some old \<Rightarrow>
            if old \<noteq> encoded
            then Inl (ValueError (''definition '' @ repr_str executable @ '' changed; register a new version''))
            else Inr db
        | None \<Rightarrow> Inr (db\<lparr>definitions := definitions db @ [(executable, encoded)]\<rparr>))"

subsection \<open>Observations\<close>

definition snapshot_of :: "session_row \<Rightarrow> session_snapshot" where
  "snapshot_of r = \<lparr>sn_executable = s_executable r, sn_state = s_state r, sn_status = s_status r,
     sn_deadline = s_deadline r, sn_revision = s_revision r, sn_attempts = s_attempts r,
     sn_last_error = s_last_error r\<rparr>"

definition inspect :: "wake_db \<Rightarrow> string \<Rightarrow> session_snapshot res" where
  "inspect db sid =
     (case find_session db sid of None \<Rightarrow> Inl (KeyError sid) | Some r \<Rightarrow> Inr (snapshot_of r))"

text \<open>The \<open>_READY\<close> predicate of the claim and of the enumeration.\<close>

definition ready :: "rat \<Rightarrow> wake_db \<Rightarrow> session_row \<Rightarrow> bool" where
  "ready now db r \<longleftrightarrow>
     s_status r \<notin> {Complete, Failed}
     \<and> (case s_lease_until r of None \<Rightarrow> True | Some t \<Rightarrow> t \<le> now)
     \<and> (s_status r \<in> {Ready, Active}
        \<or> (case s_deadline r of None \<Rightarrow> False | Some d \<Rightarrow> d \<le> now)
        \<or> list_ex (\<lambda>i. i_session i = s_id r \<and> \<not> i_incorporated i) (inputs db))"

definition listing_of :: "session_row \<Rightarrow> session_listing" where
  "listing_of r = \<lparr>sl_session_id = s_id r, sl_executable = s_executable r, sl_status = s_status r,
     sl_deadline = s_deadline r, sl_revision = s_revision r, sl_attempts = s_attempts r,
     sl_worker = s_worker r, sl_lease_until = s_lease_until r\<rparr>"

definition list_sessions ::
    "wake_db \<Rightarrow> rat \<Rightarrow> string option \<Rightarrow> string option \<Rightarrow> bool option \<Rightarrow> int option
       \<Rightarrow> session_listing list res" where
  "list_sessions db now executable stat want limit =
     (if (case stat of None \<Rightarrow> False
            | Some t \<Rightarrow> t \<notin> {''ready'', ''active'', ''waiting'', ''complete'', ''failed''})
      then Inl (ValueError ''status must be ready, active, waiting, complete or failed'')
      else if (case limit of None \<Rightarrow> False | Some n \<Rightarrow> n \<le> 0)
      then Inl (ValueError ''limit must be a positive integer'')
      else Inr (map listing_of (take_opt (map_option nat limit)
        (filter (\<lambda>r. (executable = None \<or> executable = Some (s_executable r))
                   \<and> (stat = None \<or> stat = Some (status_text (s_status r)))
                   \<and> (case want of None \<Rightarrow> True | Some b \<Rightarrow> ready now db r = b))
           (sessions db)))))"

subsection \<open>Creation and mail\<close>

definition new_row :: "string \<Rightarrow> string \<Rightarrow> json \<Rightarrow> session_row" where
  "new_row sid executable st = \<lparr>s_id = sid, s_executable = executable, s_state = st,
     s_status = Ready, s_deadline = None, s_token = None, s_lease_until = None, s_revision = 0,
     s_last_claim = 0, s_completed_at = None, s_attempts = 0, s_worker = None,
     s_last_error = None\<rparr>"

definition create_session :: "wake_db \<Rightarrow> string \<Rightarrow> string \<Rightarrow> json \<Rightarrow> wake_db res" where
  "create_session db sid executable st =
     (if sid = [] \<or> executable = []
      then Inl (ValueError ''session_id and executable must be nonempty'')
      else if \<not> is_obj st then Inl (ValueError ''state must be a JSON object'')
      else case find_session db sid of
        Some _ \<Rightarrow> Inl (SessionAlreadyExists sid)
      | None \<Rightarrow> Inr (db\<lparr>sessions := sessions db @ [new_row sid executable st]\<rparr>))"

definition append_input :: "bool \<Rightarrow> wake_db \<Rightarrow> string \<Rightarrow> dict \<Rightarrow> (wake_db \<times> bool) res" where
  "append_input timer db sid event =
     (case event_key event of
        None \<Rightarrow> Inl (ValueError ''event requires a nonempty string event_id'')
      | Some eid \<Rightarrow>
          if starts_with ''timer:'' eid \<and> \<not> timer
          then Inl (ValueError ''timer: event IDs are reserved for deadline delivery'')
          else case find_session db sid of
            None \<Rightarrow> Inl (KeyError sid)
          | Some r \<Rightarrow>
              if has_input db sid eid then Inr (db, False)
              else if s_status r = Complete
              then Inl (ValueError (''session '' @ repr_str sid @ '' is complete''))
              else Inr (db\<lparr>inputs := inputs db @ [\<lparr>i_session = sid, i_event_id = eid,
                                i_event = event, i_incorporated = False\<rparr>]\<rparr>, True))"

definition append_mail :: "wake_db \<Rightarrow> string \<Rightarrow> dict \<Rightarrow> (wake_db \<times> bool) res" where
  "append_mail db sid event = append_input False db sid event"

subsection \<open>Claim\<close>

definition candidates ::
    "wake_db \<Rightarrow> rat \<Rightarrow> string option \<Rightarrow> string option \<Rightarrow> session_row list" where
  "candidates db now executable session =
     filter (\<lambda>r. ready now db r
               \<and> (executable = None \<or> executable = Some (s_executable r))
               \<and> (session = None \<or> session = Some (s_id r)))
       (sessions db)"

definition park_failed :: "session_row \<Rightarrow> session_row" where
  "park_failed r = r\<lparr>s_status := Failed, s_token := None, s_lease_until := None, s_worker := None\<rparr>"

definition live_count :: "wake_db \<Rightarrow> nat" where
  "live_count db = length (filter (\<lambda>r. s_status r \<noteq> Failed) (sessions db))"

lemma live_count_park:
  assumes "r \<in> set (sessions db)" and "s_status r \<noteq> Failed"
  shows "live_count (update_session (s_id r) park_failed db) < live_count db"
proof -
  let ?g = "\<lambda>r'. if s_id r' = s_id r then park_failed r' else r'"
  have le: "length (filter (\<lambda>r. s_status r \<noteq> Failed) (map ?g xs))
              \<le> length (filter (\<lambda>r. s_status r \<noteq> Failed) xs)" for xs
    by (induction xs) (auto simp: park_failed_def)
  have "r \<in> set xs \<Longrightarrow> length (filter (\<lambda>r. s_status r \<noteq> Failed) (map ?g xs))
              < length (filter (\<lambda>r. s_status r \<noteq> Failed) xs)" for xs
  proof (induction xs)
    case (Cons x xs)
    then show ?case using le [of xs] assms(2) by (auto simp: park_failed_def)
  qed simp
  with assms(1) show ?thesis by (simp add: live_count_def update_session_def)
qed

lemma candidates_ready:
  "r \<in> set (candidates db now ex sess) \<Longrightarrow> r \<in> set (sessions db) \<and> ready now db r"
  by (simp add: candidates_def)

lemma ready_not_terminal: "ready now db r \<Longrightarrow> s_status r \<noteq> Failed \<and> s_status r \<noteq> Complete"
  by (simp add: ready_def)

text \<open>
  The search loop of \<open>claim\<close>: take the least recently claimed ready session; park it as failed and
  look again if it has used its attempts. Every turn of the loop parks one more session.
\<close>

function claim_search ::
    "wake_db \<Rightarrow> rat \<Rightarrow> string option \<Rightarrow> string option \<Rightarrow> int option
       \<Rightarrow> wake_db \<times> session_row option" where
  "claim_search db now executable session max_attempts =
     (case min_by s_last_claim (candidates db now executable session) of
        None \<Rightarrow> (db, None)
      | Some r \<Rightarrow>
          if (case max_attempts of None \<Rightarrow> True | Some m \<Rightarrow> int (s_attempts r) < m)
          then (db, Some r)
          else claim_search (update_session (s_id r) park_failed db) now executable session max_attempts)"
  by pat_completeness auto
termination
proof (relation "measure (\<lambda>(db, _). live_count db)", goal_cases)
  case (2 db now ex sess ma r)
  then have "r \<in> set (candidates db now ex sess)" by (simp add: min_by_in)
  then have "r \<in> set (sessions db)" "s_status r \<noteq> Failed"
    using candidates_ready ready_not_terminal by blast+
  then show ?case by (simp add: live_count_park)
qed simp

declare claim_search.simps [simp del]

definition timer_event :: "string \<Rightarrow> nat \<Rightarrow> rat \<Rightarrow> dict" where
  "timer_event sid revision d =
     [(''event_id'', JStr (''timer:'' @ sid @ '':'' @ nat_text revision)),
      (''kind'', JStr ''system''), (''source'', JStr ''timer''),
      (''payload'', JObj [(''deadline'', JFloat (Fin d))])]"

definition next_claim :: "wake_db \<Rightarrow> nat" where
  "next_claim db = foldr max (map s_last_claim (sessions db)) 0 + 1"

definition lease :: "string \<Rightarrow> rat \<Rightarrow> string option \<Rightarrow> nat \<Rightarrow> session_row \<Rightarrow> session_row" where
  "lease token until worker n r =
     r\<lparr>s_status := Active, s_token := Some token, s_lease_until := Some until, s_worker := worker,
       s_attempts := s_attempts r + 1, s_last_claim := n\<rparr>"

definition deliver_timer :: "wake_db \<Rightarrow> rat \<Rightarrow> session_row \<Rightarrow> wake_db res" where
  "deliver_timer db now r =
     (case s_deadline r of
        Some d \<Rightarrow> if d \<le> now then rbind (append_input True db (s_id r) (timer_event (s_id r) (s_revision r) d)) (\<lambda>(db', _). Inr db')
                  else Inr db
      | None \<Rightarrow> Inr db)"

definition claim ::
    "wake_db \<Rightarrow> rat \<Rightarrow> string \<Rightarrow> pyfloat \<Rightarrow> string option \<Rightarrow> int option \<Rightarrow> string option
       \<Rightarrow> string option \<Rightarrow> int option \<Rightarrow> (wake_db \<times> activation option) res" where
  "claim db now token lease_seconds executable max_events session worker max_attempts =
     (if \<not> isfinite lease_seconds \<or> fin_val lease_seconds \<le> 0
      then Inl (ValueError ''lease_seconds must be finite and positive'')
      else if (case max_events of None \<Rightarrow> False | Some n \<Rightarrow> n \<le> 0)
      then Inl (ValueError ''max_events must be a positive integer'')
      else if (case max_attempts of None \<Rightarrow> False | Some n \<Rightarrow> n \<le> 0)
      then Inl (ValueError ''max_attempts must be a positive integer'')
      else case claim_search db now executable session max_attempts of
        (db1, None) \<Rightarrow> Inr (db1, None)
      | (db1, Some r) \<Rightarrow>
          rbind (deliver_timer db1 now r) (\<lambda>db2.
            let db3 = update_session (s_id r)
                        (lease token (now + fin_val lease_seconds) worker (next_claim db2)) db2;
                events = take_opt (map_option (\<lambda>n. nat n + 1) max_events)
                           (map i_event (pending db3 (s_id r)));
                has_more = (case max_events of None \<Rightarrow> False | Some n \<Rightarrow> length events > nat n)
            in Inr (db3, Some \<lparr>a_session_id = s_id r, a_executable = s_executable r,
                 a_token = token, a_state = s_state r,
                 a_events = (if has_more then take_opt (map_option nat max_events) events else events),
                 a_has_more = has_more, a_attempt = s_attempts r + 1,
                 a_last_error = s_last_error r\<rparr>)))"

subsection \<open>Holding, releasing and retrying\<close>

definition holder :: "wake_db \<Rightarrow> rat \<Rightarrow> activation \<Rightarrow> session_row res" where
  "holder db now act =
     (case find_session db (a_session_id act) of
        None \<Rightarrow> Inl (StaleActivation (a_session_id act))
      | Some r \<Rightarrow>
          if s_token r \<noteq> Some (a_token act)
             \<or> (case s_lease_until r of None \<Rightarrow> True | Some t \<Rightarrow> t \<le> now)
          then Inl (StaleActivation (a_session_id act)) else Inr r)"

definition parked_status :: "session_row \<Rightarrow> status" where
  "parked_status r = (if s_revision r > 0 then Waiting else Ready)"

definition release ::
    "wake_db \<Rightarrow> rat \<Rightarrow> rat \<Rightarrow> activation \<Rightarrow> string option \<Rightarrow> pyfloat option \<Rightarrow> wake_db res" where
  "release db now1 now2 act error retry_after =
     (if (case retry_after of None \<Rightarrow> False | Some t \<Rightarrow> \<not> isfinite t \<or> fin_val t < 0)
      then Inl (ValueError ''retry_after must be a finite, nonnegative number of seconds'')
      else rbind (holder db now1 act) (\<lambda>r.
        let until = (case retry_after of None \<Rightarrow> None
                       | Some t \<Rightarrow> if fin_val t = 0 then None else Some (now2 + fin_val t))
        in Inr (update_session (a_session_id act)
             (\<lambda>r'. r'\<lparr>s_status := parked_status r, s_token := None, s_lease_until := until,
                      s_worker := None, s_last_error := error\<rparr>) db)))"

definition retry :: "wake_db \<Rightarrow> string \<Rightarrow> (wake_db \<times> bool) res" where
  "retry db sid =
     (case find_session db sid of
        None \<Rightarrow> Inl (KeyError sid)
      | Some r \<Rightarrow>
          if s_status r \<noteq> Failed then Inr (db, False)
          else Inr (update_session sid
                 (\<lambda>r'. r'\<lparr>s_status := parked_status r, s_attempts := 0, s_last_error := None\<rparr>) db, True))"

subsection \<open>Commit\<close>

text \<open>The arguments of a checkpoint besides the activation.\<close>

record checkpoint =
  c_state :: json
  c_incorporated :: "string list"
  c_publish :: "publication list"
  c_deadline :: "pyfloat option"
  c_complete :: bool
  c_spawn :: "spawn list"
  c_rebind :: "string option"

definition commit_checks :: "activation \<Rightarrow> checkpoint \<Rightarrow> unit res" where
  "commit_checks act c =
     (if (case c_deadline c of None \<Rightarrow> False | Some d \<Rightarrow> \<not> isfinite d \<or> c_complete c)
      then Inl (ValueError ''deadline must be finite and belong to a waiting session'')
      else if (case c_rebind c of None \<Rightarrow> False | Some b \<Rightarrow> b = [] \<or> c_complete c)
      then Inl (ValueError ''rebind must name a definition for a session that continues'')
      else if c_rebind c = Some (a_executable act)
      then Inl (ValueError ''rebind must name a different definition'')
      else if list_ex (\<lambda>e. map_of e ''event_id'' = None) (a_events act)
      then Inl (KeyError ''event_id'')
      else if \<not> (\<forall>i \<in> set (c_incorporated c).
                   Some (JStr i) \<in> set (map (\<lambda>e. map_of e ''event_id'') (a_events act)))
      then Inl (ValueError ''cannot incorporate an input absent from this activation'')
      else let children = map sp_session_id (c_spawn c) in
        if \<not> distinct children \<or> a_session_id act \<in> set children
        then Inl (ValueError ''spawned session IDs must be distinct and differ from the parent'')
        else Inr ())"

definition is_bound :: "wake_db \<Rightarrow> string \<Rightarrow> bool" where
  "is_bound db executable = (map_of (definitions db) executable \<noteq> None)"

definition spawn_child :: "wake_db \<Rightarrow> spawn \<Rightarrow> wake_db res" where
  "spawn_child db ch =
     (if \<not> is_bound db (sp_executable ch)
      then Inl (ValueError (''cannot spawn unbound definition '' @ repr_str (sp_executable ch)))
      else create_session db (sp_session_id ch) (sp_executable ch) (sp_state ch))"

definition incorporate :: "string \<Rightarrow> wake_db \<Rightarrow> string \<Rightarrow> wake_db" where
  "incorporate sid db eid =
     db\<lparr>inputs := map (\<lambda>i. if i_session i = sid \<and> i_event_id i = eid
                           then i\<lparr>i_incorporated := True\<rparr> else i) (inputs db)\<rparr>"

definition publish_one :: "wake_db \<Rightarrow> publication \<Rightarrow> wake_db res" where
  "publish_one db p = rbind (append_input False db (pub_session_id p) (pub_event p)) (\<lambda>(db', _). Inr db')"

definition checkpointed :: "checkpoint \<Rightarrow> rat \<Rightarrow> session_row \<Rightarrow> session_row" where
  "checkpointed c now r =
     r\<lparr>s_state := c_state c,
       s_status := (if c_complete c then Complete else Waiting),
       s_deadline := map_option fin_val (c_deadline c),
       s_completed_at := (if c_complete c then Some now else None),
       s_executable := (case c_rebind c of None \<Rightarrow> s_executable r | Some b \<Rightarrow> b),
       s_token := None, s_lease_until := None, s_worker := None,
       s_attempts := 0, s_last_error := None, s_revision := s_revision r + 1\<rparr>"

definition commit :: "wake_db \<Rightarrow> rat \<Rightarrow> rat \<Rightarrow> activation \<Rightarrow> checkpoint \<Rightarrow> wake_db res" where
  "commit db now1 now2 act c =
     rbind (commit_checks act c) (\<lambda>_.
     rbind (holder db now2 act) (\<lambda>_.
     if (case c_rebind c of None \<Rightarrow> False | Some b \<Rightarrow> \<not> is_bound db b)
     then Inl (ValueError (''cannot rebind to unbound definition '' @
                repr_str (case c_rebind c of None \<Rightarrow> [] | Some b \<Rightarrow> b)))
     else
       rbind (fold_res spawn_child db (c_spawn c)) (\<lambda>db1.
       let db2 = foldl (incorporate (a_session_id act)) db1 (c_incorporated c) in
       rbind (fold_res publish_one db2 (c_publish c)) (\<lambda>db3.
       if c_complete c \<and> pending db3 (a_session_id act) \<noteq> []
       then Inl (ValueError ''cannot complete with unincorporated mail'')
       else Inr (update_session (a_session_id act) (checkpointed c now1) db3)))))"

subsection \<open>Retention\<close>

definition purgeable :: "wake_db \<Rightarrow> rat \<Rightarrow> nat option \<Rightarrow> session_row list" where
  "purgeable db cutoff limit =
     take_opt limit
       (sort_key (\<lambda>r. case s_completed_at r of None \<Rightarrow> 0 | Some t \<Rightarrow> t)
          (filter (\<lambda>r. s_status r = Complete
                     \<and> (case s_completed_at r of None \<Rightarrow> False | Some t \<Rightarrow> t < cutoff))
             (sessions db)))"

definition delete_session :: "wake_db \<Rightarrow> string \<Rightarrow> wake_db" where
  "delete_session db sid =
     db\<lparr>inputs := filter (\<lambda>i. i_session i \<noteq> sid) (inputs db),
        sessions := filter (\<lambda>r. s_id r \<noteq> sid) (sessions db)\<rparr>"

definition purge :: "wake_db \<Rightarrow> pyfloat \<Rightarrow> int option \<Rightarrow> (wake_db \<times> nat) res" where
  "purge db completed_before limit =
     (if \<not> isfinite completed_before
      then Inl (ValueError ''completed_before must be a finite Unix time'')
      else if (case limit of None \<Rightarrow> False | Some n \<Rightarrow> n \<le> 0)
      then Inl (ValueError ''limit must be a positive integer'')
      else let ids = map s_id (purgeable db (fin_val completed_before) (map_option nat limit))
           in Inr (foldl delete_session db ids, length ids))"

end
