(* ===== verification/Wake_Laws.thy ===== *)
theory Wake_Laws
  imports Local_Sessions
begin

text \<open>
  Laws of the session store: what each operation does to the tables on each of its branches, and
  the well-formedness invariant \<open>db_ok\<close> that every operation keeps. The collection \<open>db_simps\<close>
  holds the equations that read an updated database.
\<close>

named_theorems db_simps \<open>reading an updated session database\<close>

subsection \<open>Reading an updated database\<close>

lemma update_session_fields [simp, db_simps]:
  "inputs (update_session sid f db) = inputs db"
  "definitions (update_session sid f db) = definitions db"
  "pending (update_session sid f db) x = pending db x"
  "has_input (update_session sid f db) x e = has_input db x e"
  "is_bound (update_session sid f db) ex = is_bound db ex"
  by (simp_all add: update_session_def pending_def has_input_def is_bound_def)

lemma ids_update_session [db_simps]:
  "(\<And>r. s_id (f r) = s_id r) \<Longrightarrow> map s_id (sessions (update_session sid f db)) = map s_id (sessions db)"
  by (simp add: update_session_def)

lemma find_session_update [db_simps]:
  assumes "\<And>r. s_id (f r) = s_id r"
  shows "find_session (update_session sid f db) x =
           (if x = sid then map_option f (find_session db x) else find_session db x)"
proof -
  have "find (\<lambda>r. s_id r = x) (map (\<lambda>r. if s_id r = sid then f r else r) rs) =
          (if x = sid then map_option f (find (\<lambda>r. s_id r = x) rs) else find (\<lambda>r. s_id r = x) rs)" for rs
    using assms by (induction rs) auto
  then show ?thesis by (simp add: find_session_def update_session_def)
qed

lemma find_session_Some: "find_session db sid = Some r \<Longrightarrow> r \<in> set (sessions db) \<and> s_id r = sid"
  by (auto simp: find_session_def dest: find_Some_in)

lemma find_session_None: "find_session db sid = None \<longleftrightarrow> sid \<notin> set (map s_id (sessions db))"
  by (auto simp: find_session_def find_None_iff)

lemma find_session_in:
  "distinct (map s_id (sessions db)) \<Longrightarrow> r \<in> set (sessions db) \<Longrightarrow> find_session db (s_id r) = Some r"
  unfolding find_session_def
proof (induction "sessions db" arbitrary: db)
  case (Cons a rs)
  from Cons.hyps(2) [symmetric] Cons.prems
  have d: "distinct (map s_id (a # rs))" and r: "r \<in> set (a # rs)" by simp_all
  have "find (\<lambda>x. s_id x = s_id r) rs = Some r" if "r \<in> set rs"
    using Cons.hyps(1) [of "db\<lparr>sessions := rs\<rparr>"] d that by simp
  with d r Cons.hyps(2) [symmetric] show ?case by force
qed simp

lemma has_input_iff: "has_input db sid e \<longleftrightarrow> (sid, e) \<in> set (map (\<lambda>i. (i_session i, i_event_id i)) (inputs db))"
  by (auto simp: has_input_def list_ex_iff)

lemma pending_set: "i \<in> set (pending db sid) \<longleftrightarrow> i \<in> set (inputs db) \<and> i_session i = sid \<and> \<not> i_incorporated i"
  by (auto simp: pending_def)

lemma s_id_row_updates [simp, db_simps]:
  "s_id (park_failed r) = s_id r" "s_id (lease t u w n r) = s_id r" "s_id (checkpointed c now r) = s_id r"
  by (simp_all add: park_failed_def lease_def checkpointed_def)

subsection \<open>Inversion of the operations\<close>

lemma create_session_Inr:
  "create_session db sid ex st = Inr db' \<longleftrightarrow>
     sid \<noteq> [] \<and> ex \<noteq> [] \<and> is_obj st \<and> find_session db sid = None
     \<and> db' = db\<lparr>sessions := sessions db @ [new_row sid ex st]\<rparr>"
  by (auto simp: create_session_def split: option.splits)

lemma append_input_Inr:
  "append_input t db sid e = Inr (db', b) \<longleftrightarrow>
     (\<exists>eid r. event_key e = Some eid \<and> (starts_with ''timer:'' eid \<longrightarrow> t) \<and> find_session db sid = Some r
        \<and> b = (\<not> has_input db sid eid)
        \<and> (if b then s_status r \<noteq> Complete \<and>
              db' = db\<lparr>inputs := inputs db @ [\<lparr>i_session = sid, i_event_id = eid, i_event = e,
                          i_incorporated = False\<rparr>]\<rparr>
           else db' = db))"
  by (auto simp: append_input_def split: option.splits if_splits)

lemma holder_Inr:
  "holder db now act = Inr r \<longleftrightarrow>
     find_session db (a_session_id act) = Some r \<and> s_token r = Some (a_token act)
     \<and> (\<exists>t. s_lease_until r = Some t \<and> now < t)"
  by (auto simp: holder_def split: option.splits)

lemma holder_Inl: "holder db now act = Inl e \<Longrightarrow> e = StaleActivation (a_session_id act)"
  by (auto simp: holder_def split: option.splits if_splits)

lemma spawn_child_Inr:
  "spawn_child db ch = Inr db' \<longleftrightarrow>
     is_bound db (sp_executable ch)
     \<and> create_session db (sp_session_id ch) (sp_executable ch) (sp_state ch) = Inr db'"
  by (simp add: spawn_child_def)

lemma publish_one_Inr:
  "publish_one db p = Inr db' \<longleftrightarrow> (\<exists>b. append_input False db (pub_session_id p) (pub_event p) = Inr (db', b))"
  by (auto simp: publish_one_def result_simps)

text \<open>A successful commit went through these stages.\<close>

lemma commit_Inr:
  "commit db now1 now2 act c = Inr db' \<longleftrightarrow>
     commit_checks act c = Inr () \<and> (\<exists>r. holder db now2 act = Inr r)
     \<and> (\<forall>b. c_rebind c = Some b \<longrightarrow> is_bound db b)
     \<and> (\<exists>db1 db3. fold_res spawn_child db (c_spawn c) = Inr db1
          \<and> fold_res publish_one (foldl (incorporate (a_session_id act)) db1 (c_incorporated c)) (c_publish c) = Inr db3
          \<and> (c_complete c \<longrightarrow> pending db3 (a_session_id act) = [])
          \<and> db' = update_session (a_session_id act) (checkpointed c now1) db3)"
  by (auto simp: commit_def result_simps Let_def split: option.splits)

lemma commit_checks_Inr:
  "commit_checks act c = Inr u \<longleftrightarrow>
     (\<forall>d. c_deadline c = Some d \<longrightarrow> isfinite d \<and> \<not> c_complete c)
     \<and> (\<forall>b. c_rebind c = Some b \<longrightarrow> b \<noteq> [] \<and> \<not> c_complete c \<and> b \<noteq> a_executable act)
     \<and> (\<forall>e \<in> set (a_events act). map_of e ''event_id'' \<noteq> None)
     \<and> (\<forall>i \<in> set (c_incorporated c). \<exists>e \<in> set (a_events act). map_of e ''event_id'' = Some (JStr i))
     \<and> distinct (map sp_session_id (c_spawn c))
     \<and> a_session_id act \<notin> set (map sp_session_id (c_spawn c))"
  unfolding commit_checks_def
  by (auto simp: Let_def list_ex_iff image_iff eq_commute split: option.splits)

lemma release_Inr:
  "release db now1 now2 act err ra = Inr db' \<longleftrightarrow>
     (\<forall>t. ra = Some t \<longrightarrow> isfinite t \<and> 0 \<le> fin_val t)
     \<and> (\<exists>r. holder db now1 act = Inr r
          \<and> db' = update_session (a_session_id act)
              (\<lambda>r'. r'\<lparr>s_status := parked_status r, s_token := None,
                 s_lease_until := (case ra of None \<Rightarrow> None
                    | Some t \<Rightarrow> if fin_val t = 0 then None else Some (now2 + fin_val t)),
                 s_worker := None, s_last_error := err\<rparr>) db)"
  by (auto simp: release_def result_simps Let_def split: option.splits)

lemma retry_Inr:
  "retry db sid = Inr (db', b) \<longleftrightarrow>
     (\<exists>r. find_session db sid = Some r \<and> b = (s_status r = Failed)
        \<and> db' = (if b then update_session sid
              (\<lambda>r'. r'\<lparr>s_status := parked_status r, s_attempts := 0, s_last_error := None\<rparr>) db else db))"
  by (auto simp: retry_def split: option.splits if_splits)

subsection \<open>Well-formedness\<close>

definition row_ok :: "session_row \<Rightarrow> bool" where
  "row_ok r \<longleftrightarrow>
     s_id r \<noteq> [] \<and> s_executable r \<noteq> []
     \<and> (s_status r = Active \<longleftrightarrow> s_token r \<noteq> None)
     \<and> (s_status r = Active \<longrightarrow> s_lease_until r \<noteq> None \<and> 0 < s_attempts r)
     \<and> (s_worker r \<noteq> None \<longrightarrow> s_status r = Active)
     \<and> (s_status r = Complete \<longleftrightarrow> s_completed_at r \<noteq> None)
     \<and> (s_status r = Complete \<longrightarrow> s_deadline r = None \<and> s_attempts r = 0 \<and> s_last_error r = None)
     \<and> (s_status r \<in> {Complete, Failed} \<longrightarrow> s_lease_until r = None)
     \<and> (s_status r \<in> {Waiting, Complete} \<longrightarrow> 0 < s_revision r)
     \<and> (s_status r = Ready \<longrightarrow> s_revision r = 0)
     \<and> (s_revision r = 0 \<longrightarrow> s_deadline r = None)"

definition db_ok :: "wake_db \<Rightarrow> bool" where
  "db_ok db \<longleftrightarrow>
     distinct (map s_id (sessions db))
     \<and> (\<forall>r \<in> set (sessions db). row_ok r)
     \<and> distinct (map (\<lambda>i. (i_session i, i_event_id i)) (inputs db))
     \<and> (\<forall>i \<in> set (inputs db). i_session i \<in> set (map s_id (sessions db))
                             \<and> event_key (i_event i) = Some (i_event_id i))
     \<and> (\<forall>r \<in> set (sessions db). s_status r = Complete \<longrightarrow> pending db (s_id r) = [])
     \<and> dict_ok (definitions db)"

lemma db_ok_parts:
  assumes "db_ok db"
  shows db_ok_ids: "distinct (map s_id (sessions db))"
    and db_ok_row: "r \<in> set (sessions db) \<Longrightarrow> row_ok r"
    and db_ok_inputs: "distinct (map (\<lambda>i. (i_session i, i_event_id i)) (inputs db))"
    and db_ok_input: "i \<in> set (inputs db) \<Longrightarrow> i_session i \<in> set (map s_id (sessions db))
                       \<and> event_key (i_event i) = Some (i_event_id i)"
    and db_ok_complete: "r \<in> set (sessions db) \<Longrightarrow> s_status r = Complete \<Longrightarrow> pending db (s_id r) = []"
    and db_ok_defs: "dict_ok (definitions db)"
  using assms unfolding db_ok_def by blast+

lemma db_ok_empty: "db_ok empty_db"
  by (simp add: db_ok_def empty_db_def)

text \<open>An update of one row keeps the invariant when it keeps the row's ID and well-formedness.\<close>

lemma db_ok_update:
  assumes ok: "db_ok db"
    and f: "\<And>r. s_id (f r) = s_id r"
    and row: "\<And>r. find_session db sid = Some r \<Longrightarrow> row_ok r \<Longrightarrow> row_ok (f r)"
    and comp: "\<And>r. find_session db sid = Some r \<Longrightarrow> s_status (f r) = Complete \<Longrightarrow> pending db sid = []"
  shows "db_ok (update_session sid f db)"
proof -
  have hit: "find_session db sid = Some r" if "r \<in> set (sessions db)" "s_id r = sid" for r
    using find_session_in [OF db_ok_ids [OF ok] that(1)] that(2) by simp
  have "\<forall>r \<in> set (sessions (update_session sid f db)). row_ok r"
    using row hit db_ok_row [OF ok] by (auto simp: update_session_def)
  moreover have "\<forall>r \<in> set (sessions (update_session sid f db)).
      s_status r = Complete \<longrightarrow> pending (update_session sid f db) (s_id r) = []"
  proof (intro ballI impI)
    fix r assume "r \<in> set (sessions (update_session sid f db))" and c: "s_status r = Complete"
    then obtain r0 where r0: "r0 \<in> set (sessions db)" "r = (if s_id r0 = sid then f r0 else r0)"
      by (auto simp: update_session_def)
    show "pending (update_session sid f db) (s_id r) = []"
    proof (cases "s_id r0 = sid")
      case True
      then show ?thesis using comp [OF hit [OF r0(1) True]] c r0(2) f by simp
    next
      case False
      then show ?thesis using db_ok_complete [OF ok r0(1)] c r0(2) by simp
    qed
  qed
  moreover have "map s_id (sessions (update_session sid f db)) = map s_id (sessions db)"
    by (rule ids_update_session [OF f])
  ultimately show ?thesis
    using db_ok_ids [OF ok] db_ok_inputs [OF ok] db_ok_input [OF ok] db_ok_defs [OF ok]
    by (simp add: db_ok_def)
qed

lemma db_ok_bind: "db_ok db \<Longrightarrow> bind_definition db ex c = Inr db' \<Longrightarrow> db_ok db'"
  by (auto simp: bind_definition_def Let_def db_ok_def dict_ok_def pending_def map_of_eq_None_iff image_iff
           split: if_splits option.splits)

lemma row_ok_new: "sid \<noteq> [] \<Longrightarrow> ex \<noteq> [] \<Longrightarrow> row_ok (new_row sid ex st)"
  by (simp add: row_ok_def new_row_def)

lemma pending_sessions_upd [simp, db_simps]: "pending (db\<lparr>sessions := xs\<rparr>) sid = pending db sid"
  by (simp add: pending_def)

lemma pending_snoc [db_simps]:
  "pending (db\<lparr>inputs := inputs db @ [i]\<rparr>) sid =
     pending db sid @ (if i_session i = sid \<and> \<not> i_incorporated i then [i] else [])"
  by (simp add: pending_def)

lemma new_row_fields [simp, db_simps]:
  "s_id (new_row sid ex st) = sid" "s_status (new_row sid ex st) = Ready" "s_token (new_row sid ex st) = None"
  "s_last_claim (new_row sid ex st) = 0" "s_lease_until (new_row sid ex st) = None"
  "s_executable (new_row sid ex st) = ex" "s_revision (new_row sid ex st) = 0"
  by (simp_all add: new_row_def)

lemma db_ok_create:
  assumes ok: "db_ok db" and run: "create_session db sid ex st = Inr db'"
  shows "db_ok db'"
  using assms row_ok_new [of sid ex st]
  by (auto simp: create_session_Inr db_ok_def find_session_None)

lemma db_ok_append:
  assumes ok: "db_ok db" and run: "append_input t db sid e = Inr (db', b)"
  shows "db_ok db'"
proof -
  from run obtain eid r where e: "event_key e = Some eid" and r: "find_session db sid = Some r"
    and b: "b = (\<not> has_input db sid eid)" and db': "if b then s_status r \<noteq> Complete \<and>
      db' = db\<lparr>inputs := inputs db @ [\<lparr>i_session = sid, i_event_id = eid, i_event = e, i_incorporated = False\<rparr>]\<rparr>
      else db' = db"
    by (auto simp: append_input_Inr)
  show ?thesis
  proof (cases b)
    case True
    have unique: "r' = r" if "r' \<in> set (sessions db)" "s_id r' = sid" for r'
      using find_session_in [OF db_ok_ids [OF ok] that(1)] that(2) r by simp
    from True b have new: "(sid, eid) \<notin> set (map (\<lambda>i. (i_session i, i_event_id i)) (inputs db))"
      by (simp add: has_input_iff)
    have in_ids: "sid \<in> set (map s_id (sessions db))" using find_session_Some [OF r] by auto
    from True db' have d: "s_status r \<noteq> Complete" and eq: "db' = db\<lparr>inputs := inputs db @
        [\<lparr>i_session = sid, i_event_id = eid, i_event = e, i_incorporated = False\<rparr>]\<rparr>" by simp_all
    have "pending db' (s_id r') = []" if "r' \<in> set (sessions db)" "s_status r' = Complete" for r'
      using unique [of r'] that d db_ok_complete [OF ok that] by (auto simp: eq pending_def)
    then show ?thesis
      using ok new e in_ids by (auto simp: db_ok_def eq)
  next
    case False
    with db' ok show ?thesis by simp
  qed
qed

subsection \<open>The claim's search\<close>

definition within_attempts :: "int option \<Rightarrow> session_row \<Rightarrow> bool" where
  "within_attempts ma r = (case ma of None \<Rightarrow> True | Some m \<Rightarrow> int (s_attempts r) < m)"

lemma claim_search_unfold:
  "claim_search db now ex sess ma =
     (case min_by s_last_claim (candidates db now ex sess) of
        None \<Rightarrow> (db, None)
      | Some r \<Rightarrow> if within_attempts ma r then (db, Some r)
          else claim_search (update_session (s_id r) park_failed db) now ex sess ma)"
  by (subst claim_search.simps) (auto simp: within_attempts_def split: option.splits)

text \<open>An induction rule for the search: it stops empty, stops at a row, or parks one and goes on.\<close>

lemma claim_search_induct [consumes 1, case_names empty found park]:
  assumes "claim_search db now ex sess ma = (db', x)"
    and empty: "\<And>db. candidates db now ex sess = [] \<Longrightarrow> P db db None"
    and found: "\<And>db r. min_by s_last_claim (candidates db now ex sess) = Some r \<Longrightarrow> within_attempts ma r
                  \<Longrightarrow> P db db (Some r)"
    and park: "\<And>db r db' x. min_by s_last_claim (candidates db now ex sess) = Some r \<Longrightarrow> \<not> within_attempts ma r
                  \<Longrightarrow> P (update_session (s_id r) park_failed db) db' x \<Longrightarrow> P db db' x"
  shows "P db db' x"
  using assms
proof (induction db now ex sess ma rule: claim_search.induct)
  case (1 db now ex sess ma)
  show ?case
  proof (cases "min_by s_last_claim (candidates db now ex sess)")
    case None
    moreover from None have "candidates db now ex sess = []" by simp
    ultimately show ?thesis using "1.prems"(1,2) by (simp add: claim_search_unfold)
  next
    case (Some r)
    show ?thesis
    proof (cases "within_attempts ma r")
      case True
      with Some "1.prems"(1) have "db' = db" "x = Some r" by (simp_all add: claim_search_unfold)
      with "1.prems"(3) [OF Some True] show ?thesis by simp
    next
      case False
      then have neg: "\<not> (case ma of None \<Rightarrow> True | Some m \<Rightarrow> int (s_attempts r) < m)"
        by (simp add: within_attempts_def)
      from False Some "1.prems"(1)
      have run: "claim_search (update_session (s_id r) park_failed db) now ex sess ma = (db', x)"
        by (subst (asm) claim_search_unfold) simp
      have "P (update_session (s_id r) park_failed db) db' x"
        by (rule "1.IH" [OF Some neg run]) (use "1.prems" in blast)+
      with Some False show ?thesis by (rule "1.prems"(4))
    qed
  qed
qed

lemma claim_search_result:
  "claim_search db now ex sess ma = (db', x) \<Longrightarrow>
     (case x of
        None \<Rightarrow> candidates db' now ex sess = []
      | Some r \<Rightarrow> min_by s_last_claim (candidates db' now ex sess) = Some r \<and> within_attempts ma r)"
  by (erule claim_search_induct) simp_all

lemma claim_search_preserves:
  assumes run: "claim_search db now ex sess ma = (db', x)" and start: "Q db"
    and step: "\<And>db r. Q db \<Longrightarrow> r \<in> set (candidates db now ex sess) \<Longrightarrow> \<not> within_attempts ma r
                 \<Longrightarrow> Q (update_session (s_id r) park_failed db)"
  shows "Q db'"
  using run start step
proof (induction rule: claim_search_induct)
  case (empty db)
  then show ?case by simp
next
  case (found db r)
  then show ?case by simp
next
  case (park db r db' x)
  show ?case
    by (rule park.IH) (use park.prems min_by_in [OF park.hyps(1)] park.hyps(2) in blast)+
qed

lemma ready_row_in: "r \<in> set (candidates db now ex sess) \<Longrightarrow> r \<in> set (sessions db)"
  by (simp add: candidates_def)

lemma row_ok_park: "row_ok r \<Longrightarrow> s_status r \<noteq> Complete \<Longrightarrow> row_ok (park_failed r)"
  by (auto simp: row_ok_def park_failed_def)

lemma park_failed_fields [simp, db_simps]:
  "s_status (park_failed r) = Failed" "s_last_claim (park_failed r) = s_last_claim r"
  "s_token (park_failed r) = None" "s_revision (park_failed r) = s_revision r"
  "s_state (park_failed r) = s_state r" "s_attempts (park_failed r) = s_attempts r"
  "s_executable (park_failed r) = s_executable r" "s_deadline (park_failed r) = s_deadline r"
  by (simp_all add: park_failed_def)

lemma db_ok_park:
  assumes ok: "db_ok db" and r: "r \<in> set (candidates db now ex sess)"
  shows "db_ok (update_session (s_id r) park_failed db)"
proof (rule db_ok_update [OF ok])
  fix r' assume "find_session db (s_id r) = Some r'" and row: "row_ok r'"
  then have "r' = r"
    using find_session_in [OF db_ok_ids [OF ok] ready_row_in [OF r]] by simp
  with row r show "row_ok (park_failed r')"
    by (auto intro!: row_ok_park simp: candidates_def dest: ready_not_terminal)
qed simp_all

lemma claim_search_db_ok:
  "db_ok db \<Longrightarrow> claim_search db now ex sess ma = (db', x) \<Longrightarrow> db_ok db'"
  by (rule claim_search_preserves) (auto intro: db_ok_park)

lemma claim_search_mail:
  "claim_search db now ex sess ma = (db', x) \<Longrightarrow> inputs db' = inputs db \<and> definitions db' = definitions db"
  by (erule claim_search_preserves [where Q = "\<lambda>d. inputs d = inputs db \<and> definitions d = definitions db"])
     simp_all

subsection \<open>The claim\<close>

lemma timer_key [simp]:
  "event_key (timer_event sid k d) = Some (''timer:'' @ sid @ '':'' @ nat_text k)"
  by (simp add: event_key_Some timer_event_def)

definition timer_id :: "session_row \<Rightarrow> string" where
  "timer_id r = ''timer:'' @ s_id r @ '':'' @ nat_text (s_revision r)"

text \<open>
  Delivering a due deadline never raises for a session the claim found: it records the timer's mail
  unless this revision's timer is already there.
\<close>

lemma deliver_timer_cases:
  assumes "find_session db (s_id r) = Some r" and "s_status r \<noteq> Complete"
  shows "deliver_timer db now r =
     Inr (if (\<exists>d. s_deadline r = Some d \<and> d \<le> now) \<and> \<not> has_input db (s_id r) (timer_id r)
          then db\<lparr>inputs := inputs db @ [\<lparr>i_session = s_id r, i_event_id = timer_id r,
                  i_event = timer_event (s_id r) (s_revision r) (the (s_deadline r)), i_incorporated = False\<rparr>]\<rparr>
          else db)"
  using assms
  by (auto simp: deliver_timer_def append_input_def timer_id_def rbind_def split: option.splits)

lemma claim_params:
  "claim db now tok ls ex me sess wk ma = Inr (db', x) \<Longrightarrow>
     isfinite ls \<and> 0 < fin_val ls \<and> (\<forall>n. me = Some n \<longrightarrow> 0 < n) \<and> (\<forall>n. ma = Some n \<longrightarrow> 0 < n)"
  by (auto simp: claim_def split: if_splits option.splits)

lemma claim_None:
  "claim db now tok ls ex me sess wk ma = Inr (db', None) \<Longrightarrow>
     claim_search db now ex sess ma = (db', None)"
  by (auto simp: claim_def result_simps Let_def split: if_splits option.splits prod.splits)

text \<open>What a successful claim found, and the database and activation it returned.\<close>

lemma claim_Some:
  assumes run: "claim db now tok ls ex me sess wk ma = Inr (db', Some act)"
  obtains db1 db2 r where
    "claim_search db now ex sess ma = (db1, Some r)"
    "deliver_timer db1 now r = Inr db2"
    "db' = update_session (s_id r) (lease tok (now + fin_val ls) wk (next_claim db2)) db2"
    "a_session_id act = s_id r" "a_executable act = s_executable r" "a_token act = tok"
    "a_state act = s_state r" "a_attempt act = s_attempts r + 1" "a_last_error act = s_last_error r"
    "a_events act = take_opt (map_option nat me) (map i_event (pending db2 (s_id r)))"
    "a_has_more act = (\<exists>n. me = Some n \<and> length (pending db2 (s_id r)) > nat n)"
proof -
  note cond = claim_params [OF run]
  from run cond obtain db1 r where s: "claim_search db now ex sess ma = (db1, Some r)"
    by (auto simp: claim_def split: if_splits option.splits prod.splits)
  from run cond s obtain db2 where t: "deliver_timer db1 now r = Inr db2"
    by (auto simp: claim_def result_simps Let_def split: if_splits option.splits)
  show ?thesis
  proof (rule that [OF s t])
    show "a_events act = take_opt (map_option nat me) (map i_event (pending db2 (s_id r)))"
      using run cond s t
      by (cases me) (auto simp: claim_def result_simps Let_def take_opt_def min_def take_map)
    show "a_has_more act = (\<exists>n. me = Some n \<and> length (pending db2 (s_id r)) > nat n)"
      using run cond s t
      by (cases me) (auto simp: claim_def result_simps Let_def take_opt_def min_def split: if_splits)
  qed (use run cond s t in \<open>auto simp: claim_def result_simps Let_def split: if_splits option.splits\<close>)
qed

lemma row_ok_lease:
  "row_ok r \<Longrightarrow> s_status r \<noteq> Complete \<Longrightarrow> row_ok (lease tok u wk n r)"
  by (auto simp: row_ok_def lease_def)

lemma lease_fields [simp, db_simps]:
  "s_status (lease tok u wk n r) = Active" "s_token (lease tok u wk n r) = Some tok"
  "s_lease_until (lease tok u wk n r) = Some u" "s_last_claim (lease tok u wk n r) = n"
  "s_attempts (lease tok u wk n r) = Suc (s_attempts r)" "s_revision (lease tok u wk n r) = s_revision r"
  "s_state (lease tok u wk n r) = s_state r" "s_worker (lease tok u wk n r) = wk"
  "s_executable (lease tok u wk n r) = s_executable r" "s_deadline (lease tok u wk n r) = s_deadline r"
  by (simp_all add: lease_def)

lemma claimed_row:
  assumes ok: "db_ok db" and s: "claim_search db now ex sess ma = (db1, Some r)"
  shows "db_ok db1" "r \<in> set (sessions db1)" "find_session db1 (s_id r) = Some r"
    "s_status r \<noteq> Complete" "s_status r \<noteq> Failed" "ready now db1 r" "within_attempts ma r"
    "r \<in> set (candidates db1 now ex sess)"
proof -
  show ok1: "db_ok db1" using claim_search_db_ok [OF ok s] .
  from claim_search_result [OF s] have m: "min_by s_last_claim (candidates db1 now ex sess) = Some r"
    and w: "within_attempts ma r" by simp_all
  show c: "r \<in> set (candidates db1 now ex sess)" using min_by_in [OF m] .
  then show "r \<in> set (sessions db1)" "ready now db1 r" by (simp_all add: candidates_def)
  then show "find_session db1 (s_id r) = Some r" "s_status r \<noteq> Complete" "s_status r \<noteq> Failed"
    using find_session_in [OF db_ok_ids [OF ok1]] ready_not_terminal by blast+
  show "within_attempts ma r" by (rule w)
qed

lemma deliver_timer_db_ok:
  assumes "db_ok db" and "deliver_timer db now r = Inr db'"
  shows "db_ok db'"
  using assms
  by (auto simp: deliver_timer_def result_simps intro: db_ok_append split: option.splits if_splits)

lemma deliver_timer_sessions:
  "deliver_timer db now r = Inr db' \<Longrightarrow>
     sessions db' = sessions db \<and> find_session db' x = find_session db x \<and> definitions db' = definitions db"
  by (auto simp: deliver_timer_def result_simps append_input_Inr find_session_def split: option.splits if_splits)

lemma db_ok_claim:
  assumes ok: "db_ok db" and run: "claim db now tok ls ex me sess wk ma = Inr (db', x)"
  shows "db_ok db'"
proof (cases x)
  case None
  with run claim_search_db_ok [OF ok] show ?thesis by (auto dest: claim_None)
next
  case (Some act)
  from run [unfolded Some] obtain db1 db2 r where s: "claim_search db now ex sess ma = (db1, Some r)"
    and t: "deliver_timer db1 now r = Inr db2"
    and db': "db' = update_session (s_id r) (lease tok (now + fin_val ls) wk (next_claim db2)) db2"
    by (rule claim_Some)
  note c = claimed_row [OF ok s]
  show ?thesis unfolding db'
  proof (rule db_ok_update [OF deliver_timer_db_ok [OF c(1) t]])
    fix r' assume "find_session db2 (s_id r) = Some r'" "row_ok r'"
    then show "row_ok (lease tok (now + fin_val ls) wk (next_claim db2) r')"
      using c(3,4) deliver_timer_sessions [OF t] by (auto intro: row_ok_lease)
  qed simp_all
qed

subsection \<open>Release and retry\<close>

lemma holder_active:
  assumes "db_ok db" and "holder db now act = Inr r"
  shows "find_session db (a_session_id act) = Some r" "r \<in> set (sessions db)" "s_status r = Active"
    "s_id r = a_session_id act" "row_ok r"
proof -
  from assms(2) show f: "find_session db (a_session_id act) = Some r" by (simp add: holder_Inr)
  then show m: "r \<in> set (sessions db)" and "s_id r = a_session_id act"
    by (auto dest: find_session_Some)
  show o: "row_ok r" using db_ok_row [OF assms(1) m] .
  with assms(2) show "s_status r = Active" by (auto simp: holder_Inr row_ok_def)
qed

lemma db_ok_release:
  assumes ok: "db_ok db" and run: "release db now1 now2 act err ra = Inr db'"
  shows "db_ok db'"
proof -
  from run obtain r where h: "holder db now1 act = Inr r" and db': "db' = update_session (a_session_id act)
      (\<lambda>r'. r'\<lparr>s_status := parked_status r, s_token := None,
         s_lease_until := (case ra of None \<Rightarrow> None
            | Some t \<Rightarrow> if fin_val t = 0 then None else Some (now2 + fin_val t)),
         s_worker := None, s_last_error := err\<rparr>) db"
    by (auto simp: release_Inr)
  note a = holder_active [OF ok h]
  show ?thesis unfolding db'
  proof (rule db_ok_update [OF ok], goal_cases)
    case (2 r')
    with a(1,3,5) show ?case by (cases "s_revision r") (simp_all add: row_ok_def parked_status_def)
  next
    case (3 r')
    then show ?case by (simp add: parked_status_def split: if_splits)
  qed simp
qed

lemma db_ok_retry:
  assumes ok: "db_ok db" and run: "retry db sid = Inr (db', b)"
  shows "db_ok db'"
proof (cases b)
  case True
  with run obtain r where r: "find_session db sid = Some r" "s_status r = Failed"
    and db': "db' = update_session sid
              (\<lambda>r'. r'\<lparr>s_status := parked_status r, s_attempts := 0, s_last_error := None\<rparr>) db"
    by (auto simp: retry_Inr)
  then have "row_ok r" using db_ok_row [OF ok] find_session_Some by blast
  with r show ?thesis unfolding db'
    by (intro db_ok_update [OF ok]) (auto simp: row_ok_def parked_status_def split: if_splits)
next
  case False
  with run ok show ?thesis by (auto simp: retry_Inr)
qed

subsection \<open>The stages of a commit\<close>

lemma fold_spawn:
  "fold_res spawn_child db cs = Inr db1 \<Longrightarrow>
     db1 = db\<lparr>sessions := sessions db @ map (\<lambda>ch. new_row (sp_session_id ch) (sp_executable ch) (sp_state ch)) cs\<rparr>"
proof (induction cs arbitrary: db)
  case (Cons ch cs)
  from Cons.prems obtain db' where "spawn_child db ch = Inr db'" and r: "fold_res spawn_child db' cs = Inr db1"
    by (auto simp: result_simps)
  then have "db' = db\<lparr>sessions := sessions db @ [new_row (sp_session_id ch) (sp_executable ch) (sp_state ch)]\<rparr>"
    by (simp add: spawn_child_Inr create_session_Inr)
  with Cons.IH [OF r] show ?case by simp
qed simp

lemma fold_spawn_bound:
  "fold_res spawn_child db cs = Inr db1 \<Longrightarrow> ch \<in> set cs \<Longrightarrow> is_bound db (sp_executable ch)"
proof (induction cs arbitrary: db)
  case (Cons c cs)
  from Cons.prems(1) obtain db' where s: "spawn_child db c = Inr db'" and r: "fold_res spawn_child db' cs = Inr db1"
    by (auto simp: result_simps)
  from s have "is_bound db (sp_executable c)" "definitions db' = definitions db"
    by (auto simp: spawn_child_Inr create_session_Inr)
  with Cons.IH [OF r] Cons.prems(2) show ?case by (auto simp: is_bound_def)
qed simp

lemma fold_spawn_db_ok: "db_ok db \<Longrightarrow> fold_res spawn_child db cs = Inr db1 \<Longrightarrow> db_ok db1"
  by (rule fold_res_invariant [where f = spawn_child and P = db_ok])
     (auto simp: spawn_child_Inr intro: db_ok_create)

definition marked :: "string \<Rightarrow> string set \<Rightarrow> input_row \<Rightarrow> input_row" where
  "marked sid eids i = (if i_session i = sid \<and> i_event_id i \<in> eids then i\<lparr>i_incorporated := True\<rparr> else i)"

lemma marked_fields [simp, db_simps]:
  "i_session (marked sid E i) = i_session i" "i_event_id (marked sid E i) = i_event_id i"
  "i_event (marked sid E i) = i_event i"
  "i_incorporated (marked sid E i) \<longleftrightarrow> i_incorporated i \<or> i_session i = sid \<and> i_event_id i \<in> E"
  by (auto simp: marked_def)

lemma marked_marked: "marked sid E (marked sid F i) = marked sid (F \<union> E) i"
  by (auto simp: marked_def)

lemma marked_empty: "marked sid {} i = i"
  by (simp add: marked_def)

lemma incorporate_marked: "incorporate sid db e = db\<lparr>inputs := map (marked sid {e}) (inputs db)\<rparr>"
  by (simp add: incorporate_def marked_def [abs_def])

lemma fold_incorporate:
  "foldl (incorporate sid) db eids = db\<lparr>inputs := map (marked sid (set eids)) (inputs db)\<rparr>"
proof (induction eids arbitrary: db)
  case Nil
  then show ?case by (simp add: marked_empty [abs_def])
next
  case (Cons e eids)
  then show ?case by (simp add: incorporate_marked marked_marked comp_def)
qed

lemma pending_incorporate:
  "pending (foldl (incorporate sid) db eids) x =
     (if x = sid then filter (\<lambda>i. i_event_id i \<notin> set eids) (pending db x) else pending db x)"
proof -
  have "filter (\<lambda>i. i_session i = x \<and> \<not> i_incorporated i) (map (marked sid (set eids)) xs)
        = filter (\<lambda>i. x = sid \<longrightarrow> i_event_id i \<notin> set eids)
            (filter (\<lambda>i. i_session i = x \<and> \<not> i_incorporated i) xs)" for xs
    by (induction xs) (auto simp: marked_def)
  then show ?thesis by (simp add: fold_incorporate pending_def)
qed

lemma db_ok_incorporate:
  assumes ok: "db_ok db"
  shows "db_ok (foldl (incorporate sid) db eids)"
proof -
  have "pending (foldl (incorporate sid) db eids) x = []" if "pending db x = []" for x
    using that by (auto simp: pending_incorporate)
  with ok show ?thesis
    unfolding db_ok_def by (simp add: fold_incorporate comp_def)
qed

lemma publish_one_mail:
  "publish_one db p = Inr db' \<Longrightarrow>
     sessions db' = sessions db \<and> definitions db' = definitions db
     \<and> (\<exists>new. inputs db' = inputs db @ new \<and> (\<forall>i \<in> set new. \<not> i_incorporated i))"
  by (auto simp: publish_one_Inr append_input_Inr split: if_splits)

lemma fold_publish:
  "fold_res publish_one db ps = Inr db' \<Longrightarrow>
     sessions db' = sessions db \<and> definitions db' = definitions db
     \<and> (\<exists>new. inputs db' = inputs db @ new \<and> (\<forall>i \<in> set new. \<not> i_incorporated i))"
proof (induction ps arbitrary: db)
  case (Cons p ps)
  from Cons.prems obtain d where d: "publish_one db p = Inr d" and r: "fold_res publish_one d ps = Inr db'"
    by (auto simp: result_simps)
  obtain n1 where n1: "inputs d = inputs db @ n1" "\<forall>i \<in> set n1. \<not> i_incorporated i"
    using publish_one_mail [OF d] by blast
  obtain n2 where n2: "inputs db' = inputs d @ n2" "\<forall>i \<in> set n2. \<not> i_incorporated i"
    using Cons.IH [OF r] by blast
  have "inputs db' = inputs db @ (n1 @ n2)" "\<forall>i \<in> set (n1 @ n2). \<not> i_incorporated i"
    using n1 n2 by auto
  then show ?case using publish_one_mail [OF d] Cons.IH [OF r] by metis
qed simp

lemma fold_publish_db_ok: "db_ok db \<Longrightarrow> fold_res publish_one db ps = Inr db' \<Longrightarrow> db_ok db'"
  by (rule fold_res_invariant [where f = publish_one and P = db_ok])
     (auto simp: publish_one_Inr intro: db_ok_append)

text \<open>
  The database a commit produces: the old rows with the committing session's row checkpointed, the
  new children, the old mail with the incorporated inputs marked, and the published mail.
\<close>

lemma commit_shape:
  assumes "commit db now1 now2 act c = Inr db'"
  obtains new where
    "sessions db' = map (\<lambda>r. if s_id r = a_session_id act then checkpointed c now1 r else r)
       (sessions db @ map (\<lambda>ch. new_row (sp_session_id ch) (sp_executable ch) (sp_state ch)) (c_spawn c))"
    "inputs db' = map (marked (a_session_id act) (set (c_incorporated c))) (inputs db) @ new"
    "\<forall>i \<in> set new. \<not> i_incorporated i" "definitions db' = definitions db"
proof -
  from assms obtain db1 db3 where s: "fold_res spawn_child db (c_spawn c) = Inr db1"
    and p: "fold_res publish_one (foldl (incorporate (a_session_id act)) db1 (c_incorporated c)) (c_publish c) = Inr db3"
    and db': "db' = update_session (a_session_id act) (checkpointed c now1) db3"
    by (auto simp: commit_Inr)
  from fold_publish [OF p] obtain new where
    "inputs db3 = inputs (foldl (incorporate (a_session_id act)) db1 (c_incorporated c)) @ new"
    "\<forall>i \<in> set new. \<not> i_incorporated i" by blast
  with fold_publish [OF p] fold_spawn [OF s] that show thesis
    by (simp add: db' update_session_def fold_incorporate)
qed

lemma row_ok_checkpointed:
  assumes "commit_checks act c = Inr ()" and "row_ok r"
  shows "row_ok (checkpointed c now r)"
proof -
  from assms(1) have d: "c_complete c \<Longrightarrow> c_deadline c = None" and b: "c_rebind c = Some [] \<Longrightarrow> False"
    unfolding commit_checks_Inr by (cases "c_deadline c"; blast)+
  from assms(2) have "s_id r \<noteq> []" "s_executable r \<noteq> []" by (simp_all add: row_ok_def)
  with d b show ?thesis
    by (cases "c_complete c"; cases "c_rebind c") (auto simp: row_ok_def checkpointed_def)
qed

lemma db_ok_commit:
  assumes ok: "db_ok db" and run: "commit db now1 now2 act c = Inr db'"
  shows "db_ok db'"
proof -
  from run obtain db1 db3 where chk: "commit_checks act c = Inr ()"
    and s: "fold_res spawn_child db (c_spawn c) = Inr db1"
    and p: "fold_res publish_one (foldl (incorporate (a_session_id act)) db1 (c_incorporated c)) (c_publish c) = Inr db3"
    and cpl: "c_complete c \<longrightarrow> pending db3 (a_session_id act) = []"
    and db': "db' = update_session (a_session_id act) (checkpointed c now1) db3"
    by (auto simp: commit_Inr)
  have ok3: "db_ok db3"
    by (rule fold_publish_db_ok [OF db_ok_incorporate [OF fold_spawn_db_ok [OF ok s]] p])
  show ?thesis unfolding db'
  proof (rule db_ok_update [OF ok3])
    fix r assume "s_status (checkpointed c now1 r) = Complete"
    then show "pending db3 (a_session_id act) = []"
      using cpl by (simp add: checkpointed_def split: if_splits)
  qed (use row_ok_checkpointed [OF chk] in simp_all)
qed

subsection \<open>Purging\<close>

lemma fold_delete:
  "foldl delete_session db ids =
     db\<lparr>inputs := filter (\<lambda>i. i_session i \<notin> set ids) (inputs db),
        sessions := filter (\<lambda>r. s_id r \<notin> set ids) (sessions db)\<rparr>"
  by (induction ids arbitrary: db) (auto simp: delete_session_def intro!: filter_cong)

lemma purge_Inr:
  "purge db cutoff limit = Inr (db', n) \<longleftrightarrow>
     isfinite cutoff \<and> (\<forall>k. limit = Some k \<longrightarrow> 0 < k)
     \<and> (let ids = map s_id (purgeable db (fin_val cutoff) (map_option nat limit))
        in db' = foldl delete_session db ids \<and> n = length ids)"
  by (auto simp: purge_def Let_def split: option.splits)

lemma purgeable_in:
  "r \<in> set (purgeable db t limit) \<Longrightarrow>
     r \<in> set (sessions db) \<and> s_status r = Complete \<and> (\<exists>d. s_completed_at r = Some d \<and> d < t)"
  using set_take_opt [of limit] by (fastforce simp: purgeable_def split: option.splits)

lemma db_ok_purge:
  assumes ok: "db_ok db" and run: "purge db cutoff limit = Inr (db', n)"
  shows "db_ok db'"
proof -
  from run obtain ids where db': "db' = foldl delete_session db ids"
    by (auto simp: purge_Inr Let_def)
  have "pending (foldl delete_session db ids) x = []" if "pending db x = []" for x
    using that by (auto simp: fold_delete pending_def filter_empty_conv)
  moreover have "distinct (map s_id (filter P (sessions db)))"
      "distinct (map (\<lambda>i. (i_session i, i_event_id i)) (filter Q (inputs db)))" for P Q
    using db_ok_ids [OF ok] db_ok_inputs [OF ok] by (simp_all add: distinct_map_filter)
  moreover have "\<forall>i \<in> set (inputs (foldl delete_session db ids)).
      i_session i \<in> set (map s_id (sessions (foldl delete_session db ids)))
      \<and> event_key (i_event i) = Some (i_event_id i)"
    using db_ok_input [OF ok] by (fastforce simp: fold_delete)
  ultimately show ?thesis
    using db_ok_row [OF ok] db_ok_complete [OF ok] db_ok_defs [OF ok]
    unfolding db' db_ok_def by (simp add: fold_delete)
qed

lemmas db_ok_ops = db_ok_bind db_ok_create db_ok_append db_ok_claim db_ok_release db_ok_retry
  db_ok_commit db_ok_purge

end
