(* ===== verification/Wake_Runs.thy ===== *)
theory Wake_Runs
  imports Wake_Laws
begin

text \<open>
  Runs of the session store: any interleaving of transactions by any number of workers, producers
  and operators. A failed transaction leaves the database as it was. Lease tokens are drawn fresh
  (\<open>uuid4\<close>): the reachable states carry the set of tokens issued so far, and a claim uses a new one.
  An activation passed to a commit or a release is arbitrary, so stale and forged ones are covered.
\<close>

datatype wake_op =
    OpBind string json
  | OpCreate string string json
  | OpAppend string dict
  | OpClaim rat string pyfloat "string option" "int option" "string option" "string option" "int option"
  | OpRelease rat rat activation "string option" "pyfloat option"
  | OpRetry string
  | OpCommit rat rat activation checkpoint
  | OpPurge pyfloat "int option"

definition settle_db :: "wake_db \<Rightarrow> 'a res \<Rightarrow> ('a \<Rightarrow> wake_db) \<Rightarrow> wake_db" where
  "settle_db db r f = (case r of Inl _ \<Rightarrow> db | Inr x \<Rightarrow> f x)"

fun apply_op :: "wake_db \<Rightarrow> wake_op \<Rightarrow> wake_db" where
  "apply_op db (OpBind ex c) = settle_db db (bind_definition db ex c) id"
| "apply_op db (OpCreate sid ex st) = settle_db db (create_session db sid ex st) id"
| "apply_op db (OpAppend sid e) = settle_db db (append_mail db sid e) fst"
| "apply_op db (OpClaim now tok ls ex me sess wk ma) = settle_db db (claim db now tok ls ex me sess wk ma) fst"
| "apply_op db (OpRelease t1 t2 act err ra) = settle_db db (release db t1 t2 act err ra) id"
| "apply_op db (OpRetry sid) = settle_db db (retry db sid) fst"
| "apply_op db (OpCommit t1 t2 act c) = settle_db db (commit db t1 t2 act c) id"
| "apply_op db (OpPurge cutoff limit) = settle_db db (purge db cutoff limit) fst"

definition run_ops :: "wake_db \<Rightarrow> wake_op list \<Rightarrow> wake_db" where
  "run_ops db ops = foldl apply_op db ops"

fun op_token :: "wake_op \<Rightarrow> string option" where
  "op_token (OpClaim now tok ls ex me sess wk ma) = Some tok"
| "op_token _ = None"

fun fresh_ops :: "string set \<Rightarrow> wake_op list \<Rightarrow> bool" where
  "fresh_ops U [] = True"
| "fresh_ops U (op # ops) = ((\<forall>t. op_token op = Some t \<longrightarrow> t \<notin> U) \<and> fresh_ops (U \<union> set_option (op_token op)) ops)"

inductive reachable :: "string set \<Rightarrow> wake_db \<Rightarrow> bool" where
  reach_start: "reachable {} empty_db"
| reach_step: "reachable U db \<Longrightarrow> (\<forall>t. op_token op = Some t \<longrightarrow> t \<notin> U) \<Longrightarrow>
     reachable (U \<union> set_option (op_token op)) (apply_op db op)"

lemma run_ops_simps [simp]:
  "run_ops db [] = db" "run_ops db (op # ops) = run_ops (apply_op db op) ops"
  by (simp_all add: run_ops_def)

lemma settle_dbI:
  "P db \<Longrightarrow> (\<And>x. r = Inr x \<Longrightarrow> P (f x)) \<Longrightarrow> P (settle_db db r f)"
  by (cases r) (simp_all add: settle_db_def)

subsection \<open>Well-formedness of every reachable store\<close>

lemma apply_op_db_ok:
  assumes "db_ok db" shows "db_ok (apply_op db op)"
proof (cases op)
  case (OpAppend sid e)
  show ?thesis unfolding OpAppend apply_op.simps append_mail_def
    by (rule settle_dbI [where P = db_ok, OF assms]) (metis db_ok_append [OF assms] prod.collapse)
next
  case (OpClaim now tok ls ex me sess wk ma)
  show ?thesis unfolding OpClaim apply_op.simps
    by (rule settle_dbI [where P = db_ok, OF assms]) (metis db_ok_claim [OF assms] prod.collapse)
next
  case (OpRetry sid)
  show ?thesis unfolding OpRetry apply_op.simps
    by (rule settle_dbI [where P = db_ok, OF assms]) (metis db_ok_retry [OF assms] prod.collapse)
next
  case (OpPurge cutoff limit)
  show ?thesis unfolding OpPurge apply_op.simps
    by (rule settle_dbI [where P = db_ok, OF assms]) (metis db_ok_purge [OF assms] prod.collapse)
next
  case (OpBind ex c)
  show ?thesis unfolding OpBind apply_op.simps
    by (rule settle_dbI [where P = db_ok, OF assms]) (simp add: db_ok_bind [OF assms])
next
  case (OpCreate sid ex st)
  show ?thesis unfolding OpCreate apply_op.simps
    by (rule settle_dbI [where P = db_ok, OF assms]) (simp add: db_ok_create [OF assms])
next
  case (OpRelease t1 t2 act err ra)
  show ?thesis unfolding OpRelease apply_op.simps
    by (rule settle_dbI [where P = db_ok, OF assms]) (simp add: db_ok_release [OF assms])
next
  case (OpCommit t1 t2 act c)
  show ?thesis unfolding OpCommit apply_op.simps
    by (rule settle_dbI [where P = db_ok, OF assms]) (simp add: db_ok_commit [OF assms])
qed

lemma run_ops_db_ok: "db_ok db \<Longrightarrow> db_ok (run_ops db ops)"
  by (induction ops arbitrary: db) (auto intro: apply_op_db_ok)

lemma reachable_db_ok: "reachable U db \<Longrightarrow> db_ok db"
  by (induction rule: reachable.induct) (auto intro: db_ok_empty apply_op_db_ok)

subsection \<open>Tokens\<close>

definition held :: "wake_db \<Rightarrow> (string \<times> string) set" where
  "held db = {p. \<exists>r \<in> set (sessions db). s_id r = fst p \<and> s_token r = Some (snd p)}"

lemma held_iff: "p \<in> held db \<longleftrightarrow> (\<exists>r \<in> set (sessions db). s_id r = fst p \<and> s_token r = Some (snd p))"
  by (simp add: held_def)

lemma heldI: "r \<in> set (sessions db) \<Longrightarrow> s_token r = Some t \<Longrightarrow> (s_id r, t) \<in> held db"
  by (auto simp: held_iff)

lemma bex_update_session:
  "(\<exists>r \<in> set (sessions (update_session sid f db)). Q r) \<longleftrightarrow>
     (\<exists>r \<in> set (sessions db). (s_id r = sid \<longrightarrow> Q (f r)) \<and> (s_id r \<noteq> sid \<longrightarrow> Q r))"
proof -
  have "(\<exists>x \<in> g ` A. Q x) \<longleftrightarrow> (\<exists>x \<in> A. Q (g x))" for g :: "session_row \<Rightarrow> session_row" and A
    by blast
  then show ?thesis unfolding update_session_def by (simp del: if_image_distrib)
qed

lemma held_update:
  assumes "\<And>r. s_id (f r) = s_id r"
  shows "p \<in> held (update_session sid f db) \<longleftrightarrow>
           (if fst p = sid then \<exists>r \<in> set (sessions db). s_id r = sid \<and> s_token (f r) = Some (snd p)
            else p \<in> held db)"
  unfolding held_iff bex_update_session assms by (cases "fst p = sid") force+

lemma held_clear:
  assumes "\<And>r. s_id (f r) = s_id r" "\<And>r. s_token (f r) = None"
  shows "held (update_session sid f db) = {p \<in> held db. fst p \<noteq> sid}"
  by (rule set_eqI) (simp add: held_update [OF assms(1)] assms(2))

lemma held_sessions: "sessions db' = sessions db \<Longrightarrow> held db' = held db"
  by (simp add: held_def)

lemma held_append: "append_input t db sid e = Inr (db', b) \<Longrightarrow> held db' = held db"
  by (auto simp: append_input_Inr held_def split: if_splits)

lemma held_create: "create_session db sid ex st = Inr db' \<Longrightarrow> held db' = held db"
  by (auto simp: create_session_Inr held_def)

lemma held_claim_search:
  "claim_search db now ex sess ma = (db', x) \<Longrightarrow> held db' \<subseteq> held db"
  by (erule claim_search_preserves [where Q = "\<lambda>d. held d \<subseteq> held db"])
     (auto simp: held_clear)

lemma held_claim:
  assumes "claim db now tok ls ex me sess wk ma = Inr (db', x)"
  shows "held db' \<subseteq> (case x of None \<Rightarrow> held db
           | Some act \<Rightarrow> {p \<in> held db. fst p \<noteq> a_session_id act} \<union> {(a_session_id act, tok)})"
proof (cases x)
  case None
  with assms show ?thesis by (auto dest!: claim_None dest: held_claim_search)
next
  case (Some act)
  from assms [unfolded Some] obtain db1 db2 r where s: "claim_search db now ex sess ma = (db1, Some r)"
    and t: "deliver_timer db1 now r = Inr db2" and sid: "a_session_id act = s_id r"
    and db': "db' = update_session (s_id r) (lease tok (now + fin_val ls) wk (next_claim db2)) db2"
    by (rule claim_Some)
  have "held db2 \<subseteq> held db"
    using held_claim_search [OF s] held_sessions deliver_timer_sessions [OF t] by blast
  moreover have "held db' \<subseteq> {p \<in> held db2. fst p \<noteq> s_id r} \<union> {(s_id r, tok)}"
    by (rule subsetI) (auto simp: db' held_update split: if_splits)
  ultimately show ?thesis by (auto simp: Some sid)
qed

lemma held_release:
  "release db t1 t2 act err ra = Inr db' \<Longrightarrow> held db' = {p \<in> held db. fst p \<noteq> a_session_id act}"
  by (auto simp: release_Inr held_clear)

lemma held_commit:
  assumes "commit db t1 t2 act c = Inr db'"
  shows "held db' = {p \<in> held db. fst p \<noteq> a_session_id act}"
proof -
  from assms obtain db1 db3 where s: "fold_res spawn_child db (c_spawn c) = Inr db1"
    and p: "fold_res publish_one (foldl (incorporate (a_session_id act)) db1 (c_incorporated c)) (c_publish c) = Inr db3"
    and db': "db' = update_session (a_session_id act) (checkpointed c t1) db3"
    by (auto simp: commit_Inr)
  have "sessions db3 = sessions db1" using fold_publish [OF p] by (simp add: fold_incorporate)
  then have "held db3 = held db" using fold_spawn [OF s] by (auto simp: held_def)
  moreover have "held db' = {p \<in> held db3. fst p \<noteq> a_session_id act}"
    unfolding db' by (rule held_clear) (simp_all add: checkpointed_def)
  ultimately show ?thesis by simp
qed

lemma held_retry: "retry db sid = Inr (db', b) \<Longrightarrow> held db' = held db"
  by (rule set_eqI)
     (auto simp: retry_Inr held_update split: if_splits, auto simp: held_iff)

lemma held_purge: "purge db cutoff limit = Inr (db', n) \<Longrightarrow> held db' \<subseteq> held db"
  by (auto simp: purge_Inr Let_def fold_delete held_def)

lemma held_bind: "bind_definition db ex c = Inr db' \<Longrightarrow> held db' = held db"
  by (auto simp: bind_definition_def Let_def intro!: held_sessions split: if_splits option.splits)

lemma held_apply_op: "p \<in> held (apply_op db op) \<Longrightarrow> p \<in> held db \<or> op_token op = Some (snd p)"
proof (cases op)
  case (OpClaim now tok ls ex me sess wk ma)
  assume p: "p \<in> held (apply_op db op)"
  show ?thesis
  proof (cases "claim db now tok ls ex me sess wk ma")
    case (Inl e)
    with p OpClaim show ?thesis by (simp add: settle_db_def)
  next
    case (Inr y)
    obtain d x where y: "y = (d, x)" by (cases y)
    from held_claim [OF Inr [unfolded y]] p OpClaim Inr y show ?thesis
      by (auto simp: settle_db_def split: option.splits)
  qed
next
  case (OpPurge cutoff limit)
  then show "p \<in> held (apply_op db op) \<Longrightarrow> ?thesis"
    by (cases "purge db cutoff limit") (auto simp: settle_db_def dest!: held_purge)
qed (auto simp: settle_db_def append_mail_def held_append held_create held_release held_bind
        held_commit held_retry split: sum.splits)

lemma reachable_held: "reachable U db \<Longrightarrow> p \<in> held db \<Longrightarrow> snd p \<in> U"
proof (induction arbitrary: p rule: reachable.induct)
  case reach_start
  then show ?case by (simp add: held_iff empty_db_def)
next
  case (reach_step U db op)
  from held_apply_op [OF reach_step.prems] show ?case
    using reach_step.IH [of p] by (elim disjE) simp_all
qed

text \<open>A token leases at most one session.\<close>

lemma held_token_unique:
  "reachable U db \<Longrightarrow> (s1, t) \<in> held db \<Longrightarrow> (s2, t) \<in> held db \<Longrightarrow> s1 = s2"
proof (induction arbitrary: s1 s2 t rule: reachable.induct)
  case reach_start
  then show ?case by (simp add: held_iff empty_db_def)
next
  case (reach_step U db op)
  show ?case
  proof (cases "op_token op = Some t")
    case False
    then have "(s1, t) \<in> held db" "(s2, t) \<in> held db"
      using held_apply_op [OF reach_step.prems(1)] held_apply_op [OF reach_step.prems(2)] by auto
    then show ?thesis by (rule reach_step.IH)
  next
    case True
    then have fresh: "t \<notin> U" using reach_step.hyps(2) by simp
    then have none: "(s, t) \<notin> held db" for s using reachable_held [OF reach_step.hyps(1)] by force
    from True obtain now ls ex me sess wk ma where op: "op = OpClaim now t ls ex me sess wk ma"
      by (cases op) auto
    show ?thesis
    proof (cases "claim db now t ls ex me sess wk ma")
      case (Inl e)
      with reach_step.prems none show ?thesis by (simp add: op settle_db_def)
    next
      case (Inr y)
      obtain d x where y: "y = (d, x)" by (cases y)
      have "p \<in> held d \<Longrightarrow> snd p = t \<Longrightarrow> \<exists>act. x = Some act \<and> p = (a_session_id act, t)" for p
        using held_claim [OF Inr [unfolded y]] none by (cases p) (auto split: option.splits)
      from this [of "(s1, t)"] this [of "(s2, t)"] reach_step.prems Inr y show ?thesis
        by (auto simp: op settle_db_def)
    qed
  qed
qed

text \<open>A token that was issued and is not held now is never held again.\<close>

lemma never_held_again:
  assumes "\<forall>s. (s, t) \<notin> held db" and "t \<in> U" and "fresh_ops U ops"
  shows "(s, t) \<notin> held (run_ops db ops)"
  using assms
proof (induction ops arbitrary: db U)
  case (Cons op ops)
  from Cons.prems have ntok: "op_token op \<noteq> Some t" by auto
  show ?case
    unfolding run_ops_simps
  proof (rule Cons.IH)
    show "\<forall>s. (s, t) \<notin> held (apply_op db op)"
      using held_apply_op [of _ db op] Cons.prems(1) ntok by fastforce
    show "t \<in> U \<union> set_option (op_token op)" using Cons.prems(2) by simp
    show "fresh_ops (U \<union> set_option (op_token op)) ops" using Cons.prems(3) by simp
  qed
qed simp

lemma not_held_stale:
  assumes "(a_session_id act, a_token act) \<notin> held db"
  shows "holder db now act = Inl (StaleActivation (a_session_id act))"
proof (cases "holder db now act")
  case (Inl e)
  then show ?thesis using holder_Inl by simp
next
  case (Inr r)
  then have "(a_session_id act, a_token act) \<in> held db"
    using find_session_Some [of db "a_session_id act" r] heldI [of r db "a_token act"]
    by (auto simp: holder_Inr)
  with assms show ?thesis by simp
qed

lemma stale_commit:
  "holder db t2 act = Inl e \<Longrightarrow> \<exists>e'. commit db t1 t2 act c = Inl e'"
  by (cases "commit_checks act c") (auto simp: commit_def)

lemma stale_release:
  "holder db t1 act = Inl e \<Longrightarrow> \<exists>e'. release db t1 t2 act err ra = Inl e'"
  by (auto simp: release_def)

text \<open>The activation that just gave up its session can never act on it again.\<close>

lemma given_up_is_final:
  assumes reach: "reachable U db" and h: "holder db now act = Inr r"
    and gone: "held db' = {p \<in> held db. fst p \<noteq> a_session_id act}"
    and fresh: "fresh_ops U ops"
  shows "holder (run_ops db' ops) t act = Inl (StaleActivation (a_session_id act))"
proof (rule not_held_stale, rule never_held_again [OF _ _ fresh])
  have here: "(a_session_id act, a_token act) \<in> held db"
    using h find_session_Some [of db "a_session_id act" r] heldI [of r db "a_token act"]
    by (auto simp: holder_Inr)
  then show "a_token act \<in> U" using reachable_held [OF reach] by force
  show "\<forall>s. (s, a_token act) \<notin> held db'"
    using held_token_unique [OF reach here] gone by auto
qed

end
