(* ===== verification/Wake_Mail.thy ===== *)
theory Wake_Mail
  imports Wake_Runs
begin

text \<open>
  Mail in the session store: how recorded inputs evolve over any run, so that accepted mail is
  neither lost nor delivered again once incorporated, and the identity of deadline timers.
\<close>

subsection \<open>How one transaction changes a recorded input\<close>

text \<open>A commit that succeeds and lists the event among its incorporated inputs.\<close>

definition incorporates :: "wake_db \<Rightarrow> wake_op \<Rightarrow> string \<Rightarrow> string \<Rightarrow> bool" where
  "incorporates db op sid eid =
     (case op of
        OpCommit t1 t2 act c \<Rightarrow> a_session_id act = sid \<and> eid \<in> set (c_incorporated c)
          \<and> (case commit db t1 t2 act c of Inl _ \<Rightarrow> False | Inr _ \<Rightarrow> True)
      | _ \<Rightarrow> False)"

definition is_purge :: "wake_op \<Rightarrow> bool" where
  "is_purge op = (case op of OpPurge _ _ \<Rightarrow> True | _ \<Rightarrow> False)"

lemma append_input_keeps: "append_input t db sid e = Inr (db', b) \<Longrightarrow> set (inputs db) \<subseteq> set (inputs db')"
  by (auto simp: append_input_Inr split: if_splits)

lemma deliver_timer_keeps: "deliver_timer db now r = Inr db' \<Longrightarrow> set (inputs db) \<subseteq> set (inputs db')"
  by (auto simp: deliver_timer_def result_simps dest!: append_input_keeps split: option.splits if_splits)

lemma claim_keeps_inputs:
  assumes "claim db now tok ls ex me sess wk ma = Inr (db', x)"
  shows "set (inputs db) \<subseteq> set (inputs db')"
proof (cases x)
  case None
  with assms show ?thesis by (auto dest!: claim_None claim_search_mail)
next
  case (Some act)
  from assms [unfolded Some] obtain db1 db2 r where s: "claim_search db now ex sess ma = (db1, Some r)"
    and t: "deliver_timer db1 now r = Inr db2"
    and db': "db' = update_session (s_id r) (lease tok (now + fin_val ls) wk (next_claim db2)) db2"
    by (rule claim_Some)
  show ?thesis using claim_search_mail [OF s] deliver_timer_keeps [OF t] by (simp add: db')
qed

lemma input_evolves:
  assumes i: "i \<in> set (inputs db)" and np: "\<not> is_purge op"
  shows "i\<lparr>i_incorporated := i_incorporated i \<or> incorporates db op (i_session i) (i_event_id i)\<rparr>
           \<in> set (inputs (apply_op db op))"
proof (cases op)
  case (OpCommit t1 t2 act c)
  show ?thesis
  proof (cases "commit db t1 t2 act c")
    case (Inl e)
    then show ?thesis using i OpCommit by (simp add: settle_db_def incorporates_def)
  next
    case (Inr db')
    then obtain new where "inputs db' = map (marked (a_session_id act) (set (c_incorporated c))) (inputs db) @ new"
      by (rule commit_shape)
    then have "marked (a_session_id act) (set (c_incorporated c)) i \<in> set (inputs db')" using i by simp
    moreover have "marked (a_session_id act) (set (c_incorporated c)) i =
        i\<lparr>i_incorporated := i_incorporated i \<or> incorporates db op (i_session i) (i_event_id i)\<rparr>"
      by (auto simp: marked_def incorporates_def OpCommit Inr)
    ultimately show ?thesis using Inr OpCommit by (simp add: settle_db_def)
  qed
next
  case (OpClaim now tok ls ex me sess wk ma)
  then show ?thesis using i claim_keeps_inputs [of db now tok ls ex me sess wk ma]
    by (auto simp: settle_db_def incorporates_def split: sum.splits)
next
  case (OpAppend sid e)
  then show ?thesis using i append_input_keeps [of False db sid e]
    by (auto simp: settle_db_def incorporates_def append_mail_def split: sum.splits)
next
  case (OpBind ex c)
  then show ?thesis using i
    by (auto simp: settle_db_def incorporates_def bind_definition_def Let_def split: sum.splits option.splits)
next
  case (OpCreate sid ex st)
  then show ?thesis using i
    by (auto simp: settle_db_def incorporates_def create_session_Inr split: sum.splits)
next
  case (OpRelease t1 t2 act err ra)
  then show ?thesis using i
    by (auto simp: settle_db_def incorporates_def release_Inr split: sum.splits)
next
  case (OpRetry sid)
  then show ?thesis using i
    by (auto simp: settle_db_def incorporates_def retry_Inr split: sum.splits)
next
  case (OpPurge cutoff limit)
  with np show ?thesis by (simp add: is_purge_def)
qed

text \<open>A purge removes complete sessions only, and those hold no pending mail.\<close>

lemma purge_keeps_pending:
  assumes ok: "db_ok db" and i: "i \<in> set (inputs db)" "\<not> i_incorporated i"
    and run: "purge db cutoff limit = Inr (db', n)"
  shows "i \<in> set (inputs db')"
proof -
  from run have db': "db' = foldl delete_session db (map s_id (purgeable db (fin_val cutoff) (map_option nat limit)))"
    by (auto simp: purge_Inr Let_def)
  have "i_session i \<noteq> s_id r" if "r \<in> set (purgeable db (fin_val cutoff) (map_option nat limit))" for r
  proof
    assume eq: "i_session i = s_id r"
    have "pending db (s_id r) = []"
      using purgeable_in [OF that] db_ok_complete [OF ok] by blast
    moreover have "i \<in> set (pending db (s_id r))" using i eq by (simp add: pending_set)
    ultimately show False by simp
  qed
  with i show ?thesis by (auto simp: db' fold_delete)
qed

subsection \<open>No accepted mail is lost\<close>

definition mail_pending :: "wake_db \<Rightarrow> string \<Rightarrow> string \<Rightarrow> dict \<Rightarrow> bool" where
  "mail_pending db sid eid e \<longleftrightarrow>
     (\<exists>i \<in> set (pending db sid). i_event_id i = eid \<and> i_event i = e)"

fun incorporated_in :: "wake_db \<Rightarrow> wake_op list \<Rightarrow> string \<Rightarrow> string \<Rightarrow> bool" where
  "incorporated_in db [] sid eid = False"
| "incorporated_in db (op # ops) sid eid =
     (incorporates db op sid eid \<or> incorporated_in (apply_op db op) ops sid eid)"

lemma mail_pending_step:
  assumes ok: "db_ok db" and m: "mail_pending db sid eid e" and n: "\<not> incorporates db op sid eid"
  shows "mail_pending (apply_op db op) sid eid e"
proof -
  from m obtain i where i: "i \<in> set (inputs db)" "i_session i = sid" "\<not> i_incorporated i"
    "i_event_id i = eid" "i_event i = e"
    by (auto simp: mail_pending_def pending_set)
  have "i \<in> set (inputs (apply_op db op))"
  proof (cases "is_purge op")
    case True
    then obtain cutoff limit where op: "op = OpPurge cutoff limit"
      by (cases op) (auto simp: is_purge_def)
    show ?thesis
    proof (cases "purge db cutoff limit")
      case (Inl er)
      with i show ?thesis by (simp add: op settle_db_def)
    next
      case (Inr y)
      with purge_keeps_pending [OF ok i(1,3), of cutoff limit "fst y" "snd y"] show ?thesis
        by (simp add: op settle_db_def)
    qed
  next
    case False
    from input_evolves [OF i(1) this] n i show ?thesis by (cases i) simp
  qed
  with i show ?thesis by (auto simp: mail_pending_def pending_set)
qed

lemma mail_pending_run:
  "db_ok db \<Longrightarrow> mail_pending db sid eid e \<Longrightarrow>
     mail_pending (run_ops db ops) sid eid e \<or> incorporated_in db ops sid eid"
proof (induction ops arbitrary: db)
  case (Cons op ops)
  show ?case
  proof (cases "incorporates db op sid eid")
    case False
    from Cons.IH [OF apply_op_db_ok [OF Cons.prems(1)] mail_pending_step [OF Cons.prems False]]
    show ?thesis by auto
  qed simp
qed simp

lemma append_mail_pending:
  assumes "append_mail db sid e = Inr (db', True)"
  shows "\<exists>eid. event_key e = Some eid \<and> mail_pending db' sid eid e"
  using assms by (auto simp: append_mail_def append_input_Inr mail_pending_def pending_snoc)

subsection \<open>Incorporated mail stays incorporated\<close>

definition mail_done :: "wake_db \<Rightarrow> string \<Rightarrow> string \<Rightarrow> bool" where
  "mail_done db sid eid \<longleftrightarrow>
     (\<exists>i \<in> set (inputs db). i_session i = sid \<and> i_event_id i = eid \<and> i_incorporated i)"

lemma mail_done_step:
  assumes "mail_done db sid eid" and "\<not> is_purge op"
  shows "mail_done (apply_op db op) sid eid"
proof -
  from assms(1) obtain i where i: "i \<in> set (inputs db)" "i_session i = sid" "i_event_id i = eid" "i_incorporated i"
    by (auto simp: mail_done_def)
  from input_evolves [OF i(1) assms(2)] i(4)
  have "i\<lparr>i_incorporated := True\<rparr> \<in> set (inputs (apply_op db op))" by simp
  with i(2,3) show ?thesis unfolding mail_done_def by (intro bexI) simp_all
qed

lemma mail_done_run:
  "mail_done db sid eid \<Longrightarrow> \<forall>op \<in> set ops. \<not> is_purge op \<Longrightarrow> mail_done (run_ops db ops) sid eid"
  by (induction ops arbitrary: db) (auto intro: mail_done_step)

lemma mail_done_not_pending:
  assumes ok: "db_ok db" and d: "mail_done db sid eid" and i: "i \<in> set (pending db sid)"
  shows "i_event_id i \<noteq> eid"
proof
  assume eq: "i_event_id i = eid"
  from d obtain j where j: "j \<in> set (inputs db)" "i_session j = sid" "i_event_id j = eid" "i_incorporated j"
    by (auto simp: mail_done_def)
  from i have "i \<in> set (inputs db)" "i_session i = sid" "\<not> i_incorporated i" by (simp_all add: pending_set)
  then have "i = j"
    using db_ok_inputs [OF ok] j eq unfolding distinct_map by (auto dest: inj_onD)
  with j i show False by (simp add: pending_set)
qed

text \<open>What a claim delivers is pending in the database it returns.\<close>

lemma claim_events_pending:
  assumes "claim db now tok ls ex me sess wk ma = Inr (db', Some act)"
  shows "a_events act = take_opt (map_option nat me) (map i_event (pending db' (a_session_id act)))"
  by (rule claim_Some [OF assms]) simp

lemma commit_marks_done:
  assumes ok: "db_ok db" and run: "commit db t1 t2 act c = Inr db'"
    and i: "eid \<in> set (c_incorporated c)" and here: "has_input db (a_session_id act) eid"
  shows "mail_done db' (a_session_id act) eid"
proof -
  from run obtain new where "inputs db' = map (marked (a_session_id act) (set (c_incorporated c))) (inputs db) @ new"
    by (rule commit_shape)
  moreover from here obtain j where "j \<in> set (inputs db)" "i_session j = a_session_id act" "i_event_id j = eid"
    by (auto simp: has_input_iff)
  ultimately have "marked (a_session_id act) (set (c_incorporated c)) j \<in> set (inputs db')" by simp
  with \<open>i_session j = a_session_id act\<close> \<open>i_event_id j = eid\<close> i show ?thesis
    unfolding mail_done_def by (intro bexI) simp_all
qed

end
