(* ===== verification/Wake_Leases.thy ===== *)
theory Wake_Leases
  imports Wake_Mail
begin

text \<open>
  Leases, readiness and fairness of the session store: a live lease excludes every other claim, a
  claim finds eligible work when there is some, the least recently claimed session goes first, and
  a step that failed or crashed is ready again.
\<close>

subsection \<open>A live lease is left alone\<close>

text \<open>Transactions by others: claims while the lease is live, releases and commits with another token.\<close>

fun leaves_lease :: "string \<Rightarrow> rat \<Rightarrow> wake_op \<Rightarrow> bool" where
  "leaves_lease tok until (OpClaim now _ _ _ _ _ _ _) = (now < until)"
| "leaves_lease tok until (OpRelease _ _ act _ _) = (a_token act \<noteq> tok)"
| "leaves_lease tok until (OpCommit _ _ act _) = (a_token act \<noteq> tok)"
| "leaves_lease tok until _ = True"

lemma find_session_snoc:
  "find_session db sid = Some r \<Longrightarrow> find_session (db\<lparr>sessions := sessions db @ rs\<rparr>) sid = Some r"
  by (simp add: find_session_def find_append)

lemma find_session_filter:
  "find_session db sid = Some r \<Longrightarrow> P r \<Longrightarrow> distinct (map s_id (sessions db)) \<Longrightarrow>
     find_session (db\<lparr>inputs := ys, sessions := filter P (sessions db)\<rparr>) sid = Some r"
  using find_session_in [of "db\<lparr>inputs := ys, sessions := filter P (sessions db)\<rparr>" r]
    find_session_Some [of db sid r]
  by (simp add: distinct_map_filter)

lemma live_not_candidate:
  assumes "db_ok db" "find_session db sid = Some r" "s_lease_until r = Some u" "now < u"
    and "r' \<in> set (candidates db now ex sess)"
  shows "s_id r' \<noteq> sid"
proof
  assume "s_id r' = sid"
  with assms(5) have "find_session db sid = Some r'"
    using find_session_in [OF db_ok_ids [OF assms(1)]] by (auto simp: candidates_def)
  with assms have "ready now db r" by (auto simp: candidates_def)
  with assms(3,4) show False by (simp add: ready_def)
qed

lemma claim_search_keeps_live:
  assumes run: "claim_search db now ex sess ma = (db', x)" and ok: "db_ok db"
    and f: "find_session db sid = Some r" "s_lease_until r = Some u" "now < u"
  shows "find_session db' sid = Some r"
proof -
  have "db_ok db' \<and> find_session db' sid = Some r"
  proof (rule claim_search_preserves [OF run, where Q = "\<lambda>d. db_ok d \<and> find_session d sid = Some r"])
    fix d r' assume q: "db_ok d \<and> find_session d sid = Some r" and c: "r' \<in> set (candidates d now ex sess)"
    then have "s_id r' \<noteq> sid" using live_not_candidate [of d sid r u now] f by blast
    with q c show "db_ok (update_session (s_id r') park_failed d) \<and>
        find_session (update_session (s_id r') park_failed d) sid = Some r"
      by (simp add: db_ok_park find_session_update)
  qed (use ok f in simp)
  then show ?thesis ..
qed

lemma claim_other:
  assumes run: "claim db now tok ls ex me sess wk ma = Inr (db', Some act)" and ok: "db_ok db"
    and f: "find_session db sid = Some r" "s_lease_until r = Some u" "now < u"
  shows "a_session_id act \<noteq> sid \<and> find_session db' sid = Some r"
proof (rule claim_Some [OF run])
  fix db1 db2 r'
  assume s: "claim_search db now ex sess ma = (db1, Some r')" and t: "deliver_timer db1 now r' = Inr db2"
    and db': "db' = update_session (s_id r') (lease tok (now + fin_val ls) wk (next_claim db2)) db2"
    and sid: "a_session_id act = s_id r'"
  have f1: "find_session db1 sid = Some r" by (rule claim_search_keeps_live [OF s ok f])
  have "s_id r' \<noteq> sid"
    using live_not_candidate [OF claimed_row(1) [OF ok s] f1 f(2,3)] claimed_row(8) [OF ok s] by blast
  with f1 deliver_timer_sessions [OF t] show ?thesis by (simp add: sid db' find_session_update)
qed

lemma op_keeps_live:
  assumes ok: "db_ok db" and f: "find_session db sid = Some r" "s_token r = Some tok" "s_lease_until r = Some u"
    and op: "leaves_lease tok u op"
  shows "find_session (apply_op db op) sid = Some r"
proof -
  have act: "s_status r = Active" using db_ok_row [OF ok] find_session_Some [OF f(1)] f(2) by (force simp: row_ok_def)
  show ?thesis
  proof (cases op)
    case (OpClaim now tok' ls ex me sess wk ma)
    show ?thesis
    proof (cases "claim db now tok' ls ex me sess wk ma")
      case (Inr y)
      obtain d x where y: "y = (d, x)" by (cases y)
      have "now < u" using op OpClaim by simp
      then have "find_session d sid = Some r"
        using claim_other [OF _ ok f(1,3)] claim_search_keeps_live [OF _ ok f(1,3)] Inr y
        by (cases x) (auto dest!: claim_None)
      with Inr y OpClaim show ?thesis by (simp add: settle_db_def)
    qed (use f OpClaim in \<open>simp add: settle_db_def\<close>)
  next
    case (OpRelease t1 t2 a err ra)
    show ?thesis
    proof (cases "release db t1 t2 a err ra")
      case (Inr d)
      with f op OpRelease have "a_session_id a \<noteq> sid" by (auto simp: release_Inr holder_Inr)
      then have "find_session d sid = Some r" using Inr f by (auto simp: release_Inr find_session_update)
      with Inr OpRelease show ?thesis by (simp add: settle_db_def)
    qed (use f OpRelease in \<open>simp add: settle_db_def\<close>)
  next
    case (OpCommit t1 t2 a c)
    show ?thesis
    proof (cases "commit db t1 t2 a c")
      case (Inr d)
      with f op OpCommit have other: "a_session_id a \<noteq> sid" by (auto simp: commit_Inr holder_Inr)
      from Inr obtain db1 db3 where s: "fold_res spawn_child db (c_spawn c) = Inr db1"
        and p: "fold_res publish_one (foldl (incorporate (a_session_id a)) db1 (c_incorporated c)) (c_publish c) = Inr db3"
        and d: "d = update_session (a_session_id a) (checkpointed c t1) db3"
        by (auto simp: commit_Inr)
      have "sessions db3 = sessions db1" using fold_publish [OF p] by (simp add: fold_incorporate)
      then have "find_session db3 sid = Some r"
        using find_session_snoc [OF f(1)] fold_spawn [OF s] by (simp add: find_session_def)
      with other Inr d OpCommit show ?thesis by (simp add: settle_db_def find_session_update)
    qed (use f OpCommit in \<open>simp add: settle_db_def\<close>)
  next
    case (OpPurge cutoff limit)
    show ?thesis
    proof (cases "purge db cutoff limit")
      case (Inr y)
      let ?ids = "map s_id (purgeable db (fin_val cutoff) (map_option nat limit))"
      have "s_id r \<notin> set ?ids"
      proof
        assume "s_id r \<in> set ?ids"
        then obtain r' where "r' \<in> set (sessions db)" "s_id r' = s_id r" "s_status r' = Complete"
          by (auto dest!: purgeable_in)
        moreover have "s_id r = sid" using find_session_Some [OF f(1)] by simp
        ultimately have "r' = r" using find_session_in [OF db_ok_ids [OF ok], of r'] f(1) by simp
        with act \<open>s_status r' = Complete\<close> show False by simp
      qed
      with find_session_filter [OF f(1) _ db_ok_ids [OF ok], of "\<lambda>r. s_id r \<notin> set ?ids"] Inr
      have "find_session (fst y) sid = Some r"
        by (cases y) (auto simp: purge_Inr Let_def fold_delete)
      with Inr OpPurge show ?thesis by (simp add: settle_db_def)
    qed (use f OpPurge in \<open>simp add: settle_db_def\<close>)
  next
    case (OpBind ex c)
    with f show ?thesis
      by (auto simp: settle_db_def bind_definition_def Let_def find_session_def split: sum.splits option.splits)
  next
    case (OpCreate s ex st)
    with f show ?thesis
      by (auto simp: settle_db_def create_session_Inr find_session_snoc split: sum.splits)
  next
    case (OpAppend s e)
    with f show ?thesis
      by (auto simp: settle_db_def append_mail_def append_input_Inr find_session_def split: sum.splits if_splits)
  next
    case (OpRetry s)
    with f act show ?thesis
      by (auto simp: settle_db_def retry_Inr find_session_update split: sum.splits if_splits)
  qed
qed

lemma run_keeps_live:
  "db_ok db \<Longrightarrow> find_session db sid = Some r \<Longrightarrow> s_token r = Some tok \<Longrightarrow> s_lease_until r = Some u
     \<Longrightarrow> \<forall>op \<in> set ops. leaves_lease tok u op \<Longrightarrow> find_session (run_ops db ops) sid = Some r"
  by (induction ops arbitrary: db) (auto intro: op_keeps_live apply_op_db_ok)

text \<open>The row a claim leaves behind for the session it returned.\<close>

lemma claimed_now:
  assumes ok: "db_ok db" and run: "claim db now tok ls ex me sess wk ma = Inr (db', Some act)"
  shows "\<exists>r. find_session db' (a_session_id act) = Some r \<and> s_token r = Some tok \<and> a_token act = tok
           \<and> s_lease_until r = Some (now + fin_val ls) \<and> s_status r = Active \<and> s_attempts r = a_attempt act"
proof (rule claim_Some [OF run])
  fix db1 db2 r
  assume s: "claim_search db now ex sess ma = (db1, Some r)" and t: "deliver_timer db1 now r = Inr db2"
    and db': "db' = update_session (s_id r) (lease tok (now + fin_val ls) wk (next_claim db2)) db2"
    and a: "a_session_id act = s_id r" "a_token act = tok" "a_attempt act = s_attempts r + 1"
  have "find_session db2 (s_id r) = Some r"
    using claimed_row(3) [OF ok s] deliver_timer_sessions [OF t] by simp
  then show ?thesis by (simp add: db' find_session_update a)
qed

subsection \<open>A claim finds work\<close>

lemma candidate_after_park:
  assumes ok: "db_ok db" and r: "r \<in> set (candidates db now ex sess)"
    and r': "r' \<in> set (candidates db now ex sess)" and ne: "r \<noteq> r'"
  shows "r \<in> set (candidates (update_session (s_id r') park_failed db) now ex sess)"
proof -
  have "s_id r \<noteq> s_id r'"
  proof
    assume eq: "s_id r = s_id r'"
    from r r' have "r \<in> set (sessions db)" "r' \<in> set (sessions db)" by (simp_all add: candidates_def)
    with find_session_in [OF db_ok_ids [OF ok]] eq have "Some r = Some r'" by metis
    with ne show False by simp
  qed
  with r show ?thesis by (auto simp: candidates_def ready_def update_session_def)
qed

lemma claim_search_finds:
  assumes ok: "db_ok db" and r: "r \<in> set (candidates db now ex sess)" and w: "within_attempts ma r"
    and run: "claim_search db now ex sess ma = (db', x)"
  shows "r \<in> set (candidates db' now ex sess)"
proof -
  have "db_ok db' \<and> r \<in> set (candidates db' now ex sess)"
  proof (rule claim_search_preserves [OF run, where Q = "\<lambda>d. db_ok d \<and> r \<in> set (candidates d now ex sess)"])
    fix d r' assume q: "db_ok d \<and> r \<in> set (candidates d now ex sess)"
      and c: "r' \<in> set (candidates d now ex sess)" and n: "\<not> within_attempts ma r'"
    with w have "r \<noteq> r'" by blast
    with q c show "db_ok (update_session (s_id r') park_failed d) \<and>
        r \<in> set (candidates (update_session (s_id r') park_failed d) now ex sess)"
      by (simp add: db_ok_park candidate_after_park)
  qed (use ok r in simp)
  then show ?thesis ..
qed

lemma claim_total:
  assumes "db_ok db" and "isfinite ls" "0 < fin_val ls"
    and "\<forall>n. me = Some n \<longrightarrow> 0 < n" and "\<forall>n. ma = Some n \<longrightarrow> 0 < n"
  shows "\<exists>db' x. claim db now tok ls ex me sess wk ma = Inr (db', x)"
proof -
  have params: "\<not> (case me of None \<Rightarrow> False | Some n \<Rightarrow> n \<le> 0)" "\<not> (case ma of None \<Rightarrow> False | Some n \<Rightarrow> n \<le> 0)"
    using assms(4,5) by (auto split: option.splits)
  obtain db1 x where s: "claim_search db now ex sess ma = (db1, x)" by fastforce
  show ?thesis
  proof (cases x)
    case None
    with s params assms show ?thesis by (simp add: claim_def)
  next
    case (Some r)
    note c = claimed_row [OF assms(1) s [unfolded Some]]
    from deliver_timer_cases [OF c(3,4)] obtain db2 where "deliver_timer db1 now r = Inr db2" by metis
    with s Some params assms show ?thesis by (simp add: claim_def Let_def)
  qed
qed

subsection \<open>Rotation\<close>

text \<open>The other sessions that a rotating claim may still prefer to session \<open>r\<close>.\<close>

definition ahead :: "wake_db \<Rightarrow> session_row \<Rightarrow> session_row list" where
  "ahead db r = filter (\<lambda>r'. s_id r' \<noteq> s_id r \<and> s_last_claim r' \<le> s_last_claim r) (sessions db)"

lemma next_claim_gt: "r \<in> set (sessions db) \<Longrightarrow> s_last_claim r < next_claim db"
proof -
  have "x \<in> set xs \<Longrightarrow> x \<le> foldr max xs (0::nat)" for x xs
    by (induction xs) (auto simp: le_max_iff_disj)
  then show "r \<in> set (sessions db) \<Longrightarrow> s_last_claim r < next_claim db"
    by (auto simp: next_claim_def less_Suc_eq_le)
qed

lemma length_filter_map_le:
  assumes "\<And>x. P (f x) \<Longrightarrow> P x"
  shows "length (filter P (map f xs)) \<le> length (filter P xs)"
  using assms by (induction xs) auto

lemma length_filter_map_less:
  assumes "\<And>x. P (f x) \<Longrightarrow> P x" and "x \<in> set xs" "P x" "\<not> P (f x)"
  shows "length (filter P (map f xs)) < length (filter P xs)"
  using assms(2)
proof (induction xs)
  case (Cons y ys)
  show ?case
  proof (cases "x = y")
    case True
    then show ?thesis using assms(3,4) length_filter_map_le [of P f ys, OF assms(1)]
      by (simp add: less_Suc_eq_le)
  next
    case False
    then show ?thesis using Cons assms(1) [of y] by auto
  qed
qed simp

lemma ahead_park: "length (ahead (update_session sid park_failed db) r) \<le> length (ahead db r)"
proof -
  have s: "sessions (update_session sid park_failed db) =
      map (\<lambda>r. if s_id r = sid then park_failed r else r) (sessions db)"
    by (simp add: update_session_def)
  show ?thesis unfolding ahead_def s by (rule length_filter_map_le) (auto split: if_splits)
qed

lemma claim_search_ahead:
  "claim_search db now ex sess ma = (db', x) \<Longrightarrow> length (ahead db' r) \<le> length (ahead db r)"
  by (erule claim_search_preserves [where Q = "\<lambda>d. length (ahead d r) \<le> length (ahead db r)"])
     (auto intro: order_trans [OF ahead_park])

lemma claim_rotates:
  assumes ok: "db_ok db" and r: "r \<in> set (candidates db now ex sess)" and w: "within_attempts ma r"
    and run: "claim db now tok ls ex me sess wk ma = Inr (db', Some act)"
    and other: "a_session_id act \<noteq> s_id r"
  shows "length (ahead db' r) < length (ahead db r) \<and> find_session db' (s_id r) = Some r"
proof (rule claim_Some [OF run])
  fix db1 db2 r1
  assume s: "claim_search db now ex sess ma = (db1, Some r1)" and t: "deliver_timer db1 now r1 = Inr db2"
    and db': "db' = update_session (s_id r1) (lease tok (now + fin_val ls) wk (next_claim db2)) db2"
    and sid: "a_session_id act = s_id r1"
  note c = claimed_row [OF ok s]
  have r1: "r \<in> set (candidates db1 now ex sess)" by (rule claim_search_finds [OF ok r w s])
  then have le: "s_last_claim r1 \<le> s_last_claim r"
    using claim_search_result [OF s] min_by_le by fastforce
  have ss: "sessions db2 = sessions db1" using deliver_timer_sessions [OF t] by simp
  have inr: "r \<in> set (sessions db2)" using r1 ss by (simp add: candidates_def)
  have lt: "s_last_claim r < next_claim db2" using next_claim_gt [OF inr] .
  let ?f = "\<lambda>r'. if s_id r' = s_id r1 then lease tok (now + fin_val ls) wk (next_claim db2) r' else r'"
  let ?P = "\<lambda>r'. s_id r' \<noteq> s_id r \<and> s_last_claim r' \<le> s_last_claim r"
  have "length (filter ?P (map ?f (sessions db2))) < length (filter ?P (sessions db2))"
    by (rule length_filter_map_less [where x = r1]) (use c(2) ss le lt other sid in \<open>auto split: if_splits\<close>)
  then have "length (ahead db' r) < length (ahead db1 r)"
    by (simp add: ahead_def db' update_session_def ss)
  moreover have "find_session db' (s_id r) = Some r"
    using find_session_in [OF db_ok_ids [OF c(1)]] r1 deliver_timer_sessions [OF t] other sid
    by (auto simp: db' find_session_update candidates_def)
  ultimately show ?thesis using claim_search_ahead [OF s, of r] by simp
qed

end
