(* ===== verification/Wake_Service.thy ===== *)
theory Wake_Service
  imports Wake_Leases
begin

text \<open>
  No step is lost: the invariant \<open>service_ok\<close> ties a session's attempts to mail that is still
  pending and a deadline's timer mail to the revision that set the deadline. With it, a released,
  crashed or retried step is ready again, whatever happened in between.
\<close>

definition timer_text :: "string \<Rightarrow> nat \<Rightarrow> string" where
  "timer_text sid k = ''timer:'' @ sid @ '':'' @ nat_text k"

lemma timer_text_starts [simp]: "starts_with ''timer:'' (timer_text sid k)"
  unfolding timer_text_def by (rule starts_with_append)

lemma timer_text_inj [simp]: "timer_text sid k = timer_text sid l \<longleftrightarrow> k = l"
  by (simp add: timer_text_def)

lemma timer_id_text: "timer_id r = timer_text (s_id r) (s_revision r)"
  by (simp add: timer_id_def timer_text_def)

definition timers_ok :: "wake_db \<Rightarrow> bool" where
  "timers_ok db \<longleftrightarrow>
     (\<forall>i \<in> set (inputs db). \<forall>k. i_event_id i = timer_text (i_session i) k \<longrightarrow>
        (\<exists>r. find_session db (i_session i) = Some r \<and> k \<le> s_revision r
           \<and> (i_incorporated i \<longrightarrow> k < s_revision r)))"

definition attempts_ok :: "wake_db \<Rightarrow> bool" where
  "attempts_ok db \<longleftrightarrow>
     (\<forall>r \<in> set (sessions db). 0 < s_attempts r \<and> 0 < s_revision r \<longrightarrow> pending db (s_id r) \<noteq> [])"

definition service_ok :: "wake_db \<Rightarrow> bool" where
  "service_ok db \<longleftrightarrow> timers_ok db \<and> attempts_ok db"

lemma timers_okD:
  "timers_ok db \<Longrightarrow> i \<in> set (inputs db) \<Longrightarrow> i_event_id i = timer_text (i_session i) k \<Longrightarrow>
     \<exists>r. find_session db (i_session i) = Some r \<and> k \<le> s_revision r \<and> (i_incorporated i \<longrightarrow> k < s_revision r)"
  unfolding timers_ok_def by blast

lemma timers_ok_sessions:
  assumes "timers_ok db" and "inputs db' = inputs db"
    and "\<And>sid r. find_session db sid = Some r \<Longrightarrow> \<exists>r'. find_session db' sid = Some r' \<and> s_revision r \<le> s_revision r'"
  shows "timers_ok db'"
  unfolding timers_ok_def
proof (intro ballI allI impI)
  fix i k assume "i \<in> set (inputs db')" "i_event_id i = timer_text (i_session i) k"
  then obtain r where r: "find_session db (i_session i) = Some r" "k \<le> s_revision r" "i_incorporated i \<longrightarrow> k < s_revision r"
    using timers_okD [OF assms(1)] assms(2) by metis
  from assms(3) [OF r(1)] obtain r' where "find_session db' (i_session i) = Some r'" "s_revision r \<le> s_revision r'"
    by blast
  with r show "\<exists>r. find_session db' (i_session i) = Some r \<and> k \<le> s_revision r \<and> (i_incorporated i \<longrightarrow> k < s_revision r)"
    by (intro exI [of _ r']) auto
qed

lemma service_update:
  assumes ok: "service_ok db" and id: "\<And>r. s_id (f r) = s_id r" and rev: "\<And>r. s_revision (f r) = s_revision r"
    and att: "\<And>r. r \<in> set (sessions db) \<Longrightarrow> s_id r = sid \<Longrightarrow> 0 < s_attempts (f r) \<Longrightarrow> 0 < s_revision r \<Longrightarrow>
                 pending db sid \<noteq> []"
  shows "service_ok (update_session sid f db)"
proof -
  have "timers_ok (update_session sid f db)"
    by (rule timers_ok_sessions [of db]) (use ok id rev in \<open>auto simp: service_ok_def find_session_update\<close>)
  moreover have "attempts_ok (update_session sid f db)"
    unfolding attempts_ok_def
  proof (intro ballI impI)
    fix r assume "r \<in> set (sessions (update_session sid f db))" and c: "0 < s_attempts r \<and> 0 < s_revision r"
    then obtain r0 where r0: "r0 \<in> set (sessions db)" "r = (if s_id r0 = sid then f r0 else r0)"
      by (auto simp: update_session_def)
    show "pending (update_session sid f db) (s_id r) \<noteq> []"
    proof (cases "s_id r0 = sid")
      case True
      then show ?thesis using att [OF r0(1)] c r0(2) id rev by simp
    next
      case False
      then show ?thesis using ok c r0 unfolding service_ok_def attempts_ok_def by simp
    qed
  qed
  ultimately show ?thesis by (simp add: service_ok_def)
qed

lemma service_update_same:
  assumes "service_ok db" and "\<And>r. s_id (f r) = s_id r" "\<And>r. s_revision (f r) = s_revision r"
    and "\<And>r. s_attempts (f r) \<le> s_attempts r"
  shows "service_ok (update_session sid f db)"
proof (rule service_update [OF assms(1-3)])
  fix r assume "r \<in> set (sessions db)" "s_id r = sid" "0 < s_attempts (f r)" "0 < s_revision r"
  moreover from this(3) have "0 < s_attempts r" using assms(4) [of r] by simp
  ultimately show "pending db sid \<noteq> []"
    using assms(1) unfolding service_ok_def attempts_ok_def by blast
qed

lemma service_append:
  assumes ok: "service_ok db" and run: "append_input t db sid e = Inr (db', b)"
    and timer: "\<And>k. t \<Longrightarrow> event_key e = Some (timer_text sid k) \<Longrightarrow>
                  \<exists>r. find_session db sid = Some r \<and> k \<le> s_revision r"
  shows "service_ok db'"
proof (cases b)
  case True
  with run obtain eid r where e: "event_key e = Some eid" "starts_with ''timer:'' eid \<longrightarrow> t"
    "find_session db sid = Some r" and db': "db' = db\<lparr>inputs := inputs db @
        [\<lparr>i_session = sid, i_event_id = eid, i_event = e, i_incorporated = False\<rparr>]\<rparr>"
    by (auto simp: append_input_Inr)
  have "timers_ok db'"
    unfolding timers_ok_def
  proof (intro ballI allI impI)
    fix i k assume i: "i \<in> set (inputs db')" and k: "i_event_id i = timer_text (i_session i) k"
    show "\<exists>r. find_session db' (i_session i) = Some r \<and> k \<le> s_revision r \<and> (i_incorporated i \<longrightarrow> k < s_revision r)"
    proof (cases "i \<in> set (inputs db)")
      case True
      then show ?thesis using timers_okD [of db i k] ok k by (simp add: service_ok_def db' find_session_def)
    next
      case False
      with i have eq: "i = \<lparr>i_session = sid, i_event_id = eid, i_event = e, i_incorporated = False\<rparr>" by (simp add: db')
      with k e(2) have "t" by auto
      with timer [of k] e(1) k eq show ?thesis by (auto simp: db' find_session_def)
    qed
  qed
  moreover have "attempts_ok db'"
    using ok by (auto simp: service_ok_def attempts_ok_def db' pending_snoc)
  ultimately show ?thesis by (simp add: service_ok_def)
next
  case False
  with run ok show ?thesis by (auto simp: append_input_Inr)
qed

lemma service_create:
  assumes "service_ok db" and "create_session db sid ex st = Inr db'"
  shows "service_ok db'"
proof -
  from assms(2) have db': "db' = db\<lparr>sessions := sessions db @ [new_row sid ex st]\<rparr>" by (simp add: create_session_Inr)
  have "timers_ok db'"
    by (rule timers_ok_sessions [of db]) (use assms(1) in \<open>auto simp: service_ok_def db' find_session_snoc\<close>)
  with assms(1) show ?thesis by (auto simp: service_ok_def attempts_ok_def db')
qed

subsection \<open>The claim\<close>

lemma service_claim_search:
  "service_ok db \<Longrightarrow> claim_search db now ex sess ma = (db', x) \<Longrightarrow> service_ok db'"
  by (rule claim_search_preserves [where Q = service_ok])
     (auto intro!: service_update_same simp: park_failed_def)

lemma service_timer:
  assumes "service_ok db" and "find_session db (s_id r) = Some r" and "deliver_timer db now r = Inr db'"
  shows "service_ok db'"
  using assms
  by (auto simp: deliver_timer_def result_simps timer_text_def intro!: service_append [of db] split: option.splits if_splits)

lemma pending_nonemptyI: "i \<in> set (inputs db) \<Longrightarrow> i_session i = sid \<Longrightarrow> \<not> i_incorporated i \<Longrightarrow> pending db sid \<noteq> []"
  using pending_set [of i db sid] by auto

text \<open>A claimed session that has been checkpointed before has mail to deliver.\<close>

lemma claimed_has_mail:
  assumes ok: "db_ok db" and serv: "service_ok db" and r: "find_session db (s_id r) = Some r"
    and rd: "ready now db r" and rev: "0 < s_revision r" and t: "deliver_timer db now r = Inr db'"
  shows "pending db' (s_id r) \<noteq> []"
proof -
  have inr: "r \<in> set (sessions db)" using find_session_Some [OF r] by simp
  have row: "row_ok r" by (rule db_ok_row [OF ok inr])
  have keep: "pending db (s_id r) \<noteq> [] \<Longrightarrow> pending db' (s_id r) \<noteq> []"
    using deliver_timer_keeps [OF t] by (fastforce simp: pending_def filter_empty_conv)
  consider (active) "s_status r = Active" | (due) d where "s_deadline r = Some d" "d \<le> now"
    | (mail) "pending db (s_id r) \<noteq> []"
    using rd row rev by (auto simp: ready_def row_ok_def list_ex_iff pending_def filter_empty_conv split: option.splits)
  then show ?thesis
  proof cases
    case active
    then have "0 < s_attempts r" using row by (simp add: row_ok_def)
    then show ?thesis using serv inr rev keep unfolding service_ok_def attempts_ok_def by blast
  next
    case due
    have ns: "s_status r \<noteq> Complete" using rd ready_not_terminal by blast
    show ?thesis
    proof (cases "has_input db (s_id r) (timer_id r)")
      case True
      then obtain i where i: "i \<in> set (inputs db)" "i_session i = s_id r" "i_event_id i = timer_text (i_session i) (s_revision r)"
        by (auto simp: has_input_iff timer_id_text)
      with timers_okD [OF _ i(1,3)] serv r have "\<not> i_incorporated i" by (auto simp: service_ok_def)
      with i pending_nonemptyI keep show ?thesis by blast
    next
      case False
      with deliver_timer_cases [OF r ns, of now] due t have "db' = db\<lparr>inputs := inputs db @
          [\<lparr>i_session = s_id r, i_event_id = timer_id r, i_event = timer_event (s_id r) (s_revision r) (the (s_deadline r)),
            i_incorporated = False\<rparr>]\<rparr>" by auto
      then show ?thesis by (simp add: pending_snoc)
    qed
  next
    case mail
    then show ?thesis by (rule keep)
  qed
qed

lemma service_claim:
  assumes ok: "db_ok db" and serv: "service_ok db" and run: "claim db now tok ls ex me sess wk ma = Inr (db', x)"
  shows "service_ok db'"
proof (cases x)
  case None
  with run serv show ?thesis by (auto dest!: claim_None intro: service_claim_search)
next
  case (Some act)
  show ?thesis
  proof (rule claim_Some [OF run [unfolded Some]])
    fix db1 db2 r
    assume s: "claim_search db now ex sess ma = (db1, Some r)" and t: "deliver_timer db1 now r = Inr db2"
      and db': "db' = update_session (s_id r) (lease tok (now + fin_val ls) wk (next_claim db2)) db2"
    note c = claimed_row [OF ok s]
    have s1: "service_ok db1" by (rule service_claim_search [OF serv s])
    have s2: "service_ok db2" by (rule service_timer [OF s1 c(3) t])
    show ?thesis unfolding db'
    proof (rule service_update [OF s2])
      fix r' assume r': "r' \<in> set (sessions db2)" "s_id r' = s_id r" "0 < s_revision r'"
      then have "r' \<in> set (sessions db1)" using deliver_timer_sessions [OF t] by simp
      then have "find_session db1 (s_id r') = Some r'" by (rule find_session_in [OF db_ok_ids [OF c(1)]])
      with c(3) r'(2) have "r' = r" by (metis option.inject)
      with r'(3) claimed_has_mail [OF c(1) s1 c(3,6) _ t] show "pending db2 (s_id r) \<noteq> []" by simp
    qed simp_all
  qed
qed

subsection \<open>Commit and purge\<close>

lemma service_commit:
  assumes ok: "db_ok db" and serv: "service_ok db" and run: "commit db t1 t2 act c = Inr db'"
  shows "service_ok db'"
proof -
  from run obtain db1 db3 where s: "fold_res spawn_child db (c_spawn c) = Inr db1"
    and p: "fold_res publish_one (foldl (incorporate (a_session_id act)) db1 (c_incorporated c)) (c_publish c) = Inr db3"
    and db': "db' = update_session (a_session_id act) (checkpointed c t1) db3"
    by (auto simp: commit_Inr)
  let ?db2 = "foldl (incorporate (a_session_id act)) db1 (c_incorporated c)"
  have s1: "service_ok db1"
    by (rule fold_res_invariant [OF _ s, of service_ok]) (use serv in \<open>auto simp: spawn_child_Inr intro: service_create\<close>)
  text \<open>Between marking and the final update the timers of the committing session may be of the
    current revision already; the others keep their bound.\<close>
  let ?T = "\<lambda>d. \<forall>i \<in> set (inputs d). \<forall>k. i_event_id i = timer_text (i_session i) k \<longrightarrow>
        (\<exists>r. find_session d (i_session i) = Some r \<and> k \<le> s_revision r
           \<and> (i_incorporated i \<longrightarrow> i_session i = a_session_id act \<or> k < s_revision r))"
  let ?A = "\<lambda>d. \<forall>r \<in> set (sessions d). s_id r \<noteq> a_session_id act \<and> 0 < s_attempts r \<and> 0 < s_revision r
        \<longrightarrow> pending d (s_id r) \<noteq> []"
  have "?T ?db2"
    using s1 by (fastforce simp: service_ok_def timers_ok_def fold_incorporate find_session_def)
  moreover have "?A ?db2"
    using s1 by (simp add: service_ok_def attempts_ok_def pending_incorporate) (simp add: fold_incorporate)
  ultimately have "?T ?db2 \<and> ?A ?db2" by blast
  then have TA: "?T db3 \<and> ?A db3"
  proof (rule fold_res_invariant [OF _ p, rotated])
    fix d x d' assume st: "publish_one d x = Inr d'" and P: "?T d \<and> ?A d"
    from st obtain b where a: "append_input False d (pub_session_id x) (pub_event x) = Inr (d', b)"
      by (auto simp: publish_one_Inr)
    show "?T d' \<and> ?A d'"
    proof (cases b)
      case True
      with a obtain eid where "\<not> starts_with ''timer:'' eid" and d': "d' = d\<lparr>inputs := inputs d @
          [\<lparr>i_session = pub_session_id x, i_event_id = eid, i_event = pub_event x, i_incorporated = False\<rparr>]\<rparr>"
        by (auto simp: append_input_Inr)
      then have "eid \<noteq> timer_text sid k" for sid k using timer_text_starts by metis
      with P show ?thesis by (auto simp: d' find_session_def pending_snoc)
    next
      case False
      with a P show ?thesis by (auto simp: append_input_Inr)
    qed
  qed
  have "timers_ok db'"
    unfolding timers_ok_def
  proof (intro ballI allI impI)
    fix i k assume "i \<in> set (inputs db')" "i_event_id i = timer_text (i_session i) k"
    then have "i \<in> set (inputs db3)" "i_event_id i = timer_text (i_session i) k" by (simp_all add: db')
    with TA obtain r where "find_session db3 (i_session i) = Some r" "k \<le> s_revision r"
      "i_incorporated i \<longrightarrow> i_session i = a_session_id act \<or> k < s_revision r"
      by meson
    then show "\<exists>r. find_session db' (i_session i) = Some r \<and> k \<le> s_revision r \<and> (i_incorporated i \<longrightarrow> k < s_revision r)"
      by (auto simp: db' find_session_update checkpointed_def)
  qed
  moreover have "attempts_ok db'"
    using TA by (auto simp: attempts_ok_def db' update_session_def checkpointed_def)
  ultimately show ?thesis by (simp add: service_ok_def)
qed

lemma service_purge:
  assumes ok: "db_ok db" and serv: "service_ok db" and run: "purge db cutoff limit = Inr (db', n)"
  shows "service_ok db'"
proof -
  let ?ids = "map s_id (purgeable db (fin_val cutoff) (map_option nat limit))"
  from run have db': "db' = db\<lparr>inputs := filter (\<lambda>i. i_session i \<notin> set ?ids) (inputs db),
        sessions := filter (\<lambda>r. s_id r \<notin> set ?ids) (sessions db)\<rparr>"
    by (simp add: purge_Inr Let_def fold_delete)
  have keep: "find_session db' sid = Some r" if "find_session db sid = Some r" "sid \<notin> set ?ids" for sid r
    using find_session_filter [OF that(1) _ db_ok_ids [OF ok], of "\<lambda>r. s_id r \<notin> set ?ids"]
      find_session_Some [OF that(1)] that(2) by (simp add: db')
  have "pending db' sid = pending db sid" if "sid \<notin> set ?ids" for sid
    using that by (auto simp: db' pending_def intro: filter_cong)
  then have "attempts_ok db'"
    using serv by (auto simp: service_ok_def attempts_ok_def db')
  moreover have "timers_ok db'"
    unfolding timers_ok_def
  proof (intro ballI allI impI)
    fix i k assume i: "i \<in> set (inputs db')" "i_event_id i = timer_text (i_session i) k"
    then have "i \<in> set (inputs db)" "i_session i \<notin> set ?ids" by (simp_all add: db')
    with timers_okD [of db i k] serv i(2) keep
    show "\<exists>r. find_session db' (i_session i) = Some r \<and> k \<le> s_revision r \<and> (i_incorporated i \<longrightarrow> k < s_revision r)"
      by (auto simp: service_ok_def)
  qed
  ultimately show ?thesis by (simp add: service_ok_def)
qed

subsection \<open>Every transaction, and the reachable stores\<close>

lemma service_sessions:
  "service_ok db \<Longrightarrow> sessions db' = sessions db \<Longrightarrow> inputs db' = inputs db \<Longrightarrow> service_ok db'"
  by (simp add: service_ok_def timers_ok_def attempts_ok_def find_session_def pending_def)

lemma apply_op_service:
  assumes ok: "db_ok db" and serv: "service_ok db"
  shows "service_ok (apply_op db op)"
proof (cases op)
  case (OpBind ex c)
  show ?thesis unfolding OpBind apply_op.simps
    by (rule settle_dbI [where P = service_ok, OF serv])
       (auto simp: bind_definition_def Let_def serv intro: service_sessions [OF serv] split: if_splits option.splits)
next
  case (OpCreate sid ex st)
  show ?thesis unfolding OpCreate apply_op.simps
    by (rule settle_dbI [where P = service_ok, OF serv]) (simp add: service_create [OF serv])
next
  case (OpAppend sid e)
  show ?thesis unfolding OpAppend apply_op.simps append_mail_def
    by (rule settle_dbI [where P = service_ok, OF serv]) (metis service_append [OF serv] prod.collapse)
next
  case (OpClaim now tok ls ex me sess wk ma)
  show ?thesis unfolding OpClaim apply_op.simps
    by (rule settle_dbI [where P = service_ok, OF serv]) (metis service_claim [OF ok serv] prod.collapse)
next
  case (OpRelease t1 t2 act err ra)
  show ?thesis unfolding OpRelease apply_op.simps
    by (rule settle_dbI [where P = service_ok, OF serv]) (auto simp: release_Inr intro!: service_update_same [OF serv])
next
  case (OpRetry sid)
  show ?thesis unfolding OpRetry apply_op.simps
  proof (rule settle_dbI [where P = service_ok, OF serv])
    fix x assume "retry db sid = Inr x"
    then show "service_ok (fst x)"
      by (cases x) (auto simp: retry_Inr serv intro!: service_update_same [OF serv] split: if_splits)
  qed
next
  case (OpCommit t1 t2 act c)
  show ?thesis unfolding OpCommit apply_op.simps
    by (rule settle_dbI [where P = service_ok, OF serv]) (simp add: service_commit [OF ok serv])
next
  case (OpPurge cutoff limit)
  show ?thesis unfolding OpPurge apply_op.simps
    by (rule settle_dbI [where P = service_ok, OF serv]) (metis service_purge [OF ok serv] prod.collapse)
qed

lemma service_empty: "service_ok empty_db"
  by (simp add: service_ok_def timers_ok_def attempts_ok_def empty_db_def)

lemma reachable_service: "reachable U db \<Longrightarrow> service_ok db"
  by (induction rule: reachable.induct) (auto intro: service_empty apply_op_service reachable_db_ok)

lemma run_ops_service: "db_ok db \<Longrightarrow> service_ok db \<Longrightarrow> service_ok (run_ops db ops)"
  by (induction ops arbitrary: db) (auto intro: apply_op_service apply_op_db_ok)

text \<open>A session a worker holds, or that was parked after a failed attempt, has a reason to run.\<close>

lemma has_reason:
  assumes ok: "db_ok db" and serv: "service_ok db" and r: "r \<in> set (sessions db)" and a: "0 < s_attempts r"
    and nt: "s_status r \<noteq> Complete" "s_status r \<noteq> Failed"
  shows "s_status r \<in> {Ready, Active} \<or> pending db (s_id r) \<noteq> []"
proof (cases "s_revision r")
  case 0
  with db_ok_row [OF ok r] nt have "s_status r \<in> {Ready, Active}"
    by (cases "s_status r") (auto simp: row_ok_def)
  then show ?thesis ..
next
  case (Suc k)
  with serv r a show ?thesis by (auto simp: service_ok_def attempts_ok_def)
qed

lemma pending_list_ex: "pending db sid \<noteq> [] \<longleftrightarrow> list_ex (\<lambda>i. i_session i = sid \<and> \<not> i_incorporated i) (inputs db)"
  by (auto simp: pending_def filter_empty_conv list_ex_iff)

lemma claim_search_none_parks:
  assumes ok: "db_ok db" and run: "claim_search db now ex sess ma = (db', None)"
    and r: "r \<in> set (candidates db now ex sess)"
  shows "find_session db' (s_id r) = Some (park_failed r) \<and> \<not> within_attempts ma r"
proof -
  have "db_ok db' \<and> (r \<in> set (candidates db' now ex sess) \<or> find_session db' (s_id r) = Some (park_failed r))"
  proof (rule claim_search_preserves [OF run,
      where Q = "\<lambda>d. db_ok d \<and> (r \<in> set (candidates d now ex sess) \<or> find_session d (s_id r) = Some (park_failed r))"])
    fix d r0
    assume q: "db_ok d \<and> (r \<in> set (candidates d now ex sess) \<or> find_session d (s_id r) = Some (park_failed r))"
      and c: "r0 \<in> set (candidates d now ex sess)"
    let ?d = "update_session (s_id r0) park_failed d"
    have f0: "find_session d (s_id r0) = Some r0"
      using q find_session_in [OF db_ok_ids ready_row_in [OF c]] by blast
    have "r \<in> set (candidates ?d now ex sess) \<or> find_session ?d (s_id r) = Some (park_failed r)"
    proof (cases "r0 = r")
      case True
      with f0 show ?thesis by (simp add: find_session_update)
    next
      case False
      show ?thesis
      proof (cases "r \<in> set (candidates d now ex sess)")
        case True
        then show ?thesis using candidate_after_park [of d r now ex sess r0] q c False by blast
      next
        case n: False
        with q have p: "find_session d (s_id r) = Some (park_failed r)" by blast
        have "s_status r0 \<noteq> Failed" using candidates_ready [OF c] ready_not_terminal by blast
        with p f0 have "s_id r \<noteq> s_id r0" by (metis option.inject park_failed_fields(1))
        with p show ?thesis by (simp add: find_session_update)
      qed
    qed
    with q c show "db_ok ?d \<and> (r \<in> set (candidates ?d now ex sess) \<or> find_session ?d (s_id r) = Some (park_failed r))"
      by (simp add: db_ok_park)
  qed (use ok r in simp)
  with claim_search_result [OF run] have "find_session db' (s_id r) = Some (park_failed r)" by simp
  moreover have "\<not> within_attempts ma r"
    using claim_search_finds [OF ok r _ run] claim_search_result [OF run] by auto
  ultimately show ?thesis by blast
qed

lemma candidates_park:
  "x \<in> set (candidates (update_session sid park_failed d) now ex sess) \<Longrightarrow> x \<in> set (candidates d now ex sess)"
  by (auto simp: candidates_def ready_def update_session_def park_failed_def split: if_splits)

lemma claim_none_iff:
  assumes "db_ok db" and "isfinite ls" "0 < fin_val ls"
    and "\<forall>n. me = Some n \<longrightarrow> 0 < n" and "\<forall>n. ma = Some n \<longrightarrow> 0 < n"
  shows "\<exists>db' x. claim db now tok ls ex me sess wk ma = Inr (db', x)
       \<and> (x = None \<longleftrightarrow> (\<forall>r \<in> set (candidates db now ex sess). \<not> within_attempts ma r))
       \<and> (x = None \<longrightarrow> (\<forall>r \<in> set (candidates db now ex sess). find_session db' (s_id r) = Some (park_failed r)))"
proof -
  obtain db' x where run: "claim db now tok ls ex me sess wk ma = Inr (db', x)"
    using claim_total [OF assms] by blast
  have none: "\<not> within_attempts ma r \<and> find_session db' (s_id r) = Some (park_failed r)"
    if "x = None" "r \<in> set (candidates db now ex sess)" for r
    using claim_search_none_parks [OF assms(1) claim_None that(2)] run that(1) by auto
  have some: "\<exists>r \<in> set (candidates db now ex sess). within_attempts ma r" if "x \<noteq> None"
  proof -
    from that run obtain act where run': "claim db now tok ls ex me sess wk ma = Inr (db', Some act)" by blast
    have "\<exists>d r. claim_search db now ex sess ma = (d, Some r)" by (rule claim_Some [OF run']) blast
    then obtain d r where s: "claim_search db now ex sess ma = (d, Some r)" by blast
    have "\<forall>r \<in> set (candidates d now ex sess). r \<in> set (candidates db now ex sess)"
      by (rule claim_search_preserves [OF s,
            where Q = "\<lambda>d. \<forall>r \<in> set (candidates d now ex sess). r \<in> set (candidates db now ex sess)"])
         (use candidates_park in blast)+
    with claimed_row(7,8) [OF assms(1) s] show ?thesis by blast
  qed
  have "x = None \<longleftrightarrow> (\<forall>r \<in> set (candidates db now ex sess). \<not> within_attempts ma r)"
    using none some by blast
  moreover have "x = None \<longrightarrow> (\<forall>r \<in> set (candidates db now ex sess). find_session db' (s_id r) = Some (park_failed r))"
    using none by blast
  ultimately show ?thesis using run by (intro exI conjI)
qed

end
