(* ===== verification/Wake_Spec.thy ===== *)
theory Wake_Spec
  imports Wake_Service
begin

text \<open>
  What the store promises, without leases: a session is its definition, state, wake time and an
  ordered mailbox whose items are open or done. The abstraction forgets status bookkeeping, tokens,
  leases, attempts and claim order. Creating, posting and committing act on it as the functions
  below say; claiming adds at most the due timer's mail; releasing, retrying, parking as failed and
  binding definitions change nothing.
\<close>

record item =
  m_id :: string
  m_event :: dict
  m_done :: bool

record life =
  l_executable :: string
  l_state :: json
  l_deadline :: "rat option"
  l_revision :: nat
  l_completed :: "rat option"
  l_mail :: "item list"

type_synonym lives = "string \<Rightarrow> life option"

definition item_of :: "input_row \<Rightarrow> item" where
  "item_of i = \<lparr>m_id = i_event_id i, m_event = i_event i, m_done = i_incorporated i\<rparr>"

definition mailbox_of :: "wake_db \<Rightarrow> string \<Rightarrow> item list" where
  "mailbox_of db sid = map item_of (filter (\<lambda>i. i_session i = sid) (inputs db))"

definition life_of :: "wake_db \<Rightarrow> session_row \<Rightarrow> life" where
  "life_of db r = \<lparr>l_executable = s_executable r, l_state = s_state r, l_deadline = s_deadline r,
     l_revision = s_revision r, l_completed = s_completed_at r, l_mail = mailbox_of db (s_id r)\<rparr>"

definition lives :: "wake_db \<Rightarrow> lives" where
  "lives db sid = map_option (life_of db) (find_session db sid)"

definition new_life :: "string \<Rightarrow> json \<Rightarrow> life" where
  "new_life ex st = \<lparr>l_executable = ex, l_state = st, l_deadline = None, l_revision = 0,
     l_completed = None, l_mail = []\<rparr>"

definition post :: "string \<Rightarrow> string \<Rightarrow> dict \<Rightarrow> lives \<Rightarrow> lives" where
  "post sid eid e m = (case m sid of None \<Rightarrow> m
     | Some l \<Rightarrow> if eid \<in> set (map m_id (l_mail l)) then m
                else m(sid \<mapsto> l\<lparr>l_mail := l_mail l @ [\<lparr>m_id = eid, m_event = e, m_done = False\<rparr>]\<rparr>))"

definition finish :: "string set \<Rightarrow> item \<Rightarrow> item" where
  "finish E i = (if m_id i \<in> E then i\<lparr>m_done := True\<rparr> else i)"

definition spawn_lives :: "spawn list \<Rightarrow> lives \<Rightarrow> lives" where
  "spawn_lives cs m = foldl (\<lambda>m ch. m(sp_session_id ch \<mapsto> new_life (sp_executable ch) (sp_state ch))) m cs"

definition post_all :: "publication list \<Rightarrow> lives \<Rightarrow> lives" where
  "post_all ps m = foldl (\<lambda>m p. post (pub_session_id p) (the (event_key (pub_event p))) (pub_event p) m) m ps"

definition on_life :: "string \<Rightarrow> (life \<Rightarrow> life) \<Rightarrow> lives \<Rightarrow> lives" where
  "on_life sid f m = (case m sid of None \<Rightarrow> m | Some l \<Rightarrow> m(sid \<mapsto> f l))"

definition advance :: "checkpoint \<Rightarrow> rat \<Rightarrow> life \<Rightarrow> life" where
  "advance c now l = l\<lparr>l_state := c_state c, l_deadline := map_option fin_val (c_deadline c),
     l_revision := l_revision l + 1, l_completed := (if c_complete c then Some now else None),
     l_executable := (case c_rebind c of None \<Rightarrow> l_executable l | Some b \<Rightarrow> b)\<rparr>"

text \<open>A checkpoint: children first, then the incorporated mail, the outgoing mail, the new state.\<close>

definition checkpoint_lives :: "string \<Rightarrow> checkpoint \<Rightarrow> rat \<Rightarrow> lives \<Rightarrow> lives" where
  "checkpoint_lives sid c now m =
     on_life sid (advance c now)
       (post_all (c_publish c)
         (on_life sid (\<lambda>l. l\<lparr>l_mail := map (finish (set (c_incorporated c))) (l_mail l)\<rparr>)
           (spawn_lives (c_spawn c) m)))"

subsection \<open>The abstraction of each primitive update\<close>

lemma mailbox_sessions [simp]: "mailbox_of (db\<lparr>sessions := xs\<rparr>) = mailbox_of db"
  by (rule ext) (simp add: mailbox_of_def)

lemma mailbox_update [simp]: "mailbox_of (update_session sid f db) = mailbox_of db"
  by (rule ext) (simp add: mailbox_of_def)

lemma lives_cong:
  assumes "sessions d = sessions d'" and "inputs d = inputs d'"
  shows "lives d = lives d'"
  using assms by (auto simp: lives_def find_session_def life_of_def [abs_def] mailbox_of_def [abs_def])

lemma life_of_sessions: "inputs d = inputs d' \<Longrightarrow> life_of d = life_of d'"
  by (rule ext) (simp add: life_of_def mailbox_of_def)

lemma lives_update:
  assumes "\<And>r. s_id (f r) = s_id r" and "\<And>r. life_of db (f r) = g (life_of db r)"
  shows "lives (update_session sid f db) = on_life sid g (lives db)"
proof (rule ext)
  fix x
  have "life_of (update_session sid f db) = life_of db" by (rule life_of_sessions) simp
  then show "lives (update_session sid f db) x = on_life sid g (lives db) x"
    using assms(2) find_session_Some [of db x]
    by (auto simp: lives_def on_life_def find_session_update [OF assms(1)] option.map_comp comp_def
             split: option.splits)
qed

lemma lives_update_same:
  assumes "\<And>r. s_id (f r) = s_id r" and "\<And>r. life_of db (f r) = life_of db r"
  shows "lives (update_session sid f db) = lives db"
proof -
  have "on_life sid (\<lambda>l. l) m = m" for m by (auto simp: on_life_def split: option.splits)
  then show ?thesis using lives_update [of f db "\<lambda>l. l" sid] assms by simp
qed

lemma lives_append:
  assumes ok: "db_ok db" and run: "append_input t db sid e = Inr (db', b)"
  shows "lives db' = post sid (the (event_key e)) e (lives db)"
    and "b \<longleftrightarrow> (\<exists>l. lives db sid = Some l \<and> the (event_key e) \<notin> set (map m_id (l_mail l)))"
proof -
  obtain eid r where e: "event_key e = Some eid" and r: "find_session db sid = Some r"
    and b: "b = (\<not> has_input db sid eid)" and db': "db' = (if b then db\<lparr>inputs := inputs db @
        [\<lparr>i_session = sid, i_event_id = eid, i_event = e, i_incorporated = False\<rparr>]\<rparr> else db)"
  proof -
    from run show ?thesis unfolding append_input_Inr by (elim exE conjE) (rule that, simp_all split: if_splits)
  qed
  have id: "s_id r = sid" using find_session_Some [OF r] by simp
  have mem: "eid \<in> set (map m_id (mailbox_of db sid)) \<longleftrightarrow> has_input db sid eid"
    by (auto simp: mailbox_of_def has_input_def list_ex_iff item_of_def)
  show "b \<longleftrightarrow> (\<exists>l. lives db sid = Some l \<and> the (event_key e) \<notin> set (map m_id (l_mail l)))"
    using mem by (simp add: lives_def r life_of_def id e b)
  show "lives db' = post sid (the (event_key e)) e (lives db)"
  proof (cases b)
    case False
    then show ?thesis using mem b by (simp add: db' post_def lives_def r life_of_def id e)
  next
    case True
    have f: "find_session db' x = find_session db x" for x using db' True by (simp add: find_session_def)
    have m: "mailbox_of db' x = mailbox_of db x @ (if x = sid then [\<lparr>m_id = eid, m_event = e, m_done = False\<rparr>] else [])" for x
      using db' True by (simp add: mailbox_of_def item_of_def)
    show ?thesis
    proof (rule ext)
      fix x
      have "post sid (the (event_key e)) e (lives db) = (lives db)(sid \<mapsto> (life_of db r)
          \<lparr>l_mail := mailbox_of db sid @ [\<lparr>m_id = eid, m_event = e, m_done = False\<rparr>]\<rparr>)"
        using mem b True by (simp add: post_def lives_def r e life_of_def id)
      then show "lives db' x = post sid (the (event_key e)) e (lives db) x"
        using find_session_Some [of db x] by (auto simp: lives_def life_of_def f m r id intro!: map_option_cong)
    qed
  qed
qed

lemma lives_create:
  assumes "create_session db sid ex st = Inr db'" and fresh: "\<forall>i \<in> set (inputs db). i_session i \<noteq> sid"
  shows "lives db' = (lives db)(sid \<mapsto> new_life ex st)" and "lives db sid = None"
proof -
  from assms(1) have db': "db' = db\<lparr>sessions := sessions db @ [new_row sid ex st]\<rparr>" and n: "find_session db sid = None"
    by (simp_all add: create_session_Inr)
  show "lives db sid = None" by (simp add: lives_def n)
  have "mailbox_of db sid = []" using fresh by (simp add: mailbox_of_def)
  moreover have "life_of db' = life_of db" unfolding db' by (rule life_of_sessions) simp
  ultimately have new: "life_of db' = life_of db" "life_of db (new_row sid ex st) = new_life ex st"
    by (simp_all add: life_of_def new_life_def new_row_def)
  have f: "find_session db' x = (if x = sid then Some (new_row sid ex st) else find_session db x)" for x
    using n by (auto simp: db' find_session_def find_append split: option.splits)
  show "lives db' = (lives db)(sid \<mapsto> new_life ex st)"
    by (rule ext) (simp add: lives_def f new)
qed

lemma input_session_exists: "db_ok db \<Longrightarrow> find_session db sid = None \<Longrightarrow> \<forall>i \<in> set (inputs db). i_session i \<noteq> sid"
  using db_ok_input by (fastforce simp: find_session_None)

lemma lives_spawn:
  "db_ok db \<Longrightarrow> fold_res spawn_child db cs = Inr db1 \<Longrightarrow> lives db1 = spawn_lives cs (lives db)"
proof (induction cs arbitrary: db)
  case (Cons ch cs)
  from Cons.prems(2) obtain d where s: "spawn_child db ch = Inr d" and r: "fold_res spawn_child d cs = Inr db1"
    by (auto simp: result_simps)
  from s have c: "create_session db (sp_session_id ch) (sp_executable ch) (sp_state ch) = Inr d"
    by (simp add: spawn_child_Inr)
  then have "find_session db (sp_session_id ch) = None" by (simp add: create_session_Inr)
  then have l: "lives d = (lives db)(sp_session_id ch \<mapsto> new_life (sp_executable ch) (sp_state ch))"
    using lives_create [OF c] input_session_exists [OF Cons.prems(1)] by blast
  show ?case by (simp only: Cons.IH [OF db_ok_create [OF Cons.prems(1) c] r] l spawn_lives_def foldl.simps)
qed (simp add: spawn_lives_def)

lemma lives_publish:
  "db_ok db \<Longrightarrow> fold_res publish_one db ps = Inr db1 \<Longrightarrow> lives db1 = post_all ps (lives db)"
proof (induction ps arbitrary: db)
  case (Cons p ps)
  from Cons.prems(2) obtain d b where a: "append_input False db (pub_session_id p) (pub_event p) = Inr (d, b)"
    and r: "fold_res publish_one d ps = Inr db1"
    by (auto simp: result_simps publish_one_Inr)
  show ?case
    by (simp only: Cons.IH [OF db_ok_append [OF Cons.prems(1) a] r] lives_append(1) [OF Cons.prems(1) a]
          post_all_def foldl.simps)
qed (simp add: post_all_def)

lemma lives_incorporate:
  "lives (foldl (incorporate sid) db eids) =
     on_life sid (\<lambda>l. l\<lparr>l_mail := map (finish (set eids)) (l_mail l)\<rparr>) (lives db)"
proof (rule ext)
  fix x
  let ?d = "foldl (incorporate sid) db eids"
  have f: "find_session ?d x = find_session db x" by (simp add: fold_incorporate find_session_def)
  have "map item_of (filter (\<lambda>i. i_session i = y) (map (marked sid (set eids)) xs)) =
          (if y = sid then map (finish (set eids)) (map item_of (filter (\<lambda>i. i_session i = y) xs))
           else map item_of (filter (\<lambda>i. i_session i = y) xs))" for xs y
    by (induction xs) (auto simp: item_of_def finish_def marked_def)
  then have m: "mailbox_of ?d y = (if y = sid then map (finish (set eids)) (mailbox_of db y) else mailbox_of db y)" for y
    by (simp add: mailbox_of_def fold_incorporate)
  show "lives ?d x = on_life sid (\<lambda>l. l\<lparr>l_mail := map (finish (set eids)) (l_mail l)\<rparr>) (lives db) x"
    using f m find_session_Some [of db]
    by (cases "find_session db x"; cases "find_session db sid") (auto simp: lives_def on_life_def life_of_def)
qed

subsection \<open>The operations\<close>

lemma lives_commit:
  assumes ok: "db_ok db" and run: "commit db t1 t2 act c = Inr db'"
  shows "lives db' = checkpoint_lives (a_session_id act) c t1 (lives db)"
proof -
  from run obtain db1 db3 where s: "fold_res spawn_child db (c_spawn c) = Inr db1"
    and p: "fold_res publish_one (foldl (incorporate (a_session_id act)) db1 (c_incorporated c)) (c_publish c) = Inr db3"
    and db': "db' = update_session (a_session_id act) (checkpointed c t1) db3"
    by (auto simp: commit_Inr)
  have ok2: "db_ok (foldl (incorporate (a_session_id act)) db1 (c_incorporated c))"
    by (rule db_ok_incorporate [OF fold_spawn_db_ok [OF ok s]])
  have "life_of db3 (checkpointed c t1 r) = advance c t1 (life_of db3 r)" for r
    by (cases "c_rebind c") (simp_all add: life_of_def advance_def checkpointed_def)
  then have "lives db' = on_life (a_session_id act) (advance c t1) (lives db3)"
    unfolding db' by (intro lives_update) (simp_all add: checkpointed_def)
  then show ?thesis
    by (simp add: checkpoint_lives_def lives_publish [OF ok2 p] lives_incorporate lives_spawn [OF ok s])
qed

lemma lives_claim_search: "claim_search db now ex sess ma = (db', x) \<Longrightarrow> lives db' = lives db"
  by (erule claim_search_preserves [where Q = "\<lambda>d. lives d = lives db"])
     (simp_all add: lives_update_same life_of_def park_failed_def)

lemma lives_deliver_timer:
  assumes ok: "db_ok db" and t: "deliver_timer db now r = Inr db'"
  shows "lives db' = (if \<exists>d. s_deadline r = Some d \<and> d \<le> now
     then post (s_id r) (timer_id r) (timer_event (s_id r) (s_revision r) (the (s_deadline r))) (lives db) else lives db)"
proof (cases "\<exists>d. s_deadline r = Some d \<and> d \<le> now")
  case True
  then obtain d where d: "s_deadline r = Some d" "d \<le> now" by blast
  with t obtain b where a: "append_input True db (s_id r) (timer_event (s_id r) (s_revision r) d) = Inr (db', b)"
    by (auto simp: deliver_timer_def result_simps)
  from lives_append(1) [OF ok a] d show ?thesis by (simp add: timer_id_def)
next
  case False
  with t show ?thesis by (auto simp: deliver_timer_def split: option.splits)
qed

lemma lives_claim:
  assumes ok: "db_ok db" and run: "claim db now tok ls ex me sess wk ma = Inr (db', x)"
  shows "case x of None \<Rightarrow> lives db' = lives db
    | Some act \<Rightarrow> \<exists>l. lives db (a_session_id act) = Some l \<and> a_state act = l_state l \<and> a_executable act = l_executable l
        \<and> lives db' = (case l_deadline l of
             Some d \<Rightarrow> if d \<le> now then post (a_session_id act) (timer_text (a_session_id act) (l_revision l))
                (timer_event (a_session_id act) (l_revision l) d) (lives db)
               else lives db
           | None \<Rightarrow> lives db)"
proof (cases x)
  case None
  with run show ?thesis by (auto dest!: claim_None lives_claim_search)
next
  case (Some act)
  show ?thesis
  proof (rule claim_Some [OF run [unfolded Some]])
    fix db1 db2 r
    assume s: "claim_search db now ex sess ma = (db1, Some r)" and t: "deliver_timer db1 now r = Inr db2"
      and db': "db' = update_session (s_id r) (lease tok (now + fin_val ls) wk (next_claim db2)) db2"
      and a: "a_session_id act = s_id r" "a_executable act = s_executable r" "a_state act = s_state r"
    note c = claimed_row [OF ok s]
    have l: "lives db (s_id r) = Some (life_of db1 r)"
      using lives_claim_search [OF s] c(3) by (metis lives_def option.map(2))
    have "lives db' = lives db2"
      unfolding db' by (rule lives_update_same) (simp_all add: life_of_def lease_def)
    with lives_deliver_timer [OF c(1) t] lives_claim_search [OF s]
    show ?thesis unfolding Some
      by (auto simp: l a life_of_def timer_event_def timer_id_text split: option.splits)
  qed
qed

lemma lives_release: "release db t1 t2 act err ra = Inr db' \<Longrightarrow> lives db' = lives db"
  by (auto simp: release_Inr life_of_def intro!: lives_update_same)

lemma lives_retry: "retry db sid = Inr (db', b) \<Longrightarrow> lives db' = lives db"
  by (auto simp: retry_Inr life_of_def intro!: lives_update_same)

lemma lives_bind: "bind_definition db ex c = Inr db' \<Longrightarrow> lives db' = lives db"
  by (auto simp: bind_definition_def Let_def intro!: lives_cong split: if_splits option.splits)

lemma lives_purge:
  assumes "db_ok db" and "purge db cutoff limit = Inr (db', n)"
  shows "\<exists>ids. (\<forall>sid \<in> ids. \<exists>l t. lives db sid = Some l \<and> l_completed l = Some t \<and> t < fin_val cutoff)
     \<and> lives db' = lives db |` (- ids)"
proof -
  let ?rows = "purgeable db (fin_val cutoff) (map_option nat limit)"
  let ?ids = "set (map s_id ?rows)"
  from assms(2) have db': "db' = foldl delete_session db (map s_id ?rows)" by (simp add: purge_Inr Let_def)
  have f: "find_session db' x = (if x \<in> ?ids then None else find_session db x)" for x
  proof -
    have "find (\<lambda>r. s_id r = x) (filter (\<lambda>r. s_id r \<notin> A) xs) = (if x \<in> A then None else find (\<lambda>r. s_id r = x) xs)"
      for A :: "string set" and xs
      by (induction xs) auto
    moreover have "sessions db' = filter (\<lambda>r. s_id r \<notin> ?ids) (sessions db)" by (simp add: db' fold_delete)
    ultimately show ?thesis by (simp only: find_session_def)
  qed
  have m: "mailbox_of db' x = mailbox_of db x" if "x \<notin> ?ids" for x
    using that by (auto simp: db' fold_delete mailbox_of_def intro!: arg_cong [where f = "map item_of"] filter_cong)
  have "lives db' = lives db |` (- ?ids)"
  proof (rule ext)
    fix x show "lives db' x = (lives db |` (- ?ids)) x"
      using f [of x] m find_session_Some [of db x]
      by (cases "x \<in> ?ids") (auto simp: lives_def restrict_map_def life_of_def intro!: map_option_cong)
  qed
  moreover have "\<exists>l t. lives db sid = Some l \<and> l_completed l = Some t \<and> t < fin_val cutoff" if "sid \<in> ?ids" for sid
  proof -
    from that obtain r where r: "r \<in> set ?rows" "sid = s_id r" by auto
    note p = purgeable_in [OF r(1)]
    from p find_session_in [OF db_ok_ids [OF assms(1)], of r] r(2) show ?thesis
      by (auto simp: lives_def life_of_def)
  qed
  ultimately show ?thesis by (intro exI [of _ ?ids]) blast
qed

text \<open>One transaction, as the abstract store sees it.\<close>

fun refines_op :: "wake_op \<Rightarrow> lives \<Rightarrow> lives \<Rightarrow> bool" where
  "refines_op (OpCreate sid ex st) m m' \<longleftrightarrow> m' = m \<or> m sid = None \<and> m' = m(sid \<mapsto> new_life ex st)"
| "refines_op (OpAppend sid e) m m' \<longleftrightarrow> m' = m \<or> m' = post sid (the (event_key e)) e m"
| "refines_op (OpClaim now _ _ _ _ _ _ _) m m' \<longleftrightarrow> m' = m \<or> (\<exists>sid l d. m sid = Some l \<and> l_deadline l = Some d \<and> d \<le> now
     \<and> m' = post sid (timer_text sid (l_revision l)) (timer_event sid (l_revision l) d) m)"
| "refines_op (OpCommit now _ act c) m m' \<longleftrightarrow> m' = m \<or> m' = checkpoint_lives (a_session_id act) c now m"
| "refines_op (OpPurge cutoff _) m m' \<longleftrightarrow> (\<exists>ids. m' = m |` (- ids)
     \<and> (\<forall>sid \<in> ids. \<exists>l t. m sid = Some l \<and> l_completed l = Some t \<and> t < fin_val cutoff))"
| "refines_op _ m m' \<longleftrightarrow> m' = m"

lemma settle_refines:
  assumes "P (lives db)" and "\<And>x. r = Inr x \<Longrightarrow> P (lives (f x))"
  shows "P (lives (settle_db db r f))"
  using assms by (cases r) (auto simp: settle_db_def)

lemma apply_refines:
  assumes ok: "db_ok db"
  shows "refines_op op (lives db) (lives (apply_op db op))"
proof (cases op)
  case (OpCreate sid ex st)
  show ?thesis unfolding OpCreate apply_op.simps
    by (rule settle_refines)
       (use lives_create [of db sid ex st] input_session_exists [OF ok] in \<open>auto simp: create_session_Inr\<close>)
next
  case (OpAppend sid e)
  show ?thesis unfolding OpAppend apply_op.simps append_mail_def
    by (rule settle_refines) (use lives_append(1) [OF ok] in \<open>auto split: prod.splits\<close>)
next
  case (OpClaim now tok ls ex me sess wk ma)
  show ?thesis unfolding OpClaim apply_op.simps
  proof (rule settle_refines, goal_cases)
    case (2 x)
    obtain d y where x: "x = (d, y)" by (cases x)
    from lives_claim [OF ok 2 [unfolded x]] show ?case
      by (auto simp: x split: option.splits if_splits)
  qed simp
next
  case (OpCommit t1 t2 act c)
  show ?thesis unfolding OpCommit apply_op.simps
    by (rule settle_refines) (use lives_commit [OF ok] in auto)
next
  case (OpPurge cutoff limit)
  show ?thesis unfolding OpPurge apply_op.simps
  proof (rule settle_refines, goal_cases)
    case 1
    show ?case by (auto intro!: exI [of _ "{}"])
  next
    case (2 x)
    obtain d n where x: "x = (d, n)" by (cases x)
    from lives_purge [OF ok 2 [unfolded x]] show ?case by (auto simp: x)
  qed
next
  case (OpBind ex c)
  show ?thesis unfolding OpBind apply_op.simps by (rule settle_refines) (auto simp: lives_bind)
next
  case (OpRelease t1 t2 act err ra)
  show ?thesis unfolding OpRelease apply_op.simps by (rule settle_refines) (auto simp: lives_release)
next
  case (OpRetry sid)
  show ?thesis unfolding OpRetry apply_op.simps
    by (rule settle_refines) (auto simp: lives_retry split: prod.splits)
qed



end
