(* ===== verification/Wake_Properties.thy ===== *)
theory Wake_Properties
  imports Wake_Spec
begin

text \<open>
  The properties of the session store, each a few steps over the laws of the preceding theories,
  with a concrete run that meets its hypotheses.
\<close>

subsection \<open>A concrete store\<close>

definition ev :: "string \<Rightarrow> dict" where
  "ev eid = [(''event_id'', JStr eid), (''kind'', JStr ''user'')]"

definition plain :: "json \<Rightarrow> string list \<Rightarrow> checkpoint" where
  "plain st ids = \<lparr>c_state = st, c_incorporated = ids, c_publish = [], c_deadline = None,
     c_complete = False, c_spawn = [], c_rebind = None\<rparr>"

definition demo_ops :: "wake_op list" where
  "demo_ops = [OpBind ''d:v1'' (JObj []), OpCreate ''a'' ''d:v1'' (JObj []), OpCreate ''b'' ''d:v1'' (JObj []),
     OpAppend ''a'' (ev ''m1''), OpAppend ''a'' (ev ''m2'')]"

definition demo_db :: wake_db where
  "demo_db = run_ops empty_db demo_ops"

lemma reachable_run:
  "reachable U db \<Longrightarrow> fresh_ops U ops \<Longrightarrow> \<exists>U'. reachable U' (run_ops db ops)"
proof (induction ops arbitrary: U db)
  case Nil
  then show ?case by auto
next
  case (Cons op ops)
  then show ?case using reach_step [OF Cons.prems(1), of op] by fastforce
qed

lemma demo_reachable: "reachable {} demo_db"
proof -
  have "fresh_ops {} ops \<Longrightarrow> list_all (\<lambda>op. op_token op = None) ops \<Longrightarrow> reachable {} db \<Longrightarrow> reachable {} (run_ops db ops)"
    for ops db
  proof (induction ops arbitrary: db)
    case (Cons op ops)
    then show ?case using reach_step [of "{}" db op] by simp
  qed simp
  from this [of demo_ops empty_db] show ?thesis
    using reach_start by (simp add: demo_db_def demo_ops_def)
qed

definition demo_act :: activation where
  "demo_act = \<lparr>a_session_id = ''a'', a_executable = ''d:v1'', a_token = ''t1'', a_state = JObj [],
     a_events = [ev ''m1'', ev ''m2''], a_has_more = False, a_attempt = 1, a_last_error = None\<rparr>"

definition claimed_db :: wake_db where
  "claimed_db = apply_op demo_db (OpClaim 5 ''t1'' (Fin 30) None None None None (Some 3))"

lemma claimed_reachable: "reachable {''t1''} claimed_db"
  using reach_step [OF demo_reachable, of "OpClaim 5 ''t1'' (Fin 30) None None None None (Some 3)"]
  by (simp add: claimed_db_def)

lemma demo_claim: "claim demo_db 5 ''t1'' (Fin 30) None None None None (Some 3) = Inr (claimed_db, Some demo_act)"
proof -
  have "case claim demo_db 5 ''t1'' (Fin 30) None None None None (Some 3) of
          Inr (d, Some a) \<Rightarrow> a = demo_act | _ \<Rightarrow> False"
    by code_simp
  then show ?thesis
    by (auto simp: claimed_db_def settle_db_def split: sum.splits prod.splits option.splits)
qed

lemma demo_holder: "\<exists>r. holder claimed_db 10 demo_act = Inr r"
proof -
  have "case holder claimed_db 10 demo_act of Inr _ \<Rightarrow> True | _ \<Rightarrow> False" by code_simp
  then show ?thesis by (auto split: sum.splits)
qed

definition committed_db :: wake_db where
  "committed_db = apply_op claimed_db (OpCommit 10 10 demo_act (plain (JObj []) [''m1'']))"

lemma demo_commit: "commit claimed_db 10 10 demo_act (plain (JObj []) [''m1'']) = Inr committed_db"
proof -
  have "case commit claimed_db 10 10 demo_act (plain (JObj []) [''m1'']) of Inr _ \<Rightarrow> True | _ \<Rightarrow> False"
    by code_simp
  then show ?thesis by (auto simp: committed_db_def settle_db_def split: sum.splits)
qed

subsection \<open>Well-formedness\<close>

text \<open>
  C13. Every store that any interleaving of transactions can reach is well formed: session IDs and
  (session, event) pairs are unique, every input belongs to a session and carries its own event ID,
  a lease token is present exactly while a session is active, complete sessions hold no pending
  mail, no deadline and no lease; and every attempted session past its first checkpoint has pending
  mail that brings it back.
\<close>

theorem reachable_store_ok: "reachable U db \<Longrightarrow> db_ok db \<and> service_ok db"
  by (simp add: reachable_db_ok reachable_service)

theorem reachable_store_ok_witness:
  "reachable {''t1''} claimed_db \<and> db_ok claimed_db \<and> service_ok claimed_db \<and> length (sessions claimed_db) = 2"
proof -
  have "length (sessions claimed_db) = 2" by code_simp
  with claimed_reachable reachable_store_ok [OF claimed_reachable] show ?thesis by simp
qed

subsection \<open>Fencing\<close>

text \<open>
  C1. A checkpoint is final. Once a commit of an activation has succeeded, no later commit and no
  later release with that activation can succeed, whatever transactions come in between: it is
  answered with \<open>StaleActivation\<close> (or a validation error), so a repeated commit is never a second
  transition.
\<close>

theorem commit_is_final:
  assumes "reachable U db" and "commit db t1 t2 act c = Inr db'" and "fresh_ops U ops"
  shows "(\<exists>e. commit (run_ops db' ops) u1 u2 act c' = Inl e)
       \<and> (\<exists>e. release (run_ops db' ops) u1 u2 act err ra = Inl e)
       \<and> holder (run_ops db' ops) u1 act = Inl (StaleActivation (a_session_id act))"
proof -
  from assms(2) obtain r where "holder db t2 act = Inr r" by (auto simp: commit_Inr)
  then have "holder (run_ops db' ops) t act = Inl (StaleActivation (a_session_id act))" for t
    using given_up_is_final [OF assms(1) _ held_commit [OF assms(2)] assms(3)] by blast
  then show ?thesis using stale_commit stale_release by blast
qed

theorem commit_is_final_witness:
  "commit claimed_db 10 10 demo_act (plain (JObj []) [''m1'']) = Inr committed_db
   \<and> holder (run_ops committed_db [OpClaim 11 ''t2'' (Fin 30) None None None None None]) 12 demo_act
       = Inl (StaleActivation ''a'')"
proof -
  have f: "fresh_ops {''t1''} [OpClaim 11 ''t2'' (Fin 30) None None None None None]" by simp
  have s: "a_session_id demo_act = ''a''" by (simp add: demo_act_def)
  show ?thesis
    using demo_commit commit_is_final [OF claimed_reachable demo_commit f, of 12] s by simp
qed

text \<open>
  A superseded activation is fenced off. When a session is claimed again (after its lease
  expired or was released), every activation issued for it earlier is stale for good: its commits and
  releases fail in every later store.
\<close>

theorem superseded_is_stale:
  assumes "reachable U db" and "claim db now tok ls ex me sess wk ma = Inr (db', Some act2)"
    and "tok \<notin> U" and "a_session_id act1 = a_session_id act2" and "a_token act1 \<in> U"
    and "\<forall>s. (s, a_token act1) \<in> held db \<longrightarrow> s = a_session_id act1" and "fresh_ops (insert tok U) ops"
  shows "(\<exists>e. commit (run_ops db' ops) u1 u2 act1 c = Inl e)
       \<and> (\<exists>e. release (run_ops db' ops) u1 u2 act1 err ra = Inl e)"
proof -
  have none: "\<forall>s. (s, a_token act1) \<notin> held db'"
    using held_claim [OF assms(2)] assms(3-6) by auto
  have "holder (run_ops db' ops) t act1 = Inl (StaleActivation (a_session_id act1))" for t
    by (rule not_held_stale, rule never_held_again [OF none _ assms(7)]) (use assms(5) in simp)
  then show ?thesis using stale_commit stale_release by blast
qed

theorem superseded_is_stale_witness:
  "\<exists>db' act2. claim claimed_db 40 ''t2'' (Fin 30) None None (Some ''a'') None None = Inr (db', Some act2)
     \<and> (\<exists>e. commit db' 41 41 demo_act (plain (JObj []) [''m1'']) = Inl e)"
proof -
  have "case claim claimed_db 40 ''t2'' (Fin 30) None None (Some ''a'') None None of
          Inr (d, Some a) \<Rightarrow> a_session_id a = ''a'' | _ \<Rightarrow> False" by code_simp
  then obtain db' act2 where c: "claim claimed_db 40 ''t2'' (Fin 30) None None (Some ''a'') None None = Inr (db', Some act2)"
    and s: "a_session_id act2 = ''a''"
    by (auto split: sum.splits prod.splits option.splits)
  have "(''a'', ''t1'') \<in> held claimed_db"
    using claimed_now [OF reachable_db_ok [OF demo_reachable] demo_claim]
    by (auto simp: demo_act_def held_iff dest!: find_session_Some)
  then have "\<forall>s. (s, ''t1'') \<in> held claimed_db \<longrightarrow> s = ''a''"
    using held_token_unique [OF claimed_reachable] by blast
  then have "\<exists>e. commit (run_ops db' []) 41 41 demo_act (plain (JObj []) [''m1'']) = Inl e"
    using superseded_is_stale [OF claimed_reachable c, of demo_act "[]"] s by (simp add: demo_act_def)
  with c show ?thesis by auto
qed

text \<open>
  C3. A lease is exclusive while it lives. From a successful claim until its lease time, whatever other
  workers and producers do (any claims before that time, commits and releases with other tokens,
  new mail, purges), the activation still holds its session, and no claim returns that session.
\<close>

theorem lease_is_exclusive:
  assumes "reachable U db" and "claim db now tok ls ex me sess wk ma = Inr (db', Some act)"
    and "\<forall>op \<in> set ops. leaves_lease tok (now + fin_val ls) op" and "t < now + fin_val ls"
  shows "(\<exists>r. holder (run_ops db' ops) t act = Inr r)
       \<and> (\<forall>tok2 ls2 ex2 me2 sess2 wk2 ma2 db'' act2.
            claim (run_ops db' ops) t tok2 ls2 ex2 me2 sess2 wk2 ma2 = Inr (db'', Some act2)
              \<longrightarrow> a_session_id act2 \<noteq> a_session_id act)"
proof -
  note ok = reachable_db_ok [OF assms(1)]
  have ok': "db_ok db'" by (rule db_ok_claim [OF ok assms(2)])
  from claimed_now [OF ok assms(2)] obtain r where r: "find_session db' (a_session_id act) = Some r"
    "s_token r = Some tok" "a_token act = tok" "s_lease_until r = Some (now + fin_val ls)" by blast
  have f: "find_session (run_ops db' ops) (a_session_id act) = Some r"
    by (rule run_keeps_live [OF ok' r(1,2,4) assms(3)])
  have "\<exists>r. holder (run_ops db' ops) t act = Inr r" using f r assms(4) by (auto simp: holder_Inr)
  moreover have "a_session_id act2 \<noteq> a_session_id act"
    if "claim (run_ops db' ops) t tok2 ls2 ex2 me2 sess2 wk2 ma2 = Inr (db'', Some act2)"
    for tok2 ls2 ex2 me2 sess2 wk2 ma2 db'' act2
    using claim_other [OF that run_ops_db_ok [OF ok'] f r(4) assms(4)] by simp
  ultimately show ?thesis by blast
qed

theorem lease_is_exclusive_witness:
  "\<exists>r. holder (run_ops claimed_db [OpAppend ''a'' (ev ''m3''), OpClaim 20 ''t2'' (Fin 30) None None None None None]) 30 demo_act
     = Inr r"
proof -
  have "\<forall>op \<in> set [OpAppend ''a'' (ev ''m3''), OpClaim 20 ''t2'' (Fin 30) None None None None None].
      leaves_lease ''t1'' (5 + fin_val (Fin 30)) op" by simp
  from lease_is_exclusive [OF demo_reachable demo_claim this, of 30] show ?thesis by simp
qed

subsection \<open>Mail\<close>

text \<open>
  C4. Accepted mail is never lost. After an append that reports True, in every later store the
  event is still pending with its original content, unless a successful commit of that session
  incorporated it: no claim, crash, expired lease, release, park, retry, rebind or purge drops it.
\<close>

theorem accepted_mail_survives:
  assumes "reachable U db" and "append_mail db sid e = Inr (db', True)" and "event_key e = Some eid"
  shows "mail_pending (run_ops db' ops) sid eid e \<or> incorporated_in db' ops sid eid"
proof -
  have "db_ok db'"
    using db_ok_append [OF reachable_db_ok [OF assms(1)]] assms(2) by (simp add: append_mail_def)
  moreover have "mail_pending db' sid eid e"
    using append_mail_pending [OF assms(2)] assms(3) by auto
  ultimately show ?thesis by (rule mail_pending_run)
qed

theorem accepted_mail_survives_witness:
  "\<exists>db'. append_mail claimed_db ''a'' (ev ''m3'') = Inr (db', True) \<and>
     mail_pending (run_ops db' [OpCommit 10 10 demo_act (plain (JObj []) [''m1''])]) ''a'' ''m3'' (ev ''m3'')"
proof -
  have "case append_mail claimed_db ''a'' (ev ''m3'') of
      Inr (d, b) \<Rightarrow> b \<and> \<not> incorporated_in d [OpCommit 10 10 demo_act (plain (JObj []) [''m1''])] ''a'' ''m3''
    | _ \<Rightarrow> False" by code_simp
  then obtain d where d: "append_mail claimed_db ''a'' (ev ''m3'') = Inr (d, True)"
    and n: "\<not> incorporated_in d [OpCommit 10 10 demo_act (plain (JObj []) [''m1''])] ''a'' ''m3''"
    by (auto split: sum.splits prod.splits)
  have k: "event_key (ev ''m3'') = Some ''m3''" by (simp add: event_key_Some ev_def)
  from accepted_mail_survives [OF claimed_reachable d k] n d show ?thesis by blast
qed

text \<open>
  C5. Incorporated mail is never processed again. Once a commit incorporated an event, then while the
  session is not purged no claim delivers an event with that ID to it again, and appending a
  replay of it (any payload) reports False and changes nothing, even after completion.
\<close>

theorem incorporated_once:
  assumes "reachable U db" and "commit db t1 t2 act c = Inr db'" and "eid \<in> set (c_incorporated c)"
    and "has_input db (a_session_id act) eid" and "\<forall>op \<in> set ops. \<not> is_purge op"
  shows "(\<forall>tok now ls ex me sess wk ma db2 act2.
            claim (run_ops db' ops) now tok ls ex me sess wk ma = Inr (db2, Some act2)
            \<longrightarrow> a_session_id act2 = a_session_id act \<longrightarrow> Some eid \<notin> set (map event_key (a_events act2)))
       \<and> (\<forall>e. event_key e = Some eid \<longrightarrow> \<not> starts_with ''timer:'' eid
            \<longrightarrow> append_mail (run_ops db' ops) (a_session_id act) e = Inr (run_ops db' ops, False))"
proof -
  let ?d = "run_ops db' ops" and ?s = "a_session_id act"
  have ok: "db_ok ?d"
    by (rule run_ops_db_ok [OF db_ok_commit [OF reachable_db_ok [OF assms(1)] assms(2)]])
  have dn: "mail_done ?d ?s eid"
    by (rule mail_done_run [OF commit_marks_done [OF reachable_db_ok [OF assms(1)] assms(2-4)] assms(5)])
  have fresh: "Some eid \<notin> set (map event_key (a_events act2))"
    if "claim ?d now tok ls ex me sess wk ma = Inr (db2, Some act2)" "a_session_id act2 = ?s"
    for tok now ls ex me sess wk ma db2 act2
  proof
    note run = that
    assume "Some eid \<in> set (map event_key (a_events act2))"
    then obtain i where i: "i \<in> set (pending db2 ?s)" "event_key (i_event i) = Some eid"
      using claim_events_pending [OF run(1)] run(2) set_take_opt by fastforce
    have ok2: "db_ok db2" by (rule db_ok_claim [OF ok run(1)])
    have "mail_done db2 ?s eid"
      using dn claim_keeps_inputs [OF run(1)] unfolding mail_done_def by blast
    with mail_done_not_pending [OF ok2 _ i(1)] i db_ok_input [OF ok2] show False
      by (fastforce simp: pending_set)
  qed
  from dn obtain i where i: "i \<in> set (inputs ?d)" "i_session i = ?s" "i_event_id i = eid"
    by (auto simp: mail_done_def)
  have "find_session ?d ?s \<noteq> None" using db_ok_input [OF ok i(1)] i(2) by (auto simp: find_session_None)
  moreover have "has_input ?d ?s eid" unfolding has_input_def list_ex_iff using i by blast
  ultimately have "append_mail ?d ?s e = Inr (?d, False)"
    if "event_key e = Some eid" "\<not> starts_with ''timer:'' eid" for e
    using that by (auto simp: append_mail_def append_input_def)
  with fresh show ?thesis by blast
qed

theorem incorporated_once_witness:
  "commit claimed_db 10 10 demo_act (plain (JObj []) [''m1'']) = Inr committed_db
   \<and> append_mail committed_db ''a'' (ev ''m1'') = Inr (committed_db, False)"
proof -
  have h: "has_input claimed_db (a_session_id demo_act) ''m1''" by code_simp
  have k: "event_key (ev ''m1'') = Some ''m1''" by (simp add: event_key_Some ev_def)
  have m: "''m1'' \<in> set (c_incorporated (plain (JObj []) [''m1'']))" by (simp add: plain_def)
  have s: "a_session_id demo_act = ''a''" by (simp add: demo_act_def)
  have t: "\<not> starts_with ''timer:'' ''m1''" by (simp add: starts_with_def)
  from incorporated_once [OF claimed_reachable demo_commit m h, of "[]"] k t s demo_commit show ?thesis by simp
qed

subsection \<open>Claims\<close>



text \<open>
  C11. A claim finds work when there is some. With valid arguments it never raises, and it returns no
  activation exactly when every ready session that matches the filters has used its attempts; each
  of those has then been parked as failed, durably, within the same call.
\<close>

theorem claim_finds_work:
  assumes "db_ok db" and "isfinite ls" "0 < fin_val ls"
    and "\<forall>n. me = Some n \<longrightarrow> 0 < n" and "\<forall>n. ma = Some n \<longrightarrow> 0 < n"
  shows "\<exists>db' x. claim db now tok ls ex me sess wk ma = Inr (db', x)
       \<and> (x = None \<longleftrightarrow> (\<forall>r \<in> set (candidates db now ex sess). \<not> within_attempts ma r))
       \<and> (x = None \<longrightarrow> (\<forall>r \<in> set (candidates db now ex sess). find_session db' (s_id r) = Some (park_failed r)))"
  by (rule claim_none_iff [OF assms])

theorem claim_finds_work_witness:
  "candidates demo_db 5 None None \<noteq> [] \<and>
   (\<exists>db' act. claim demo_db 5 ''t1'' (Fin 30) None None None None None = Inr (db', Some act))"
proof -
  have c: "candidates demo_db 5 None None \<noteq> []" by code_simp
  then obtain r where "r \<in> set (candidates demo_db 5 None None)" by (meson list.set_sel(1))
  with c claim_finds_work [OF reachable_db_ok [OF demo_reachable], of "Fin 30" None None 5 "''t1''" None None None]
  show ?thesis by (auto simp: within_attempts_def)
qed



end
