(* ===== verification/Wake_Lifecycle.thy ===== *)
theory Wake_Lifecycle
  imports Wake_Properties
begin

text \<open>
  More properties of the session store: its refinement of the abstract sessions, the ways a step
  comes back after a failure or a crash, enumeration, retention and the registry of definitions.
\<close>

subsection \<open>Refinement\<close>

text \<open>
  C2. The store implements the abstract sessions. In every reachable store each transaction acts on
  the sessions (definition, state, wake time, revision, ordered mailbox) exactly as the abstract
  operation of the same name or not at all: a checkpoint creates the children, marks exactly the
  incorporated mail, posts the publications and advances the state in one step; a claim adds at
  most one due timer; releases, retries and definition bindings change nothing; a purge removes
  only sessions completed before the cutoff.
\<close>

theorem store_refines:
  assumes "reachable U db"
  shows "refines_op op (lives db) (lives (apply_op db op))
       \<and> (\<forall>t1 t2 act c db'. commit db t1 t2 act c = Inr db' \<longrightarrow>
            lives db' = checkpoint_lives (a_session_id act) c t1 (lives db))"
  using apply_refines [OF reachable_db_ok [OF assms]] lives_commit [OF reachable_db_ok [OF assms]] by blast

theorem store_refines_witness:
  "lives committed_db ''a'' = checkpoint_lives ''a'' (plain (JObj []) [''m1'']) 10 (lives claimed_db) ''a''"
  using store_refines [OF claimed_reachable] demo_commit by (simp add: demo_act_def)

subsection \<open>Returning to service\<close>

text \<open>
  C6. A failed or crashed step comes back. After a successful release the session is not parked, keeps
  its attempt count, state and mail, and is ready exactly from the time its backoff ends (at once
  without one). A session whose holder never reports back is ready exactly from the end of its
  lease.
\<close>

theorem attempt_comes_back:
  assumes "reachable U db"
  shows "(\<forall>t1 t2 act err ra db'. release db t1 t2 act err ra = Inr db' \<longrightarrow>
            (\<exists>r r'. find_session db (a_session_id act) = Some r \<and> find_session db' (a_session_id act) = Some r'
               \<and> s_token r' = None \<and> s_attempts r' = s_attempts r \<and> s_state r' = s_state r
               \<and> s_last_error r' = err \<and> inputs db' = inputs db
               \<and> (\<forall>now. ready now db' r' \<longleftrightarrow>
                    (case ra of None \<Rightarrow> True | Some d \<Rightarrow> fin_val d = 0 \<or> t2 + fin_val d \<le> now))))
       \<and> (\<forall>r u now. r \<in> set (sessions db) \<longrightarrow> s_status r = Active \<longrightarrow> s_lease_until r = Some u \<longrightarrow>
            (ready now db r \<longleftrightarrow> u \<le> now))"
proof (rule conjI; intro allI impI)
  note ok = reachable_db_ok [OF assms] and serv = reachable_service [OF assms]
  fix t1 t2 act err ra db'
  assume run: "release db t1 t2 act err ra = Inr db'"
  then obtain r where h: "holder db t1 act = Inr r" and db': "db' = update_session (a_session_id act)
      (\<lambda>r'. r'\<lparr>s_status := parked_status r, s_token := None,
         s_lease_until := (case ra of None \<Rightarrow> None
            | Some t \<Rightarrow> if fin_val t = 0 then None else Some (t2 + fin_val t)),
         s_worker := None, s_last_error := err\<rparr>) db"
    by (auto simp: release_Inr)
  note a = holder_active [OF ok h]
  have att: "0 < s_attempts r" using a(3,5) by (simp add: row_ok_def)
  have "0 < s_revision r \<longrightarrow> pending db (s_id r) \<noteq> []"
    using serv a(2) att by (auto simp: service_ok_def attempts_ok_def)
  then have "0 < s_revision r \<longrightarrow> list_ex (\<lambda>i. i_session i = a_session_id act \<and> \<not> i_incorporated i) (inputs db)"
    using pending_list_ex a(4) by simp
  then show "\<exists>r r'. find_session db (a_session_id act) = Some r \<and> find_session db' (a_session_id act) = Some r'
               \<and> s_token r' = None \<and> s_attempts r' = s_attempts r \<and> s_state r' = s_state r
               \<and> s_last_error r' = err \<and> inputs db' = inputs db
               \<and> (\<forall>now. ready now db' r' \<longleftrightarrow>
                    (case ra of None \<Rightarrow> True | Some d \<Rightarrow> fin_val d = 0 \<or> t2 + fin_val d \<le> now))"
    using a(1,4)
    by (intro exI [of _ r] exI [of _ "r\<lparr>s_status := parked_status r, s_token := None,
         s_lease_until := (case ra of None \<Rightarrow> None
            | Some t \<Rightarrow> if fin_val t = 0 then None else Some (t2 + fin_val t)),
         s_worker := None, s_last_error := err\<rparr>"])
       (simp add: db' find_session_update ready_def parked_status_def split: option.splits)
qed (auto simp: ready_def)

theorem attempt_comes_back_witness:
  "\<exists>db' r'. release claimed_db 10 10 demo_act (Some ''boom'') (Some (Fin 4)) = Inr db'
     \<and> find_session db' ''a'' = Some r' \<and> \<not> ready 13 db' r' \<and> ready 14 db' r'"
proof -
  obtain r where "holder claimed_db 10 demo_act = Inr r" using demo_holder by blast
  then obtain db' where r: "release claimed_db 10 10 demo_act (Some ''boom'') (Some (Fin 4)) = Inr db'"
    by (simp add: release_def)
  have s: "a_session_id demo_act = ''a''" by (simp add: demo_act_def)
  from conjunct1 [OF attempt_comes_back [OF claimed_reachable], rule_format, OF r] s r
  show ?thesis by auto
qed

text \<open>
  A parked failure returns only by an operator's retry. A failed session is never ready; retrying
  it resets its attempts and error, makes it ready at once when it had been attempted, and changes
  no state or mail; retrying any other session changes nothing.
\<close>

theorem retry_returns:
  assumes "reachable U db" and "find_session db sid = Some r"
  shows "(s_status r = Failed \<longrightarrow> (\<forall>now. \<not> ready now db r))
       \<and> (s_status r \<noteq> Failed \<longrightarrow> retry db sid = Inr (db, False))
       \<and> (s_status r = Failed \<longrightarrow> (\<exists>db' r'. retry db sid = Inr (db', True) \<and> find_session db' sid = Some r'
            \<and> s_attempts r' = 0 \<and> s_last_error r' = None \<and> s_state r' = s_state r \<and> inputs db' = inputs db
            \<and> (0 < s_attempts r \<longrightarrow> (\<forall>now. ready now db' r'))))"
proof -
  note ok = reachable_db_ok [OF assms(1)] and serv = reachable_service [OF assms(1)]
  from find_session_Some [OF assms(2)] have m: "r \<in> set (sessions db)" "s_id r = sid" by simp_all
  have "0 < s_attempts r \<Longrightarrow> 0 < s_revision r \<Longrightarrow> pending db sid \<noteq> []"
    using serv m by (auto simp: service_ok_def attempts_ok_def)
  then have "0 < s_attempts r \<Longrightarrow> 0 < s_revision r \<Longrightarrow>
      list_ex (\<lambda>i. i_session i = sid \<and> \<not> i_incorporated i) (inputs db)" using pending_list_ex by blast
  moreover have "s_status r = Failed \<Longrightarrow> s_lease_until r = None" using db_ok_row [OF ok m(1)] by (simp add: row_ok_def)
  ultimately show ?thesis
    using assms(2) m(2) by (auto simp: retry_def find_session_update ready_def parked_status_def)
qed

definition failed_db :: wake_db where
  "failed_db = run_ops demo_db [OpClaim 5 ''t1'' (Fin 30) None None (Some ''a'') None (Some 1),
     OpClaim 50 ''t2'' (Fin 30) None None (Some ''a'') None (Some 1)]"

theorem retry_returns_witness:
  "\<exists>db'. retry failed_db ''a'' = Inr (db', True)"
proof -
  have "fresh_ops {} [OpClaim 5 ''t1'' (Fin 30) None None (Some ''a'') None (Some 1),
     OpClaim 50 ''t2'' (Fin 30) None None (Some ''a'') None (Some 1)]" by simp
  then obtain U where U: "reachable U failed_db"
    using reachable_run [OF demo_reachable] unfolding failed_db_def by blast
  have "case find_session failed_db ''a'' of Some r \<Rightarrow> s_status r = Failed | None \<Rightarrow> False" by code_simp
  then obtain r where "find_session failed_db ''a'' = Some r" "s_status r = Failed"
    by (auto split: option.splits)
  with retry_returns [OF U] show ?thesis by blast
qed

subsection \<open>Enumeration\<close>

lemma length_filter_split:
  "length (filter P xs) = length (filter (\<lambda>x. P x \<and> Q x) xs) + length (filter (\<lambda>x. P x \<and> \<not> Q x) xs)"
  by (induction xs) auto

lemma list_sessions_Inr:
  "list_sessions db now ex (map_option status_text st) want None = Inr
     (map listing_of (filter (\<lambda>r. (ex = None \<or> ex = Some (s_executable r)) \<and> (st = None \<or> st = Some (s_status r))
        \<and> (case want of None \<Rightarrow> True | Some b \<Rightarrow> ready now db r = b)) (sessions db)))"
proof -
  have "status_text s \<in> {''ready'', ''active'', ''waiting'', ''complete'', ''failed''}" for s
    by (cases s) (simp_all add: status_text_def)
  moreover have "(map_option status_text st = Some (status_text u)) = (st = Some u)" for u
    by (cases st) simp_all
  ultimately show ?thesis
    by (cases st) (simp_all add: list_sessions_def take_opt_def)
qed


subsection \<open>Retention\<close>

text \<open>
  A purge is safe and in order. It reports how many sessions it removed, at most the limit; every
  removed session was complete with a completion time before the cutoff; no completed session it
  kept is older than one it removed unless it was not due; every other session and its mail is
  untouched; and no mail of a removed session stays behind.
\<close>

theorem purge_is_safe:
  assumes "db_ok db" and "purge db cutoff limit = Inr (db', n)"
  shows "\<exists>gone. length gone = n \<and> distinct gone \<and> (\<forall>k. limit = Some k \<longrightarrow> int n \<le> k)
       \<and> (\<forall>sid \<in> set gone. \<exists>r t. find_session db sid = Some r \<and> s_status r = Complete
             \<and> s_completed_at r = Some t \<and> t < fin_val cutoff
             \<and> (\<forall>r' t'. find_session db' (s_id r') = Some r' \<longrightarrow> s_status r' = Complete \<longrightarrow>
                   s_completed_at r' = Some t' \<longrightarrow> t' < fin_val cutoff \<longrightarrow> t \<le> t'))
       \<and> sessions db' = filter (\<lambda>r. s_id r \<notin> set gone) (sessions db)
       \<and> inputs db' = filter (\<lambda>i. i_session i \<notin> set gone) (inputs db)"
proof -
  let ?due = "\<lambda>r. s_status r = Complete \<and> (case s_completed_at r of None \<Rightarrow> False | Some t \<Rightarrow> t < fin_val cutoff)"
  let ?key = "\<lambda>r. case s_completed_at r of None \<Rightarrow> 0 | Some t \<Rightarrow> t"
  let ?sorted = "sort_key ?key (filter ?due (sessions db))"
  let ?rows = "purgeable db (fin_val cutoff) (map_option nat limit)"
  let ?gone = "map s_id ?rows"
  from assms(2) have db': "db' = foldl delete_session db ?gone" and n: "n = length ?gone"
    and lim: "\<forall>k. limit = Some k \<longrightarrow> 0 < k" by (simp_all add: purge_Inr Let_def)
  have rows: "?rows = take_opt (map_option nat limit) ?sorted" by (simp add: purgeable_def)
  have bound: "\<forall>k. limit = Some k \<longrightarrow> int n \<le> k" using lim by (auto simp: n purgeable_def take_opt_def)
  have "distinct (map s_id (filter ?due (sessions db)))"
    using db_ok_ids [OF assms(1)] by (rule distinct_map_filter)
  then have "distinct (map s_id ?sorted)" by (simp add: distinct_map)
  then have "distinct (take_opt (map_option nat limit) (map s_id ?sorted))" by (rule distinct_take_opt)
  moreover have "map s_id (take_opt l xs) = take_opt l (map s_id xs)" for l :: "nat option" and xs :: "session_row list"
    by (cases l) (simp_all add: take_opt_def take_map)
  ultimately have dist: "distinct ?gone" by (simp only: rows)
  have order: "?key r \<le> ?key r'" if "r \<in> set ?rows" "r' \<in> set ?sorted" "r' \<notin> set ?rows" for r r'
  proof -
    have "\<exists>k. take_opt l xs = take k xs" for l :: "nat option" and xs :: "session_row list"
      by (cases l) (auto simp: take_opt_def intro: exI [of _ "length xs"])
    then obtain k where k: "?rows = take k ?sorted" unfolding rows by blast
    have "set ?sorted = set (take k ?sorted) \<union> set (drop k ?sorted)"
      by (simp only: set_append [symmetric] append_take_drop_id)
    with that(2,3) have "r' \<in> set (drop k ?sorted)" unfolding k by blast
    moreover from that(1) have "r \<in> set (take k ?sorted)" unfolding k .
    moreover have "sorted (map ?key (take k ?sorted @ drop k ?sorted))" by simp
    ultimately show ?thesis unfolding map_append sorted_append by auto
  qed
  have sess: "sessions db' = filter (\<lambda>r. s_id r \<notin> set ?gone) (sessions db)"
    and inp: "inputs db' = filter (\<lambda>i. i_session i \<notin> set ?gone) (inputs db)"
    by (simp_all add: db' fold_delete)
  have each: "\<exists>r t. find_session db sid = Some r \<and> s_status r = Complete
             \<and> s_completed_at r = Some t \<and> t < fin_val cutoff
             \<and> (\<forall>r' t'. find_session db' (s_id r') = Some r' \<longrightarrow> s_status r' = Complete \<longrightarrow>
                   s_completed_at r' = Some t' \<longrightarrow> t' < fin_val cutoff \<longrightarrow> t \<le> t')"
    if "sid \<in> set ?gone" for sid
  proof -
    from that obtain r where r: "r \<in> set ?rows" "sid = s_id r" by auto
    from purgeable_in [OF r(1)] obtain t where p: "r \<in> set (sessions db)" "s_status r = Complete"
      "s_completed_at r = Some t" "t < fin_val cutoff" by blast
    have "t \<le> t'" if q: "find_session db' (s_id r') = Some r'" "s_status r' = Complete"
      "s_completed_at r' = Some t'" "t' < fin_val cutoff" for r' t'
    proof -
      from find_session_Some [OF q(1)] have "r' \<in> set (sessions db)" "s_id r' \<notin> set ?gone" by (simp_all add: sess)
      with q have "r' \<in> set ?sorted" "r' \<notin> set ?rows" by auto
      from order [OF r(1) this] p(3) q(3) show ?thesis by simp
    qed
    with p find_session_in [OF db_ok_ids [OF assms(1)] p(1)] r(2) show ?thesis by blast
  qed
  show ?thesis
    by (intro exI [of _ ?gone] conjI ballI, rule n [symmetric], rule dist, rule bound, erule each, rule sess, rule inp)
qed

definition done_db :: wake_db where
  "done_db = run_ops demo_db
     [OpClaim 5 ''t1'' (Fin 30) None None (Some ''a'') None None,
      OpCommit 6 6 demo_act ((plain (JObj []) [''m1'', ''m2''])\<lparr>c_complete := True\<rparr>)]"

theorem purge_is_safe_witness:
  "\<exists>db' gone. purge done_db (Fin 10) (Some 5) = Inr (db', 1) \<and> inputs db' = [] \<and> map s_id (sessions db') = [''b'']
     \<and> sessions db' = filter (\<lambda>r. s_id r \<notin> set gone) (sessions done_db) \<and> length gone = 1"
proof -
  have ok: "db_ok done_db"
    unfolding done_db_def by (rule run_ops_db_ok [OF reachable_db_ok [OF demo_reachable]])
  have "case purge done_db (Fin 10) (Some 5) of Inr (d, n) \<Rightarrow> n = 1 \<and> inputs d = [] \<and> map s_id (sessions d) = [''b'']
      | _ \<Rightarrow> False" by code_simp
  then obtain d where d: "purge done_db (Fin 10) (Some 5) = Inr (d, 1)" "inputs d = []" "map s_id (sessions d) = [''b'']"
    by (auto split: sum.splits prod.splits)
  obtain gone where "length gone = 1" "sessions d = filter (\<lambda>r. s_id r \<notin> set gone) (sessions done_db)"
    using purge_is_safe [OF ok d(1)] by blast
  with d show ?thesis by (intro exI [of _ d] exI [of _ gone]) simp
qed

subsection \<open>The registry of definitions\<close>

lemma bound_step:
  assumes "map_of (definitions db) ex = Some c"
  shows "map_of (definitions (apply_op db op)) ex = Some c"
proof (cases op)
  case (OpBind ex' c')
  then show ?thesis using assms
    by (auto simp: settle_db_def bind_definition_def Let_def split: sum.splits option.splits if_splits)
next
  case (OpClaim now tok ls exe me sess wk ma)
  have "definitions (fst x) = definitions db" if run: "claim db now tok ls exe me sess wk ma = Inr x" for x
  proof (cases "snd x")
    case None
    with run have "claim_search db now exe sess ma = (fst x, None)" by (metis claim_None prod.collapse)
    then show ?thesis by (rule claim_search_mail [THEN conjunct2])
  next
    case (Some act)
    with run have run': "claim db now tok ls exe me sess wk ma = Inr (fst x, Some act)" by (metis prod.collapse)
    show ?thesis
    proof (rule claim_Some [OF run'])
      fix db1 db2 r
      assume "claim_search db now exe sess ma = (db1, Some r)" "deliver_timer db1 now r = Inr db2"
        "fst x = update_session (s_id r) (lease tok (now + fin_val ls) wk (next_claim db2)) db2"
      then show ?thesis using claim_search_mail deliver_timer_sessions by simp
    qed
  qed
  then show ?thesis using assms unfolding OpClaim by (auto simp: settle_db_def split: sum.splits)
next
  case (OpCommit t1 t2 act cp)
  have "definitions d = definitions db" if "commit db t1 t2 act cp = Inr d" for d
    by (rule commit_shape [OF that])
  then show ?thesis using assms unfolding OpCommit by (auto simp: settle_db_def split: sum.splits)
qed (use assms in \<open>auto simp: settle_db_def append_mail_def append_input_Inr create_session_Inr release_Inr retry_Inr
       purge_Inr Let_def fold_delete split: sum.splits if_splits\<close>)

text \<open>
  A registered version is immutable. Once a definition is bound, every later store has the same
  contract for it; binding it again succeeds exactly for a contract equal up to the order of
  object keys, and then changes nothing.
\<close>

theorem definition_is_immutable:
  assumes "bind_definition db ex c = Inr db'"
  shows "map_of (definitions (run_ops db' ops)) ex = Some (canon c)
       \<and> (\<forall>c'. json_finite c' \<longrightarrow>
            (if canon c' = canon c then bind_definition (run_ops db' ops) ex c' = Inr (run_ops db' ops)
             else \<exists>msg. bind_definition (run_ops db' ops) ex c' = Inl (ValueError msg)))"
proof -
  have "map_of (definitions db') ex = Some (canon c)"
    using assms by (auto simp: bind_definition_def Let_def map_add_def split: if_splits option.splits)
  then have "map_of (definitions (run_ops db' ops)) ex = Some (canon c)"
    by (induction ops arbitrary: db') (auto intro: bound_step)
  then show ?thesis by (auto simp: bind_definition_def)
qed

theorem definition_is_immutable_witness:
  "\<exists>db'. bind_definition empty_db ''d:v1'' (JObj [(''a'', JNull), (''b'', JBool True)]) = Inr db'
     \<and> bind_definition db' ''d:v1'' (JObj [(''b'', JBool True), (''a'', JNull)]) = Inr db'"
proof -
  have "case bind_definition empty_db ''d:v1'' (JObj [(''a'', JNull), (''b'', JBool True)]) of Inr _ \<Rightarrow> True | _ \<Rightarrow> False"
    by code_simp
  then obtain db' where b: "bind_definition empty_db ''d:v1'' (JObj [(''a'', JNull), (''b'', JBool True)]) = Inr db'"
    by (auto split: sum.splits)
  have "json_finite (JObj [(''b'', JBool True), (''a'', JNull)])
      \<and> canon (JObj [(''b'', JBool True), (''a'', JNull)]) = canon (JObj [(''a'', JNull), (''b'', JBool True)])"
    by code_simp
  with definition_is_immutable [OF b, of "[]"] b show ?thesis
    by (intro exI [of _ db']) (metis run_ops_simps(1))
qed

end
