(* ===== verification/Session_Store.thy ===== *)
theory Session_Store
  imports Wake_Spec
begin

text \<open>
  The storage contract as its clients use it (class \<open>SessionBackend\<close> of
  \<open>entourage/session_backend.py\<close>): a record of the operations, so that a client takes any backend as
  an argument, and locales with the laws each client relies on. The laws are those of the class's
  documentation; the SQLite store satisfies them.
\<close>

record 'db backend =
  bk_bind :: "'db \<Rightarrow> string \<Rightarrow> json \<Rightarrow> 'db res"
  bk_create :: "'db \<Rightarrow> string \<Rightarrow> string \<Rightarrow> json \<Rightarrow> 'db res"
  bk_inspect :: "'db \<Rightarrow> string \<Rightarrow> session_snapshot res"
  bk_list :: "'db \<Rightarrow> rat \<Rightarrow> string option \<Rightarrow> string option \<Rightarrow> bool option \<Rightarrow> int option \<Rightarrow> session_listing list res"
  bk_append :: "'db \<Rightarrow> string \<Rightarrow> dict \<Rightarrow> ('db \<times> bool) res"
  bk_claim :: "'db \<Rightarrow> rat \<Rightarrow> string \<Rightarrow> pyfloat \<Rightarrow> string option \<Rightarrow> int option \<Rightarrow> string option
      \<Rightarrow> string option \<Rightarrow> int option \<Rightarrow> ('db \<times> activation option) res"
  bk_commit :: "'db \<Rightarrow> rat \<Rightarrow> rat \<Rightarrow> activation \<Rightarrow> checkpoint \<Rightarrow> 'db res"
  bk_release :: "'db \<Rightarrow> rat \<Rightarrow> rat \<Rightarrow> activation \<Rightarrow> string option \<Rightarrow> pyfloat option \<Rightarrow> 'db res"

text \<open>\<open>LocalSessions\<close> as such a backend.\<close>

definition local_store :: "wake_db backend" where
  "local_store = \<lparr>bk_bind = bind_definition, bk_create = create_session, bk_inspect = inspect,
     bk_list = list_sessions, bk_append = append_mail, bk_claim = claim, bk_commit = commit,
     bk_release = release\<rparr>"

lemma local_store_ops [simp]:
  "bk_bind local_store = bind_definition" "bk_create local_store = create_session"
  "bk_inspect local_store = inspect" "bk_list local_store = list_sessions"
  "bk_append local_store = append_mail" "bk_claim local_store = claim"
  "bk_commit local_store = commit" "bk_release local_store = release"
  by (simp_all add: local_store_def)

definition fresh_snapshot :: "string \<Rightarrow> json \<Rightarrow> session_snapshot" where
  "fresh_snapshot ex st = \<lparr>sn_executable = ex, sn_state = st, sn_status = Ready, sn_deadline = None,
     sn_revision = 0, sn_attempts = 0, sn_last_error = None\<rparr>"

subsection \<open>What a producer relies on\<close>

text \<open>
  \<open>ok\<close> is the store's own invariant; \<open>recorded db sid eid\<close> that it has accepted an event with that ID
  for that session.
\<close>

locale producer_store =
  fixes be :: "'db backend" and ok :: "'db \<Rightarrow> bool" and recorded :: "'db \<Rightarrow> string \<Rightarrow> string \<Rightarrow> bool"
  assumes inspect_cases: "(\<exists>s. bk_inspect be db sid = Inr s) \<or> bk_inspect be db sid = Inl (KeyError sid)"
    and create_new: "ok db \<Longrightarrow> sid \<noteq> [] \<Longrightarrow> ex \<noteq> [] \<Longrightarrow> is_obj st \<Longrightarrow> bk_inspect be db sid = Inl (KeyError sid) \<Longrightarrow>
      \<exists>db'. bk_create be db sid ex st = Inr db' \<and> ok db' \<and> bk_inspect be db' sid = Inr (fresh_snapshot ex st)
        \<and> (\<forall>x. x \<noteq> sid \<longrightarrow> bk_inspect be db' x = bk_inspect be db x) \<and> recorded db' = recorded db"
    and create_known: "sid \<noteq> [] \<Longrightarrow> ex \<noteq> [] \<Longrightarrow> is_obj st \<Longrightarrow> bk_inspect be db sid = Inr s \<Longrightarrow>
      bk_create be db sid ex st = Inl (SessionAlreadyExists sid)"
    and append_open: "ok db \<Longrightarrow> event_key e = Some eid \<Longrightarrow> \<not> starts_with ''timer:'' eid \<Longrightarrow>
      bk_inspect be db sid = Inr s \<Longrightarrow> sn_status s \<noteq> Complete \<Longrightarrow>
      \<exists>db'. bk_append be db sid e = Inr (db', \<not> recorded db sid eid) \<and> ok db' \<and> bk_inspect be db' = bk_inspect be db
        \<and> (\<forall>x y. recorded db' x y \<longleftrightarrow> recorded db x y \<or> x = sid \<and> y = eid)"
    and append_again: "event_key e = Some eid \<Longrightarrow> \<not> starts_with ''timer:'' eid \<Longrightarrow> bk_inspect be db sid = Inr s \<Longrightarrow>
      recorded db sid eid \<Longrightarrow> bk_append be db sid e = Inr (db, False)"
    and recorded_known: "ok db \<Longrightarrow> recorded db sid eid \<Longrightarrow> \<exists>s. bk_inspect be db sid = Inr s"
    and bind_quiet: "ok db \<Longrightarrow> bk_bind be db ex c = Inr db' \<Longrightarrow>
      ok db' \<and> bk_inspect be db' = bk_inspect be db \<and> recorded db' = recorded db"

text \<open>The SQLite store meets them.\<close>

lemma inspect_Inr: "inspect db sid = Inr s \<longleftrightarrow> (\<exists>r. find_session db sid = Some r \<and> s = snapshot_of r)"
  by (auto simp: inspect_def split: option.splits)

lemma inspect_Inl: "inspect db sid = Inl e \<longleftrightarrow> find_session db sid = None \<and> e = KeyError sid"
  by (auto simp: inspect_def split: option.splits)

lemma snapshot_new: "snapshot_of (new_row sid ex st) = fresh_snapshot ex st"
  by (simp add: snapshot_of_def new_row_def fresh_snapshot_def)

lemma local_create_new:
  assumes "db_ok db" "sid \<noteq> []" "ex \<noteq> []" "is_obj st" "inspect db sid = Inl (KeyError sid)"
  shows "\<exists>db'. create_session db sid ex st = Inr db' \<and> db_ok db' \<and> inspect db' sid = Inr (fresh_snapshot ex st)
        \<and> (\<forall>x. x \<noteq> sid \<longrightarrow> inspect db' x = inspect db x) \<and> has_input db' = has_input db"
proof -
  let ?db' = "db\<lparr>sessions := sessions db @ [new_row sid ex st]\<rparr>"
  have n: "find_session db sid = None" using assms(5) by (simp add: inspect_Inl)
  have run: "create_session db sid ex st = Inr ?db'" using assms n by (simp add: create_session_def)
  have f: "find_session ?db' x = (if x = sid then Some (new_row sid ex st) else find_session db x)" for x
    using n by (auto simp: find_session_def find_append split: option.splits)
  show ?thesis
    by (intro exI [of _ ?db'] conjI allI impI)
       (use run db_ok_create [OF assms(1) run] in
         \<open>simp_all add: inspect_def f snapshot_new has_input_def [abs_def]\<close>)
qed

lemma local_append_open:
  assumes "db_ok db" "event_key e = Some eid" "\<not> starts_with ''timer:'' eid"
    "inspect db sid = Inr s" "sn_status s \<noteq> Complete"
  shows "\<exists>db'. append_mail db sid e = Inr (db', \<not> has_input db sid eid) \<and> db_ok db' \<and> inspect db' = inspect db
        \<and> (\<forall>x y. has_input db' x y \<longleftrightarrow> has_input db x y \<or> x = sid \<and> y = eid)"
proof -
  from assms(4,5) obtain r where r: "find_session db sid = Some r" "s_status r \<noteq> Complete"
    by (auto simp: inspect_Inr snapshot_of_def)
  then obtain db' where run: "append_mail db sid e = Inr (db', \<not> has_input db sid eid)"
    and ins: "inputs db' = (if has_input db sid eid then inputs db
      else inputs db @ [\<lparr>i_session = sid, i_event_id = eid, i_event = e, i_incorporated = False\<rparr>])"
    and ses: "sessions db' = sessions db"
    using assms(2,3) by (cases "has_input db sid eid") (auto simp: append_mail_def append_input_def)
  have "db_ok db'" using db_ok_append [OF assms(1)] run unfolding append_mail_def by blast
  moreover have "has_input db' x y \<longleftrightarrow> has_input db x y \<or> x = sid \<and> y = eid" for x y
    by (auto simp: has_input_def ins)
  moreover have "inspect db' = inspect db" by (rule ext) (simp add: inspect_def find_session_def ses)
  ultimately show ?thesis using run by blast
qed

interpretation local: producer_store local_store db_ok has_input
proof (unfold_locales, goal_cases)
  case (1 db sid)
  show ?case by (cases "find_session db sid") (auto simp: inspect_def)
next
  case (2 db sid ex st)
  then show ?case using local_create_new by simp
next
  case (3 sid ex st db s)
  then show ?case by (auto simp: inspect_Inr create_session_def)
next
  case (4 db e eid sid s)
  then show ?case using local_append_open by simp
next
  case (5 e eid db sid s)
  then show ?case by (auto simp: append_mail_def append_input_def inspect_Inr)
next
  case (6 db sid eid)
  then obtain i where "i \<in> set (inputs db)" "i_session i = sid" by (auto simp: has_input_def list_ex_iff)
  then have "find_session db sid \<noteq> None" using db_ok_input [OF 6(1)] by (auto simp: find_session_None)
  then show ?case by (auto simp: inspect_Inr)
next
  case (7 db ex c db')
  then have "bind_definition db ex c = Inr db'" by simp
  with 7 show ?case using db_ok_bind [of db ex c db']
    by (auto simp: bind_definition_def Let_def inspect_def [abs_def] find_session_def [abs_def] has_input_def [abs_def]
        split: if_splits option.splits)
qed

end
