(* ===== verification/Session_Ingress.thy ===== *)
theory Session_Ingress
  imports Session_Store
begin

text \<open>
  Keying policy (\<open>entourage/session_ingress.py\<close>): which session an inbound event belongs to, its
  creation on first delivery, and idempotent appends, over any store that meets
  \<open>producer_store\<close>. A backend call that succeeded stays in effect when a later one raises, so an
  operation returns the store together with its result.
\<close>

subsection \<open>Members\<close>

record member_spec =
  mb_alias :: string
  mb_executable :: string
  mb_keying :: string
  mb_initial_state :: json
  mb_session :: "string option"

definition keyings :: "string list" where
  "keyings = [''event'', ''conversation'', ''singleton'']"

definition member_check :: "member_spec \<Rightarrow> unit res" where
  "member_check m =
     (if mb_alias m = [] \<or> CHR '':'' \<in> set (mb_alias m)
      then Inl (ValueError (''alias must be a nonempty string without '' @ repr_str '':''))
      else if mb_executable m = []
      then Inl (ValueError ''executable must be a nonempty definition version'')
      else if mb_keying m \<notin> set keyings
      then Inl (ValueError (''keying must be one of ('' @ repr_str ''event'' @ '', '' @ repr_str ''conversation'' @ '', ''
              @ repr_str ''singleton'' @ '')''))
      else if \<not> is_obj (mb_initial_state m)
      then Inl (ValueError ''initial_state must be a JSON object'')
      else if mb_session m \<noteq> None \<and> mb_keying m \<noteq> ''singleton''
      then Inl (ValueError ''an explicit session ID applies to singleton keying only'')
      else if mb_session m = Some []
      then Inl (ValueError ''session must be a nonempty string'')
      else Inr ())"

text \<open>\<open>SessionIngress(store, members)\<close>: the members by alias.\<close>

definition add_member :: "(string \<times> member_spec) list \<Rightarrow> member_spec \<Rightarrow> (string \<times> member_spec) list res" where
  "add_member ms m =
     (if map_of ms (mb_alias m) \<noteq> None
      then Inl (ValueError (''duplicate alias '' @ repr_str (mb_alias m)))
      else Inr (AList.update (mb_alias m) m ms))"

definition new_ingress :: "member_spec list \<Rightarrow> (string \<times> member_spec) list res" where
  "new_ingress members = fold_res add_member [] members"

subsection \<open>Routing\<close>

definition route :: "(string \<times> member_spec) list \<Rightarrow> string \<Rightarrow> dict \<Rightarrow> string option \<Rightarrow> string res" where
  "route ms alias event conversation =
     (case map_of ms alias of
        None \<Rightarrow> Inl (KeyError alias)
      | Some m \<Rightarrow>
          (case event_key event of
             None \<Rightarrow> Inl (ValueError ''event requires a nonempty string event_id'')
           | Some eid \<Rightarrow>
               if mb_keying m = ''event'' then Inr (alias @ '':'' @ eid)
               else if mb_keying m = ''conversation''
               then (case conversation of
                       None \<Rightarrow> Inl (ValueError (''member '' @ repr_str alias @ '' requires a conversation key''))
                     | Some c \<Rightarrow>
                         if c = [] then Inl (ValueError (''member '' @ repr_str alias @ '' requires a conversation key''))
                         else Inr (alias @ '':'' @ c))
               else Inr (case mb_session m of None \<Rightarrow> alias | Some s \<Rightarrow> if s = [] then alias else s)))"

record delivery =
  dl_session_id :: string
  dl_created :: bool
  dl_appended :: bool

text \<open>\<open>event or {"event_id": "-"}\<close>: an absent and an empty event both take the placeholder.\<close>

definition routed_event :: "dict option \<Rightarrow> dict" where
  "routed_event event = (case event of None \<Rightarrow> [(''event_id'', JStr ''-'')]
     | Some e \<Rightarrow> if e = [] then [(''event_id'', JStr ''-'')] else e)"

definition ensure ::
    "'db backend \<Rightarrow> (string \<times> member_spec) list \<Rightarrow> 'db \<Rightarrow> string \<Rightarrow> string option \<Rightarrow> dict option
       \<Rightarrow> 'db \<times> delivery res" where
  "ensure be ms db alias conversation event =
     (case map_of ms alias of
        None \<Rightarrow> (db, Inl (KeyError alias))
      | Some m \<Rightarrow>
          (case route ms alias (routed_event event) conversation of
             Inl e \<Rightarrow> (db, Inl e)
           | Inr sid \<Rightarrow>
               (case bk_create be db sid (mb_executable m) (mb_initial_state m) of
                  Inr db' \<Rightarrow> (db', Inr \<lparr>dl_session_id = sid, dl_created = True, dl_appended = False\<rparr>)
                | Inl (SessionAlreadyExists _) \<Rightarrow>
                    (db, Inr \<lparr>dl_session_id = sid, dl_created = False, dl_appended = False\<rparr>)
                | Inl e \<Rightarrow> (db, Inl e))))"

definition deliver ::
    "'db backend \<Rightarrow> (string \<times> member_spec) list \<Rightarrow> 'db \<Rightarrow> string \<Rightarrow> dict \<Rightarrow> string option
       \<Rightarrow> 'db \<times> delivery res" where
  "deliver be ms db alias event conversation =
     (case ensure be ms db alias conversation (Some event) of
        (db1, Inl e) \<Rightarrow> (db1, Inl e)
      | (db1, Inr d) \<Rightarrow>
          (case bk_append be db1 (dl_session_id d) event of
             Inl e \<Rightarrow> (db1, Inl e)
           | Inr (db2, appended) \<Rightarrow> (db2, Inr (d\<lparr>dl_appended := appended\<rparr>))))"

text \<open>\<open>ensure_session\<close>: a producer that names the session itself.\<close>

definition ensure_session ::
    "'db backend \<Rightarrow> 'db \<Rightarrow> string \<Rightarrow> string \<Rightarrow> json \<Rightarrow> json \<Rightarrow> 'db \<times> bool res" where
  "ensure_session be db sid executable contract st =
     (case bk_inspect be db sid of
        Inr _ \<Rightarrow> (db, Inr False)
      | Inl e \<Rightarrow>
          if \<not> is_key_error e then (db, Inl e)
          else (case bk_bind be db executable contract of
                  Inl e \<Rightarrow> (db, Inl e)
                | Inr db1 \<Rightarrow>
                    (case bk_create be db1 sid executable st of
                       Inr db2 \<Rightarrow> (db2, Inr True)
                     | Inl (SessionAlreadyExists _) \<Rightarrow> (db1, Inr False)
                     | Inl e \<Rightarrow> (db1, Inl e))))"

subsection \<open>Members and routes\<close>

definition members_ok :: "(string \<times> member_spec) list \<Rightarrow> bool" where
  "members_ok ms \<longleftrightarrow> dict_ok ms \<and> (\<forall>(a, m) \<in> set ms. mb_alias m = a \<and> member_check m = Inr ())"

lemma member_check_Inr:
  "member_check m = Inr () \<longleftrightarrow> mb_alias m \<noteq> [] \<and> CHR '':'' \<notin> set (mb_alias m) \<and> mb_executable m \<noteq> []
     \<and> mb_keying m \<in> set keyings \<and> is_obj (mb_initial_state m)
     \<and> (mb_session m \<noteq> None \<longrightarrow> mb_keying m = ''singleton'') \<and> mb_session m \<noteq> Some []"
  by (auto simp: member_check_def)

lemma members_okD:
  "members_ok ms \<Longrightarrow> map_of ms a = Some m \<Longrightarrow> mb_alias m = a \<and> member_check m = Inr ()"
  by (auto simp: members_ok_def dest: map_of_SomeD)

lemma new_ingress_ok:
  assumes "new_ingress members = Inr ms" and "\<forall>m \<in> set members. member_check m = Inr ()"
  shows "members_ok ms"
proof (rule fold_res_invariant [where f = add_member and P = members_ok])
  show "fold_res add_member [] members = Inr ms" using assms(1) by (simp add: new_ingress_def)
  fix d m d' assume m: "m \<in> set members" "add_member d m = Inr d'" and ok: "members_ok d"
  then have d': "d' = AList.update (mb_alias m) m d" by (simp add: add_member_def split: if_splits)
  have ok': "dict_ok d'" using ok by (simp add: members_ok_def d')
  have "mb_alias x = a \<and> member_check x = Inr ()" if "(a, x) \<in> set d'" for a x
  proof -
    from that dict_ok_map_of [OF ok'] have "map_of d' a = Some x" by blast
    then show ?thesis using members_okD [OF ok] m(1) assms(2) by (auto simp: d' split: if_splits)
  qed
  with ok' show "members_ok d'" by (auto simp: members_ok_def)
qed (simp add: members_ok_def)

lemma new_ingress_from:
  assumes "new_ingress members = Inr ms" and "map_of ms a = Some m"
  shows "m \<in> set members"
proof -
  have "\<forall>a m. map_of ms a = Some m \<longrightarrow> m \<in> set members"
    by (rule fold_res_invariant [where f = add_member and P = "\<lambda>d. \<forall>a m. map_of d a = Some m \<longrightarrow> m \<in> set members",
          OF _ assms(1) [unfolded new_ingress_def]]) (auto simp: add_member_def split: if_splits)
  with assms(2) show ?thesis by blast
qed

text \<open>The key of a route: the part of the address that tells the member's sessions apart.\<close>

definition route_key :: "member_spec \<Rightarrow> dict \<Rightarrow> string option \<Rightarrow> string option" where
  "route_key m event conversation =
     (if mb_keying m = ''event'' then event_key event
      else if mb_keying m = ''conversation'' then conversation else None)"

lemma route_form:
  assumes ok: "members_ok ms" and run: "route ms a e c = Inr s"
  obtains m where "map_of ms a = Some m" "event_key e \<noteq> None" "member_check m = Inr ()"
    "s = (case route_key m e c of Some k \<Rightarrow> a @ '':'' @ k
          | None \<Rightarrow> (case mb_session m of None \<Rightarrow> a | Some t \<Rightarrow> t))"
    "route_key m e c = None \<longleftrightarrow> mb_keying m = ''singleton''" "s \<noteq> []"
proof -
  from run obtain m eid where m: "map_of ms a = Some m" and e: "event_key e = Some eid"
    by (auto simp: route_def split: option.splits)
  note chk = conjunct2 [OF members_okD [OF ok m]]
  then have k: "mb_keying m \<in> set keyings" "mb_session m \<noteq> Some []" "mb_alias m \<noteq> []" by (simp_all add: member_check_Inr)
  have a: "a \<noteq> []" using members_okD [OF ok m] k(3) by simp
  show thesis
  proof (rule that [OF m _ chk])
    show "event_key e \<noteq> None" using e by simp
    show "s = (case route_key m e c of Some k \<Rightarrow> a @ '':'' @ k
          | None \<Rightarrow> (case mb_session m of None \<Rightarrow> a | Some t \<Rightarrow> t))"
      using run m e k(2) by (auto simp: route_def route_key_def split: option.splits if_splits)
    show "route_key m e c = None \<longleftrightarrow> mb_keying m = ''singleton''"
      using run m e k(1) by (auto simp: route_def route_key_def keyings_def split: option.splits if_splits)
    show "s \<noteq> []" using run m e k(2) a by (auto simp: route_def split: option.splits if_splits)
  qed
qed

lemma prefix_unique:
  "a @ CHR '':'' # x = b @ CHR '':'' # y \<Longrightarrow> CHR '':'' \<notin> set a \<Longrightarrow> CHR '':'' \<notin> set b \<Longrightarrow> a = b \<and> x = y"
proof (induction a arbitrary: b)
  case Nil
  then show ?case by (cases b) auto
next
  case (Cons d a)
  then show ?case by (cases b) auto
qed

definition route_address :: "string \<Rightarrow> string option \<Rightarrow> string" where
  "route_address a k = (case k of None \<Rightarrow> a | Some x \<Rightarrow> a @ CHR '':'' # x)"

lemma route_address_inj:
  assumes "route_address a k = route_address b l" and "CHR '':'' \<notin> set a" and "CHR '':'' \<notin> set b"
  shows "a = b \<and> k = l"
proof (cases k)
  case None
  with assms show ?thesis by (cases l) (auto simp: route_address_def)
next
  case k: (Some x)
  show ?thesis
  proof (cases l)
    case None
    with k assms show ?thesis by (auto simp: route_address_def)
  next
    case (Some y)
    with k assms prefix_unique [of a x b y] show ?thesis by (simp add: route_address_def)
  qed
qed

subsection \<open>Delivery over any store\<close>

context producer_store
begin

lemma ensure_route:
  assumes ok: "ok db" and ms: "members_ok ms" and m: "map_of ms a = Some m"
    and r: "route ms a (routed_event ev) c = Inr sid"
  shows "\<exists>db'. ensure be ms db a c ev = (db', Inr \<lparr>dl_session_id = sid,
             dl_created = (bk_inspect be db sid = Inl (KeyError sid)), dl_appended = False\<rparr>)
     \<and> ok db' \<and> recorded db' = recorded db
     \<and> bk_inspect be db' sid = (if bk_inspect be db sid = Inl (KeyError sid)
          then Inr (fresh_snapshot (mb_executable m) (mb_initial_state m)) else bk_inspect be db sid)
     \<and> (\<forall>x. x \<noteq> sid \<longrightarrow> bk_inspect be db' x = bk_inspect be db x)"
proof -
  have s: "sid \<noteq> []" by (rule route_form [OF ms r])
  from members_okD [OF ms m] have ex: "mb_executable m \<noteq> []" and st: "is_obj (mb_initial_state m)"
    by (simp_all add: member_check_Inr)
  show ?thesis
  proof (cases "bk_inspect be db sid = Inl (KeyError sid)")
    case True
    from create_new [OF ok s ex st True] m r True show ?thesis by (auto simp: ensure_def)
  next
    case False
    then obtain sn where sn: "bk_inspect be db sid = Inr sn" using inspect_cases by blast
    from create_known [OF s ex st sn] m r sn ok show ?thesis by (auto simp: ensure_def)
  qed
qed

text \<open>Delivering an event records it once, whatever the session's state before.\<close>

lemma deliver_records:
  assumes ok: "ok db" and ms: "members_ok ms" and m: "map_of ms a = Some m"
    and e: "event_key e = Some eid" "\<not> starts_with ''timer:'' eid"
    and r: "route ms a e c = Inr sid"
    and live: "\<forall>s. bk_inspect be db sid = Inr s \<longrightarrow> sn_status s \<noteq> Complete"
  shows "\<exists>db'. deliver be ms db a e c = (db', Inr \<lparr>dl_session_id = sid,
             dl_created = (bk_inspect be db sid = Inl (KeyError sid)), dl_appended = (\<not> recorded db sid eid)\<rparr>)
     \<and> ok db' \<and> (\<forall>x y. recorded db' x y \<longleftrightarrow> recorded db x y \<or> x = sid \<and> y = eid)
     \<and> bk_inspect be db' sid = (if bk_inspect be db sid = Inl (KeyError sid)
          then Inr (fresh_snapshot (mb_executable m) (mb_initial_state m)) else bk_inspect be db sid)
     \<and> (\<forall>x. x \<noteq> sid \<longrightarrow> bk_inspect be db' x = bk_inspect be db x)"
proof -
  have "e \<noteq> []" using e(1) by (auto simp: event_key_def)
  then have "routed_event (Some e) = e" by (simp add: routed_event_def)
  with ensure_route [OF ok ms m, of "Some e" c sid] r obtain db1 where
    en: "ensure be ms db a c (Some e) = (db1, Inr \<lparr>dl_session_id = sid,
             dl_created = (bk_inspect be db sid = Inl (KeyError sid)), dl_appended = False\<rparr>)"
    and ok1: "ok db1" and rec1: "recorded db1 = recorded db"
    and in1: "bk_inspect be db1 sid = (if bk_inspect be db sid = Inl (KeyError sid)
          then Inr (fresh_snapshot (mb_executable m) (mb_initial_state m)) else bk_inspect be db sid)"
    and oth: "\<forall>x. x \<noteq> sid \<longrightarrow> bk_inspect be db1 x = bk_inspect be db x" by auto
  obtain s where s: "bk_inspect be db1 sid = Inr s" "sn_status s \<noteq> Complete"
    using in1 live inspect_cases [of db sid] by (auto simp: fresh_snapshot_def split: if_splits)
  from append_open [OF ok1 e s] obtain db2 where a: "bk_append be db1 sid e = Inr (db2, \<not> recorded db1 sid eid)"
    "ok db2" "bk_inspect be db2 = bk_inspect be db1"
    "\<forall>x y. recorded db2 x y \<longleftrightarrow> recorded db1 x y \<or> x = sid \<and> y = eid" by blast
  have "deliver be ms db a e c = (db2, Inr \<lparr>dl_session_id = sid,
             dl_created = (bk_inspect be db sid = Inl (KeyError sid)), dl_appended = (\<not> recorded db sid eid)\<rparr>)"
    using en a(1) rec1 by (simp add: deliver_def)
  with a(2-4) rec1 in1 oth show ?thesis by (intro exI [of _ db2]) simp
qed

lemma deliver_again:
  assumes ms: "members_ok ms" and m: "map_of ms a = Some m"
    and e: "event_key e = Some eid" "\<not> starts_with ''timer:'' eid"
    and r: "route ms a e c = Inr sid" and known: "bk_inspect be db sid = Inr s" and rec: "recorded db sid eid"
    and ok: "ok db"
  shows "deliver be ms db a e c = (db, Inr \<lparr>dl_session_id = sid, dl_created = False, dl_appended = False\<rparr>)"
proof -
  have s: "sid \<noteq> []" by (rule route_form [OF ms r])
  from members_okD [OF ms m] have "mb_executable m \<noteq> []" "is_obj (mb_initial_state m)" by (simp_all add: member_check_Inr)
  note c = create_known [OF s this known]
  have "e \<noteq> []" using e(1) by (auto simp: event_key_def)
  with c m r append_again [OF e known rec] show ?thesis
    by (simp add: deliver_def ensure_def routed_event_def)
qed

lemma ensure_session_twice:
  assumes ok: "ok db" and run: "ensure_session be db sid ex ct st = (db', Inr b)"
    and args: "sid \<noteq> []" "ex \<noteq> []" "is_obj st"
  shows "ok db' \<and> (\<exists>s. bk_inspect be db' sid = Inr s) \<and> b = (bk_inspect be db sid = Inl (KeyError sid))
     \<and> (\<forall>s x. bk_inspect be db x = Inr s \<longrightarrow> bk_inspect be db' x = Inr s)
     \<and> ensure_session be db' sid ex' ct' st' = (db', Inr False)"
proof (cases "bk_inspect be db sid = Inl (KeyError sid)")
  case True
  with run obtain db1 where b1: "bk_bind be db ex ct = Inr db1"
    by (auto simp: ensure_session_def is_key_error_def split: sum.splits)
  note q = bind_quiet [OF ok b1]
  with True have "bk_inspect be db1 sid = Inl (KeyError sid)" by simp
  from create_new [OF conjunct1 [OF q] args this] obtain db2 where
    c: "bk_create be db1 sid ex st = Inr db2" "ok db2" "bk_inspect be db2 sid = Inr (fresh_snapshot ex st)"
    "\<forall>x. x \<noteq> sid \<longrightarrow> bk_inspect be db2 x = bk_inspect be db1 x" by blast
  with run True b1 have "db' = db2" "b = True" by (simp_all add: ensure_session_def is_key_error_def)
  moreover have "bk_inspect be db2 x = Inr s" if "bk_inspect be db x = Inr s" for x s
    using c(4) q True that by (cases "x = sid") simp_all
  ultimately show ?thesis using c True by (simp add: ensure_session_def)
next
  case False
  then obtain s where "bk_inspect be db sid = Inr s" using inspect_cases by blast
  with run ok show ?thesis by (auto simp: ensure_session_def)
qed

end

subsection \<open>Properties\<close>

definition demo_members :: "member_spec list" where
  "demo_members =
     [\<lparr>mb_alias = ''triage'', mb_executable = ''t:v1'', mb_keying = ''event'', mb_initial_state = JObj [], mb_session = None\<rparr>,
      \<lparr>mb_alias = ''chat'', mb_executable = ''c:v1'', mb_keying = ''conversation'', mb_initial_state = JObj [], mb_session = None\<rparr>]"

definition demo_table :: "(string \<times> member_spec) list" where
  "demo_table = map (\<lambda>m. (mb_alias m, m)) demo_members"

definition demo_event :: dict where
  "demo_event = [(''event_id'', JStr ''m1''), (''kind'', JStr ''user'')]"

lemma demo_new_ingress: "new_ingress demo_members = Inr demo_table"
proof -
  have "case new_ingress demo_members of Inr t \<Rightarrow> t = demo_table | _ \<Rightarrow> False" by code_simp
  then show ?thesis by (auto split: sum.splits)
qed

lemma demo_members_checked: "\<forall>m \<in> set demo_members. member_check m = Inr ()"
  by (simp add: demo_members_def member_check_Inr keyings_def)

lemma demo_route: "route demo_table ''chat'' demo_event (Some ''42'') = Inr ''chat:42''"
proof -
  have "case route demo_table ''chat'' demo_event (Some ''42'') of Inr s \<Rightarrow> s = ''chat:42'' | _ \<Rightarrow> False" by code_simp
  then show ?thesis by (auto split: sum.splits)
qed

text \<open>
  Addresses do not collide. With checked members and no explicit session IDs, two events that are
  routed to the same session name the same alias and have the same key under its keying (the event
  ID, the conversation, or none for a singleton).
\<close>

theorem routes_separate:
  assumes "new_ingress members = Inr ms" and "\<forall>m \<in> set members. member_check m = Inr () \<and> mb_session m = None"
    and "route ms a e c = Inr s" and "route ms b e' c' = Inr s"
  shows "a = b \<and> (\<exists>m. map_of ms a = Some m \<and> route_key m e c = route_key m e' c')"
proof -
  have ok: "members_ok ms" by (rule new_ingress_ok [OF assms(1)]) (use assms(2) in blast)
  have none: "mb_session m = None" if "map_of ms x = Some m" for x m
    using new_ingress_from [OF assms(1) that] assms(2) by blast
  show ?thesis
  proof (rule route_form [OF ok assms(3)], rule route_form [OF ok assms(4)])
    fix m m'
    assume m: "map_of ms a = Some m" "member_check m = Inr ()" and m': "map_of ms b = Some m'" "member_check m' = Inr ()"
      and s: "s = (case route_key m e c of Some k \<Rightarrow> a @ '':'' @ k
          | None \<Rightarrow> (case mb_session m of None \<Rightarrow> a | Some t \<Rightarrow> t))"
      and s': "s = (case route_key m' e' c' of Some k \<Rightarrow> b @ '':'' @ k
          | None \<Rightarrow> (case mb_session m' of None \<Rightarrow> b | Some t \<Rightarrow> t))"
    have free: "CHR '':'' \<notin> set a" "CHR '':'' \<notin> set b"
      using m m' members_okD [OF ok] by (auto simp: member_check_Inr)
    have "s = route_address a (route_key m e c)"
      using s none [OF m(1)] by (cases "route_key m e c") (simp_all add: route_address_def)
    moreover have "s = route_address b (route_key m' e' c')"
      using s' none [OF m'(1)] by (cases "route_key m' e' c'") (simp_all add: route_address_def)
    ultimately have "route_address a (route_key m e c) = route_address b (route_key m' e' c')" by simp
    from route_address_inj [OF this free] m m' show ?thesis by auto
  qed
qed

theorem routes_separate_witness:
  "\<exists>m. map_of demo_table ''chat'' = Some m \<and> route_key m demo_event (Some ''42'') = route_key m demo_event (Some ''42'')"
proof -
  have "\<forall>m \<in> set demo_members. member_check m = Inr () \<and> mb_session m = None"
    using demo_members_checked by (simp add: demo_members_def)
  from routes_separate [OF demo_new_ingress this demo_route demo_route] show ?thesis by blast
qed

text \<open>
  Delivery is idempotent. Delivering an event to a session that is not complete creates the session
  with the member's initial state exactly when it did not exist, records the event exactly once,
  changes no other session and never resets an existing one; delivering the same event again
  changes nothing and reports so.
\<close>

theorem deliver_is_idempotent:
  assumes "db_ok db" and "new_ingress members = Inr ms" and "\<forall>m \<in> set members. member_check m = Inr ()"
    and "map_of ms a = Some m" and "event_key e = Some eid" and "\<not> starts_with ''timer:'' eid"
    and "route ms a e c = Inr sid" and "\<forall>s. inspect db sid = Inr s \<longrightarrow> sn_status s \<noteq> Complete"
  shows "\<exists>db' new. new = (inspect db sid = Inl (KeyError sid))
     \<and> deliver local_store ms db a e c = (db', Inr \<lparr>dl_session_id = sid, dl_created = new,
            dl_appended = (\<not> has_input db sid eid)\<rparr>)
     \<and> has_input db' sid eid
     \<and> inspect db' sid = (if new then Inr (fresh_snapshot (mb_executable m) (mb_initial_state m)) else inspect db sid)
     \<and> (\<forall>x. x \<noteq> sid \<longrightarrow> inspect db' x = inspect db x)
     \<and> deliver local_store ms db' a e c = (db', Inr \<lparr>dl_session_id = sid, dl_created = False, dl_appended = False\<rparr>)"
proof -
  have ms: "members_ok ms" by (rule new_ingress_ok [OF assms(2,3)])
  have "\<forall>s. bk_inspect local_store db sid = Inr s \<longrightarrow> sn_status s \<noteq> Complete" using assms(8) by simp
  from local.deliver_records [OF assms(1) ms assms(4-7) this] obtain db' where
    d: "deliver local_store ms db a e c = (db', Inr \<lparr>dl_session_id = sid,
           dl_created = (inspect db sid = Inl (KeyError sid)), dl_appended = (\<not> has_input db sid eid)\<rparr>)"
    "db_ok db'" "has_input db' sid eid" and
    i: "inspect db' sid = (if inspect db sid = Inl (KeyError sid)
          then Inr (fresh_snapshot (mb_executable m) (mb_initial_state m)) else inspect db sid)"
    "\<forall>x. x \<noteq> sid \<longrightarrow> inspect db' x = inspect db x"
    by auto
  obtain s where s: "bk_inspect local_store db' sid = Inr s"
    using local.recorded_known [OF d(2,3)] by blast
  show ?thesis
    using d i local.deliver_again [OF ms assms(4-7) s d(3,2)] by (intro exI [of _ db']) simp
qed

theorem deliver_is_idempotent_witness:
  "\<exists>db'. deliver local_store demo_table empty_db ''chat'' demo_event (Some ''42'')
           = (db', Inr \<lparr>dl_session_id = ''chat:42'', dl_created = True, dl_appended = True\<rparr>)
     \<and> deliver local_store demo_table db' ''chat'' demo_event (Some ''42'')
           = (db', Inr \<lparr>dl_session_id = ''chat:42'', dl_created = False, dl_appended = False\<rparr>)"
proof -
  obtain m where m: "map_of demo_table ''chat'' = Some m" by (simp add: demo_table_def demo_members_def)
  have k: "event_key demo_event = Some ''m1''" "\<not> starts_with ''timer:'' ''m1''"
    by (simp_all add: event_key_Some demo_event_def starts_with_def)
  have n: "inspect empty_db ''chat:42'' = Inl (KeyError ''chat:42'')" "\<not> has_input empty_db ''chat:42'' ''m1''"
    by (simp_all add: inspect_def find_session_def empty_db_def has_input_def)
  show ?thesis
    using deliver_is_idempotent [OF db_ok_empty demo_new_ingress demo_members_checked m k demo_route] n by auto
qed

text \<open>
  Explicit creation never resets. \<open>ensure_session\<close> that returns leaves the session existing,
  reports \<open>True\<close> exactly when it was absent, keeps every session that existed as it was, and returns
  \<open>False\<close> without effect when repeated, even with another definition, contract or state.
\<close>

theorem ensure_session_never_resets:
  assumes "db_ok db" and "ensure_session local_store db sid ex ct st = (db', Inr b)"
    and "sid \<noteq> []" and "ex \<noteq> []" and "is_obj st"
  shows "(\<exists>s. inspect db' sid = Inr s) \<and> b = (inspect db sid = Inl (KeyError sid))
     \<and> (\<forall>s x. inspect db x = Inr s \<longrightarrow> inspect db' x = Inr s)
     \<and> ensure_session local_store db' sid ex' ct' st' = (db', Inr False)"
  using local.ensure_session_twice [OF assms(1,2)] assms(3-5) by simp

theorem ensure_session_never_resets_witness:
  "\<exists>db'. ensure_session local_store empty_db ''s'' ''d:v1'' (JObj []) (JObj []) = (db', Inr True)
     \<and> ensure_session local_store db' ''s'' ''d:v2'' (JObj []) (JObj [(''x'', JNull)]) = (db', Inr False)"
proof -
  have "case ensure_session local_store empty_db ''s'' ''d:v1'' (JObj []) (JObj []) of (_, Inr b) \<Rightarrow> b | _ \<Rightarrow> False"
    by code_simp
  then obtain db' where e: "ensure_session local_store empty_db ''s'' ''d:v1'' (JObj []) (JObj []) = (db', Inr True)"
    by (auto split: prod.splits sum.splits)
  from ensure_session_never_resets [OF db_ok_empty e, of "''d:v2''" "JObj []" "JObj [(''x'', JNull)]"] e
  show ?thesis by auto
qed

text \<open>
  An empty event is rejected only after its placeholder session exists: \<open>event or {...}\<close> takes the
  empty dictionary for an absent event, so under event keying \<open>alias:-\<close> has been created when the
  append raises.
\<close>

lemma empty_event_creates_session:
  "case deliver local_store demo_table empty_db ''triage'' [] None of
     (db', Inl (ValueError _)) \<Rightarrow> map s_id (sessions db') = [''triage:-''] | _ \<Rightarrow> False"
  by code_simp

end
