(* ===== verification/Executables.thy ===== *)
theory Executables
  imports Session_Backend
begin

text \<open>
  Executable definitions and the context a handler works with
  (\<open>entourage/executables.py\<close>: \<open>_json_copy\<close>, \<open>_identity\<close>, \<open>Executable\<close>, \<open>Proposal\<close>, \<open>Context\<close>).
  The hexadecimal SHA-256 digest of a text is the argument \<open>digest\<close>; a handler is a function of
  the context, the state and the delivered mail. A \<open>Context\<close> is mutable in the code: here each
  operation returns the new one.
\<close>

subsection \<open>JSON copies and identities\<close>

definition json_copy :: "json \<Rightarrow> json res" where
  "json_copy v =
     (if json_finite v then Inr v else Inl (ValueError ''Out of range float values are not JSON compliant''))"

lemma json_copy_Inr [result_simps]: "json_copy v = Inr w \<longleftrightarrow> json_finite v \<and> w = v"
  by (auto simp: json_copy_def)

definition identity :: "(string \<Rightarrow> string) \<Rightarrow> string list \<Rightarrow> string" where
  "identity digest parts = digest (dumps_strs parts)"

lemma identity_inj: "inj digest \<Longrightarrow> identity digest xs = identity digest ys \<longleftrightarrow> xs = ys"
  by (simp add: identity_def inj_eq dumps_strs_inj)

subsection \<open>Proposals and the context\<close>

record proposal =
  pr_state :: json
  pr_incorporated :: "string list"
  pr_publish :: "publication list"
  pr_deadline :: "pyfloat option"
  pr_complete :: bool
  pr_spawn :: "spawn list"
  pr_rebind :: "string option"

record context_data =
  cx_session_id :: string
  cx_definition :: string
  cx_upgrading_from :: "string option"
  cx_attempt :: nat
  cx_last_error :: "string option"
  cx_activation_id :: string
  cx_config :: json
  cx_has_more :: bool
  cx_publish :: "publication list"
  cx_spawn :: "spawn list"

definition new_context ::
    "string \<Rightarrow> string \<Rightarrow> json \<Rightarrow> bool \<Rightarrow> string option \<Rightarrow> nat \<Rightarrow> string option \<Rightarrow> string \<Rightarrow> context_data res" where
  "new_context sid executable config has_more upgrading_from attempt last_error activation_id =
     rbind (json_copy config) (\<lambda>copied. Inr
       \<lparr>cx_session_id = sid, cx_definition = executable, cx_upgrading_from = upgrading_from,
        cx_attempt = attempt, cx_last_error = last_error, cx_activation_id = activation_id,
        cx_config = copied, cx_has_more = has_more, cx_publish = [], cx_spawn = []\<rparr>)"

definition mail_event_id :: "(string \<Rightarrow> string) \<Rightarrow> string \<Rightarrow> string \<Rightarrow> string" where
  "mail_event_id digest sid key = ''mail:'' @ identity digest [sid, key]"

definition send ::
    "(string \<Rightarrow> string) \<Rightarrow> context_data \<Rightarrow> string \<Rightarrow> json \<Rightarrow> string \<Rightarrow> string \<Rightarrow> json option
       \<Rightarrow> (context_data \<times> string) res" where
  "send digest cx destination payload key kind request_id =
     (if key = [] then Inl (ValueError ''publication key must be a nonempty string'')
      else let event_id = mail_event_id digest (cx_session_id cx) key in
        rbind (json_copy payload) (\<lambda>copied.
          let event = [(''event_id'', JStr event_id), (''kind'', JStr kind),
                       (''source'', JStr (cx_session_id cx)), (''payload'', copied)]
                      @ (case request_id of None \<Rightarrow> [] | Some r \<Rightarrow> [(''request_id'', r)])
          in Inr (cx\<lparr>cx_publish := cx_publish cx @ [\<lparr>pub_session_id = destination, pub_event = event\<rparr>]\<rparr>, event_id)))"

text \<open>\<open>self._publish[-1].event[...] = ...\<close>\<close>

definition amend_last :: "(dict \<Rightarrow> dict) \<Rightarrow> context_data \<Rightarrow> context_data" where
  "amend_last f cx =
     (case rev (cx_publish cx) of
        [] \<Rightarrow> cx
      | p # ps \<Rightarrow> cx\<lparr>cx_publish := rev ps @ [p\<lparr>pub_event := f (pub_event p)\<rparr>]\<rparr>)"

definition request ::
    "(string \<Rightarrow> string) \<Rightarrow> context_data \<Rightarrow> string \<Rightarrow> json \<Rightarrow> string \<Rightarrow> (context_data \<times> string) res" where
  "request digest cx destination payload key =
     rbind (send digest cx destination payload key ''request'' None) (\<lambda>(cx', rid).
       Inr (amend_last (\<lambda>e. AList.update ''reply_to'' (JStr (cx_session_id cx))
                              (AList.update ''request_id'' (JStr rid) e)) cx', rid))"

text \<open>
  A request event carries its ID and reply address as strings, as \<open>request\<close> writes them; any
  other type is rejected here as a \<open>TypeError\<close>.
\<close>

definition str_field :: "dict \<Rightarrow> string \<Rightarrow> string res" where
  "str_field d k =
     (case map_of d k of None \<Rightarrow> Inl (KeyError k) | Some (JStr s) \<Rightarrow> Inr s
        | Some _ \<Rightarrow> Inl (TypeError (k @ '' must be a string'')))"

definition reply ::
    "(string \<Rightarrow> string) \<Rightarrow> context_data \<Rightarrow> dict \<Rightarrow> json \<Rightarrow> string \<Rightarrow> (context_data \<times> string) res" where
  "reply digest cx req payload key =
     rbind (str_field req ''request_id'') (\<lambda>rid.
     rbind (str_field req ''reply_to'') (\<lambda>dest.
     rbind (send digest cx dest payload (''reply:'' @ identity digest [rid, key]) ''result'' None) (\<lambda>(cx', eid).
       Inr (amend_last (AList.update ''request_id'' (JStr rid)) cx', eid))))"

definition child_id :: "string \<Rightarrow> string \<Rightarrow> string" where
  "child_id sid key = sid @ '':'' @ key"

definition spawn_session ::
    "context_data \<Rightarrow> string \<Rightarrow> json \<Rightarrow> string \<Rightarrow> (context_data \<times> string) res" where
  "spawn_session cx executable st key =
     (if key = [] then Inl (ValueError ''spawn key must be a nonempty string'')
      else if \<not> is_obj st then Inl (ValueError ''child state must be a JSON object'')
      else rbind (json_copy st) (\<lambda>copied.
        let child = child_id (cx_session_id cx) key in
        Inr (cx\<lparr>cx_spawn := cx_spawn cx @
               [\<lparr>sp_session_id = child, sp_executable = executable, sp_state = copied\<rparr>]\<rparr>, child)))"

definition propose ::
    "context_data \<Rightarrow> json \<Rightarrow> string list \<Rightarrow> pyfloat option \<Rightarrow> bool \<Rightarrow> string option \<Rightarrow> proposal res" where
  "propose cx st incorporated deadline completed rebind =
     rbind (json_copy st) (\<lambda>copied. Inr
       \<lparr>pr_state = copied, pr_incorporated = incorporated, pr_publish = cx_publish cx,
        pr_deadline = deadline, pr_complete = completed, pr_spawn = cx_spawn cx, pr_rebind = rebind\<rparr>)"

subsection \<open>Executables and their contract\<close>

text \<open>What calling a handler gives: an exception, a proposal, or some other value.\<close>

datatype outcome = Raised py_error | Proposed proposal | OtherValue

type_synonym handler = "context_data \<Rightarrow> json \<Rightarrow> dict list \<Rightarrow> outcome"

text \<open>
  A callable as \<open>contract\<close> sees it: whether it is a synchronous callable, its qualified name, and
  the file its source is in, if there is one.
\<close>

record code_object =
  co_run :: handler
  co_sync :: bool
  co_qualname :: string
  co_source :: "string option"

record executable =
  e_definition :: string
  e_resume :: code_object
  e_state_schema :: json
  e_config :: json
  e_development :: json
  e_resources :: "string list"
  e_upgrades :: "(string \<times> code_object) list"

text \<open>\<open>all(definition.rpartition(":")[::2])\<close>: text before and after the last colon.\<close>

definition rpartition_ends :: "string \<Rightarrow> string \<times> string" where
  "rpartition_ends s =
     (if CHR '':'' \<notin> set s then ([], s)
      else (rev (tl (dropWhile (\<lambda>c. c \<noteq> CHR '':'') (rev s))), rev (takeWhile (\<lambda>c. c \<noteq> CHR '':'') (rev s))))"

definition versioned_name :: "string \<Rightarrow> bool" where
  "versioned_name s \<longleftrightarrow> fst (rpartition_ends s) \<noteq> [] \<and> snd (rpartition_ends s) \<noteq> []"

definition protocol :: string where
  "protocol = ''entourage.activation/v1''"

text \<open>\<open>file_digest\<close> is the digest of a file's bytes; reading a file is not modelled further.\<close>

definition contract :: "(string \<Rightarrow> string) \<Rightarrow> executable \<Rightarrow> json res" where
  "contract file_digest ex =
     (if \<not> versioned_name (e_definition ex)
      then Inl (ValueError ''definition must include a name and version, e.g. research:v1'')
      else if \<not> co_sync (e_resume ex) then Inl (ValueError ''resume must be a synchronous callable'')
      else if (case e_state_schema ex of JInt n \<Rightarrow> n < 1 | _ \<Rightarrow> True)
      then Inl (ValueError ''state_schema must be a positive integer'')
      else case e_development ex of
        JBool development \<Rightarrow>
          if \<not> is_obj (e_config ex) then Inl (ValueError ''config must be a JSON object'')
          else if \<not> (\<forall>(old, migrate) \<in> set (e_upgrades ex). old \<noteq> [] \<and> old \<noteq> e_definition ex \<and> co_sync migrate)
          then Inl (ValueError ''upgrades map other definitions to synchronous callables'')
          else if (case co_source (e_resume ex) of None \<Rightarrow> True | Some s \<Rightarrow> s = []) \<and> \<not> development
          then Inl (ValueError ''source unavailable; explicitly opt into development mode'')
          else let files = (case co_source (e_resume ex) of None \<Rightarrow> [] | Some s \<Rightarrow> [s]) @ e_resources ex;
                   fingerprints = (if development then [] else map file_digest files)
            in rbind (json_copy (e_config ex)) (\<lambda>config. Inr (JObj
                 [(''protocol'', JStr protocol), (''state_schema'', e_state_schema ex),
                  (''entrypoint'', JStr (co_qualname (e_resume ex))), (''source'', JList (map JStr fingerprints)),
                  (''development'', JBool development), (''config'', config)]))
      | _ \<Rightarrow> Inl (ValueError ''development must be a boolean''))"

text \<open>
  \<open>Executable.from_manifest\<close> on the parsed YAML document. \<open>load\<close> imports an entrypoint
  (\<open>_load_entrypoint\<close>, which executes local code) and \<open>join_path\<close> joins a resource path to the
  manifest's directory.
\<close>

definition manifest_fields :: "string list" where
  "manifest_fields = [''definition'', ''protocol'', ''entrypoint'', ''state_schema'', ''inbox'',
     ''config'', ''development'', ''resources'', ''upgrades'']"

definition load_upgrade ::
    "(json \<Rightarrow> code_object res) \<Rightarrow> (string \<times> code_object) list \<Rightarrow> string \<times> json \<Rightarrow> (string \<times> code_object) list res" where
  "load_upgrade load us kv = rbind (load (snd kv)) (\<lambda>c. Inr (us @ [(fst kv, c)]))"

definition from_manifest ::
    "(json \<Rightarrow> code_object res) \<Rightarrow> (string \<Rightarrow> string) \<Rightarrow> (string \<Rightarrow> string) \<Rightarrow> json \<Rightarrow> executable res" where
  "from_manifest load join_path file_digest data =
     (case data of
        JObj d \<Rightarrow>
          if \<not> set (map fst d) \<subseteq> set manifest_fields then Inl (ValueError ''invalid manifest or unknown fields'')
          else if map_of d ''protocol'' \<noteq> Some (JStr protocol) \<or> map_of d ''inbox'' \<noteq> Some (JStr ''session'')
          then Inl (ValueError ''manifest requires entourage.activation/v1 and inbox: session'')
          else (case dict_get d ''resources'' (JList []) of
            JList resources \<Rightarrow>
              if \<not> list_all is_str resources then Inl (ValueError ''resources must be a list of file paths'')
              else (case dict_get d ''upgrades'' (JObj []) of
                JObj upgrades \<Rightarrow>
                  if \<not> list_all (\<lambda>kv. is_str (snd kv)) upgrades
                  then Inl (ValueError ''upgrades must map old definitions to entrypoints'')
                  else (case map_of d ''definition'' of
                    None \<Rightarrow> Inl (KeyError ''definition'')
                  | Some name \<Rightarrow>
                      rbind (load (dict_get d ''entrypoint'' (JStr []))) (\<lambda>resume.
                      rbind (fold_res (load_upgrade load) [] upgrades) (\<lambda>us.
                        let ex = \<lparr>e_definition = str_of name, e_resume = resume,
                                  e_state_schema = dict_get d ''state_schema'' (JInt 1),
                                  e_config = dict_get d ''config'' (JObj []),
                                  e_development = dict_get d ''development'' (JBool False),
                                  e_resources = map (\<lambda>p. join_path (str_of p)) resources, e_upgrades = us\<rparr>
                        in rbind (contract file_digest ex) (\<lambda>_. Inr ex))))
              | _ \<Rightarrow> Inl (ValueError ''upgrades must map old definitions to entrypoints''))
          | _ \<Rightarrow> Inl (ValueError ''resources must be a list of file paths''))
      | _ \<Rightarrow> Inl (ValueError ''invalid manifest or unknown fields''))"

subsection \<open>Staged mail\<close>

lemma amend_last_snoc [simp]:
  "amend_last f (cx\<lparr>cx_publish := ps @ [p]\<rparr>) = cx\<lparr>cx_publish := ps @ [p\<lparr>pub_event := f (pub_event p)\<rparr>]\<rparr>"
  by (simp add: amend_last_def)

lemma send_Inr:
  "send digest cx dest payload key kind rid = Inr (cx', eid) \<longleftrightarrow>
     key \<noteq> [] \<and> json_finite payload \<and> eid = mail_event_id digest (cx_session_id cx) key
     \<and> cx' = cx\<lparr>cx_publish := cx_publish cx @ [\<lparr>pub_session_id = dest, pub_event =
          [(''event_id'', JStr eid), (''kind'', JStr kind), (''source'', JStr (cx_session_id cx)), (''payload'', payload)]
          @ (case rid of None \<Rightarrow> [] | Some r \<Rightarrow> [(''request_id'', r)])\<rparr>]\<rparr>"
  by (auto simp: send_def Let_def result_simps split: if_splits)

lemma request_Inr:
  "request digest cx dest payload key = Inr (cx', rid) \<longleftrightarrow>
     key \<noteq> [] \<and> json_finite payload \<and> rid = mail_event_id digest (cx_session_id cx) key
     \<and> cx' = cx\<lparr>cx_publish := cx_publish cx @ [\<lparr>pub_session_id = dest, pub_event =
          [(''event_id'', JStr rid), (''kind'', JStr ''request''), (''source'', JStr (cx_session_id cx)),
           (''payload'', payload), (''request_id'', JStr rid), (''reply_to'', JStr (cx_session_id cx))]\<rparr>]\<rparr>"
  by (auto simp: request_def result_simps send_Inr)

lemma str_field_Inr [result_simps]: "str_field d k = Inr s \<longleftrightarrow> map_of d k = Some (JStr s)"
  by (auto simp: str_field_def split: option.splits json.splits)

lemma reply_Inr:
  "reply digest cx req payload key = Inr (cx', eid) \<longleftrightarrow>
     (\<exists>rid dest. map_of req ''request_id'' = Some (JStr rid) \<and> map_of req ''reply_to'' = Some (JStr dest)
       \<and> json_finite payload \<and> eid = mail_event_id digest (cx_session_id cx) (''reply:'' @ identity digest [rid, key])
       \<and> cx' = cx\<lparr>cx_publish := cx_publish cx @ [\<lparr>pub_session_id = dest, pub_event =
          [(''event_id'', JStr eid), (''kind'', JStr ''result''), (''source'', JStr (cx_session_id cx)),
           (''payload'', payload), (''request_id'', JStr rid)]\<rparr>]\<rparr>)"
  by (auto simp: reply_def result_simps send_Inr)

lemma spawn_session_Inr:
  "spawn_session cx ex st key = Inr (cx', child) \<longleftrightarrow>
     key \<noteq> [] \<and> is_obj st \<and> json_finite st \<and> child = child_id (cx_session_id cx) key
     \<and> cx' = cx\<lparr>cx_spawn := cx_spawn cx @ [\<lparr>sp_session_id = child, sp_executable = ex, sp_state = st\<rparr>]\<rparr>"
  by (auto simp: spawn_session_def Let_def result_simps)

lemma propose_Inr:
  "propose cx st inc dl cpl rb = Inr p \<longleftrightarrow> json_finite st \<and> p = \<lparr>pr_state = st, pr_incorporated = inc,
     pr_publish = cx_publish cx, pr_deadline = dl, pr_complete = cpl, pr_spawn = cx_spawn cx, pr_rebind = rb\<rparr>"
  by (auto simp: propose_def result_simps)

lemma mail_event_id_inj:
  "inj digest \<Longrightarrow> mail_event_id digest s k = mail_event_id digest s' k' \<longleftrightarrow> s = s' \<and> k = k'"
  by (simp add: mail_event_id_def identity_inj)

lemma mail_not_timer: "\<not> starts_with ''timer:'' (mail_event_id digest s k)"
  by (simp add: mail_event_id_def starts_with_def)

lemma mail_event_id_nonempty [simp]: "mail_event_id digest s k \<noteq> []"
  by (simp add: mail_event_id_def)

lemma child_id_inj [simp]: "child_id sid k = child_id sid l \<longleftrightarrow> k = l"
  by (simp add: child_id_def)

lemma child_not_parent: "child_id sid k \<noteq> sid"
proof
  assume "child_id sid k = sid"
  then have "length (sid @ '':'' @ k) = length sid" by (simp add: child_id_def)
  then show False by simp
qed

end
