(* ===== verification/Dispatcher.thy ===== *)
theory Dispatcher
  imports Session_Store Executables
begin

text \<open>
  The dispatcher (\<open>entourage/executables.py\<close>, class \<open>Dispatcher\<close>): it restores a session, runs its
  handler, and commits the proposal or releases the step, over any session store. The outside world
  of one \<open>run_once\<close> call is a record: the clock reading and fresh token of each claim, and the clock
  readings of the commit and of the release.
\<close>

subsection \<open>State\<close>

record dispatcher =
  d_max_events :: int
  d_lease :: pyfloat
  d_max_attempts :: "int option"
  d_worker :: string
  d_session :: "string option"
  d_definitions :: "(string \<times> (handler \<times> json)) list"
  d_upgrades :: "(string \<times> (handler \<times> string)) list"
  d_policies :: "(string \<times> (pyfloat \<times> int option)) list"
  d_cursor :: nat

record dispatch_result =
  dr_session_id :: string
  dr_committed :: bool
  dr_error :: "py_error option"

record wake_env =
  we_claim_time :: "nat \<Rightarrow> rat"
  we_token :: "nat \<Rightarrow> string"
  we_activation_id :: string
  we_commit_times :: "rat \<times> rat"
  we_release_times :: "rat \<times> rat"

text \<open>\<open>host\<close> is the default worker name, host and process ID.\<close>

definition new_dispatcher ::
    "string \<Rightarrow> int \<Rightarrow> pyfloat \<Rightarrow> int option \<Rightarrow> string option \<Rightarrow> string option \<Rightarrow> dispatcher res" where
  "new_dispatcher host max_events lease_seconds max_attempts worker session =
     (if max_events < 1 then Inl (ValueError ''max_events must be a positive integer'')
      else if \<not> isfinite lease_seconds \<or> fin_val lease_seconds \<le> 0
      then Inl (ValueError ''lease_seconds must be finite and positive'')
      else if (case max_attempts of None \<Rightarrow> False | Some n \<Rightarrow> n < 1)
      then Inl (ValueError ''max_attempts must be a positive integer or None'')
      else Inr \<lparr>d_max_events = max_events, d_lease = lease_seconds, d_max_attempts = max_attempts,
        d_worker = (case worker of None \<Rightarrow> host | Some w \<Rightarrow> if w = [] then host else w),
        d_session = session, d_definitions = [], d_upgrades = [], d_policies = [], d_cursor = 0\<rparr>)"

definition serves :: "dispatcher \<Rightarrow> string \<Rightarrow> bool" where
  "serves d name \<longleftrightarrow> map_of (d_definitions d) name \<noteq> None \<or> map_of (d_upgrades d) name \<noteq> None"

definition served_names :: "dispatcher \<Rightarrow> string list" where
  "served_names d = map fst (d_definitions d) @ map fst (d_upgrades d)"

definition first_served :: "dispatcher \<Rightarrow> string list \<Rightarrow> string option" where
  "first_served d names = find (serves d) names"

subsection \<open>Registration\<close>

definition register ::
    "'db backend \<Rightarrow> (string \<Rightarrow> string) \<Rightarrow> 'db \<Rightarrow> dispatcher \<Rightarrow> executable \<Rightarrow> pyfloat option \<Rightarrow> int option
       \<Rightarrow> ('db \<times> dispatcher) res" where
  "register be file_digest db d ex lease_seconds max_attempts =
     (let name = e_definition ex; olds = map fst (e_upgrades ex) in
      if (case lease_seconds of None \<Rightarrow> False | Some t \<Rightarrow> \<not> isfinite t \<or> fin_val t \<le> 0)
      then Inl (ValueError ''lease_seconds must be finite and positive'')
      else if (case max_attempts of None \<Rightarrow> False | Some n \<Rightarrow> n < 1)
      then Inl (ValueError ''max_attempts must be a positive integer'')
      else if serves d name
      then Inl (ValueError (''duplicate or superseded definition '' @ repr_str name))
      else (case first_served d olds of
        Some old \<Rightarrow> Inl (ValueError (''definition '' @ repr_str old @ '' is already served or upgraded here''))
      | None \<Rightarrow>
          rbind (contract file_digest ex) (\<lambda>ct.
          rbind (bk_bind be db name ct) (\<lambda>db'. Inr (db',
            d\<lparr>d_definitions := AList.update name (co_run (e_resume ex), ct) (d_definitions d),
              d_upgrades := fold (\<lambda>(old, migrate). AList.update old (co_run migrate, name))
                              (e_upgrades ex) (d_upgrades d),
              d_policies := AList.update name
                (case lease_seconds of None \<Rightarrow> d_lease d | Some t \<Rightarrow> t,
                 case max_attempts of None \<Rightarrow> d_max_attempts d | Some n \<Rightarrow> Some n) (d_policies d)\<rparr>)))))"

definition lookup :: "(string \<times> 'v) list \<Rightarrow> string \<Rightarrow> 'v res" where
  "lookup d k = (case map_of d k of None \<Rightarrow> Inl (KeyError k) | Some v \<Rightarrow> Inr v)"

definition policy :: "dispatcher \<Rightarrow> string \<Rightarrow> (pyfloat \<times> int option) res" where
  "policy d name =
     (if map_of (d_definitions d) name \<noteq> None then lookup (d_policies d) name
      else rbind (lookup (d_upgrades d) name) (\<lambda>(_, target). lookup (d_policies d) target))"

definition dispatcher_create :: "'db backend \<Rightarrow> 'db \<Rightarrow> dispatcher \<Rightarrow> string \<Rightarrow> string \<Rightarrow> json \<Rightarrow> 'db res" where
  "dispatcher_create be db d sid executable st =
     (if map_of (d_definitions d) executable = None then Inl (KeyError executable)
      else if \<not> is_obj st then Inl (ValueError ''state must be a JSON object'')
      else rbind (json_copy st) (\<lambda>copied. bk_create be db sid executable copied))"

subsection \<open>One step\<close>

text \<open>\<open>repr(error)\<close>: the class name and the repr of its argument.\<close>

definition repr_error :: "py_error \<Rightarrow> string" where
  "repr_error e = (case e of
     ValueError m \<Rightarrow> ''ValueError('' @ repr_str m @ '')''
   | KeyError k \<Rightarrow> ''KeyError('' @ repr_str k @ '')''
   | TypeError m \<Rightarrow> ''TypeError('' @ repr_str m @ '')''
   | StaleActivation s \<Rightarrow> ''StaleActivation('' @ repr_str s @ '')''
   | SessionAlreadyExists s \<Rightarrow> ''SessionAlreadyExists('' @ repr_str s @ '')''
   | RecursionLimitExceeded m \<Rightarrow> ''RecursionLimitExceeded('' @ repr_str m @ '')''
   | OtherError c m \<Rightarrow> c @ ''('' @ repr_str m @ '')'')"

text \<open>
  \<open>min(lease_seconds, float(2 ** (attempt - 1)))\<close>. A power of two past the range of a double raises.
\<close>

definition backoff :: "pyfloat \<Rightarrow> nat \<Rightarrow> rat res" where
  "backoff lease_seconds attempt =
     (if attempt - 1 \<ge> 1024 then Inl (OtherError ''OverflowError'' ''int too large to convert to float'')
      else Inr (min (fin_val lease_seconds) (2 ^ (attempt - 1))))"

text \<open>\<open>_release\<close>: an error of the store's release is logged and swallowed.\<close>

definition release_step ::
    "'db backend \<Rightarrow> wake_env \<Rightarrow> 'db \<Rightarrow> activation \<Rightarrow> py_error \<Rightarrow> pyfloat \<Rightarrow> 'db \<times> unit res" where
  "release_step be env db act e lease_seconds =
     (case backoff lease_seconds (a_attempt act) of
        Inl err \<Rightarrow> (db, Inl err)
      | Inr b \<Rightarrow>
          (case bk_release be db (fst (we_release_times env)) (snd (we_release_times env)) act
                  (Some (take 2000 (repr_error e))) (Some (Fin b)) of
             Inl _ \<Rightarrow> (db, Inr ())
           | Inr db' \<Rightarrow> (db', Inr ())))"

text \<open>The checks between the handler's return and the commit.\<close>

definition accepted_proposal :: "string \<Rightarrow> string option \<Rightarrow> outcome \<Rightarrow> proposal res" where
  "accepted_proposal name target oc =
     (case oc of
        Raised e \<Rightarrow> Inl e
      | OtherValue \<Rightarrow> Inl (TypeError ''resume must return a Proposal'')
      | Proposed p \<Rightarrow>
          if \<not> is_obj (pr_state p)
          then Inl (ValueError ''proposal requires object state and boolean complete'')
          else (case target of
            None \<Rightarrow> Inr p
          | Some t \<Rightarrow>
              if (pr_rebind p \<noteq> None \<and> pr_rebind p \<noteq> Some t) \<or> pr_complete p
              then Inl (ValueError (''migration from '' @ repr_str name @ '' must rebind to '' @ repr_str t))
              else Inr (p\<lparr>pr_rebind := Some t\<rparr>)))"

definition to_checkpoint :: "proposal \<Rightarrow> json \<Rightarrow> checkpoint" where
  "to_checkpoint p st = \<lparr>c_state = st, c_incorporated = pr_incorporated p, c_publish = pr_publish p,
     c_deadline = pr_deadline p, c_complete = pr_complete p, c_spawn = pr_spawn p, c_rebind = pr_rebind p\<rparr>"

definition attempt_step ::
    "'db backend \<Rightarrow> wake_env \<Rightarrow> 'db \<Rightarrow> activation \<Rightarrow> string \<Rightarrow> string option \<Rightarrow> outcome \<Rightarrow> 'db res" where
  "attempt_step be env db act name target oc =
     rbind (accepted_proposal name target oc) (\<lambda>p.
     rbind (json_copy (pr_state p)) (\<lambda>st.
       bk_commit be db (fst (we_commit_times env)) (snd (we_commit_times env)) act (to_checkpoint p st)))"

text \<open>The handler, target and contract a name is served with.\<close>

definition serving :: "dispatcher \<Rightarrow> string \<Rightarrow> (handler \<times> string option \<times> json) res" where
  "serving d name =
     (case map_of (d_definitions d) name of
        Some (h, ct) \<Rightarrow> Inr (h, None, ct)
      | None \<Rightarrow>
          rbind (lookup (d_upgrades d) name) (\<lambda>(h, target).
          rbind (lookup (d_definitions d) target) (\<lambda>(_, ct). Inr (h, Some target, ct))))"

definition contract_config :: "json \<Rightarrow> json res" where
  "contract_config ct = (case ct of JObj c \<Rightarrow> lookup c ''config'' | _ \<Rightarrow> Inl (TypeError ''contract''))"

text \<open>The context and the handler call of a claimed step.\<close>

definition call_handler ::
    "dispatcher \<Rightarrow> wake_env \<Rightarrow> string \<Rightarrow> activation \<Rightarrow> (string option \<times> outcome) res" where
  "call_handler d env name act =
     rbind (serving d name) (\<lambda>(h, target, ct).
     rbind (contract_config ct) (\<lambda>config.
     rbind (new_context (a_session_id act) (case target of None \<Rightarrow> name | Some t \<Rightarrow> t) config
              (a_has_more act) (if target = None then None else Some name) (a_attempt act)
              (a_last_error act) (we_activation_id env)) (\<lambda>cx.
       Inr (target, h cx (a_state act) (a_events act)))))"

definition serve ::
    "'db backend \<Rightarrow> dispatcher \<Rightarrow> wake_env \<Rightarrow> 'db \<Rightarrow> string \<Rightarrow> pyfloat \<Rightarrow> activation
       \<Rightarrow> 'db \<times> dispatch_result res" where
  "serve be d env db name lease_seconds act =
     (case call_handler d env name act of
        Inl e \<Rightarrow> (db, Inl e)
      | Inr (target, oc) \<Rightarrow>
          (case attempt_step be env db act name target oc of
             Inr db' \<Rightarrow> (db', Inr \<lparr>dr_session_id = a_session_id act, dr_committed = True, dr_error = None\<rparr>)
           | Inl e \<Rightarrow>
               (case release_step be env db act e lease_seconds of
                  (db', Inl err) \<Rightarrow> (db', Inl err)
                | (db', Inr _) \<Rightarrow>
                    (db', Inr \<lparr>dr_session_id = a_session_id act, dr_committed = False, dr_error = Some e\<rparr>))))"

text \<open>\<open>run_once\<close>: the names in turn from the cursor; the first claim that finds work is served.\<close>

fun run_names ::
    "'db backend \<Rightarrow> dispatcher \<Rightarrow> wake_env \<Rightarrow> 'db \<Rightarrow> nat list \<Rightarrow> 'db \<times> dispatcher \<times> dispatch_result option res" where
  "run_names be d env db [] = (db, d, Inr None)"
| "run_names be d env db (offset # offsets) =
     (let names = served_names d;
          index = (d_cursor d + offset) mod length names;
          name = names ! index in
      case policy d name of
        Inl e \<Rightarrow> (db, d, Inl e)
      | Inr (lease_seconds, max_attempts) \<Rightarrow>
          (case bk_claim be db (we_claim_time env offset) (we_token env offset) lease_seconds (Some name)
                  (Some (d_max_events d)) (d_session d) (Some (d_worker d)) max_attempts of
             Inl e \<Rightarrow> (db, d, Inl e)
           | Inr (db1, None) \<Rightarrow> run_names be d env db1 offsets
           | Inr (db1, Some act) \<Rightarrow>
               (let d' = d\<lparr>d_cursor := (index + 1) mod length names\<rparr> in
                case serve be d' env db1 name lease_seconds act of
                  (db2, Inl e) \<Rightarrow> (db2, d', Inl e)
                | (db2, Inr r) \<Rightarrow> (db2, d', Inr (Some r)))))"

definition run_once ::
    "'db backend \<Rightarrow> dispatcher \<Rightarrow> wake_env \<Rightarrow> 'db \<Rightarrow> 'db \<times> dispatcher \<times> dispatch_result option res" where
  "run_once be d env db = run_names be d env db [0..<length (served_names d)]"

subsection \<open>Loops\<close>

text \<open>\<open>run_until_idle\<close>: at most as many calls as the budget; \<open>envs\<close> gives each call its world.\<close>

fun drain ::
    "'db backend \<Rightarrow> nat \<Rightarrow> dispatcher \<Rightarrow> (nat \<Rightarrow> wake_env) \<Rightarrow> 'db \<Rightarrow> dispatch_result list
       \<Rightarrow> 'db \<times> dispatcher \<times> dispatch_result list res" where
  "drain be 0 d envs db acc = (db, d, Inr acc)"
| "drain be (Suc n) d envs db acc =
     (case run_once be d (envs (length acc)) db of
        (db', d', Inl e) \<Rightarrow> (db', d', Inl e)
      | (db', d', Inr None) \<Rightarrow> (db', d', Inr acc)
      | (db', d', Inr (Some r)) \<Rightarrow> drain be n d' envs db' (acc @ [r]))"

definition run_until_idle ::
    "'db backend \<Rightarrow> int \<Rightarrow> dispatcher \<Rightarrow> (nat \<Rightarrow> wake_env) \<Rightarrow> 'db \<Rightarrow> 'db \<times> dispatcher \<times> dispatch_result list res" where
  "run_until_idle be max_activations d envs db =
     (if max_activations < 1 then (db, d, Inl (ValueError ''max_activations must be a positive integer''))
      else drain be (nat max_activations) d envs db [])"

text \<open>
  \<open>run_forever\<close> on a finite stretch of the outside world: one entry per round, with \<open>stop.is_set()\<close>
  and the world of its \<open>run_once\<close>. It ends stopped, idle, or still running at the end of the
  stretch; what \<open>on_result\<close> sees is the list of results.
\<close>

datatype resident = Stopped | IdleExit | StillRunning | Died py_error

fun reside ::
    "'db backend \<Rightarrow> rat \<Rightarrow> rat option \<Rightarrow> (bool \<times> wake_env) list \<Rightarrow> dispatcher \<Rightarrow> 'db \<Rightarrow> rat
       \<Rightarrow> dispatch_result list \<Rightarrow> 'db \<times> resident \<times> dispatch_result list" where
  "reside be poll idle_exit [] d db idle seen = (db, StillRunning, seen)"
| "reside be poll idle_exit ((stop, env) # world) d db idle seen =
     (if stop then (db, Stopped, seen)
      else case run_once be d env db of
        (db', d', Inl e) \<Rightarrow> (db', Died e, seen)
      | (db', d', Inr None) \<Rightarrow>
          if (case idle_exit of None \<Rightarrow> False | Some t \<Rightarrow> idle \<ge> t) then (db', IdleExit, seen)
          else reside be poll idle_exit world d' db' (idle + poll) seen
      | (db', d', Inr (Some r)) \<Rightarrow>
          reside be poll idle_exit world d' db' (if dr_committed r then 0 else poll) (seen @ [r]))"

definition run_forever ::
    "'db backend \<Rightarrow> pyfloat \<Rightarrow> pyfloat option \<Rightarrow> (bool \<times> wake_env) list \<Rightarrow> dispatcher \<Rightarrow> 'db
       \<Rightarrow> ('db \<times> resident \<times> dispatch_result list) res" where
  "run_forever be poll_interval idle_exit world d db =
     (if \<not> isfinite poll_interval \<or> fin_val poll_interval \<le> 0
      then Inl (ValueError ''poll_interval must be finite and positive'')
      else if (case idle_exit of None \<Rightarrow> False | Some t \<Rightarrow> \<not> isfinite t \<or> fin_val t < 0)
      then Inl (ValueError ''idle_exit must be finite and nonnegative'')
      else Inr (reside be (fin_val poll_interval) (map_option fin_val idle_exit) world d db 0 []))"

end
