(* ===== verification/Dispatcher_Laws.thy ===== *)
theory Dispatcher_Laws
  imports Dispatcher
begin

text \<open>
  The laws of the dispatcher. \<open>dispatcher_ok\<close> is the invariant registration keeps; \<open>worker_store\<close> is
  what the dispatcher relies on of its store: claims with valid arguments return, commits and
  releases act on the store's visible content as promised. The client's lemmas are proved once over
  any such store and used for the SQLite one.
\<close>

subsection \<open>Registration\<close>

definition policy_ok :: "pyfloat \<times> int option \<Rightarrow> bool" where
  "policy_ok p \<longleftrightarrow> isfinite (fst p) \<and> 0 < fin_val (fst p) \<and> (\<forall>n. snd p = Some n \<longrightarrow> 0 < n)"

definition dispatcher_ok :: "dispatcher \<Rightarrow> bool" where
  "dispatcher_ok d \<longleftrightarrow>
     distinct (served_names d) \<and> 0 < d_max_events d \<and> policy_ok (d_lease d, d_max_attempts d)
     \<and> (\<forall>n x. map_of (d_definitions d) n = Some x \<longrightarrow> (\<exists>p. map_of (d_policies d) n = Some p \<and> policy_ok p))
     \<and> (\<forall>n x. map_of (d_definitions d) n = Some x \<longrightarrow> (\<exists>c. contract_config (snd x) = Inr c \<and> json_finite c))
     \<and> (\<forall>old x. map_of (d_upgrades d) old = Some x \<longrightarrow> map_of (d_definitions d) (snd x) \<noteq> None)
     \<and> (d_cursor d = 0 \<or> d_cursor d < length (served_names d))"

lemma serves_iff: "serves d n \<longleftrightarrow> n \<in> set (served_names d)"
  by (auto simp: serves_def served_names_def map_of_eq_None_iff)

lemma new_dispatcher_ok: "new_dispatcher host me ls ma wk sess = Inr d \<Longrightarrow> dispatcher_ok d"
  by (auto simp: new_dispatcher_def dispatcher_ok_def policy_ok_def served_names_def split: if_splits option.splits)

lemma contract_Inr:
  assumes "contract fd ex = Inr ct"
  shows "\<exists>c. contract_config ct = Inr c \<and> json_finite c"
    and "old \<in> set (map fst (e_upgrades ex)) \<Longrightarrow> old \<noteq> [] \<and> old \<noteq> e_definition ex"
    and "versioned_name (e_definition ex)"
  using assms
  by (auto simp: contract_def contract_config_def lookup_def Let_def result_simps split: if_splits json.splits)

lemma map_fst_update: "k \<notin> set (map fst xs) \<Longrightarrow> map fst (AList.update k v xs) = map fst xs @ [k]"
  by (induction xs) auto

lemma fold_update_keys:
  "distinct (map fst us) \<Longrightarrow> set (map fst us) \<inter> set (map fst xs) = {} \<Longrightarrow>
     map fst (fold (\<lambda>(old, m). AList.update old (co_run m, name)) us xs) = map fst xs @ map fst us"
proof (induction us arbitrary: xs)
  case (Cons u us)
  obtain old m where u: "u = (old, m)" by (cases u)
  have k: "map fst (AList.update old (co_run m, name) xs) = map fst xs @ [old]"
    using Cons.prems(2) by (intro map_fst_update) (auto simp: u)
  have "set (map fst us) \<inter> set (map fst (AList.update old (co_run m, name) xs)) = {}"
    using Cons.prems unfolding k by (auto simp: u)
  with Cons.IH [OF _ this] Cons.prems(1) show ?case by (simp add: u k)
qed simp

lemma fold_update_values:
  "map_of (fold (\<lambda>(old, m). AList.update old (co_run m, name)) us xs) o' = Some x \<Longrightarrow>
     snd x = name \<or> map_of xs o' = Some x"
proof (induction us arbitrary: xs)
  case (Cons u us)
  obtain old m where u: "u = (old, m)" by (cases u)
  from Cons.prems have "map_of (fold (\<lambda>(old, m). AList.update old (co_run m, name)) us
      (AList.update old (co_run m, name) xs)) o' = Some x" by (simp add: u)
  from Cons.IH [OF this] show ?case by (auto split: if_splits)
qed simp

lemma find_None_serves: "first_served d names = None \<longleftrightarrow> (\<forall>n \<in> set names. \<not> serves d n)"
  by (auto simp: first_served_def find_None_iff)

lemma register_ok:
  assumes ok: "dispatcher_ok d" and run: "register be fd db d ex ls ma = Inr (db', d')"
    and us: "dict_ok (e_upgrades ex)"
  shows "dispatcher_ok d'" and "served_names d' = map fst (d_definitions d) @ [e_definition ex]
      @ map fst (d_upgrades d) @ map fst (e_upgrades ex)"
    and "\<exists>ct. contract fd ex = Inr ct \<and> bk_bind be db (e_definition ex) ct = Inr db'"
proof -
  let ?n = "e_definition ex" and ?olds = "map fst (e_upgrades ex)"
  from run have par: "\<forall>t. ls = Some t \<longrightarrow> isfinite t \<and> 0 < fin_val t" "\<forall>n. ma = Some n \<longrightarrow> 0 < n"
    and new: "\<not> serves d ?n" and olds: "first_served d ?olds = None"
    by (auto simp: register_def Let_def split: if_splits option.splits)
  from run par new olds obtain ct where ct: "contract fd ex = Inr ct" "bk_bind be db ?n ct = Inr db'"
    and d': "d' = d\<lparr>d_definitions := AList.update ?n (co_run (e_resume ex), ct) (d_definitions d),
              d_upgrades := fold (\<lambda>(old, migrate). AList.update old (co_run migrate, ?n))
                              (e_upgrades ex) (d_upgrades d),
              d_policies := AList.update ?n
                (case ls of None \<Rightarrow> d_lease d | Some t \<Rightarrow> t,
                 case ma of None \<Rightarrow> d_max_attempts d | Some n \<Rightarrow> Some n) (d_policies d)\<rparr>"
    by (auto simp: register_def Let_def result_simps split: if_splits option.splits)
  show "\<exists>ct. contract fd ex = Inr ct \<and> bk_bind be db ?n ct = Inr db'" using ct by blast
  have fresh: "set ?olds \<inter> set (served_names d) = {}" "?n \<notin> set (served_names d)" "?n \<notin> set ?olds"
    using olds new contract_Inr(2) [OF ct(1)] by (auto simp: find_None_serves serves_iff)
  have k1: "map fst (d_definitions d') = map fst (d_definitions d) @ [?n]"
    using fresh(2) by (simp add: d' map_fst_update served_names_def)
  have k2: "map fst (d_upgrades d') = map fst (d_upgrades d) @ ?olds"
    unfolding d' dispatcher.simps
    by (rule trans [OF _ fold_update_keys]) (use us fresh(1) in \<open>auto simp: dict_ok_def served_names_def\<close>)
  show names: "served_names d' = map fst (d_definitions d) @ [?n] @ map fst (d_upgrades d) @ ?olds"
    unfolding served_names_def k1 k2 by simp
  have "distinct (served_names d')"
    using ok fresh us unfolding names dispatcher_ok_def by (auto simp: served_names_def dict_ok_def)
  moreover have "policy_ok (case ls of None \<Rightarrow> d_lease d | Some t \<Rightarrow> t,
                 case ma of None \<Rightarrow> d_max_attempts d | Some n \<Rightarrow> Some n)"
    using ok par by (auto simp: dispatcher_ok_def policy_ok_def split: option.splits)
  moreover have "map_of (d_definitions d') (snd x) \<noteq> None" if "map_of (d_upgrades d') old = Some x" for old x
  proof -
    have "\<forall>old x. map_of (d_upgrades d) old = Some x \<longrightarrow> map_of (d_definitions d) (snd x) \<noteq> None"
      using ok unfolding dispatcher_ok_def by blast
    moreover have "snd x = ?n \<or> map_of (d_upgrades d) old = Some x"
      using fold_update_values [of ?n "e_upgrades ex" "d_upgrades d" old x] that by (simp add: d')
    ultimately show ?thesis by (cases x) (auto simp: d')
  qed
  moreover have "d_cursor d' < length (served_names d')"
    using ok unfolding names by (auto simp: d' dispatcher_ok_def served_names_def)
  ultimately show "dispatcher_ok d'"
    using ok contract_Inr(1) [OF ct(1)] unfolding dispatcher_ok_def by (auto simp: d')
qed

lemma policy_of_served:
  assumes "dispatcher_ok d" and "n \<in> set (served_names d)"
  shows "\<exists>p. policy d n = Inr p \<and> policy_ok p"
proof (cases "map_of (d_definitions d) n")
  case (Some x)
  with assms(1) obtain p where "map_of (d_policies d) n = Some p" "policy_ok p"
    unfolding dispatcher_ok_def by blast
  with Some show ?thesis by (simp add: policy_def lookup_def)
next
  case None
  with assms(2) obtain x where x: "map_of (d_upgrades d) n = Some x"
    by (auto simp: served_names_def map_of_eq_None_iff dest: weak_map_of_SomeI)
  with assms(1) obtain y where "map_of (d_definitions d) (snd x) = Some y"
    unfolding dispatcher_ok_def by blast
  moreover from this assms(1) obtain p where "map_of (d_policies d) (snd x) = Some p" "policy_ok p"
    unfolding dispatcher_ok_def by blast
  ultimately show ?thesis using None x by (cases x) (simp add: policy_def lookup_def)
qed

lemma serving_of_served:
  assumes ok: "dispatcher_ok d" and n: "n \<in> set (served_names d)"
  shows "\<exists>h target ct c. serving d n = Inr (h, target, ct) \<and> contract_config ct = Inr c \<and> json_finite c"
proof (cases "map_of (d_definitions d) n")
  case (Some x)
  with ok obtain c where "contract_config (snd x) = Inr c" "json_finite c" unfolding dispatcher_ok_def by blast
  with Some show ?thesis by (cases x) (auto simp: serving_def)
next
  case None
  with n obtain x where x: "map_of (d_upgrades d) n = Some x"
    by (auto simp: served_names_def map_of_eq_None_iff dest: weak_map_of_SomeI)
  with ok obtain y where y: "map_of (d_definitions d) (snd x) = Some y" unfolding dispatcher_ok_def by blast
  with ok obtain c where "contract_config (snd y) = Inr c" "json_finite c" unfolding dispatcher_ok_def by blast
  with None x y show ?thesis by (cases x; cases y) (auto simp: serving_def lookup_def)
qed

lemma call_handler_total:
  assumes "dispatcher_ok d" and "n \<in> set (served_names d)"
  shows "\<exists>target oc. call_handler d env n act = Inr (target, oc)"
proof -
  obtain h target ct c where "serving d n = Inr (h, target, ct)" "contract_config ct = Inr c" "json_finite c"
    using serving_of_served [OF assms] by blast
  then show ?thesis by (simp add: call_handler_def new_context_def json_copy_def)
qed

lemma cursor_fields:
  "d_definitions (d\<lparr>d_cursor := c\<rparr>) = d_definitions d" "d_upgrades (d\<lparr>d_cursor := c\<rparr>) = d_upgrades d"
  "d_policies (d\<lparr>d_cursor := c\<rparr>) = d_policies d" "d_max_events (d\<lparr>d_cursor := c\<rparr>) = d_max_events d"
  "d_lease (d\<lparr>d_cursor := c\<rparr>) = d_lease d" "d_max_attempts (d\<lparr>d_cursor := c\<rparr>) = d_max_attempts d"
  "d_session (d\<lparr>d_cursor := c\<rparr>) = d_session d" "d_worker (d\<lparr>d_cursor := c\<rparr>) = d_worker d"
  "d_cursor (d\<lparr>d_cursor := c\<rparr>) = c"
  by simp_all

lemma serving_cursor [simp]:
  "serving (d\<lparr>d_cursor := c\<rparr>) n = serving d n"
  "call_handler (d\<lparr>d_cursor := c\<rparr>) env n act = call_handler d env n act"
  "served_names (d\<lparr>d_cursor := c\<rparr>) = served_names d" "policy (d\<lparr>d_cursor := c\<rparr>) n = policy d n"
  unfolding call_handler_def serving_def served_names_def policy_def cursor_fields by (rule refl)+

lemma dispatcher_ok_cursor: "dispatcher_ok d \<Longrightarrow> c < length (served_names d) \<Longrightarrow> dispatcher_ok (d\<lparr>d_cursor := c\<rparr>)"
  unfolding dispatcher_ok_def serving_cursor cursor_fields by blast

lemma upt_split: "[0..<n] = pre @ k # rest \<Longrightarrow> k < n \<and> pre = [0..<k]"
proof -
  assume u: "[0..<n] = pre @ k # rest"
  then have l: "length pre < n" by (metis length_append length_upt less_add_same_cancel1 length_Cons zero_less_Suc diff_zero)
  have "[0..<n] ! length pre = k" by (simp add: u)
  with l have "length pre = k" by simp
  moreover have "pre = take (length pre) [0..<n]" by (simp add: u)
  ultimately show ?thesis using l by (simp add: take_upt)
qed

subsection \<open>The store a worker relies on\<close>

text \<open>
  \<open>work db now name session limit\<close>: a claim at \<open>now\<close> for that definition and session would find
  something. \<open>view\<close> is the content the store shows, \<open>after\<close> what a commit does to it, \<open>timed\<close> what a
  successful claim may add to it.
\<close>

locale worker_store =
  fixes be :: "'db backend" and ok :: "'db \<Rightarrow> bool" and view :: "'db \<Rightarrow> 'v"
    and after :: "activation \<Rightarrow> checkpoint \<Rightarrow> rat \<Rightarrow> 'v \<Rightarrow> 'v"
    and work :: "'db \<Rightarrow> rat \<Rightarrow> string \<Rightarrow> string option \<Rightarrow> int option \<Rightarrow> bool"
  assumes claim_returns: "ok db \<Longrightarrow> policy_ok (ls, ma) \<Longrightarrow> 0 < n \<Longrightarrow>
      \<exists>db' x. bk_claim be db now tok ls (Some ex) (Some n) sess wk ma = Inr (db', x) \<and> ok db'
        \<and> (x = None \<longleftrightarrow> \<not> work db now ex sess ma)"
    and claim_empty: "ok db \<Longrightarrow> bk_claim be db now tok ls (Some ex) me sess wk ma = Inr (db', None) \<Longrightarrow>
      view db' = view db \<and> (ex' \<noteq> ex \<longrightarrow> work db' now' ex' sess' ma' = work db now' ex' sess' ma')"
    and claim_within: "bk_claim be db now tok ls (Some ex) me sess wk (Some m) = Inr (db', Some act) \<Longrightarrow>
      int (a_attempt act) \<le> m"
    and commit_after: "ok db \<Longrightarrow> bk_commit be db t1 t2 act c = Inr db' \<Longrightarrow> ok db' \<and> view db' = after act c t1 (view db)"
    and release_quiet: "ok db \<Longrightarrow> bk_release be db t1 t2 act err ra = Inr db' \<Longrightarrow> ok db' \<and> view db' = view db"

definition name_at :: "dispatcher \<Rightarrow> nat \<Rightarrow> string" where
  "name_at d k = served_names d ! ((d_cursor d + k) mod length (served_names d))"

text \<open>What serving a claimed step did to the content: the handler's checkpoint, or nothing.\<close>

definition step_effect ::
    "(activation \<Rightarrow> checkpoint \<Rightarrow> rat \<Rightarrow> 'v \<Rightarrow> 'v) \<Rightarrow> wake_env \<Rightarrow> string \<Rightarrow> string option \<Rightarrow> outcome \<Rightarrow> activation
       \<Rightarrow> dispatch_result \<Rightarrow> 'v \<Rightarrow> 'v \<Rightarrow> bool" where
  "step_effect after env name target oc act r v v' \<longleftrightarrow>
     dr_session_id r = a_session_id act \<and>
     (if dr_committed r
      then dr_error r = None \<and> (\<exists>p. accepted_proposal name target oc = Inr p \<and>
             v' = after act (to_checkpoint p (pr_state p)) (fst (we_commit_times env)) v)
      else dr_error r \<noteq> None \<and> v' = v)"

text \<open>Whether the turn at \<open>offset\<close> would find work; whether every policy bounds the attempts.\<close>

definition turn_work ::
    "('db \<Rightarrow> rat \<Rightarrow> string \<Rightarrow> string option \<Rightarrow> int option \<Rightarrow> bool) \<Rightarrow> dispatcher \<Rightarrow> wake_env \<Rightarrow> 'db \<Rightarrow> nat \<Rightarrow> bool" where
  "turn_work work d env db k =
     (case policy d (name_at d k) of
        Inl _ \<Rightarrow> False
      | Inr (_, ma) \<Rightarrow> work db (we_claim_time env k) (name_at d k) (d_session d) ma)"

definition bounded_attempts :: "dispatcher \<Rightarrow> bool" where
  "bounded_attempts d = (\<forall>n \<in> set (served_names d).
     case policy d n of Inr (_, Some m) \<Rightarrow> m \<le> 1024 | _ \<Rightarrow> False)"

lemma turn_mod: "c < n \<Longrightarrow> i < n \<Longrightarrow> (c + i) mod n = (if c + i < n then c + i else c + i - n)" for c n i :: nat
  by (simp add: le_mod_geq)

lemma name_at_distinct:
  assumes "dispatcher_ok d" and "i < length (served_names d)" "j < length (served_names d)" "i \<noteq> j"
  shows "name_at d i \<noteq> name_at d j"
proof -
  let ?n = "length (served_names d)"
  have d: "distinct (served_names d)" and "d_cursor d = 0 \<or> d_cursor d < ?n"
    using assms(1) unfolding dispatcher_ok_def by blast+
  then have c: "d_cursor d < ?n" using assms(2) by linarith
  have "(d_cursor d + i) mod ?n \<noteq> (d_cursor d + j) mod ?n"
    using turn_mod [OF c assms(2)] turn_mod [OF c assms(3)] assms(2-4) by (auto split: if_splits)
  moreover have "0 < ?n" using assms(2) by linarith
  ultimately show ?thesis using d by (simp add: name_at_def nth_eq_iff_index_eq)
qed

context worker_store
begin

lemma release_step_total:
  assumes "ok db" and "a_attempt act \<le> 1024"
  shows "\<exists>db'. release_step be env db act e ls = (db', Inr ()) \<and> ok db' \<and> view db' = view db"
proof -
  have "backoff ls (a_attempt act) = Inr (min (fin_val ls) (2 ^ (a_attempt act - 1)))"
    using assms(2) unfolding backoff_def by (intro if_not_P) linarith
  with release_quiet [OF assms(1)] assms(1) show ?thesis
    by (cases "bk_release be db (fst (we_release_times env)) (snd (we_release_times env)) act
          (Some (take 2000 (repr_error e))) (Some (Fin (min (fin_val ls) (2 ^ (a_attempt act - 1)))))")
       (auto simp: release_step_def)
qed

lemma serve_effect:
  assumes ok: "ok db" and d: "dispatcher_ok d" and n: "name \<in> set (served_names d)" and att: "a_attempt act \<le> 1024"
  shows "\<exists>db' r target oc. serve be d env db name ls act = (db', Inr r) \<and> ok db'
     \<and> call_handler d env name act = Inr (target, oc) \<and> step_effect after env name target oc act r (view db) (view db')"
proof -
  obtain target oc where h: "call_handler d env name act = Inr (target, oc)"
    using call_handler_total [OF d n] by blast
  show ?thesis
  proof (cases "attempt_step be env db act name target oc")
    case (Inr db')
    then obtain p where p: "accepted_proposal name target oc = Inr p" "json_finite (pr_state p)"
      "bk_commit be db (fst (we_commit_times env)) (snd (we_commit_times env)) act (to_checkpoint p (pr_state p)) = Inr db'"
      by (auto simp: attempt_step_def result_simps)
    note c = commit_after [OF ok p(3)]
    show ?thesis using h Inr p(1) c by (auto simp: serve_def step_effect_def)
  next
    case (Inl e)
    obtain db' where r: "release_step be env db act e ls = (db', Inr ())" "ok db'" "view db' = view db"
      using release_step_total [OF ok att] by blast
    show ?thesis using h Inl r by (auto simp: serve_def step_effect_def)
  qed
qed

text \<open>The call that served the turn at \<open>k\<close>: the claim, from \<open>db0\<close>, and what followed it.\<close>

definition served_turn ::
    "dispatcher \<Rightarrow> wake_env \<Rightarrow> 'db \<Rightarrow> 'db \<times> dispatcher \<times> dispatch_result option res \<Rightarrow> nat \<Rightarrow> 'db \<Rightarrow> 'db
       \<Rightarrow> activation \<Rightarrow> pyfloat \<Rightarrow> int option \<Rightarrow> bool" where
  "served_turn d env db out k db0 db1 act ls ma \<longleftrightarrow>
     turn_work work d env db k \<and> ok db0 \<and> view db0 = view db
     \<and> policy d (name_at d k) = Inr (ls, ma)
     \<and> bk_claim be db0 (we_claim_time env k) (we_token env k) ls (Some (name_at d k)) (Some (d_max_events d))
          (d_session d) (Some (d_worker d)) ma = Inr (db1, Some act) \<and> ok db1
     \<and> (let d' = d\<lparr>d_cursor := ((d_cursor d + k) mod length (served_names d) + 1) mod length (served_names d)\<rparr> in
        out = (case serve be d' env db1 (name_at d k) ls act of
                 (db2, Inl e) \<Rightarrow> (db2, d', Inl e) | (db2, Inr r) \<Rightarrow> (db2, d', Inr (Some r))))"

lemma run_names_result:
  assumes "ok db" and d: "dispatcher_ok d" and "set offs \<subseteq> {..<length (served_names d)}" and "distinct offs"
    and "run_names be d env db offs = (db', d', res)"
  shows "(res = Inr None \<and> d' = d \<and> ok db' \<and> view db' = view db \<and> (\<forall>k \<in> set offs. \<not> turn_work work d env db k))
    \<or> (\<exists>pre k rest db0 db1 act ls ma. offs = pre @ k # rest \<and> (\<forall>i \<in> set pre. \<not> turn_work work d env db i)
         \<and> served_turn d env db (db', d', res) k db0 db1 act ls ma)"
  using assms(1,3-5)
proof (induction offs arbitrary: db)
  case Nil
  then show ?case by simp
next
  case (Cons k offs)
  let ?n = "length (served_names d)"
  have k: "k < ?n" using Cons.prems(2) by simp
  then have pos: "0 < ?n" by linarith
  have mem: "name_at d k \<in> set (served_names d)" unfolding name_at_def by (rule nth_mem, rule mod_less_divisor [OF pos])
  obtain ls ma where p: "policy d (name_at d k) = Inr (ls, ma)" "policy_ok (ls, ma)"
    using policy_of_served [OF d mem] by (metis surj_pair)
  have me: "0 < d_max_events d" using d by (simp add: dispatcher_ok_def)
  obtain db1 x where c: "bk_claim be db (we_claim_time env k) (we_token env k) ls (Some (name_at d k))
      (Some (d_max_events d)) (d_session d) (Some (d_worker d)) ma = Inr (db1, x)" "ok db1"
    "x = None \<longleftrightarrow> \<not> work db (we_claim_time env k) (name_at d k) (d_session d) ma"
    using claim_returns [OF Cons.prems(1) p(2) me] by blast
  have tw: "turn_work work d env db k \<longleftrightarrow> x \<noteq> None" using c(3) p(1) by (auto simp: turn_work_def)
  show ?case
  proof (cases x)
    case None
    note e = claim_empty [OF Cons.prems(1) c(1) [unfolded None]]
    have same: "turn_work work d env db1 i = turn_work work d env db i" if "i \<in> set offs" for i
    proof -
      have "i < ?n" "i \<noteq> k" using that Cons.prems(2,3) by auto
      then have "name_at d i \<noteq> name_at d k" using name_at_distinct [OF d _ k] by blast
      then show ?thesis using e by (simp add: turn_work_def split: sum.split)
    qed
    have run: "run_names be d env db1 offs = (db', d', res)"
      using Cons.prems(4) p(1) c(1) None by (simp add: name_at_def)
    have sub: "set offs \<subseteq> {..<?n}" "distinct offs" using Cons.prems(2,3) by simp_all
    show ?thesis
    proof (rule disjE [OF Cons.IH [OF c(2) sub run]], goal_cases)
      case 1
      then have "res = Inr None \<and> d' = d \<and> ok db' \<and> view db' = view db \<and> (\<forall>i \<in> set (k # offs). \<not> turn_work work d env db i)"
        using e tw None same by simp
      then show ?thesis by (rule disjI1)
    next
      case 2
      then obtain pre j rest db0 db2 act ls2 ma2 where q: "offs = pre @ j # rest" "\<forall>i \<in> set pre. \<not> turn_work work d env db1 i"
        "served_turn d env db1 (db', d', res) j db0 db2 act ls2 ma2" by blast
      have "k # offs = (k # pre) @ j # rest" using q(1) by simp
      moreover have "\<forall>i \<in> set (k # pre). \<not> turn_work work d env db i" using q(1,2) same tw None by simp
      moreover have "served_turn d env db (db', d', res) j db0 db2 act ls2 ma2"
        using q(1,3) e same [of j] by (simp add: served_turn_def)
      ultimately show ?thesis by blast
    qed
  next
    case (Some act)
    have "served_turn d env db (db', d', res) k db db1 act ls ma"
      unfolding served_turn_def
      using Cons.prems(1,4) tw p(1) c(1,2) Some by (simp add: name_at_def Let_def)
    moreover have "k # offs = [] @ k # offs" "\<forall>i \<in> set []. \<not> turn_work work d env db i" by simp_all
    ultimately show ?thesis by blast
  qed
qed

text \<open>
  With attempts bounded, one call never raises: it serves the first turn that has work, and only
  when no turn has any it returns nothing.
\<close>

lemma run_once_served:
  assumes ok: "ok db" and d: "dispatcher_ok d" and b: "bounded_attempts d"
    and run: "run_once be d env db = (db', d', res)"
  shows "ok db' \<and> dispatcher_ok d' \<and> served_names d' = served_names d \<and>
    ((res = Inr None \<and> d' = d \<and> view db' = view db \<and> (\<forall>k < length (served_names d). \<not> turn_work work d env db k))
    \<or> (\<exists>k r db0 db1 act ls m target oc. k < length (served_names d) \<and> (\<forall>i < k. \<not> turn_work work d env db i)
         \<and> turn_work work d env db k \<and> ok db0 \<and> view db0 = view db \<and> policy d (name_at d k) = Inr (ls, Some m)
         \<and> bk_claim be db0 (we_claim_time env k) (we_token env k) ls (Some (name_at d k)) (Some (d_max_events d))
              (d_session d) (Some (d_worker d)) (Some m) = Inr (db1, Some act) \<and> int (a_attempt act) \<le> m
         \<and> d_cursor d' = ((d_cursor d + k) mod length (served_names d) + 1) mod length (served_names d)
         \<and> res = Inr (Some r) \<and> call_handler d env (name_at d k) act = Inr (target, oc)
         \<and> step_effect after env (name_at d k) target oc act r (view db1) (view db')))"
proof -
  let ?n = "length (served_names d)"
  have sub: "set [0..<?n] \<subseteq> {..<?n}" "distinct [0..<?n]" by auto
  from run have run': "run_names be d env db [0..<?n] = (db', d', res)" by (simp add: run_once_def)
  show ?thesis
  proof (rule disjE [OF run_names_result [OF ok d sub run']], goal_cases)
    case 1
    then show ?thesis using d by auto
  next
    case 2
    then obtain pre k rest db0 db1 act ls ma where u: "[0..<?n] = pre @ k # rest" "\<forall>i \<in> set pre. \<not> turn_work work d env db i"
      and st: "served_turn d env db (db', d', res) k db0 db1 act ls ma" by blast
    let ?d = "d\<lparr>d_cursor := ((d_cursor d + k) mod ?n + 1) mod ?n\<rparr>"
    from st have q: "turn_work work d env db k" "view db0 = view db" "policy d (name_at d k) = Inr (ls, ma)"
      "bk_claim be db0 (we_claim_time env k) (we_token env k) ls (Some (name_at d k)) (Some (d_max_events d))
            (d_session d) (Some (d_worker d)) ma = Inr (db1, Some act)" "ok db1" "ok db0"
      "(db', d', res) = (case serve be ?d env db1 (name_at d k) ls act of
            (db2, Inl e) \<Rightarrow> (db2, ?d, Inl e) | (db2, Inr r) \<Rightarrow> (db2, ?d, Inr (Some r)))"
      unfolding served_turn_def Let_def by blast+
    note up = upt_split [OF u(1)]
    have k: "k < ?n" and pre: "set pre = {..<k}" using up by auto
    have pos: "0 < ?n" using k by linarith
    have "name_at d k \<in> set (served_names d)" unfolding name_at_def by (rule nth_mem, rule mod_less_divisor [OF pos])
    then obtain m where m: "ma = Some m" "m \<le> 1024"
      using b q(3) unfolding bounded_attempts_def by (fastforce split: option.splits)
    have att: "int (a_attempt act) \<le> m" using claim_within q(4) m(1) by blast
    have d1: "dispatcher_ok ?d" by (rule dispatcher_ok_cursor [OF d], rule mod_less_divisor [OF pos])
    have "name_at d k \<in> set (served_names ?d)" unfolding serving_cursor name_at_def by (rule nth_mem, rule mod_less_divisor [OF pos])
    moreover have "a_attempt act \<le> 1024" using att m(2) by linarith
    ultimately obtain db2 r target oc where s: "serve be ?d env db1 (name_at d k) ls act = (db2, Inr r)" "ok db2"
      "call_handler ?d env (name_at d k) act = Inr (target, oc)"
      "step_effect after env (name_at d k) target oc act r (view db1) (view db2)"
      using serve_effect [OF q(5) d1] by blast
    have out: "db' = db2" "d' = ?d" "res = Inr (Some r)" using q(7) s(1) by simp_all
    have "served_names d' = served_names d" "d_cursor d' = ((d_cursor d + k) mod ?n + 1) mod ?n"
      "call_handler d env (name_at d k) act = Inr (target, oc)"
      using s(3) by (simp_all add: out)
    moreover have "\<forall>i < k. \<not> turn_work work d env db i" using u(2) pre by blast
    ultimately show ?thesis using s(2,4) d1 k q(1-4,6) m(1) att unfolding out by blast
  qed
qed

end

end
