(* ===== verification/Dispatcher_Properties.thy ===== *)
theory Dispatcher_Properties
  imports Dispatcher_Laws Wake_Properties
begin

text \<open>
  The SQLite store as the dispatcher's store, and the properties of the dispatcher over it.
\<close>

subsection \<open>The SQLite store\<close>

definition has_work :: "wake_db \<Rightarrow> rat \<Rightarrow> string \<Rightarrow> string option \<Rightarrow> int option \<Rightarrow> bool" where
  "has_work db now ex sess ma = (\<exists>r \<in> set (candidates db now (Some ex) sess). within_attempts ma r)"

definition lives_after :: "activation \<Rightarrow> checkpoint \<Rightarrow> rat \<Rightarrow> lives \<Rightarrow> lives" where
  "lives_after act c now m = checkpoint_lives (a_session_id act) c now m"

lemma filter_map_untouched:
  "(\<And>x. x \<in> set xs \<Longrightarrow> f x = x \<or> \<not> P x \<and> \<not> P (f x)) \<Longrightarrow> filter P (map f xs) = filter P xs"
proof (induction xs)
  case (Cons x xs)
  from Cons.prems [of x] have "f x = x \<or> \<not> P x \<and> \<not> P (f x)" by simp
  moreover have "filter P (map f xs) = filter P xs" using Cons by simp
  ultimately show ?case by auto
qed simp

lemma candidates_other:
  assumes ids: "distinct (map s_id (sessions d))" and r: "r \<in> set (sessions d)" "s_executable r \<noteq> ex"
  shows "candidates (update_session (s_id r) park_failed d) now (Some ex) sess = candidates d now (Some ex) sess"
proof -
  have "x = r" if "x \<in> set (sessions d)" "s_id x = s_id r" for x
    using that r(1) ids by (meson distinct_map inj_onD)
  moreover have "ready now (update_session (s_id r) park_failed d) = ready now d"
    by (rule ext) (simp add: ready_def)
  moreover have "s_executable (park_failed x) = s_executable x" for x by (simp add: park_failed_def)
  moreover have "sessions (update_session (s_id r) park_failed d) =
      map (\<lambda>x. if s_id x = s_id r then park_failed x else x) (sessions d)" by (simp add: update_session_def)
  ultimately show ?thesis
    unfolding candidates_def using r(2) by (simp only:) (rule filter_map_untouched, auto)
qed

lemma claim_search_other:
  assumes ok: "db_ok db" and run: "claim_search db now (Some ex) sess ma = (db', x)" and ne: "ex' \<noteq> ex"
  shows "candidates db' now' (Some ex') sess' = candidates db now' (Some ex') sess'"
proof -
  have "db_ok db' \<and> candidates db' now' (Some ex') sess' = candidates db now' (Some ex') sess'"
  proof (rule claim_search_preserves [OF run,
      where Q = "\<lambda>d. db_ok d \<and> candidates d now' (Some ex') sess' = candidates db now' (Some ex') sess'"])
    fix d r assume q: "db_ok d \<and> candidates d now' (Some ex') sess' = candidates db now' (Some ex') sess'"
      and r: "r \<in> set (candidates d now (Some ex) sess)"
    from r have "r \<in> set (sessions d)" "s_executable r = ex" by (auto simp: candidates_def)
    with q r ne candidates_other [of d r ex' now' sess'] db_ok_park [of d r] db_ok_ids
    show "db_ok (update_session (s_id r) park_failed d) \<and>
        candidates (update_session (s_id r) park_failed d) now' (Some ex') sess' = candidates db now' (Some ex') sess'"
      by simp
  qed (use ok in simp)
  then show ?thesis ..
qed

lemma local_claim_returns:
  assumes "db_ok db" "policy_ok (ls, ma)" "0 < n"
  shows "\<exists>db' x. claim db now tok ls (Some ex) (Some n) sess wk ma = Inr (db', x) \<and> db_ok db'
     \<and> (x = None \<longleftrightarrow> \<not> has_work db now ex sess ma)"
proof -
  have p: "isfinite ls" "0 < fin_val ls" "\<forall>k. Some n = Some k \<longrightarrow> 0 < k" "\<forall>k. ma = Some k \<longrightarrow> 0 < k"
    using assms(2,3) by (simp_all add: policy_ok_def)
  obtain db' x where run: "claim db now tok ls (Some ex) (Some n) sess wk ma = Inr (db', x)"
    and none: "x = None \<longleftrightarrow> (\<forall>r \<in> set (candidates db now (Some ex) sess). \<not> within_attempts ma r)"
    using claim_none_iff [OF assms(1) p, where now = now and tok = tok and ex = "Some ex" and sess = sess and wk = wk]
    by (elim exE conjE)
  have "x = None \<longleftrightarrow> \<not> has_work db now ex sess ma" using none unfolding has_work_def by blast
  with run db_ok_claim [OF assms(1) run] show ?thesis by (intro exI conjI)
qed

lemma local_claim_empty:
  assumes "db_ok db" "claim db now tok ls (Some ex) me sess wk ma = Inr (db', None)"
  shows "lives db' = lives db \<and> (ex' \<noteq> ex \<longrightarrow> has_work db' now' ex' sess' ma' = has_work db now' ex' sess' ma')"
  using lives_claim_search [OF claim_None [OF assms(2)]] claim_search_other [OF assms(1) claim_None [OF assms(2)]]
  by (simp add: has_work_def)

lemma local_claim_within:
  assumes "claim db now tok ls (Some ex) me sess wk (Some m) = Inr (db', Some act)"
  shows "int (a_attempt act) \<le> m"
proof (rule claim_Some [OF assms])
  fix db1 r assume "claim_search db now (Some ex) sess (Some m) = (db1, Some r)" "a_attempt act = s_attempts r + 1"
  with claim_search_result [of db now "Some ex" sess "Some m" db1 "Some r"] show ?thesis
    by (simp add: within_attempts_def)
qed

interpretation worker: worker_store local_store db_ok lives lives_after has_work
  apply unfold_locales
  subgoal unfolding local_store_ops by (rule local_claim_returns)
  subgoal unfolding local_store_ops by (rule local_claim_empty)
  subgoal unfolding local_store_ops by (rule local_claim_within)
  subgoal unfolding local_store_ops lives_after_def using db_ok_commit lives_commit by blast
  subgoal unfolding local_store_ops using db_ok_release lives_release by blast
  done

lemma claimed_life:
  assumes "db_ok db" and "claim db now tok ls (Some ex) me sess wk ma = Inr (db', Some act)"
  shows "\<exists>l. lives db (a_session_id act) = Some l \<and> l_executable l = ex \<and> a_executable act = ex \<and> a_state act = l_state l
     \<and> (sess = None \<or> sess = Some (a_session_id act))
     \<and> (lives db' = lives db \<or> (\<exists>d. l_deadline l = Some d \<and> d \<le> now \<and>
          lives db' = post (a_session_id act) (timer_text (a_session_id act) (l_revision l))
             (timer_event (a_session_id act) (l_revision l) d) (lives db)))"
proof -
  have "a_executable act = ex \<and> (sess = None \<or> sess = Some (a_session_id act))"
  proof (rule claim_Some [OF assms(2)])
    fix db1 r assume "claim_search db now (Some ex) sess ma = (db1, Some r)"
      "a_session_id act = s_id r" "a_executable act = s_executable r"
    with claimed_row(8) [OF assms(1), of now "Some ex" sess ma db1 r] show ?thesis by (auto simp: candidates_def)
  qed
  moreover obtain l where "lives db (a_session_id act) = Some l" "a_state act = l_state l" "a_executable act = l_executable l"
    "lives db' = (case l_deadline l of Some d \<Rightarrow> if d \<le> now then post (a_session_id act)
        (timer_text (a_session_id act) (l_revision l)) (timer_event (a_session_id act) (l_revision l) d) (lives db)
       else lives db | None \<Rightarrow> lives db)"
    using lives_claim [OF assms] by auto
  ultimately show ?thesis by (auto split: option.splits if_splits)
qed

subsection \<open>A concrete dispatcher\<close>

text \<open>An echo agent that incorporates its batch, and a broken one.\<close>

definition echo_handler :: handler where
  "echo_handler cx st mail =
     (case propose cx st (map (\<lambda>e. case event_key e of None \<Rightarrow> [] | Some k \<Rightarrow> k) mail) None False None of
        Inr p \<Rightarrow> Proposed p | Inl e \<Rightarrow> Raised e)"

definition broken_handler :: handler where
  "broken_handler cx st mail = Raised (ValueError ''boom'')"

definition demo_dispatcher :: "handler \<Rightarrow> dispatcher" where
  "demo_dispatcher h = \<lparr>d_max_events = 64, d_lease = Fin 30, d_max_attempts = Some 3, d_worker = ''w'',
     d_session = None, d_definitions = [(''d:v1'', (h, JObj [(''config'', JObj [])]))], d_upgrades = [],
     d_policies = [(''d:v1'', (Fin 30, Some 3))], d_cursor = 0\<rparr>"

definition demo_env :: wake_env where
  "demo_env = \<lparr>we_claim_time = (\<lambda>_. 5), we_token = (\<lambda>_. ''t1''), we_activation_id = ''x'',
     we_commit_times = (6, 6), we_release_times = (6, 6)\<rparr>"

lemma demo_dispatcher_ok: "dispatcher_ok (demo_dispatcher h) \<and> bounded_attempts (demo_dispatcher h)"
  by (auto simp: dispatcher_ok_def demo_dispatcher_def served_names_def policy_ok_def contract_config_def lookup_def
     bounded_attempts_def policy_def)

subsection \<open>One call\<close>

text \<open>
  C7. A step is all or nothing. When \<open>run_once\<close> reports a result, it claimed one session of the
  first served definition in turn that had work, within its attempts, and called its handler on the
  stored state; if the result is committed, the content of the store is exactly the handler's
  checkpoint applied to what was claimed; if not, nothing changed but the due timer the claim itself
  recorded.
\<close>

theorem step_is_atomic:
  assumes "db_ok db" and "dispatcher_ok d" and "bounded_attempts d"
    and "run_once local_store d env db = (db', d', Inr (Some r))"
  shows "\<exists>k act l m target oc v. k < length (served_names d) \<and> (\<forall>i < k. \<not> turn_work has_work d env db i)
     \<and> lives db (dr_session_id r) = Some l \<and> l_executable l = name_at d k \<and> a_state act = l_state l
     \<and> int (a_attempt act) \<le> m \<and> (\<exists>ls. policy d (name_at d k) = Inr (ls, Some m))
     \<and> call_handler d env (name_at d k) act = Inr (target, oc)
     \<and> (v = lives db \<or> (\<exists>t. l_deadline l = Some t \<and> t \<le> we_claim_time env k \<and>
          v = post (dr_session_id r) (timer_text (dr_session_id r) (l_revision l))
                (timer_event (dr_session_id r) (l_revision l) t) (lives db)))
     \<and> step_effect lives_after env (name_at d k) target oc act r v (lives db')"
proof -
  obtain k db0 db1 act ls m target oc where k: "k < length (served_names d)" "\<forall>i < k. \<not> turn_work has_work d env db i"
    and v: "lives db0 = lives db" and p: "policy d (name_at d k) = Inr (ls, Some m)"
    and c: "claim db0 (we_claim_time env k) (we_token env k) ls (Some (name_at d k)) (Some (d_max_events d))
              (d_session d) (Some (d_worker d)) (Some m) = Inr (db1, Some act)" "int (a_attempt act) \<le> m"
    and h: "call_handler d env (name_at d k) act = Inr (target, oc)"
    and e: "step_effect lives_after env (name_at d k) target oc act r (lives db1) (lives db')"
    and ok0: "db_ok db0"
    using worker.run_once_served [OF assms] by auto
  have s: "dr_session_id r = a_session_id act" using e by (simp add: step_effect_def)
  from claimed_life [OF ok0 c(1)] k p c(2) h e show ?thesis unfolding v s by blast
qed

theorem step_is_atomic_witness:
  "\<exists>db' d' act m target oc v. run_once local_store (demo_dispatcher echo_handler) demo_env demo_db
       = (db', d', Inr (Some \<lparr>dr_session_id = ''a'', dr_committed = True, dr_error = None\<rparr>))
     \<and> call_handler (demo_dispatcher echo_handler) demo_env ''d:v1'' act = Inr (target, oc) \<and> int (a_attempt act) \<le> m
     \<and> step_effect lives_after demo_env ''d:v1'' target oc act
          \<lparr>dr_session_id = ''a'', dr_committed = True, dr_error = None\<rparr> v (lives db')"
proof -
  have "case run_once local_store (demo_dispatcher echo_handler) demo_env demo_db of
      (_, _, Inr (Some r)) \<Rightarrow> r = \<lparr>dr_session_id = ''a'', dr_committed = True, dr_error = None\<rparr> | _ \<Rightarrow> False"
    by code_simp
  then obtain db' d' where run: "run_once local_store (demo_dispatcher echo_handler) demo_env demo_db
       = (db', d', Inr (Some \<lparr>dr_session_id = ''a'', dr_committed = True, dr_error = None\<rparr>))"
    by (auto split: prod.splits sum.splits option.splits)
  have "\<forall>k < length (served_names (demo_dispatcher echo_handler)). name_at (demo_dispatcher echo_handler) k = ''d:v1''"
    by (simp add: served_names_def demo_dispatcher_def name_at_def)
  with step_is_atomic [OF reachable_db_ok [OF demo_reachable] conjunct1 [OF demo_dispatcher_ok]
      conjunct2 [OF demo_dispatcher_ok] run]
  obtain act m target oc v where "int (a_attempt act) \<le> m"
    "call_handler (demo_dispatcher echo_handler) demo_env ''d:v1'' act = Inr (target, oc)"
    "step_effect lives_after demo_env ''d:v1'' target oc act
          \<lparr>dr_session_id = ''a'', dr_committed = True, dr_error = None\<rparr> v (lives db')"
    by metis
  with run show ?thesis by blast
qed

text \<open>
  C9. No ready work is overlooked. With valid policies that bound the attempts a call of \<open>run_once\<close>
  never raises, and it reports nothing exactly when no served definition has a ready session within
  its attempts; then the content of the store is unchanged.
\<close>

theorem no_work_overlooked:
  assumes "db_ok db" and "dispatcher_ok d" and "bounded_attempts d"
    and "run_once local_store d env db = (db', d', res)"
  shows "\<exists>x. res = Inr x \<and> (x = None \<longleftrightarrow> (\<forall>k < length (served_names d). \<not> turn_work has_work d env db k))
     \<and> (x = None \<longrightarrow> lives db' = lives db) \<and> db_ok db' \<and> dispatcher_ok d' \<and> served_names d' = served_names d"
  using worker.run_once_served [OF assms] by auto

theorem no_work_overlooked_witness:
  "\<exists>db' d' r. run_once local_store (demo_dispatcher broken_handler) demo_env demo_db = (db', d', Inr (Some r))"
proof -
  obtain db' d' res where run: "run_once local_store (demo_dispatcher broken_handler) demo_env demo_db = (db', d', res)"
    by (metis prod.exhaust)
  have "turn_work has_work (demo_dispatcher broken_handler) demo_env demo_db 0" by code_simp
  moreover have "0 < length (served_names (demo_dispatcher broken_handler))" by (simp add: served_names_def demo_dispatcher_def)
  ultimately show ?thesis
    using no_work_overlooked [OF reachable_db_ok [OF demo_reachable] conjunct1 [OF demo_dispatcher_ok]
      conjunct2 [OF demo_dispatcher_ok] run] run by blast
qed

subsection \<open>Fairness between definitions\<close>

text \<open>How many turns away the definition with index \<open>j\<close> is.\<close>

definition turns :: "dispatcher \<Rightarrow> nat \<Rightarrow> nat" where
  "turns d j = (j + length (served_names d) - d_cursor d) mod length (served_names d)"

lemma mod_twice: "x < 2 * n \<Longrightarrow> x mod n = (if x < n then x else x - n)" for x n :: nat
  by (simp add: le_mod_geq)

lemma turns_at:
  fixes j n c :: nat
  assumes "j < n" and "c < n"
  shows "(c + (j + n - c) mod n) mod n = j"
  using assms mod_twice [of "j + n - c" n] by (auto simp: le_mod_geq split: if_splits)

lemma turns_next:
  fixes j n c k :: nat
  assumes "j < n" and "c < n" and "k < (j + n - c) mod n"
  shows "(j + n - ((c + k) mod n + 1) mod n) mod n < (j + n - c) mod n"
proof -
  have t: "(j + n - c) mod n = (if c \<le> j then j - c else j + n - c)"
    using assms(1,2) mod_twice [of "j + n - c" n] by (auto split: if_splits)
  have "(j + n - c) mod n < n" using assms(1) by (intro mod_less_divisor) linarith
  with assms(3) have kn: "k < n" by linarith
  have c1: "((c + k) mod n + 1) mod n = (if c + k + 1 < n then c + k + 1 else c + k + 1 - n)"
    using mod_twice [of "c + k + 1" n] assms(2) kn by (simp add: mod_Suc_eq)
  show ?thesis
    unfolding c1 t using assms mod_twice [of "j + n - (if c + k + 1 < n then c + k + 1 else c + k + 1 - n)" n] t
    by (auto split: if_splits)
qed

text \<open>
  C8. Definitions take turns. If a served definition has work at its turn, the call serves a session
  of that definition, or one of another and that definition's turn comes strictly nearer: it waits
  for at most as many steps as there are other definitions.
\<close>

theorem definitions_take_turns:
  assumes "db_ok db" and "dispatcher_ok d" and "bounded_attempts d"
    and "run_once local_store d env db = (db', d', res)"
    and "j < length (served_names d)" and "turn_work has_work d env db (turns d j)"
  shows "\<exists>r l. res = Inr (Some r) \<and> lives db (dr_session_id r) = Some l
     \<and> (l_executable l = served_names d ! j \<or> turns d' j < turns d j)"
proof -
  let ?n = "length (served_names d)"
  have "d_cursor d = 0 \<or> d_cursor d < ?n" using assms(2) unfolding dispatcher_ok_def by blast
  then have c: "d_cursor d < ?n" using assms(5) by linarith
  have at: "name_at d (turns d j) = served_names d ! j"
    using turns_at [OF assms(5) c] by (simp add: name_at_def turns_def)
  have "0 < ?n" using assms(5) by linarith
  then have t: "turns d j < ?n" unfolding turns_def by (rule mod_less_divisor)
  obtain k r db0 db1 act ls m target oc where k: "k < ?n" "\<forall>i < k. \<not> turn_work has_work d env db i"
    and v: "lives db0 = lives db" and ok0: "db_ok db0"
    and cl: "claim db0 (we_claim_time env k) (we_token env k) ls (Some (name_at d k)) (Some (d_max_events d))
              (d_session d) (Some (d_worker d)) (Some m) = Inr (db1, Some act)"
    and cur: "d_cursor d' = ((d_cursor d + k) mod ?n + 1) mod ?n" and res: "res = Inr (Some r)"
    and e: "step_effect lives_after env (name_at d k) target oc act r (lives db1) (lives db')"
    and nm: "served_names d' = served_names d"
    using worker.run_once_served [OF assms(1-4)] assms(6) t by auto
  have s: "dr_session_id r = a_session_id act" using e by (simp add: step_effect_def)
  obtain l where l: "lives db (dr_session_id r) = Some l" "l_executable l = name_at d k"
    using claimed_life [OF ok0 cl] unfolding v s by blast
  have "k \<le> turns d j" using k(2) assms(6) by (meson not_le_imp_less)
  then consider (now) "k = turns d j" | (later) "k < turns d j" by linarith
  then show ?thesis
  proof cases
    case now
    with l res at show ?thesis by auto
  next
    case later
    then have "turns d' j < turns d j"
      using turns_next [OF assms(5) c, of k] unfolding turns_def cur nm by blast
    with l res show ?thesis by blast
  qed
qed

theorem definitions_take_turns_witness:
  "\<exists>db' d' r l. run_once local_store (demo_dispatcher echo_handler) demo_env demo_db = (db', d', Inr (Some r))
     \<and> lives demo_db (dr_session_id r) = Some l"
proof -
  obtain db' d' res where run: "run_once local_store (demo_dispatcher echo_handler) demo_env demo_db = (db', d', res)"
    by (metis prod.exhaust)
  have w: "turn_work has_work (demo_dispatcher echo_handler) demo_env demo_db (turns (demo_dispatcher echo_handler) 0)"
    by code_simp
  have n: "0 < length (served_names (demo_dispatcher echo_handler))" by (simp add: served_names_def demo_dispatcher_def)
  from definitions_take_turns [OF reachable_db_ok [OF demo_reachable] conjunct1 [OF demo_dispatcher_ok]
      conjunct2 [OF demo_dispatcher_ok] run n w] run show ?thesis by fast
qed

subsection \<open>Staged mail and children\<close>

text \<open>
  Staged mail is identified by its sender and key. With an injective digest, two sends get the
  same event ID exactly when session and key agree, whatever the attempt, destination, payload or
  kind, so a retried step republishes under the same IDs and distinct operations never share one;
  a request's ID is its event ID, and its children's IDs differ from the parent's.
\<close>

theorem mail_ids_are_stable:
  assumes "inj digest" and "send digest cx dest payload key kind rid = Inr (cx', eid)"
    and "send digest cy dest2 payload2 key2 kind2 rid2 = Inr (cy', eid2)"
  shows "(eid = eid2 \<longleftrightarrow> cx_session_id cx = cx_session_id cy \<and> key = key2)
     \<and> (\<exists>e. cx_publish cx' = cx_publish cx @ [\<lparr>pub_session_id = dest, pub_event = e\<rparr>] \<and> event_key e = Some eid)
     \<and> \<not> starts_with ''timer:'' eid
     \<and> (\<forall>ex st cz child. spawn_session cx ex st key = Inr (cz, child) \<longrightarrow> child \<noteq> cx_session_id cx)"
proof (intro conjI allI impI)
  have e: "eid = mail_event_id digest (cx_session_id cx) key" "eid2 = mail_event_id digest (cx_session_id cy) key2"
    using assms(2,3) unfolding send_Inr by blast+
  show "eid = eid2 \<longleftrightarrow> cx_session_id cx = cx_session_id cy \<and> key = key2"
    unfolding e by (rule mail_event_id_inj [OF assms(1)])
  show "\<not> starts_with ''timer:'' eid" unfolding e by (rule mail_not_timer)
  show "\<exists>e. cx_publish cx' = cx_publish cx @ [\<lparr>pub_session_id = dest, pub_event = e\<rparr>] \<and> event_key e = Some eid"
    using assms(2) unfolding send_Inr by (elim conjE) (simp add: event_key_Some)
  show "child \<noteq> cx_session_id cx" if "spawn_session cx ex st k = Inr (cz, child)" for ex st k cz child
  proof -
    from that have "child = child_id (cx_session_id cx) k" unfolding spawn_session_Inr by blast
    then show ?thesis using child_not_parent by simp
  qed
qed

definition demo_context :: "nat \<Rightarrow> context_data" where
  "demo_context k = \<lparr>cx_session_id = ''a'', cx_definition = ''d:v1'', cx_upgrading_from = None, cx_attempt = k,
     cx_last_error = None, cx_activation_id = ''x'', cx_config = JObj [], cx_has_more = False, cx_publish = [],
     cx_spawn = []\<rparr>"

theorem mail_ids_are_stable_witness:
  "\<exists>c1 c2 e1 e2. send id (demo_context 1) ''b'' JNull ''hello'' ''message'' None = Inr (c1, e1)
     \<and> send id (demo_context 2) ''c'' (JInt 1) ''hello'' ''message'' None = Inr (c2, e2) \<and> e1 = e2"
proof -
  obtain c1 e1 where s1: "send id (demo_context 1) ''b'' JNull ''hello'' ''message'' None = Inr (c1, e1)"
    by (simp add: send_def json_copy_def Let_def)
  obtain c2 e2 where s2: "send id (demo_context 2) ''c'' (JInt 1) ''hello'' ''message'' None = Inr (c2, e2)"
    by (simp add: send_def json_copy_def Let_def)
  from mail_ids_are_stable [OF inj_on_id s1 s2] s1 s2 show ?thesis by (simp add: demo_context_def)
qed

text \<open>
  Registration keeps the dispatcher sound. A successful registration binds the contract in the
  store, serves the new definition and its superseded ones besides everything served before, each
  name once and with a valid policy; a definition already served or superseded is rejected and
  nothing is bound.
\<close>

theorem registration_is_sound:
  assumes "dispatcher_ok d" and "dict_ok (e_upgrades ex)"
  shows "(\<forall>db' d'. register local_store fd db d ex ls ma = Inr (db', d') \<longrightarrow>
            dispatcher_ok d' \<and> set (served_names d') = set (served_names d) \<union> {e_definition ex} \<union> set (map fst (e_upgrades ex))
            \<and> is_bound db' (e_definition ex) \<and> (\<forall>n \<in> set (served_names d'). \<exists>p. policy d' n = Inr p \<and> policy_ok p))
       \<and> (e_definition ex \<in> set (served_names d) \<or> set (map fst (e_upgrades ex)) \<inter> set (served_names d) \<noteq> {} \<longrightarrow>
            (\<exists>msg. register local_store fd db d ex ls ma = Inl (ValueError msg)))"
proof (rule conjI; intro allI impI)
  fix db' d' assume run: "register local_store fd db d ex ls ma = Inr (db', d')"
  note r = register_ok [OF assms(1) run assms(2)]
  from r(3) obtain ct where "bind_definition db (e_definition ex) ct = Inr db'" by auto
  then have "is_bound db' (e_definition ex)"
    by (auto simp: bind_definition_def Let_def is_bound_def map_add_def split: if_splits option.splits)
  moreover have "set (served_names d') = set (served_names d) \<union> {e_definition ex} \<union> set (map fst (e_upgrades ex))"
    unfolding r(2) by (auto simp: served_names_def)
  ultimately show "dispatcher_ok d' \<and> set (served_names d') = set (served_names d) \<union> {e_definition ex} \<union> set (map fst (e_upgrades ex))
      \<and> is_bound db' (e_definition ex) \<and> (\<forall>n \<in> set (served_names d'). \<exists>p. policy d' n = Inr p \<and> policy_ok p)"
    using r(1) policy_of_served [OF r(1)] by blast
next
  assume "e_definition ex \<in> set (served_names d) \<or> set (map fst (e_upgrades ex)) \<inter> set (served_names d) \<noteq> {}"
  then have "serves d (e_definition ex) \<or> first_served d (map fst (e_upgrades ex)) \<noteq> None"
    using find_None_serves serves_iff by blast
  then show "\<exists>msg. register local_store fd db d ex ls ma = Inl (ValueError msg)"
    by (auto simp: register_def Let_def)
qed

definition demo_executable :: executable where
  "demo_executable = \<lparr>e_definition = ''echo:v2'',
     e_resume = \<lparr>co_run = echo_handler, co_sync = True, co_qualname = ''resume'', co_source = Some ''echo.py''\<rparr>,
     e_state_schema = JInt 1, e_config = JObj [], e_development = JBool False, e_resources = [],
     e_upgrades = [(''echo:v1'', \<lparr>co_run = echo_handler, co_sync = True, co_qualname = ''up'', co_source = None\<rparr>)]\<rparr>"

theorem registration_is_sound_witness:
  "\<exists>db' d'. register local_store id empty_db (demo_dispatcher echo_handler) demo_executable None (Some 2) = Inr (db', d')
     \<and> dispatcher_ok d' \<and> ''echo:v1'' \<in> set (served_names d')"
proof -
  have "case register local_store id empty_db (demo_dispatcher echo_handler) demo_executable None (Some 2) of
      Inr _ \<Rightarrow> True | _ \<Rightarrow> False" by code_simp
  then obtain db' d' where r: "register local_store id empty_db (demo_dispatcher echo_handler) demo_executable None (Some 2)
      = Inr (db', d')" by (auto split: sum.splits)
  have u: "dict_ok (e_upgrades demo_executable)" by (simp add: demo_executable_def dict_ok_def)
  from registration_is_sound [OF conjunct1 [OF demo_dispatcher_ok] u] r show ?thesis
    by (auto simp: demo_executable_def)
qed

text \<open>
  Past 1024 attempts, which an unbounded policy allows, the power of two of the backoff no longer
  fits a float: \<open>_release\<close> raises out of \<open>run_once\<close> instead of releasing the step.
\<close>

lemma unbounded_backoff_overflows:
  "a_attempt act = 1025 \<Longrightarrow> release_step be env db act e ls
     = (db, Inl (OtherError ''OverflowError'' ''int too large to convert to float''))"
  by (simp add: release_step_def backoff_def)

end
