(* ===== verification/Exchanges.thy ===== *)
theory Exchanges
  imports Executables
begin

text \<open>
  The pending-exchange table of a session (\<open>entourage/exchanges.py\<close>). Entries are mutable
  dictionaries that a matched reply shares with the table, so they live in a heap: the table maps a
  request ID to an address, and a reply carries the address of the entry it matched. An entry
  type extends \<open>exchange_entry\<close>; the table's operations work for any extension.
\<close>

subsection \<open>Tables\<close>

record exchange_entry =
  en_to :: string
  en_label :: string

record 'e table =
  tb_index :: "(string \<times> nat) list"
  tb_heap :: "'e list"

record reply_mail =
  rp_request_id :: string
  rp_label :: string
  rp_source :: string
  rp_payload :: json
  rp_event :: dict
  rp_kind :: string
  rp_entry :: nat

text \<open>\<open>state.setdefault(key, {})\<close> on the restored state: one address per saved entry.\<close>

definition load_table :: "(string \<times> 'e) list \<Rightarrow> 'e table" where
  "load_table saved = \<lparr>tb_index = zip (map fst saved) [0..<length saved], tb_heap = map snd saved\<rparr>"

definition saved_table :: "'e table \<Rightarrow> (string \<times> 'e) list" where
  "saved_table t = map (\<lambda>(r, a). (r, tb_heap t ! a)) (tb_index t)"

definition entry_of :: "'e table \<Rightarrow> string \<Rightarrow> 'e option" where
  "entry_of t r = map_option (\<lambda>a. tb_heap t ! a) (map_of (tb_index t) r)"

text \<open>\<open>self.table[request_id] = entry\<close>: a new object.\<close>

definition put_entry :: "string \<Rightarrow> 'e \<Rightarrow> 'e table \<Rightarrow> 'e table" where
  "put_entry r e t = \<lparr>tb_index = AList.update r (length (tb_heap t)) (tb_index t), tb_heap = tb_heap t @ [e]\<rparr>"

definition del_entry :: "string \<Rightarrow> 'e table \<Rightarrow> 'e table" where
  "del_entry r t = t\<lparr>tb_index := AList.delete r (tb_index t)\<rparr>"

definition set_entry :: "nat \<Rightarrow> ('e \<Rightarrow> 'e) \<Rightarrow> 'e table \<Rightarrow> 'e table" where
  "set_entry a f t = t\<lparr>tb_heap := (tb_heap t)[a := f (tb_heap t ! a)]\<rparr>"

subsection \<open>Operations\<close>

definition exchange_request ::
    "(string \<Rightarrow> string) \<Rightarrow> context_data \<Rightarrow> exchange_entry table \<Rightarrow> string \<Rightarrow> json \<Rightarrow> string \<Rightarrow> string option
       \<Rightarrow> (context_data \<times> exchange_entry table \<times> string) res" where
  "exchange_request digest cx t destination payload key label =
     rbind (request digest cx destination payload key) (\<lambda>(cx', rid).
       Inr (cx', put_entry rid \<lparr>en_to = destination,
              en_label = (case label of None \<Rightarrow> key | Some l \<Rightarrow> if l = [] then key else l)\<rparr> t, rid))"

definition exchange_call ::
    "(string \<Rightarrow> string) \<Rightarrow> context_data \<Rightarrow> exchange_entry table \<Rightarrow> string \<Rightarrow> json \<Rightarrow> json \<Rightarrow> string \<Rightarrow> string option
       \<Rightarrow> (context_data \<times> exchange_entry table \<times> string) res" where
  "exchange_call digest cx t executable st payload key label =
     rbind (spawn_session cx executable st key) (\<lambda>(cx1, child).
     rbind (exchange_request digest cx1 t child payload key label) (\<lambda>(cx2, t', _). Inr (cx2, t', child)))"

definition reply_kinds :: "string list" where
  "reply_kinds = [''result'', ''ask'', ''progress'']"

text \<open>\<open>self.table.get(event.get("request_id"))\<close>: an unhashable value raises.\<close>

definition pending_of :: "'e table \<Rightarrow> dict \<Rightarrow> (string \<times> nat) option res" where
  "pending_of t event =
     (case map_of event ''request_id'' of
        Some (JStr r) \<Rightarrow> Inr (map_option (\<lambda>a. (r, a)) (map_of (tb_index t) r))
      | Some (JList _) \<Rightarrow> Inl (TypeError ''unhashable type'')
      | Some (JObj _) \<Rightarrow> Inl (TypeError ''unhashable type'')
      | _ \<Rightarrow> Inr None)"

definition event_kind :: "dict \<Rightarrow> string option" where
  "event_kind event = (case map_of event ''kind'' of Some (JStr k) \<Rightarrow> Some k | _ \<Rightarrow> None)"

definition payload_of :: "dict \<Rightarrow> json" where
  "payload_of event = (case map_of event ''payload'' of None \<Rightarrow> JNull | Some p \<Rightarrow> p)"

text \<open>The reply an event is, if it matches an entry by kind, request ID and sender.\<close>

definition matched_reply :: "'a exchange_entry_scheme table \<Rightarrow> dict \<Rightarrow> reply_mail option res" where
  "matched_reply t event =
     (case event_kind event of
        None \<Rightarrow> Inr None
      | Some kind \<Rightarrow>
          if kind \<notin> set reply_kinds then Inr None
          else rbind (pending_of t event) (\<lambda>p. Inr (case p of
            None \<Rightarrow> None
          | Some (r, a) \<Rightarrow>
              let entry = tb_heap t ! a in
              if map_of event ''source'' \<noteq> Some (JStr (en_to entry)) then None
              else Some \<lparr>rp_request_id = r, rp_label = en_label entry, rp_source = en_to entry,
                rp_payload = payload_of event, rp_event = event, rp_kind = kind, rp_entry = a\<rparr>)))"

text \<open>One turn of the ingestion loop.\<close>

definition ingest_event ::
    "'a exchange_entry_scheme table \<times> reply_mail list \<times> dict list \<Rightarrow> dict
       \<Rightarrow> ('a exchange_entry_scheme table \<times> reply_mail list \<times> dict list) res" where
  "ingest_event acc event =
     (case acc of (t, replies, others) \<Rightarrow>
        rbind (matched_reply t event) (\<lambda>m. Inr (case m of
          None \<Rightarrow> (t, replies, others @ [event])
        | Some r \<Rightarrow> (if rp_kind r = ''result'' then del_entry (rp_request_id r) t else t,
                     replies @ [r], others))))"

definition ingest ::
    "'a exchange_entry_scheme table \<Rightarrow> dict list
       \<Rightarrow> ('a exchange_entry_scheme table \<times> reply_mail list \<times> dict list) res" where
  "ingest t mail = fold_res ingest_event (t, [], []) mail"

definition drop_destination :: "'a exchange_entry_scheme table \<Rightarrow> string \<Rightarrow> 'a exchange_entry_scheme table \<times> string list" where
  "drop_destination t destination =
     (let dropped = filter (\<lambda>(r, a). en_to (tb_heap t ! a) = destination) (tb_index t)
      in (foldl (\<lambda>t r. del_entry r t) t (map fst dropped), map (\<lambda>(r, a). en_label (tb_heap t ! a)) dropped))"

definition table_len :: "'e table \<Rightarrow> nat" where
  "table_len t = length (tb_index t)"

definition table_bool :: "'e table \<Rightarrow> bool" where
  "table_bool t = (tb_index t \<noteq> [])"

subsection \<open>Laws\<close>

definition table_ok :: "'e table \<Rightarrow> bool" where
  "table_ok t \<longleftrightarrow> dict_ok (tb_index t) \<and> distinct (map snd (tb_index t))
     \<and> (\<forall>(r, a) \<in> set (tb_index t). a < length (tb_heap t))"

lemma load_table_ok: "dict_ok saved \<Longrightarrow> table_ok (load_table saved)"
  by (auto simp: table_ok_def load_table_def dict_ok_def dest: set_zip_rightD)

lemma saved_load: "saved_table (load_table saved) = saved"
  by (rule nth_equalityI) (auto simp: saved_table_def load_table_def)

lemma snd_update_new: "a \<notin> set (map snd d) \<Longrightarrow> distinct (map snd d) \<Longrightarrow> distinct (map snd (AList.update r a d))
    \<and> set (map snd (AList.update r a d)) \<subseteq> insert a (set (map snd d))"
  by (induction d) auto

lemma table_ok_addr: "table_ok t \<Longrightarrow> map_of (tb_index t) r = Some a \<Longrightarrow> a < length (tb_heap t)"
  by (auto simp: table_ok_def dest!: map_of_SomeD)

lemma put_entry_ok:
  assumes "table_ok t"
  shows "table_ok (put_entry r e t)"
proof -
  have b: "\<forall>a \<in> set (map snd (tb_index t)). a < length (tb_heap t)" using assms by (auto simp: table_ok_def)
  then have n: "length (tb_heap t) \<notin> set (map snd (tb_index t))" by auto
  note s = snd_update_new [OF n, of r]
  have "\<forall>a \<in> set (map snd (AList.update r (length (tb_heap t)) (tb_index t))). a < Suc (length (tb_heap t))"
    using s b assms by (fastforce simp: table_ok_def)
  with s assms show ?thesis by (auto simp: table_ok_def put_entry_def)
qed

lemma entry_put [simp]:
  "table_ok t \<Longrightarrow> entry_of (put_entry r e t) x = (if x = r then Some e else entry_of t x)"
  by (auto simp: entry_of_def put_entry_def nth_append dest: table_ok_addr intro!: map_option_cong)

lemma del_entry_ok: "table_ok t \<Longrightarrow> table_ok (del_entry r t)"
proof -
  have del: "AList.delete r d = filter (\<lambda>(k, v). k \<noteq> r) d" for d :: "(string \<times> nat) list"
    by (induction d) auto
  assume "table_ok t"
  then show ?thesis
    unfolding table_ok_def del_entry_def by (auto simp: del distinct_map_filter dict_ok_def)
qed

lemma entry_del [simp]: "entry_of (del_entry r t) x = (if x = r then None else entry_of t x)"
  by (simp add: entry_of_def del_entry_def)

lemma heap_del [simp]: "tb_heap (del_entry r t) = tb_heap t"
  by (simp add: del_entry_def)

lemma set_entry_ok: "table_ok t \<Longrightarrow> table_ok (set_entry a f t)"
  by (auto simp: table_ok_def set_entry_def)

lemma entry_set:
  "table_ok t \<Longrightarrow> map_of (tb_index t) r = Some a \<Longrightarrow>
     entry_of (set_entry a f t) x = (if x = r then map_option f (entry_of t x) else entry_of t x)"
proof -
  assume ok: "table_ok t" and r: "map_of (tb_index t) r = Some a"
  have "x = r" if "map_of (tb_index t) x = Some a"
  proof -
    have "(x, a) \<in> set (tb_index t)" "(r, a) \<in> set (tb_index t)" using that r by (auto dest: map_of_SomeD)
    with ok show ?thesis by (fastforce simp: table_ok_def distinct_map inj_on_def)
  qed
  with r table_ok_addr [OF ok r] show ?thesis
    by (cases "map_of (tb_index t) x") (auto simp: entry_of_def set_entry_def nth_list_update)
qed

lemma pending_of_Some:
  "pending_of t event = Inr (Some (r, a)) \<longleftrightarrow>
     map_of event ''request_id'' = Some (JStr r) \<and> map_of (tb_index t) r = Some a"
  by (auto simp: pending_of_def split: option.splits json.splits)

text \<open>What a reply says about the table it was matched against.\<close>

definition reply_of :: "'a exchange_entry_scheme table \<Rightarrow> reply_mail \<Rightarrow> bool" where
  "reply_of t r \<longleftrightarrow>
     map_of (tb_index t) (rp_request_id r) = Some (rp_entry r)
     \<and> rp_source r = en_to (tb_heap t ! rp_entry r) \<and> rp_label r = en_label (tb_heap t ! rp_entry r)
     \<and> map_of (rp_event r) ''source'' = Some (JStr (rp_source r))
     \<and> map_of (rp_event r) ''request_id'' = Some (JStr (rp_request_id r))
     \<and> event_kind (rp_event r) = Some (rp_kind r) \<and> rp_kind r \<in> set reply_kinds
     \<and> rp_payload r = payload_of (rp_event r)"

lemma matched_Some:
  assumes "matched_reply t event = Inr (Some r)"
  shows "reply_of t r \<and> rp_event r = event"
proof -
  from assms obtain k where k: "event_kind event = Some k" "k \<in> set reply_kinds"
    by (auto simp: matched_reply_def split: option.splits if_splits)
  with assms obtain x a where p: "pending_of t event = Inr (Some (x, a))"
    by (auto simp: matched_reply_def result_simps split: option.splits)
  with k assms have "map_of event ''source'' = Some (JStr (en_to (tb_heap t ! a)))"
    and "r = \<lparr>rp_request_id = x, rp_label = en_label (tb_heap t ! a), rp_source = en_to (tb_heap t ! a),
                rp_payload = payload_of event, rp_event = event, rp_kind = k, rp_entry = a\<rparr>"
    by (simp_all add: matched_reply_def Let_def split: if_splits)
  with k p show ?thesis by (simp add: reply_of_def pending_of_Some)
qed

lemma ingest_event_step:
  "matched_reply t event = Inr m \<Longrightarrow> ingest_event (t, rs, os) event = Inr (case m of
      None \<Rightarrow> (t, rs, os @ [event])
    | Some r \<Rightarrow> (if rp_kind r = ''result'' then del_entry (rp_request_id r) t else t, rs @ [r], os))"
  by (simp add: ingest_event_def)

lemma matched_None:
  "matched_reply t event = Inr None \<Longrightarrow> event_kind event = Some k \<Longrightarrow> k \<in> set reply_kinds \<Longrightarrow>
     map_of event ''request_id'' = Some (JStr x) \<Longrightarrow> map_of (tb_index t) x = Some a \<Longrightarrow>
     map_of event ''source'' \<noteq> Some (JStr (en_to (tb_heap t ! a)))"
  by (auto simp: matched_reply_def result_simps pending_of_def Let_def split: if_splits)

definition closed_by :: "reply_mail list \<Rightarrow> string list" where
  "closed_by rs = map rp_request_id (filter (\<lambda>r. rp_kind r = ''result'') rs)"

lemma delete_filter: "AList.delete r d = filter (\<lambda>(k, v). k \<noteq> r) d"
  by (induction d) auto

lemma map_of_filter_out: "map_of (filter (\<lambda>(k, v). k \<notin> S) d) x = (if x \<in> S then None else map_of d x)"
  by (induction d) auto

text \<open>
  A batch is split in order into replies and the rest; every reply matched an entry of the table the
  batch started from; and the table lost exactly the requests that got a result, each once.
\<close>

lemma ingest_split:
  assumes "fold_res ingest_event (t, rs, os) mail = Inr (t', rs', os')"
  shows "\<exists>rs1 os1. rs' = rs @ rs1 \<and> os' = os @ os1 \<and> mail \<in> shuffles (map rp_event rs1) os1
     \<and> tb_heap t' = tb_heap t \<and> tb_index t' = filter (\<lambda>(k, v). k \<notin> set (closed_by rs1)) (tb_index t)
     \<and> distinct (closed_by rs1) \<and> (\<forall>r \<in> set rs1. reply_of t r)"
  using assms
proof (induction mail arbitrary: t rs os)
  case Nil
  then show ?case by (intro exI [of _ "[]"]) (simp add: closed_by_def)
next
  case (Cons ev mail)
  from Cons.prems obtain m where m: "matched_reply t ev = Inr m"
    by (auto simp: ingest_event_def result_simps)
  show ?case
  proof (cases m)
    case None
    with Cons.prems have "fold_res ingest_event (t, rs, os @ [ev]) mail = Inr (t', rs', os')"
      by (simp add: ingest_event_step [OF m])
    from Cons.IH [OF this] obtain rs1 os1 where q: "rs' = rs @ rs1" "os' = (os @ [ev]) @ os1"
      "mail \<in> shuffles (map rp_event rs1) os1" "tb_heap t' = tb_heap t"
      "tb_index t' = filter (\<lambda>(k, v). k \<notin> set (closed_by rs1)) (tb_index t)" "distinct (closed_by rs1)"
      "\<forall>r \<in> set rs1. reply_of t r" by blast
    have "ev # mail \<in> shuffles (map rp_event rs1) (ev # os1)" using q(3) by (rule Cons_in_shuffles_rightI)
    with q show ?thesis by (intro exI [of _ rs1] exI [of _ "ev # os1"]) simp
  next
    case (Some r)
    note r = matched_Some [OF m [unfolded Some]]
    let ?t = "if rp_kind r = ''result'' then del_entry (rp_request_id r) t else t"
    from Cons.prems Some have "fold_res ingest_event (?t, rs @ [r], os) mail = Inr (t', rs', os')"
      by (simp add: ingest_event_step [OF m])
    from Cons.IH [OF this] obtain rs1 os1 where q: "rs' = (rs @ [r]) @ rs1" "os' = os @ os1"
      "mail \<in> shuffles (map rp_event rs1) os1" "tb_heap t' = tb_heap ?t"
      "tb_index t' = filter (\<lambda>(k, v). k \<notin> set (closed_by rs1)) (tb_index ?t)" "distinct (closed_by rs1)"
      "\<forall>r \<in> set rs1. reply_of ?t r" by blast
    have "ev # mail \<in> shuffles (ev # map rp_event rs1) os1" using q(3) by (rule Cons_in_shuffles_leftI)
    moreover have "\<forall>x \<in> set rs1. reply_of t x"
      using q(7) by (auto simp: reply_of_def del_entry_def split: if_splits)
    moreover have "rp_kind r = ''result'' \<Longrightarrow> rp_request_id r \<notin> set (closed_by rs1)"
      using q(7) by (auto simp: reply_of_def del_entry_def closed_by_def)
    moreover have "tb_index t' = filter (\<lambda>(k, v). k \<notin> set (closed_by (r # rs1))) (tb_index t)"
      using q(5) by (auto simp: closed_by_def del_entry_def delete_filter intro!: filter_cong)
    ultimately show ?thesis
      using q r by (intro exI [of _ "r # rs1"] exI [of _ os1]) (simp add: closed_by_def)
  qed
qed

end
