(* ===== verification/Panel.thy ===== *)
theory Panel
  imports Exchanges
begin

text \<open>
  The panel of called work (\<open>entourage/panel.py\<close>, class \<open>Panel\<close>) and the tools that start it
  (\<open>entourage/deferred_tools.py\<close>). A panel entry extends an exchange entry; the panel's ingestion
  updates the entries its replies point to, through the addresses they share with the table.
\<close>

subsection \<open>Entries\<close>

record panel_entry = exchange_entry +
  pe_mode :: string
  pe_status :: json
  pe_tool_call_id :: "string option"
  pe_until :: "rat option"
  pe_interruptible :: bool
  pe_question :: json
  pe_progress :: json
  pe_fenced :: bool
  pe_grants :: "string list option"

type_synonym panel = "panel_entry table"

definition panel_open ::
    "(string \<Rightarrow> string) \<Rightarrow> context_data \<Rightarrow> panel \<Rightarrow> string \<Rightarrow> json \<Rightarrow> json \<Rightarrow> string \<Rightarrow> string \<Rightarrow> string
       \<Rightarrow> string option \<Rightarrow> rat option \<Rightarrow> bool \<Rightarrow> (context_data \<times> panel \<times> string) res" where
  "panel_open digest cx p executable child_state payload key label mode tool_call_id until interruptible =
     (if mode \<notin> {''wait'', ''connected''}
      then Inl (ValueError (''mode must be wait or connected, not '' @ repr_str mode))
      else rbind (spawn_session cx executable child_state key) (\<lambda>(cx1, child).
        rbind (request digest cx1 child payload key) (\<lambda>(cx2, rid).
          Inr (cx2, put_entry rid \<lparr>en_to = child, en_label = label, pe_mode = mode, pe_status = JStr ''working'',
            pe_tool_call_id = tool_call_id, pe_until = until, pe_interruptible = interruptible,
            pe_question = JNull, pe_progress = JNull, pe_fenced = False,
            pe_grants = None\<rparr> p, rid))))"

subsection \<open>Ingestion\<close>

text \<open>\<open>(payload or {}).get(key, default)\<close>: a truthy payload that is no dictionary has no \<open>get\<close>.\<close>

definition payload_get :: "json \<Rightarrow> string \<Rightarrow> json \<Rightarrow> json res" where
  "payload_get payload k dflt =
     (if \<not> truthy payload then Inr dflt
      else case payload of JObj d \<Rightarrow> Inr (dict_get d k dflt)
        | _ \<Rightarrow> Inl (OtherError ''AttributeError'' ''get''))"

definition note_reply :: "panel \<Rightarrow> reply_mail \<Rightarrow> panel res" where
  "note_reply p r =
     (let a = rp_entry r in
      if pe_status (tb_heap p ! a) = JStr ''cancelled'' then Inr (set_entry a (\<lambda>e. e\<lparr>pe_fenced := True\<rparr>) p)
      else if rp_kind r = ''ask'' then
        rbind (payload_get (rp_payload r) ''text'' JNull) (\<lambda>q.
          Inr (set_entry a (\<lambda>e. e\<lparr>pe_status := JStr ''input_required'', pe_question := q\<rparr>) p))
      else if rp_kind r = ''progress'' then
        rbind (payload_get (rp_payload r) ''text'' JNull) (\<lambda>q. Inr (set_entry a (\<lambda>e. e\<lparr>pe_progress := q\<rparr>) p))
      else
        rbind (payload_get (rp_payload r) ''status'' (JStr ''completed'')) (\<lambda>s.
          Inr (set_entry a (\<lambda>e. e\<lparr>pe_status := s\<rparr>) p)))"

definition panel_ingest :: "panel \<Rightarrow> dict list \<Rightarrow> (panel \<times> reply_mail list \<times> dict list) res" where
  "panel_ingest p mail =
     rbind (ingest p mail) (\<lambda>(p1, replies, others).
     rbind (fold_res note_reply p1 replies) (\<lambda>p2. Inr (p2, replies, others)))"

subsection \<open>Lookup and budgets\<close>

definition panel_items :: "panel \<Rightarrow> (string \<times> nat) list" where
  "panel_items p = tb_index p"

definition find_work :: "panel \<Rightarrow> string \<Rightarrow> (string \<times> nat) option" where
  "find_work p work = find (\<lambda>(r, a). en_to (tb_heap p ! a) = work) (panel_items p)"

definition waiting :: "panel \<Rightarrow> (string \<times> nat) list" where
  "waiting p = filter (\<lambda>(r, a). pe_mode (tb_heap p ! a) = ''wait'') (panel_items p)"

definition due :: "panel \<Rightarrow> rat \<Rightarrow> string list" where
  "due p now = map fst (filter (\<lambda>(r, a). case pe_until (tb_heap p ! a) of None \<Rightarrow> False | Some t \<Rightarrow> t \<le> now) (waiting p))"

definition budgets :: "panel \<Rightarrow> rat list" where
  "budgets p = List.map_filter (\<lambda>(r, a). pe_until (tb_heap p ! a)) (waiting p)"

definition next_deadline :: "panel \<Rightarrow> rat option" where
  "next_deadline p = min_by id (budgets p)"

definition address_of :: "panel \<Rightarrow> string \<Rightarrow> nat res" where
  "address_of p r = (case map_of (tb_index p) r of None \<Rightarrow> Inl (KeyError r) | Some a \<Rightarrow> Inr a)"

definition promote :: "panel \<Rightarrow> string \<Rightarrow> (panel \<times> nat) res" where
  "promote p r = rbind (address_of p r) (\<lambda>a. Inr (set_entry a (\<lambda>e. e\<lparr>pe_mode := ''connected''\<rparr>) p, a))"

subsection \<open>Controls\<close>

definition steer ::
    "(string \<Rightarrow> string) \<Rightarrow> context_data \<Rightarrow> panel \<Rightarrow> string \<Rightarrow> string \<Rightarrow> string \<Rightarrow> (context_data \<times> string) res" where
  "steer digest cx p r words key =
     rbind (address_of p r) (\<lambda>a.
       send digest cx (en_to (tb_heap p ! a)) (JObj [(''text'', JStr words)]) key ''steer'' (Some (JStr r)))"

definition answer ::
    "(string \<Rightarrow> string) \<Rightarrow> context_data \<Rightarrow> panel \<Rightarrow> string \<Rightarrow> string \<Rightarrow> string \<Rightarrow> (context_data \<times> panel \<times> string) res" where
  "answer digest cx p r words key =
     rbind (address_of p r) (\<lambda>a.
       let p' = set_entry a (\<lambda>e. e\<lparr>pe_status := JStr ''working'', pe_question := JNull\<rparr>) p in
       rbind (send digest cx (en_to (tb_heap p ! a)) (JObj [(''text'', JStr words)]) key ''answer'' (Some (JStr r)))
         (\<lambda>(cx', eid). Inr (cx', p', eid)))"

definition cancel ::
    "(string \<Rightarrow> string) \<Rightarrow> context_data \<Rightarrow> panel \<Rightarrow> string \<Rightarrow> string \<Rightarrow> (context_data \<times> panel \<times> string) res" where
  "cancel digest cx p r key =
     rbind (address_of p r) (\<lambda>a.
       let p' = set_entry a (\<lambda>e. e\<lparr>pe_status := JStr ''cancelled'', pe_mode := ''connected''\<rparr>) p in
       rbind (send digest cx (en_to (tb_heap p ! a)) (JObj []) key ''cancel'' (Some (JStr r)))
         (\<lambda>(cx', eid). Inr (cx', p', eid)))"

definition fail_one :: "panel \<times> (string \<times> nat) list \<Rightarrow> string \<times> nat \<Rightarrow> panel \<times> (string \<times> nat) list" where
  "fail_one acc item =
     (case (acc, item) of ((p, failed), (r, a)) \<Rightarrow>
        let p1 = del_entry r p in
        if pe_status (tb_heap p1 ! a) \<noteq> JStr ''cancelled''
        then (set_entry a (\<lambda>e. e\<lparr>pe_status := JStr ''failed''\<rparr>) p1, failed @ [(r, a)]) else (p1, failed))"

definition fail_work :: "panel \<Rightarrow> string \<Rightarrow> panel \<times> (string \<times> nat) list" where
  "fail_work p work =
     foldl fail_one (p, []) (filter (\<lambda>(r, a). en_to (tb_heap p ! a) = work) (panel_items p))"

subsection \<open>Tools\<close>

text \<open>
  A tool is its name and its \<open>execute\<close> function: an exception, text, a pending provider, or other
  JSON data the runner encodes with \<open>encode\<close> (\<open>json.dumps\<close> of a value).
\<close>

datatype tool_value = ToolText string | ToolPending string json | ToolJson json

type_synonym tool = "json \<Rightarrow> py_error + tool_value"

definition lifted :: "string \<Rightarrow> string \<Rightarrow> tool" where
  "lifted name runner arguments = Inr (ToolPending runner (JObj [(''name'', JStr name), (''arguments'', arguments)]))"

text \<open>\<open>run_tool\<close>: \<open>Inl\<close> text, \<open>Inr\<close> a pending provider.\<close>

definition run_tool ::
    "(json \<Rightarrow> string res) \<Rightarrow> (string \<times> tool) list \<Rightarrow> string \<Rightarrow> json \<Rightarrow> string + (string \<times> json)" where
  "run_tool encode tools name arguments =
     (case map_of tools name of
        None \<Rightarrow> Inl (''Tool error: unknown tool '' @ repr_str name)
      | Some tool \<Rightarrow>
          (case rbind (tool arguments) (\<lambda>v. case v of ToolText t \<Rightarrow> Inr (Inl t) | ToolPending d p \<Rightarrow> Inr (Inr (d, p))
                | ToolJson j \<Rightarrow> rbind (encode j) (\<lambda>t. Inr (Inl t))) of
             Inr x \<Rightarrow> x
           | Inl e \<Rightarrow> Inl (''Tool error ('' @ error_class e @ ''): '' @ error_text e)))"

text \<open>\<open>ToolRunner.resume\<close>: the work is under \<open>state["work"]\<close>; the handler's state is a dictionary.\<close>

definition runner_event :: "json \<times> dict \<Rightarrow> dict \<Rightarrow> (json \<times> dict) res" where
  "runner_event acc event =
     (case acc of (work, st) \<Rightarrow>
        rbind (str_field event ''kind'') (\<lambda>kind.
          if kind = ''request'' \<and> work = JNull then
            let w = JObj [(''status'', JStr ''working''), (''request'', JObj event)] in Inr (w, AList.update ''work'' w st)
          else if kind = ''system'' \<and> map_of event ''source'' = Some (JStr ''timer'') then Inr (work, st)
          else rbind (str_field event ''event_id'') (\<lambda>eid.
            Inl (ValueError (''unexpected mail '' @ repr_str eid @ '' of kind '' @ repr_str kind)))))"

definition obj_field :: "json \<Rightarrow> string \<Rightarrow> json res" where
  "obj_field v k = (case v of JObj d \<Rightarrow> (case map_of d k of None \<Rightarrow> Inl (KeyError k) | Some w \<Rightarrow> Inr w)
     | _ \<Rightarrow> Inl (TypeError ''not subscriptable''))"

definition json_dict :: "json \<Rightarrow> dict res" where
  "json_dict v = (case v of JObj d \<Rightarrow> Inr d | _ \<Rightarrow> Inl (TypeError ''not a mapping''))"

definition event_ids :: "dict list \<Rightarrow> string list res" where
  "event_ids mail = fold_res (\<lambda>acc e. rbind (str_field e ''event_id'') (\<lambda>i. Inr (acc @ [i]))) [] mail"

definition tool_runner ::
    "(string \<Rightarrow> string) \<Rightarrow> (json \<Rightarrow> string res) \<Rightarrow> (string \<times> tool) list \<Rightarrow> context_data \<Rightarrow> dict \<Rightarrow> dict list \<Rightarrow> proposal res" where
  "tool_runner digest encode tools cx st mail =
     rbind (fold_res runner_event (dict_get st ''work'' JNull, st) mail) (\<lambda>(work, st1).
     rbind (event_ids mail) (\<lambda>ids.
       if cx_has_more cx \<or> work = JNull then propose cx (JObj st1) ids None False None
       else
         rbind (obj_field work ''request'') (\<lambda>req.
         rbind (obj_field req ''payload'') (\<lambda>payload.
         rbind (obj_field payload ''name'') (\<lambda>name.
         rbind (obj_field payload ''arguments'') (\<lambda>arguments.
           let result = (case run_tool encode tools (str_of name) arguments of
                           Inl t \<Rightarrow> t
                         | Inr _ \<Rightarrow> ''Tool error: a lifted tool must return a final result, not Pending'') in
           rbind (json_dict work) (\<lambda>w.
           rbind (json_dict req) (\<lambda>rq.
             let st2 = AList.update ''work'' (JObj (AList.update ''status'' (JStr ''completed'') w)) st1 in
             rbind (reply digest cx rq (JObj [(''text'', JStr result)]) ''result'') (\<lambda>(cx', _).
               propose cx' (JObj st2) ids None True None)))))))))"

subsection \<open>Laws of the panel\<close>

lemma heap_set [simp]: "tb_index (set_entry a f p) = tb_index p" "length (tb_heap (set_entry a f p)) = length (tb_heap p)"
  by (simp_all add: set_entry_def)

lemma heap_set_nth:
  "a < length (tb_heap p) \<Longrightarrow> tb_heap (set_entry a f p) ! b = (if b = a then f (tb_heap p ! a) else tb_heap p ! b)"
  by (simp add: set_entry_def nth_list_update)

lemma note_reply_shape:
  assumes "note_reply p r = Inr p'"
  shows "\<exists>f. p' = set_entry (rp_entry r) f p \<and> (\<forall>e. en_to (f e) = en_to e \<and> pe_mode (f e) = pe_mode e
      \<and> pe_until (f e) = pe_until e)
    \<and> (pe_status (tb_heap p ! rp_entry r) = JStr ''cancelled'' \<longrightarrow>
         f (tb_heap p ! rp_entry r) = (tb_heap p ! rp_entry r)\<lparr>pe_fenced := True\<rparr>)"
  using assms by (auto simp: note_reply_def Let_def result_simps split: if_splits)

text \<open>A cancelled entry keeps its status through any replies; the replies only fence it.\<close>

lemma note_replies_fence:
  assumes "fold_res note_reply p rs = Inr p'" and "pe_status (tb_heap p ! a) = JStr ''cancelled''"
    and "\<forall>r \<in> set rs. rp_entry r < length (tb_heap p)"
  shows "tb_heap p' ! a = (if \<exists>r \<in> set rs. rp_entry r = a then (tb_heap p ! a)\<lparr>pe_fenced := True\<rparr> else tb_heap p ! a)
    \<and> tb_index p' = tb_index p"
  using assms
proof (induction rs arbitrary: p)
  case (Cons r rs)
  from Cons.prems(1) obtain p1 where p1: "note_reply p r = Inr p1" "fold_res note_reply p1 rs = Inr p'"
    by (auto simp: result_simps)
  from note_reply_shape [OF p1(1)] obtain f where f: "p1 = set_entry (rp_entry r) f p"
    "pe_status (tb_heap p ! rp_entry r) = JStr ''cancelled'' \<longrightarrow>
         f (tb_heap p ! rp_entry r) = (tb_heap p ! rp_entry r)\<lparr>pe_fenced := True\<rparr>" by blast
  have l: "rp_entry r < length (tb_heap p)" using Cons.prems(3) by simp
  have h: "tb_heap p1 ! a = (if rp_entry r = a then (tb_heap p ! a)\<lparr>pe_fenced := True\<rparr> else tb_heap p ! a)"
    using f Cons.prems(2) heap_set_nth [OF l, of f a] by auto
  with Cons.prems(2) have "pe_status (tb_heap p1 ! a) = JStr ''cancelled''" by simp
  from Cons.IH [OF p1(2) this] Cons.prems(3) f(1) h show ?case by auto
qed simp

lemma min_by_id: "min_by id xs = Some t \<Longrightarrow> t \<in> set xs \<and> (\<forall>x \<in> set xs. t \<le> x)"
  using min_by_Some [of id xs t] by simp

lemma budgets_set: "t \<in> set (budgets p) \<longleftrightarrow> (\<exists>r a. (r, a) \<in> set (waiting p) \<and> pe_until (tb_heap p ! a) = Some t)"
proof -
  have "set (List.map_filter f xs) = {y. \<exists>x \<in> set xs. f x = Some y}" for f :: "string \<times> nat \<Rightarrow> rat option" and xs
    by (induction xs) (auto simp: map_filter_simps split: option.splits)
  then show ?thesis by (force simp: budgets_def)
qed

lemma due_iff_deadline: "due p now \<noteq> [] \<longleftrightarrow> (\<exists>t. next_deadline p = Some t \<and> t \<le> now)"
proof
  assume "due p now \<noteq> []"
  then obtain r a t where "(r, a) \<in> set (waiting p)" "pe_until (tb_heap p ! a) = Some t" "t \<le> now"
    by (auto simp: due_def filter_empty_conv split: option.splits)
  then have t: "t \<in> set (budgets p)" "t \<le> now" by (auto simp: budgets_set)
  then obtain u where "next_deadline p = Some u" unfolding next_deadline_def by (metis empty_iff empty_set min_by_None not_None_eq)
  with t min_by_id [of "budgets p" u] show "\<exists>t. next_deadline p = Some t \<and> t \<le> now"
    by (fastforce simp: next_deadline_def)
next
  assume "\<exists>t. next_deadline p = Some t \<and> t \<le> now"
  then obtain t where "t \<in> set (budgets p)" "t \<le> now" using min_by_id by (fastforce simp: next_deadline_def)
  then show "due p now \<noteq> []" by (auto simp: budgets_set due_def filter_empty_conv intro!: bexI)
qed

lemma fold_fail:
  assumes "foldl fail_one (p, acc) items = (p', acc')" and "distinct (map snd items)"
    and "\<forall>(r, a) \<in> set items. a < length (tb_heap p)"
  shows "tb_index p' = filter (\<lambda>(k, v). k \<notin> set (map fst items)) (tb_index p)
    \<and> acc' = acc @ filter (\<lambda>(r, a). pe_status (tb_heap p ! a) \<noteq> JStr ''cancelled'') items"
  using assms
proof (induction items arbitrary: p acc)
  case (Cons it items)
  obtain r a where it: "it = (r, a)" by (cases it)
  let ?c = "pe_status (tb_heap p ! a) = JStr ''cancelled''"
  let ?p = "if ?c then del_entry r p else set_entry a (\<lambda>e. e\<lparr>pe_status := JStr ''failed''\<rparr>) (del_entry r p)"
  let ?acc = "if ?c then acc else acc @ [(r, a)]"
  have step: "fail_one (p, acc) it = (?p, ?acc)" by (simp add: fail_one_def it Let_def)
  have l: "a < length (tb_heap p)" using Cons.prems(3) by (simp add: it)
  have len: "length (tb_heap ?p) = length (tb_heap p)" by simp
  have same: "tb_heap ?p ! b = tb_heap p ! b" if "b \<noteq> a" for b
    using that l heap_set_nth [of a "del_entry r p"] by simp
  from Cons.prems(1) step have run: "foldl fail_one (?p, ?acc) items = (p', acc')" by simp
  have "\<forall>(r, a) \<in> set items. a < length (tb_heap ?p)" using Cons.prems(3) len by auto
  note ih = Cons.IH [OF run _ this]
  have idx: "tb_index ?p = filter (\<lambda>(k, v). k \<noteq> r) (tb_index p)" by (simp add: del_entry_def delete_filter)
  have "filter (\<lambda>(r, a). pe_status (tb_heap ?p ! a) \<noteq> JStr ''cancelled'') items
      = filter (\<lambda>(r, a). pe_status (tb_heap p ! a) \<noteq> JStr ''cancelled'') items"
    using Cons.prems(2) same by (intro filter_cong) (force simp: it)+
  with ih Cons.prems(2) show ?case
    unfolding idx by (auto simp: it intro!: filter_cong)
qed simp

subsection \<open>Properties\<close>

definition demo_entry :: panel_entry where
  "demo_entry = \<lparr>en_to = ''child'', en_label = ''l'', pe_mode = ''wait'', pe_status = JStr ''cancelled'',
     pe_tool_call_id = None, pe_until = Some 5, pe_interruptible = True, pe_question = JNull, pe_progress = JNull,
     pe_fenced = False, pe_grants = None\<rparr>"

definition demo_panel :: panel where
  "demo_panel = load_table [(''r1'', demo_entry)]"

definition result_event :: dict where
  "result_event = [(''event_id'', JStr ''e1''), (''kind'', JStr ''result''), (''source'', JStr ''child''),
     (''request_id'', JStr ''r1''), (''payload'', JObj [(''status'', JStr ''completed'')])]"

lemma demo_panel_ok: "table_ok demo_panel"
  unfolding demo_panel_def by (rule load_table_ok) (simp add: dict_ok_def)



text \<open>
  Cancellation is a fence. However many questions, progress reports or results arrive for a
  cancelled entry, in whatever order, its status stays cancelled; the only change is the fence mark,
  set exactly when one arrived.
\<close>

theorem cancel_is_a_fence:
  assumes "table_ok p" and "panel_ingest p mail = Inr (p', replies, others)"
    and "map_of (tb_index p) r = Some a" and "pe_status (tb_heap p ! a) = JStr ''cancelled''"
  shows "tb_heap p' ! a = (if \<exists>x \<in> set replies. rp_entry x = a then (tb_heap p ! a)\<lparr>pe_fenced := True\<rparr> else tb_heap p ! a)
     \<and> (\<forall>x \<in> set replies. rp_request_id x = r \<longrightarrow> rp_entry x = a)"
proof -
  from assms(2) obtain p1 where i: "ingest p mail = Inr (p1, replies, others)" and n: "fold_res note_reply p1 replies = Inr p'"
    by (auto simp: panel_ingest_def result_simps)
  from ingest_split [OF i [unfolded ingest_def]] have h: "tb_heap p1 = tb_heap p"
    and rs: "\<forall>x \<in> set replies. reply_of p x" by auto
  have b: "\<forall>x \<in> set replies. rp_entry x < length (tb_heap p1)"
    using rs table_ok_addr [OF assms(1)] by (auto simp: reply_of_def h)
  have st: "pe_status (tb_heap p1 ! a) = JStr ''cancelled''" using assms(4) h by simp
  from note_replies_fence [OF n st b] rs assms(3) h show ?thesis by (auto simp: reply_of_def)
qed

theorem cancel_is_a_fence_witness:
  "\<exists>p' replies. panel_ingest demo_panel [result_event] = Inr (p', replies, [])
     \<and> tb_heap p' ! 0 = demo_entry\<lparr>pe_fenced := True\<rparr>"
proof -
  have "case panel_ingest demo_panel [result_event] of Inr (p', [x], []) \<Rightarrow> rp_entry x = 0 | _ \<Rightarrow> False" by code_simp
  then obtain p' x where i: "panel_ingest demo_panel [result_event] = Inr (p', [x], [])" "rp_entry x = 0"
    by (auto split: sum.splits prod.splits list.splits)
  have m: "map_of (tb_index demo_panel) ''r1'' = Some 0" by (simp add: demo_panel_def load_table_def)
  have e: "tb_heap demo_panel ! 0 = demo_entry" by (simp add: demo_panel_def load_table_def)
  have s: "pe_status (tb_heap demo_panel ! 0) = JStr ''cancelled''" by (simp add: e demo_entry_def)
  from cancel_is_a_fence [OF demo_panel_ok i(1) m s] i e show ?thesis by auto
qed

text \<open>
  The wake time is the first budget. A wait is due exactly when the panel's next deadline has
  passed; promoting a pending request takes it off the waits and leaves every other entry as it was.
\<close>

theorem budgets_wake_in_time:
  shows "(due p now \<noteq> [] \<longleftrightarrow> (\<exists>t. next_deadline p = Some t \<and> t \<le> now))
     \<and> (table_ok p \<longrightarrow> promote p r = Inr (p', a) \<longrightarrow>
          r \<notin> set (map fst (waiting p')) \<and> r \<notin> set (due p' now) \<and> (\<forall>x. x \<noteq> r \<longrightarrow> entry_of p' x = entry_of p x))"
proof (intro conjI impI allI)
  show "due p now \<noteq> [] \<longleftrightarrow> (\<exists>t. next_deadline p = Some t \<and> t \<le> now)" by (rule due_iff_deadline)
  assume ok: "table_ok p" and run: "promote p r = Inr (p', a)"
  then have a: "map_of (tb_index p) r = Some a" and p': "p' = set_entry a (\<lambda>e. e\<lparr>pe_mode := ''connected''\<rparr>) p"
    by (auto simp: promote_def result_simps address_of_def split: option.splits)
  have l: "a < length (tb_heap p)" by (rule table_ok_addr [OF ok a])
  have u: "b = a" if "(r, b) \<in> set (tb_index p)" for b
    using that a dict_ok_map_of [of "tb_index p" r b] ok by (simp add: table_ok_def)
  show w: "r \<notin> set (map fst (waiting p'))"
    using u heap_set_nth [OF l] by (auto simp: waiting_def panel_items_def p')
  then show "r \<notin> set (due p' now)" by (auto simp: due_def)
  show "entry_of p' x = entry_of p x" if "x \<noteq> r" for x
    using entry_set [OF ok a] that by (simp add: p')
qed

theorem budgets_wake_in_time_witness:
  "\<exists>p'. promote demo_panel ''r1'' = Inr (p', 0) \<and> due demo_panel 5 \<noteq> [] \<and> ''r1'' \<notin> set (due p' 5)"
proof -
  obtain p' where p: "promote demo_panel ''r1'' = Inr (p', 0)"
    by (simp add: promote_def address_of_def demo_panel_def load_table_def)
  have "due demo_panel 5 \<noteq> []" by code_simp
  with budgets_wake_in_time [of demo_panel 5 "''r1''" p' 0] demo_panel_ok p show ?thesis by blast
qed

text \<open>
  A reported failure closes all work of that session. After \<open>fail\<close> no entry addressed to the
  session is left, entries addressed elsewhere stay, and what is returned is exactly the closed
  entries that were not cancelled.
\<close>

theorem failure_closes_all:
  assumes "table_ok p" and "fail_work p work = (p', failed)"
  shows "tb_index p' = filter (\<lambda>(r, a). en_to (tb_heap p ! a) \<noteq> work) (tb_index p)
     \<and> failed = filter (\<lambda>(r, a). en_to (tb_heap p ! a) = work \<and> pe_status (tb_heap p ! a) \<noteq> JStr ''cancelled'') (tb_index p)"
proof -
  let ?items = "filter (\<lambda>(r, a). en_to (tb_heap p ! a) = work) (tb_index p)"
  have d: "distinct (map snd ?items)" "\<forall>(r, a) \<in> set ?items. a < length (tb_heap p)"
    using assms(1) by (auto simp: table_ok_def distinct_map_filter)
  from fold_fail [OF assms(2) [unfolded fail_work_def panel_items_def] d]
  have i: "tb_index p' = filter (\<lambda>(k, v). k \<notin> set (map fst ?items)) (tb_index p)"
    and f: "failed = filter (\<lambda>(r, a). pe_status (tb_heap p ! a) \<noteq> JStr ''cancelled'') ?items" by simp_all
  have u: "a = b" if "(r, a) \<in> set (tb_index p)" "(r, b) \<in> set (tb_index p)" for r a b
    using that assms(1) dict_ok_map_of [of "tb_index p" r] by (simp add: table_ok_def)
  have "filter (\<lambda>(k, v). k \<notin> set (map fst ?items)) (tb_index p)
      = filter (\<lambda>(r, a). en_to (tb_heap p ! a) \<noteq> work) (tb_index p)"
  proof (rule filter_cong)
    fix x assume x: "x \<in> set (tb_index p)"
    obtain k v where kv: "x = (k, v)" by (cases x)
    have "k \<in> set (map fst ?items) \<longleftrightarrow> en_to (tb_heap p ! v) = work"
    proof
      assume "k \<in> set (map fst ?items)"
      then obtain b where "(k, b) \<in> set (tb_index p)" "en_to (tb_heap p ! b) = work" by auto
      with u [of k v b] x kv show "en_to (tb_heap p ! v) = work" by simp
    next
      assume "en_to (tb_heap p ! v) = work"
      with x kv have "(k, v) \<in> set ?items" by simp
      then show "k \<in> set (map fst ?items)" unfolding set_map by (rule rev_image_eqI) simp
    qed
    then show "(case x of (k, v) \<Rightarrow> k \<notin> set (map fst ?items)) = (case x of (r, a) \<Rightarrow> en_to (tb_heap p ! a) \<noteq> work)"
      by (simp add: kv)
  qed simp
  with i f show ?thesis by (auto intro!: filter_cong)
qed

theorem failure_closes_all_witness:
  "tb_index (fst (fail_work demo_panel ''child'')) = [] \<and> snd (fail_work demo_panel ''child'') = []"
  using failure_closes_all [OF demo_panel_ok, of "''child''" "fst (fail_work demo_panel ''child'')"
      "snd (fail_work demo_panel ''child'')"]
  by (simp add: demo_panel_def load_table_def demo_entry_def)

end
