(* ===== verification/Turn.thy ===== *)
theory Turn
  imports Panel
begin

text \<open>
  The chat agent (\<open>entourage/turn.py\<close>): one model call per activation, with tools, delegation pipes
  and a job for a caller. The model call \<open>complete\<close>, the JSON decoder \<open>parse\<close> of call arguments,
  the encoder of tool results and the formatting of non-scalar values are parameters of the agent.
  The handler's state is a record; its JSON form is not modelled.
\<close>

subsection \<open>Provider messages\<close>

text \<open>\<open>message_dict\<close>: the attributes of a provider's message, absent ones read as \<open>None\<close>.\<close>

datatype call_object = CallDict json | CallModel json | CallObject json json json

record message_object =
  mo_role :: json
  mo_content :: json
  mo_tool_calls :: "call_object list"

definition tool_call_dict :: "call_object \<Rightarrow> json" where
  "tool_call_dict c = (case c of CallDict d \<Rightarrow> d | CallModel d \<Rightarrow> d
     | CallObject i n a \<Rightarrow> JObj [(''id'', i), (''type'', JStr ''function''),
         (''function'', JObj [(''name'', n), (''arguments'', a)])])"

definition message_dict :: "message_object \<Rightarrow> dict" where
  "message_dict m =
     [(''role'', if truthy (mo_role m) then mo_role m else JStr ''assistant''), (''content'', mo_content m)]
     @ (if mo_tool_calls m = [] then [] else [(''tool_calls'', JList (map tool_call_dict (mo_tool_calls m)))])"

subsection \<open>Pipes and schemas\<close>

record pipe =
  pp_name :: string
  pp_definition :: string
  pp_description :: string
  pp_modes :: "string list"
  pp_budget :: "rat option"
  pp_interruptible :: bool
  pp_grants :: "string list"

definition new_pipe ::
    "string \<Rightarrow> string \<Rightarrow> string option \<Rightarrow> string list \<Rightarrow> rat option \<Rightarrow> bool \<Rightarrow> string list \<Rightarrow> pipe res" where
  "new_pipe name executable description modes budget interruptible grants =
     (if modes = [] \<or> \<not> set modes \<subseteq> {''wait'', ''connected''}
      then Inl (ValueError ''modes must be wait and/or connected'')
      else Inr \<lparr>pp_name = name, pp_definition = executable,
        pp_description = (case description of
            None \<Rightarrow> ''Delegate a task to '' @ executable @ ''.''
          | Some t \<Rightarrow> if t = [] then ''Delegate a task to '' @ executable @ ''.'' else t),
        pp_modes = modes, pp_budget = budget, pp_interruptible = interruptible, pp_grants = grants\<rparr>)"

definition tool_schema :: "string \<Rightarrow> string \<Rightarrow> dict \<Rightarrow> string list \<Rightarrow> json" where
  "tool_schema name description properties required =
     JObj [(''type'', JStr ''function''), (''function'', JObj
       [(''name'', JStr name), (''description'', JStr description),
        (''parameters'', JObj [(''type'', JStr ''object''), (''properties'', JObj properties),
           (''required'', JList (map JStr required))])])]"

definition string_property :: json where
  "string_property = JObj [(''type'', JStr ''string'')]"

definition pipe_schema :: "pipe \<Rightarrow> json" where
  "pipe_schema p = tool_schema (pp_name p) (pp_description p)
     ([(''task'', JObj [(''type'', JStr ''string''), (''description'', JStr ''What the worker should do.'')])]
      @ (if length (pp_modes p) = 2
         then [(''background'', JObj [(''type'', JStr ''boolean''), (''description'',
                 JStr ''True to go on and take the result as a message; false to wait for it.'')])] else []))
     [''task'']"

definition panel_tools :: "(string \<times> json) list" where
  "panel_tools =
     [(''steer'', tool_schema ''steer'' ''Send an instruction to running work.''
         [(''work'', string_property), (''text'', string_property)] [''work'', ''text'']),
      (''cancel'', tool_schema ''cancel'' ''Cancel running work; a late result is discarded.''
         [(''work'', string_property)] [''work'']),
      (''answer'', tool_schema ''answer'' ''Answer a question running work has asked.''
         [(''work'', string_property), (''text'', string_property)] [''work'', ''text''])]"

definition ask_tool :: json where
  "ask_tool = tool_schema ''ask_caller''
     ''Ask whoever gave you this task a question; their answer arrives as a message.''
     [(''text'', string_property)] [''text'']"

subsection \<open>Agent and state\<close>

record job =
  jb_status :: string
  jb_request_id :: string
  jb_reply_to :: string

record chat_state =
  cs_messages :: "dict list"
  cs_panel :: panel
  cs_deferred :: "dict list"
  cs_buffered :: "dict list"
  cs_work :: "job option"

datatype prompt = NoPrompt | TextPrompt string | CallPrompt "context_data \<Rightarrow> chat_state \<Rightarrow> string"

record agent =
  ag_complete :: "dict list \<Rightarrow> json list \<Rightarrow> json res"
  ag_tools :: "(string \<times> tool) list"
  ag_pipes :: "(string \<times> pipe) list"
  ag_schemas :: "json list"
  ag_system_prompt :: prompt
  ag_output :: "string option"
  ag_digest :: "string \<Rightarrow> string"
  ag_encode :: "json \<Rightarrow> string res"
  ag_parse :: "string \<Rightarrow> json res"
  ag_format :: "json \<Rightarrow> string"

definition granted :: "agent \<Rightarrow> string list" where
  "granted ag = concat (map (\<lambda>(n, p). pp_grants p) (ag_pipes ag))"

text \<open>The schemas an agent shows: its tools', its pipes', and the controls some pipe grants.\<close>

definition agent_schemas :: "json list \<Rightarrow> pipe list \<Rightarrow> json list" where
  "agent_schemas tool_schemas pipes =
     tool_schemas @ map pipe_schema pipes
     @ map snd (filter (\<lambda>(n, s). n \<in> set (concat (map pp_grants pipes))) panel_tools)"

definition new_agent ::
    "(dict list \<Rightarrow> json list \<Rightarrow> json res) \<Rightarrow> (string \<times> json \<times> tool) list \<Rightarrow> prompt \<Rightarrow> string option \<Rightarrow> pipe list
       \<Rightarrow> (string \<Rightarrow> string) \<Rightarrow> (json \<Rightarrow> string res) \<Rightarrow> (string \<Rightarrow> json res) \<Rightarrow> (json \<Rightarrow> string) \<Rightarrow> agent" where
  "new_agent call_model tools instruction output pipes digest encode parse form =
     \<lparr>ag_complete = call_model,
      ag_tools = fold (\<lambda>(n, s, t). AList.update n t) tools [],
      ag_pipes = fold (\<lambda>p. AList.update (pp_name p) p) pipes [],
      ag_schemas = agent_schemas (map (\<lambda>(n, s, t). s) tools) pipes,
      ag_system_prompt = instruction, ag_output = output, ag_digest = digest, ag_encode = encode,
      ag_parse = parse, ag_format = form\<rparr>"

text \<open>A value in an f-string; \<open>form\<close> formats floats, lists and objects.\<close>

definition display :: "agent \<Rightarrow> json \<Rightarrow> string" where
  "display ag v = (case v of JStr s \<Rightarrow> s | JNull \<Rightarrow> ''None'' | JBool b \<Rightarrow> (if b then ''True'' else ''False'')
     | JInt i \<Rightarrow> int_text i | _ \<Rightarrow> ag_format ag v)"

text \<open>What \<open>context.propose\<close> stages: the context, the state and the wake condition.\<close>

record chat_proposal =
  cp_context :: context_data
  cp_state :: chat_state
  cp_incorporated :: "string list"
  cp_deadline :: "rat option"
  cp_complete :: bool

definition chat_propose ::
    "context_data \<Rightarrow> chat_state \<Rightarrow> string list \<Rightarrow> rat option \<Rightarrow> bool \<Rightarrow> chat_proposal" where
  "chat_propose cx st incorporated deadline completed =
     \<lparr>cp_context = cx, cp_state = st, cp_incorporated = incorporated, cp_deadline = deadline, cp_complete = completed\<rparr>"

definition open_job :: "chat_state \<Rightarrow> job option" where
  "open_job st = (case cs_work st of None \<Rightarrow> None
     | Some j \<Rightarrow> if jb_status j \<in> {''working'', ''input_required''} then Some j else None)"

subsection \<open>Ingestion\<close>

definition tool_message :: "string option \<Rightarrow> string \<Rightarrow> json \<Rightarrow> dict" where
  "tool_message call_id name content =
     [(''role'', JStr ''tool''), (''tool_call_id'', case call_id of None \<Rightarrow> JNull | Some i \<Rightarrow> JStr i),
      (''name'', JStr name), (''content'', content)]"

definition user_message :: "json \<Rightarrow> dict" where
  "user_message content = [(''role'', JStr ''user''), (''content'', content)]"

definition defer_to_tool :: "nat \<Rightarrow> json \<Rightarrow> chat_state \<Rightarrow> chat_state" where
  "defer_to_tool a content st =
     (let e = tb_heap (cs_panel st) ! a in
      st\<lparr>cs_deferred := cs_deferred st @ [tool_message (pe_tool_call_id e) (en_label e) content]\<rparr>)"

definition promote_at :: "nat \<Rightarrow> chat_state \<Rightarrow> chat_state" where
  "promote_at a st = st\<lparr>cs_panel := set_entry a (\<lambda>e. e\<lparr>pe_mode := ''connected''\<rparr>) (cs_panel st)\<rparr>"

definition still_running :: "panel_entry \<Rightarrow> json" where
  "still_running e = JStr (''still running as work '' @ en_to e @ '' ('' @ en_label e @ ''); the result arrives as a message'')"

definition interrupt_one :: "chat_state \<Rightarrow> string \<times> nat \<Rightarrow> chat_state" where
  "interrupt_one st item =
     (case item of (r, a) \<Rightarrow>
        let e = tb_heap (cs_panel st) ! a in
        if pe_interruptible e then defer_to_tool a (still_running e) (promote_at a st) else st)"

definition deliver_message :: "dict \<Rightarrow> chat_state \<Rightarrow> chat_state" where
  "deliver_message message st =
     (let st' = foldl interrupt_one st (waiting (cs_panel st))
      in st'\<lparr>cs_buffered := cs_buffered st' @ [message]\<rparr>)"

text \<open>\<open>_settle\<close>; \<open>content\<close> is a value, formatted when it becomes part of a user message.\<close>

definition settle :: "agent \<Rightarrow> string \<Rightarrow> nat \<Rightarrow> json \<Rightarrow> chat_state \<Rightarrow> chat_state" where
  "settle ag r a content st =
     (let e = tb_heap (cs_panel st) ! a in
      if pe_mode e = ''wait'' then
        let st' = (if map_of (tb_index (cs_panel st)) r \<noteq> None \<and> pe_status e \<noteq> JStr ''completed''
                   then promote_at a st else st)
        in defer_to_tool a content st'
      else deliver_message (user_message (JStr (''['' @ display ag content @ '']''))) st)"

definition fold_reply :: "agent \<Rightarrow> chat_state \<Rightarrow> reply_mail \<Rightarrow> chat_state res" where
  "fold_reply ag st r =
     rbind (payload_get (rp_payload r) ''text'' JNull) (\<lambda>t.
       let a = rp_entry r; e = tb_heap (cs_panel st) ! a; words = (if truthy t then t else JStr []) in
       if pe_fenced e then Inr st
       else if rp_kind r = ''progress'' then Inr st
       else if rp_kind r = ''ask'' then
         Inr (settle ag (rp_request_id r) a (JStr (''work '' @ en_to e @ '' ('' @ en_label e @ '') asks: '' @ display ag words
            @ '' (reply with answer, work='' @ repr_str (en_to e) @ '')'')) st)
       else Inr (settle ag (rp_request_id r) a
          (if pe_mode e = ''connected'' \<or> pe_status e \<noteq> JStr ''completed''
           then JStr (''work '' @ en_to e @ '' ('' @ en_label e @ '') '' @ display ag (pe_status e) @ '': '' @ display ag words)
           else words) st))"

definition settle_failed :: "agent \<Rightarrow> chat_state \<Rightarrow> string \<times> nat \<Rightarrow> chat_state" where
  "settle_failed ag st item =
     (case item of (r, a) \<Rightarrow>
        let e = tb_heap (cs_panel st) ! a in
        settle ag r a (JStr (''work '' @ en_to e @ '' ('' @ en_label e @ '') failed'')) st)"

definition event_text :: "dict \<Rightarrow> json res" where
  "event_text event = rbind (case map_of event ''payload'' of None \<Rightarrow> Inl (KeyError ''payload'') | Some p \<Rightarrow> Inr p)
     (\<lambda>p. obj_field p ''text'')"

text \<open>\<open>event.get("payload", {}).get("failed")\<close>.\<close>

definition failed_work :: "dict \<Rightarrow> json res" where
  "failed_work event = (case map_of event ''payload'' of None \<Rightarrow> Inr JNull
     | Some (JObj p) \<Rightarrow> Inr (dict_get p ''failed'' JNull) | Some _ \<Rightarrow> Inl (OtherError ''AttributeError'' ''get''))"

text \<open>One piece of ordinary mail: it goes on, or the job was cancelled and the session finishes.\<close>

datatype mail_step = Continue chat_state | Cancelled chat_state

definition take_mail :: "agent \<Rightarrow> chat_state \<Rightarrow> dict \<Rightarrow> mail_step res" where
  "take_mail ag st event =
     (let kind = event_kind event in
      if kind \<in> {Some ''user'', Some ''message'', Some ''steer'', Some ''answer''} then
        rbind (event_text event) (\<lambda>t. Inr (Continue (deliver_message (user_message t) st)))
      else if kind = Some ''request'' then
        rbind (str_field event ''request_id'') (\<lambda>rid.
        rbind (str_field event ''reply_to'') (\<lambda>to.
        rbind (event_text event) (\<lambda>t.
          Inr (Continue (deliver_message (user_message t)
            (st\<lparr>cs_work := Some \<lparr>jb_status = ''working'', jb_request_id = rid, jb_reply_to = to\<rparr>\<rparr>))))))
      else if kind = Some ''cancel'' \<and> open_job st \<noteq> None then Inr (Cancelled st)
      else if kind = Some ''system'' \<and> map_of event ''source'' = Some (JStr ''timer'') then Inr (Continue st)
      else if kind = Some ''system'' then
        rbind (failed_work event) (\<lambda>w.
          if \<not> truthy w
          then Inl (ValueError ''unexpected mail of kind system'')
          else (case w of
            JStr work \<Rightarrow>
              let (p, failed) = fail_work (cs_panel st) work
              in Inr (Continue (foldl (settle_failed ag) (st\<lparr>cs_panel := p\<rparr>) failed))
          | _ \<Rightarrow> Inr (Continue st)))
      else Inl (ValueError ''unexpected mail''))"

fun take_others :: "agent \<Rightarrow> chat_state \<Rightarrow> dict list \<Rightarrow> mail_step res" where
  "take_others ag st [] = Inr (Continue st)"
| "take_others ag st (event # events) =
     rbind (take_mail ag st event) (\<lambda>step. case step of
       Continue st' \<Rightarrow> take_others ag st' events | Cancelled st' \<Rightarrow> Inr (Cancelled st'))"

definition promote_due :: "chat_state \<Rightarrow> string \<Rightarrow> chat_state" where
  "promote_due st r =
     (case map_of (tb_index (cs_panel st)) r of
        None \<Rightarrow> st
      | Some a \<Rightarrow> let st' = promote_at a st in defer_to_tool a (still_running (tb_heap (cs_panel st) ! a)) st')"

definition flush :: "chat_state \<Rightarrow> chat_state" where
  "flush st =
     (if waiting (cs_panel st) \<noteq> [] then st
      else st\<lparr>cs_messages := cs_messages st @ cs_deferred st @ cs_buffered st, cs_deferred := [], cs_buffered := []\<rparr>)"

subsection \<open>Finishing and the model call\<close>

definition finish_job ::
    "agent \<Rightarrow> context_data \<Rightarrow> chat_state \<Rightarrow> string list \<Rightarrow> json \<Rightarrow> string \<Rightarrow> chat_proposal res" where
  "finish_job ag cx st incorporated content status =
     (case cs_work st of
        None \<Rightarrow> Inl (KeyError ''work'')
      | Some j \<Rightarrow>
          rbind (reply (ag_digest ag) cx
              [(''request_id'', JStr (jb_request_id j)), (''reply_to'', JStr (jb_reply_to j))]
              (JObj [(''text'', content), (''status'', JStr status)]) ''result'') (\<lambda>(cx', _).
            Inr (chat_propose cx' (st\<lparr>cs_work := Some (j\<lparr>jb_status := status\<rparr>)\<rparr>) incorporated None True)))"

definition ensure_system_prompt :: "agent \<Rightarrow> context_data \<Rightarrow> chat_state \<Rightarrow> chat_state" where
  "ensure_system_prompt ag cx st =
     (let prompted = (cs_messages st \<noteq> [] \<and> map_of (hd (cs_messages st)) ''role'' = Some (JStr ''system''));
          put = (\<lambda>words. st\<lparr>cs_messages := [(''role'', JStr ''system''), (''content'', JStr words)] # cs_messages st\<rparr>)
      in case ag_system_prompt ag of
           NoPrompt \<Rightarrow> st
         | TextPrompt t \<Rightarrow> if prompted then st else put t
         | CallPrompt f \<Rightarrow> if prompted then st else put (f cx st))"

record tool_call =
  tc_id :: string
  tc_name :: string
  tc_arguments :: json

text \<open>\<open>json.loads(call["function"]["arguments"] or "{}")\<close> and the other fields of a call.\<close>

definition read_call :: "agent \<Rightarrow> json \<Rightarrow> tool_call res" where
  "read_call ag call =
     rbind (obj_field call ''function'') (\<lambda>f.
     rbind (obj_field f ''name'') (\<lambda>name.
     rbind (obj_field f ''arguments'') (\<lambda>raw.
     rbind (if truthy raw then ag_parse ag (str_of raw) else Inr (JObj [])) (\<lambda>arguments.
     rbind (obj_field call ''id'') (\<lambda>i.
       Inr \<lparr>tc_id = str_of i, tc_name = str_of name, tc_arguments = arguments\<rparr>)))))"

definition answer_call :: "tool_call \<Rightarrow> json \<Rightarrow> chat_state \<Rightarrow> chat_state" where
  "answer_call call content st =
     st\<lparr>cs_messages := cs_messages st @ [tool_message (Some (tc_id call)) (tc_name call) content]\<rparr>"

definition delegate ::
    "agent \<Rightarrow> rat \<Rightarrow> context_data \<Rightarrow> chat_state \<Rightarrow> tool_call \<Rightarrow> pipe \<Rightarrow> (context_data \<times> chat_state) res" where
  "delegate ag now cx st call p =
     rbind (json_dict (tc_arguments call)) (\<lambda>args.
       let background = (case map_of args ''background'' of None \<Rightarrow> hd (pp_modes p) = ''connected'' | Some b \<Rightarrow> truthy b);
           wanted = (if background then ''connected'' else ''wait'');
           mode = (if wanted \<in> set (pp_modes p) then wanted else hd (pp_modes p));
           until = (if mode = ''wait'' then (case pp_budget p of None \<Rightarrow> None | Some b \<Rightarrow> if b = 0 then None else Some (now + b))
                    else None) in
       rbind (obj_field (JObj args) ''task'') (\<lambda>task.
       rbind (panel_open (ag_digest ag) cx (cs_panel st) (pp_definition p) (JObj [(''messages'', JList [])])
                (JObj [(''text'', task)]) (tc_id call) (pp_name p) mode (Some (tc_id call)) until (pp_interruptible p))
         (\<lambda>(cx', pn, rid).
           let st' = st\<lparr>cs_panel := pn\<rparr>; work = child_id (cx_session_id cx) (tc_id call) in
           Inr (cx', if mode = ''connected''
             then st'\<lparr>cs_messages := cs_messages st' @ [tool_message (Some (tc_id call)) (pp_name p)
                    (JStr (''started as work '' @ work @ '' ('' @ pp_name p @ ''); the result arrives as a message''))]\<rparr>
             else st'))))"

definition control ::
    "agent \<Rightarrow> context_data \<Rightarrow> chat_state \<Rightarrow> tool_call \<Rightarrow> (context_data \<times> chat_state \<times> string) res" where
  "control ag cx st call =
     rbind (json_dict (tc_arguments call)) (\<lambda>args.
       let name = tc_name call; work = dict_get args ''work'' JNull in
       case (case work of JStr w \<Rightarrow> find_work (cs_panel st) w | _ \<Rightarrow> None) of
         None \<Rightarrow> Inr (cx, st, ''Tool error: no such work '' @ (case work of JStr w \<Rightarrow> repr_str w | _ \<Rightarrow> display ag work))
       | Some (r, a) \<Rightarrow>
           let e = tb_heap (cs_panel st) ! a in
           if (case pe_grants e of None \<Rightarrow> False | Some g \<Rightarrow> name \<notin> set g)
           then Inr (cx, st, ''Tool error: work '' @ en_to e @ '' does not support '' @ name)
           else if name = ''steer'' then
             rbind (obj_field (JObj args) ''text'') (\<lambda>t.
             rbind (steer (ag_digest ag) cx (cs_panel st) r (str_of t) (tc_id call)) (\<lambda>(cx', _).
               Inr (cx', st, ''steered work '' @ en_to e)))
           else if name = ''answer'' then
             (if pe_status e \<noteq> JStr ''input_required'' then Inr (cx, st, ''Tool error: work '' @ en_to e @ '' asked nothing'')
              else rbind (obj_field (JObj args) ''text'') (\<lambda>t.
                   rbind (answer (ag_digest ag) cx (cs_panel st) r (str_of t) (tc_id call)) (\<lambda>(cx', pn, _).
                     Inr (cx', st\<lparr>cs_panel := pn\<rparr>, ''answered work '' @ en_to e))))
           else if pe_status e = JStr ''cancelled'' then Inr (cx, st, ''work '' @ en_to e @ '' is already cancelled'')
           else rbind (cancel (ag_digest ag) cx (cs_panel st) r (tc_id call)) (\<lambda>(cx', pn, _).
             let st' = st\<lparr>cs_panel := pn\<rparr> in
             Inr (cx', if pe_mode e = ''wait''
                then defer_to_tool a (JStr (''work '' @ en_to e @ '' ('' @ en_label e @ '') cancelled'')) st' else st',
               ''cancelled work '' @ en_to e)))"

text \<open>\<open>_run_call\<close>: the new context and state, and whether the call asked the caller.\<close>

definition run_call ::
    "agent \<Rightarrow> rat \<Rightarrow> context_data \<Rightarrow> chat_state \<Rightarrow> json \<Rightarrow> (context_data \<times> chat_state \<times> bool) res" where
  "run_call ag now cx st raw =
     rbind (read_call ag raw) (\<lambda>call.
       let name = tc_name call in
       case map_of (ag_pipes ag) name of
         Some p \<Rightarrow> rbind (delegate ag now cx st call p) (\<lambda>(cx', st'). Inr (cx', st', False))
       | None \<Rightarrow>
           if map_of panel_tools name \<noteq> None \<and> name \<in> set (granted ag) then
             rbind (control ag cx st call) (\<lambda>(cx', st', content). Inr (cx', answer_call call (JStr content) st', False))
           else (case (if name = ''ask_caller'' then open_job st else None) of
             Some j \<Rightarrow>
               rbind (obj_field (tc_arguments call) ''text'') (\<lambda>t.
               rbind (send (ag_digest ag) cx (jb_reply_to j) (JObj [(''text'', t)]) (tc_id call) ''ask''
                        (Some (JStr (jb_request_id j)))) (\<lambda>(cx', _).
                 Inr (cx', answer_call call (JStr ''asked; the answer arrives as a message'')
                        (st\<lparr>cs_work := Some (j\<lparr>jb_status := ''input_required''\<rparr>)\<rparr>), True)))
           | None \<Rightarrow>
               (case run_tool (ag_encode ag) (ag_tools ag) name (tc_arguments call) of
                  Inl t \<Rightarrow> Inr (cx, answer_call call (JStr t) st, name = ''ask_caller'')
                | Inr (executable, payload) \<Rightarrow>
                    rbind (panel_open (ag_digest ag) cx (cs_panel st) executable (JObj []) payload (tc_id call) name
                             ''wait'' (Some (tc_id call)) None False) (\<lambda>(cx', pn, rid).
                      Inr (cx', st\<lparr>cs_panel := (case map_of (tb_index pn) rid of None \<Rightarrow> pn
                             | Some a \<Rightarrow> set_entry a (\<lambda>e. e\<lparr>pe_grants := Some []\<rparr>) pn)\<rparr>, False)))))"

fun run_calls ::
    "agent \<Rightarrow> (nat \<Rightarrow> rat) \<Rightarrow> context_data \<Rightarrow> chat_state \<Rightarrow> json list \<Rightarrow> bool \<Rightarrow> (context_data \<times> chat_state \<times> bool) res" where
  "run_calls ag clock cx st [] asked = Inr (cx, st, asked)"
| "run_calls ag clock cx st (call # calls) asked =
     rbind (run_call ag (clock 0) cx st call) (\<lambda>(cx', st', a). run_calls ag (\<lambda>i. clock (Suc i)) cx' st' calls (asked \<or> a))"

definition chat_turn ::
    "agent \<Rightarrow> (nat \<Rightarrow> rat) \<Rightarrow> context_data \<Rightarrow> chat_state \<Rightarrow> string list \<Rightarrow> chat_proposal res" where
  "chat_turn ag clock cx st incorporated =
     (let st1 = ensure_system_prompt ag cx st;
          schemas = ag_schemas ag @ (if open_job st1 \<noteq> None then [ask_tool] else []) in
      rbind (ag_complete ag (cs_messages st1) schemas) (\<lambda>answered.
        case answered of
          JObj d \<Rightarrow>
            if map_of d ''role'' \<noteq> Some (JStr ''assistant'')
            then Inl (TypeError ''complete must return an assistant message dict'')
            else
              let st2 = st1\<lparr>cs_messages := cs_messages st1 @ [d]\<rparr>; calls = dict_get d ''tool_calls'' JNull in
              if truthy calls then
                (case calls of
                   JList cs \<Rightarrow>
                     rbind (run_calls ag clock cx st2 cs False) (\<lambda>(cx', st3, asked).
                       Inr (chat_propose cx' st3 incorporated
                         (if waiting (cs_panel st3) \<noteq> [] then next_deadline (cs_panel st3)
                          else if asked then None else Some 0) False))
                 | _ \<Rightarrow> Inl (TypeError ''tool_calls''))
              else
                let content = (let c = dict_get d ''content'' JNull in if truthy c then c else JStr []) in
                if open_job st2 \<noteq> None then finish_job ag cx st2 incorporated content ''completed''
                else (case ag_output ag of
                  None \<Rightarrow> Inr (chat_propose cx st2 incorporated None False)
                | Some out \<Rightarrow>
                    rbind (send (ag_digest ag) cx out (JObj [(''text'', content)])
                             (''answer:'' @ nat_text (length (cs_messages st2))) ''message'' None)
                      (\<lambda>(cx', _). Inr (chat_propose cx' st2 incorporated None False)))
        | _ \<Rightarrow> Inl (TypeError ''complete must return an assistant message dict'')))"

definition last_role :: "chat_state \<Rightarrow> json option" where
  "last_role st = (if cs_messages st = [] then None else map_of (last (cs_messages st)) ''role'')"

text \<open>
  \<open>resume\<close> in its two halves: the mail is folded into the state (\<open>now\<close> is the clock reading for the
  due waits), then the activation parks or calls the model (\<open>clock\<close> gives the readings of the calls).
\<close>

definition chat_ingest :: "agent \<Rightarrow> rat \<Rightarrow> chat_state \<Rightarrow> dict list \<Rightarrow> mail_step res" where
  "chat_ingest ag now st mail =
     rbind (panel_ingest (cs_panel st) mail) (\<lambda>(p, replies, others).
     rbind (fold_res (fold_reply ag) (st\<lparr>cs_panel := p\<rparr>) replies) (\<lambda>st1.
     rbind (take_others ag st1 others) (\<lambda>step. Inr (case step of
       Cancelled st2 \<Rightarrow> Cancelled st2
     | Continue st2 \<Rightarrow> Continue (flush (foldl promote_due st2 (due (cs_panel st2) now)))))))"

definition chat_resume ::
    "agent \<Rightarrow> rat \<Rightarrow> (nat \<Rightarrow> rat) \<Rightarrow> context_data \<Rightarrow> chat_state \<Rightarrow> dict list \<Rightarrow> chat_proposal res" where
  "chat_resume ag now clock cx st mail =
     rbind (event_ids mail) (\<lambda>incorporated.
     rbind (chat_ingest ag now st mail) (\<lambda>step. case step of
       Cancelled st2 \<Rightarrow> finish_job ag cx st2 incorporated (JStr []) ''cancelled''
     | Continue st3 \<Rightarrow>
         if cx_has_more cx then Inr (chat_propose cx st3 incorporated None False)
         else if waiting (cs_panel st3) \<noteq> []
         then Inr (chat_propose cx st3 incorporated (next_deadline (cs_panel st3)) False)
         else if last_role st3 \<notin> {Some (JStr ''user''), Some (JStr ''tool'')}
         then Inr (chat_propose cx st3 incorporated None False)
         else if (case open_job st3 of None \<Rightarrow> False | Some j \<Rightarrow> jb_status j = ''input_required'')
                 \<and> last_role st3 = Some (JStr ''tool'')
         then Inr (chat_propose cx st3 incorporated None False)
         else chat_turn ag clock cx st3 incorporated))"

end
