(* ===== verification/Turn_Laws.thy ===== *)
theory Turn_Laws
  imports Turn
begin

text \<open>
  The accounting of tool calls in a conversation. A call ID is answered by a tool message (in the
  messages or deferred) or held by a waiting panel entry; \<open>settles\<close> is the relation all steps of
  the ingestion satisfy, so that no step can lose a call.
\<close>

subsection \<open>Answered and held calls\<close>

definition tool_ids :: "dict list \<Rightarrow> string set" where
  "tool_ids ms = {i. \<exists>m \<in> set ms. map_of m ''role'' = Some (JStr ''tool'') \<and> map_of m ''tool_call_id'' = Some (JStr i)}"

definition answered :: "chat_state \<Rightarrow> string set" where
  "answered st = tool_ids (cs_messages st) \<union> tool_ids (cs_deferred st) \<union> tool_ids (cs_buffered st)"

definition held :: "panel \<Rightarrow> nat set \<Rightarrow> string set" where
  "held p S = {i. \<exists>a \<in> S. pe_mode (tb_heap p ! a) = ''wait'' \<and> pe_tool_call_id (tb_heap p ! a) = Some i}"

definition addresses :: "'e table \<Rightarrow> nat set" where
  "addresses t = snd ` set (tb_index t)"

definition accounted :: "chat_state \<Rightarrow> string set" where
  "accounted st = answered st \<union> held (cs_panel st) (addresses (cs_panel st))"

lemma tool_ids_append [simp]: "tool_ids (xs @ ys) = tool_ids xs \<union> tool_ids ys"
  by (auto simp: tool_ids_def)

lemma tool_ids_Cons: "tool_ids (m # ms) = tool_ids [m] \<union> tool_ids ms"
  by (auto simp: tool_ids_def)

lemma tool_ids_Nil [simp]: "tool_ids [] = {}"
  by (simp add: tool_ids_def)

lemma tool_ids_tool [simp]: "tool_ids [tool_message c n t] = set_option c"
  by (auto simp: tool_ids_def tool_message_def split: option.splits)

lemma tool_ids_user [simp]: "tool_ids [user_message t] = {}"
  by (simp add: tool_ids_def user_message_def)

lemma held_Un: "held p (S \<union> T) = held p S \<union> held p T"
  by (auto simp: held_def)

lemma held_mono: "S \<subseteq> T \<Longrightarrow> held p S \<subseteq> held p T"
  by (auto simp: held_def)

subsection \<open>Steps that settle\<close>

definition quieter :: "panel \<Rightarrow> panel \<Rightarrow> bool" where
  "quieter p q \<longleftrightarrow> tb_index q = tb_index p \<and> length (tb_heap q) = length (tb_heap p)
     \<and> (\<forall>a. en_to (tb_heap q ! a) = en_to (tb_heap p ! a) \<and> en_label (tb_heap q ! a) = en_label (tb_heap p ! a)
          \<and> pe_tool_call_id (tb_heap q ! a) = pe_tool_call_id (tb_heap p ! a)
          \<and> pe_fenced (tb_heap q ! a) = pe_fenced (tb_heap p ! a)
          \<and> pe_status (tb_heap q ! a) = pe_status (tb_heap p ! a)
          \<and> (pe_mode (tb_heap q ! a) = pe_mode (tb_heap p ! a) \<or> pe_mode (tb_heap q ! a) = ''connected''))"

definition settles :: "chat_state \<Rightarrow> chat_state \<Rightarrow> bool" where
  "settles st st' \<longleftrightarrow> quieter (cs_panel st) (cs_panel st') \<and> answered st \<subseteq> answered st'
     \<and> (\<forall>S. held (cs_panel st) S \<subseteq> answered st' \<union> held (cs_panel st') S)"

lemma quieter_refl [simp]: "quieter p p"
  by (simp add: quieter_def)

lemma quieter_trans: "quieter p q \<Longrightarrow> quieter q r \<Longrightarrow> quieter p r"
  unfolding quieter_def by metis

lemma settles_refl [simp]: "settles st st"
  by (simp add: settles_def)

lemma settles_trans: "settles x y \<Longrightarrow> settles y z \<Longrightarrow> settles x z"
  unfolding settles_def using quieter_trans by blast

lemma settles_answered: "settles st st' \<Longrightarrow> answered st \<subseteq> answered st'"
  by (simp add: settles_def)

lemma settles_foldl:
  assumes "\<And>s x. settles s (f s x)"
  shows "settles st (foldl f st xs)"
proof (induction xs arbitrary: st)
  case (Cons x xs)
  show ?case using settles_trans [OF assms Cons.IH] by simp
qed simp

lemma settles_same_panel:
  "cs_panel st' = cs_panel st \<Longrightarrow> answered st \<subseteq> answered st' \<Longrightarrow> settles st st'"
  by (auto simp: settles_def)

lemma answered_defer:
  "answered (defer_to_tool a c st) = answered st \<union> set_option (pe_tool_call_id (tb_heap (cs_panel st) ! a))"
  by (auto simp: answered_def defer_to_tool_def Let_def)

lemma panel_defer [simp]: "cs_panel (defer_to_tool a c st) = cs_panel st"
  by (simp add: defer_to_tool_def Let_def)

lemma settles_defer: "settles st (defer_to_tool a c st)"
  by (rule settles_same_panel) (simp_all add: answered_defer)

lemma heap_promote:
  "tb_heap (cs_panel (promote_at a st)) ! b =
     (if b = a \<and> a < length (tb_heap (cs_panel st)) then (tb_heap (cs_panel st) ! b)\<lparr>pe_mode := ''connected''\<rparr>
      else tb_heap (cs_panel st) ! b)"
  by (cases "a < length (tb_heap (cs_panel st))") (auto simp: promote_at_def set_entry_def nth_list_update list_update_beyond)

lemma quieter_promote: "quieter (cs_panel st) (cs_panel (promote_at a st))"
  by (simp add: quieter_def heap_promote) (simp add: promote_at_def set_entry_def)

lemma answered_promote [simp]: "answered (promote_at a st) = answered st"
  by (simp add: answered_def promote_at_def)

text \<open>The one step that ends a wait also answers its call.\<close>

lemma settles_promote_defer: "settles st (defer_to_tool a c (promote_at a st))"
  unfolding settles_def
proof (intro conjI allI)
  show "quieter (cs_panel st) (cs_panel (defer_to_tool a c (promote_at a st)))"
    by (simp add: quieter_promote)
  show "answered st \<subseteq> answered (defer_to_tool a c (promote_at a st))" by (simp add: answered_defer)
  show "held (cs_panel st) S \<subseteq> answered (defer_to_tool a c (promote_at a st)) \<union> held (cs_panel (defer_to_tool a c (promote_at a st))) S" for S
    by (auto simp: held_def answered_defer heap_promote)
qed

lemma settles_interrupt: "settles st (interrupt_one st item)"
  by (cases item) (simp add: interrupt_one_def Let_def settles_promote_defer)

lemma answered_buffer: "answered (st\<lparr>cs_buffered := cs_buffered st @ [m]\<rparr>) = answered st \<union> tool_ids [m]"
  by (auto simp: answered_def)

lemma settles_deliver: "settles st (deliver_message m st)"
proof -
  let ?s = "foldl interrupt_one st (waiting (cs_panel st))"
  have "settles st ?s" by (rule settles_foldl) (rule settles_interrupt)
  moreover have "settles ?s (?s\<lparr>cs_buffered := cs_buffered ?s @ [m]\<rparr>)"
    by (rule settles_same_panel) (simp_all add: answered_buffer)
  ultimately show ?thesis unfolding deliver_message_def Let_def by (rule settles_trans)
qed

lemma settles_settle: "settles st (settle ag r a c st)"
  by (simp add: settle_def Let_def settles_deliver settles_defer settles_promote_defer)

text \<open>Settling a waiting entry answers its call.\<close>

lemma settle_answers:
  "pe_mode (tb_heap (cs_panel st) ! a) = ''wait'' \<Longrightarrow>
     set_option (pe_tool_call_id (tb_heap (cs_panel st) ! a)) \<subseteq> answered (settle ag r a c st)"
  by (simp add: settle_def Let_def answered_defer heap_promote)

lemma settles_failed: "settles st (settle_failed ag st item)"
  by (cases item) (simp add: settle_failed_def Let_def settles_settle)

lemma settles_fold_reply: "fold_reply ag st r = Inr st' \<Longrightarrow> settles st st'"
  by (auto simp: fold_reply_def Let_def result_simps settles_settle split: if_splits)

lemma fold_reply_answers:
  assumes "fold_reply ag st r = Inr st'" and "rp_kind r = ''result''"
    and "\<not> pe_fenced (tb_heap (cs_panel st) ! rp_entry r)" and "pe_mode (tb_heap (cs_panel st) ! rp_entry r) = ''wait''"
  shows "set_option (pe_tool_call_id (tb_heap (cs_panel st) ! rp_entry r)) \<subseteq> answered st'"
  using assms settle_answers [OF assms(4)] by (auto simp: fold_reply_def Let_def result_simps)

lemma settles_due: "settles st (promote_due st r)"
  by (simp add: promote_due_def Let_def settles_promote_defer split: option.splits)

lemma settles_flush: "settles st (flush st)"
  by (cases "waiting (cs_panel st) = []") (auto simp: flush_def answered_def intro: settles_same_panel)

lemma settles_prompt: "settles st (ensure_system_prompt ag cx st)"
proof -
  have "tool_ids (m # ms) = tool_ids ms" if "map_of m ''role'' = Some (JStr ''system'')" for m ms
    using that by (auto simp: tool_ids_def)
  then show ?thesis
    by (auto simp: ensure_system_prompt_def Let_def answered_def intro: settles_same_panel split: prompt.splits)
qed

subsection \<open>Well-formed panels of a conversation\<close>

text \<open>
  A cancelled or fenced entry never waits, and an entry with a tool call is filed under the mail ID
  that call's key gives.
\<close>

definition entry_ok :: "(string \<Rightarrow> string) \<Rightarrow> string \<Rightarrow> string \<Rightarrow> panel_entry \<Rightarrow> bool" where
  "entry_ok digest sid r e \<longleftrightarrow>
     (pe_status e = JStr ''cancelled'' \<or> pe_fenced e \<longrightarrow> pe_mode e \<noteq> ''wait'')
     \<and> (\<forall>i. pe_tool_call_id e = Some i \<longrightarrow> r = mail_event_id digest sid i)"

definition panel_ok :: "(string \<Rightarrow> string) \<Rightarrow> string \<Rightarrow> panel \<Rightarrow> bool" where
  "panel_ok digest sid p \<longleftrightarrow> table_ok p \<and> (\<forall>(r, a) \<in> set (tb_index p). entry_ok digest sid r (tb_heap p ! a))"

lemma panel_okD: "panel_ok digest sid p \<Longrightarrow> (r, a) \<in> set (tb_index p) \<Longrightarrow> entry_ok digest sid r (tb_heap p ! a)"
  by (auto simp: panel_ok_def)

lemma panel_ok_table: "panel_ok digest sid p \<Longrightarrow> table_ok p"
  by (simp add: panel_ok_def)

lemma panel_ok_quieter: "panel_ok digest sid p \<Longrightarrow> quieter p q \<Longrightarrow> panel_ok digest sid q"
proof -
  assume ok: "panel_ok digest sid p" and q: "quieter p q"
  from q have i: "tb_index q = tb_index p" "length (tb_heap q) = length (tb_heap p)" by (simp_all add: quieter_def)
  have "entry_ok digest sid r (tb_heap q ! a)" if ra: "(r, a) \<in> set (tb_index p)" for r a
  proof -
    have "entry_ok digest sid r (tb_heap p ! a)" using ok ra by (rule panel_okD)
    moreover from q have "pe_tool_call_id (tb_heap q ! a) = pe_tool_call_id (tb_heap p ! a)"
      "pe_fenced (tb_heap q ! a) = pe_fenced (tb_heap p ! a)" "pe_status (tb_heap q ! a) = pe_status (tb_heap p ! a)"
      "pe_mode (tb_heap q ! a) = pe_mode (tb_heap p ! a) \<or> pe_mode (tb_heap q ! a) = ''connected''"
      unfolding quieter_def by blast+
    ultimately show ?thesis by (auto simp: entry_ok_def)
  qed
  with ok i show ?thesis by (auto simp: panel_ok_def table_ok_def)
qed

lemma settles_panel_ok: "panel_ok digest sid (cs_panel st) \<Longrightarrow> settles st st' \<Longrightarrow> panel_ok digest sid (cs_panel st')"
  unfolding settles_def by (elim conjE) (rule panel_ok_quieter)

lemma settles_accounted: "settles st st' \<Longrightarrow> accounted st \<subseteq> accounted st'"
proof -
  assume s: "settles st st'"
  then have "held (cs_panel st) (addresses (cs_panel st)) \<subseteq> answered st' \<union> held (cs_panel st') (addresses (cs_panel st))"
    and "answered st \<subseteq> answered st'" and "tb_index (cs_panel st') = tb_index (cs_panel st)"
    by (simp_all add: settles_def quieter_def)
  then show ?thesis by (auto simp: accounted_def addresses_def)
qed

lemma same_address: "table_ok p \<Longrightarrow> (r, a) \<in> set (tb_index p) \<Longrightarrow> (s, a) \<in> set (tb_index p) \<Longrightarrow> r = s"
  by (fastforce simp: table_ok_def distinct_map inj_on_def)

lemma same_request: "table_ok p \<Longrightarrow> (r, a) \<in> set (tb_index p) \<Longrightarrow> map_of (tb_index p) r = Some b \<Longrightarrow> a = b"
  by (simp add: table_ok_def dict_ok_map_of)

subsection \<open>Ingestion\<close>

fun results_last :: "reply_mail list \<Rightarrow> bool" where
  "results_last [] = True"
| "results_last (r # rs) \<longleftrightarrow> (rp_kind r = ''result'' \<longrightarrow> rp_entry r \<notin> rp_entry ` set rs) \<and> results_last rs"

lemma ingest_results_last:
  assumes "fold_res ingest_event (t, rs, os) mail = Inr (t', rs @ rs1, os')" and "table_ok t"
  shows "results_last rs1"
  using assms
proof (induction mail arbitrary: t rs os rs1)
  case Nil
  then show ?case by simp
next
  case (Cons ev mail)
  from Cons.prems obtain m where m: "matched_reply t ev = Inr m"
    by (auto simp: ingest_event_def result_simps)
  show ?case
  proof (cases m)
    case None
    with Cons.prems Cons.IH [of t rs "os @ [ev]" rs1] show ?thesis by (simp add: ingest_event_step [OF m])
  next
    case (Some r)
    let ?t = "if rp_kind r = ''result'' then del_entry (rp_request_id r) t else t"
    from Cons.prems Some have run: "fold_res ingest_event (?t, rs @ [r], os) mail = Inr (t', rs @ rs1, os')"
      by (simp add: ingest_event_step [OF m])
    from ingest_split [OF run] obtain rs2 where rs2: "rs1 = r # rs2" and of: "\<forall>x \<in> set rs2. reply_of ?t x" by auto
    have "results_last rs2"
      using Cons.IH [of ?t "rs @ [r]" os rs2] run rs2 Cons.prems(2) by (auto simp: del_entry_ok)
    moreover have "rp_entry x \<noteq> rp_entry r" if "rp_kind r = ''result''" "x \<in> set rs2" for x
    proof
      assume e: "rp_entry x = rp_entry r"
      have x: "map_of (tb_index t) (rp_request_id x) = Some (rp_entry x)" "rp_request_id x \<noteq> rp_request_id r"
        using of that by (auto simp: reply_of_def del_entry_def split: if_splits)
      have "map_of (tb_index t) (rp_request_id r) = Some (rp_entry r)"
        using matched_Some [OF m [unfolded Some]] by (simp add: reply_of_def)
      with x e same_address [OF Cons.prems(2)] show False by (metis map_of_SomeD)
    qed
    ultimately show ?thesis unfolding rs2 results_last.simps by (metis image_iff)
  qed
qed

lemma note_reply_keeps:
  assumes "note_reply p r = Inr q"
  shows "tb_index q = tb_index p \<and> length (tb_heap q) = length (tb_heap p)
    \<and> pe_mode (tb_heap q ! a) = pe_mode (tb_heap p ! a)
    \<and> pe_tool_call_id (tb_heap q ! a) = pe_tool_call_id (tb_heap p ! a)
    \<and> (a \<noteq> rp_entry r \<longrightarrow> tb_heap q ! a = tb_heap p ! a)
    \<and> (pe_fenced (tb_heap q ! a) \<longrightarrow> pe_fenced (tb_heap p ! a) \<or> pe_status (tb_heap p ! a) = JStr ''cancelled'')
    \<and> (rp_kind r \<noteq> ''result'' \<longrightarrow> rp_kind r \<in> set reply_kinds \<longrightarrow> pe_status (tb_heap q ! a) = JStr ''cancelled'' \<longrightarrow>
         pe_status (tb_heap p ! a) = JStr ''cancelled'')"
proof (cases "a = rp_entry r \<and> a < length (tb_heap p)")
  case True
  then show ?thesis
    using assms by (auto simp: note_reply_def Let_def result_simps set_entry_def reply_kinds_def split: if_splits)
next
  case False
  from note_reply_shape [OF assms] obtain f where "q = set_entry (rp_entry r) f p" by blast
  with False show ?thesis
    by (cases "rp_entry r < length (tb_heap p)") (auto simp: set_entry_def list_update_beyond)
qed

lemma notes_keep:
  assumes "fold_res note_reply p rs = Inr q"
  shows "tb_index q = tb_index p \<and> length (tb_heap q) = length (tb_heap p)
    \<and> pe_mode (tb_heap q ! a) = pe_mode (tb_heap p ! a)
    \<and> pe_tool_call_id (tb_heap q ! a) = pe_tool_call_id (tb_heap p ! a)
    \<and> (a \<notin> rp_entry ` set rs \<longrightarrow> tb_heap q ! a = tb_heap p ! a)"
  using assms
proof (induction rs arbitrary: p)
  case (Cons r rs)
  from Cons.prems obtain p1 where "note_reply p r = Inr p1" "fold_res note_reply p1 rs = Inr q"
    by (auto simp: result_simps)
  with Cons.IH [of p1] note_reply_keeps [of p r p1 a] show ?case by auto
qed simp

lemma notes_fence:
  assumes "fold_res note_reply p rs = Inr q" and "results_last rs" and "\<forall>r \<in> set rs. rp_kind r \<in> set reply_kinds"
    and "pe_status (tb_heap p ! a) = JStr ''cancelled'' \<or> pe_fenced (tb_heap p ! a) \<longrightarrow> pe_mode (tb_heap p ! a) \<noteq> ''wait''"
  shows "(pe_fenced (tb_heap q ! a) \<longrightarrow> pe_mode (tb_heap q ! a) \<noteq> ''wait'')
    \<and> ((\<forall>r \<in> set rs. rp_entry r = a \<longrightarrow> rp_kind r \<noteq> ''result'') \<longrightarrow>
         pe_status (tb_heap q ! a) = JStr ''cancelled'' \<longrightarrow> pe_mode (tb_heap q ! a) \<noteq> ''wait'')"
  using assms
proof (induction rs arbitrary: p)
  case (Cons r rs)
  from Cons.prems(1) obtain p1 where p1: "note_reply p r = Inr p1" "fold_res note_reply p1 rs = Inr q"
    by (auto simp: result_simps)
  note n = note_reply_keeps [OF p1(1), of a]
  show ?case
  proof (cases "rp_entry r = a \<and> rp_kind r = ''result''")
    case True
    then have "a \<notin> rp_entry ` set rs" using Cons.prems(2) by auto
    with notes_keep [OF p1(2), of a] have "tb_heap q ! a = tb_heap p1 ! a" by simp
    with n Cons.prems(4) True show ?thesis by auto
  next
    case False
    have "pe_status (tb_heap p1 ! a) = JStr ''cancelled'' \<or> pe_fenced (tb_heap p1 ! a) \<longrightarrow> pe_mode (tb_heap p1 ! a) \<noteq> ''wait''"
      using n False Cons.prems(3,4) by auto
    from Cons.IH [OF p1(2) _ _ this] Cons.prems(2,3) False show ?thesis by auto
  qed
qed simp

lemma ingest_addresses:
  assumes "ingest p mail = Inr (p1, rs, os)" and "table_ok p"
  shows "addresses p \<subseteq> addresses p1 \<union> rp_entry ` {r \<in> set rs. rp_kind r = ''result''}"
proof
  fix a assume "a \<in> addresses p"
  then obtain k where k: "(k, a) \<in> set (tb_index p)" by (auto simp: addresses_def)
  from ingest_split [OF assms(1) [unfolded ingest_def]]
  have i: "tb_index p1 = filter (\<lambda>(k, v). k \<notin> set (closed_by rs)) (tb_index p)"
    and of: "\<forall>r \<in> set rs. reply_of p r" by auto
  show "a \<in> addresses p1 \<union> rp_entry ` {r \<in> set rs. rp_kind r = ''result''}"
  proof (cases "k \<in> set (closed_by rs)")
    case True
    then obtain r where r: "r \<in> set rs" "rp_kind r = ''result''" "rp_request_id r = k" by (auto simp: closed_by_def)
    with of have "map_of (tb_index p) k = Some (rp_entry r)" by (auto simp: reply_of_def)
    with same_request [OF assms(2) k] r show ?thesis by auto
  next
    case False
    with k i have "(k, a) \<in> set (tb_index p1)" by simp
    then show ?thesis unfolding addresses_def by force
  qed
qed

lemma held_cong:
  "(\<And>a. pe_mode (tb_heap q ! a) = pe_mode (tb_heap p ! a) \<and> pe_tool_call_id (tb_heap q ! a) = pe_tool_call_id (tb_heap p ! a))
     \<Longrightarrow> held q S = held p S"
  by (simp add: held_def)

text \<open>What the panel's ingestion of a batch guarantees to the conversation.\<close>

lemma panel_ingest_ok:
  assumes "panel_ingest p mail = Inr (q, rs, os)" and ok: "panel_ok digest sid p"
  shows "panel_ok digest sid q
    \<and> held p (addresses p) \<subseteq> held q (addresses q \<union> rp_entry ` {r \<in> set rs. rp_kind r = ''result''})
    \<and> (\<forall>r \<in> set rs. pe_fenced (tb_heap q ! rp_entry r) \<longrightarrow> pe_mode (tb_heap q ! rp_entry r) \<noteq> ''wait'')"
proof -
  from assms(1) obtain p1 where i: "ingest p mail = Inr (p1, rs, os)" and n: "fold_res note_reply p1 rs = Inr q"
    by (auto simp: panel_ingest_def result_simps)
  note t = panel_ok_table [OF ok]
  from ingest_split [OF i [unfolded ingest_def]] have h: "tb_heap p1 = tb_heap p"
    and idx: "tb_index p1 = filter (\<lambda>(k, v). k \<notin> set (closed_by rs)) (tb_index p)"
    and of: "\<forall>r \<in> set rs. reply_of p r" by auto
  from ingest_results_last [of p "[]" "[]" mail p1 rs os] i t have last: "results_last rs" by (simp add: ingest_def)
  have kinds: "\<forall>r \<in> set rs. rp_kind r \<in> set reply_kinds" using of by (auto simp: reply_of_def)
  have t1: "table_ok p1"
    using t by (auto simp: table_ok_def h idx distinct_map_filter dict_ok_def)
  note k = notes_keep [OF n]
  have start: "pe_status (tb_heap p1 ! a) = JStr ''cancelled'' \<or> pe_fenced (tb_heap p1 ! a) \<longrightarrow> pe_mode (tb_heap p1 ! a) \<noteq> ''wait''"
    if "(r, a) \<in> set (tb_index p)" for r a
    using panel_okD [OF ok that] by (simp add: h entry_ok_def)
  note fence = notes_fence [OF n last kinds start]
  have ent: "(rp_request_id r, rp_entry r) \<in> set (tb_index p)" if "r \<in> set rs" for r
    using of that by (auto simp: reply_of_def dest: map_of_SomeD)
  have "entry_ok digest sid r (tb_heap q ! a)" if ra: "(r, a) \<in> set (tb_index q)" for r a
  proof -
    have ra1: "(r, a) \<in> set (tb_index p)" "r \<notin> set (closed_by rs)" using ra k idx by auto
    have "rp_kind x \<noteq> ''result''" if "x \<in> set rs" "rp_entry x = a" for x
    proof
      assume "rp_kind x = ''result''"
      with that have "rp_request_id x \<in> set (closed_by rs)" by (auto simp: closed_by_def)
      with ra1 same_address [OF t ra1(1), of "rp_request_id x"] ent [OF that(1)] that(2) show False by auto
    qed
    with fence [OF ra1(1)] panel_okD [OF ok ra1(1)] k [of a] show ?thesis by (auto simp: entry_ok_def h)
  qed
  with t1 k have "panel_ok digest sid q" by (auto simp: panel_ok_def table_ok_def)
  moreover have "held p (addresses p) \<subseteq> held q (addresses q \<union> rp_entry ` {r \<in> set rs. rp_kind r = ''result''})"
  proof -
    have "addresses q = addresses p1" using k by (simp add: addresses_def)
    then have "addresses p \<subseteq> addresses q \<union> rp_entry ` {r \<in> set rs. rp_kind r = ''result''}"
      using ingest_addresses [OF i t] by simp
    moreover have "held q S = held p S" for S using k h by (intro held_cong) simp
    ultimately show ?thesis by (simp add: held_mono)
  qed
  ultimately show ?thesis using fence ent by blast
qed

lemma settles_fold_replies: "fold_res (fold_reply ag) st rs = Inr st' \<Longrightarrow> settles st st'"
  by (rule fold_res_invariant [where P = "settles st"]) (auto intro: settles_trans settles_fold_reply)

lemma fold_replies_answer:
  assumes "fold_res (fold_reply ag) st rs = Inr st'" and "r \<in> set rs" "rp_kind r = ''result''"
    and "\<not> pe_fenced (tb_heap (cs_panel st) ! rp_entry r)" and "i \<in> held (cs_panel st) {rp_entry r}"
  shows "i \<in> answered st'"
  using assms
proof (induction rs arbitrary: st)
  case (Cons x rs)
  from Cons.prems(1) obtain st1 where st1: "fold_reply ag st x = Inr st1" "fold_res (fold_reply ag) st1 rs = Inr st'"
    by (auto simp: result_simps)
  note s = settles_fold_reply [OF st1(1)]
  have mono: "answered st1 \<subseteq> answered st'" using settles_fold_replies [OF st1(2)] by (simp add: settles_def)
  show ?case
  proof (cases "r = x")
    case True
    with fold_reply_answers [OF st1(1)] Cons.prems mono show ?thesis by (auto simp: held_def)
  next
    case False
    have f: "pe_fenced (tb_heap (cs_panel st1) ! rp_entry r) = pe_fenced (tb_heap (cs_panel st) ! rp_entry r)"
      using s by (simp add: settles_def quieter_def)
    have "i \<in> answered st1 \<union> held (cs_panel st1) {rp_entry r}" using s Cons.prems(5) by (auto simp: settles_def)
    with Cons.IH [OF st1(2)] Cons.prems False f mono show ?thesis by auto
  qed
qed simp

lemma fail_one_keeps:
  assumes "fail_one (p, acc) item = (q, acc')"
  shows "length (tb_heap q) = length (tb_heap p)
    \<and> pe_mode (tb_heap q ! b) = pe_mode (tb_heap p ! b) \<and> pe_tool_call_id (tb_heap q ! b) = pe_tool_call_id (tb_heap p ! b)
    \<and> pe_fenced (tb_heap q ! b) = pe_fenced (tb_heap p ! b)
    \<and> (pe_status (tb_heap q ! b) = JStr ''cancelled'' \<longrightarrow> pe_status (tb_heap p ! b) = JStr ''cancelled'')"
proof (cases item)
  case (Pair r a)
  then show ?thesis
    using assms by (cases "a < length (tb_heap p)")
      (auto simp: fail_one_def Let_def set_entry_def nth_list_update list_update_beyond split: if_splits)
qed

lemma fails_keep:
  assumes "foldl fail_one (p, acc) items = (q, acc')"
  shows "length (tb_heap q) = length (tb_heap p)
    \<and> pe_mode (tb_heap q ! b) = pe_mode (tb_heap p ! b) \<and> pe_tool_call_id (tb_heap q ! b) = pe_tool_call_id (tb_heap p ! b)
    \<and> pe_fenced (tb_heap q ! b) = pe_fenced (tb_heap p ! b)
    \<and> (pe_status (tb_heap q ! b) = JStr ''cancelled'' \<longrightarrow> pe_status (tb_heap p ! b) = JStr ''cancelled'')"
  using assms
proof (induction items arbitrary: p acc)
  case (Cons x items)
  obtain p1 acc1 where s: "fail_one (p, acc) x = (p1, acc1)" by fastforce
  with Cons.prems have "foldl fail_one (p1, acc1) items = (q, acc')" by simp
  from Cons.IH [OF this] fail_one_keeps [OF s, of b] show ?case by auto
qed simp

lemma fail_work_ok:
  assumes "fail_work p work = (q, failed)" and ok: "panel_ok digest sid p"
  shows "panel_ok digest sid q \<and> held p (addresses p) \<subseteq> held q (addresses q \<union> snd ` set failed)"
proof -
  let ?items = "filter (\<lambda>(r, a). en_to (tb_heap p ! a) = work) (tb_index p)"
  note t = panel_ok_table [OF ok]
  note run = assms(1) [unfolded fail_work_def panel_items_def]
  note k = fails_keep [OF run]
  have d: "distinct (map snd ?items)" "\<forall>(r, a) \<in> set ?items. a < length (tb_heap p)"
    using t by (auto simp: table_ok_def distinct_map_filter)
  from fold_fail [OF run d]
  have i: "tb_index q = filter (\<lambda>(k, v). k \<notin> set (map fst ?items)) (tb_index p)"
    and f: "failed = filter (\<lambda>(r, a). pe_status (tb_heap p ! a) \<noteq> JStr ''cancelled'') ?items" by simp_all
  have "entry_ok digest sid r (tb_heap q ! a)" if "(r, a) \<in> set (tb_index q)" for r a
    using panel_okD [OF ok, of r a] that i k [of a] by (auto simp: entry_ok_def)
  then have "panel_ok digest sid q"
    using t k by (auto simp: panel_ok_def table_ok_def i distinct_map_filter dict_ok_def)
  moreover have "x \<in> held q (addresses q \<union> snd ` set failed)" if "x \<in> held p (addresses p)" for x
  proof -
    from that obtain r a where a: "(r, a) \<in> set (tb_index p)" "pe_mode (tb_heap p ! a) = ''wait''"
      "pe_tool_call_id (tb_heap p ! a) = Some x" by (auto simp: held_def addresses_def)
    have "a \<in> addresses q \<union> snd ` set failed"
    proof (cases "(r, a) \<in> set (tb_index q)")
      case True
      then show ?thesis unfolding addresses_def by force
    next
      case False
      with a i obtain b where b: "(r, b) \<in> set ?items" by auto
      with a same_request [OF t, of r] t have "a = b" by (auto simp: table_ok_def dict_ok_map_of)
      moreover have "pe_status (tb_heap p ! a) \<noteq> JStr ''cancelled''"
        using panel_okD [OF ok a(1)] a(2) by (auto simp: entry_ok_def)
      ultimately have "(r, a) \<in> set failed" using b f by simp
      then show ?thesis by force
    qed
    with a(2,3) k [of a] show ?thesis unfolding held_def by auto
  qed
  ultimately show ?thesis by blast
qed

lemma settle_failed_answer:
  assumes "i \<in> held (cs_panel st) (snd ` set failed)"
  shows "i \<in> answered (foldl (settle_failed ag) st failed)"
  using assms
proof (induction failed arbitrary: st)
  case Nil
  then show ?case by (simp add: held_def)
next
  case (Cons x failed)
  obtain r a where x: "x = (r, a)" by (cases x)
  note s = settles_failed [of st ag x]
  have mono: "answered (settle_failed ag st x) \<subseteq> answered (foldl (settle_failed ag) (settle_failed ag st x) failed)"
    by (rule settles_answered [OF settles_foldl [OF settles_failed]])
  from Cons.prems consider "i \<in> held (cs_panel st) {a}" | "i \<in> held (cs_panel st) (snd ` set failed)"
    by (auto simp: held_def x)
  then show ?case
  proof cases
    case 1
    then have "i \<in> answered (settle_failed ag st x)"
      using settle_answers [of st a ag r] by (auto simp: held_def settle_failed_def x Let_def)
    with mono show ?thesis by auto
  next
    case 2
    with s have "i \<in> answered (settle_failed ag st x) \<union> held (cs_panel (settle_failed ag st x)) (snd ` set failed)"
      by (auto simp: settles_def)
    with Cons.IH mono show ?thesis by auto
  qed
qed

subsection \<open>No step loses a call\<close>

text \<open>The panel stays well formed and every call of \<open>C\<close> stays answered or held.\<close>

definition keeps_calls :: "(string \<Rightarrow> string) \<Rightarrow> string \<Rightarrow> string set \<Rightarrow> chat_state \<Rightarrow> bool" where
  "keeps_calls digest sid C st \<longleftrightarrow> panel_ok digest sid (cs_panel st) \<and> C \<subseteq> accounted st"

lemma settles_keeps: "keeps_calls digest sid C st \<Longrightarrow> settles st st' \<Longrightarrow> keeps_calls digest sid C st'"
  unfolding keeps_calls_def using settles_panel_ok settles_accounted by blast

lemma keeps_calls_work [simp]: "keeps_calls digest sid C (st\<lparr>cs_work := w\<rparr>) = keeps_calls digest sid C st"
  by (simp add: keeps_calls_def accounted_def answered_def)

lemma replies_keep:
  assumes "panel_ingest (cs_panel st) mail = Inr (p, rs, os)" and "fold_res (fold_reply ag) (st\<lparr>cs_panel := p\<rparr>) rs = Inr st'"
    and "keeps_calls digest sid C st"
  shows "keeps_calls digest sid C st'"
proof -
  let ?st = "st\<lparr>cs_panel := p\<rparr>" and ?R = "rp_entry ` {r \<in> set rs. rp_kind r = ''result''}"
  from panel_ingest_ok [OF assms(1), of digest sid] assms(3)
  have ok: "panel_ok digest sid p" and h: "held (cs_panel st) (addresses (cs_panel st)) \<subseteq> held p (addresses p \<union> ?R)"
    and f: "\<forall>r \<in> set rs. pe_fenced (tb_heap p ! rp_entry r) \<longrightarrow> pe_mode (tb_heap p ! rp_entry r) \<noteq> ''wait''"
    by (auto simp: keeps_calls_def)
  note s = settles_fold_replies [OF assms(2)]
  have "i \<in> answered st'" if i: "i \<in> held p ?R" for i
  proof -
    from i obtain r where r: "r \<in> set rs" "rp_kind r = ''result''" "i \<in> held p {rp_entry r}" by (auto simp: held_def)
    with f have "\<not> pe_fenced (tb_heap (cs_panel ?st) ! rp_entry r)" by (auto simp: held_def)
    with fold_replies_answer [OF assms(2) r(1,2)] r(3) show ?thesis by simp
  qed
  moreover have "answered st \<union> held p (addresses p) \<subseteq> accounted st'"
    using settles_accounted [OF s] by (simp add: accounted_def answered_def)
  ultimately have "accounted st \<subseteq> accounted st'"
    using h settles_answered [OF s] unfolding held_Un accounted_def by blast
  moreover have "panel_ok digest sid (cs_panel st')" using settles_panel_ok [OF _ s] ok by simp
  ultimately show ?thesis using assms(3) by (auto simp: keeps_calls_def)
qed

lemma failed_keep:
  assumes "fail_work (cs_panel st) work = (p, failed)" and "keeps_calls digest sid C st"
  shows "keeps_calls digest sid C (foldl (settle_failed ag) (st\<lparr>cs_panel := p\<rparr>) failed)"
proof -
  let ?st = "st\<lparr>cs_panel := p\<rparr>"
  let ?st' = "foldl (settle_failed ag) ?st failed"
  have s: "settles ?st ?st'" by (rule settles_foldl [OF settles_failed])
  from fail_work_ok [OF assms(1)] assms(2)
  have ok: "panel_ok digest sid p"
    and h: "held (cs_panel st) (addresses (cs_panel st)) \<subseteq> held p (addresses p \<union> snd ` set failed)"
    by (auto simp: keeps_calls_def)
  have "held p (snd ` set failed) \<subseteq> answered ?st'" using settle_failed_answer [of _ ?st failed ag] by auto
  moreover have "answered st \<union> held p (addresses p) \<subseteq> accounted ?st'"
    using settles_accounted [OF s] by (simp add: accounted_def answered_def)
  ultimately have "accounted st \<subseteq> accounted ?st'"
    using h settles_answered [OF s] unfolding held_Un accounted_def by blast
  moreover have "panel_ok digest sid (cs_panel ?st')" using settles_panel_ok [OF _ s] ok by simp
  ultimately show ?thesis using assms(2) by (auto simp: keeps_calls_def)
qed

fun step_state :: "mail_step \<Rightarrow> chat_state" where
  "step_state (Continue st) = st"
| "step_state (Cancelled st) = st"

text \<open>What one piece of ordinary mail can do.\<close>

lemma take_mail_cases:
  assumes "take_mail ag st event = Inr step"
  obtains "step_state step = st"
    | m w where "step_state step = deliver_message m (st\<lparr>cs_work := w\<rparr>)"
    | work p failed where "fail_work (cs_panel st) work = (p, failed)"
        "step_state step = foldl (settle_failed ag) (st\<lparr>cs_panel := p\<rparr>) failed"
proof -
  have same: "st\<lparr>cs_work := cs_work st\<rparr> = st" by simp
  have f: thesis
    if "(case w of JStr work \<Rightarrow> let (p, failed) = fail_work (cs_panel st) work
           in Inr (Continue (foldl (settle_failed ag) (st\<lparr>cs_panel := p\<rparr>) failed)) | _ \<Rightarrow> Inr (Continue st)) = Inr step" for w
    using that \<open>step_state step = st \<Longrightarrow> thesis\<close>
      \<open>\<And>work p failed. fail_work (cs_panel st) work = (p, failed) \<Longrightarrow>
        step_state step = foldl (settle_failed ag) (st\<lparr>cs_panel := p\<rparr>) failed \<Longrightarrow> thesis\<close>
    by (cases w) (auto split: prod.splits)
  note d = \<open>\<And>m w. step_state step = deliver_message m (st\<lparr>cs_work := w\<rparr>) \<Longrightarrow> thesis\<close>
  show thesis
    using assms d [of _ "cs_work st", unfolded same] d \<open>step_state step = st \<Longrightarrow> thesis\<close> f
    unfolding take_mail_def Let_def by (simp add: result_simps split: if_split_asm) (elim exE conjE, simp split: if_split_asm, blast | force)+
qed

lemma take_mail_keeps:
  assumes "take_mail ag st event = Inr step" and "keeps_calls digest sid C st"
  shows "keeps_calls digest sid C (step_state step)"
  using assms(1)
proof (cases rule: take_mail_cases)
  case (2 m w)
  with assms(2) settles_keeps [OF _ settles_deliver] show ?thesis by simp
next
  case (3 work p failed)
  with failed_keep [OF _ assms(2)] show ?thesis by simp
qed (use assms(2) in simp)

lemma take_others_keeps:
  "take_others ag st events = Inr step \<Longrightarrow> keeps_calls digest sid C st \<Longrightarrow> keeps_calls digest sid C (step_state step)"
proof (induction events arbitrary: st)
  case (Cons e events)
  from Cons.prems(1) obtain s where s: "take_mail ag st e = Inr s"
    and r: "(case s of Continue st' \<Rightarrow> take_others ag st' events | Cancelled st' \<Rightarrow> Inr (Cancelled st')) = Inr step"
    by (auto simp: result_simps)
  note k = take_mail_keeps [OF s Cons.prems(2)]
  show ?case by (cases s) (use k r Cons.IH in auto)
qed auto

lemma finish_job_keeps:
  "finish_job ag cx st inc content status = Inr pr \<Longrightarrow> keeps_calls digest sid C st \<Longrightarrow> keeps_calls digest sid C (cp_state pr)"
  by (auto simp: finish_job_def result_simps chat_propose_def split: option.splits prod.splits)

lemma answer_call_keeps:
  assumes "keeps_calls digest sid C st"
  shows "keeps_calls digest sid (insert (tc_id call) C) (answer_call call content st)"
  using assms by (auto simp: keeps_calls_def accounted_def answered_def answer_call_def)

lemma keeps_calls_mono: "keeps_calls digest sid C st \<Longrightarrow> D \<subseteq> C \<Longrightarrow> keeps_calls digest sid D st"
  by (auto simp: keeps_calls_def)

text \<open>Opening work for a call files it under the call's own mail ID.\<close>

lemma panel_open_Inr:
  assumes "panel_open digest cx p ex cst payload key label mode tci until ii = Inr (cx', q, rid)"
  shows "rid = mail_event_id digest (cx_session_id cx) key \<and> cx_session_id cx' = cx_session_id cx
    \<and> q = put_entry rid \<lparr>en_to = child_id (cx_session_id cx) key, en_label = label, pe_mode = mode,
         pe_status = JStr ''working'', pe_tool_call_id = tci, pe_until = until, pe_interruptible = ii,
         pe_question = JNull, pe_progress = JNull, pe_fenced = False, pe_grants = None\<rparr> p"
  using assms by (auto simp: panel_open_def result_simps spawn_session_Inr request_Inr split: if_splits)

lemma put_index:
  assumes "dict_ok d"
  shows "(k, v) \<in> set (AList.update r x d) \<longleftrightarrow> (if k = r then v = x else (k, v) \<in> set d)"
  using dict_ok_map_of [OF dict_ok_update [OF assms], of k v r x] dict_ok_map_of [OF assms, of k v] by auto

lemma put_keeps:
  assumes "keeps_calls digest sid C st" and "inj digest" and "r = mail_event_id digest sid i"
    and e: "pe_tool_call_id e = Some i" "pe_status e = JStr ''working''" "\<not> pe_fenced e"
  shows "keeps_calls digest sid (if pe_mode e = ''wait'' then insert i C else C - {i}) (st\<lparr>cs_panel := put_entry r e (cs_panel st)\<rparr>)"
proof -
  let ?p = "cs_panel st" and ?q = "put_entry r e (cs_panel st)"
  have ok: "panel_ok digest sid ?p" using assms(1) by (simp add: keeps_calls_def)
  note t = panel_ok_table [OF ok]
  have d: "dict_ok (tb_index ?p)" using t by (simp add: table_ok_def)
  have old: "tb_heap ?q ! a = tb_heap ?p ! a" if "(k, a) \<in> set (tb_index ?p)" for k a
    using that t by (auto simp: put_entry_def nth_append table_ok_def)
  have new: "tb_heap ?q ! length (tb_heap ?p) = e" by (simp add: put_entry_def)
  have idx: "(k, a) \<in> set (tb_index ?q) \<longleftrightarrow> (if k = r then a = length (tb_heap ?p) else (k, a) \<in> set (tb_index ?p))" for k a
    using put_index [OF d] by (simp add: put_entry_def)
  have "entry_ok digest sid k (tb_heap ?q ! a)" if "(k, a) \<in> set (tb_index ?q)" for k a
  proof (cases "k = r")
    case True
    with that idx new e assms(3) show ?thesis by (simp add: entry_ok_def)
  next
    case False
    with that idx have "(k, a) \<in> set (tb_index ?p)" by simp
    with old panel_okD [OF ok this] show ?thesis by simp
  qed
  then have ok': "panel_ok digest sid ?q" using put_entry_ok [OF t] by (auto simp: panel_ok_def)
  have keep: "x \<in> held ?q (addresses ?q)" if "x \<in> held ?p (addresses ?p)" "x \<noteq> i" for x
  proof -
    from that obtain k a where a: "(k, a) \<in> set (tb_index ?p)" "pe_mode (tb_heap ?p ! a) = ''wait''"
      "pe_tool_call_id (tb_heap ?p ! a) = Some x" by (auto simp: held_def addresses_def)
    have "k = mail_event_id digest sid x" using panel_okD [OF ok a(1)] a(3) by (simp add: entry_ok_def)
    with that(2) assms(2,3) have "k \<noteq> r" by (simp add: mail_event_id_inj)
    with idx a(1) have "(k, a) \<in> set (tb_index ?q)" by simp
    with a old [OF a(1)] show ?thesis unfolding held_def addresses_def by force
  qed
  have i: "i \<in> held ?q (addresses ?q)" if "pe_mode e = ''wait''"
  proof -
    have "(r, length (tb_heap ?p)) \<in> set (tb_index ?q)" using idx by simp
    then show ?thesis using that new e(1) unfolding held_def addresses_def by force
  qed
  have acc: "accounted (st\<lparr>cs_panel := ?q\<rparr>) = answered st \<union> held ?q (addresses ?q)"
    by (simp add: accounted_def answered_def)
  have "C \<subseteq> answered st \<union> held ?p (addresses ?p)" using assms(1) by (simp add: keeps_calls_def accounted_def)
  with keep i have "(if pe_mode e = ''wait'' then insert i C else C - {i}) \<subseteq> accounted (st\<lparr>cs_panel := ?q\<rparr>)"
    unfolding acc by auto
  with ok' show ?thesis by (simp add: keeps_calls_def)
qed

subsection \<open>Running the calls of a reply\<close>

text \<open>What a step of the model call does: it stays in its session and loses no call.\<close>

definition call_step :: "(string \<Rightarrow> string) \<Rightarrow> context_data \<Rightarrow> string set \<Rightarrow> context_data \<Rightarrow> chat_state \<Rightarrow> bool" where
  "call_step digest cx C cx' st' \<longleftrightarrow>
     cx_session_id cx' = cx_session_id cx \<and> keeps_calls digest (cx_session_id cx) C st'"

lemma set_panel_ok:
  assumes "panel_ok digest sid p" and "\<And>e. pe_tool_call_id (f e) = pe_tool_call_id e"
    and "\<And>e. (pe_status e = JStr ''cancelled'' \<or> pe_fenced e \<longrightarrow> pe_mode e \<noteq> ''wait'') \<Longrightarrow>
         (pe_status (f e) = JStr ''cancelled'' \<or> pe_fenced (f e) \<longrightarrow> pe_mode (f e) \<noteq> ''wait'')"
  shows "panel_ok digest sid (set_entry a f p)"
proof -
  have "entry_ok digest sid r (tb_heap (set_entry a f p) ! b)" if "(r, b) \<in> set (tb_index p)" for r b
    using panel_okD [OF assms(1) that] assms(2,3)
    by (cases "a < length (tb_heap p)") (auto simp: set_entry_def nth_list_update entry_ok_def list_update_beyond)
  moreover have "table_ok (set_entry a f p)" by (rule set_entry_ok [OF panel_ok_table [OF assms(1)]])
  ultimately show ?thesis by (auto simp: panel_ok_def set_entry_def)
qed

lemma held_set_entry:
  assumes "\<And>e. pe_tool_call_id (f e) = pe_tool_call_id e" and "\<And>e. pe_mode (f e) = pe_mode e"
  shows "held (set_entry a f p) S = held p S"
proof (rule held_cong)
  show "pe_mode (tb_heap (set_entry a f p) ! b) = pe_mode (tb_heap p ! b)
      \<and> pe_tool_call_id (tb_heap (set_entry a f p) ! b) = pe_tool_call_id (tb_heap p ! b)" for b
    using assms by (cases "a < length (tb_heap p)") (auto simp: set_entry_def nth_list_update list_update_beyond)
qed

lemma addresses_set [simp]: "addresses (set_entry a f p) = addresses p"
  by (simp add: addresses_def set_entry_def)

text \<open>A change that touches neither mode nor call keeps all calls.\<close>

lemma set_keeps:
  assumes "keeps_calls digest sid C st" and "\<And>e. pe_tool_call_id (f e) = pe_tool_call_id e"
    and "\<And>e. pe_mode (f e) = pe_mode e" and "\<And>e. pe_fenced (f e) = pe_fenced e"
    and "\<And>e. pe_status (f e) = JStr ''cancelled'' \<Longrightarrow> pe_status e = JStr ''cancelled''"
  shows "keeps_calls digest sid C (st\<lparr>cs_panel := set_entry a f (cs_panel st)\<rparr>)"
proof -
  have "panel_ok digest sid (set_entry a f (cs_panel st))"
    using assms by (intro set_panel_ok) (auto simp: keeps_calls_def)
  with assms(1) show ?thesis
    by (simp add: keeps_calls_def accounted_def answered_def held_set_entry [of f, OF assms(2,3)])
qed

lemma cancel_keeps:
  fixes a :: nat
  assumes "keeps_calls digest sid C st"
  defines "p \<equiv> set_entry a (\<lambda>e. e\<lparr>pe_status := JStr ''cancelled'', pe_mode := ''connected''\<rparr>) (cs_panel st)"
  shows "keeps_calls digest sid C (if pe_mode (tb_heap (cs_panel st) ! a) = ''wait''
     then defer_to_tool a c (st\<lparr>cs_panel := p\<rparr>) else st\<lparr>cs_panel := p\<rparr>)"
proof -
  let ?h = "tb_heap (cs_panel st)"
  let ?st = "if pe_mode (?h ! a) = ''wait'' then defer_to_tool a c (st\<lparr>cs_panel := p\<rparr>) else st\<lparr>cs_panel := p\<rparr>"
  have nth: "tb_heap p ! b = (if b = a \<and> a < length ?h
      then (?h ! b)\<lparr>pe_status := JStr ''cancelled'', pe_mode := ''connected''\<rparr> else ?h ! b)" for b
    by (cases "a < length ?h") (auto simp: p_def set_entry_def nth_list_update list_update_beyond)
  have "panel_ok digest sid p"
    using assms(1) unfolding p_def by (intro set_panel_ok) (auto simp: keeps_calls_def)
  moreover have "held (cs_panel st) (addresses (cs_panel st)) \<subseteq> answered ?st \<union> held p (addresses (cs_panel st))"
    by (auto simp: held_def answered_defer nth)
  moreover have "answered st \<subseteq> answered ?st" by (auto simp: answered_defer) (auto simp: answered_def)
  moreover have "cs_panel ?st = p" and "addresses p = addresses (cs_panel st)" by (simp_all add: p_def)
  moreover have "C \<subseteq> answered st \<union> held (cs_panel st) (addresses (cs_panel st))"
    using assms(1) by (simp add: keeps_calls_def accounted_def)
  ultimately have "panel_ok digest sid (cs_panel ?st)"
    and "C \<subseteq> answered ?st \<union> held (cs_panel ?st) (addresses (cs_panel ?st))" by (simp_all only:) blast
  then show ?thesis unfolding keeps_calls_def accounted_def by blast
qed

lemma find_work_in: "find_work p w = Some (r, a) \<Longrightarrow> (r, a) \<in> set (tb_index p)"
  by (auto simp: find_work_def panel_items_def dest: find_Some_in)

lemma delegate_keeps:
  assumes "delegate ag now cx st call p = Inr (cx', st')" and "inj (ag_digest ag)"
    and "keeps_calls (ag_digest ag) (cx_session_id cx) C st"
  shows "call_step (ag_digest ag) cx (insert (tc_id call) C) cx' st'"
proof -
  from assms(1) obtain task mode cx1 q rid until ii where
    o: "panel_open (ag_digest ag) cx (cs_panel st) (pp_definition p) (JObj [(''messages'', JList [])])
          (JObj [(''text'', task)]) (tc_id call) (pp_name p) mode (Some (tc_id call)) until ii = Inr (cx1, q, rid)"
    and s: "cx' = cx1" "st' = (if mode = ''connected''
      then (st\<lparr>cs_panel := q\<rparr>)\<lparr>cs_messages := cs_messages st @ [tool_message (Some (tc_id call)) (pp_name p)
         (JStr (''started as work '' @ child_id (cx_session_id cx) (tc_id call) @ '' ('' @ pp_name p @ ''); the result arrives as a message''))]\<rparr>
      else st\<lparr>cs_panel := q\<rparr>)"
    by (auto simp: delegate_def Let_def result_simps)
  have m: "mode = ''wait'' \<or> mode = ''connected''" using o by (auto simp: panel_open_def split: if_splits)
  from panel_open_Inr [OF o] have r: "rid = mail_event_id (ag_digest ag) (cx_session_id cx) (tc_id call)"
    "cx_session_id cx1 = cx_session_id cx" by simp_all
  from panel_open_Inr [OF o] obtain e where e: "q = put_entry rid e (cs_panel st)" "pe_tool_call_id e = Some (tc_id call)"
    "pe_status e = JStr ''working''" "\<not> pe_fenced e" "pe_mode e = mode" by fastforce
  note k = put_keeps [OF assms(3,2) r(1) e(2-4)]
  show ?thesis
  proof (cases "mode = ''wait''")
    case True
    with k s r e show ?thesis by (simp add: call_step_def)
  next
    case False
    with m have mc: "mode = ''connected''" by simp
    with k e have "keeps_calls (ag_digest ag) (cx_session_id cx) (C - {tc_id call}) (st\<lparr>cs_panel := q\<rparr>)" by simp
    then show ?thesis
      using s r mc by (auto simp: call_step_def keeps_calls_def accounted_def answered_def)
  qed
qed

lemma control_keeps:
  assumes "control ag cx st call = Inr (cx', st', content)"
    and k: "keeps_calls (ag_digest ag) (cx_session_id cx) C st"
  shows "call_step (ag_digest ag) cx C cx' st'"
proof -
  let ?g = "ag_digest ag"
  from assms(1) obtain args where args: "json_dict (tc_arguments call) = Inr args"
    by (auto simp: control_def result_simps)
  have none: ?thesis if "cx' = cx" "st' = st" using that k by (simp add: call_step_def)
  show ?thesis
  proof (cases "case dict_get args ''work'' JNull of JStr w \<Rightarrow> find_work (cs_panel st) w | _ \<Rightarrow> None")
    case None
    with assms(1) args none show ?thesis by (simp add: control_def Let_def)
  next
    case (Some ra)
    obtain r a where ra: "ra = (r, a)" by (cases ra)
    let ?e = "tb_heap (cs_panel st) ! a"
    have "(r, a) \<in> set (tb_index (cs_panel st))"
      using Some by (auto simp: ra split: json.splits intro: find_work_in)
    with k have m: "map_of (tb_index (cs_panel st)) r = Some a"
      by (auto simp: keeps_calls_def panel_ok_def table_ok_def dict_ok_map_of)
    have ans: "keeps_calls ?g (cx_session_id cx) C (st\<lparr>cs_panel :=
        set_entry a (\<lambda>e. e\<lparr>pe_status := JStr ''working'', pe_question := JNull\<rparr>) (cs_panel st)\<rparr>)"
      using k by (rule set_keeps) simp_all
    note can = cancel_keeps [OF k, of a "JStr (''work '' @ en_to ?e @ '' ('' @ en_label ?e @ '') cancelled'')"]
    show ?thesis
      using assms(1) k ans can
      by (auto simp: control_def args Some ra Let_def result_simps steer_def answer_def cancel_def address_of_def m
            send_Inr call_step_def split: if_splits)
  qed
qed

lemma call_step_answer:
  "call_step digest cx C cx' st' \<Longrightarrow> call_step digest cx (insert (tc_id call) C) cx' (answer_call call content st')"
  by (simp add: call_step_def answer_call_keeps)

lemma open_deferred_keeps:
  assumes "panel_open (ag_digest ag) cx (cs_panel st) ex (JObj []) payload (tc_id call) name ''wait''
      (Some (tc_id call)) None False = Inr (cx', pn, rid)"
    and "inj (ag_digest ag)" and "keeps_calls (ag_digest ag) (cx_session_id cx) C st"
  shows "call_step (ag_digest ag) cx (insert (tc_id call) C) cx' (st\<lparr>cs_panel := (case map_of (tb_index pn) rid of
      None \<Rightarrow> pn | Some a \<Rightarrow> set_entry a (\<lambda>e. e\<lparr>pe_grants := Some []\<rparr>) pn)\<rparr>)"
proof -
  from panel_open_Inr [OF assms(1)] have r: "rid = mail_event_id (ag_digest ag) (cx_session_id cx) (tc_id call)"
    "cx_session_id cx' = cx_session_id cx" by simp_all
  from panel_open_Inr [OF assms(1)] obtain e where e: "pn = put_entry rid e (cs_panel st)"
    "pe_tool_call_id e = Some (tc_id call)" "pe_status e = JStr ''working''" "\<not> pe_fenced e" "pe_mode e = ''wait''"
    by fastforce
  from put_keeps [OF assms(3,2) r(1) e(2-4)] e
  have k: "keeps_calls (ag_digest ag) (cx_session_id cx) (insert (tc_id call) C) (st\<lparr>cs_panel := pn\<rparr>)" by simp
  have "keeps_calls (ag_digest ag) (cx_session_id cx) (insert (tc_id call) C)
      ((st\<lparr>cs_panel := pn\<rparr>)\<lparr>cs_panel := set_entry a (\<lambda>e. e\<lparr>pe_grants := Some []\<rparr>) (cs_panel (st\<lparr>cs_panel := pn\<rparr>))\<rparr>)" for a
    using k by (rule set_keeps) simp_all
  with k r show ?thesis by (simp add: call_step_def split: option.splits)
qed

lemma run_call_keeps:
  assumes "run_call ag now cx st raw = Inr (cx', st', asked)" and j: "inj (ag_digest ag)"
    and k: "keeps_calls (ag_digest ag) (cx_session_id cx) C st"
  shows "\<exists>call. read_call ag raw = Inr call \<and> call_step (ag_digest ag) cx (insert (tc_id call) C) cx' st'"
proof -
  from assms(1) obtain call where call: "read_call ag raw = Inr call" by (auto simp: run_call_def result_simps)
  let ?name = "tc_name call"
  note run = assms(1) [unfolded run_call_def call rbind_Inr Let_def]
  have ans: "call_step (ag_digest ag) cx (insert (tc_id call) C) cx1 (answer_call call content st1)"
    if "cx_session_id cx1 = cx_session_id cx" "keeps_calls (ag_digest ag) (cx_session_id cx) C st1" for cx1 st1 content
    using that by (intro call_step_answer) (simp add: call_step_def)
  show ?thesis
  proof (cases "map_of (ag_pipes ag) ?name")
    case (Some p)
    with run delegate_keeps [OF _ j k] call show ?thesis by (auto simp: result_simps)
  next
    case None
    note run1 = run [unfolded None option.case]
    show ?thesis
    proof (cases "map_of panel_tools ?name \<noteq> None \<and> ?name \<in> set (granted ag)")
      case True
      with run1 obtain cx1 st1 content where c: "control ag cx st call = Inr (cx1, st1, content)"
        "cx' = cx1" "st' = answer_call call (JStr content) st1" by (auto simp: result_simps)
      from call_step_answer [OF control_keeps [OF c(1) k]] c(2,3) call show ?thesis by blast
    next
      case False
      note run2 = run1 [unfolded if_not_P [OF False]]
      show ?thesis
      proof (cases "if ?name = ''ask_caller'' then open_job st else None")
        case (Some w)
        note run3 = run2 [unfolded Some option.case]
        from run3 obtain t where
          "st' = answer_call call (JStr ''asked; the answer arrives as a message'')
             (st\<lparr>cs_work := Some (w\<lparr>jb_status := ''input_required''\<rparr>)\<rparr>)" "cx_session_id cx' = cx_session_id cx"
          by (auto simp: result_simps send_Inr)
        with ans [of cx' "st\<lparr>cs_work := Some (w\<lparr>jb_status := ''input_required''\<rparr>)\<rparr>"] k call show ?thesis by auto
      next
        case None
        note run3 = run2 [unfolded None option.case]
        show ?thesis
        proof (cases "run_tool (ag_encode ag) (ag_tools ag) ?name (tc_arguments call)")
          case (Inl t)
          with run3 ans [of cx st] k call show ?thesis by auto
        next
          case (Inr ep)
          with run3 call open_deferred_keeps [OF _ j k] show ?thesis by (cases ep) (auto simp: result_simps)
        qed
      qed
    qed
  qed
qed

lemma run_calls_keeps:
  assumes "run_calls ag clock cx st raws asked = Inr (cx', st', asked')" and "inj (ag_digest ag)"
    and "keeps_calls (ag_digest ag) (cx_session_id cx) C st"
  shows "cx_session_id cx' = cx_session_id cx \<and> (\<exists>calls. map (read_call ag) raws = map Inr calls
     \<and> keeps_calls (ag_digest ag) (cx_session_id cx) (C \<union> tc_id ` set calls) st')"
  using assms
proof (induction raws arbitrary: clock cx st asked C)
  case Nil
  then show ?case by simp
next
  case (Cons raw raws)
  from Cons.prems(1) obtain cx1 st1 a where s: "run_call ag (clock 0) cx st raw = Inr (cx1, st1, a)"
    and r: "run_calls ag (\<lambda>i. clock (Suc i)) cx1 st1 raws (asked \<or> a) = Inr (cx', st', asked')"
    by (auto simp: result_simps)
  from run_call_keeps [OF s Cons.prems(2,3)] obtain call where c: "read_call ag raw = Inr call"
    "cx_session_id cx1 = cx_session_id cx"
    "keeps_calls (ag_digest ag) (cx_session_id cx) (insert (tc_id call) C) st1" by (auto simp: call_step_def)
  from c have "keeps_calls (ag_digest ag) (cx_session_id cx1) (insert (tc_id call) C) st1" by simp
  from Cons.IH [OF r Cons.prems(2) this] obtain calls where "cx_session_id cx' = cx_session_id cx1"
    "map (read_call ag) raws = map Inr calls"
    "keeps_calls (ag_digest ag) (cx_session_id cx1) (insert (tc_id call) C \<union> tc_id ` set calls) st'" by blast
  with c show ?case by (intro conjI exI [of _ "call # calls"]) simp_all
qed

lemma chat_turn_keeps:
  assumes "chat_turn ag clock cx st inc = Inr pr" and "inj (ag_digest ag)"
    and k: "keeps_calls (ag_digest ag) (cx_session_id cx) C st"
  shows "keeps_calls (ag_digest ag) (cx_session_id cx) C (cp_state pr)"
proof -
  let ?s = "ensure_system_prompt ag cx st"
  note k1 = settles_keeps [OF k settles_prompt [of st ag cx]]
  let ?m = "ag_complete ag (cs_messages ?s) (ag_schemas ag @ (if open_job ?s \<noteq> None then [ask_tool] else []))"
  obtain v where v: "?m = Inr v"
    using assms(1) unfolding chat_turn_def Let_def by (cases ?m) simp_all
  obtain d where "v = JObj d" using assms(1) unfolding chat_turn_def Let_def v rbind_Inr by (cases v) simp_all
  with v have d: "?m = Inr (JObj d)" by simp
  let ?s2 = "?s\<lparr>cs_messages := cs_messages ?s @ [d]\<rparr>"
  have k2: "keeps_calls (ag_digest ag) (cx_session_id cx) C ?s2"
    by (rule settles_keeps [OF k1 settles_same_panel]) (auto simp: answered_def)
  note run = assms(1) [unfolded chat_turn_def Let_def d rbind_Inr json.case]
  show ?thesis
  proof (cases "truthy (dict_get d ''tool_calls'' JNull)")
    case True
    with run obtain cs cx' st3 asked where rc: "run_calls ag clock cx ?s2 cs False = Inr (cx', st3, asked)"
      and st3: "cp_state pr = st3"
      by (auto simp: chat_propose_def result_simps split: if_splits json.splits)
    from run_calls_keeps [OF rc assms(2) k2] obtain calls :: "tool_call list" where
      "keeps_calls (ag_digest ag) (cx_session_id cx) (C \<union> tc_id ` set calls) st3" by blast
    then show ?thesis unfolding st3 by (rule keeps_calls_mono) simp
  next
    case False
    with run have "cp_state pr = ?s2 \<or> (\<exists>c. finish_job ag cx ?s2 inc c ''completed'' = Inr pr)"
      by (auto simp: chat_propose_def result_simps split: if_splits option.splits)
    with k2 finish_job_keeps show ?thesis by metis
  qed
qed

lemma chat_ingest_keeps:
  assumes "chat_ingest ag now st mail = Inr step" and "keeps_calls digest sid C st"
  shows "keeps_calls digest sid C (step_state step)"
proof -
  from assms(1) obtain p rs os st1 s where a: "panel_ingest (cs_panel st) mail = Inr (p, rs, os)"
    "fold_res (fold_reply ag) (st\<lparr>cs_panel := p\<rparr>) rs = Inr st1" "take_others ag st1 os = Inr s"
    "step = (case s of Cancelled st2 \<Rightarrow> Cancelled st2
       | Continue st2 \<Rightarrow> Continue (flush (foldl promote_due st2 (due (cs_panel st2) now))))"
    by (auto simp: chat_ingest_def result_simps)
  have k: "keeps_calls digest sid C (step_state s)"
    by (rule take_others_keeps [OF a(3) replies_keep [OF a(1,2) assms(2)]])
  show ?thesis
  proof (cases s)
    case (Continue st2)
    have "settles st2 (flush (foldl promote_due st2 (due (cs_panel st2) now)))"
      by (rule settles_trans [OF settles_foldl [OF settles_due] settles_flush])
    with k Continue a(4) settles_keeps show ?thesis by simp
  qed (use k a(4) in simp)
qed

text \<open>The chat handler keeps every call, whatever mail it gets.\<close>

lemma chat_resume_keeps:
  assumes "chat_resume ag now clock cx st mail = Inr pr" and "inj (ag_digest ag)"
    and "keeps_calls (ag_digest ag) (cx_session_id cx) C st"
  shows "keeps_calls (ag_digest ag) (cx_session_id cx) C (cp_state pr)"
proof -
  from assms(1) obtain inc step where s: "chat_ingest ag now st mail = Inr step"
    and run: "(case step of
       Cancelled st2 \<Rightarrow> finish_job ag cx st2 inc (JStr []) ''cancelled''
     | Continue st3 \<Rightarrow>
         if cx_has_more cx then Inr (chat_propose cx st3 inc None False)
         else if waiting (cs_panel st3) \<noteq> []
         then Inr (chat_propose cx st3 inc (next_deadline (cs_panel st3)) False)
         else if last_role st3 \<notin> {Some (JStr ''user''), Some (JStr ''tool'')}
         then Inr (chat_propose cx st3 inc None False)
         else if (case open_job st3 of None \<Rightarrow> False | Some j \<Rightarrow> jb_status j = ''input_required'')
                 \<and> last_role st3 = Some (JStr ''tool'')
         then Inr (chat_propose cx st3 inc None False)
         else chat_turn ag clock cx st3 inc) = Inr pr"
    by (auto simp: chat_resume_def result_simps)
  note k = chat_ingest_keeps [OF s assms(3)]
  show ?thesis
  proof (cases step)
    case (Continue st3)
    with run have "cp_state pr = st3 \<or> chat_turn ag clock cx st3 inc = Inr pr"
      by (auto simp: chat_propose_def split: if_splits)
    with k Continue chat_turn_keeps [OF _ assms(2)] show ?thesis by auto
  next
    case (Cancelled st2)
    with run k finish_job_keeps show ?thesis by auto
  qed
qed

subsection \<open>The messages during ingestion\<close>

lemma messages_interrupt: "cs_messages (interrupt_one st item) = cs_messages st"
  by (cases item) (simp add: interrupt_one_def defer_to_tool_def promote_at_def Let_def)

lemma messages_deliver: "cs_messages (deliver_message m st) = cs_messages st"
proof -
  have "cs_messages (foldl interrupt_one st xs) = cs_messages st" for xs
    by (induction xs arbitrary: st) (simp_all add: messages_interrupt)
  then show ?thesis by (simp add: deliver_message_def Let_def)
qed

lemma messages_settle: "cs_messages (settle ag r a c st) = cs_messages st"
  by (simp add: settle_def Let_def messages_deliver defer_to_tool_def promote_at_def)

lemma messages_failed: "cs_messages (foldl (settle_failed ag) st items) = cs_messages st"
  by (induction items arbitrary: st) (auto simp: settle_failed_def messages_settle Let_def)

lemma messages_replies: "fold_res (fold_reply ag) st rs = Inr st' \<Longrightarrow> cs_messages st' = cs_messages st"
proof (induction rs arbitrary: st)
  case (Cons r rs)
  from Cons.prems obtain st1 where s: "fold_reply ag st r = Inr st1" "fold_res (fold_reply ag) st1 rs = Inr st'"
    by (auto simp: result_simps)
  have "cs_messages st1 = cs_messages st"
    using s(1) by (auto simp: fold_reply_def Let_def result_simps messages_settle split: if_splits)
  with Cons.IH [OF s(2)] show ?case by simp
qed simp

lemma messages_mail: "take_mail ag st e = Inr step \<Longrightarrow> cs_messages (step_state step) = cs_messages st"
  by (erule take_mail_cases) (simp_all add: messages_deliver messages_failed)

lemma messages_others: "take_others ag st events = Inr step \<Longrightarrow> cs_messages (step_state step) = cs_messages st"
proof (induction events arbitrary: st)
  case (Cons e events)
  from Cons.prems obtain s where s: "take_mail ag st e = Inr s"
    and r: "(case s of Continue st' \<Rightarrow> take_others ag st' events | Cancelled st' \<Rightarrow> Inr (Cancelled st')) = Inr step"
    by (auto simp: result_simps)
  show ?case by (cases s) (use messages_mail [OF s] r Cons.IH in auto)
qed auto

lemma messages_due: "cs_messages (foldl promote_due st rs) = cs_messages st"
  by (induction rs arbitrary: st)
    (auto simp: promote_due_def defer_to_tool_def promote_at_def Let_def split: option.splits)

lemma messages_flush: "waiting (cs_panel (flush st)) \<noteq> [] \<Longrightarrow> cs_messages (flush st) = cs_messages st"
  by (simp add: flush_def split: if_splits)

lemma messages_ingest:
  assumes "chat_ingest ag now st mail = Inr (Continue st1)" and "waiting (cs_panel st1) \<noteq> []"
  shows "cs_messages st1 = cs_messages st"
proof -
  from assms(1) obtain p rs os st0 s where b: "fold_res (fold_reply ag) (st\<lparr>cs_panel := p\<rparr>) rs = Inr st0"
    "take_others ag st0 os = Inr s" "(case s of Cancelled st2 \<Rightarrow> Cancelled st2
       | Continue st2 \<Rightarrow> Continue (flush (foldl promote_due st2 (due (cs_panel st2) now)))) = Continue st1"
    by (auto simp: chat_ingest_def result_simps)
  from b(3) obtain st2 where "s = Continue st2" "st1 = flush (foldl promote_due st2 (due (cs_panel st2) now))"
    by (cases s) auto
  with b have a: "fold_res (fold_reply ag) (st\<lparr>cs_panel := p\<rparr>) rs = Inr st0"
    "take_others ag st0 os = Inr (Continue st2)" "st1 = flush (foldl promote_due st2 (due (cs_panel st2) now))" by simp_all
  from messages_replies [OF a(1)] messages_others [OF a(2)] a(3) assms(2) show ?thesis
    by (simp add: messages_flush messages_due)
qed

subsection \<open>Finishing\<close>

text \<open>The one way to complete: the job is answered with one result, addressed to its requester.\<close>

definition job_answered :: "context_data \<Rightarrow> chat_proposal \<Rightarrow> bool" where
  "job_answered cx pr \<longleftrightarrow> (\<exists>j p. cs_work (cp_state pr) = Some j \<and> jb_status j \<in> {''completed'', ''cancelled''}
     \<and> cx_publish (cp_context pr) = cx_publish cx @ [p] \<and> pub_session_id p = jb_reply_to j
     \<and> map_of (pub_event p) ''kind'' = Some (JStr ''result'')
     \<and> map_of (pub_event p) ''request_id'' = Some (JStr (jb_request_id j)))"

lemma finish_answers:
  "finish_job ag cx st inc content status = Inr pr \<Longrightarrow> status \<in> {''completed'', ''cancelled''} \<Longrightarrow>
     cp_incorporated pr = inc \<and> cp_complete pr \<and> job_answered cx pr"
  by (auto simp: finish_job_def result_simps reply_Inr chat_propose_def job_answered_def split: option.splits)

lemma turn_answers:
  assumes "chat_turn ag clock cx st inc = Inr pr"
  shows "cp_incorporated pr = inc \<and> (cp_complete pr \<longrightarrow> job_answered cx pr)"
proof -
  let ?s = "ensure_system_prompt ag cx st"
  let ?m = "ag_complete ag (cs_messages ?s) (ag_schemas ag @ (if open_job ?s \<noteq> None then [ask_tool] else []))"
  obtain v where v: "?m = Inr v"
    using assms(1) unfolding chat_turn_def Let_def by (cases ?m) simp_all
  obtain d where "v = JObj d" using assms(1) unfolding chat_turn_def Let_def v rbind_Inr by (cases v) simp_all
  with v have d: "?m = Inr (JObj d)" by simp
  note run = assms(1) [unfolded chat_turn_def Let_def d rbind_Inr json.case]
  show ?thesis
  proof (cases "truthy (dict_get d ''tool_calls'' JNull)")
    case True
    with run show ?thesis by (auto simp: chat_propose_def result_simps split: if_splits json.splits)
  next
    case False
    with run show ?thesis
      by (auto simp: chat_propose_def result_simps dest: finish_answers split: if_splits option.splits)
  qed
qed

subsection \<open>Messages end interruptible waits\<close>

definition still_message :: "panel \<Rightarrow> string \<times> nat \<Rightarrow> dict" where
  "still_message p item = (let e = tb_heap p ! snd item in
     tool_message (pe_tool_call_id e) (en_label e) (still_running e))"

lemma interrupts:
  assumes "distinct (map snd items)" and "\<forall>(r, a) \<in> set items. a < length (tb_heap (cs_panel st))"
  shows "let st' = foldl interrupt_one st items; h = tb_heap (cs_panel st);
      I = filter (\<lambda>(r, a). pe_interruptible (h ! a)) items in
    tb_index (cs_panel st') = tb_index (cs_panel st) \<and> length (tb_heap (cs_panel st')) = length h
    \<and> (\<forall>b. tb_heap (cs_panel st') ! b = (if b \<in> snd ` set I then (h ! b)\<lparr>pe_mode := ''connected''\<rparr> else h ! b))
    \<and> cs_deferred st' = cs_deferred st @ map (still_message (cs_panel st)) I \<and> cs_buffered st' = cs_buffered st"
  using assms
proof (induction items arbitrary: st)
  case Nil
  then show ?case by simp
next
  case (Cons x items)
  obtain r a where x: "x = (r, a)" by (cases x)
  let ?h = "tb_heap (cs_panel st)" and ?st1 = "interrupt_one st x"
  have a: "a < length ?h" "a \<notin> snd ` set items" using Cons.prems by (auto simp: x)
  have idx: "tb_index (cs_panel ?st1) = tb_index (cs_panel st)" "length (tb_heap (cs_panel ?st1)) = length ?h"
    by (simp_all add: interrupt_one_def x Let_def promote_at_def set_entry_def)
  have h1: "tb_heap (cs_panel ?st1) ! b = (if pe_interruptible (?h ! a) \<and> b = a then (?h ! b)\<lparr>pe_mode := ''connected''\<rparr> else ?h ! b)" for b
    using a by (simp add: interrupt_one_def x Let_def heap_promote)
  have d1: "cs_deferred ?st1 = cs_deferred st @ (if pe_interruptible (?h ! a) then [still_message (cs_panel st) x] else [])"
    "cs_buffered ?st1 = cs_buffered st"
    using a by (simp_all add: interrupt_one_def x Let_def defer_to_tool_def heap_promote still_message_def)
      (simp_all add: promote_at_def)
  have same: "filter (\<lambda>(r, a). pe_interruptible (tb_heap (cs_panel ?st1) ! a)) items = filter (\<lambda>(r, a). pe_interruptible (?h ! a)) items"
    using h1 by (intro filter_cong) auto
  have still: "map (still_message (cs_panel ?st1)) (filter (\<lambda>(r, a). pe_interruptible (?h ! a)) items)
      = map (still_message (cs_panel st)) (filter (\<lambda>(r, a). pe_interruptible (?h ! a)) items)"
    using h1 a(2) by (intro map_cong) (auto simp: still_message_def Let_def still_running_def)
  have "distinct (map snd items)" "\<forall>(r, a) \<in> set items. a < length (tb_heap (cs_panel ?st1))"
    using Cons.prems idx by auto
  from Cons.IH [OF this, unfolded same Let_def still] h1 idx d1 a(2) show ?case
    unfolding Let_def by (auto simp: x)
qed

lemma deliver_interrupts:
  assumes "table_ok (cs_panel st)"
  shows "waiting (cs_panel (deliver_message m st)) = filter (\<lambda>(r, a). \<not> pe_interruptible (tb_heap (cs_panel st) ! a)) (waiting (cs_panel st))
    \<and> cs_deferred (deliver_message m st) = cs_deferred st
        @ map (still_message (cs_panel st)) (filter (\<lambda>(r, a). pe_interruptible (tb_heap (cs_panel st) ! a)) (waiting (cs_panel st)))
    \<and> cs_buffered (deliver_message m st) = cs_buffered st @ [m]"
proof -
  let ?p = "cs_panel st" and ?st = "foldl interrupt_one st (waiting (cs_panel st))"
  let ?I = "filter (\<lambda>(r, a). pe_interruptible (tb_heap ?p ! a)) (waiting ?p)"
  have d: "distinct (map snd (waiting ?p))" "\<forall>(r, a) \<in> set (waiting ?p). a < length (tb_heap ?p)"
    using assms by (auto simp: waiting_def panel_items_def table_ok_def distinct_map_filter)
  from interrupts [OF d, unfolded Let_def]
  have i: "tb_index (cs_panel ?st) = tb_index ?p"
    and h: "\<And>b. tb_heap (cs_panel ?st) ! b = (if b \<in> snd ` set ?I then (tb_heap ?p ! b)\<lparr>pe_mode := ''connected''\<rparr> else tb_heap ?p ! b)"
    and r: "cs_deferred ?st = cs_deferred st @ map (still_message ?p) ?I" "cs_buffered ?st = cs_buffered st" by auto
  let ?n = "\<lambda>x. case x of (r, a) \<Rightarrow> pe_mode (tb_heap ?p ! a) = ''wait''"
  let ?q = "\<lambda>x. case x of (r, a) \<Rightarrow> \<not> pe_interruptible (tb_heap ?p ! a)"
  have w: "waiting (cs_panel ?st) = filter (\<lambda>(r, a). pe_mode (tb_heap (cs_panel ?st) ! a) = ''wait'') (tb_index ?p)"
    by (subst waiting_def) (simp only: panel_items_def i)
  have "(case x of (r, a) \<Rightarrow> pe_mode (tb_heap (cs_panel ?st) ! a) = ''wait'') = (?n x \<and> ?q x)" if x: "x \<in> set (tb_index ?p)" for x
  proof -
    obtain r a where ra: "x = (r, a)" by (cases x)
    have "a \<in> snd ` set ?I \<longleftrightarrow> pe_mode (tb_heap ?p ! a) = ''wait'' \<and> pe_interruptible (tb_heap ?p ! a)"
    proof
      assume "a \<in> snd ` set ?I"
      then obtain s where "(s, a) \<in> set ?I" by auto
      then show "pe_mode (tb_heap ?p ! a) = ''wait'' \<and> pe_interruptible (tb_heap ?p ! a)" by (simp add: waiting_def)
    next
      assume "pe_mode (tb_heap ?p ! a) = ''wait'' \<and> pe_interruptible (tb_heap ?p ! a)"
      with x have "(r, a) \<in> set ?I" by (simp add: waiting_def panel_items_def ra)
      then show "a \<in> snd ` set ?I" by force
    qed
    then show ?thesis by (simp add: ra h) blast
  qed
  then have "waiting (cs_panel ?st) = filter (\<lambda>x. ?n x \<and> ?q x) (tb_index ?p)" unfolding w by (intro filter_cong) simp_all
  moreover have "filter (\<lambda>x. ?n x \<and> ?q x) (tb_index ?p) = filter ?q (waiting ?p)"
    by (simp only: waiting_def panel_items_def filter_filter)
  ultimately have "waiting (cs_panel ?st) = filter ?q (waiting ?p)" by simp
  with r show ?thesis by (simp add: deliver_message_def Let_def)
qed

end
