(* ===== verification/Turn_Properties.thy ===== *)
theory Turn_Properties
  imports Turn_Laws
begin

text \<open>
  What the chat agent promises: no tool call is lost and each call of a reply is answered or held,
  a held call keeps the model waiting, all mail of an activation is acknowledged, and a user
  message ends every interruptible wait with one answer.
\<close>

subsection \<open>A small agent\<close>

definition demo_agent :: agent where
  "demo_agent = new_agent
     (\<lambda>ms ss. Inr (if length ms < 3 then JObj [(''role'', JStr ''assistant''), (''content'', JStr ''done'')]
        else JObj [(''role'', JStr ''assistant''), (''content'', JNull), (''tool_calls'', JList
          [JObj [(''id'', JStr ''c2''), (''function'', JObj [(''name'', JStr ''research''), (''arguments'', JStr ''x'')])],
           JObj [(''id'', JStr ''c3''), (''function'', JObj [(''name'', JStr ''missing''), (''arguments'', JStr [])])]])]))
     [] NoPrompt None
     [\<lparr>pp_name = ''research'', pp_definition = ''worker:v1'', pp_description = ''Delegate'', pp_modes = [''wait''],
       pp_budget = Some 60, pp_interruptible = True, pp_grants = [''cancel'']\<rparr>]
     id (\<lambda>v. Inr ''json'') (\<lambda>t. Inr (JObj [(''task'', JStr t)])) (\<lambda>v. ''?'')"

definition waiting_entry :: panel_entry where
  "waiting_entry = \<lparr>en_to = ''s:c1'', en_label = ''research'', pe_mode = ''wait'', pe_status = JStr ''working'',
     pe_tool_call_id = Some ''c1'', pe_until = Some 60, pe_interruptible = True, pe_question = JNull,
     pe_progress = JNull, pe_fenced = False, pe_grants = None\<rparr>"

definition chat_demo :: chat_state where
  "chat_demo = \<lparr>cs_messages = [user_message (JStr ''hi''), [(''role'', JStr ''assistant''), (''content'', JNull)]],
     cs_panel = load_table [(mail_event_id id ''s'' ''c1'', waiting_entry)], cs_deferred = [], cs_buffered = [],
     cs_work = None\<rparr>"

definition chat_context :: context_data where
  "chat_context = \<lparr>cx_session_id = ''s'', cx_definition = ''chat:v1'', cx_upgrading_from = None, cx_attempt = 1,
     cx_last_error = None, cx_activation_id = ''t'', cx_config = JObj [], cx_has_more = False, cx_publish = [], cx_spawn = []\<rparr>"

definition result_mail :: dict where
  "result_mail = [(''event_id'', JStr ''e1''), (''kind'', JStr ''result''), (''source'', JStr ''s:c1''),
     (''request_id'', JStr (mail_event_id id ''s'' ''c1'')), (''payload'', JObj [(''text'', JStr ''found'')])]"

definition user_mail :: dict where
  "user_mail = [(''event_id'', JStr ''e2''), (''kind'', JStr ''user''), (''payload'', JObj [(''text'', JStr ''stop'')])]"

definition ask_mail :: dict where
  "ask_mail = [(''event_id'', JStr ''e0''), (''kind'', JStr ''ask''), (''source'', JStr ''s:c1''),
     (''request_id'', JStr (mail_event_id id ''s'' ''c1'')), (''payload'', JObj [(''text'', JStr ''which?'')])]"

lemma demo_keeps: "keeps_calls (ag_digest demo_agent) (cx_session_id chat_context) {''c1''} chat_demo"
proof -
  have p: "cs_panel chat_demo = \<lparr>tb_index = [(mail_event_id id ''s'' ''c1'', 0)], tb_heap = [waiting_entry]\<rparr>"
    by (simp add: chat_demo_def load_table_def)
  have "panel_ok id ''s'' (cs_panel chat_demo)"
    by (simp add: p panel_ok_def table_ok_def dict_ok_def entry_ok_def waiting_entry_def)
  moreover have "''c1'' \<in> accounted chat_demo"
    by (simp add: accounted_def held_def addresses_def p) (simp add: waiting_entry_def)
  ultimately show ?thesis by (simp add: keeps_calls_def demo_agent_def new_agent_def chat_context_def)
qed

lemma demo_inj: "inj (ag_digest demo_agent)"
  by (simp add: demo_agent_def new_agent_def)

text \<open>
  A question and the result of one awaited request in one batch are each written as the tool
  result of the same call: the conversation gets two tool messages for one call ID.
\<close>

lemma ask_and_result_answer_twice:
  "case chat_ingest demo_agent 0 chat_demo [ask_mail, result_mail] of
     Inr (Continue st) \<Rightarrow> map (\<lambda>m. map_of m ''tool_call_id'') (drop 2 (cs_messages st)) = [Some (JStr ''c1''), Some (JStr ''c1'')]
   | _ \<Rightarrow> False"
  by code_simp

subsection \<open>Properties\<close>

text \<open>
  C15. No tool call is ever lost. If every call of \<open>C\<close> is answered by a tool message or held by a
  waiting entry of a well-formed panel, the same is true of the state any activation proposes,
  for any mail, any model and any tools.
\<close>

theorem tool_calls_never_lost:
  assumes "inj (ag_digest ag)" and "panel_ok (ag_digest ag) (cx_session_id cx) (cs_panel st)" and "C \<subseteq> accounted st"
    and "chat_resume ag now clock cx st mail = Inr pr"
  shows "panel_ok (ag_digest ag) (cx_session_id cx) (cs_panel (cp_state pr)) \<and> C \<subseteq> accounted (cp_state pr)"
  using chat_resume_keeps [OF assms(4,1), of C] assms(2,3) by (simp add: keeps_calls_def)

theorem tool_calls_never_lost_witness:
  "\<exists>pr. chat_resume demo_agent 0 (\<lambda>i. 0) chat_context chat_demo [result_mail] = Inr pr \<and> ''c1'' \<in> accounted (cp_state pr)"
proof -
  have "case chat_resume demo_agent 0 (\<lambda>i. 0) chat_context chat_demo [result_mail] of Inr pr \<Rightarrow> True | _ \<Rightarrow> False" by code_simp
  then obtain pr where r: "chat_resume demo_agent 0 (\<lambda>i. 0) chat_context chat_demo [result_mail] = Inr pr"
    by (auto split: sum.splits)
  have "panel_ok (ag_digest demo_agent) (cx_session_id chat_context) (cs_panel chat_demo)" "{''c1''} \<subseteq> accounted chat_demo"
    using demo_keeps by (simp_all add: keeps_calls_def)
  from tool_calls_never_lost [OF demo_inj this r] r show ?thesis by blast
qed

text \<open>
  Every call of a reply is answered or held. Running the calls of a model's reply reads each of
  them, and each is then answered by a tool message or held by a waiting entry, together with every
  call that was before; the context stays that of the session.
\<close>

theorem every_call_is_taken:
  assumes "inj (ag_digest ag)" and "panel_ok (ag_digest ag) (cx_session_id cx) (cs_panel st)" and "C \<subseteq> accounted st"
    and "run_calls ag clock cx st raws asked = Inr (cx', st', asked')"
  shows "cx_session_id cx' = cx_session_id cx
     \<and> (\<exists>calls. map (read_call ag) raws = map Inr calls \<and> C \<union> tc_id ` set calls \<subseteq> accounted st')"
proof -
  have "keeps_calls (ag_digest ag) (cx_session_id cx) C st" using assms(2,3) by (simp add: keeps_calls_def)
  from run_calls_keeps [OF assms(4,1) this] show ?thesis by (auto simp: keeps_calls_def)
qed

definition demo_calls :: "json list" where
  "demo_calls =
     [JObj [(''id'', JStr ''c2''), (''function'', JObj [(''name'', JStr ''research''), (''arguments'', JStr ''x'')])],
      JObj [(''id'', JStr ''c3''), (''function'', JObj [(''name'', JStr ''missing''), (''arguments'', JStr [])])]]"

theorem every_call_is_taken_witness:
  "\<exists>cx' st' a. run_calls demo_agent (\<lambda>i. 0) chat_context chat_demo demo_calls False = Inr (cx', st', a)
     \<and> {''c1'', ''c2'', ''c3''} \<subseteq> accounted st'"
proof -
  have "case run_calls demo_agent (\<lambda>i. 0) chat_context chat_demo demo_calls False of Inr (cx', st', a) \<Rightarrow> True | _ \<Rightarrow> False"
    by code_simp
  then obtain cx' st' a where r: "run_calls demo_agent (\<lambda>i. 0) chat_context chat_demo demo_calls False = Inr (cx', st', a)"
    by (auto split: sum.splits prod.splits)
  have k: "panel_ok (ag_digest demo_agent) (cx_session_id chat_context) (cs_panel chat_demo)" "{''c1''} \<subseteq> accounted chat_demo"
    using demo_keeps by (simp_all add: keeps_calls_def)
  from every_call_is_taken [OF demo_inj k r] obtain calls :: "tool_call list"
    where c: "map (read_call demo_agent) demo_calls = map Inr calls" "{''c1''} \<union> tc_id ` set calls \<subseteq> accounted st'" by blast
  have "map (\<lambda>x. case x of Inr c \<Rightarrow> tc_id c | _ \<Rightarrow> []) (map (read_call demo_agent) demo_calls) = [''c2'', ''c3'']" by code_simp
  then have "map tc_id calls = [''c2'', ''c3'']" unfolding c(1) by (simp add: comp_def)
  then have "tc_id ` set calls = {''c2'', ''c3''}" by (metis list.set(1) list.set_map list.simps(15))
  with c(2) r show ?thesis by auto
qed


text \<open>
  A held call holds the conversation. When a wait is still open after an activation has taken
  its mail, the model is not called: the messages stay exactly as they were, nothing is sent, and
  the session parks until mail or, with no more mail queued, until the first budget runs out.
\<close>

theorem held_call_holds_the_model:
  assumes "chat_resume ag now clock cx st mail = Inr pr" and "chat_ingest ag now st mail = Inr (Continue st1)"
    and "waiting (cs_panel st1) \<noteq> []"
  shows "cp_state pr = st1 \<and> cs_messages (cp_state pr) = cs_messages st \<and> cp_context pr = cx \<and> \<not> cp_complete pr
     \<and> cp_deadline pr = (if cx_has_more cx then None else next_deadline (cs_panel st1))"
proof -
  have "cs_messages st1 = cs_messages st" using assms(2,3) by (rule messages_ingest)
  moreover from assms obtain inc where "pr = chat_propose cx st1 inc
      (if cx_has_more cx then None else next_deadline (cs_panel st1)) False"
    by (cases "cx_has_more cx") (auto simp: chat_resume_def result_simps)
  ultimately show ?thesis by (simp add: chat_propose_def)
qed

theorem held_call_holds_the_model_witness:
  "\<exists>pr. chat_resume demo_agent 0 (\<lambda>i. 0) chat_context chat_demo [] = Inr pr \<and> cp_deadline pr = Some 60
     \<and> cs_messages (cp_state pr) = cs_messages chat_demo"
proof -
  have "case chat_resume demo_agent 0 (\<lambda>i. 0) chat_context chat_demo [] of Inr pr \<Rightarrow> True | _ \<Rightarrow> False" by code_simp
  then obtain pr where r: "chat_resume demo_agent 0 (\<lambda>i. 0) chat_context chat_demo [] = Inr pr" by (auto split: sum.splits)
  have "case chat_ingest demo_agent 0 chat_demo [] of
      Inr (Continue s) \<Rightarrow> waiting (cs_panel s) \<noteq> [] \<and> next_deadline (cs_panel s) = Some 60 | _ \<Rightarrow> False" by code_simp
  then obtain s where s: "chat_ingest demo_agent 0 chat_demo [] = Inr (Continue s)" "waiting (cs_panel s) \<noteq> []"
    "next_deadline (cs_panel s) = Some 60" by (auto split: sum.splits mail_step.splits)
  have "\<not> cx_has_more chat_context" by (simp add: chat_context_def)
  with held_call_holds_the_model [OF r s(1,2)] r s(3) show ?thesis by auto
qed

text \<open>
  All mail is acknowledged, and finishing answers the caller. Every proposal incorporates
  exactly the event IDs of the delivered mail, in order; a completing one answers the job with one
  result sent to its requester, after everything staged before.
\<close>

theorem mail_is_acknowledged:
  assumes "chat_resume ag now clock cx st mail = Inr pr"
  shows "event_ids mail = Inr (cp_incorporated pr) \<and> (cp_complete pr \<longrightarrow> job_answered cx pr)"
proof -
  from assms obtain inc step where i: "event_ids mail = Inr inc" and s: "chat_ingest ag now st mail = Inr step"
    by (auto simp: chat_resume_def result_simps)
  note run = assms [unfolded chat_resume_def i s rbind_Inr]
  show ?thesis
  proof (cases step)
    case (Cancelled st2)
    with run have "finish_job ag cx st2 inc (JStr []) ''cancelled'' = Inr pr" by simp
    from finish_answers [OF this] i show ?thesis by simp
  next
    case (Continue st3)
    with run have "cp_incorporated pr = inc \<and> \<not> cp_complete pr \<or> chat_turn ag clock cx st3 inc = Inr pr"
      by (auto simp: chat_propose_def split: if_splits)
    with i turn_answers show ?thesis by blast
  qed
qed

definition job_demo :: chat_state where
  "job_demo = \<lparr>cs_messages = [user_message (JStr ''hi'')], cs_panel = load_table [], cs_deferred = [], cs_buffered = [],
     cs_work = Some \<lparr>jb_status = ''working'', jb_request_id = ''q'', jb_reply_to = ''boss''\<rparr>\<rparr>"

theorem mail_is_acknowledged_witness:
  "\<exists>pr. chat_resume demo_agent 0 (\<lambda>i. 0) chat_context job_demo [] = Inr pr \<and> job_answered chat_context pr"
proof -
  have "case chat_resume demo_agent 0 (\<lambda>i. 0) chat_context job_demo [] of Inr pr \<Rightarrow> cp_complete pr | _ \<Rightarrow> False" by code_simp
  then obtain pr where r: "chat_resume demo_agent 0 (\<lambda>i. 0) chat_context job_demo [] = Inr pr" "cp_complete pr"
    by (auto split: sum.splits)
  from mail_is_acknowledged [OF r(1)] r show ?thesis by blast
qed

text \<open>
  A message to the agent ends every interruptible wait, each with one tool result. After a message
  is delivered only uninterruptible waits remain; the deferred results grow by one notice for each
  interrupted call, in panel order, and the message itself is queued behind them.
\<close>

theorem messages_end_waits:
  assumes "table_ok (cs_panel st)"
  shows "waiting (cs_panel (deliver_message m st)) = filter (\<lambda>(r, a). \<not> pe_interruptible (tb_heap (cs_panel st) ! a)) (waiting (cs_panel st))
    \<and> cs_deferred (deliver_message m st) = cs_deferred st
        @ map (still_message (cs_panel st)) (filter (\<lambda>(r, a). pe_interruptible (tb_heap (cs_panel st) ! a)) (waiting (cs_panel st)))
    \<and> cs_buffered (deliver_message m st) = cs_buffered st @ [m] \<and> cs_messages (deliver_message m st) = cs_messages st"
  using deliver_interrupts [OF assms, of m] by (simp add: messages_deliver)

theorem messages_end_waits_witness:
  "waiting (cs_panel (deliver_message (user_message (JStr ''stop'')) chat_demo)) = []
     \<and> length (cs_deferred (deliver_message (user_message (JStr ''stop'')) chat_demo)) = 1"
proof -
  have "table_ok (cs_panel chat_demo)" using demo_keeps by (auto simp: keeps_calls_def panel_ok_def)
  note m = messages_end_waits [OF this, of "user_message (JStr ''stop'')"]
  have "filter (\<lambda>(r, a). \<not> pe_interruptible (tb_heap (cs_panel chat_demo) ! a)) (waiting (cs_panel chat_demo)) = []"
    "length (filter (\<lambda>(r, a). pe_interruptible (tb_heap (cs_panel chat_demo) ! a)) (waiting (cs_panel chat_demo))) = 1"
    "cs_deferred chat_demo = []" by code_simp+
  with m show ?thesis by simp
qed

end
