(* ===== verification/Monitors.thy ===== *)
theory Monitors
  imports Py_Values
begin

text \<open>
  Monitors, declared expectations over events (\<open>entourage/monitors.py\<close>: \<open>Monitor\<close> and the reference
  store \<open>InMemoryMonitorStore\<close>). A deadline monitor is satisfied once or lapses once; a heartbeat
  is refreshed by every observation and lapses once per quiet spell. \<open>now\<close> is a call's clock reading.
\<close>

subsection \<open>Declarations and records\<close>

record monitor =
  mn_notify :: string
  mn_id :: "string option"
  mn_correlation :: "string option"
  mn_source :: "string option"
  mn_deadline :: "rat option"
  mn_interval :: "rat option"

definition new_monitor ::
    "string \<Rightarrow> string option \<Rightarrow> string option \<Rightarrow> string option \<Rightarrow> rat option \<Rightarrow> rat option \<Rightarrow> monitor res" where
  "new_monitor notify i correlation source deadline interval =
     (if notify = [] then Inl (ValueError ''Monitor needs a notify conversation'')
      else if (deadline = None) = (interval = None) then Inl (ValueError ''Monitor needs exactly one of deadline/interval'')
      else if (case interval of None \<Rightarrow> False | Some x \<Rightarrow> x \<le> 0) then Inl (ValueError ''interval must be > 0'')
      else if correlation = None \<and> source = None then Inl (ValueError ''Monitor needs correlation_id and/or source'')
      else Inr \<lparr>mn_notify = notify, mn_id = i, mn_correlation = correlation, mn_source = source,
                mn_deadline = deadline, mn_interval = interval\<rparr>)"

text \<open>\<open>monitor_to_dict\<close>: the dictionary a transition records, without the absent fields.\<close>

definition opt_field :: "string \<Rightarrow> ('a \<Rightarrow> json) \<Rightarrow> 'a option \<Rightarrow> dict" where
  "opt_field k f v = (case v of None \<Rightarrow> [] | Some x \<Rightarrow> [(k, f x)])"

definition monitor_to_dict :: "monitor \<Rightarrow> dict" where
  "monitor_to_dict m =
     [(''notify'', JStr (mn_notify m))] @ opt_field ''monitor_id'' JStr (mn_id m)
     @ opt_field ''correlation_id'' JStr (mn_correlation m) @ opt_field ''source'' JStr (mn_source m)
     @ opt_field ''deadline'' (\<lambda>t. JFloat (Fin t)) (mn_deadline m) @ opt_field ''interval'' (\<lambda>t. JFloat (Fin t)) (mn_interval m)"

record armed = monitor +
  ar_last_seen :: rat
  ar_lapsed :: bool
  ar_cycles :: nat

type_synonym monitor_store = "(string \<times> armed) list"

text \<open>\<open>_armed_record\<close> of a declaration, under its monitor ID.\<close>

definition armed_record :: "monitor \<Rightarrow> rat \<Rightarrow> armed" where
  "armed_record m now =
     \<lparr>mn_notify = mn_notify m, mn_id = mn_id m, mn_correlation = mn_correlation m, mn_source = mn_source m,
      mn_deadline = mn_deadline m, mn_interval = mn_interval m, ar_last_seen = now, ar_lapsed = False, ar_cycles = 0\<rparr>"

definition named :: "string option \<Rightarrow> string option \<Rightarrow> bool" where
  "named mine seen \<longleftrightarrow> (case mine of None \<Rightarrow> False | Some i \<Rightarrow> i \<noteq> [] \<and> seen = Some i)"

definition monitor_matches :: "armed \<Rightarrow> string option \<Rightarrow> string option \<Rightarrow> bool" where
  "monitor_matches r correlation source \<longleftrightarrow> named (mn_correlation r) correlation \<or> named (mn_source r) source"

text \<open>A record has a deadline or an interval; a missing interval would raise and cannot occur.\<close>

definition is_due :: "armed \<Rightarrow> rat \<Rightarrow> bool" where
  "is_due r now \<longleftrightarrow>
     \<not> ar_lapsed r
     \<and> (case mn_deadline r of
          Some t \<Rightarrow> t \<le> now
        | None \<Rightarrow> (case mn_interval r of None \<Rightarrow> False | Some i \<Rightarrow> i \<le> now - ar_last_seen r))"

subsection \<open>The store\<close>

definition arm_monitor :: "monitor_store \<Rightarrow> string \<Rightarrow> monitor \<Rightarrow> rat \<Rightarrow> monitor_store" where
  "arm_monitor s i m now =
     (case map_of s i of Some r \<Rightarrow> s | None \<Rightarrow> AList.update i (armed_record (m\<lparr>mn_id := Some i\<rparr>) now) s)"

definition disarm_monitor :: "monitor_store \<Rightarrow> string \<Rightarrow> monitor_store \<times> bool" where
  "disarm_monitor s i = (AList.delete i s, map_of s i \<noteq> None)"

fun observe_monitors :: "monitor_store \<Rightarrow> string option \<Rightarrow> string option \<Rightarrow> rat \<Rightarrow> monitor_store \<times> nat" where
  "observe_monitors [] correlation source now = ([], 0)"
| "observe_monitors ((i, r) # s) correlation source now =
     (let (s', n) = observe_monitors s correlation source now in
      if \<not> monitor_matches r correlation source then ((i, r) # s', n)
      else if mn_deadline r \<noteq> None then (s', Suc n)
      else ((i, r\<lparr>ar_last_seen := now, ar_lapsed := False\<rparr>) # s', Suc n))"

definition due_monitors :: "monitor_store \<Rightarrow> rat \<Rightarrow> armed list" where
  "due_monitors s now = filter (\<lambda>r. is_due r now) (map snd s)"

definition mark_lapsed :: "monitor_store \<Rightarrow> string \<Rightarrow> monitor_store" where
  "mark_lapsed s i =
     (case map_of s i of
        None \<Rightarrow> s
      | Some r \<Rightarrow> if mn_deadline r \<noteq> None then AList.delete i s
          else AList.update i (r\<lparr>ar_lapsed := True, ar_cycles := Suc (ar_cycles r)\<rparr>) s)"

definition list_monitors :: "monitor_store \<Rightarrow> armed list" where
  "list_monitors s = map snd s"

subsection \<open>Laws\<close>

definition entry_fits :: "string \<Rightarrow> armed \<Rightarrow> bool" where
  "entry_fits i r \<longleftrightarrow> mn_id r = Some i \<and> (mn_deadline r = None \<longleftrightarrow> mn_interval r \<noteq> None)"

definition well_armed :: "monitor_store \<Rightarrow> bool" where
  "well_armed s \<longleftrightarrow> dict_ok s \<and> (\<forall>(i, r) \<in> set s. entry_fits i r)"

text \<open>An observation removes the satisfied deadlines and refreshes the heartbeats it matches.\<close>

lemma observe_shape:
  "fst (observe_monitors s c src now) =
     map (\<lambda>(i, r). (i, if monitor_matches r c src then r\<lparr>ar_last_seen := now, ar_lapsed := False\<rparr> else r))
       (filter (\<lambda>(i, r). \<not> (monitor_matches r c src \<and> mn_deadline r \<noteq> None)) s)"
proof (induction s)
  case (Cons x s)
  obtain i r where "x = (i, r)" by (cases x)
  with Cons.IH show ?case by (simp add: split_beta Let_def)
qed simp

lemma observe_count: "snd (observe_monitors s c src now) = length (filter (\<lambda>(i, r). monitor_matches r c src) s)"
proof (induction s)
  case (Cons x s)
  obtain i r where "x = (i, r)" by (cases x)
  with Cons.IH show ?case by (simp add: split_beta Let_def)
qed simp

lemma map_of_map_filter:
  "dict_ok s \<Longrightarrow> map_of (map (\<lambda>(i, r). (i, f r)) (filter (\<lambda>(i, r). P r) s)) i =
     (case map_of s i of None \<Rightarrow> None | Some r \<Rightarrow> if P r then Some (f r) else None)"
proof (induction s)
  case (Cons x s)
  obtain k r where x: "x = (k, r)" by (cases x)
  from Cons.prems have d: "dict_ok s" "map_of s k = None" by (auto simp: x dict_ok_def map_of_eq_None_iff)
  show ?case using Cons.IH [OF d(1)] d(2) by (auto simp: x split: option.splits)
qed simp

lemma observe_map_of:
  "dict_ok s \<Longrightarrow> map_of (fst (observe_monitors s c src now)) i =
     (case map_of s i of None \<Rightarrow> None | Some r \<Rightarrow>
        if \<not> monitor_matches r c src then Some r
        else if mn_deadline r \<noteq> None then None else Some (r\<lparr>ar_last_seen := now, ar_lapsed := False\<rparr>))"
  unfolding observe_shape by (subst map_of_map_filter) (auto split: option.splits)

lemma observe_ok: "well_armed s \<Longrightarrow> well_armed (fst (observe_monitors s c src now))"
proof -
  assume ok: "well_armed s"
  have eq: "map fst (fst (observe_monitors s c src now))
      = map fst (filter (\<lambda>(i, r). \<not> (monitor_matches r c src \<and> mn_deadline r \<noteq> None)) s)"
    unfolding observe_shape by (simp add: comp_def split_beta)
  have "dict_ok (fst (observe_monitors s c src now))"
    using ok unfolding dict_ok_def eq by (simp add: well_armed_def dict_ok_def distinct_map_filter)
  moreover have "\<forall>(i, r) \<in> set (fst (observe_monitors s c src now)). entry_fits i r"
    using ok by (auto simp: well_armed_def observe_shape entry_fits_def)
  ultimately show ?thesis by (simp add: well_armed_def)
qed

lemma set_update: "dict_ok d \<Longrightarrow> (k, v) \<in> set (AList.update i x d) \<longleftrightarrow> (if k = i then v = x else (k, v) \<in> set d)"
  using dict_ok_map_of [OF dict_ok_update, of d k v i x] dict_ok_map_of [of d k v] by auto

lemma set_delete: "dict_ok d \<Longrightarrow> (k, v) \<in> set (AList.delete i d) \<longleftrightarrow> k \<noteq> i \<and> (k, v) \<in> set d"
  using dict_ok_map_of [OF dict_ok_delete, of d k v i] dict_ok_map_of [of d k v] by auto

lemma well_armed_update: "well_armed s \<Longrightarrow> entry_fits i r \<Longrightarrow> well_armed (AList.update i r s)"
  by (auto simp: well_armed_def set_update split: if_splits)

lemma well_armed_delete: "well_armed s \<Longrightarrow> well_armed (AList.delete i s)"
  by (auto simp: well_armed_def set_delete)

lemma well_armed_get: "well_armed s \<Longrightarrow> map_of s i = Some r \<Longrightarrow> entry_fits i r"
  by (auto simp: well_armed_def dest!: map_of_SomeD)

lemma arm_ok:
  "well_armed s \<Longrightarrow> (mn_deadline m = None \<longleftrightarrow> mn_interval m \<noteq> None) \<Longrightarrow> well_armed (arm_monitor s i m now)"
  by (auto simp: arm_monitor_def armed_record_def entry_fits_def intro!: well_armed_update split: option.splits)

lemma mark_ok: "well_armed s \<Longrightarrow> well_armed (mark_lapsed s i)"
proof -
  assume ok: "well_armed s"
  have "entry_fits i (r\<lparr>ar_lapsed := True, ar_cycles := Suc (ar_cycles r)\<rparr>)" if "map_of s i = Some r" for r
    using well_armed_get [OF ok that] by (simp add: entry_fits_def)
  with ok show ?thesis by (auto simp: mark_lapsed_def intro: well_armed_update well_armed_delete split: option.splits)
qed

lemma new_monitor_ok: "new_monitor n i c src d iv = Inr m \<Longrightarrow> (mn_deadline m = None \<longleftrightarrow> mn_interval m \<noteq> None)"
  by (auto simp: new_monitor_def split: if_splits)

lemma due_in: "well_armed s \<Longrightarrow> r \<in> set (due_monitors s now) \<Longrightarrow> (\<exists>i. map_of s i = Some r \<and> mn_id r = Some i) \<and> is_due r now"
  by (auto simp: due_monitors_def well_armed_def dict_ok_map_of entry_fits_def)

subsection \<open>Properties\<close>

definition beat :: monitor where
  "beat = \<lparr>mn_notify = ''boss'', mn_id = None, mn_correlation = Some ''job'', mn_source = None, mn_deadline = None, mn_interval = Some 10\<rparr>"



end
