(* ===== verification/Plans.thy ===== *)
theory Plans
  imports Monitors
begin

text \<open>
  Plans of the graph runtime and their expansion: the plan forms (\<open>entourage/flow.py\<close>), a node's
  proposed outcome (\<open>entourage/transition.py\<close>) and the pure staging of plans and spawned children
  (\<open>entourage/runtime/planner.py\<close>). A callable is its name and its object identity; what calling
  it does is an argument of the engine. A random identifier is a value of the argument \<open>ids\<close>, the
  stream of the hexadecimal texts \<open>uuid4\<close> gives, read at a running position.
\<close>

subsection \<open>Plan forms\<close>

datatype leaf = NamedNode string | CallableNode string nat | NoNode string

record wait_params =
  wp_conversation :: "string option"
  wp_timeout :: "rat option"
  wp_limit :: nat

record node_policy =
  po_max_attempts :: "int option"
  po_timeout :: "rat option"
  po_retry_delay :: "rat option"
  po_max_invocations :: "int option"
  po_wait :: "wait_params option"

definition no_policy :: node_policy where
  "no_policy = \<lparr>po_max_attempts = None, po_timeout = None, po_retry_delay = None, po_max_invocations = None, po_wait = None\<rparr>"

datatype plan =
    Leaf leaf
  | PolicyNode leaf node_policy
  | WaitForMailbox wait_params
  | Conditional string plan
  | Sequence "plan list"
  | Parallel "plan list"
  | UnknownPlan string

text \<open>\<open>Node.__init__\<close> and \<open>WaitForMailbox.__init__\<close>.\<close>

definition new_node ::
    "leaf \<Rightarrow> int option \<Rightarrow> rat option \<Rightarrow> rat option \<Rightarrow> int option \<Rightarrow> plan res" where
  "new_node node max_attempts timeout retry_delay max_invocations =
     (if (case max_attempts of None \<Rightarrow> False | Some n \<Rightarrow> n < 1) then Inl (ValueError ''max_attempts must be >= 1'')
      else if (case max_invocations of None \<Rightarrow> False | Some n \<Rightarrow> n < 1) then Inl (ValueError ''max_invocations must be >= 1'')
      else Inr (PolicyNode node \<lparr>po_max_attempts = max_attempts, po_timeout = timeout, po_retry_delay = retry_delay,
             po_max_invocations = max_invocations, po_wait = None\<rparr>))"

definition new_wait :: "string option \<Rightarrow> rat option \<Rightarrow> int \<Rightarrow> plan res" where
  "new_wait conv timeout limit =
     (if (case timeout of None \<Rightarrow> False | Some t \<Rightarrow> t < 0) then Inl (ValueError ''timeout must be >= 0'')
      else if limit < 1 then Inl (ValueError ''limit must be >= 1'')
      else Inr (WaitForMailbox \<lparr>wp_conversation = conv, wp_timeout = timeout, wp_limit = nat limit\<rparr>))"

subsection \<open>Transitions\<close>

record acknowledgement =
  ak_conversation :: string
  ak_event_ids :: "string list"

record outbox_entry =
  ob_target :: string
  ob_conversation :: string
  ob_event :: dict
  ob_event_id :: "string option"

record spawn_request =
  sr_plan :: plan
  sr_state :: dict
  sr_slot :: "string option"
  sr_correlation :: "string option"
  sr_notify :: "string option"

record transition =
  tr_state :: dict
  tr_plan :: "plan option"
  tr_acknowledge :: "acknowledgement list"
  tr_publish :: "outbox_entry list"
  tr_arm :: "monitor list"
  tr_disarm :: "string list"
  tr_spawn :: "spawn_request list"

definition has_effects :: "transition \<Rightarrow> bool" where
  "has_effects t \<longleftrightarrow> tr_acknowledge t \<noteq> [] \<or> tr_publish t \<noteq> [] \<or> tr_arm t \<noteq> [] \<or> tr_disarm t \<noteq> []"

text \<open>What a node returns: a transition, a state with a plan, or a bare state.\<close>

datatype node_value = Full transition | StateAndPlan dict "plan option" | BareState dict

definition plain :: "dict \<Rightarrow> plan option \<Rightarrow> transition" where
  "plain st p = \<lparr>tr_state = st, tr_plan = p, tr_acknowledge = [], tr_publish = [], tr_arm = [], tr_disarm = [], tr_spawn = []\<rparr>"

fun normalize_result :: "node_value \<Rightarrow> transition" where
  "normalize_result (Full t) = t"
| "normalize_result (StateAndPlan st p) = plain st p"
| "normalize_result (BareState st) = plain st None"

subsection \<open>Names\<close>

definition head_name :: string where "head_name = ''__HEAD__''"
definition end_name :: string where "end_name = ''__END__''"
definition merge_name :: string where "merge_name = ''__MERGE__''"
definition gate_prefix :: string where "gate_prefix = ''__GATE__''"
definition wait_name :: string where "wait_name = ''__WAIT__''"

text \<open>The registry of callables: the object registered under each name.\<close>

type_synonym registry = "(string \<times> nat) list"

fun hex_text :: "nat \<Rightarrow> string" where
  "hex_text n = (if n < 16 then [hex_char n] else hex_text (n div 16) @ [hex_char (n mod 16)])"

declare hex_text.simps [simp del]

definition resolve_node :: "leaf \<Rightarrow> registry \<Rightarrow> (string \<times> registry) res" where
  "resolve_node item reg =
     (case item of
        NamedNode n \<Rightarrow> Inr (n, reg)
      | CallableNode n obj \<Rightarrow>
          (case map_of reg n of
             None \<Rightarrow> Inr (n, AList.update n obj reg)
           | Some current \<Rightarrow>
               if current = obj then Inr (n, reg)
               else let name = n @ ''_'' @ hex_text obj in Inr (name, AList.update name obj reg))
      | NoNode t \<Rightarrow> Inl (TypeError (''Plan leaf must be a node name or callable, got '' @ t)))"

subsection \<open>Staging\<close>

record staged_exec =
  se_id :: string
  se_name :: string
  se_policy :: "node_policy option"

type_synonym staged_edge = "string \<times> string \<times> string option"

record staging =
  sg_execs :: "staged_exec list"
  sg_edges :: "staged_edge list"
  sg_counts :: "(string \<times> nat) list"
  sg_registry :: registry
  sg_fresh :: nat

definition count_of :: "(string \<times> nat) list \<Rightarrow> string \<Rightarrow> nat" where
  "count_of counts n = (case map_of counts n of None \<Rightarrow> 0 | Some k \<Rightarrow> k)"

definition policy_or_none :: "node_policy option \<Rightarrow> node_policy option" where
  "policy_or_none p = (if p = Some no_policy then None else p)"

text \<open>\<open>_add_execution\<close>: \<open>prefix\<close> is \<open>id_prefix\<close>, \<open>given\<close> the ID the caller made up.\<close>

definition add_staged ::
    "string option \<Rightarrow> string \<Rightarrow> string \<Rightarrow> node_policy option \<Rightarrow> staging \<Rightarrow> string \<times> staging" where
  "add_staged prefix name given p s =
     (let i = (case prefix of None \<Rightarrow> given | Some pre \<Rightarrow> pre @ ''-x'' @ nat_text (length (sg_execs s)))
      in (i, s\<lparr>sg_execs := sg_execs s @ [\<lparr>se_id = i, se_name = name, se_policy = policy_or_none p\<rparr>],
               sg_counts := AList.update name (Suc (count_of (sg_counts s) name)) (sg_counts s)\<rparr>))"

definition fresh_id :: "(nat \<Rightarrow> string) \<Rightarrow> staging \<Rightarrow> string \<times> staging" where
  "fresh_id ids s = (ids (sg_fresh s), s\<lparr>sg_fresh := Suc (sg_fresh s)\<rparr>)"

definition add_edges :: "staged_edge list \<Rightarrow> staging \<Rightarrow> staging" where
  "add_edges es s = s\<lparr>sg_edges := sg_edges s @ es\<rparr>"

definition stage_leaf ::
    "(nat \<Rightarrow> string) \<Rightarrow> string option \<Rightarrow> leaf \<Rightarrow> node_policy option \<Rightarrow> staging \<Rightarrow> ((string list \<times> string) \<times> staging) res" where
  "stage_leaf ids prefix item p s =
     rbind (resolve_node item (sg_registry s)) (\<lambda>(name, reg).
       let s1 = s\<lparr>sg_registry := reg\<rparr>;
           limit = (case p of None \<Rightarrow> None | Some q \<Rightarrow> po_max_invocations q) in
       if (case limit of None \<Rightarrow> False | Some m \<Rightarrow> m \<noteq> 0 \<and> m \<le> int (count_of (sg_counts s1) name))
       then Inl (RecursionLimitExceeded (''Node '' @ [CHR 0x27] @ name @ [CHR 0x27] @ '' exceeded max_invocations (''
              @ int_text (the limit) @ '')''))
       else let (given, s2) = fresh_id ids s1; (i, s3) = add_staged prefix name given p s2 in Inr (([i], i), s3))"

text \<open>A sequence is staged into its segments, each linked to the end of the one before.\<close>

fun stage :: "(nat \<Rightarrow> string) \<Rightarrow> string option \<Rightarrow> plan \<Rightarrow> staging \<Rightarrow> ((string list \<times> string) \<times> staging) res"
  and stage_segments :: "(nat \<Rightarrow> string) \<Rightarrow> string option \<Rightarrow> plan list \<Rightarrow> string option \<Rightarrow> staging
      \<Rightarrow> ((string list \<times> string) list \<times> staging) res"
  and stage_branches :: "(nat \<Rightarrow> string) \<Rightarrow> string option \<Rightarrow> plan list \<Rightarrow> string \<Rightarrow> staging \<Rightarrow> (string list \<times> staging) res"
where
  "stage ids prefix (Sequence items) s =
     rbind (stage_segments ids prefix items None s) (\<lambda>(segments, s1).
       if segments = [] then Inl (OtherError ''IndexError'' ''list index out of range'')
       else Inr ((fst (hd segments), snd (last segments)), s1))"
| "stage ids prefix (Conditional condition inner) s =
     (let (u, s1) = fresh_id ids s; (gate, s2) = add_staged prefix (gate_prefix @ condition) (''gate-'' @ take 8 u) None s1 in
      rbind (stage ids prefix inner s2) (\<lambda>((starts, last), s3).
        Inr (([gate], last), add_edges (map (\<lambda>x. (gate, x, Some condition)) starts) s3)))"
| "stage ids prefix (WaitForMailbox params) s =
     (let (u, s1) = fresh_id ids s;
          (i, s2) = add_staged prefix wait_name (''wait-'' @ take 8 u) (Some (no_policy\<lparr>po_wait := Some params\<rparr>)) s1
      in Inr (([i], i), s2))"
| "stage ids prefix (Parallel items) s =
     (let (u, s1) = fresh_id ids s; (merge, s2) = add_staged prefix merge_name (''merge-'' @ take 8 u) None s1 in
      rbind (stage_branches ids prefix items merge s2) (\<lambda>(starts, s3). Inr ((starts, merge), s3)))"
| "stage ids prefix (PolicyNode item p) s = stage_leaf ids prefix item (Some p) s"
| "stage ids prefix (Leaf item) s = stage_leaf ids prefix item None s"
| "stage ids prefix (UnknownPlan t) s = Inl (ValueError (''Unknown plan type: '' @ t))"
| "stage_segments ids prefix [] prev s = Inr ([], s)"
| "stage_segments ids prefix (p # ps) prev s =
     rbind (stage ids prefix p s) (\<lambda>((starts, last), s1).
       let s2 = (case prev of None \<Rightarrow> s1 | Some e \<Rightarrow> add_edges (map (\<lambda>x. (e, x, None)) starts) s1) in
       rbind (stage_segments ids prefix ps (Some last) s2) (\<lambda>(segments, s3). Inr ((starts, last) # segments, s3)))"
| "stage_branches ids prefix [] merge s = Inr ([], s)"
| "stage_branches ids prefix (p # ps) merge s =
     rbind (stage ids prefix p s) (\<lambda>((starts, last), s1).
       rbind (stage_branches ids prefix ps merge (add_edges [(last, merge, None)] s1)) (\<lambda>(more, s2). Inr (starts @ more, s2)))"

record staged_plan =
  sl_execs :: "staged_exec list"
  sl_edges :: "staged_edge list"
  sl_starts :: "string list"
  sl_end :: string

text \<open>\<open>stage_plan\<close>: the staged plan, with the registry and the position in \<open>ids\<close> it leaves.\<close>

definition stage_plan ::
    "(nat \<Rightarrow> string) \<Rightarrow> string option \<Rightarrow> plan \<Rightarrow> (string \<times> nat) list \<Rightarrow> registry \<Rightarrow> nat
       \<Rightarrow> (staged_plan \<times> registry \<times> nat) res" where
  "stage_plan ids prefix p counts reg n =
     rbind (stage ids prefix p \<lparr>sg_execs = [], sg_edges = [], sg_counts = counts, sg_registry = reg, sg_fresh = n\<rparr>)
       (\<lambda>((starts, last), s).
          Inr (\<lparr>sl_execs = sg_execs s, sl_edges = sg_edges s, sl_starts = starts, sl_end = last\<rparr>, sg_registry s, sg_fresh s))"

record staged_session =
  ss_id :: string
  ss_trigger :: string
  ss_state :: dict
  ss_head :: string
  ss_end :: string
  ss_execs :: "staged_exec list"
  ss_edges :: "staged_edge list"

definition or_else :: "string option \<Rightarrow> string \<Rightarrow> string" where
  "or_else v w = (case v of None \<Rightarrow> w | Some s \<Rightarrow> if s = [] then w else s)"

definition opt_json :: "string option \<Rightarrow> json" where
  "opt_json v = (case v of None \<Rightarrow> JNull | Some s \<Rightarrow> JStr s)"

definition stage_spawn ::
    "(nat \<Rightarrow> string) \<Rightarrow> spawn_request \<Rightarrow> string \<Rightarrow> nat \<Rightarrow> string option \<Rightarrow> registry \<Rightarrow> nat
       \<Rightarrow> (staged_session \<times> registry \<times> nat) res" where
  "stage_spawn ids sp exec_id index parent reg n =
     (let slot = (case sr_slot sp of None \<Rightarrow> nat_text index | Some s \<Rightarrow> s);
          sid = ''spawn-'' @ exec_id @ ''-'' @ slot;
          correlation = or_else (sr_correlation sp) sid;
          notify = or_else (sr_notify sp) (''corr:'' @ correlation);
          initial = AList.update ''spawn'' (JObj
            [(''parent_session_id'', opt_json parent), (''parent_exec_id'', JStr exec_id), (''slot'', JStr slot),
             (''correlation_id'', JStr correlation), (''notify'', JStr notify)]) (sr_state sp) in
      rbind (stage_plan ids (Some sid) (sr_plan sp) [] reg n) (\<lambda>(staged, reg', n').
        Inr (\<lparr>ss_id = sid, ss_trigger = ''spawn:'' @ slot, ss_state = initial,
              ss_head = ''head-'' @ sid, ss_end = ''end-'' @ sid, ss_execs = sl_execs staged,
              ss_edges = sl_edges staged @ map (\<lambda>x. (''head-'' @ sid, x, None)) (sl_starts staged)
                @ [(sl_end staged, ''end-'' @ sid, None)]\<rparr>, reg', n')))"

end
