(* ===== verification/Plan_Laws.thy ===== *)
theory Plan_Laws
  imports Plans
begin

text \<open>
  The shape of a staged plan: its edges stay inside it and form no cycle, and every execution of it
  leads to its end. The identifiers of a child's plan are distinct by construction.
\<close>

subsection \<open>Pieces of a graph\<close>

definition exec_ids :: "staged_exec list \<Rightarrow> string set" where
  "exec_ids es = se_id ` set es"

definition edge_rel :: "staged_edge list \<Rightarrow> (string \<times> string) set" where
  "edge_rel es = {(a, b). \<exists>c. (a, b, c) \<in> set es}"

definition ranked :: "(string \<times> string) set \<Rightarrow> bool" where
  "ranked R \<longleftrightarrow> (\<exists>rank :: string \<Rightarrow> nat. \<forall>(a, b) \<in> R. rank a < rank b)"

definition piece :: "string set \<Rightarrow> (string \<times> string) set \<Rightarrow> string list \<Rightarrow> string \<Rightarrow> bool" where
  "piece N R starts final \<longleftrightarrow> finite N \<and> starts \<noteq> [] \<and> set starts \<subseteq> N \<and> final \<in> N \<and> R \<subseteq> N \<times> N \<and> ranked R
     \<and> (\<forall>x \<in> N. (x, final) \<in> R\<^sup>*) \<and> (\<forall>x \<in> N. \<exists>y \<in> set starts. (y, x) \<in> R\<^sup>*)"

lemma edge_rel_append [simp]: "edge_rel (xs @ ys) = edge_rel xs \<union> edge_rel ys"
  by (auto simp: edge_rel_def)

lemma edge_rel_Nil [simp]: "edge_rel [] = {}"
  by (simp add: edge_rel_def)

lemma edge_rel_Cons [simp]: "edge_rel ((a, b, c) # es) = insert (a, b) (edge_rel es)"
  by (auto simp: edge_rel_def)

lemma edge_rel_star [simp]: "edge_rel (map (\<lambda>x. (a, x, c)) xs) = {a} \<times> set xs"
  by (auto simp: edge_rel_def)

lemma exec_ids_append [simp]: "exec_ids (xs @ ys) = exec_ids xs \<union> exec_ids ys"
  by (auto simp: exec_ids_def)

lemma exec_ids_finite [simp]: "finite (exec_ids es)"
  by (simp add: exec_ids_def)

lemma exec_ids_simps [simp]: "exec_ids [] = {}" "exec_ids [e] = {se_id e}"
  by (simp_all add: exec_ids_def)

lemma ranked_acyclic: "ranked R \<Longrightarrow> acyclic R"
proof -
  assume "ranked R"
  then obtain rank :: "string \<Rightarrow> nat" where "\<forall>(a, b) \<in> R. rank a < rank b" unfolding ranked_def by blast
  then have "R \<subseteq> measure rank" by auto
  then show ?thesis using wf_acyclic [OF wf_measure] acyclic_subset by blast
qed

text \<open>Two disjoint pieces, with edges only from the first to the second.\<close>

lemma ranked_join:
  assumes "ranked R" "ranked S" "R \<subseteq> A \<times> A" "S \<subseteq> B \<times> B" "C \<subseteq> A \<times> B" "A \<inter> B = {}" "finite A"
  shows "ranked (R \<union> S \<union> C)"
proof -
  from assms(1,2) obtain f g :: "string \<Rightarrow> nat" where f: "\<forall>(a, b) \<in> R. f a < f b" and g: "\<forall>(a, b) \<in> S. g a < g b"
    unfolding ranked_def by blast
  let ?K = "Max (f ` A)"
  define h where "h = (\<lambda>x. if x \<in> A then f x else g x + Suc ?K)"
  have K: "f x \<le> ?K" if "x \<in> A" for x using that assms(7) by simp
  have "h a < h b" if "(a, b) \<in> R \<union> S \<union> C" for a b
  proof -
    from that consider "(a, b) \<in> R" | "(a, b) \<in> S" | "(a, b) \<in> C" by blast
    then show ?thesis
    proof cases
      case 1
      then have "a \<in> A" "b \<in> A" "f a < f b" using assms(3) f by auto
      then show ?thesis by (simp add: h_def)
    next
      case 2
      then have "a \<notin> A" "b \<notin> A" "g a < g b" using assms(4,6) g by auto
      then show ?thesis by (simp add: h_def)
    next
      case 3
      then have "a \<in> A" "b \<notin> A" using assms(5,6) by auto
      then show ?thesis using K [of a] by (simp add: h_def)
    qed
  qed
  then show ?thesis unfolding ranked_def by (intro exI [of _ h]) auto
qed

lemma reach_mono: "(x, y) \<in> R\<^sup>* \<Longrightarrow> R \<subseteq> S \<Longrightarrow> (x, y) \<in> S\<^sup>*"
  using rtrancl_mono by blast

lemma piece_single: "piece {x} {} [x] x"
  by (simp add: piece_def ranked_def)

lemma piece_join:
  assumes "piece N R starts m" "piece M S starts2 final" "N \<inter> M = {}"
  shows "piece (N \<union> M) (R \<union> S \<union> {m} \<times> set starts2) starts final"
proof -
  let ?T = "R \<union> S \<union> {m} \<times> set starts2"
  have r: "ranked ?T"
    using assms by (intro ranked_join [of R S N M]) (auto simp: piece_def)
  from assms(2) obtain y where y: "y \<in> set starts2" "y \<in> M" by (cases starts2) (auto simp: piece_def)
  have 2: "(x, final) \<in> ?T\<^sup>*" if "x \<in> M" for x
    using assms(2) that by (auto simp: piece_def intro: reach_mono)
  have "(m, final) \<in> ?T\<^sup>*" using y 2 [OF y(2)] by (auto intro: converse_rtrancl_into_rtrancl)
  moreover have "(x, m) \<in> ?T\<^sup>*" if "x \<in> N" for x
    using assms(1) that by (auto simp: piece_def intro: reach_mono)
  ultimately have 1: "(x, final) \<in> ?T\<^sup>*" if "x \<in> N" for x using that by (meson rtrancl_trans)
  have 3: "\<exists>y \<in> set starts. (y, x) \<in> ?T\<^sup>*" if "x \<in> N" for x
    using assms(1) that reach_mono [of _ x R ?T] unfolding piece_def by blast
  have 4: "\<exists>y \<in> set starts. (y, x) \<in> ?T\<^sup>*" if x: "x \<in> M" for x
  proof -
    from assms(2) x obtain z where z: "z \<in> set starts2" "(z, x) \<in> S\<^sup>*" by (auto simp: piece_def)
    from assms(1) have "m \<in> N" by (simp add: piece_def)
    then obtain y where y: "y \<in> set starts" "(y, m) \<in> ?T\<^sup>*" using 3 by blast
    have "(m, x) \<in> ?T\<^sup>*" using z reach_mono [of z x S ?T] by (auto intro: converse_rtrancl_into_rtrancl)
    with y show ?thesis by (meson rtrancl_trans)
  qed
  from 1 2 3 4 r assms show ?thesis by (auto simp: piece_def)
qed

subsection \<open>Plans without empty forks\<close>

fun no_empty_fork :: "plan \<Rightarrow> bool" where
  "no_empty_fork (Sequence ps) = list_all no_empty_fork ps"
| "no_empty_fork (Parallel ps) = (ps \<noteq> [] \<and> list_all no_empty_fork ps)"
| "no_empty_fork (Conditional c p) = no_empty_fork p"
| "no_empty_fork _ = True"

text \<open>An empty \<open>Parallel\<close> has no entry, so what follows it in a sequence does not wait for what precedes it.\<close>

lemma empty_fork_cuts_a_sequence:
  "case stage_plan (\<lambda>n. ''00000000'' @ nat_text n) (Some ''p'') (Sequence [Leaf (NamedNode ''a''), Parallel [], Leaf (NamedNode ''b'')]) [] [] 0 of
     Inr (sp, reg, n) \<Rightarrow> map (\<lambda>e. (se_id e, se_name e)) (sl_execs sp) = [(''p-x0'', ''a''), (''p-x1'', merge_name), (''p-x2'', ''b'')]
        \<and> sl_edges sp = [(''p-x1'', ''p-x2'', None)] \<and> sl_starts sp = [''p-x0''] \<and> sl_end sp = ''p-x2''
   | _ \<Rightarrow> False"
  by code_simp

subsection \<open>Staging\<close>

definition grows :: "staging \<Rightarrow> staging \<Rightarrow> staged_exec list \<Rightarrow> staged_edge list \<Rightarrow> bool" where
  "grows s s' N E \<longleftrightarrow> sg_execs s' = sg_execs s @ N \<and> sg_edges s' = sg_edges s @ E"

definition ids_distinct :: "staging \<Rightarrow> bool" where
  "ids_distinct s \<longleftrightarrow> distinct (map se_id (sg_execs s))"

lemma grows_trans: "grows s t N E \<Longrightarrow> grows t u M F \<Longrightarrow> grows s u (N @ M) (E @ F)"
  by (simp add: grows_def)

lemma grows_distinct: "grows s t N E \<Longrightarrow> ids_distinct t \<Longrightarrow> ids_distinct s \<and> distinct (map se_id N) \<and> exec_ids (sg_execs s) \<inter> exec_ids N = {}"
  by (auto simp: grows_def ids_distinct_def exec_ids_def)

lemma fresh_grows: "fresh_id ids s = (u, s') \<Longrightarrow> grows s s' [] []"
  by (auto simp: fresh_id_def grows_def)

lemma add_staged_grows: "add_staged prefix name given p s = (i, s') \<Longrightarrow>
    \<exists>e. se_id e = i \<and> grows s s' [e] []"
  by (auto simp: add_staged_def grows_def Let_def)

lemma add_edges_grows: "grows s (add_edges es s) [] es"
  by (simp add: grows_def add_edges_def)

lemma stage_leaf_piece:
  assumes "stage_leaf ids prefix item p s = Inr ((starts, final), s')"
  shows "\<exists>e. grows s s' [e] [] \<and> starts = [se_id e] \<and> final = se_id e"
  using assms by (auto simp: stage_leaf_def Let_def result_simps add_staged_def fresh_id_def grows_def split: if_splits)

lemma stage_pieces:
  "stage ids prefix p s = Inr ((starts, final), s') \<Longrightarrow> no_empty_fork p \<Longrightarrow> ids_distinct s' \<Longrightarrow>
     \<exists>N E. grows s s' N E \<and> piece (exec_ids N) (edge_rel E) starts final"
  "stage_segments ids prefix ps prev s = Inr (segments, s') \<Longrightarrow> list_all no_empty_fork ps \<Longrightarrow> ids_distinct s' \<Longrightarrow>
     \<exists>N E. grows s s' N E \<and> length segments = length ps
       \<and> (ps = [] \<longrightarrow> N = [] \<and> E = [])
       \<and> (ps \<noteq> [] \<longrightarrow> (\<exists>R. piece (exec_ids N) R (fst (hd segments)) (snd (last segments))
            \<and> edge_rel E = R \<union> (case prev of None \<Rightarrow> {} | Some e \<Rightarrow> {e} \<times> set (fst (hd segments)))))"
  "stage_branches ids prefix ps merge s = Inr (forks, s') \<Longrightarrow> list_all no_empty_fork ps \<Longrightarrow> ids_distinct s' \<Longrightarrow>
     \<exists>N E R. grows s s' N E \<and> (ps \<noteq> [] \<longrightarrow> forks \<noteq> []) \<and> set forks \<subseteq> exec_ids N
       \<and> R \<subseteq> exec_ids N \<times> exec_ids N \<and> ranked R \<and> R \<subseteq> edge_rel E \<and> edge_rel E \<subseteq> R \<union> exec_ids N \<times> {merge}
       \<and> (\<forall>x \<in> exec_ids N. (x, merge) \<in> (edge_rel E)\<^sup>*) \<and> (\<forall>x \<in> exec_ids N. \<exists>y \<in> set forks. (y, x) \<in> (edge_rel E)\<^sup>*)"
proof (induction ids prefix p s and ids prefix ps prev s and ids prefix ps merge s
    arbitrary: starts final s' and segments s' and forks s'
    rule: stage_stage_segments_stage_branches.induct)
  case (1 ids prefix items s)
  from "1.prems"(1) obtain segments where seg: "stage_segments ids prefix items None s = Inr (segments, s')"
    "segments \<noteq> []" "starts = fst (hd segments)" "final = snd (last segments)"
    by (auto simp: result_simps split: if_splits)
  from "1.IH" [OF seg(1)] "1.prems" seg(2) obtain N E R where g: "grows s s' N E" "length segments = length items"
    and r: "items \<noteq> [] \<longrightarrow> piece (exec_ids N) R (fst (hd segments)) (snd (last segments)) \<and> edge_rel E = R" by fastforce
  have "items \<noteq> []" using g(2) seg(2) by auto
  with g r seg show ?case by blast
next
  case (2 ids prefix condition inner s)
  obtain u s1 where f: "fresh_id ids s = (u, s1)" by fastforce
  obtain gate s2 where a: "add_staged prefix (gate_prefix @ condition) (''gate-'' @ take 8 u) None s1 = (gate, s2)" by fastforce
  from "2.prems"(1) obtain sts s3 where st: "stage ids prefix inner s2 = Inr ((sts, final), s3)"
    and s': "s' = add_edges (map (\<lambda>x. (gate, x, Some condition)) sts) s3" "starts = [gate]"
    by (auto simp: f a result_simps simp del: append_Cons append_Nil)
  note ge = add_edges_grows [of s3 "map (\<lambda>x. (gate, x, Some condition)) sts", folded s'(1)]
  have d3: "ids_distinct s3" using grows_distinct [OF ge "2.prems"(3)] by simp
  from "2.IH" [OF f [symmetric] refl a [symmetric] refl st _ d3] "2.prems"(2) obtain N E where
    g: "grows s2 s3 N E" and p: "piece (exec_ids N) (edge_rel E) sts final" by auto
  from add_staged_grows [OF a] obtain e where e: "se_id e = gate" "grows s1 s2 [e] []" by blast
  from grows_trans [OF grows_trans [OF grows_trans [OF fresh_grows [OF f] e(2)] g] ge]
  have gg: "grows s s' (e # N) (E @ map (\<lambda>x. (gate, x, Some condition)) sts)" by simp
  have "{gate} \<inter> exec_ids N = {}" using grows_distinct [OF gg "2.prems"(3)] e(1) by (auto simp: exec_ids_def)
  from piece_join [OF piece_single p this]
  have "piece (exec_ids (e # N)) (edge_rel (E @ map (\<lambda>x. (gate, x, Some condition)) sts)) [gate] final"
    using e(1) by (simp add: exec_ids_def)
  with gg s'(2) show ?case by blast
next
  case (3 ids prefix params s)
  obtain u s1 where f: "fresh_id ids s = (u, s1)" by fastforce
  obtain i s2 where a: "add_staged prefix wait_name (''wait-'' @ take 8 u) (Some (no_policy\<lparr>po_wait := Some params\<rparr>)) s1 = (i, s2)"
    by fastforce
  from "3.prems"(1) have r: "starts = [i]" "final = i" "s' = s2" by (auto simp: f a simp del: append_Cons append_Nil)
  from add_staged_grows [OF a] obtain e where e: "se_id e = i" "grows s1 s2 [e] []" by blast
  from grows_trans [OF fresh_grows [OF f] e(2)] r e(1) piece_single [of i] show ?case
    by (intro exI [of _ "[e]"] exI [of _ "[]"]) simp
next
  case (4 ids prefix items s)
  obtain u s1 where f: "fresh_id ids s = (u, s1)" by fastforce
  obtain merge s2 where a: "add_staged prefix merge_name (''merge-'' @ take 8 u) None s1 = (merge, s2)" by fastforce
  from "4.prems"(1) have st: "stage_branches ids prefix items merge s2 = Inr (starts, s')" and fin: "final = merge"
    by (auto simp: f a result_simps simp del: append_Cons append_Nil)
  from "4.IH" [OF f [symmetric] refl a [symmetric] refl st] "4.prems"(2,3) obtain N E R where
    g: "grows s2 s' N E" and fk: "starts \<noteq> []" "set starts \<subseteq> exec_ids N" and R: "R \<subseteq> exec_ids N \<times> exec_ids N" "ranked R"
    "R \<subseteq> edge_rel E" "edge_rel E \<subseteq> R \<union> exec_ids N \<times> {merge}" and reach: "\<forall>x \<in> exec_ids N. (x, merge) \<in> (edge_rel E)\<^sup>*" "\<forall>x \<in> exec_ids N. \<exists>y \<in> set starts. (y, x) \<in> (edge_rel E)\<^sup>*" by auto
  from fk reach(1) have last: "\<exists>y \<in> set starts. (y, merge) \<in> (edge_rel E)\<^sup>*" by (cases starts) auto
  from add_staged_grows [OF a] obtain e where e: "se_id e = merge" "grows s1 s2 [e] []" by blast
  from grows_trans [OF grows_trans [OF fresh_grows [OF f] e(2)] g] have gg: "grows s s' (e # N) E" by simp
  have m: "merge \<notin> exec_ids N" using grows_distinct [OF gg "4.prems"(3)] e(1) by (auto simp: exec_ids_def)
  have "ranked (R \<union> {} \<union> exec_ids N \<times> {merge})"
    using R(1,2) m by (intro ranked_join [of R "{}" "exec_ids N" "{merge}"]) (auto simp: ranked_def)
  with R(4) have "ranked (edge_rel E)" unfolding ranked_def by blast
  with R(1,4) fk reach last e(1) have "piece (exec_ids (e # N)) (edge_rel E) starts final"
    by (auto simp: piece_def fin exec_ids_def)
  with gg show ?case by blast
next
  case (5 ids prefix item p s)
  then have "stage_leaf ids prefix item (Some p) s = Inr ((starts, final), s')" by simp
  from stage_leaf_piece [OF this] obtain e where "grows s s' [e] []" "starts = [se_id e]" "final = se_id e" by blast
  with piece_single [of "se_id e"] show ?case by (intro exI [of _ "[e]"] exI [of _ "[]"]) simp
next
  case (6 ids prefix item s)
  then have "stage_leaf ids prefix item None s = Inr ((starts, final), s')" by simp
  from stage_leaf_piece [OF this] obtain e where "grows s s' [e] []" "starts = [se_id e]" "final = se_id e" by blast
  with piece_single [of "se_id e"] show ?case by (intro exI [of _ "[e]"] exI [of _ "[]"]) simp
next
  case (7 ids prefix t s)
  then show ?case by simp
next
  case (8 ids prefix prev s)
  then show ?case by (intro exI [of _ "[]"]) (simp add: grows_def)
next
  case (9 ids prefix p ps prev s)
  from "9.prems"(1) obtain sts m s1 segs where st: "stage ids prefix p s = Inr ((sts, m), s1)"
    and sg: "stage_segments ids prefix ps (Some m) (case prev of None \<Rightarrow> s1 | Some e \<Rightarrow> add_edges (map (\<lambda>x. (e, x, None)) sts) s1) = Inr (segs, s')"
    and segments: "segments = (sts, m) # segs"
    by (auto simp: result_simps Let_def)
  let ?L = "case prev of None \<Rightarrow> [] | Some e \<Rightarrow> map (\<lambda>x. (e, x, None)) sts"
  let ?s2 = "case prev of None \<Rightarrow> s1 | Some e \<Rightarrow> add_edges (map (\<lambda>x. (e, x, None)) sts) s1"
  have gl: "grows s1 ?s2 [] ?L" by (cases prev) (simp_all add: grows_def add_edges_def)
  from "9.IH"(2) [OF st refl refl refl sg] "9.prems"(2,3) obtain M F R where m: "grows ?s2 s' M F" "length segs = length ps"
    and e: "ps = [] \<longrightarrow> M = [] \<and> F = []"
    and ne: "ps \<noteq> [] \<longrightarrow> piece (exec_ids M) R (fst (hd segs)) (snd (last segs)) \<and> edge_rel F = R \<union> {m} \<times> set (fst (hd segs))"
    by auto
  have d1: "ids_distinct s1" using grows_distinct [OF grows_trans [OF gl m(1)] "9.prems"(3)] by simp
  from "9.IH"(1) [OF st _ d1] "9.prems"(2) obtain N E where n: "grows s s1 N E" "piece (exec_ids N) (edge_rel E) sts m" by auto
  from grows_trans [OF grows_trans [OF n(1) gl] m(1)] have gg: "grows s s' (N @ M) (E @ ?L @ F)" by simp
  have L: "edge_rel ?L = (case prev of None \<Rightarrow> {} | Some e \<Rightarrow> {e} \<times> set sts)" by (cases prev) simp_all
  show ?case
  proof (cases "ps = []")
    case True
    with e m(2) segments n(2) L gg show ?thesis
      by (intro exI [of _ "N @ M"] exI [of _ "E @ ?L @ F"] conjI impI exI [of _ "edge_rel E"]) (auto split: option.splits)
  next
    case False
    have "exec_ids N \<inter> exec_ids M = {}"
      using grows_distinct [OF gg "9.prems"(3)] by (auto simp: exec_ids_def)
    from piece_join [OF n(2) _ this] ne False
    have "piece (exec_ids N \<union> exec_ids M) (edge_rel E \<union> R \<union> {m} \<times> set (fst (hd segs))) sts (snd (last segs))" by blast
    moreover have "segs \<noteq> []" using m(2) False by auto
    ultimately show ?thesis
      using gg segments m(2) L ne False
      by (intro exI [of _ "N @ M"] exI [of _ "E @ ?L @ F"] conjI impI exI [of _ "edge_rel E \<union> R \<union> {m} \<times> set (fst (hd segs))"])
        (auto split: option.splits)
  qed
next
  case (10 ids prefix merge s)
  then show ?case by (intro exI [of _ "[]"] exI [of _ "{}"]) (simp add: grows_def ranked_def)
next
  case (11 ids prefix p ps merge s)
  from "11.prems"(1) obtain sts m s1 more where st: "stage ids prefix p s = Inr ((sts, m), s1)"
    and br: "stage_branches ids prefix ps merge (add_edges [(m, merge, None)] s1) = Inr (more, s')" and forks: "forks = sts @ more"
    by (auto simp: result_simps)
  note gl = add_edges_grows [of s1 "[(m, merge, None)]"]
  from "11.IH"(2) [OF st refl refl br] "11.prems"(2,3) obtain M F R where
    m: "grows (add_edges [(m, merge, None)] s1) s' M F" "set more \<subseteq> exec_ids M"
    and R: "R \<subseteq> exec_ids M \<times> exec_ids M" "ranked R" "R \<subseteq> edge_rel F" "edge_rel F \<subseteq> R \<union> exec_ids M \<times> {merge}"
    and reach: "\<forall>x \<in> exec_ids M. (x, merge) \<in> (edge_rel F)\<^sup>*" "\<forall>x \<in> exec_ids M. \<exists>y \<in> set more. (y, x) \<in> (edge_rel F)\<^sup>*" by auto
  have d1: "ids_distinct s1" using grows_distinct [OF grows_trans [OF gl m(1)] "11.prems"(3)] by simp
  from "11.IH"(1) [OF st _ d1] "11.prems"(2) obtain N E where n: "grows s s1 N E" "piece (exec_ids N) (edge_rel E) sts m" by auto
  from grows_trans [OF grows_trans [OF n(1) gl] m(1)] have gg: "grows s s' (N @ M) (E @ (m, merge, None) # F)" by simp
  have disj: "exec_ids N \<inter> exec_ids M = {}" using grows_distinct [OF gg "11.prems"(3)] by (auto simp: exec_ids_def)
  let ?E = "edge_rel (E @ (m, merge, None) # F)"
  have eq: "?E = edge_rel E \<union> {(m, merge)} \<union> edge_rel F" by auto
  have r: "ranked (edge_rel E \<union> R)"
    using ranked_join [of "edge_rel E" R "exec_ids N" "exec_ids M" "{}"] n(2) R disj by (simp add: piece_def)
  have "(x, merge) \<in> ?E\<^sup>*" if "x \<in> exec_ids N" for x
  proof -
    have "(x, m) \<in> (edge_rel E)\<^sup>*" using n(2) that by (simp add: piece_def)
    then have "(x, m) \<in> ?E\<^sup>*" by (rule reach_mono) auto
    then show ?thesis by (rule rtrancl_into_rtrancl) (simp add: eq)
  qed
  moreover have "(x, merge) \<in> ?E\<^sup>*" if "x \<in> exec_ids M" for x
    using reach(1) that by (auto simp: eq intro: reach_mono)
  moreover have "\<exists>y \<in> set forks. (y, x) \<in> ?E\<^sup>*" if "x \<in> exec_ids N" for x
  proof -
    from n(2) that obtain y where "y \<in> set sts" "(y, x) \<in> (edge_rel E)\<^sup>*" unfolding piece_def by blast
    then show ?thesis using reach_mono [of y x "edge_rel E" ?E] forks by (intro bexI [of _ y]) auto
  qed
  moreover have "\<exists>y \<in> set forks. (y, x) \<in> ?E\<^sup>*" if "x \<in> exec_ids M" for x
  proof -
    from reach(2) that obtain y where "y \<in> set more" "(y, x) \<in> (edge_rel F)\<^sup>*" by blast
    then show ?thesis using reach_mono [of y x "edge_rel F" ?E] forks by (intro bexI [of _ y]) (auto simp: eq)
  qed
  moreover have "edge_rel E \<subseteq> exec_ids N \<times> exec_ids N" "m \<in> exec_ids N" "sts \<noteq> []" "set sts \<subseteq> exec_ids N"
    using n(2) by (simp_all add: piece_def)
  ultimately show ?case
    using gg r R m(2) forks
    by (intro exI [of _ "N @ M"] exI [of _ "E @ (m, merge, None) # F"] exI [of _ "edge_rel E \<union> R"]) (auto simp: eq)
qed

subsection \<open>A staged plan\<close>

definition plan_ids :: "staged_plan \<Rightarrow> string set" where
  "plan_ids sp = exec_ids (sl_execs sp)"

lemma stage_plan_piece:
  assumes "stage_plan ids prefix p counts reg n = Inr (sp, reg', n')" "no_empty_fork p" "distinct (map se_id (sl_execs sp))"
  shows "piece (plan_ids sp) (edge_rel (sl_edges sp)) (sl_starts sp) (sl_end sp)"
proof -
  let ?s = "\<lparr>sg_execs = [], sg_edges = [], sg_counts = counts, sg_registry = reg, sg_fresh = n\<rparr>"
  from assms(1) obtain starts final s' where st: "stage ids prefix p ?s = Inr ((starts, final), s')"
    and sp: "sp = \<lparr>sl_execs = sg_execs s', sl_edges = sg_edges s', sl_starts = starts, sl_end = final\<rparr>"
    by (auto simp: stage_plan_def result_simps)
  from stage_pieces(1) [OF st assms(2)] assms(3) show ?thesis
    by (auto simp: sp grows_def ids_distinct_def plan_ids_def)
qed

text \<open>With an ID prefix, an execution's identifier is its position, so no two are equal.\<close>

definition numbered :: "string \<Rightarrow> staging \<Rightarrow> bool" where
  "numbered pre s \<longleftrightarrow> map se_id (sg_execs s) = map (\<lambda>i. pre @ ''-x'' @ nat_text i) [0..<length (sg_execs s)]"

lemma numbered_distinct: "numbered pre s \<Longrightarrow> distinct (map se_id (sg_execs s))"
  unfolding numbered_def by (auto simp: distinct_map inj_on_def)

lemma numbered_add: "numbered pre s \<Longrightarrow> add_staged (Some pre) name given p s = (i, s') \<Longrightarrow> numbered pre s'"
  by (auto simp: add_staged_def numbered_def Let_def)

lemma numbered_fresh: "numbered pre s \<Longrightarrow> fresh_id ids s = (u, s') \<Longrightarrow> numbered pre s'"
  by (auto simp: fresh_id_def numbered_def)

lemma numbered_edges [simp]: "numbered pre (add_edges es s) = numbered pre s"
  by (simp add: add_edges_def numbered_def)

lemma numbered_leaf: "numbered pre s \<Longrightarrow> stage_leaf ids (Some pre) item p s = Inr (r, s') \<Longrightarrow> numbered pre s'"
  by (auto simp: stage_leaf_def Let_def result_simps add_staged_def fresh_id_def numbered_def split: if_splits)

lemma numbered_case [simp]:
  "numbered pre (case prev of None \<Rightarrow> s | Some e \<Rightarrow> add_edges (f e) s) = numbered pre s"
  by (simp split: option.split)

lemma numbered_stage:
  "stage ids prefix p s = Inr (r, s') \<Longrightarrow> prefix = Some pre \<Longrightarrow> numbered pre s \<Longrightarrow> numbered pre s'"
  "stage_segments ids prefix ps prev s = Inr (rs, s') \<Longrightarrow> prefix = Some pre \<Longrightarrow> numbered pre s \<Longrightarrow> numbered pre s'"
  "stage_branches ids prefix ps merge s = Inr (fs, s') \<Longrightarrow> prefix = Some pre \<Longrightarrow> numbered pre s \<Longrightarrow> numbered pre s'"
proof (induction ids prefix p s and ids prefix ps prev s and ids prefix ps merge s
    arbitrary: r s' and rs s' and fs s'
    rule: stage_stage_segments_stage_branches.induct)
  case (2 ids prefix condition inner s)
  obtain u s1 where f: "fresh_id ids s = (u, s1)" by fastforce
  obtain gate s2 where a: "add_staged prefix (gate_prefix @ condition) (''gate-'' @ take 8 u) None s1 = (gate, s2)" by fastforce
  from "2.prems"(1) obtain sts final s3 where st: "stage ids prefix inner s2 = Inr ((sts, final), s3)"
    and s': "s' = add_edges (map (\<lambda>x. (gate, x, Some condition)) sts) s3"
    by (auto simp: f a result_simps simp del: append_Cons append_Nil)
  have "numbered pre s2" using numbered_add [OF numbered_fresh [OF "2.prems"(3) f]] a "2.prems"(2) by simp
  then show ?case using "2.IH" [OF f [symmetric] refl a [symmetric] refl st "2.prems"(2)] s' by simp
next
  case (3 ids prefix params s)
  obtain u s1 where f: "fresh_id ids s = (u, s1)" by fastforce
  obtain i s2 where a: "add_staged prefix wait_name (''wait-'' @ take 8 u) (Some (no_policy\<lparr>po_wait := Some params\<rparr>)) s1 = (i, s2)"
    by fastforce
  have "s' = s2" using "3.prems"(1) by (auto simp: f a simp del: append_Cons append_Nil)
  then show ?case using numbered_add [OF numbered_fresh [OF "3.prems"(3) f]] a "3.prems"(2) by simp
next
  case (4 ids prefix items s)
  obtain u s1 where f: "fresh_id ids s = (u, s1)" by fastforce
  obtain merge s2 where a: "add_staged prefix merge_name (''merge-'' @ take 8 u) None s1 = (merge, s2)" by fastforce
  from "4.prems"(1) obtain starts where st: "stage_branches ids prefix items merge s2 = Inr (starts, s')"
    by (auto simp: f a result_simps simp del: append_Cons append_Nil)
  have "numbered pre s2" using numbered_add [OF numbered_fresh [OF "4.prems"(3) f]] a "4.prems"(2) by simp
  then show ?case using "4.IH" [OF f [symmetric] refl a [symmetric] refl st "4.prems"(2)] by simp
next
  case (9 ids prefix p ps prev s)
  from "9.prems"(1) obtain sts m s1 segs where st: "stage ids prefix p s = Inr ((sts, m), s1)"
    and sg: "stage_segments ids prefix ps (Some m) (case prev of None \<Rightarrow> s1 | Some e \<Rightarrow> add_edges (map (\<lambda>x. (e, x, None)) sts) s1) = Inr (segs, s')"
    by (auto simp: result_simps Let_def)
  have "numbered pre s1" using "9.IH"(1) [OF st "9.prems"(2,3)] .
  then show ?case using "9.IH"(2) [OF st refl refl refl sg "9.prems"(2)] by simp
next
  case (11 ids prefix p ps merge s)
  from "11.prems"(1) obtain sts m s1 more where st: "stage ids prefix p s = Inr ((sts, m), s1)"
    and br: "stage_branches ids prefix ps merge (add_edges [(m, merge, None)] s1) = Inr (more, s')"
    by (auto simp: result_simps)
  have "numbered pre s1" using "11.IH"(1) [OF st "11.prems"(2,3)] .
  then show ?case using "11.IH"(2) [OF st refl refl br "11.prems"(2)] by simp
qed (auto simp: result_simps split: if_splits intro: numbered_leaf)

lemma piece_dag: "piece N R starts final \<Longrightarrow> acyclic R"
  by (simp add: piece_def ranked_acyclic)

lemma plan_ids_numbered: "prefix = Some pre \<Longrightarrow> stage_plan ids prefix p counts reg n = Inr (sp, reg', n') \<Longrightarrow>
    map se_id (sl_execs sp) = map (\<lambda>i. pre @ ''-x'' @ nat_text i) [0..<length (sl_execs sp)]"
proof -
  let ?s = "\<lparr>sg_execs = [], sg_edges = [], sg_counts = counts, sg_registry = reg, sg_fresh = n\<rparr>"
  assume pre: "prefix = Some pre" and "stage_plan ids prefix p counts reg n = Inr (sp, reg', n')"
  then obtain r s' where st: "stage ids prefix p ?s = Inr (r, s')" and sp: "sl_execs sp = sg_execs s'"
    by (auto simp: stage_plan_def result_simps)
  show ?thesis using numbered_stage(1) [OF st pre] unfolding numbered_def sp by simp
qed

subsection \<open>Properties\<close>

definition forks_in_sequence :: plan where
  "forks_in_sequence = Sequence [Leaf (NamedNode ''plan''),
     Parallel [Leaf (NamedNode ''left''), Conditional ''ready'' (Leaf (NamedNode ''right''))]]"

definition some_hex :: "nat \<Rightarrow> string" where
  "some_hex n = ''0000000'' @ [''0123456789abcdef'' ! n]"

lemma rbind_eval_cong: "m = m' \<Longrightarrow> rbind m f = rbind m' f"
  by simp

lemma small_texts: "nat_text 0 = ''0''" "nat_text (Suc 0) = ''1''" "nat_text (Suc (Suc 0)) = ''2''" "nat_text (Suc (Suc (Suc 0))) = ''3''"
  "nat_text (Suc (Suc (Suc (Suc 0)))) = ''4''" "nat_text 3 = ''3''"
  by code_simp+

lemmas staging_eval = stage_plan_def forks_in_sequence_def stage_leaf_def add_staged_def fresh_id_def resolve_node_def count_of_def
  policy_or_none_def add_edges_def some_hex_def merge_name_def gate_prefix_def stage_spawn_def or_else_def opt_json_def small_texts Let_def



text \<open>
  A spawned child's session is well formed whatever the random identifiers are: its head, its end and
  its executions have pairwise different identifiers, its identifier depends only on the execution and the slot that spawn
  it, its edges form no cycle, and every execution lies on a path from the head to the end.
\<close>
theorem spawned_session_is_well_formed:
  assumes "stage_spawn ids sp exec_id index parent reg n = Inr (ss, reg', n')"
    and "no_empty_fork (sr_plan sp)"
  shows "ss_id ss = ''spawn-'' @ exec_id @ ''-'' @ (case sr_slot sp of None \<Rightarrow> nat_text index | Some s \<Rightarrow> s)
    \<and> distinct (ss_head ss # ss_end ss # map se_id (ss_execs ss))
    \<and> acyclic (edge_rel (ss_edges ss))
    \<and> edge_rel (ss_edges ss) \<subseteq> insert (ss_head ss) (exec_ids (ss_execs ss)) \<times> insert (ss_end ss) (exec_ids (ss_execs ss))
    \<and> (\<forall>x \<in> insert (ss_head ss) (insert (ss_end ss) (exec_ids (ss_execs ss))).
         (ss_head ss, x) \<in> (edge_rel (ss_edges ss))\<^sup>* \<and> (x, ss_end ss) \<in> (edge_rel (ss_edges ss))\<^sup>*)"
proof -
  let ?sid = "''spawn-'' @ exec_id @ ''-'' @ (case sr_slot sp of None \<Rightarrow> nat_text index | Some s \<Rightarrow> s)"
  from assms(1) obtain st where st: "stage_plan ids (Some ?sid) (sr_plan sp) [] reg n = Inr (st, reg', n')"
    and ss: "ss_id ss = ?sid" "ss_head ss = ''head-'' @ ?sid" "ss_end ss = ''end-'' @ ?sid" "ss_execs ss = sl_execs st"
    "ss_edges ss = sl_edges st @ map (\<lambda>x. (''head-'' @ ?sid, x, None)) (sl_starts st) @ [(sl_end st, ''end-'' @ ?sid, None)]"
    by (auto simp: stage_spawn_def Let_def result_simps)
  note ids = plan_ids_numbered [OF refl st]
  have d: "distinct (map se_id (sl_execs st))" unfolding ids by (auto simp: distinct_map inj_on_def)
  have N: "ss_head ss \<notin> plan_ids st" "ss_end ss \<notin> plan_ids st" "ss_head ss \<noteq> ss_end ss"
    using arg_cong [OF ids, of set] by (auto simp: ss plan_ids_def exec_ids_def)
  note p = stage_plan_piece [OF st assms(2) d]
  have "piece (insert (ss_head ss) (plan_ids st)) (edge_rel (sl_edges st) \<union> {ss_head ss} \<times> set (sl_starts st)) [ss_head ss] (sl_end st)"
    using piece_join [OF piece_single p] N by simp
  from piece_join [OF this piece_single, of "ss_end ss"] N
  have q: "piece (insert (ss_head ss) (insert (ss_end ss) (exec_ids (ss_execs ss)))) (edge_rel (ss_edges ss)) [ss_head ss] (ss_end ss)"
    by (simp add: ss plan_ids_def insert_commute Un_commute)
  have "edge_rel (ss_edges ss) \<subseteq> insert (ss_head ss) (exec_ids (ss_execs ss)) \<times> insert (ss_end ss) (exec_ids (ss_execs ss))"
    using p by (auto simp: ss piece_def plan_ids_def)
  with q piece_dag [OF q] d N show ?thesis by (auto simp: ss piece_def plan_ids_def exec_ids_def)
qed

theorem spawned_session_is_well_formed_witness:
  "\<exists>ss reg' n'. stage_spawn (\<lambda>n. ''00000000'') \<lparr>sr_plan = forks_in_sequence, sr_state = [], sr_slot = None, sr_correlation = None, sr_notify = None\<rparr>
       ''e1'' 3 (Some ''s1'') [] 0 = Inr (ss, reg', n')
     \<and> ss_id ss = ''spawn-e1-3'' \<and> acyclic (edge_rel (ss_edges ss)) \<and> (ss_head ss, ss_end ss) \<in> (edge_rel (ss_edges ss))\<^sup>*"
proof -
  let ?sp = "\<lparr>sr_plan = forks_in_sequence, sr_state = [], sr_slot = None, sr_correlation = None, sr_notify = None\<rparr>"
  have "case stage_spawn (\<lambda>n. ''00000000'') ?sp ''e1'' 3 (Some ''s1'') [] 0 of Inr (ss, reg', n') \<Rightarrow> ss_id ss = ''spawn-e1-3'' | _ \<Rightarrow> False"
    by (simp add: staging_eval cong: rbind_eval_cong let_weak_cong)
  then obtain ss reg' n' where st: "stage_spawn (\<lambda>n. ''00000000'') ?sp ''e1'' 3 (Some ''s1'') [] 0 = Inr (ss, reg', n')"
    and i: "ss_id ss = ''spawn-e1-3''" by (auto split: sum.splits)
  have "no_empty_fork (sr_plan ?sp)" by code_simp
  from spawned_session_is_well_formed [OF st this] st i show ?thesis by blast
qed

end
