(* ===== verification/Graph_Store.thy ===== *)
theory Graph_Store
  imports Plans
begin

text \<open>
  The execution graph of the graph runtime: sessions, executions and edges in the reference store
  (\<open>entourage/runtime/memory.py\<close>, class \<open>InMemoryGraphStore\<close>), the graph algebra and the transition
  commit every store shares (\<open>entourage/runtime/interfaces.py\<close>, class \<open>GraphStore\<close>), the writing of
  staged plans (\<open>planner.py\<close>) and the retention policy (\<open>gc.py\<close>). States are copied at the store
  boundary, so values suffice. \<open>now\<close> is a call's clock reading, \<open>fresh\<close> its random ID.
\<close>

subsection \<open>Records\<close>

datatype exec_status = XPending | XRunning | XWaiting | XCompleted | XFailed

datatype graph_status = SRunning | SCompleted | SFailed

record wake =
  wk_conversation :: string
  wk_at :: "rat option"

text \<open>A committed transition's outbox, with every ID already fixed.\<close>

record published =
  pb_target :: string
  pb_conversation :: string
  pb_event :: dict
  pb_event_id :: string

record effects =
  ef_acknowledge :: "acknowledgement list"
  ef_publish :: "published list"
  ef_arm :: "(string \<times> monitor) list"
  ef_disarm :: "string list"

record execution =
  ex_id :: string
  ex_session :: string
  ex_name :: string
  ex_status :: exec_status
  ex_input :: "dict option"
  ex_result :: "dict option"
  ex_attempts :: nat
  ex_policy :: "node_policy option"
  ex_error :: "string option"
  ex_retry_at :: "rat option"
  ex_effects :: "effects option"
  ex_wake :: "wake option"
  ex_created :: rat
  ex_started :: "rat option"
  ex_completed :: "rat option"

record graph_session =
  gs_id :: string
  gs_trigger :: string
  gs_status :: graph_status
  gs_state :: dict
  gs_serial :: "string option"
  gs_created :: rat
  gs_completed :: "rat option"

record edge =
  ed_session :: string
  ed_condition :: "string option"

record graph =
  gr_sessions :: "(string \<times> graph_session) list"
  gr_execs :: "(string \<times> execution) list"
  gr_edges :: "((string \<times> string) \<times> edge) list"

definition empty_graph :: graph where
  "empty_graph = \<lparr>gr_sessions = [], gr_execs = [], gr_edges = []\<rparr>"

subsection \<open>Sessions\<close>

definition serial_taken :: "graph \<Rightarrow> string option \<Rightarrow> bool" where
  "serial_taken g key \<longleftrightarrow> (case key of None \<Rightarrow> False
     | Some k \<Rightarrow> list_ex (\<lambda>(i, s). gs_serial s = Some k \<and> gs_status s = SRunning) (gr_sessions g))"

definition create_graph_session ::
    "rat \<Rightarrow> string \<Rightarrow> graph \<Rightarrow> string \<Rightarrow> dict \<Rightarrow> string option \<Rightarrow> string option \<Rightarrow> graph \<times> string option" where
  "create_graph_session now fresh g trigger st serial given =
     (if serial_taken g serial then (g, None)
      else if (case given of None \<Rightarrow> False | Some i \<Rightarrow> map_of (gr_sessions g) i \<noteq> None) then (g, None)
      else let i = (case given of None \<Rightarrow> fresh | Some i \<Rightarrow> i) in
        (g\<lparr>gr_sessions := AList.update i \<lparr>gs_id = i, gs_trigger = trigger, gs_status = SRunning, gs_state = st,
             gs_serial = serial, gs_created = now, gs_completed = None\<rparr> (gr_sessions g)\<rparr>, Some i))"

definition get_session :: "graph \<Rightarrow> string \<Rightarrow> graph_session option" where
  "get_session g i = map_of (gr_sessions g) i"

definition end_session :: "graph_status \<Rightarrow> rat \<Rightarrow> graph \<Rightarrow> string \<Rightarrow> graph res" where
  "end_session status now g i =
     (case map_of (gr_sessions g) i of
        None \<Rightarrow> Inl (KeyError i)
      | Some s \<Rightarrow> Inr (g\<lparr>gr_sessions := AList.update i (s\<lparr>gs_status := status, gs_completed := Some now\<rparr>) (gr_sessions g)\<rparr>))"

definition complete_session :: "rat \<Rightarrow> graph \<Rightarrow> string \<Rightarrow> graph res" where
  "complete_session = end_session SCompleted"

definition fail_session :: "rat \<Rightarrow> graph \<Rightarrow> string \<Rightarrow> graph res" where
  "fail_session = end_session SFailed"

definition running_sessions :: "graph \<Rightarrow> graph_session list" where
  "running_sessions g = filter (\<lambda>s. gs_status s = SRunning) (map snd (gr_sessions g))"

text \<open>\<open>session.get("completed_at") or inf\<close>: a missing or zero time sorts last.\<close>

definition finish_time :: "graph_session \<Rightarrow> rat option" where
  "finish_time s = (case gs_completed s of None \<Rightarrow> None | Some t \<Rightarrow> if t = 0 then None else Some t)"

definition terminal_sessions :: "graph \<Rightarrow> graph_session list" where
  "terminal_sessions g =
     (let done = filter (\<lambda>s. gs_status s \<noteq> SRunning) (map snd (gr_sessions g)) in
      sort_key (\<lambda>s. the (finish_time s)) (filter (\<lambda>s. finish_time s \<noteq> None) done)
      @ filter (\<lambda>s. finish_time s = None) done)"

definition delete_terminal_session :: "graph \<Rightarrow> string \<Rightarrow> (graph \<times> bool) res" where
  "delete_terminal_session g i =
     (case map_of (gr_sessions g) i of
        None \<Rightarrow> Inr (g, False)
      | Some s \<Rightarrow>
          if gs_status s = SRunning then Inl (ValueError (''session '' @ i @ '' is not terminal''))
          else Inr (\<lparr>gr_sessions = AList.delete i (gr_sessions g),
                     gr_execs = filter (\<lambda>(k, e). ex_session e \<noteq> i) (gr_execs g),
                     gr_edges = filter (\<lambda>(k, e). ed_session e \<noteq> i) (gr_edges g)\<rparr>, True))"

subsection \<open>Executions\<close>

definition new_execution :: "rat \<Rightarrow> string \<Rightarrow> string \<Rightarrow> string \<Rightarrow> node_policy option \<Rightarrow> execution" where
  "new_execution now i sid name p =
     \<lparr>ex_id = i, ex_session = sid, ex_name = name, ex_status = XPending, ex_input = None, ex_result = None,
      ex_attempts = 0, ex_policy = policy_or_none p, ex_error = None, ex_retry_at = None, ex_effects = None,
      ex_wake = None, ex_created = now, ex_started = None, ex_completed = None\<rparr>"

definition add_execution :: "rat \<Rightarrow> graph \<Rightarrow> string \<Rightarrow> string \<Rightarrow> string \<Rightarrow> node_policy option \<Rightarrow> graph" where
  "add_execution now g sid name i p = g\<lparr>gr_execs := AList.update i (new_execution now i sid name p) (gr_execs g)\<rparr>"

definition get_execution :: "graph \<Rightarrow> string \<Rightarrow> execution option" where
  "get_execution g i = map_of (gr_execs g) i"

definition session_executions :: "graph \<Rightarrow> string \<Rightarrow> exec_status option \<Rightarrow> execution list" where
  "session_executions g sid status =
     filter (\<lambda>e. ex_session e = sid \<and> (case status of None \<Rightarrow> True | Some s \<Rightarrow> ex_status e = s)) (map snd (gr_execs g))"

definition change_exec :: "graph \<Rightarrow> string \<Rightarrow> (execution \<Rightarrow> execution) \<Rightarrow> graph res" where
  "change_exec g i f =
     (case map_of (gr_execs g) i of
        None \<Rightarrow> Inl (KeyError i) | Some e \<Rightarrow> Inr (g\<lparr>gr_execs := AList.update i (f e) (gr_execs g)\<rparr>))"

definition mark_running :: "rat \<Rightarrow> graph \<Rightarrow> string \<Rightarrow> dict \<Rightarrow> graph res" where
  "mark_running now g i st = change_exec g i
     (\<lambda>e. e\<lparr>ex_status := XRunning, ex_input := Some st, ex_attempts := Suc (ex_attempts e), ex_started := Some now\<rparr>)"

definition mark_completed :: "rat \<Rightarrow> graph \<Rightarrow> string \<Rightarrow> dict \<Rightarrow> graph res" where
  "mark_completed now g i st = change_exec g i
     (\<lambda>e. e\<lparr>ex_status := XCompleted, ex_result := Some st, ex_completed := Some now\<rparr>)"

definition mark_retrying :: "graph \<Rightarrow> string \<Rightarrow> string option \<Rightarrow> rat option \<Rightarrow> graph res" where
  "mark_retrying g i error retry_at = change_exec g i
     (\<lambda>e. e\<lparr>ex_status := XPending, ex_error := error, ex_retry_at := retry_at\<rparr>)"

definition mark_failed :: "rat \<Rightarrow> graph \<Rightarrow> string \<Rightarrow> string option \<Rightarrow> graph res" where
  "mark_failed now g i error = change_exec g i
     (\<lambda>e. e\<lparr>ex_status := XFailed, ex_result := Some [(''error'', opt_json error)], ex_error := error, ex_completed := Some now\<rparr>)"

definition mark_waiting :: "graph \<Rightarrow> string \<Rightarrow> wake \<Rightarrow> graph res" where
  "mark_waiting g i w = change_exec g i (\<lambda>e. e\<lparr>ex_status := XWaiting, ex_wake := Some w\<rparr>)"

definition wake_execution :: "graph \<Rightarrow> string \<Rightarrow> graph \<times> bool" where
  "wake_execution g i =
     (case map_of (gr_execs g) i of
        None \<Rightarrow> (g, False)
      | Some e \<Rightarrow> if ex_status e \<noteq> XWaiting then (g, False)
          else (g\<lparr>gr_execs := AList.update i (e\<lparr>ex_status := XPending\<rparr>) (gr_execs g)\<rparr>, True))"

definition waiting_executions :: "graph \<Rightarrow> execution list" where
  "waiting_executions g = filter (\<lambda>e. ex_status e = XWaiting) (map snd (gr_execs g))"

definition set_effects :: "graph \<Rightarrow> string \<Rightarrow> effects option \<Rightarrow> graph res" where
  "set_effects g i ef = change_exec g i (\<lambda>e. e\<lparr>ex_effects := ef\<rparr>)"

definition pending_effect_executions :: "graph \<Rightarrow> execution list" where
  "pending_effect_executions g = filter (\<lambda>e. ex_effects e \<noteq> None) (map snd (gr_execs g))"

subsection \<open>Edges\<close>

definition add_edge :: "graph \<Rightarrow> string \<Rightarrow> string \<Rightarrow> string \<Rightarrow> string option \<Rightarrow> graph" where
  "add_edge g sid a b c = g\<lparr>gr_edges := AList.update (a, b) \<lparr>ed_session = sid, ed_condition = c\<rparr> (gr_edges g)\<rparr>"

definition remove_edge :: "graph \<Rightarrow> string \<Rightarrow> string \<Rightarrow> graph" where
  "remove_edge g a b = g\<lparr>gr_edges := AList.delete (a, b) (gr_edges g)\<rparr>"

definition get_parents :: "graph \<Rightarrow> string \<Rightarrow> (execution \<times> string option) list" where
  "get_parents g i = List.map_filter
     (\<lambda>((a, b), e). if b = i then map_option (\<lambda>p. (p, ed_condition e)) (get_execution g a) else None) (gr_edges g)"

definition get_children :: "graph \<Rightarrow> string \<Rightarrow> (string \<times> string option) list" where
  "get_children g i = List.map_filter (\<lambda>((a, b), e). if a = i then Some (b, ed_condition e) else None) (gr_edges g)"

definition session_edges :: "graph \<Rightarrow> string \<Rightarrow> ((string \<times> string) \<times> edge) list" where
  "session_edges g sid = filter (\<lambda>(k, e). ed_session e = sid) (gr_edges g)"

subsection \<open>The shared graph algebra\<close>

definition parent_ids :: "graph \<Rightarrow> string \<Rightarrow> string list" where
  "parent_ids g i = map (\<lambda>(p, c). ex_id p) (get_parents g i)"

definition child_ids :: "graph \<Rightarrow> string \<Rightarrow> string list" where
  "child_ids g i = map fst (get_children g i)"

text \<open>One condition: it holds unless the edge names a key the parent's nonempty result has false.\<close>

definition condition_met :: "execution \<times> string option \<Rightarrow> bool" where
  "condition_met pc =
     (case pc of (p, c) \<Rightarrow>
        (case (c, ex_result p) of
           (Some k, Some r) \<Rightarrow> k = [] \<or> r = [] \<or> (case map_of r k of None \<Rightarrow> False | Some v \<Rightarrow> truthy v)
         | _ \<Rightarrow> True))"

definition exec_ready :: "graph \<Rightarrow> execution \<Rightarrow> bool" where
  "exec_ready g e \<longleftrightarrow>
     (let ps = get_parents g (ex_id e) in
      ps = [] \<or> list_all (\<lambda>(p, c). ex_status p = XCompleted) ps \<and> list_all condition_met ps)"

definition ready_executions :: "graph \<Rightarrow> string \<Rightarrow> execution list" where
  "ready_executions g sid = filter (exec_ready g) (session_executions g sid (Some XPending))"

definition merge_states :: "dict list \<Rightarrow> dict" where
  "merge_states states = foldl (\<lambda>m d. foldl (\<lambda>m (k, v). AList.update k v m) m d) [] states"

definition collect_input_state :: "graph \<Rightarrow> string \<Rightarrow> dict res" where
  "collect_input_state g i =
     (let ps = get_parents g i in
      if ps = [] then
        (case get_execution g i of
           None \<Rightarrow> Inl (TypeError ''NoneType'')
         | Some e \<Rightarrow> (case get_session g (ex_session e) of None \<Rightarrow> Inl (TypeError ''NoneType'') | Some s \<Rightarrow> Inr (gs_state s)))
      else let states = filter (\<lambda>d. d \<noteq> []) (List.map_filter (\<lambda>(p, c). ex_result p) ps) in
        (case states of [] \<Rightarrow> Inr [] | [d] \<Rightarrow> Inr d | _ \<Rightarrow> Inr (merge_states states)))"

definition remove_edges :: "string \<Rightarrow> (string \<times> string option) list \<Rightarrow> graph \<Rightarrow> graph" where
  "remove_edges i children g = foldl (\<lambda>g (c, k). remove_edge g i c) g children"

definition link_all :: "string \<Rightarrow> string \<Rightarrow> string list \<Rightarrow> graph \<Rightarrow> graph" where
  "link_all sid i starts g = foldl (\<lambda>g s. add_edge g sid i s None) g starts"

definition link_children :: "string \<Rightarrow> string \<Rightarrow> (string \<times> string option) list \<Rightarrow> graph \<Rightarrow> graph" where
  "link_children sid final children g = foldl (\<lambda>g (c, k). add_edge g sid final c k) g children"

definition rewire_after_plan_injection :: "graph \<Rightarrow> string \<Rightarrow> string list \<Rightarrow> string \<Rightarrow> string \<Rightarrow> graph" where
  "rewire_after_plan_injection g i starts final sid =
     (let children = get_children g i in
      link_children sid final children (link_all sid i starts (remove_edges i children g)))"

definition session_graph :: "graph \<Rightarrow> string \<Rightarrow> execution list \<times> ((string \<times> string) \<times> edge) list" where
  "session_graph g sid = (session_executions g sid None, session_edges g sid)"

subsection \<open>Staged plans and the transition commit\<close>

definition write_execs :: "rat \<Rightarrow> string \<Rightarrow> staged_exec list \<Rightarrow> graph \<Rightarrow> graph" where
  "write_execs now sid es g = foldl (\<lambda>g e. add_execution now g sid (se_name e) (se_id e) (se_policy e)) g es"

definition write_edges :: "string \<Rightarrow> staged_edge list \<Rightarrow> graph \<Rightarrow> graph" where
  "write_edges sid es g = foldl (\<lambda>g (a, b, c). add_edge g sid a b c) g es"

definition apply_staged :: "rat \<Rightarrow> graph \<Rightarrow> string \<Rightarrow> staged_plan \<Rightarrow> graph" where
  "apply_staged now g sid sp = write_edges sid (sl_edges sp) (write_execs now sid (sl_execs sp) g)"

definition node_counts :: "execution list \<Rightarrow> (string \<times> nat) list" where
  "node_counts es = foldl (\<lambda>d e. AList.update (ex_name e) (Suc (count_of d (ex_name e))) d) [] es"

definition expand_plan ::
    "rat \<Rightarrow> (nat \<Rightarrow> string) \<Rightarrow> graph \<Rightarrow> string \<Rightarrow> plan \<Rightarrow> registry \<Rightarrow> nat
       \<Rightarrow> (graph \<times> string list \<times> string \<times> registry \<times> nat) res" where
  "expand_plan now ids g sid p reg n =
     rbind (stage_plan ids None p (node_counts (session_executions g sid None)) reg n) (\<lambda>(sp, reg', n').
       Inr (apply_staged now g sid sp, sl_starts sp, sl_end sp, reg', n'))"

definition splice ::
    "rat \<Rightarrow> graph \<Rightarrow> string \<Rightarrow> string \<Rightarrow> staged_plan \<Rightarrow> (string \<times> string option) list \<Rightarrow> graph" where
  "splice now g i sid sp children =
     link_children sid (sl_end sp) children (link_all sid i (sl_starts sp) (remove_edges i children (apply_staged now g sid sp)))"

text \<open>One spawned child: skipped when its session exists, written whole otherwise.\<close>

definition commit_spawn :: "rat \<Rightarrow> graph \<Rightarrow> staged_session \<Rightarrow> graph res" where
  "commit_spawn now g child =
     (if get_session g (ss_id child) \<noteq> None then Inr g
      else let g1 = fst (create_graph_session now [] g (ss_trigger child) (ss_state child) None (Some (ss_id child)));
               g2 = add_execution now g1 (ss_id child) head_name (ss_head child) None;
               g3 = add_execution now g2 (ss_id child) end_name (ss_end child) None;
               g4 = write_edges (ss_id child) (ss_edges child) (write_execs now (ss_id child) (ss_execs child) g3)
           in mark_completed now g4 (ss_head child) (ss_state child))"

definition commit_transition ::
    "rat \<Rightarrow> graph \<Rightarrow> string \<Rightarrow> string \<Rightarrow> dict \<Rightarrow> staged_plan option \<Rightarrow> (string \<times> string option) list
       \<Rightarrow> effects option \<Rightarrow> staged_session list \<Rightarrow> graph res" where
  "commit_transition now g i sid result staged children ef spawns =
     (let g1 = (case staged of None \<Rightarrow> g | Some sp \<Rightarrow> splice now g i sid sp children) in
      rbind (fold_res (commit_spawn now) g1 spawns) (\<lambda>g2.
      rbind (case ef of None \<Rightarrow> Inr g2 | Some e \<Rightarrow> set_effects g2 i (Some e)) (\<lambda>g3.
        mark_completed now g3 i result)))"

subsection \<open>Retention\<close>

record retention =
  rt_ttl :: "rat option"
  rt_max :: "int option"
  rt_batch :: int
  rt_interval :: rat

definition new_retention :: "rat option \<Rightarrow> int option \<Rightarrow> int \<Rightarrow> rat \<Rightarrow> retention res" where
  "new_retention ttl most batch interval =
     (if (case ttl of None \<Rightarrow> False | Some t \<Rightarrow> t < 0) then Inl (ValueError ''terminal_ttl_seconds must be >= 0 or None'')
      else if (case most of None \<Rightarrow> False | Some n \<Rightarrow> n < 0) then Inl (ValueError ''max_terminal_sessions must be >= 0 or None'')
      else if batch < 1 then Inl (ValueError ''batch_size must be >= 1'')
      else if interval < 0 then Inl (ValueError ''interval_seconds must be >= 0'')
      else Inr \<lparr>rt_ttl = ttl, rt_max = most, rt_batch = batch, rt_interval = interval\<rparr>)"

definition overflow_of :: "retention \<Rightarrow> nat \<Rightarrow> nat" where
  "overflow_of p n = (case rt_max p of None \<Rightarrow> 0 | Some m \<Rightarrow> n - nat m)"

definition expired_session :: "retention \<Rightarrow> rat \<Rightarrow> graph_session \<Rightarrow> bool" where
  "expired_session p now s =
     (case (rt_ttl p, gs_completed s) of (Some ttl, Some t) \<Rightarrow> t \<le> now - ttl | _ \<Rightarrow> False)"

definition gc_selected :: "retention \<Rightarrow> rat \<Rightarrow> graph_session list \<Rightarrow> string list" where
  "gc_selected p now sessions =
     take (nat (rt_batch p)) (map (\<lambda>(k, s). gs_id s)
       (filter (\<lambda>(k, s). k < overflow_of p (length sessions) \<or> expired_session p now s) (enumerate 0 sessions)))"

definition gc_delete :: "graph \<times> string list \<Rightarrow> string \<Rightarrow> (graph \<times> string list) res" where
  "gc_delete acc i = (case acc of (g, deleted) \<Rightarrow>
     rbind (delete_terminal_session g i) (\<lambda>(g', b). Inr (g', if b then deleted @ [i] else deleted)))"

definition collect_terminal_sessions :: "graph \<Rightarrow> retention \<Rightarrow> rat \<Rightarrow> (graph \<times> string list) res" where
  "collect_terminal_sessions g p now = fold_res gc_delete (g, []) (gc_selected p now (terminal_sessions g))"

end
