(* ===== verification/Graph_SQL.thy ===== *)
theory Graph_SQL
  imports Graph_Store
begin

text \<open>
  The SQLite graph store (\<open>entourage/runtime/store.py\<close>, class \<open>SQLiteGraphStore\<close>): three tables, each the
  list of its rows in insertion order, and one definition per method. A state column holds the value its
  JSON text denotes. The statement \<open>serial_key = NULL\<close> of an ending session, the unique index over
  the keys, the primary keys and the foreign keys are the code's; the schema migration is not modelled. A
  statement that a constraint refuses raises and leaves the tables as they are.
\<close>

subsection \<open>Tables\<close>

record edge_row =
  er_session :: string
  er_from :: string
  er_to :: string
  er_condition :: "string option"

record sql_graph =
  sq_sessions :: "graph_session list"
  sq_execs :: "execution list"
  sq_edges :: "edge_row list"

definition sql_empty :: sql_graph where
  "sql_empty = \<lparr>sq_sessions = [], sq_execs = [], sq_edges = []\<rparr>"

definition integrity_error :: "string \<Rightarrow> py_error" where
  "integrity_error m = OtherError ''IntegrityError'' m"

subsection \<open>Sessions\<close>

definition sql_get_session :: "sql_graph \<Rightarrow> string \<Rightarrow> graph_session option" where
  "sql_get_session db i = find (\<lambda>s. gs_id s = i) (sq_sessions db)"

definition session_conflict :: "sql_graph \<Rightarrow> string \<Rightarrow> string option \<Rightarrow> bool" where
  "session_conflict db i serial \<longleftrightarrow>
     list_ex (\<lambda>s. gs_id s = i \<or> (serial \<noteq> None \<and> gs_serial s = serial)) (sq_sessions db)"

definition sql_create_session ::
    "rat \<Rightarrow> string \<Rightarrow> sql_graph \<Rightarrow> string \<Rightarrow> dict \<Rightarrow> string option \<Rightarrow> string option \<Rightarrow> sql_graph \<times> string option" where
  "sql_create_session now fresh db trigger st serial given =
     (let i = (case given of None \<Rightarrow> fresh | Some i \<Rightarrow> i) in
      if session_conflict db i serial then (db, None)
      else (db\<lparr>sq_sessions := sq_sessions db @ [\<lparr>gs_id = i, gs_trigger = trigger, gs_status = SRunning, gs_state = st,
              gs_serial = serial, gs_created = now, gs_completed = None\<rparr>]\<rparr>, Some i))"

definition sql_end_session :: "graph_status \<Rightarrow> rat \<Rightarrow> sql_graph \<Rightarrow> string \<Rightarrow> sql_graph" where
  "sql_end_session status now db i = db\<lparr>sq_sessions := map (\<lambda>s. if gs_id s = i
     then s\<lparr>gs_status := status, gs_completed := Some now, gs_serial := None\<rparr> else s) (sq_sessions db)\<rparr>"

definition sql_complete_session :: "rat \<Rightarrow> sql_graph \<Rightarrow> string \<Rightarrow> sql_graph" where
  "sql_complete_session = sql_end_session SCompleted"

definition sql_fail_session :: "rat \<Rightarrow> sql_graph \<Rightarrow> string \<Rightarrow> sql_graph" where
  "sql_fail_session = sql_end_session SFailed"

definition sql_running_sessions :: "sql_graph \<Rightarrow> graph_session list" where
  "sql_running_sessions db = filter (\<lambda>s. gs_status s = SRunning) (sq_sessions db)"

text \<open>\<open>ORDER BY completed_at ASC\<close>, where \<open>NULL\<close> sorts first.\<close>

definition sql_terminal_sessions :: "sql_graph \<Rightarrow> graph_session list" where
  "sql_terminal_sessions db =
     (let rows = filter (\<lambda>s. gs_status s \<noteq> SRunning) (sq_sessions db) in
      filter (\<lambda>s. gs_completed s = None) rows
      @ sort_key (\<lambda>s. the (gs_completed s)) (filter (\<lambda>s. gs_completed s \<noteq> None) rows))"

definition sql_delete_terminal_session :: "sql_graph \<Rightarrow> string \<Rightarrow> (sql_graph \<times> bool) res" where
  "sql_delete_terminal_session db i =
     (case sql_get_session db i of
        None \<Rightarrow> Inr (db, False)
      | Some s \<Rightarrow>
          if gs_status s = SRunning then Inl (ValueError (''session '' @ i @ '' is not terminal''))
          else Inr (\<lparr>sq_sessions = filter (\<lambda>s. gs_id s \<noteq> i) (sq_sessions db),
                     sq_execs = filter (\<lambda>e. ex_session e \<noteq> i) (sq_execs db),
                     sq_edges = filter (\<lambda>e. er_session e \<noteq> i) (sq_edges db)\<rparr>, True))"

subsection \<open>Executions\<close>

definition session_known :: "sql_graph \<Rightarrow> string \<Rightarrow> bool" where
  "session_known db sid \<longleftrightarrow> list_ex (\<lambda>s. gs_id s = sid) (sq_sessions db)"

definition sql_add_execution ::
    "rat \<Rightarrow> sql_graph \<Rightarrow> string \<Rightarrow> string \<Rightarrow> string \<Rightarrow> node_policy option \<Rightarrow> sql_graph res" where
  "sql_add_execution now db sid name i p =
     (if list_ex (\<lambda>e. ex_id e = i) (sq_execs db) then Inl (integrity_error ''UNIQUE constraint failed: executions.id'')
      else if \<not> session_known db sid then Inl (integrity_error ''FOREIGN KEY constraint failed'')
      else Inr (db\<lparr>sq_execs := sq_execs db @ [new_execution now i sid name p]\<rparr>))"

definition sql_get_execution :: "sql_graph \<Rightarrow> string \<Rightarrow> execution option" where
  "sql_get_execution db i = find (\<lambda>e. ex_id e = i) (sq_execs db)"

definition sql_session_executions :: "sql_graph \<Rightarrow> string \<Rightarrow> exec_status option \<Rightarrow> execution list" where
  "sql_session_executions db sid status =
     filter (\<lambda>e. ex_session e = sid \<and> (case status of None \<Rightarrow> True | Some s \<Rightarrow> ex_status e = s)) (sq_execs db)"

definition sql_update :: "sql_graph \<Rightarrow> string \<Rightarrow> (execution \<Rightarrow> execution) \<Rightarrow> sql_graph" where
  "sql_update db i f = db\<lparr>sq_execs := map (\<lambda>e. if ex_id e = i then f e else e) (sq_execs db)\<rparr>"

definition sql_mark_running :: "rat \<Rightarrow> sql_graph \<Rightarrow> string \<Rightarrow> dict \<Rightarrow> sql_graph" where
  "sql_mark_running now db i st = sql_update db i
     (\<lambda>e. e\<lparr>ex_status := XRunning, ex_input := Some st, ex_attempts := ex_attempts e + 1, ex_started := Some now\<rparr>)"

definition sql_mark_completed :: "rat \<Rightarrow> sql_graph \<Rightarrow> string \<Rightarrow> dict \<Rightarrow> sql_graph" where
  "sql_mark_completed now db i st = sql_update db i
     (\<lambda>e. e\<lparr>ex_status := XCompleted, ex_result := Some st, ex_completed := Some now\<rparr>)"

definition sql_mark_retrying :: "sql_graph \<Rightarrow> string \<Rightarrow> string option \<Rightarrow> rat option \<Rightarrow> sql_graph" where
  "sql_mark_retrying db i error retry_at = sql_update db i
     (\<lambda>e. e\<lparr>ex_status := XPending, ex_error := error, ex_retry_at := retry_at\<rparr>)"

definition sql_mark_failed :: "rat \<Rightarrow> sql_graph \<Rightarrow> string \<Rightarrow> string option \<Rightarrow> sql_graph" where
  "sql_mark_failed now db i error = sql_update db i
     (\<lambda>e. e\<lparr>ex_status := XFailed, ex_result := Some [(''error'', opt_json error)], ex_error := error, ex_completed := Some now\<rparr>)"

definition sql_mark_waiting :: "sql_graph \<Rightarrow> string \<Rightarrow> wake \<Rightarrow> sql_graph" where
  "sql_mark_waiting db i w = sql_update db i (\<lambda>e. e\<lparr>ex_status := XWaiting, ex_wake := Some w\<rparr>)"

text \<open>The result is \<open>rowcount > 0\<close>.\<close>

definition sql_wake_execution :: "sql_graph \<Rightarrow> string \<Rightarrow> sql_graph \<times> bool" where
  "sql_wake_execution db i =
     (db\<lparr>sq_execs := map (\<lambda>e. if ex_id e = i \<and> ex_status e = XWaiting then e\<lparr>ex_status := XPending\<rparr> else e) (sq_execs db)\<rparr>,
      list_ex (\<lambda>e. ex_id e = i \<and> ex_status e = XWaiting) (sq_execs db))"

definition sql_waiting_executions :: "sql_graph \<Rightarrow> execution list" where
  "sql_waiting_executions db = filter (\<lambda>e. ex_status e = XWaiting) (sq_execs db)"

definition sql_set_effects :: "sql_graph \<Rightarrow> string \<Rightarrow> effects option \<Rightarrow> sql_graph" where
  "sql_set_effects db i ef = sql_update db i (\<lambda>e. e\<lparr>ex_effects := ef\<rparr>)"

definition sql_pending_effect_executions :: "sql_graph \<Rightarrow> execution list" where
  "sql_pending_effect_executions db = filter (\<lambda>e. ex_effects e \<noteq> None) (sq_execs db)"

subsection \<open>Edges\<close>

text \<open>\<open>INSERT OR REPLACE\<close>: a row with the same key gives way to the new one; the foreign key is still checked.\<close>

definition sql_add_edge :: "sql_graph \<Rightarrow> string \<Rightarrow> string \<Rightarrow> string \<Rightarrow> string option \<Rightarrow> sql_graph res" where
  "sql_add_edge db sid a b c =
     (if \<not> session_known db sid then Inl (integrity_error ''FOREIGN KEY constraint failed'')
      else Inr (db\<lparr>sq_edges := filter (\<lambda>r. \<not> (er_from r = a \<and> er_to r = b)) (sq_edges db)
             @ [\<lparr>er_session = sid, er_from = a, er_to = b, er_condition = c\<rparr>]\<rparr>))"

definition sql_remove_edge :: "sql_graph \<Rightarrow> string \<Rightarrow> string \<Rightarrow> sql_graph" where
  "sql_remove_edge db a b = db\<lparr>sq_edges := filter (\<lambda>r. \<not> (er_from r = a \<and> er_to r = b)) (sq_edges db)\<rparr>"

definition sql_parents :: "sql_graph \<Rightarrow> string \<Rightarrow> (execution \<times> string option) list" where
  "sql_parents db i = concat (map (\<lambda>e. map (\<lambda>r. (e, er_condition r))
     (filter (\<lambda>r. er_from r = ex_id e \<and> er_to r = i) (sq_edges db))) (sq_execs db))"

definition sql_children :: "sql_graph \<Rightarrow> string \<Rightarrow> (string \<times> string option) list" where
  "sql_children db i = map (\<lambda>r. (er_to r, er_condition r)) (filter (\<lambda>r. er_from r = i) (sq_edges db))"

definition sql_session_edges :: "sql_graph \<Rightarrow> string \<Rightarrow> edge_row list" where
  "sql_session_edges db sid = filter (\<lambda>r. er_session r = sid) (sq_edges db)"

subsection \<open>The transition commit\<close>

definition sql_write_execs :: "rat \<Rightarrow> string \<Rightarrow> staged_exec list \<Rightarrow> sql_graph \<Rightarrow> sql_graph res" where
  "sql_write_execs now sid es db = fold_res (\<lambda>db e. sql_add_execution now db sid (se_name e) (se_id e) (se_policy e)) db es"

definition sql_write_edges :: "string \<Rightarrow> staged_edge list \<Rightarrow> sql_graph \<Rightarrow> sql_graph res" where
  "sql_write_edges sid es db = fold_res (\<lambda>db (a, b, c). sql_add_edge db sid a b c) db es"

definition sql_splice ::
    "rat \<Rightarrow> sql_graph \<Rightarrow> string \<Rightarrow> string \<Rightarrow> staged_plan \<Rightarrow> (string \<times> string option) list \<Rightarrow> sql_graph res" where
  "sql_splice now db i sid sp children =
     rbind (sql_write_execs now sid (sl_execs sp) db) (\<lambda>db1.
     rbind (sql_write_edges sid (sl_edges sp) db1) (\<lambda>db2.
     rbind (fold_res (\<lambda>db s. sql_add_edge db sid i s None) (foldl (\<lambda>db (c, k). sql_remove_edge db i c) db2 children) (sl_starts sp)) (\<lambda>db3.
       fold_res (\<lambda>db (c, k). sql_add_edge db sid (sl_end sp) c k) db3 children)))"

definition sql_commit_spawn :: "rat \<Rightarrow> sql_graph \<Rightarrow> staged_session \<Rightarrow> sql_graph res" where
  "sql_commit_spawn now db child =
     (if sql_get_session db (ss_id child) \<noteq> None then Inr db
      else
        rbind (sql_add_execution now (fst (sql_create_session now [] db (ss_trigger child) (ss_state child) None (Some (ss_id child))))
                 (ss_id child) head_name (ss_head child) None) (\<lambda>db1.
        rbind (sql_add_execution now db1 (ss_id child) end_name (ss_end child) None) (\<lambda>db2.
        rbind (sql_write_execs now (ss_id child) (ss_execs child) db2) (\<lambda>db3.
        rbind (sql_write_edges (ss_id child) (ss_edges child) db3) (\<lambda>db4.
          Inr (sql_mark_completed now db4 (ss_head child) (ss_state child)))))))"

text \<open>The transaction: the tables it leaves, also when it raises, and its result.\<close>

definition transaction :: "(sql_graph \<Rightarrow> sql_graph res) \<Rightarrow> sql_graph \<Rightarrow> sql_graph \<times> unit res" where
  "transaction f db = (case f db of Inl e \<Rightarrow> (db, Inl e) | Inr db' \<Rightarrow> (db', Inr ()))"

definition sql_commit_writes ::
    "rat \<Rightarrow> string \<Rightarrow> string \<Rightarrow> dict \<Rightarrow> staged_plan option \<Rightarrow> (string \<times> string option) list
       \<Rightarrow> effects option \<Rightarrow> staged_session list \<Rightarrow> sql_graph \<Rightarrow> sql_graph res" where
  "sql_commit_writes now i sid result staged children ef spawns db =
     rbind (case staged of None \<Rightarrow> Inr db | Some sp \<Rightarrow> sql_splice now db i sid sp children) (\<lambda>db1.
     rbind (fold_res (sql_commit_spawn now) db1 spawns) (\<lambda>db2.
       Inr (sql_mark_completed now (case ef of None \<Rightarrow> db2 | Some e \<Rightarrow> sql_set_effects db2 i (Some e)) i result)))"

definition sql_commit_transition ::
    "rat \<Rightarrow> sql_graph \<Rightarrow> string \<Rightarrow> string \<Rightarrow> dict \<Rightarrow> staged_plan option \<Rightarrow> (string \<times> string option) list
       \<Rightarrow> effects option \<Rightarrow> staged_session list \<Rightarrow> sql_graph \<times> unit res" where
  "sql_commit_transition now db i sid result staged children ef spawns =
     transaction (sql_commit_writes now i sid result staged children ef spawns) db"

end
