(* ===== verification/Mailboxes.thy ===== *)
theory Mailboxes
  imports Py_Values
begin

text \<open>
  The reference mailbox of the graph runtime (\<open>entourage/mailbox.py\<close>, class \<open>InMemoryMailbox\<close>):
  per-conversation event queues with leases. An event's lifecycle fields are a record; its other
  content is the dictionary \<open>me_body\<close>, which is what a consumer gets to see. The lock is not
  modelled: every method holds it throughout, so methods are atomic steps. \<open>now\<close> is the clock
  reading of a call. A method that can raise halfway returns the mailbox it leaves behind.
\<close>

subsection \<open>Events and their state\<close>

datatype mail_status = Pending | Leased | Acknowledged

record mail_event =
  me_id :: string
  me_body :: dict
  me_status :: mail_status
  me_consumer :: "string option"
  me_lease :: "rat option"
  me_acked :: "rat option"
  me_seq :: nat

record mailbox =
  mb_events :: "(string \<times> mail_event list) list"
  mb_ids :: "(string \<times> string \<times> rat) list"
  mb_next :: nat

definition empty_mailbox :: mailbox where
  "empty_mailbox = \<lparr>mb_events = [], mb_ids = [], mb_next = 0\<rparr>"

text \<open>\<open>self._events.get(conversation_id, [])\<close>.\<close>

definition conversation :: "mailbox \<Rightarrow> string \<Rightarrow> mail_event list" where
  "conversation mb c = (case map_of (mb_events mb) c of None \<Rightarrow> [] | Some es \<Rightarrow> es)"

text \<open>The events of a conversation, changed in place.\<close>

definition set_conversation :: "string \<Rightarrow> mail_event list \<Rightarrow> mailbox \<Rightarrow> mailbox" where
  "set_conversation c es mb =
     mb\<lparr>mb_events := map (\<lambda>(k, v). (k, if k = c then es else v)) (mb_events mb)\<rparr>"

definition lifecycle_keys :: "string list" where
  "lifecycle_keys = [''status'', ''consumer'', ''lease_until'', ''acknowledged_at'', ''_sequence'']"

definition lease_expired :: "rat \<Rightarrow> mail_event \<Rightarrow> bool" where
  "lease_expired now e \<longleftrightarrow> me_status e = Leased \<and> (case me_lease e of None \<Rightarrow> False | Some t \<Rightarrow> t \<le> now)"

definition claimable :: "rat \<Rightarrow> mail_event \<Rightarrow> bool" where
  "claimable now e \<longleftrightarrow> me_status e = Pending \<or> lease_expired now e"

text \<open>\<open>_public\<close>: the lifecycle fields are stripped.\<close>

definition public_event :: "mail_event \<Rightarrow> dict" where
  "public_event e = filter (\<lambda>(k, v). k \<notin> set lifecycle_keys) (me_body e)"

subsection \<open>Append\<close>

text \<open>
  \<open>str(value.get("event_id") or uuid4().hex)\<close>: \<open>fresh\<close> is the random ID. IDs are strings or
  integers; any other truthy value is rejected here.
\<close>

definition chosen_id :: "string \<Rightarrow> dict \<Rightarrow> string res" where
  "chosen_id fresh event =
     (case map_of event ''event_id'' of
        None \<Rightarrow> Inr fresh
      | Some v \<Rightarrow> if \<not> truthy v then Inr fresh
          else (case v of JStr s \<Rightarrow> Inr s | JInt i \<Rightarrow> Inr (int_text i) | _ \<Rightarrow> Inl (TypeError ''event_id'')))"

definition appended :: "rat \<Rightarrow> nat \<Rightarrow> string \<Rightarrow> string \<Rightarrow> dict \<Rightarrow> mail_event" where
  "appended now seq eid c event =
     \<lparr>me_id = eid,
      me_body = dict_default ''created_at'' (JFloat (Fin now))
        (AList.update ''conversation_id'' (JStr c) (AList.update ''event_id'' (JStr eid) event)),
      me_status = Pending, me_consumer = None, me_lease = None, me_acked = None, me_seq = seq\<rparr>"

definition append_mail_event :: "rat \<Rightarrow> string \<Rightarrow> mailbox \<Rightarrow> string \<Rightarrow> dict \<Rightarrow> (mailbox \<times> string) res" where
  "append_mail_event now fresh mb c event =
     (if c = [] then Inl (ValueError ''conversation_id is required'')
      else rbind (chosen_id fresh event) (\<lambda>eid.
        case map_of (mb_ids mb) eid of
          Some (known, seen) \<Rightarrow>
            if known \<noteq> c then Inl (ValueError (''event_id '' @ repr_str eid @ '' belongs to another conversation''))
            else Inr (mb, eid)
        | None \<Rightarrow>
            Inr (\<lparr>mb_events = AList.update c (conversation mb c @ [appended now (mb_next mb) eid c event]) (mb_events mb),
                  mb_ids = AList.update eid (c, now) (mb_ids mb), mb_next = Suc (mb_next mb)\<rparr>, eid)))"

subsection \<open>Claims\<close>

text \<open>The claiming loop: the first \<open>n\<close> claimable events are leased.\<close>

fun lease_events :: "rat \<Rightarrow> string \<Rightarrow> rat \<Rightarrow> nat \<Rightarrow> mail_event list \<Rightarrow> mail_event list \<times> dict list" where
  "lease_events now consumer seconds 0 es = (es, [])"
| "lease_events now consumer seconds (Suc n) [] = ([], [])"
| "lease_events now consumer seconds (Suc n) (e # es) =
     (if claimable now e then
        let (es', claimed) = lease_events now consumer seconds n es
        in (e\<lparr>me_status := Leased, me_consumer := Some consumer, me_lease := Some (now + seconds)\<rparr> # es',
            public_event e # claimed)
      else let (es', claimed) = lease_events now consumer seconds (Suc n) es in (e # es', claimed))"

definition claim_mail ::
    "rat \<Rightarrow> mailbox \<Rightarrow> string \<Rightarrow> string \<Rightarrow> nat \<Rightarrow> rat \<Rightarrow> (mailbox \<times> dict list) res" where
  "claim_mail now mb c consumer limit seconds =
     (if consumer = [] then Inl (ValueError ''consumer is required'')
      else if limit < 1 then Inl (ValueError ''limit must be >= 1'')
      else if seconds < 0 then Inl (ValueError ''lease_seconds must be >= 0'')
      else let (es, claimed) = lease_events now consumer seconds limit (conversation mb c)
           in Inr (set_conversation c es mb, claimed))"

text \<open>The first claimable event of each conversation, with its sequence number.\<close>

definition heads :: "rat \<Rightarrow> mailbox \<Rightarrow> (nat \<times> string) list" where
  "heads now mb = List.map_filter
     (\<lambda>(c, es). map_option (\<lambda>e. (me_seq e, c)) (find (claimable now) es)) (mb_events mb)"

definition claim_any_mail :: "rat \<Rightarrow> mailbox \<Rightarrow> string \<Rightarrow> nat \<Rightarrow> rat \<Rightarrow> (mailbox \<times> dict list) res" where
  "claim_any_mail now mb consumer limit seconds =
     (case min_by fst (heads now mb) of
        None \<Rightarrow> Inr (mb, [])
      | Some (seq, c) \<Rightarrow> claim_mail now mb c consumer limit seconds)"

subsection \<open>Acknowledge and release\<close>

text \<open>\<open>_selected\<close>: the IDs asked for must all be there.\<close>

definition selection_ok :: "mailbox \<Rightarrow> string \<Rightarrow> string list \<Rightarrow> bool" where
  "selection_ok mb c ids \<longleftrightarrow>
     length (filter (\<lambda>e. me_id e \<in> set ids) (conversation mb c)) = length (remdups ids)"

definition require_lease :: "rat \<Rightarrow> string \<Rightarrow> mail_event \<Rightarrow> unit res" where
  "require_lease now consumer e =
     (if me_status e \<noteq> Leased \<or> me_consumer e \<noteq> Some consumer
         \<or> (case me_lease e of None \<Rightarrow> False | Some t \<Rightarrow> t \<le> now)
      then Inl (ValueError (''event '' @ repr_str (me_id e) @ '' is not leased by '' @ repr_str consumer))
      else Inr ())"

text \<open>
  The loop of \<open>acknowledge\<close> and \<open>release\<close>: each selected event is checked and changed in turn; a
  failing check leaves the earlier events changed.
\<close>

fun settle_events ::
    "(mail_event \<Rightarrow> bool) \<Rightarrow> (mail_event \<Rightarrow> unit res) \<Rightarrow> (mail_event \<Rightarrow> mail_event) \<Rightarrow> mail_event list
       \<Rightarrow> mail_event list \<times> unit res" where
  "settle_events sel check f [] = ([], Inr ())"
| "settle_events sel check f (e # es) =
     (if \<not> sel e then let (es', r) = settle_events sel check f es in (e # es', r)
      else (case check e of
        Inl err \<Rightarrow> (e # es, Inl err)
      | Inr u \<Rightarrow> let (es', r) = settle_events sel check f es in (f e # es', r)))"

definition acknowledge_mail ::
    "rat \<Rightarrow> mailbox \<Rightarrow> string \<Rightarrow> string \<Rightarrow> string list \<Rightarrow> bool \<Rightarrow> mailbox \<times> unit res" where
  "acknowledge_mail now mb c consumer ids force =
     (if \<not> force \<and> \<not> selection_ok mb c ids then (mb, Inl (KeyError ''one or more mailbox events were not found''))
      else let (es, r) = settle_events
             (\<lambda>e. me_id e \<in> set ids \<and> (force \<longrightarrow> me_status e \<noteq> Acknowledged))
             (\<lambda>e. if force then Inr () else require_lease now consumer e)
             (\<lambda>e. e\<lparr>me_status := Acknowledged, me_acked := Some now, me_consumer := None, me_lease := None\<rparr>)
             (conversation mb c)
           in (set_conversation c es mb, r))"

definition release_mail :: "rat \<Rightarrow> mailbox \<Rightarrow> string \<Rightarrow> string \<Rightarrow> string list \<Rightarrow> mailbox \<times> unit res" where
  "release_mail now mb c consumer ids =
     (if \<not> selection_ok mb c ids then (mb, Inl (KeyError ''one or more mailbox events were not found''))
      else let (es, r) = settle_events (\<lambda>e. me_id e \<in> set ids) (require_lease now consumer)
             (\<lambda>e. e\<lparr>me_status := Pending, me_consumer := None, me_lease := None\<rparr>) (conversation mb c)
           in (set_conversation c es mb, r))"

subsection \<open>Purges\<close>

definition acked_by :: "rat option \<Rightarrow> mail_event \<Rightarrow> bool" where
  "acked_by older e \<longleftrightarrow> me_status e = Acknowledged
     \<and> (case older of None \<Rightarrow> True | Some t \<Rightarrow> (case me_acked e of None \<Rightarrow> False | Some a \<Rightarrow> a \<noteq> 0 \<and> a \<le> t))"

definition purge_candidates :: "mailbox \<Rightarrow> string list \<Rightarrow> rat option \<Rightarrow> nat \<Rightarrow> mail_event list" where
  "purge_candidates mb cs older limit =
     take limit (sort_key me_seq (filter (acked_by older) (concat (map (conversation mb) cs))))"

definition purge_conversation ::
    "string list \<Rightarrow> mailbox \<times> nat \<Rightarrow> string \<Rightarrow> mailbox \<times> nat" where
  "purge_conversation ids acc c =
     (case acc of (mb, removed) \<Rightarrow>
        let es = conversation mb c; kept = filter (\<lambda>e. me_id e \<notin> set ids) es in
        (if kept \<noteq> [] then set_conversation c kept mb else mb\<lparr>mb_events := AList.delete c (mb_events mb)\<rparr>,
         removed + (length es - length kept)))"

definition purge_acknowledged ::
    "mailbox \<Rightarrow> string option \<Rightarrow> rat option \<Rightarrow> nat \<Rightarrow> (mailbox \<times> nat) res" where
  "purge_acknowledged mb c older limit =
     (if limit < 1 then Inl (ValueError ''limit must be >= 1'')
      else let cs = (case c of None \<Rightarrow> map fst (mb_events mb) | Some x \<Rightarrow> [x]);
               ids = map me_id (purge_candidates mb cs older limit)
           in Inr (foldl (purge_conversation ids) (mb, 0) cs))"

definition live_ids :: "mailbox \<Rightarrow> string list" where
  "live_ids mb = concat (map (\<lambda>(c, es). map me_id es) (mb_events mb))"

definition purge_deduplication_keys :: "mailbox \<Rightarrow> rat \<Rightarrow> nat \<Rightarrow> (mailbox \<times> nat) res" where
  "purge_deduplication_keys mb older limit =
     (if limit < 1 then Inl (ValueError ''limit must be >= 1'')
      else let old = take limit (map fst (filter (\<lambda>(i, c, seen). i \<notin> set (live_ids mb) \<and> seen \<le> older) (mb_ids mb)))
           in Inr (mb\<lparr>mb_ids := foldl (\<lambda>d i. AList.delete i d) (mb_ids mb) old\<rparr>, length old))"

subsection \<open>Observation\<close>

definition pending_count :: "mailbox \<Rightarrow> string \<Rightarrow> nat" where
  "pending_count mb c = length (filter (\<lambda>e. me_status e = Pending) (conversation mb c))"

definition claimable_count :: "rat \<Rightarrow> mailbox \<Rightarrow> string \<Rightarrow> nat" where
  "claimable_count now mb c = length (filter (claimable now) (conversation mb c))"

definition claimable_conversations :: "rat \<Rightarrow> mailbox \<Rightarrow> string list" where
  "claimable_conversations now mb = map fst (filter (\<lambda>(c, es). list_ex (claimable now) es) (mb_events mb))"

definition watched :: "mailbox \<Rightarrow> string option \<Rightarrow> mail_event list" where
  "watched mb c = (case c of Some x \<Rightarrow> conversation mb x | None \<Rightarrow> concat (map snd (mb_events mb)))"

definition has_claimable :: "rat \<Rightarrow> mailbox \<Rightarrow> string option \<Rightarrow> bool" where
  "has_claimable now mb c = list_ex (claimable now) (watched mb c)"

definition next_lease_delay :: "rat \<Rightarrow> mailbox \<Rightarrow> string option \<Rightarrow> rat option" where
  "next_lease_delay now mb c =
     map_option (\<lambda>t. max 0 (t - now))
       (min_by id (List.map_filter (\<lambda>e. if me_status e = Leased then me_lease e else None) (watched mb c)))"

text \<open>
  One turn of the loop of \<open>wait_for_events\<close>: it returns, or it waits on the condition variable for
  at most the given time (\<open>remaining\<close> is the time to the deadline, if there is one).
\<close>

datatype wait_turn = Return bool | Block "rat option"

definition wait_turn_of :: "rat \<Rightarrow> mailbox \<Rightarrow> string option \<Rightarrow> rat option \<Rightarrow> wait_turn" where
  "wait_turn_of now mb c remaining =
     (if has_claimable now mb c then Return True
      else if (case remaining of None \<Rightarrow> False | Some r \<Rightarrow> r \<le> 0) then Return False
      else Block (min_by id (List.map_filter id [remaining, next_lease_delay now mb c])))"

end
