(* ===== verification/Mailbox_Laws.thy ===== *)
theory Mailbox_Laws
  imports Mailboxes
begin

text \<open>
  Laws of the reference mailbox: its operations as one step function, the invariant every step
  preserves, how a step changes a stored event, and the properties of leases and of acceptance.
\<close>

subsection \<open>Steps\<close>

datatype mail_op =
    AppendMail string string dict
  | ClaimMail string string nat rat
  | ClaimAny string nat rat
  | AckMail string string "string list" bool
  | ReleaseMail string string "string list"
  | PurgeMail "string option" "rat option" nat
  | PurgeKeys rat nat

text \<open>The mailbox an operation leaves and the events it delivers.\<close>

fun mail_step :: "rat \<Rightarrow> mail_op \<Rightarrow> mailbox \<Rightarrow> mailbox \<times> dict list" where
  "mail_step now (AppendMail c fresh event) mb =
     (case append_mail_event now fresh mb c event of Inl e \<Rightarrow> (mb, []) | Inr (mb', i) \<Rightarrow> (mb', []))"
| "mail_step now (ClaimMail c consumer n s) mb =
     (case claim_mail now mb c consumer n s of Inl e \<Rightarrow> (mb, []) | Inr r \<Rightarrow> r)"
| "mail_step now (ClaimAny consumer n s) mb =
     (case claim_any_mail now mb consumer n s of Inl e \<Rightarrow> (mb, []) | Inr r \<Rightarrow> r)"
| "mail_step now (AckMail c consumer ids force) mb = (fst (acknowledge_mail now mb c consumer ids force), [])"
| "mail_step now (ReleaseMail c consumer ids) mb = (fst (release_mail now mb c consumer ids), [])"
| "mail_step now (PurgeMail c older n) mb =
     (case purge_acknowledged mb c older n of Inl e \<Rightarrow> (mb, []) | Inr (mb', k) \<Rightarrow> (mb', []))"
| "mail_step now (PurgeKeys older n) mb =
     (case purge_deduplication_keys mb older n of Inl e \<Rightarrow> (mb, []) | Inr (mb', k) \<Rightarrow> (mb', []))"

inductive mail_reachable :: "mailbox \<Rightarrow> bool" where
  start: "mail_reachable empty_mailbox"
| step: "mail_reachable mb \<Longrightarrow> mail_reachable (fst (mail_step now op mb))"

text \<open>An operation that may settle an event: who asks, for which conversation and ID.\<close>

fun settles_mail :: "mail_op \<Rightarrow> string \<Rightarrow> string option \<Rightarrow> string \<Rightarrow> bool" where
  "settles_mail (AckMail c consumer ids force) k holder i \<longleftrightarrow> c = k \<and> i \<in> set ids \<and> (force \<or> holder = Some consumer)"
| "settles_mail (ReleaseMail c consumer ids) k holder i \<longleftrightarrow> c = k \<and> i \<in> set ids \<and> holder = Some consumer"
| "settles_mail _ _ _ _ \<longleftrightarrow> False"

fun acks_mail :: "mail_op \<Rightarrow> string \<Rightarrow> string \<Rightarrow> bool" where
  "acks_mail (AckMail c consumer ids force) k i \<longleftrightarrow> c = k \<and> i \<in> set ids"
| "acks_mail _ _ _ \<longleftrightarrow> False"

subsection \<open>Conversations\<close>

lemma map_of_map_snd: "map_of (map (\<lambda>(k, v). (k, f k v)) d) x = map_option (f x) (map_of d x)"
  by (induction d) auto

lemma conversation_set [simp]:
  "conversation (set_conversation c es mb) k =
     (if k = c \<and> map_of (mb_events mb) c \<noteq> None then es else conversation mb k)"
  by (simp add: conversation_def set_conversation_def map_of_map_snd split: option.splits)

lemma ids_set [simp]: "mb_ids (set_conversation c es mb) = mb_ids mb" "mb_next (set_conversation c es mb) = mb_next mb"
  by (simp_all add: set_conversation_def)

lemma keys_set [simp]: "map fst (mb_events (set_conversation c es mb)) = map fst (mb_events mb)"
  by (induction "mb_events mb") (auto simp: set_conversation_def split_beta)

lemma conversation_None: "map_of (mb_events mb) c = None \<Longrightarrow> conversation mb c = []"
  by (simp add: conversation_def)

subsection \<open>The invariant\<close>

definition event_ok :: "mailbox \<Rightarrow> string \<Rightarrow> mail_event \<Rightarrow> bool" where
  "event_ok mb c e \<longleftrightarrow> (\<exists>t. map_of (mb_ids mb) (me_id e) = Some (c, t)) \<and> me_seq e < mb_next mb
     \<and> map_of (me_body e) ''event_id'' = Some (JStr (me_id e)) \<and> (me_status e = Leased \<longrightarrow> me_lease e \<noteq> None)"

definition mailbox_ok :: "mailbox \<Rightarrow> bool" where
  "mailbox_ok mb \<longleftrightarrow> (\<forall>c. distinct (map me_id (conversation mb c)) \<and> (\<forall>e \<in> set (conversation mb c). event_ok mb c e))"

lemma mailbox_okD: "mailbox_ok mb \<Longrightarrow> e \<in> set (conversation mb c) \<Longrightarrow> event_ok mb c e"
  by (simp add: mailbox_ok_def)

lemma mailbox_ok_unique:
  "mailbox_ok mb \<Longrightarrow> e \<in> set (conversation mb c) \<Longrightarrow> e' \<in> set (conversation mb c) \<Longrightarrow> me_id e = me_id e' \<Longrightarrow> e = e'"
  unfolding mailbox_ok_def distinct_map by (elim allE [where x = c] conjE) (rule inj_onD)

text \<open>One event changed in place: what a claim, an acknowledgement and a release do to it.\<close>

definition same_event :: "mail_event \<Rightarrow> mail_event \<Rightarrow> bool" where
  "same_event e e' \<longleftrightarrow> me_id e' = me_id e \<and> me_body e' = me_body e \<and> me_seq e' = me_seq e
     \<and> (me_status e' = Leased \<longrightarrow> me_lease e' \<noteq> None)"

lemma list_all2_right: "list_all2 R xs ys \<Longrightarrow> y \<in> set ys \<Longrightarrow> \<exists>x \<in> set xs. R x y"
  by (induction rule: list_all2_induct) auto

lemma list_all2_left: "list_all2 R xs ys \<Longrightarrow> x \<in> set xs \<Longrightarrow> \<exists>y \<in> set ys. R x y"
  by (induction rule: list_all2_induct) auto

lemma rel_set_ok:
  assumes "mailbox_ok mb" and "list_all2 (\<lambda>e e'. e' = e \<or> same_event e e') (conversation mb c) es"
  shows "mailbox_ok (set_conversation c es mb)"
proof -
  have ids: "map me_id es = map me_id (conversation mb c)"
    using assms(2) by (induction rule: list_all2_induct) (auto simp: same_event_def)
  have "event_ok mb c e'" if "e' \<in> set es" for e'
  proof -
    from list_all2_right [OF assms(2) that] obtain e where e: "e \<in> set (conversation mb c)" "e' = e \<or> same_event e e'"
      by blast
    with mailbox_okD [OF assms(1) e(1)] show ?thesis by (auto simp: event_ok_def same_event_def)
  qed
  then have "\<forall>e \<in> set (conversation (set_conversation c es mb) k). event_ok mb k e" for k
    using mailbox_okD [OF assms(1)] by (cases "k = c") auto
  moreover have "distinct (map me_id (conversation (set_conversation c es mb) k))" for k
    using assms(1) ids by (auto simp: mailbox_ok_def)
  ultimately show ?thesis by (simp add: mailbox_ok_def event_ok_def)
qed

lemma lease_events_rel:
  "list_all2 (\<lambda>e e'. e' = e \<or> claimable now e \<and> e' = e\<lparr>me_status := Leased, me_consumer := Some consumer, me_lease := Some (now + s)\<rparr>)
     es (fst (lease_events now consumer s n es))
   \<and> (\<forall>d \<in> set (snd (lease_events now consumer s n es)). \<exists>e \<in> set es. claimable now e \<and> d = public_event e)
   \<and> length (snd (lease_events now consumer s n es)) \<le> n"
proof (induction now consumer s n es rule: lease_events.induct)
  case (1 now consumer s es)
  then show ?case by (simp add: list_all2_refl)
next
  case (3 now consumer s n e es)
  show ?case
  proof (cases "claimable now e")
    case True
    with "3.IH"(1) show ?thesis by (auto simp: split_beta)
  next
    case False
    with "3.IH"(2) show ?thesis by (auto simp: split_beta)
  qed
qed auto

lemma settle_events_rel:
  "list_all2 (\<lambda>e e'. e' = e \<or> sel e \<and> check e = Inr () \<and> e' = f e) es (fst (settle_events sel check f es))"
  by (induction es) (auto simp: split_beta list_all2_refl split: sum.splits)

lemma append_Inr:
  assumes "append_mail_event now fresh mb c event = Inr (mb', i)"
  shows "mb' = mb \<and> (\<exists>t. map_of (mb_ids mb) i = Some (c, t))
    \<or> map_of (mb_ids mb) i = None
      \<and> mb_ids mb' = AList.update i (c, now) (mb_ids mb) \<and> mb_next mb' = Suc (mb_next mb)
      \<and> (\<forall>k. conversation mb' k = (if k = c then conversation mb c @ [appended now (mb_next mb) i c event] else conversation mb k))"
  using assms by (auto simp: append_mail_event_def result_simps conversation_def split: option.splits if_splits)

lemma appended_ok: "me_id (appended now n i c ev) = i" "me_status (appended now n i c ev) = Pending"
  "me_seq (appended now n i c ev) = n" "map_of (me_body (appended now n i c ev)) ''event_id'' = Some (JStr i)"
  by (simp_all add: appended_def)

lemma append_ok:
  assumes "append_mail_event now fresh mb c event = Inr (mb', i)" and ok: "mailbox_ok mb"
  shows "mailbox_ok mb'"
proof -
  consider "mb' = mb" | (new) "map_of (mb_ids mb) i = None" "mb_ids mb' = AList.update i (c, now) (mb_ids mb)"
    "mb_next mb' = Suc (mb_next mb)"
    "\<And>k. conversation mb' k = (if k = c then conversation mb c @ [appended now (mb_next mb) i c event] else conversation mb k)"
    using append_Inr [OF assms(1)] by auto
  then show ?thesis
  proof cases
    case new
    have old: "me_id e \<noteq> i \<and> event_ok mb' k e" if "e \<in> set (conversation mb k)" for e k
      using mailbox_okD [OF ok that] new(1-3) by (auto simp: event_ok_def)
    have "event_ok mb' c (appended now (mb_next mb) i c event)"
      using new(2,3) by (simp add: event_ok_def appended_ok)
    with old ok show ?thesis by (auto simp: mailbox_ok_def new(4) appended_ok)
  qed (use ok in simp)
qed

lemma claim_ok:
  assumes "claim_mail now mb c consumer n s = Inr (mb', ds)" and "mailbox_ok mb"
  shows "mailbox_ok mb'"
proof -
  from assms(1) have mb': "mb' = set_conversation c (fst (lease_events now consumer s n (conversation mb c))) mb"
    by (auto simp: claim_mail_def split_beta split: if_splits)
  have "list_all2 (\<lambda>e e'. e' = e \<or> same_event e e') (conversation mb c) (fst (lease_events now consumer s n (conversation mb c)))"
    by (rule list_all2_mono [OF conjunct1 [OF lease_events_rel]]) (auto simp: same_event_def)
  with assms(2) show ?thesis unfolding mb' by (rule rel_set_ok)
qed

lemma settle_ok:
  assumes "mailbox_ok mb" and "\<And>e. same_event e (f e)"
  shows "mailbox_ok (set_conversation c (fst (settle_events sel check f (conversation mb c))) mb)"
  by (rule rel_set_ok [OF assms(1)], rule list_all2_mono [OF settle_events_rel]) (use assms(2) in auto)

text \<open>A purge of events removes some, all of them acknowledged.\<close>

definition trimmed :: "mailbox \<Rightarrow> mailbox \<Rightarrow> (mail_event \<Rightarrow> bool) \<Rightarrow> bool" where
  "trimmed mb mb' P \<longleftrightarrow> mb_ids mb' = mb_ids mb \<and> mb_next mb' = mb_next mb
     \<and> (\<forall>c. \<exists>Q. conversation mb' c = filter Q (conversation mb c) \<and> (\<forall>e \<in> set (conversation mb c). \<not> Q e \<longrightarrow> P e))"

lemma trimmed_trans:
  assumes "trimmed x y P" and "trimmed y z P"
  shows "trimmed x z P"
  unfolding trimmed_def
proof (intro conjI allI)
  fix c
  from assms obtain Q R where q: "conversation y c = filter Q (conversation x c)" "\<forall>e \<in> set (conversation x c). \<not> Q e \<longrightarrow> P e"
    and r: "conversation z c = filter R (conversation y c)" "\<forall>e \<in> set (conversation y c). \<not> R e \<longrightarrow> P e"
    unfolding trimmed_def by meson
  have "conversation z c = filter (\<lambda>e. Q e \<and> R e) (conversation x c)" by (simp add: q r)
  moreover have "\<forall>e \<in> set (conversation x c). \<not> (Q e \<and> R e) \<longrightarrow> P e" using q r by auto
  ultimately show "\<exists>Q. conversation z c = filter Q (conversation x c) \<and> (\<forall>e \<in> set (conversation x c). \<not> Q e \<longrightarrow> P e)"
    by blast
qed (use assms in \<open>simp_all add: trimmed_def\<close>)

lemma purge_conversation_trims: "trimmed mb (fst (purge_conversation ids (mb, k) c)) (\<lambda>e. me_id e \<in> set ids)"
proof -
  have "conversation (fst (purge_conversation ids (mb, k) c)) x
      = filter (\<lambda>e. x = c \<longrightarrow> me_id e \<notin> set ids) (conversation mb x)" for x
    by (auto simp: purge_conversation_def Let_def conversation_def set_conversation_def map_of_map_snd delete_conv'
        filter_empty_conv split: option.splits)
  then show ?thesis unfolding trimmed_def
    by (auto simp: purge_conversation_def Let_def split: if_splits)
qed

lemma purge_fold_trims: "trimmed mb (fst (foldl (purge_conversation ids) (mb, k) cs)) (\<lambda>e. me_id e \<in> set ids)"
proof (induction cs arbitrary: mb k)
  case Nil
  then show ?case by (auto simp: trimmed_def intro!: exI [of _ "\<lambda>_. True"])
next
  case (Cons c cs)
  obtain mb1 k1 where s: "purge_conversation ids (mb, k) c = (mb1, k1)" by fastforce
  have "trimmed mb mb1 (\<lambda>e. me_id e \<in> set ids)" using purge_conversation_trims [of mb ids k c] by (simp add: s)
  from trimmed_trans [OF this Cons.IH [of mb1 k1]] show ?case by (simp add: s)
qed

lemma trimmed_ok: "mailbox_ok mb \<Longrightarrow> trimmed mb mb' P \<Longrightarrow> mailbox_ok mb'"
proof -
  assume ok: "mailbox_ok mb" and t: "trimmed mb mb' P"
  show "mailbox_ok mb'"
    unfolding mailbox_ok_def
  proof (intro allI conjI ballI)
    fix c
    from t obtain Q where Q: "conversation mb' c = filter Q (conversation mb c)" unfolding trimmed_def by blast
    show "distinct (map me_id (conversation mb' c))" using ok by (simp add: Q mailbox_ok_def distinct_map_filter)
    fix e assume "e \<in> set (conversation mb' c)"
    with mailbox_okD [OF ok, of e c] t show "event_ok mb' c e" by (simp add: Q event_ok_def trimmed_def)
  qed
qed

lemma purge_trims:
  assumes "purge_acknowledged mb c older n = Inr (mb', k)" and ok: "mailbox_ok mb"
  shows "trimmed mb mb' (\<lambda>e. me_status e = Acknowledged)"
proof -
  define cs where "cs = (case c of None \<Rightarrow> map fst (mb_events mb) | Some x \<Rightarrow> [x])"
  define ids where "ids = map me_id (purge_candidates mb cs older n)"
  have "(mb', k) = foldl (purge_conversation ids) (mb, 0) cs"
    using assms(1) by (simp add: purge_acknowledged_def cs_def ids_def Let_def split: if_splits)
  then have t: "trimmed mb mb' (\<lambda>e. me_id e \<in> set ids)"
    using purge_fold_trims [of mb ids 0 cs] by (metis fst_conv)
  have "me_status e = Acknowledged" if "e \<in> set (conversation mb x)" "me_id e \<in> set ids" for e x
  proof -
    from that(2) obtain e2 where "e2 \<in> set (purge_candidates mb cs older n)" "me_id e2 = me_id e"
      by (auto simp: ids_def)
    then have "e2 \<in> set (filter (acked_by older) (concat (map (conversation mb) cs)))" "me_id e2 = me_id e"
      unfolding purge_candidates_def by (auto dest!: in_set_takeD)
    then obtain y where y: "e2 \<in> set (conversation mb y)" "me_id e2 = me_id e" "me_status e2 = Acknowledged"
      by (auto simp: acked_by_def)
    from mailbox_okD [OF ok y(1)] mailbox_okD [OF ok that(1)] y(2) have "x = y" by (auto simp: event_ok_def)
    with mailbox_ok_unique [OF ok that(1), of e2] y show ?thesis by simp
  qed
  with t show ?thesis unfolding trimmed_def by meson
qed

lemma map_of_delete_all: "map_of (foldl (\<lambda>d i. AList.delete i d) d xs) i = (if i \<in> set xs then None else map_of d i)"
  by (induction xs arbitrary: d) auto

lemma live_idsI:
  assumes "e \<in> set (conversation mb c)"
  shows "me_id e \<in> set (live_ids mb)"
proof -
  from assms obtain es where "map_of (mb_events mb) c = Some es" "e \<in> set es"
    by (cases "map_of (mb_events mb) c") (simp_all add: conversation_def)
  then have "(c, es) \<in> set (mb_events mb)" "me_id e \<in> set (map me_id es)" by (auto dest: map_of_SomeD)
  then show ?thesis unfolding live_ids_def set_concat by force
qed

lemma purge_keys_ok:
  assumes "purge_deduplication_keys mb older n = Inr (mb', k)" and "mailbox_ok mb"
  shows "mailbox_ok mb' \<and> (\<forall>c. conversation mb' c = conversation mb c)"
proof -
  let ?dead = "map fst (filter (\<lambda>(i, c, seen). i \<notin> set (live_ids mb) \<and> seen \<le> older) (mb_ids mb))"
  define old where "old = take n ?dead"
  have mb': "mb' = mb\<lparr>mb_ids := foldl (\<lambda>d i. AList.delete i d) (mb_ids mb) old\<rparr>"
    using assms(1) by (simp add: purge_deduplication_keys_def Let_def old_def split: if_splits)
  have old: "\<forall>i \<in> set old. i \<notin> set (live_ids mb)"
    unfolding old_def by (auto dest!: in_set_takeD)
  have c: "conversation mb' c = conversation mb c" for c by (simp add: mb' conversation_def)
  have "event_ok mb' c e" if "e \<in> set (conversation mb c)" for c e
    using mailbox_okD [OF assms(2) that] old live_idsI [OF that] by (auto simp: event_ok_def mb' map_of_delete_all)
  with assms(2) c show ?thesis by (simp add: mailbox_ok_def)
qed

lemma claim_any_Inr:
  "claim_any_mail now mb consumer n s = Inr (mb', ds) \<Longrightarrow>
     mb' = mb \<and> ds = [] \<or> (\<exists>c. claim_mail now mb c consumer n s = Inr (mb', ds))"
  by (auto simp: claim_any_mail_def split: option.splits)

lemma mail_step_ok: "mailbox_ok mb \<Longrightarrow> mailbox_ok (fst (mail_step now op mb))"
proof (cases op)
  case (ClaimAny consumer n s)
  assume "mailbox_ok mb"
  with ClaimAny claim_any_Inr [of now mb consumer n s] claim_ok show ?thesis by (auto split: sum.splits)
next
  case (PurgeMail c older n)
  assume "mailbox_ok mb"
  with PurgeMail trimmed_ok [OF _ purge_trims] show ?thesis by (auto split: sum.splits)
qed (auto simp: acknowledge_mail_def release_mail_def split_beta Let_def same_event_def
      dest: append_ok claim_ok purge_keys_ok intro!: settle_ok split: sum.splits)

lemma reachable_mailbox_ok: "mail_reachable mb \<Longrightarrow> mailbox_ok mb"
proof (induction rule: mail_reachable.induct)
  case start
  show ?case by (simp add: mailbox_ok_def empty_mailbox_def conversation_def)
qed (rule mail_step_ok)

subsection \<open>What a step does to one event\<close>

definition evolves :: "rat \<Rightarrow> mail_op \<Rightarrow> string \<Rightarrow> mail_event \<Rightarrow> mail_event \<Rightarrow> bool" where
  "evolves now op c e e' \<longleftrightarrow> e' = e
     \<or> same_event e e' \<and> (claimable now e \<and> me_status e' = Leased
         \<or> settles_mail op c (me_consumer e) (me_id e) \<and> (me_status e' = Pending \<and> me_status e = Leased \<or> acks_mail op c (me_id e) \<and> me_status e' = Acknowledged))"

lemma set_conversation_evolves:
  assumes "list_all2 (evolves now op c) (conversation mb c) es" and "e \<in> set (conversation mb k)"
  shows "\<exists>e' \<in> set (conversation (set_conversation c es mb) k). evolves now op k e e'"
proof (cases "k = c")
  case True
  with assms(2) conversation_None [of mb c] have "map_of (mb_events mb) c \<noteq> None" by fastforce
  with list_all2_left [OF assms(1)] assms(2) True show ?thesis by simp
next
  case False
  with assms(2) show ?thesis by (auto simp: evolves_def)
qed

lemma claim_evolves:
  assumes "claim_mail now mb c consumer n s = Inr (mb', ds)" and "e \<in> set (conversation mb k)"
  shows "\<exists>e' \<in> set (conversation mb' k). evolves now op k e e'"
proof -
  from assms(1) have mb': "mb' = set_conversation c (fst (lease_events now consumer s n (conversation mb c))) mb"
    by (auto simp: claim_mail_def split_beta split: if_splits)
  show ?thesis unfolding mb'
    by (rule set_conversation_evolves [OF list_all2_mono [OF conjunct1 [OF lease_events_rel]] assms(2)])
      (auto simp: evolves_def same_event_def)
qed

lemma require_lease_Inr: "require_lease now consumer e = Inr u \<Longrightarrow> me_status e = Leased \<and> me_consumer e = Some consumer"
  by (simp add: require_lease_def split: if_splits)

lemma step_event:
  assumes ok: "mailbox_ok mb" and e: "e \<in> set (conversation mb c)"
  shows "(\<exists>e' \<in> set (conversation (fst (mail_step now op mb)) c). evolves now op c e e') \<or> me_status e = Acknowledged"
proof -
  have same: ?thesis if "conversation (fst (mail_step now op mb)) c = conversation mb c"
    using that e by (auto simp: evolves_def)
  show ?thesis
  proof (cases op)
    case (AppendMail k fresh event)
    then show ?thesis
      using e append_Inr [of now fresh mb k event] by (fastforce simp: evolves_def split: sum.splits)
  next
    case (ClaimMail k consumer n s)
    with claim_evolves [OF _ e] same show ?thesis by (auto split: sum.splits)
  next
    case (ClaimAny consumer n s)
    with claim_evolves [OF _ e] claim_any_Inr [of now mb consumer n s] same show ?thesis
      by (fastforce split: sum.splits)
  next
    case (AckMail k consumer ids force)
    have "list_all2 (evolves now op k) (conversation mb k) (fst (settle_events
        (\<lambda>e. me_id e \<in> set ids \<and> (force \<longrightarrow> me_status e \<noteq> Acknowledged))
        (\<lambda>e. if force then Inr () else require_lease now consumer e)
        (\<lambda>e. e\<lparr>me_status := Acknowledged, me_acked := Some now, me_consumer := None, me_lease := None\<rparr>) (conversation mb k)))"
      by (rule list_all2_mono [OF settle_events_rel])
        (auto simp: evolves_def same_event_def AckMail dest: require_lease_Inr split: if_splits)
    from set_conversation_evolves [OF this e] same AckMail show ?thesis
      by (auto simp: acknowledge_mail_def split_beta Let_def)
  next
    case (ReleaseMail k consumer ids)
    have "list_all2 (evolves now op k) (conversation mb k) (fst (settle_events (\<lambda>e. me_id e \<in> set ids)
        (require_lease now consumer) (\<lambda>e. e\<lparr>me_status := Pending, me_consumer := None, me_lease := None\<rparr>) (conversation mb k)))"
      by (rule list_all2_mono [OF settle_events_rel])
        (auto simp: evolves_def same_event_def ReleaseMail dest: require_lease_Inr)
    from set_conversation_evolves [OF this e] same ReleaseMail show ?thesis
      by (auto simp: release_mail_def split_beta Let_def)
  next
    case (PurgeMail k older n)
    show ?thesis
    proof (cases "purge_acknowledged mb k older n")
      case (Inr r)
      obtain mb' j where r: "r = (mb', j)" by (cases r)
      from purge_trims [OF Inr [unfolded r] ok] obtain Q where
        "conversation mb' c = filter Q (conversation mb c)" "\<forall>e \<in> set (conversation mb c). \<not> Q e \<longrightarrow> me_status e = Acknowledged"
        unfolding trimmed_def by blast
      with e Inr r PurgeMail show ?thesis by (auto simp: evolves_def)
    qed (use same PurgeMail in auto)
  next
    case (PurgeKeys older n)
    with purge_keys_ok [OF _ ok] same show ?thesis by (auto split: sum.splits)
  qed
qed

lemma claim_delivers_claimable:
  "claim_mail now mb c consumer n s = Inr (mb', ds) \<Longrightarrow> d \<in> set ds \<Longrightarrow>
     \<exists>e \<in> set (conversation mb c). claimable now e \<and> d = public_event e"
  using lease_events_rel [where now = now and consumer = consumer and s = s and n = n and es = "conversation mb c"]
  by (auto simp: claim_mail_def split_beta split: if_splits)

lemma step_delivers:
  "d \<in> set (snd (mail_step now op mb)) \<Longrightarrow> \<exists>c. \<exists>e \<in> set (conversation mb c). claimable now e \<and> d = public_event e"
proof (cases op)
  case (ClaimMail c consumer n s)
  assume "d \<in> set (snd (mail_step now op mb))"
  with ClaimMail claim_delivers_claimable show ?thesis by (fastforce split: sum.splits)
next
  case (ClaimAny consumer n s)
  assume "d \<in> set (snd (mail_step now op mb))"
  with ClaimAny claim_any_Inr [of now mb consumer n s] claim_delivers_claimable show ?thesis by (fastforce split: sum.splits)
qed (auto split: sum.splits)

subsection \<open>Runs\<close>

text \<open>A run of timed operations: the mailbox it ends with and all events it delivered.\<close>

fun mail_run :: "(rat \<times> mail_op) list \<Rightarrow> mailbox \<Rightarrow> mailbox \<times> dict list" where
  "mail_run [] mb = (mb, [])"
| "mail_run ((now, op) # ops) mb =
     (let (mb1, d1) = mail_step now op mb; (mb2, d2) = mail_run ops mb1 in (mb2, d1 @ d2))"

lemma mail_run_Cons:
  "mail_run ((now, op) # ops) mb = (fst (mail_run ops (fst (mail_step now op mb))),
     snd (mail_step now op mb) @ snd (mail_run ops (fst (mail_step now op mb))))"
  by (simp add: split_beta Let_def)

text \<open>An invariant of the steps, and what every step delivers, lifted to runs.\<close>

lemma mail_run_induct:
  assumes "P mb" and "\<And>now op. (now, op) \<in> set ops \<Longrightarrow> Q now op"
    and "\<And>mb now op. P mb \<Longrightarrow> Q now op \<Longrightarrow> P (fst (mail_step now op mb)) \<and> (\<forall>d \<in> set (snd (mail_step now op mb)). R d)"
  shows "P (fst (mail_run ops mb)) \<and> (\<forall>d \<in> set (snd (mail_run ops mb)). R d)"
  using assms(1,2)
proof (induction ops arbitrary: mb)
  case (Cons x ops)
  obtain now op where x: "x = (now, op)" by (cases x)
  have s: "P (fst (mail_step now op mb)) \<and> (\<forall>d \<in> set (snd (mail_step now op mb)). R d)"
    by (rule assms(3) [OF Cons.prems(1)], rule Cons.prems(2)) (simp add: x)
  have "P (fst (mail_run ops (fst (mail_step now op mb)))) \<and> (\<forall>d \<in> set (snd (mail_run ops (fst (mail_step now op mb)))). R d)"
    by (rule Cons.IH) (use s Cons.prems(2) in auto)
  with s show ?case unfolding x mail_run_Cons by auto
qed simp

definition delivered_id :: "dict \<Rightarrow> string option" where
  "delivered_id d = (case map_of d ''event_id'' of Some (JStr i) \<Rightarrow> Some i | _ \<Rightarrow> None)"

lemma map_of_filter_keep: "P k \<Longrightarrow> map_of (filter (\<lambda>(k, v). P k) d) k = map_of d k"
  by (induction d) auto

lemma delivered_public: "mailbox_ok mb \<Longrightarrow> e \<in> set (conversation mb c) \<Longrightarrow> delivered_id (public_event e) = Some (me_id e)"
proof -
  assume "mailbox_ok mb" "e \<in> set (conversation mb c)"
  then have "map_of (me_body e) ''event_id'' = Some (JStr (me_id e))" by (auto dest: mailbox_okD simp: event_ok_def)
  moreover have "map_of (public_event e) ''event_id'' = map_of (me_body e) ''event_id''"
    unfolding public_event_def by (rule map_of_filter_keep) (simp add: lifecycle_keys_def)
  ultimately show ?thesis by (simp add: delivered_id_def)
qed

text \<open>An event that is not claimable now is not delivered by a step.\<close>

lemma not_delivered:
  assumes ok: "mailbox_ok mb" and "\<And>e c. e \<in> set (conversation mb c) \<Longrightarrow> me_id e = i \<Longrightarrow> \<not> claimable now e"
    and "d \<in> set (snd (mail_step now op mb))"
  shows "delivered_id d \<noteq> Some i"
proof -
  from step_delivers [OF assms(3)] obtain c e where "e \<in> set (conversation mb c)" "claimable now e" "d = public_event e" by blast
  with assms(2) delivered_public [OF ok] show ?thesis by auto
qed

lemma same_conversation:
  "mailbox_ok mb \<Longrightarrow> e \<in> set (conversation mb c) \<Longrightarrow> e' \<in> set (conversation mb k) \<Longrightarrow> me_id e' = me_id e \<Longrightarrow> e' = e \<and> k = c"
proof -
  assume ok: "mailbox_ok mb" and e: "e \<in> set (conversation mb c)" "e' \<in> set (conversation mb k)" "me_id e' = me_id e"
  with mailbox_okD [OF ok e(1)] mailbox_okD [OF ok e(2)] have "k = c" by (auto simp: event_ok_def)
  with mailbox_ok_unique [OF ok, of e' c e] e show ?thesis by simp
qed

subsection \<open>Properties\<close>

definition note_event :: dict where
  "note_event = [(''event_id'', JStr ''e1''), (''kind'', JStr ''user'')]"

definition leased_box :: mailbox where
  "leased_box = fst (mail_run [(0, AppendMail ''c'' ''f'' note_event), (0, ClaimMail ''c'' ''w1'' 5 30)] empty_mailbox)"

lemma leased_box_ok: "mailbox_ok leased_box"
proof -
  have "mailbox_ok empty_mailbox" by (rule reachable_mailbox_ok [OF mail_reachable.start])
  then show ?thesis unfolding leased_box_def by (simp only: mail_run_Cons fst_conv mail_run.simps mail_step_ok)
qed

definition leased_event :: mail_event where
  "leased_event = (appended 0 0 ''e1'' ''c'' note_event)\<lparr>me_status := Leased, me_consumer := Some ''w1'', me_lease := Some 30\<rparr>"

lemma leased_event_in: "leased_event \<in> set (conversation leased_box ''c'')"
proof -
  have "conversation leased_box ''c'' = [leased_event]" by code_simp
  then show ?thesis by simp
qed

text \<open>
  C17. A lease is exclusive while it lasts. An event leased until \<open>t\<close> stays leased, unchanged, by its
  consumer through any operations before \<open>t\<close> other than a settlement by that consumer or a forced
  acknowledgement; and no claim among them delivers it.
\<close>

theorem mail_lease_is_exclusive:
  assumes "mailbox_ok mb" and "e \<in> set (conversation mb c)" and "me_status e = Leased" and "me_lease e = Some t"
    and "\<forall>(now, op) \<in> set ops. now < t \<and> \<not> settles_mail op c (me_consumer e) (me_id e)"
  shows "e \<in> set (conversation (fst (mail_run ops mb)) c)
    \<and> (\<forall>d \<in> set (snd (mail_run ops mb)). delivered_id d \<noteq> Some (me_id e))"
proof -
  have "(\<lambda>mb. mailbox_ok mb \<and> e \<in> set (conversation mb c)) (fst (mail_run ops mb))
    \<and> (\<forall>d \<in> set (snd (mail_run ops mb)). delivered_id d \<noteq> Some (me_id e))"
  proof (rule mail_run_induct [where Q = "\<lambda>now op. now < t \<and> \<not> settles_mail op c (me_consumer e) (me_id e)"])
    fix mb now op
    assume i: "mailbox_ok mb \<and> e \<in> set (conversation mb c)" and q: "now < t \<and> \<not> settles_mail op c (me_consumer e) (me_id e)"
    have nc: "\<not> claimable now e" using assms(3,4) q by (simp add: claimable_def lease_expired_def)
    with step_event [of mb e c now op] i q assms(3) have "e \<in> set (conversation (fst (mail_step now op mb)) c)"
      by (auto simp: evolves_def)
    moreover have "\<forall>d \<in> set (snd (mail_step now op mb)). delivered_id d \<noteq> Some (me_id e)"
      using not_delivered [of mb "me_id e" now _ op] i nc same_conversation [of mb e c] by blast
    ultimately show "(mailbox_ok (fst (mail_step now op mb)) \<and> e \<in> set (conversation (fst (mail_step now op mb)) c))
        \<and> (\<forall>d \<in> set (snd (mail_step now op mb)). delivered_id d \<noteq> Some (me_id e))"
      using i by (simp add: mail_step_ok)
  qed (use assms in auto)
  then show ?thesis by simp
qed

theorem mail_lease_is_exclusive_witness:
  "leased_event \<in> set (conversation (fst (mail_run [(10, ClaimMail ''c'' ''w2'' 5 30), (20, AckMail ''c'' ''w2'' [''e1''] False)] leased_box)) ''c'')"
proof -
  let ?ops = "[(10::rat, ClaimMail ''c'' ''w2'' 5 30), (20, AckMail ''c'' ''w2'' [''e1''] False)]"
  have e: "me_status leased_event = Leased" "me_lease leased_event = Some 30" by (simp_all add: leased_event_def)
  have "\<forall>(now, op) \<in> set ?ops. now < 30 \<and> \<not> settles_mail op ''c'' (me_consumer leased_event) (me_id leased_event)"
    by (auto simp: leased_event_def)
  from mail_lease_is_exclusive [OF leased_box_ok leased_event_in e this] show ?thesis by blast
qed

lemma lease_events_all:
  "e \<in> set es \<Longrightarrow> claimable now e \<Longrightarrow> length es \<le> n \<Longrightarrow> public_event e \<in> set (snd (lease_events now consumer s n es))"
proof (induction now consumer s n es rule: lease_events.induct)
  case (3 now consumer s n x es)
  show ?case
  proof (cases "claimable now x")
    case True
    with "3.IH"(1) "3.prems" show ?thesis by (auto simp: split_beta)
  next
    case False
    with "3.IH"(2) "3.prems" show ?thesis by (auto simp: split_beta)
  qed
qed auto

text \<open>
  Accepted mail is delivered until it is acknowledged. Through any operations that do not acknowledge
  it, an event stays in its conversation with its content and order; and a claim that can reach it
  delivers it, when no lease holds it.
\<close>

theorem mail_waits_for_acknowledgement:
  assumes "mailbox_ok mb" and "e \<in> set (conversation mb c)" and "me_status e \<noteq> Acknowledged"
    and "\<forall>(now, op) \<in> set ops. \<not> acks_mail op c (me_id e)"
  shows "\<exists>e' \<in> set (conversation (fst (mail_run ops mb)) c). me_id e' = me_id e \<and> me_body e' = me_body e \<and> me_seq e' = me_seq e
    \<and> me_status e' \<noteq> Acknowledged
    \<and> (\<forall>now consumer n s. claimable now e' \<longrightarrow> consumer \<noteq> [] \<longrightarrow> 0 \<le> s \<longrightarrow> length (conversation (fst (mail_run ops mb)) c) \<le> n \<longrightarrow>
         public_event e' \<in> set (snd (mail_step now (ClaimMail c consumer n s) (fst (mail_run ops mb)))))"
proof -
  let ?P = "\<lambda>mb. mailbox_ok mb \<and> (\<exists>e' \<in> set (conversation mb c). me_id e' = me_id e \<and> me_body e' = me_body e \<and> me_seq e' = me_seq e
    \<and> me_status e' \<noteq> Acknowledged)"
  have "?P (fst (mail_run ops mb)) \<and> (\<forall>d \<in> set (snd (mail_run ops mb)). True)"
  proof (rule mail_run_induct [where Q = "\<lambda>now op. \<not> acks_mail op c (me_id e)"])
    fix mb now op
    assume i: "?P mb" and q: "\<not> acks_mail op c (me_id e)"
    then obtain e1 where e1: "e1 \<in> set (conversation mb c)" "me_id e1 = me_id e" "me_body e1 = me_body e" "me_seq e1 = me_seq e"
      "me_status e1 \<noteq> Acknowledged" by blast
    with step_event [of mb e1 c now op] i obtain e2 where "e2 \<in> set (conversation (fst (mail_step now op mb)) c)"
      "evolves now op c e1 e2" by blast
    with e1 q i show "?P (fst (mail_step now op mb)) \<and> (\<forall>d \<in> set (snd (mail_step now op mb)). True)"
      by (auto simp: evolves_def same_event_def mail_step_ok intro!: bexI [of _ e2])
  qed (use assms in auto)
  then obtain e' where e': "e' \<in> set (conversation (fst (mail_run ops mb)) c)" "me_id e' = me_id e" "me_body e' = me_body e"
    "me_seq e' = me_seq e" "me_status e' \<noteq> Acknowledged" by blast
  have "public_event e' \<in> set (snd (mail_step now (ClaimMail c consumer n s) (fst (mail_run ops mb))))"
    if "claimable now e'" "consumer \<noteq> []" "0 \<le> s" "length (conversation (fst (mail_run ops mb)) c) \<le> n" for now consumer n s
  proof -
    have "1 \<le> n" using that(4) e'(1) by (cases n) auto
    with that lease_events_all [OF e'(1) that(1,4)] show ?thesis by (simp add: claim_mail_def split_beta)
  qed
  with e' show ?thesis by blast
qed

theorem mail_waits_for_acknowledgement_witness:
  "\<exists>e' \<in> set (conversation (fst (mail_run [(40, ClaimMail ''c'' ''w2'' 5 30), (50, ReleaseMail ''c'' ''w2'' [''e1''])] leased_box)) ''c'').
     me_body e' = me_body leased_event \<and> me_status e' \<noteq> Acknowledged"
proof -
  let ?ops = "[(40::rat, ClaimMail ''c'' ''w2'' 5 30), (50, ReleaseMail ''c'' ''w2'' [''e1''])]"
  have e: "me_status leased_event \<noteq> Acknowledged" by (simp add: leased_event_def)
  have "\<forall>(now, op) \<in> set ?ops. \<not> acks_mail op ''c'' (me_id leased_event)" by simp
  from mail_waits_for_acknowledgement [OF leased_box_ok leased_event_in e this] show ?thesis by blast
qed

text \<open>Where the events after a step come from.\<close>

lemma set_conversation_source:
  assumes "list_all2 (evolves now op c) (conversation mb c) es" and "e' \<in> set (conversation (set_conversation c es mb) k)"
  shows "\<exists>e \<in> set (conversation mb k). evolves now op k e e'"
  using assms(2) list_all2_right [OF assms(1)] by (auto simp: evolves_def split: if_splits)

lemma claim_source:
  assumes "claim_mail now mb c consumer n s = Inr (mb', ds)" and "e' \<in> set (conversation mb' k)"
  shows "\<exists>e \<in> set (conversation mb k). evolves now op k e e'"
proof -
  from assms(1) have mb': "mb' = set_conversation c (fst (lease_events now consumer s n (conversation mb c))) mb"
    by (auto simp: claim_mail_def split_beta split: if_splits)
  show ?thesis
    by (rule set_conversation_source [OF list_all2_mono [OF conjunct1 [OF lease_events_rel]] assms(2) [unfolded mb']])
      (auto simp: evolves_def same_event_def)
qed

definition settled_id :: "mailbox \<Rightarrow> string \<Rightarrow> bool" where
  "settled_id mb i \<longleftrightarrow> map_of (mb_ids mb) i \<noteq> None
     \<and> (\<forall>c. \<forall>e \<in> set (conversation mb c). me_id e = i \<longrightarrow> me_status e = Acknowledged)"

lemma settled_evolves:
  assumes "settled_id mb i" and "mb_ids mb' = mb_ids mb"
    and "\<And>k e'. e' \<in> set (conversation mb' k) \<Longrightarrow> \<exists>e \<in> set (conversation mb k). evolves now op k e e'"
  shows "settled_id mb' i"
proof -
  have "me_status e' = Acknowledged" if e': "e' \<in> set (conversation mb' k)" "me_id e' = i" for k e'
  proof -
    from assms(3) [OF e'(1)] obtain e where e: "e \<in> set (conversation mb k)" "evolves now op k e e'" by blast
    then have "me_id e = i" using e'(2) by (auto simp: evolves_def same_event_def)
    with assms(1) e(1) have "me_status e = Acknowledged" by (auto simp: settled_id_def)
    with e(2) show ?thesis by (auto simp: evolves_def claimable_def lease_expired_def)
  qed
  with assms(1,2) show ?thesis by (auto simp: settled_id_def)
qed

lemma settled_set:
  assumes "settled_id mb i" and "list_all2 (evolves now op c) (conversation mb c) es"
  shows "settled_id (set_conversation c es mb) i"
  by (rule settled_evolves [OF assms(1) _ set_conversation_source [OF assms(2)]]) simp_all

lemma settled_step:
  assumes ok: "mailbox_ok mb" and s: "settled_id mb i" and op: "\<not> (\<exists>older n. op = PurgeKeys older n)"
  shows "settled_id (fst (mail_step now op mb)) i"
proof (cases op)
  case (AppendMail k fresh event)
  show ?thesis
  proof (cases "append_mail_event now fresh mb k event")
    case (Inr r)
    obtain mb' j where r: "r = (mb', j)" by (cases r)
    have "settled_id mb' i"
    proof (cases "mb' = mb")
      case False
      with append_Inr [OF Inr [unfolded r]] have new: "map_of (mb_ids mb) j = None" "mb_ids mb' = AList.update j (k, now) (mb_ids mb)"
        and c: "\<And>x. conversation mb' x = (if x = k then conversation mb k @ [appended now (mb_next mb) j k event] else conversation mb x)"
        by blast+
      have "j \<noteq> i" using new(1) s by (auto simp: settled_id_def)
      with s new c show ?thesis by (auto simp: settled_id_def appended_ok)
    qed (use s in simp)
    then show ?thesis by (simp add: AppendMail Inr r)
  qed (simp add: AppendMail s)
next
  case (ClaimMail k consumer n t)
  show ?thesis
  proof (cases "claim_mail now mb k consumer n t")
    case (Inr r)
    have "mb_ids (fst r) = mb_ids mb" using Inr by (auto simp: claim_mail_def split_beta split: if_splits)
    with settled_evolves [OF s, of "fst r" now op] claim_source [of now mb k consumer n t "fst r" "snd r"] Inr ClaimMail
    show ?thesis by simp
  qed (simp add: ClaimMail s)
next
  case (ClaimAny consumer n t)
  show ?thesis
  proof (cases "claim_any_mail now mb consumer n t")
    case (Inr r)
    show ?thesis
    proof (cases "fst r = mb")
      case False
      with Inr claim_any_Inr [of now mb consumer n t "fst r" "snd r"] obtain k
        where k: "claim_mail now mb k consumer n t = Inr (fst r, snd r)" by auto
      have "mb_ids (fst r) = mb_ids mb" using k by (auto simp: claim_mail_def split_beta split: if_splits)
      with settled_evolves [OF s, of "fst r" now op] claim_source [OF k] Inr ClaimAny show ?thesis by simp
    qed (use Inr s in \<open>simp add: ClaimAny\<close>)
  qed (simp add: ClaimAny s)
next
  case (AckMail k consumer ids force)
  have "list_all2 (evolves now op k) (conversation mb k) (fst (settle_events
      (\<lambda>e. me_id e \<in> set ids \<and> (force \<longrightarrow> me_status e \<noteq> Acknowledged))
      (\<lambda>e. if force then Inr () else require_lease now consumer e)
      (\<lambda>e. e\<lparr>me_status := Acknowledged, me_acked := Some now, me_consumer := None, me_lease := None\<rparr>) (conversation mb k)))"
    by (rule list_all2_mono [OF settle_events_rel])
      (auto simp: evolves_def same_event_def AckMail dest: require_lease_Inr split: if_splits)
  from settled_set [OF s this] have "settled_id (set_conversation k (fst (settle_events
      (\<lambda>e. me_id e \<in> set ids \<and> (force \<longrightarrow> me_status e \<noteq> Acknowledged))
      (\<lambda>e. if force then Inr () else require_lease now consumer e)
      (\<lambda>e. e\<lparr>me_status := Acknowledged, me_acked := Some now, me_consumer := None, me_lease := None\<rparr>) (conversation mb k))) mb) i" .
  with s show ?thesis
    unfolding AckMail mail_step.simps acknowledge_mail_def Let_def split_beta fst_conv
    by (cases "\<not> force \<and> \<not> selection_ok mb k ids") (simp_all only: simp_thms if_True if_False fst_conv)
next
  case (ReleaseMail k consumer ids)
  have "list_all2 (evolves now op k) (conversation mb k) (fst (settle_events (\<lambda>e. me_id e \<in> set ids)
      (require_lease now consumer) (\<lambda>e. e\<lparr>me_status := Pending, me_consumer := None, me_lease := None\<rparr>) (conversation mb k)))"
    by (rule list_all2_mono [OF settle_events_rel])
      (auto simp: evolves_def same_event_def ReleaseMail dest: require_lease_Inr)
  from settled_set [OF s this] have "settled_id (set_conversation k (fst (settle_events (\<lambda>e. me_id e \<in> set ids)
      (require_lease now consumer) (\<lambda>e. e\<lparr>me_status := Pending, me_consumer := None, me_lease := None\<rparr>) (conversation mb k))) mb) i" .
  with s show ?thesis
    unfolding ReleaseMail mail_step.simps release_mail_def Let_def split_beta fst_conv
    by (cases "\<not> selection_ok mb k ids") (simp_all only: simp_thms if_True if_False fst_conv)
next
  case (PurgeMail k older n)
  show ?thesis
  proof (cases "purge_acknowledged mb k older n")
    case (Inr r)
    obtain mb' j where r: "r = (mb', j)" by (cases r)
    from purge_trims [OF Inr [unfolded r] ok] have t: "trimmed mb mb' (\<lambda>e. me_status e = Acknowledged)" .
    have "\<exists>e \<in> set (conversation mb x). evolves now op x e e'" if "e' \<in> set (conversation mb' x)" for e' x
    proof -
      from t obtain Q where "conversation mb' x = filter Q (conversation mb x)" unfolding trimmed_def by blast
      with that show ?thesis by (auto simp: evolves_def)
    qed
    with settled_evolves [OF s, of mb' now op] t Inr r PurgeMail show ?thesis by (simp add: trimmed_def)
  qed (simp add: PurgeMail s)
qed (use op in auto)

text \<open>
  Acknowledged mail is never delivered again. Once the events with an ID are acknowledged, no
  operation delivers an event with that ID, not even one appended anew under it, unless
  deduplication keys are purged.
\<close>

theorem acknowledged_mail_stays_settled:
  assumes "mailbox_ok mb" and "settled_id mb i" and "\<forall>(now, op) \<in> set ops. \<not> (\<exists>older n. op = PurgeKeys older n)"
  shows "settled_id (fst (mail_run ops mb)) i \<and> (\<forall>d \<in> set (snd (mail_run ops mb)). delivered_id d \<noteq> Some i)"
proof -
  have "(\<lambda>mb. mailbox_ok mb \<and> settled_id mb i) (fst (mail_run ops mb))
    \<and> (\<forall>d \<in> set (snd (mail_run ops mb)). delivered_id d \<noteq> Some i)"
  proof (rule mail_run_induct [where Q = "\<lambda>now op. \<not> (\<exists>older n. op = PurgeKeys older n)"])
    fix mb now op
    assume a: "mailbox_ok mb \<and> settled_id mb i" and q: "\<not> (\<exists>older n. op = PurgeKeys older n)"
    have "\<not> claimable now e" if "e \<in> set (conversation mb c)" "me_id e = i" for e c
      using a that by (auto simp: settled_id_def claimable_def lease_expired_def)
    then have "\<forall>d \<in> set (snd (mail_step now op mb)). delivered_id d \<noteq> Some i"
      using not_delivered [of mb i now _ op] a by blast
    with a q settled_step mail_step_ok
    show "(mailbox_ok (fst (mail_step now op mb)) \<and> settled_id (fst (mail_step now op mb)) i)
        \<and> (\<forall>d \<in> set (snd (mail_step now op mb)). delivered_id d \<noteq> Some i)" by blast
  qed (use assms in auto)
  then show ?thesis by simp
qed

definition settled_box :: mailbox where
  "settled_box = fst (mail_step 20 (AckMail ''c'' ''w1'' [''e1''] False) leased_box)"

theorem acknowledged_mail_stays_settled_witness:
  "settled_id (fst (mail_run [(30, AppendMail ''c'' ''f'' note_event), (40, ClaimMail ''c'' ''w2'' 5 30)] settled_box)) ''e1''"
proof -
  have c: "mb_events settled_box = [(''c'', [leased_event\<lparr>me_status := Acknowledged, me_acked := Some 20, me_consumer := None, me_lease := None\<rparr>])]"
    and i: "mb_ids settled_box = [(''e1'', ''c'', 0)]" by code_simp+
  have "settled_id settled_box ''e1''"
    by (auto simp: settled_id_def conversation_def c i split: if_splits)
  moreover have "mailbox_ok settled_box" unfolding settled_box_def by (rule mail_step_ok [OF leased_box_ok])
  moreover have "\<forall>(now, op) \<in> set [(30::rat, AppendMail ''c'' ''f'' note_event), (40, ClaimMail ''c'' ''w2'' 5 30)].
      \<not> (\<exists>older n. op = PurgeKeys older n)" by simp
  ultimately show ?thesis using acknowledged_mail_stays_settled by blast
qed

end
