(* ===== verification/Graph_Engine.thy ===== *)
theory Graph_Engine
  imports Graph_Store Mailbox_Laws
begin

text \<open>
  The graph runtime (\<open>entourage/runtime/queue.py\<close>, class \<open>QueueRuntime\<close>, with \<open>client.py\<close> and the
  in-memory queue of \<open>memory.py\<close>). The engine's state is a record; a method is an action on it, which
  may raise halfway. \<open>now\<close> is the clock reading of a step: all readings within one step agree. What a
  node callable does on its n-th call, and how long it takes, is \<open>sv_call\<close>; a timed-out call's
  later effects are outside the model, and so are sleeping and logging.
\<close>

subsection \<open>State\<close>

datatype message_body =
    ExecuteMessage string string
  | TriggerMessage string dict "string option"
  | ApprovalMessage string
  | UnknownMessage string

record message =
  ms_body :: message_body
  ms_not_before :: "rat option"
  ms_created :: rat

record engine =
  en_store :: graph
  en_queue :: "message list"
  en_boxes :: "(string \<times> mailbox) list"
  en_monitors :: "monitor_store option"
  en_registry :: registry
  en_fresh :: nat
  en_calls :: nat
  en_policies :: "(string \<times> node_policy) list"
  en_pipelines :: "(string \<times> (dict \<Rightarrow> plan res)) list"
  en_actors :: "(string \<times> (string \<Rightarrow> plan)) list"
  en_last_gc :: rat

record services =
  sv_call :: "nat \<Rightarrow> nat \<Rightarrow> dict \<Rightarrow> (py_error + node_value) \<times> rat"
  sv_ids :: "nat \<Rightarrow> string"
  sv_resolver :: "(string \<Rightarrow> string option) option"
  sv_retention :: "retention option"

definition new_engine :: "registry \<Rightarrow> mailbox option \<Rightarrow> monitor_store option \<Rightarrow> engine" where
  "new_engine reg box monitors =
     \<lparr>en_store = empty_graph, en_queue = [], en_boxes = (case box of None \<Rightarrow> [] | Some b \<Rightarrow> [(''self'', b)]),
      en_monitors = monitors, en_registry = reg, en_fresh = 0, en_calls = 0, en_policies = [], en_pipelines = [],
      en_actors = [], en_last_gc = 0\<rparr>"

type_synonym 'a engine_act = "(engine, 'a) act"

definition store_do :: "(graph \<Rightarrow> graph res) \<Rightarrow> unit engine_act" where
  "store_do f s = (case f (en_store s) of Inl e \<Rightarrow> (s, Inl e) | Inr g \<Rightarrow> (s\<lparr>en_store := g\<rparr>, Inr ()))"

subsection \<open>Queue\<close>

definition queue_send :: "message \<Rightarrow> unit engine_act" where
  "queue_send m = modifies (\<lambda>s. s\<lparr>en_queue := en_queue s @ [m]\<rparr>)"

definition queue_receive :: "nat \<Rightarrow> (message list) engine_act" where
  "queue_receive n s = (s\<lparr>en_queue := drop n (en_queue s)\<rparr>, Inr (take n (en_queue s)))"

definition send_to_queue :: "rat \<Rightarrow> string \<Rightarrow> string \<Rightarrow> rat option \<Rightarrow> unit engine_act" where
  "send_to_queue now exec_id sid not_before =
     queue_send \<lparr>ms_body = ExecuteMessage exec_id sid, ms_not_before = not_before, ms_created = now\<rparr>"

definition enqueue_ready :: "rat \<Rightarrow> string \<Rightarrow> unit engine_act" where
  "enqueue_ready now sid =
     abind (reads (\<lambda>s. ready_executions (en_store s) sid)) (\<lambda>ready.
       for_each (\<lambda>e. send_to_queue now (ex_id e) sid None) ready)"

definition send_trigger :: "rat \<Rightarrow> string \<Rightarrow> dict \<Rightarrow> string option \<Rightarrow> unit engine_act" where
  "send_trigger now trigger st serial =
     queue_send \<lparr>ms_body = TriggerMessage trigger st serial, ms_not_before = None, ms_created = now\<rparr>"

subsection \<open>Registration\<close>

definition register_node ::
    "string \<Rightarrow> nat \<Rightarrow> int option \<Rightarrow> rat option \<Rightarrow> rat option \<Rightarrow> unit engine_act" where
  "register_node name obj max_attempts timeout retry_delay = modifies (\<lambda>s.
     let p = no_policy\<lparr>po_max_attempts := max_attempts, po_timeout := timeout, po_retry_delay := retry_delay\<rparr>
     in s\<lparr>en_registry := AList.update name obj (en_registry s),
          en_policies := (if p = no_policy then en_policies s else AList.update name p (en_policies s))\<rparr>)"

definition register_pipeline :: "string \<Rightarrow> (dict \<Rightarrow> plan res) \<Rightarrow> unit engine_act" where
  "register_pipeline trigger template = modifies (\<lambda>s. s\<lparr>en_pipelines := AList.update trigger template (en_pipelines s)\<rparr>)"

definition register_actor :: "string \<Rightarrow> (string \<Rightarrow> plan) \<Rightarrow> unit engine_act" where
  "register_actor prefix template =
     (if prefix = [] then raise_error (ValueError ''actor prefix must be non-empty'')
      else modifies (\<lambda>s. s\<lparr>en_actors := AList.update prefix template (en_actors s)\<rparr>))"

subsection \<open>Starting sessions\<close>

datatype start_trigger = TriggerName string | AdhocPlan plan

text \<open>\<open>repr\<close> of a list of strings.\<close>

definition repr_list :: "string list \<Rightarrow> string" where
  "repr_list xs = ''['' @ concat (map (\<lambda>(k, x). (if k = 0 then [] else '', '') @ repr_str x) (enumerate 0 xs)) @ '']''"

definition trigger_plan :: "start_trigger \<Rightarrow> dict \<Rightarrow> plan option \<Rightarrow> (string \<times> plan) engine_act" where
  "trigger_plan trigger initial given =
     (case (trigger, given) of
        (TriggerName t, Some p) \<Rightarrow> ret (t, p)
      | (TriggerName t, None) \<Rightarrow>
          abind (reads (\<lambda>s. map_of (en_pipelines s) t)) (\<lambda>template. case template of
            None \<Rightarrow> abind (reads (\<lambda>s. map fst (en_pipelines s))) (\<lambda>known. raise_error (ValueError
              (''No pipeline registered for trigger '' @ [CHR 0x27] @ t @ [CHR 0x27] @ ''. Available: '' @ repr_list known)))
          | Some f \<Rightarrow> abind (lifts (f initial)) (\<lambda>p. ret (t, p)))
      | (AdhocPlan p, None) \<Rightarrow> ret (''adhoc'', p)
      | (AdhocPlan q, Some p) \<Rightarrow> ret (''adhoc'', p))"

definition create_running :: "services \<Rightarrow> rat \<Rightarrow> string \<Rightarrow> dict \<Rightarrow> string option \<Rightarrow> (string option) engine_act" where
  "create_running sv now trigger initial serial s =
     (let (g, sid) = create_graph_session now (sv_ids sv (en_fresh s)) (en_store s) trigger initial serial None
      in (s\<lparr>en_store := g, en_fresh := Suc (en_fresh s)\<rparr>, Inr sid))"

text \<open>\<open>expand_plan\<close> on the runtime's store and registry.\<close>

definition expand_into :: "services \<Rightarrow> rat \<Rightarrow> string \<Rightarrow> plan \<Rightarrow> (string list \<times> string) engine_act" where
  "expand_into sv now sid p s =
     (case expand_plan now (sv_ids sv) (en_store s) sid p (en_registry s) (en_fresh s) of
        Inl e \<Rightarrow> (s, Inl e)
      | Inr (g, starts, final, reg, n) \<Rightarrow> (s\<lparr>en_store := g, en_registry := reg, en_fresh := n\<rparr>, Inr (starts, final)))"

definition start_session ::
    "services \<Rightarrow> rat \<Rightarrow> start_trigger \<Rightarrow> dict \<Rightarrow> plan option \<Rightarrow> string option \<Rightarrow> (string option) engine_act" where
  "start_session sv now trigger initial given serial =
     abind (trigger_plan trigger initial given) (\<lambda>(name, p).
     abind (create_running sv now name initial serial) (\<lambda>created. case created of
       None \<Rightarrow> ret None
     | Some sid \<Rightarrow>
         let head = ''head-'' @ take 8 sid; tail = ''end-'' @ take 8 sid in
         aseq (store_do (\<lambda>g. Inr (add_execution now (add_execution now g sid head_name head None) sid end_name tail None)))
         (abind (expand_into sv now sid p) (\<lambda>(starts, final).
            aseq (store_do (\<lambda>g. Inr (add_edge (link_all sid head starts g) sid final tail None)))
            (aseq (store_do (\<lambda>g. mark_completed now g head initial))
            (aseq (enqueue_ready now sid) (ret (Some sid))))))))"

subsection \<open>Actors and waits\<close>

definition own_box :: "engine \<Rightarrow> mailbox option" where
  "own_box s = map_of (en_boxes s) ''self''"

definition ensure_actor :: "services \<Rightarrow> rat \<Rightarrow> string \<Rightarrow> nat engine_act" where
  "ensure_actor sv now conv =
     abind (reads (\<lambda>s. find (\<lambda>(prefix, t). starts_with prefix conv) (en_actors s))) (\<lambda>found. case found of
       None \<Rightarrow> ret 0
     | Some (prefix, template) \<Rightarrow>
         abind (start_session sv now (TriggerName (''actor:'' @ conv)) [(''conversation_id'', JStr conv)]
                  (Some (template conv)) (Some conv)) (\<lambda>sid.
           ret (if sid = None then 0 else 1)))"

definition ensure_actors :: "services \<Rightarrow> rat \<Rightarrow> nat engine_act" where
  "ensure_actors sv now =
     abind (reads (\<lambda>s. if en_actors s = [] then None else own_box s)) (\<lambda>box. case box of
       None \<Rightarrow> ret 0
     | Some mb \<Rightarrow> sum_each (ensure_actor sv now) (claimable_conversations now mb) 0)"

definition wait_due :: "rat \<Rightarrow> engine \<Rightarrow> execution \<Rightarrow> bool" where
  "wait_due now s e =
     (case ex_wake e of
        None \<Rightarrow> False
      | Some w \<Rightarrow> (case wk_at w of None \<Rightarrow> False | Some t \<Rightarrow> t \<le> now)
          \<or> (case own_box s of None \<Rightarrow> False
             | Some mb \<Rightarrow> wk_conversation w \<noteq> [] \<and> 0 < claimable_count now mb (wk_conversation w)))"

definition wake_one :: "rat \<Rightarrow> execution \<Rightarrow> nat engine_act" where
  "wake_one now e =
     abind (reads (\<lambda>s. wait_due now s e)) (\<lambda>due.
       if \<not> due then ret 0
       else abind (\<lambda>s. let (g, woken) = wake_execution (en_store s) (ex_id e) in (s\<lparr>en_store := g\<rparr>, Inr woken)) (\<lambda>woken.
         if woken then aseq (send_to_queue now (ex_id e) (ex_session e) None) (ret 1) else ret 0))"

definition wake_due_waits :: "rat \<Rightarrow> nat engine_act" where
  "wake_due_waits now =
     abind (reads (\<lambda>s. waiting_executions (en_store s))) (\<lambda>es. sum_each (wake_one now) es 0)"

definition waiting_conversations :: "engine \<Rightarrow> string list" where
  "waiting_conversations s = remdups (List.map_filter (\<lambda>e. map_option wk_conversation (ex_wake e)) (waiting_executions (en_store s)))"

definition next_wake_at :: "engine \<Rightarrow> rat option" where
  "next_wake_at s = min_by id (List.map_filter (\<lambda>e. case ex_wake e of None \<Rightarrow> None | Some w \<Rightarrow> wk_at w) (waiting_executions (en_store s)))"

subsection \<open>Monitors\<close>

definition box_append :: "rat \<Rightarrow> string \<Rightarrow> string \<Rightarrow> dict \<Rightarrow> unit engine_act" where
  "box_append now box conv event s =
     (case map_of (en_boxes s) box of
        None \<Rightarrow> (s, Inl (KeyError box))
      | Some mb \<Rightarrow>
          (case append_mail_event now [] mb conv event of
             Inl e \<Rightarrow> (s, Inl e)
           | Inr (mb', i) \<Rightarrow> (s\<lparr>en_boxes := AList.update box mb' (en_boxes s)\<rparr>, Inr ())))"

definition change_monitors :: "(monitor_store \<Rightarrow> monitor_store) \<Rightarrow> unit engine_act" where
  "change_monitors f s =
     (case en_monitors s of None \<Rightarrow> (s, Inl (OtherError ''AttributeError'' ''NoneType''))
      | Some ms \<Rightarrow> (s\<lparr>en_monitors := Some (f ms)\<rparr>, Inr ()))"

definition observe_event :: "rat \<Rightarrow> string option \<Rightarrow> string option \<Rightarrow> unit engine_act" where
  "observe_event now correlation source = modifies (\<lambda>s. case en_monitors s of None \<Rightarrow> s
     | Some ms \<Rightarrow> s\<lparr>en_monitors := Some (fst (observe_monitors ms correlation source now))\<rparr>)"

definition str_option :: "json option \<Rightarrow> string option" where
  "str_option v = (case v of Some (JStr t) \<Rightarrow> Some t | _ \<Rightarrow> None)"

definition lapse_event :: "armed \<Rightarrow> dict" where
  "lapse_event r =
     [(''event_id'', JStr (''lapse-'' @ (case mn_id r of None \<Rightarrow> [] | Some i \<Rightarrow> i) @ ''-'' @ nat_text (ar_cycles r))),
      (''kind'', JStr ''system''), (''source'', JStr ''monitor''),
      (''payload'', JObj (opt_field ''monitor_id'' JStr (mn_id r) @ opt_field ''correlation_id'' JStr (mn_correlation r)
         @ opt_field ''source'' JStr (mn_source r) @ opt_field ''deadline'' (\<lambda>t. JFloat (Fin t)) (mn_deadline r)
         @ opt_field ''interval'' (\<lambda>t. JFloat (Fin t)) (mn_interval r)
         @ [(''reason'', JStr (if mn_deadline r \<noteq> None then ''deadline'' else ''heartbeat''))]))]"

definition fire_lapse :: "rat \<Rightarrow> armed \<Rightarrow> nat engine_act" where
  "fire_lapse now r =
     aseq (box_append now ''self'' (mn_notify r) (lapse_event r))
     (aseq (change_monitors (\<lambda>ms. mark_lapsed ms (case mn_id r of None \<Rightarrow> [] | Some i \<Rightarrow> i))) (ret 1))"

definition tick_monitors :: "rat \<Rightarrow> nat engine_act" where
  "tick_monitors now =
     abind (reads (\<lambda>s. (en_monitors s, own_box s))) (\<lambda>(monitors, box). case (monitors, box) of
       (Some ms, Some mb) \<Rightarrow> sum_each (fire_lapse now) (due_monitors ms now) 0
     | _ \<Rightarrow> ret 0)"

subsection \<open>Mailbox effects\<close>

definition resolve_mailbox :: "services \<Rightarrow> engine \<Rightarrow> string \<Rightarrow> string res" where
  "resolve_mailbox sv s target =
     (case sv_resolver sv of
        Some f \<Rightarrow> (case f target of None \<Rightarrow> Inl (KeyError target) | Some box \<Rightarrow> Inr box)
      | None \<Rightarrow> if target = ''self'' \<and> own_box s \<noteq> None then Inr ''self''
          else Inl (KeyError (''no mailbox resolves for publication target '' @ repr_str target)))"

definition stage_publication :: "services \<Rightarrow> engine \<Rightarrow> string \<Rightarrow> published list \<Rightarrow> nat \<times> outbox_entry \<Rightarrow> (published list) res" where
  "stage_publication sv s exec_id acc item =
     (case item of (index, pub) \<Rightarrow>
        rbind (resolve_mailbox sv s (ob_target pub)) (\<lambda>_. Inr (acc @
          [\<lparr>pb_target = ob_target pub, pb_conversation = ob_conversation pub, pb_event = ob_event pub,
            pb_event_id = or_else (ob_event_id pub) (''txn-'' @ exec_id @ ''-'' @ nat_text index)\<rparr>])))"

definition staged_arm :: "string \<Rightarrow> nat \<times> monitor \<Rightarrow> string \<times> monitor" where
  "staged_arm exec_id item =
     (case item of (index, m) \<Rightarrow>
        (case mn_id m of None \<Rightarrow> ''mon-'' @ exec_id @ ''-'' @ nat_text index | Some i \<Rightarrow> i, m))"

definition stage_effects :: "services \<Rightarrow> engine \<Rightarrow> string \<Rightarrow> transition \<Rightarrow> (effects option) res" where
  "stage_effects sv s exec_id t =
     (if \<not> has_effects t then Inr None
      else if tr_acknowledge t \<noteq> [] \<and> own_box s = None
      then Inl (ValueError ''transition acknowledges mailbox events, but the runtime has no mailbox configured'')
      else rbind (fold_res (stage_publication sv s exec_id) [] (enumerate 0 (tr_publish t))) (\<lambda>pubs.
        if (tr_arm t \<noteq> [] \<or> tr_disarm t \<noteq> []) \<and> en_monitors s = None
        then Inl (ValueError ''transition arms/disarms monitors, but the runtime has no monitor store configured'')
        else Inr (Some \<lparr>ef_acknowledge = tr_acknowledge t, ef_publish = pubs,
               ef_arm = map (staged_arm exec_id) (enumerate 0 (tr_arm t)), ef_disarm = tr_disarm t\<rparr>)))"

definition apply_ack :: "rat \<Rightarrow> acknowledgement \<Rightarrow> unit engine_act" where
  "apply_ack now a s =
     (case own_box s of
        None \<Rightarrow> (s, Inl (OtherError ''AttributeError'' ''NoneType''))
      | Some mb \<Rightarrow>
          let (mb', r) = acknowledge_mail now mb (ak_conversation a) ''runtime'' (ak_event_ids a) True
          in (s\<lparr>en_boxes := AList.update ''self'' mb' (en_boxes s)\<rparr>, r))"

definition apply_publication :: "services \<Rightarrow> rat \<Rightarrow> published \<Rightarrow> unit engine_act" where
  "apply_publication sv now p =
     (let event = AList.update ''event_id'' (JStr (pb_event_id p)) (pb_event p) in
      abind (\<lambda>s. (s, resolve_mailbox sv s (pb_target p))) (\<lambda>box.
      aseq (box_append now box (pb_conversation p) event)
        (observe_event now (str_option (map_of event ''correlation_id'')) (str_option (map_of event ''source'')))))"

definition apply_effects :: "services \<Rightarrow> rat \<Rightarrow> string \<Rightarrow> effects \<Rightarrow> unit engine_act" where
  "apply_effects sv now exec_id ef =
     aseq (for_each (apply_ack now) (ef_acknowledge ef))
     (aseq (for_each (apply_publication sv now) (ef_publish ef))
     (aseq (for_each (\<lambda>(i, m). change_monitors (\<lambda>ms. arm_monitor ms i m now)) (ef_arm ef))
     (aseq (for_each (\<lambda>i. change_monitors (\<lambda>ms. fst (disarm_monitor ms i))) (ef_disarm ef))
     (aseq (store_do (\<lambda>g. set_effects g exec_id None))
       (if ef_publish ef = [] then ret ()
        else aseq (ensure_actors sv now) (aseq (wake_due_waits now) (ret ())))))))"

definition apply_effects_guarded :: "services \<Rightarrow> rat \<Rightarrow> string \<Rightarrow> effects \<Rightarrow> unit engine_act" where
  "apply_effects_guarded sv now exec_id ef = catches (apply_effects sv now exec_id ef) (\<lambda>e. ret ())"

subsection \<open>Spawned children\<close>

definition spawn_lineage :: "engine \<Rightarrow> string \<Rightarrow> dict option" where
  "spawn_lineage s sid =
     (case get_session (en_store s) sid of
        None \<Rightarrow> None
      | Some ses \<Rightarrow> (case map_of (gs_state ses) ''spawn'' of
          Some (JObj lineage) \<Rightarrow> (case map_of lineage ''notify'' of None \<Rightarrow> None | Some v \<Rightarrow> if truthy v then Some lineage else None)
        | _ \<Rightarrow> None))"

definition child_result_effects :: "engine \<Rightarrow> string \<Rightarrow> dict \<Rightarrow> effects option" where
  "child_result_effects s sid final =
     (case (spawn_lineage s sid, own_box s) of
        (Some lineage, Some mb) \<Rightarrow> Some \<lparr>ef_acknowledge = [], ef_publish = [\<lparr>pb_target = ''self'',
            pb_conversation = str_of (dict_get lineage ''notify'' JNull),
            pb_event = [(''kind'', JStr ''result''), (''source'', JStr (''session:'' @ sid)),
              (''correlation_id'', dict_get lineage ''correlation_id'' JNull), (''payload'', JObj final)],
            pb_event_id = ''result-'' @ sid\<rparr>], ef_arm = [], ef_disarm = []\<rparr>
      | _ \<Rightarrow> None)"

definition death_notice :: "string \<Rightarrow> dict \<Rightarrow> string option \<Rightarrow> dict" where
  "death_notice sid lineage error =
     [(''event_id'', JStr (''death-'' @ sid)), (''kind'', JStr ''system''), (''source'', JStr (''session:'' @ sid)),
      (''correlation_id'', dict_get lineage ''correlation_id'' JNull),
      (''payload'', JObj [(''reason'', JStr ''failed''), (''error'', opt_json error), (''slot'', dict_get lineage ''slot'' JNull)])]"

text \<open>\<open>_fail_session\<close>: a spawned child's death notice may fail to deliver, silently.\<close>

definition fail_and_notify :: "rat \<Rightarrow> string \<Rightarrow> string option \<Rightarrow> unit engine_act" where
  "fail_and_notify now sid error =
     aseq (store_do (\<lambda>g. fail_session now g sid))
     (abind (reads (\<lambda>s. (spawn_lineage s sid, own_box s))) (\<lambda>(lineage, box). case (lineage, box) of
        (Some l, Some mb) \<Rightarrow>
          let event = death_notice sid l error in
          abind (catches (aseq (box_append now ''self'' (str_of (dict_get l ''notify'' JNull)) event) (ret True)) (\<lambda>e. ret False))
            (\<lambda>delivered.
              if \<not> delivered then ret ()
              else aseq (observe_event now (str_option (map_of event ''correlation_id'')) (Some (''session:'' @ sid)))
                     (aseq (wake_due_waits now) (ret ())))
      | _ \<Rightarrow> ret ()))"

subsection \<open>Waiting executions\<close>

definition wait_conversation :: "wait_params option \<Rightarrow> dict \<Rightarrow> string" where
  "wait_conversation w input =
     (case (case w of None \<Rightarrow> None | Some p \<Rightarrow> wp_conversation p) of
        Some c \<Rightarrow> if c = [] then str_of (dict_get input ''conversation_id'' JNull) else c
      | None \<Rightarrow> str_of (dict_get input ''conversation_id'' JNull))"

definition box_claim :: "rat \<Rightarrow> string \<Rightarrow> string \<Rightarrow> nat \<Rightarrow> (dict list) engine_act" where
  "box_claim now conv consumer limit s =
     (case own_box s of
        None \<Rightarrow> (s, Inl (OtherError ''AttributeError'' ''NoneType''))
      | Some mb \<Rightarrow>
          (case claim_mail now mb conv consumer limit 30 of
             Inl e \<Rightarrow> (s, Inl e)
           | Inr (mb', events) \<Rightarrow> (s\<lparr>en_boxes := AList.update ''self'' mb' (en_boxes s)\<rparr>, Inr events)))"

definition timer_mail :: "rat option \<Rightarrow> json" where
  "timer_mail timeout = JObj [(''kind'', JStr ''system''), (''source'', JStr ''timer''),
     (''payload'', JObj [(''timeout'', case timeout of None \<Rightarrow> JNull | Some t \<Rightarrow> JFloat (Fin t))])]"

definition wake_deadline :: "rat \<Rightarrow> execution \<Rightarrow> rat option \<Rightarrow> rat option" where
  "wake_deadline now e timeout =
     (case (case ex_wake e of None \<Rightarrow> None | Some w \<Rightarrow> wk_at w) of
        Some t \<Rightarrow> Some t | None \<Rightarrow> map_option (\<lambda>d. now + d) timeout)"

definition execute_wait :: "services \<Rightarrow> rat \<Rightarrow> execution \<Rightarrow> string \<Rightarrow> string \<Rightarrow> unit engine_act" where
  "execute_wait sv now e exec_id sid =
     abind (\<lambda>s. (s, collect_input_state (en_store s) exec_id)) (\<lambda>input.
       let w = (case ex_policy e of None \<Rightarrow> None | Some p \<Rightarrow> po_wait p);
           conv = wait_conversation w input;
           timeout = (case w of None \<Rightarrow> None | Some p \<Rightarrow> wp_timeout p) in
       abind (reads own_box) (\<lambda>box.
       if conv = [] \<or> box = None then
         (let reason = (if conv = [] then ''WaitForMailbox needs a conversation (parameter or '' @ repr_str ''conversation_id'' @ '' in state)''
                        else ''WaitForMailbox needs a mailbox configured on the runtime'')
          in aseq (store_do (\<lambda>g. mark_failed now g exec_id (Some reason))) (fail_and_notify now sid (Some reason)))
       else abind (box_claim now conv (''wait:'' @ exec_id) (case w of None \<Rightarrow> 20 | Some p \<Rightarrow> wp_limit p)) (\<lambda>events.
         if events \<noteq> [] then
           (let ef = \<lparr>ef_acknowledge = [\<lparr>ak_conversation = conv,
                         ak_event_ids = map (\<lambda>ev. str_of (dict_get ev ''event_id'' JNull)) events\<rparr>],
                       ef_publish = [], ef_arm = [], ef_disarm = []\<rparr>
            in aseq (store_do (\<lambda>g. commit_transition now g exec_id sid
                       (AList.update ''events'' (JList (map JObj events)) input) None [] (Some ef) []))
               (aseq (apply_effects_guarded sv now exec_id ef) (enqueue_ready now sid)))
         else
           let wake_at = wake_deadline now e timeout in
           if (case wake_at of None \<Rightarrow> False | Some t \<Rightarrow> t \<le> now) then
             aseq (store_do (\<lambda>g. commit_transition now g exec_id sid
                     (AList.update ''events'' (JList [timer_mail timeout]) input) None [] None []))
               (enqueue_ready now sid)
           else store_do (\<lambda>g. mark_waiting g exec_id \<lparr>wk_conversation = conv, wk_at = wake_at\<rparr>))))"

subsection \<open>Executing a node\<close>

definition max_session_nodes :: nat where
  "max_session_nodes = 1000"

text \<open>\<open>_call_with_timeout\<close>: a call that takes longer than a nonzero timeout is a failure.\<close>

definition call_with_timeout ::
    "services \<Rightarrow> nat \<Rightarrow> dict \<Rightarrow> rat option \<Rightarrow> node_value engine_act" where
  "call_with_timeout sv obj input timeout s =
     (let (outcome, took) = sv_call sv obj (en_calls s) input; s' = s\<lparr>en_calls := Suc (en_calls s)\<rparr> in
      if (case timeout of None \<Rightarrow> False | Some t \<Rightarrow> t \<noteq> 0 \<and> t < took)
      then (s', Inl (OtherError ''NodeTimeoutError'' ''timed out''))
      else (s', outcome))"

text \<open>The per-execution policy overrides the registered one field by field.\<close>

definition first_some :: "'a option \<Rightarrow> 'a option \<Rightarrow> 'a option" where
  "first_some a b = (case a of None \<Rightarrow> b | Some x \<Rightarrow> Some x)"

definition effective_policy :: "node_policy option \<Rightarrow> node_policy option \<Rightarrow> node_policy" where
  "effective_policy registered own =
     (let p = (case registered of None \<Rightarrow> no_policy | Some q \<Rightarrow> q); o1 = (case own of None \<Rightarrow> no_policy | Some q \<Rightarrow> q) in
      \<lparr>po_max_attempts = first_some (po_max_attempts o1) (po_max_attempts p),
       po_timeout = first_some (po_timeout o1) (po_timeout p),
       po_retry_delay = first_some (po_retry_delay o1) (po_retry_delay p),
       po_max_invocations = first_some (po_max_invocations o1) (po_max_invocations p),
       po_wait = first_some (po_wait o1) (po_wait p)\<rparr>)"

text \<open>Finishing a session at its end or at a closed gate, with the result a spawned child owes.\<close>

definition finish_session :: "services \<Rightarrow> rat \<Rightarrow> string \<Rightarrow> string \<Rightarrow> dict \<Rightarrow> dict \<Rightarrow> unit engine_act" where
  "finish_session sv now exec_id sid final result =
     abind (reads (\<lambda>s. child_result_effects s sid final)) (\<lambda>owed.
       aseq (case owed of
           Some ef \<Rightarrow> aseq (store_do (\<lambda>g. commit_transition now g exec_id sid result None [] (Some ef) []))
                       (apply_effects_guarded sv now exec_id ef)
         | None \<Rightarrow> store_do (\<lambda>g. mark_completed now g exec_id result))
         (store_do (\<lambda>g. complete_session now g sid)))"

text \<open>Staging of a returned plan, with the limit on a session's executions.\<close>

definition stage_returned ::
    "services \<Rightarrow> string \<Rightarrow> string \<Rightarrow> plan option \<Rightarrow> (staged_plan option \<times> (string \<times> string option) list) engine_act" where
  "stage_returned sv exec_id sid p s =
     (case p of
        None \<Rightarrow> (s, Inr (None, []))
      | Some pl \<Rightarrow>
          let es = session_executions (en_store s) sid None in
          if max_session_nodes \<le> length es
          then (s, Inl (RecursionLimitExceeded (''Session '' @ sid @ '' exceeded global hard limit of '' @ nat_text max_session_nodes @ '' executions'')))
          else (case stage_plan (sv_ids sv) None pl (node_counts es) (en_registry s) (en_fresh s) of
              Inl e \<Rightarrow> (s, Inl e)
            | Inr (sp, reg, n) \<Rightarrow>
                (s\<lparr>en_registry := reg, en_fresh := n\<rparr>, Inr (Some sp, get_children (en_store s) exec_id))))"

fun stage_spawns :: "services \<Rightarrow> string \<Rightarrow> string \<Rightarrow> nat \<Rightarrow> spawn_request list \<Rightarrow> (staged_session list) engine_act" where
  "stage_spawns sv exec_id sid index [] s = (s, Inr [])"
| "stage_spawns sv exec_id sid index (sp # sps) s =
     (case stage_spawn (sv_ids sv) sp exec_id index (Some sid) (en_registry s) (en_fresh s) of
        Inl e \<Rightarrow> (s, Inl e)
      | Inr (child, reg, n) \<Rightarrow>
          (case stage_spawns sv exec_id sid (Suc index) sps (s\<lparr>en_registry := reg, en_fresh := n\<rparr>) of
             (s', Inl e) \<Rightarrow> (s', Inl e) | (s', Inr children) \<Rightarrow> (s', Inr (child # children))))"

definition stage_children :: "services \<Rightarrow> string \<Rightarrow> string \<Rightarrow> spawn_request list \<Rightarrow> (staged_session list) engine_act" where
  "stage_children sv exec_id sid spawns s =
     (if spawns \<noteq> [] \<and> own_box s = None
      then (s, Inl (ValueError ''transition spawns child sessions, but the runtime has no mailbox for their terminal events''))
      else stage_spawns sv exec_id sid 0 spawns s)"

text \<open>The body of the \<open>try\<close> block: call, stage, commit, apply, enqueue.\<close>

definition run_node ::
    "services \<Rightarrow> rat \<Rightarrow> string \<Rightarrow> string \<Rightarrow> nat \<Rightarrow> dict \<Rightarrow> rat option \<Rightarrow> unit engine_act" where
  "run_node sv now exec_id sid obj input timeout =
     abind (call_with_timeout sv obj input timeout) (\<lambda>value.
       let t = normalize_result value in
       abind (stage_returned sv exec_id sid (tr_plan t)) (\<lambda>(staged, children).
       abind (stage_children sv exec_id sid (tr_spawn t)) (\<lambda>spawns.
       abind (\<lambda>s. (s, stage_effects sv s exec_id t)) (\<lambda>ef.
       aseq (store_do (\<lambda>g. commit_transition now g exec_id sid (tr_state t) staged children ef spawns))
       (aseq (case ef of None \<Rightarrow> ret () | Some e \<Rightarrow> apply_effects_guarded sv now exec_id e)
       (aseq (for_each (\<lambda>c. enqueue_ready now (ss_id c)) spawns)
         (enqueue_ready now sid)))))))"

definition node_failed ::
    "rat \<Rightarrow> string \<Rightarrow> string \<Rightarrow> nat \<Rightarrow> node_policy \<Rightarrow> py_error \<Rightarrow> unit engine_act" where
  "node_failed now exec_id sid attempt p e =
     (let give_up = aseq (store_do (\<lambda>g. mark_failed now g exec_id (Some (error_text e)))) (fail_and_notify now sid (Some (error_text e))) in
      case e of
        RecursionLimitExceeded m \<Rightarrow> give_up
      | _ \<Rightarrow>
          if int attempt < (case po_max_attempts p of None \<Rightarrow> 1 | Some m \<Rightarrow> m) then
            let delay = (case po_retry_delay p of None \<Rightarrow> 0 | Some d \<Rightarrow> d);
                retry_at = (if delay = 0 then None else Some (now + delay)) in
            aseq (store_do (\<lambda>g. mark_retrying g exec_id (Some (error_text e)) retry_at)) (send_to_queue now exec_id sid retry_at)
          else give_up)"

definition execute_callable ::
    "services \<Rightarrow> rat \<Rightarrow> execution \<Rightarrow> string \<Rightarrow> string \<Rightarrow> nat \<Rightarrow> unit engine_act" where
  "execute_callable sv now e exec_id sid obj =
     abind (reads (\<lambda>s. effective_policy (map_of (en_policies s) (ex_name e)) (ex_policy e))) (\<lambda>p.
     abind (\<lambda>s. (s, collect_input_state (en_store s) exec_id)) (\<lambda>input.
     aseq (store_do (\<lambda>g. mark_running now g exec_id input))
       (catches (run_node sv now exec_id sid obj input (po_timeout p))
          (node_failed now exec_id sid (Suc (ex_attempts e)) p))))"

definition execute_gate :: "services \<Rightarrow> rat \<Rightarrow> execution \<Rightarrow> string \<Rightarrow> string \<Rightarrow> unit engine_act" where
  "execute_gate sv now e exec_id sid =
     abind (\<lambda>s. (s, collect_input_state (en_store s) exec_id)) (\<lambda>input.
       if \<not> truthy (dict_get input (drop (length gate_prefix) (ex_name e)) JNull)
       then finish_session sv now exec_id sid input input
       else aseq (store_do (\<lambda>g. mark_completed now g exec_id input)) (enqueue_ready now sid))"

definition execute_node :: "services \<Rightarrow> rat \<Rightarrow> string \<Rightarrow> string \<Rightarrow> unit engine_act" where
  "execute_node sv now exec_id sid =
     abind (reads (\<lambda>s. get_execution (en_store s) exec_id)) (\<lambda>found. case found of
       None \<Rightarrow> ret ()
     | Some e \<Rightarrow>
         if ex_status e \<noteq> XPending then ret ()
         else if (case ex_retry_at e of None \<Rightarrow> False | Some t \<Rightarrow> t \<noteq> 0 \<and> now < t)
         then send_to_queue now exec_id sid (ex_retry_at e)
         else if ex_name e = end_name then
           abind (\<lambda>s. (s, collect_input_state (en_store s) exec_id)) (\<lambda>final.
             finish_session sv now exec_id sid final [])
         else if starts_with gate_prefix (ex_name e) then execute_gate sv now e exec_id sid
         else if ex_name e = wait_name then execute_wait sv now e exec_id sid
         else if ex_name e = merge_name then
           abind (\<lambda>s. (s, collect_input_state (en_store s) exec_id)) (\<lambda>merged.
             aseq (store_do (\<lambda>g. mark_completed now g exec_id merged)) (enqueue_ready now sid))
         else abind (reads (\<lambda>s. map_of (en_registry s) (ex_name e))) (\<lambda>registered. case registered of
           None \<Rightarrow>
             let reason = ''Unknown node: '' @ ex_name e in
             aseq (store_do (\<lambda>g. mark_failed now g exec_id (Some reason))) (fail_and_notify now sid (Some reason))
         | Some obj \<Rightarrow> execute_callable sv now e exec_id sid obj))"

subsection \<open>Messages and the main loop\<close>

definition handle_message :: "services \<Rightarrow> rat \<Rightarrow> message \<Rightarrow> unit engine_act" where
  "handle_message sv now m =
     (if (case ms_not_before m of None \<Rightarrow> False | Some t \<Rightarrow> t \<noteq> 0 \<and> now < t) then queue_send m
      else (case ms_body m of
        TriggerMessage trigger st serial \<Rightarrow>
          abind (start_session sv now (TriggerName trigger) st None serial) (\<lambda>sid. case sid of
            None \<Rightarrow> queue_send (m\<lparr>ms_not_before := Some (now + 1 / 10)\<rparr>) | Some i \<Rightarrow> ret ())
      | ExecuteMessage exec_id sid \<Rightarrow> execute_node sv now exec_id sid
      | ApprovalMessage sid \<Rightarrow> ret ()
      | UnknownMessage t \<Rightarrow> ret ()))"

text \<open>A message whose handling raises is given back to the queue.\<close>

definition process_message :: "services \<Rightarrow> rat \<Rightarrow> message \<Rightarrow> unit engine_act" where
  "process_message sv now m = catches (handle_message sv now m) (\<lambda>e. queue_send m)"

definition process_messages :: "services \<Rightarrow> rat \<Rightarrow> message list \<Rightarrow> unit engine_act" where
  "process_messages sv now ms = for_each (process_message sv now) ms"

definition collect_garbage :: "services \<Rightarrow> rat \<Rightarrow> bool \<Rightarrow> (string list) engine_act" where
  "collect_garbage sv now force s =
     (case sv_retention sv of
        None \<Rightarrow> (s, Inr [])
      | Some p \<Rightarrow>
          if \<not> force \<and> now - en_last_gc s < rt_interval p then (s, Inr [])
          else (case collect_terminal_sessions (en_store s) p now of
            Inl e \<Rightarrow> (s, Inl e)
          | Inr (g, deleted) \<Rightarrow> (s\<lparr>en_store := g, en_last_gc := now\<rparr>, Inr deleted)))"

definition run_batch :: "services \<Rightarrow> rat \<Rightarrow> message list \<Rightarrow> unit engine_act" where
  "run_batch sv now ms =
     aseq (process_messages sv now ms) (aseq (tick_monitors now) (aseq (ensure_actors sv now)
       (aseq (wake_due_waits now) (aseq (collect_garbage sv now False) (ret ())))))"

definition graph_run_once :: "services \<Rightarrow> rat \<Rightarrow> unit engine_act" where
  "graph_run_once sv now = abind (queue_receive 10) (run_batch sv now)"

definition recover_session :: "rat \<Rightarrow> graph_session \<Rightarrow> unit engine_act" where
  "recover_session now ses =
     abind (reads (\<lambda>s. session_executions (en_store s) (gs_id ses) (Some XRunning))) (\<lambda>left.
     aseq (for_each (\<lambda>e. store_do (\<lambda>g. mark_retrying g (ex_id e) (Some ''recovered: worker stopped mid-execution'') None)) left)
       (enqueue_ready now (gs_id ses)))"

definition replay_effects :: "services \<Rightarrow> rat \<Rightarrow> execution \<Rightarrow> unit engine_act" where
  "replay_effects sv now e =
     (case ex_effects e of None \<Rightarrow> ret () | Some ef \<Rightarrow> apply_effects_guarded sv now (ex_id e) ef)"

text \<open>The recovery part of \<open>run\<close>.\<close>

definition recover :: "services \<Rightarrow> rat \<Rightarrow> unit engine_act" where
  "recover sv now =
     abind (reads (\<lambda>s. running_sessions (en_store s))) (\<lambda>sessions.
     aseq (for_each (recover_session now) sessions)
     (abind (reads (\<lambda>s. pending_effect_executions (en_store s))) (\<lambda>owing.
      aseq (for_each (replay_effects sv now) owing)
      (aseq (tick_monitors now) (aseq (ensure_actors sv now) (aseq (wake_due_waits now) (ret ())))))))"

text \<open>One turn of the main loop; the result is whether the loop stops.\<close>

definition run_turn :: "services \<Rightarrow> bool \<Rightarrow> rat \<Rightarrow> bool engine_act" where
  "run_turn sv stop_when_idle now =
     abind (queue_receive 10) (\<lambda>ms.
       if ms \<noteq> [] then aseq (run_batch sv now ms) (ret False)
       else abind (tick_monitors now) (\<lambda>lapsed.
            abind (ensure_actors sv now) (\<lambda>started.
            abind (wake_due_waits now) (\<lambda>woken.
              if woken \<noteq> 0 \<or> started \<noteq> 0 \<or> lapsed \<noteq> 0 then ret False
              else aseq (collect_garbage sv now False)
                (reads (\<lambda>s. stop_when_idle \<and> waiting_executions (en_store s) = []))))))"

text \<open>\<open>run\<close> for at most \<open>fuel\<close> turns; \<open>clock\<close> gives the readings. The result is whether it stopped.\<close>

fun run_turns :: "services \<Rightarrow> bool \<Rightarrow> (nat \<Rightarrow> rat) \<Rightarrow> nat \<Rightarrow> bool engine_act" where
  "run_turns sv stop clock 0 s = (s, Inr False)"
| "run_turns sv stop clock (Suc fuel) s =
     (case run_turn sv stop (clock 0) s of
        (s', Inl e) \<Rightarrow> (s', Inl e)
      | (s', Inr True) \<Rightarrow> (s', Inr True)
      | (s', Inr False) \<Rightarrow> run_turns sv stop (\<lambda>i. clock (Suc i)) fuel s')"

definition graph_run :: "services \<Rightarrow> bool \<Rightarrow> (nat \<Rightarrow> rat) \<Rightarrow> nat \<Rightarrow> bool engine_act" where
  "graph_run sv stop clock fuel = aseq (recover sv (clock 0)) (run_turns sv stop (\<lambda>i. clock (Suc i)) fuel)"

end
