(* ===== verification/Graph_Invariants.thy ===== *)
theory Graph_Invariants
  imports Graph_Engine
begin

text \<open>
  Invariants of the graph runtime. An invariant of the execution graph that every primitive write keeps
  is an invariant of every engine action: the locales say which writes the engine makes and under which
  conditions, and carry an invariant from the writes to commits, messages, the main loop and recovery.
\<close>

subsection \<open>The laws\<close>

text \<open>The engine has the registered policies \<open>pol\<close>, and its graph and its mailboxes have the invariants.\<close>

definition holds :: "(graph \<Rightarrow> bool) \<Rightarrow> ((string \<times> mailbox) list \<Rightarrow> bool) \<Rightarrow> (string \<times> node_policy) list \<Rightarrow> engine \<Rightarrow> bool" where
  "holds J B pol s \<longleftrightarrow> J (en_store s) \<and> B (en_boxes s) \<and> en_policies s = pol"

text \<open>Every write but the start and the retry of a callable's attempt.\<close>

locale graph_invariant =
  fixes J :: "graph \<Rightarrow> bool"
  assumes created: "J g \<Longrightarrow> J (fst (create_graph_session now fresh g trigger st serial given))"
    and ended: "J g \<Longrightarrow> status \<noteq> SRunning \<Longrightarrow> end_session status now g i = Inr g' \<Longrightarrow> J g'"
    and deleted: "J g \<Longrightarrow> delete_terminal_session g i = Inr (g', b) \<Longrightarrow> J g'"
    and added: "J g \<Longrightarrow> J (add_execution now g sid name i p)"
    and completed: "J g \<Longrightarrow> mark_completed now g i st = Inr g' \<Longrightarrow> J g'"
    and failed: "J g \<Longrightarrow> mark_failed now g i err = Inr g' \<Longrightarrow> J g'"
    and parked: "J g \<Longrightarrow> get_execution g i = Some e \<Longrightarrow> ex_status e = XPending \<Longrightarrow> mark_waiting g i w = Inr g' \<Longrightarrow> J g'"
    and woken: "J g \<Longrightarrow> J (fst (wake_execution g i))"
    and effected: "J g \<Longrightarrow> set_effects g i ef = Inr g' \<Longrightarrow> J g'"
    and linked: "J g \<Longrightarrow> J (add_edge g sid a c k)"
    and unlinked: "J g \<Longrightarrow> J (remove_edge g a c)"

text \<open>Every use of a mailbox by the engine.\<close>

locale box_invariant =
  fixes B :: "(string \<times> mailbox) list \<Rightarrow> bool"
  assumes appended: "B bs \<Longrightarrow> map_of bs x = Some mb \<Longrightarrow> append_mail_event now fresh mb c ev = Inr (mb', i) \<Longrightarrow> B (AList.update x mb' bs)"
    and acknowledged: "B bs \<Longrightarrow> map_of bs x = Some mb \<Longrightarrow> B (AList.update x (fst (acknowledge_mail now mb c consumer ids b)) bs)"
    and claimed: "B bs \<Longrightarrow> map_of bs x = Some mb \<Longrightarrow> claim_mail now mb c consumer n t = Inr (mb', ds) \<Longrightarrow> B (AList.update x mb' bs)"

interpretation no_graph: graph_invariant "\<lambda>_. True"
  by unfold_locales simp_all

interpretation no_box: box_invariant "\<lambda>_. True"
  by unfold_locales simp_all

subsection \<open>Commits\<close>

lemma foldl_keeps: "(\<And>g x. J g \<Longrightarrow> J (f g x)) \<Longrightarrow> J g \<Longrightarrow> J (foldl f g xs)"
  by (induction xs arbitrary: g) auto

context graph_invariant
begin

lemma write_execs: "J g \<Longrightarrow> J (write_execs now sid es g)"
  unfolding write_execs_def by (rule foldl_keeps) (auto intro: added)

lemma write_edges: "J g \<Longrightarrow> J (write_edges sid es g)"
  unfolding write_edges_def by (rule foldl_keeps) (auto intro: linked split: prod.splits)

lemma remove_edges: "J g \<Longrightarrow> J (remove_edges i cs g)"
  unfolding remove_edges_def by (rule foldl_keeps) (auto intro: unlinked split: prod.splits)

lemma link_all: "J g \<Longrightarrow> J (link_all sid i starts g)"
  unfolding link_all_def by (rule foldl_keeps) (auto intro: linked)

lemma link_children: "J g \<Longrightarrow> J (link_children sid final cs g)"
  unfolding link_children_def by (rule foldl_keeps) (auto intro: linked split: prod.splits)

lemma apply_staged: "J g \<Longrightarrow> J (apply_staged now g sid sp)"
  by (simp add: apply_staged_def write_edges write_execs)

lemma splice: "J g \<Longrightarrow> J (splice now g i sid sp cs)"
  by (simp add: splice_def link_children link_all remove_edges apply_staged)

lemma commit_spawn: "J g \<Longrightarrow> commit_spawn now g child = Inr g' \<Longrightarrow> J g'"
  by (auto simp: commit_spawn_def Let_def split: if_splits intro!: write_edges write_execs added created elim!: completed [rotated])

lemma commit_transition:
  assumes "J g" "commit_transition now g i sid r staged cs ef spawns = Inr g'"
  shows "J g'"
proof -
  let ?g1 = "case staged of None \<Rightarrow> g | Some sp \<Rightarrow> splice now g i sid sp cs"
  from assms(2) obtain g2 g3 where g2: "fold_res (commit_spawn now) ?g1 spawns = Inr g2"
    and g3: "(case ef of None \<Rightarrow> Inr g2 | Some e \<Rightarrow> set_effects g2 i (Some e)) = Inr g3" and g': "mark_completed now g3 i r = Inr g'"
    by (auto simp: commit_transition_def result_simps Let_def)
  have "J ?g1" using assms(1) splice by (simp split: option.splits)
  then have "J g2" using fold_res_invariant [where P = J, OF _ g2] commit_spawn by blast
  then have "J g3" using g3 effected by (cases ef) auto
  then show ?thesis using g' completed by blast
qed

lemma expand_plan: "J g \<Longrightarrow> expand_plan now ids g sid p reg n = Inr (g', r) \<Longrightarrow> J g'"
  by (auto simp: expand_plan_def result_simps apply_staged)

end

subsection \<open>Actions\<close>

lemma holds_store: "(\<And>g g'. J g \<Longrightarrow> f g = Inr g' \<Longrightarrow> J g') \<Longrightarrow> keeps (holds J B pol) (store_do f)"
  by (auto simp: keeps_def holds_def store_do_def split: sum.splits)

text \<open>Two states that agree on the graph, the mailboxes and the policies.\<close>

definition alike :: "engine \<Rightarrow> engine \<Rightarrow> bool" where
  "alike s s' \<longleftrightarrow> en_store s' = en_store s \<and> en_boxes s' = en_boxes s \<and> en_policies s' = en_policies s"

lemma holds_alike: "(\<And>s. alike s (fst (m s))) \<Longrightarrow> keeps (holds J B pol) m"
  by (simp add: keeps_def holds_def alike_def)

lemma change_monitors_alike: "alike s (fst (change_monitors f s))"
  by (simp add: change_monitors_def alike_def split: option.split)

lemma queue_receive_alike: "alike s (fst (queue_receive n s))"
  by (simp add: queue_receive_def alike_def)

lemma call_alike: "alike s (fst (call_with_timeout sv obj input t s))"
  by (simp add: call_with_timeout_def Let_def alike_def split: prod.split)

lemma stage_returned_alike: "alike s (fst (stage_returned sv i sid p s))"
  by (simp add: stage_returned_def Let_def alike_def split: option.split sum.split prod.split)

lemma stage_spawns_alike: "alike s (fst (stage_spawns sv i sid k sps s))"
  by (induction sv i sid k sps s rule: stage_spawns.induct) (fastforce simp: alike_def split: sum.splits prod.splits)+

lemma stage_children_alike: "alike s (fst (stage_children sv i sid sps s))"
  by (simp add: stage_children_def stage_spawns_alike) (simp add: alike_def)

lemma queue_send_alike: "alike s (fst (queue_send m s))"
  by (simp add: queue_send_def modifies_def alike_def)

lemma observe_alike: "alike s (fst (observe_event now c src s))"
  by (simp add: observe_event_def modifies_def alike_def split: option.split)

lemmas alike_rules = change_monitors_alike [THEN holds_alike] queue_receive_alike [THEN holds_alike] call_alike [THEN holds_alike]
  stage_returned_alike [THEN holds_alike] stage_children_alike [THEN holds_alike] queue_send_alike [THEN holds_alike]
  observe_alike [THEN holds_alike]

lemma enqueue_holds: "keeps (holds J B pol) (enqueue_ready now sid)"
  unfolding enqueue_ready_def send_to_queue_def by (intro keeps_rules alike_rules)

lemma trigger_plan_holds: "keeps (holds J B pol) (trigger_plan t st given)"
  unfolding trigger_plan_def by (cases t; cases given) (simp_all, (intro keeps_rules)+)

lemmas basic_rules = alike_rules enqueue_holds trigger_plan_holds

text \<open>An invariant of the graph and one of the mailboxes, through every action without a callable's attempt.\<close>

locale engine_writes = graph_invariant J + box_invariant B for J B
begin

lemma box_append_holds: "keeps (holds J B pol) (box_append now box conv event)"
  by (auto simp: keeps_def holds_def box_append_def intro: appended split: option.split sum.split prod.split)

lemma ack_holds: "keeps (holds J B pol) (apply_ack now a)"
  using acknowledged [of _ "''self''" _ now "ak_conversation a" "''runtime''" "ak_event_ids a" True]
  by (fastforce simp: keeps_def holds_def apply_ack_def own_box_def Let_def split: option.split prod.split)

lemma box_claim_holds: "keeps (holds J B pol) (box_claim now conv c n)"
  by (auto simp: keeps_def holds_def box_claim_def own_box_def intro: claimed split: option.split sum.split prod.split)

lemma box_claim_graph: "en_store (fst (box_claim now conv c n s)) = en_store s"
  by (simp add: box_claim_def split: option.split sum.split prod.split)

lemmas box_rules = box_append_holds ack_holds box_claim_holds

lemma created_holds: "keeps (holds J B pol) (create_running sv now t st key)"
  using created by (simp add: keeps_def holds_def create_running_def Let_def split_beta)

lemma expand_holds: "keeps (holds J B pol) (expand_into sv now sid p)"
  by (auto simp: keeps_def holds_def expand_into_def dest: expand_plan split: sum.splits)

lemma start_session_holds: "keeps (holds J B pol) (start_session sv now t st given key)"
  unfolding start_session_def Let_def
  by (intro keeps_rules basic_rules created_holds expand_holds holds_store)
    (auto intro: added linked link_all elim: completed [rotated])

lemma ensure_actor_holds: "keeps (holds J B pol) (ensure_actor sv now conv)"
  unfolding ensure_actor_def by (intro keeps_rules start_session_holds)

lemma ensure_actors_holds: "keeps (holds J B pol) (ensure_actors sv now)"
  unfolding ensure_actors_def by (intro keeps_rules ensure_actor_holds)

lemma wake_one_holds: "keeps (holds J B pol) (wake_one now e)"
proof -
  have "keeps (holds J B pol) (\<lambda>s. let (g, woken) = wake_execution (en_store s) (ex_id e) in (s\<lparr>en_store := g\<rparr>, Inr woken))"
    using woken by (simp add: keeps_def holds_def Let_def split_beta)
  then show ?thesis
    unfolding wake_one_def send_to_queue_def by (intro keeps_rules basic_rules)
qed

lemma wake_due_holds: "keeps (holds J B pol) (wake_due_waits now)"
  unfolding wake_due_waits_def by (intro keeps_rules wake_one_holds)

lemma tick_holds: "keeps (holds J B pol) (tick_monitors now)"
  unfolding tick_monitors_def fire_lapse_def by (intro keeps_rules basic_rules box_rules)

lemma effects_holds: "keeps (holds J B pol) (apply_effects sv now i ef)"
  unfolding apply_effects_def apply_publication_def Let_def
  by (intro keeps_rules basic_rules box_rules ensure_actors_holds wake_due_holds holds_store) (auto elim: effected [rotated])

lemma guarded_holds: "keeps (holds J B pol) (apply_effects_guarded sv now i ef)"
  unfolding apply_effects_guarded_def by (intro keeps_rules effects_holds)

lemma fail_and_notify_holds: "keeps (holds J B pol) (fail_and_notify now sid err)"
  unfolding fail_and_notify_def Let_def
  by (intro keeps_rules basic_rules box_rules wake_due_holds holds_store) (auto simp: fail_session_def elim: ended [rotated 2])

lemma give_up_holds: "keeps (holds J B pol) (aseq (store_do (\<lambda>g. mark_failed now g i err)) (fail_and_notify now sid err'))"
  by (intro keeps_rules fail_and_notify_holds holds_store) (auto elim: failed [rotated])

lemma finish_holds: "keeps (holds J B pol) (finish_session sv now i sid final r)"
  unfolding finish_session_def
  by (intro keeps_rules guarded_holds holds_store)
    (auto simp: complete_session_def elim: completed [rotated] commit_transition [rotated] ended [rotated 2])

lemma run_node_holds: "keeps (holds J B pol) (run_node sv now i sid obj input t)"
  unfolding run_node_def Let_def
  by (intro keeps_rules basic_rules guarded_holds holds_store) (auto elim: commit_transition [rotated])

lemma gate_holds: "keeps (holds J B pol) (execute_gate sv now e i sid)"
  unfolding execute_gate_def by (intro keeps_rules basic_rules finish_holds holds_store) (auto elim: completed [rotated])

lemma collect_holds: "keeps (holds J B pol) (collect_garbage sv now force)"
proof -
  have gc: "J g'" if "J g" "collect_terminal_sessions g p now = Inr (g', ds)" for g g' p ds
  proof -
    have "J (fst (g', ds))"
    proof (rule fold_res_invariant [where P = "\<lambda>acc. J (fst acc)"])
      show "fold_res gc_delete (g, []) (gc_selected p now (terminal_sessions g)) = Inr (g', ds)"
        using that(2) by (simp add: collect_terminal_sessions_def)
    qed (use that(1) in \<open>auto simp: gc_delete_def result_simps elim: deleted [rotated]\<close>)
    then show ?thesis by simp
  qed
  then show ?thesis
    by (fastforce simp: keeps_def holds_def collect_garbage_def split: option.splits sum.splits prod.splits)
qed

end

subsection \<open>Waiting executions\<close>

context engine_writes
begin

lemma execute_wait_holds:
  assumes "holds J B pol s" "get_execution (en_store s) i = Some e" "ex_status e = XPending"
  shows "holds J B pol (fst (execute_wait sv now e i sid s))"
proof -
  define w where "w = (case ex_policy e of None \<Rightarrow> None | Some p \<Rightarrow> po_wait p)"
  show ?thesis
  proof (cases "collect_input_state (en_store s) i")
    case (Inl x)
    then show ?thesis using assms(1) by (simp add: execute_wait_def abind_def)
  next
    case (Inr input)
    define conv where "conv = wait_conversation w input"
    show ?thesis
    proof (cases "conv = [] \<or> own_box s = None")
      case True
      from keepsD [OF give_up_holds assms(1)] show ?thesis
        using True by (simp add: execute_wait_def abind_def reads_def Inr Let_def conv_def w_def)
    next
      case False
      let ?c = "box_claim now conv (''wait:'' @ i) (case w of None \<Rightarrow> 20 | Some p \<Rightarrow> wp_limit p) s"
      have c: "holds J B pol (fst ?c)" and st: "en_store (fst ?c) = en_store s"
        using keepsD [OF box_claim_holds assms(1)] by (simp_all add: box_claim_graph)
      have commit: "keeps (holds J B pol) (store_do (\<lambda>g. commit_transition now g i sid r None [] ef []))" for r ef
        by (rule holds_store) (auto elim: commit_transition [rotated])
      have claimed: "keeps (holds J B pol) (aseq (store_do (\<lambda>g. commit_transition now g i sid r None [] (Some ef) []))
          (aseq (apply_effects_guarded sv now i ef) (enqueue_ready now sid)))" for r ef
        by (intro keeps_rules commit guarded_holds enqueue_holds)
      have timer: "keeps (holds J B pol) (aseq (store_do (\<lambda>g. commit_transition now g i sid r None [] None [])) (enqueue_ready now sid))" for r
        by (intro keeps_rules commit enqueue_holds)
      have park: "holds J B pol (fst (store_do (\<lambda>g. mark_waiting g i wk) (fst ?c)))" for wk
        using c st parked [of "en_store s" i e] assms(2,3) by (auto simp: holds_def store_do_def split: sum.splits)
      from False obtain mb where box: "own_box s = Some mb" by auto
      obtain s' r where sr: "?c = (s', r)" by fastforce
      show ?thesis
      proof (cases r)
        case (Inl x)
        then show ?thesis
          using False c sr by (simp add: execute_wait_def abind_def reads_def box Inr Let_def conv_def w_def)
      next
        case (Inr events)
        have wait: "execute_wait sv now e i sid s =
          (if events \<noteq> [] then aseq (store_do (\<lambda>g. commit_transition now g i sid (AList.update ''events'' (JList (map JObj events)) input) None []
                  (Some \<lparr>ef_acknowledge = [\<lparr>ak_conversation = conv, ak_event_ids = map (\<lambda>ev. str_of (dict_get ev ''event_id'' JNull)) events\<rparr>],
                    ef_publish = [], ef_arm = [], ef_disarm = []\<rparr>) []))
                (aseq (apply_effects_guarded sv now i \<lparr>ef_acknowledge = [\<lparr>ak_conversation = conv,
                    ak_event_ids = map (\<lambda>ev. str_of (dict_get ev ''event_id'' JNull)) events\<rparr>], ef_publish = [], ef_arm = [], ef_disarm = []\<rparr>)
                  (enqueue_ready now sid)) s'
           else let wake_at = wake_deadline now e (case w of None \<Rightarrow> None | Some p \<Rightarrow> wp_timeout p) in
             if (case wake_at of None \<Rightarrow> False | Some t \<Rightarrow> t \<le> now)
             then aseq (store_do (\<lambda>g. commit_transition now g i sid (AList.update ''events'' (JList [timer_mail (case w of None \<Rightarrow> None | Some p \<Rightarrow> wp_timeout p)]) input)
                    None [] None [])) (enqueue_ready now sid) s'
             else store_do (\<lambda>g. mark_waiting g i \<lparr>wk_conversation = conv, wk_at = wake_at\<rparr>) s')"
          using False sr Inr \<open>collect_input_state (en_store s) i = _\<close>
          by (simp add: execute_wait_def abind_def reads_def box Let_def conv_def w_def)
        have "holds J B pol s'" using c sr by simp
        note rest = keepsD [OF claimed this] keepsD [OF timer this] park [unfolded sr fst_conv]
        show ?thesis unfolding wait Let_def by (simp only: rest split: if_split) simp
      qed
    qed
  qed
qed

end

subsection \<open>Callables, messages and the main loop\<close>

text \<open>An invariant that the attempt of a callable keeps, its start and its retry included.\<close>

locale engine_invariant = engine_writes J B for J B +
  fixes pol :: "(string \<times> node_policy) list"
  assumes callable: "holds J B pol s \<Longrightarrow> get_execution (en_store s) i = Some e \<Longrightarrow> ex_status e = XPending
      \<Longrightarrow> holds J B pol (fst (execute_callable sv now e i sid obj s))"
begin

lemma execute_node_holds: "keeps (holds J B pol) (execute_node sv now i sid)"
  unfolding execute_node_def
proof (rule keeps_read_bind)
  fix s
  assume P: "holds J B pol s"
  have fin: "keeps (holds J B pol) (abind (\<lambda>s. (s, collect_input_state (en_store s) i)) (\<lambda>final. finish_session sv now i sid final []))"
    by (intro keeps_rules finish_holds)
  have merge: "keeps (holds J B pol) (abind (\<lambda>s. (s, collect_input_state (en_store s) i))
      (\<lambda>m. aseq (store_do (\<lambda>g. mark_completed now g i m)) (enqueue_ready now sid)))"
    by (intro keeps_rules enqueue_holds holds_store) (auto elim: completed [rotated])
  have send: "keeps (holds J B pol) (send_to_queue now i sid t)" for t
    unfolding send_to_queue_def by (rule alike_rules)
  show "holds J B pol (fst ((case get_execution (en_store s) i of
       None \<Rightarrow> ret ()
     | Some e \<Rightarrow>
         if ex_status e \<noteq> XPending then ret ()
         else if (case ex_retry_at e of None \<Rightarrow> False | Some t \<Rightarrow> t \<noteq> 0 \<and> now < t)
         then send_to_queue now i sid (ex_retry_at e)
         else if ex_name e = end_name then
           abind (\<lambda>s. (s, collect_input_state (en_store s) i)) (\<lambda>final.
             finish_session sv now i sid final [])
         else if starts_with gate_prefix (ex_name e) then execute_gate sv now e i sid
         else if ex_name e = wait_name then execute_wait sv now e i sid
         else if ex_name e = merge_name then
           abind (\<lambda>s. (s, collect_input_state (en_store s) i)) (\<lambda>merged.
             aseq (store_do (\<lambda>g. mark_completed now g i merged)) (enqueue_ready now sid))
         else abind (reads (\<lambda>s. map_of (en_registry s) (ex_name e))) (\<lambda>registered. case registered of
           None \<Rightarrow>
             let reason = ''Unknown node: '' @ ex_name e in
             aseq (store_do (\<lambda>g. mark_failed now g i (Some reason))) (fail_and_notify now sid (Some reason))
         | Some obj \<Rightarrow> execute_callable sv now e i sid obj)) s))"
  proof (cases "get_execution (en_store s) i")
    case None
    then show ?thesis using P by (simp add: ret_def)
  next
    case (Some e)
    show ?thesis
    proof (cases "ex_status e = XPending")
      case False
      then show ?thesis using P Some by (simp add: ret_def)
    next
      case True
      have "holds J B pol (fst (abind (reads (\<lambda>s. map_of (en_registry s) (ex_name e))) (\<lambda>registered. case registered of
           None \<Rightarrow>
             let reason = ''Unknown node: '' @ ex_name e in
             aseq (store_do (\<lambda>g. mark_failed now g i (Some reason))) (fail_and_notify now sid (Some reason))
         | Some obj \<Rightarrow> execute_callable sv now e i sid obj) s))"
        using keepsD [OF give_up_holds P] callable [OF P Some True]
        by (cases "map_of (en_registry s) (ex_name e)") (simp_all add: abind_def reads_def Let_def)
      then show ?thesis
        using Some True keepsD [OF send P] keepsD [OF fin P] keepsD [OF gate_holds P] execute_wait_holds [OF P Some True] keepsD [OF merge P]
        by (simp only: option.case if_True if_False not_True_eq_False True simp_thms split: if_split)
    qed
  qed
qed

lemma handle_message_holds: "keeps (holds J B pol) (handle_message sv now m)"
  unfolding handle_message_def
  by (cases "ms_body m") (simp_all, (intro keeps_rules impI conjI alike_rules start_session_holds execute_node_holds)+)

lemma process_messages_holds: "keeps (holds J B pol) (process_messages sv now ms)"
  unfolding process_messages_def process_message_def by (intro keeps_rules handle_message_holds alike_rules)

lemma run_batch_holds: "keeps (holds J B pol) (run_batch sv now ms)"
  unfolding run_batch_def
  by (intro keeps_rules process_messages_holds tick_holds ensure_actors_holds wake_due_holds collect_holds)

lemma run_once_holds: "keeps (holds J B pol) (graph_run_once sv now)"
  unfolding graph_run_once_def by (intro keeps_rules run_batch_holds basic_rules)

lemma run_turn_holds: "keeps (holds J B pol) (run_turn sv stop now)"
  unfolding run_turn_def
  by (intro keeps_rules run_batch_holds tick_holds ensure_actors_holds wake_due_holds collect_holds basic_rules)

lemma run_turns_holds: "keeps (holds J B pol) (run_turns sv stop clock fuel)"
proof (induction fuel arbitrary: clock)
  case 0
  then show ?case by (simp add: keeps_def)
next
  case (Suc fuel)
  show ?case
    using run_turn_holds [of sv stop "clock 0"] Suc [of "\<lambda>i. clock (Suc i)"]
    by (fastforce simp: keeps_def split: prod.splits sum.splits bool.splits)
qed

end

text \<open>An invariant that the start and the retry of an attempt keep by themselves, and so recovery too.\<close>

locale total_invariant = engine_writes J B for J B +
  assumes running: "J g \<Longrightarrow> mark_running now g i st = Inr g' \<Longrightarrow> J g'"
    and retrying: "J g \<Longrightarrow> mark_retrying g i err t = Inr g' \<Longrightarrow> J g'"
begin

lemma node_failed_holds: "keeps (holds J B pol) (node_failed now i sid n p x)"
proof -
  have again: "keeps (holds J B pol) (aseq (store_do (\<lambda>g. mark_retrying g i (Some r) t)) (send_to_queue now i sid t))" for r t
    unfolding send_to_queue_def by (intro keeps_rules alike_rules holds_store) (auto elim: retrying [rotated])
  show ?thesis unfolding node_failed_def Let_def by (cases x) (auto intro: keeps_if give_up_holds again)
qed

lemma callable_holds: "keeps (holds J B pol) (execute_callable sv now e i sid obj)"
  unfolding execute_callable_def
  by (intro keeps_rules run_node_holds node_failed_holds holds_store) (auto elim: running [rotated])

lemma recover_holds: "keeps (holds J B pol) (recover sv now)"
  unfolding recover_def recover_session_def replay_effects_def
  by (intro keeps_rules basic_rules guarded_holds tick_holds ensure_actors_holds wake_due_holds holds_store)
    (auto elim: retrying [rotated])

end

sublocale total_invariant \<subseteq> engine_invariant J B pol for pol
  by unfold_locales (rule keepsD [OF callable_holds])

subsection \<open>Runs\<close>

text \<open>What a client does with the engine, with the clock reading of the step
  (a run of several turns has its own readings); \<open>Recover\<close> is a restart of the worker.\<close>

datatype engine_op =
    StartSession start_trigger dict "plan option" "string option"
  | SendTrigger string dict "string option"
  | RunOnce
  | RunTurns bool "nat \<Rightarrow> rat" nat
  | Recover

definition void :: "(engine, 'a) act \<Rightarrow> engine \<Rightarrow> engine" where
  "void m s = fst (m s)"

fun engine_step :: "services \<Rightarrow> rat \<Rightarrow> engine_op \<Rightarrow> engine \<Rightarrow> engine" where
  "engine_step sv now (StartSession t st p key) = void (start_session sv now t st p key)"
| "engine_step sv now (SendTrigger t st key) = void (send_trigger now t st key)"
| "engine_step sv now RunOnce = void (graph_run_once sv now)"
| "engine_step sv now (RunTurns stop clock fuel) = void (run_turns sv stop clock fuel)"
| "engine_step sv now Recover = void (recover sv now)"

definition engine_run :: "services \<Rightarrow> (rat \<times> engine_op) list \<Rightarrow> engine \<Rightarrow> engine" where
  "engine_run sv ops s = foldl (\<lambda>s (now, op). engine_step sv now op s) s ops"

lemma engine_run_induct:
  "(\<And>now op s. (now, op) \<in> set ops \<Longrightarrow> P s \<Longrightarrow> P (engine_step sv now op s)) \<Longrightarrow> P s \<Longrightarrow> P (engine_run sv ops s)"
  unfolding engine_run_def by (induction ops arbitrary: s) auto

context engine_invariant
begin

lemma step_holds: "op \<noteq> Recover \<Longrightarrow> holds J B pol s \<Longrightarrow> holds J B pol (engine_step sv now op s)"
  by (cases op)
    (auto simp: void_def send_trigger_def intro: keepsD [OF start_session_holds] keepsD [OF holds_alike [OF queue_send_alike]] keepsD [OF run_once_holds] keepsD [OF run_turns_holds])

lemma run_holds: "\<forall>(now, op) \<in> set ops. op \<noteq> Recover \<Longrightarrow> holds J B pol s \<Longrightarrow> holds J B pol (engine_run sv ops s)"
  by (rule engine_run_induct) (auto intro: step_holds)

end

context total_invariant
begin

lemma total_run_holds: "holds J B pol s \<Longrightarrow> holds J B pol (engine_run sv ops s)"
proof (rule engine_run_induct)
  fix now op s
  assume "holds J B pol s"
  then show "holds J B pol (engine_step sv now op s)"
    by (cases "op = Recover") (auto simp: void_def intro: step_holds keepsD [OF recover_holds])
qed

end

end
