(* ===== verification/Graph_Properties.thy ===== *)
theory Graph_Properties
  imports Graph_Invariants
begin

text \<open>
  Invariants of the graph runtime, each shown of the primitive writes and carried to every run of the
  engine by interpretation: identifiers are consistent, a serial key has at most one running session and
  a callable is tried no more often than its policy allows.
\<close>

lemma set_update_sub: "x \<in> set (AList.update k v d) \<Longrightarrow> x = (k, v) \<or> x \<in> set d"
  by (induction d) (auto split: if_splits)

subsection \<open>Consistent identifiers\<close>

definition keys_ok :: "graph \<Rightarrow> bool" where
  "keys_ok g \<longleftrightarrow> dict_ok (gr_sessions g) \<and> dict_ok (gr_execs g) \<and> dict_ok (gr_edges g)
     \<and> (\<forall>(i, s) \<in> set (gr_sessions g). gs_id s = i \<and> (gs_status s = SRunning \<longleftrightarrow> gs_completed s = None))
     \<and> (\<forall>(i, e) \<in> set (gr_execs g). ex_id e = i)"

lemma keys_ok_empty: "keys_ok empty_graph"
  by (simp add: keys_ok_def empty_graph_def)

lemma dict_ok_filter: "dict_ok d \<Longrightarrow> dict_ok (filter P d)"
  by (simp add: dict_ok_def distinct_map_filter)

lemma keys_ok_sessions:
  "keys_ok g \<Longrightarrow> gs_id s = i \<Longrightarrow> gs_status s = SRunning \<longleftrightarrow> gs_completed s = None
     \<Longrightarrow> keys_ok (g\<lparr>gr_sessions := AList.update i s (gr_sessions g)\<rparr>)"
  by (fastforce simp: keys_ok_def dest: set_update_sub)

lemma keys_ok_execs: "keys_ok g \<Longrightarrow> ex_id e = i \<Longrightarrow> keys_ok (g\<lparr>gr_execs := AList.update i e (gr_execs g)\<rparr>)"
  by (fastforce simp: keys_ok_def dest: set_update_sub)

lemma keys_ok_exec_id: "keys_ok g \<Longrightarrow> map_of (gr_execs g) i = Some e \<Longrightarrow> ex_id e = i"
  by (auto simp: keys_ok_def dest: map_of_SomeD)

lemma keys_ok_session_id: "keys_ok g \<Longrightarrow> map_of (gr_sessions g) i = Some s \<Longrightarrow> gs_id s = i"
  by (auto simp: keys_ok_def dest: map_of_SomeD)

lemma keys_ok_change: "keys_ok g \<Longrightarrow> (\<And>e. ex_id (f e) = ex_id e) \<Longrightarrow> change_exec g i f = Inr g' \<Longrightarrow> keys_ok g'"
  by (auto simp: change_exec_def keys_ok_exec_id split: option.splits intro!: keys_ok_execs)

interpretation keys: total_invariant keys_ok "\<lambda>_. True"
proof unfold_locales
  fix g g' :: graph and b now fresh trigger st serial given status i sid name p err e w ef a c k t
  assume ok: "keys_ok g"
  show "keys_ok (fst (create_graph_session now fresh g trigger st serial given))"
    by (simp add: create_graph_session_def ok Let_def keys_ok_sessions)
  show "status \<noteq> SRunning \<Longrightarrow> end_session status now g i = Inr g' \<Longrightarrow> keys_ok g'"
    by (auto simp: end_session_def keys_ok_session_id [OF ok] split: option.splits intro!: keys_ok_sessions [OF ok])
  show "delete_terminal_session g i = Inr (g', b) \<Longrightarrow> keys_ok g'"
    using ok by (auto simp: delete_terminal_session_def keys_ok_def dict_ok_filter AList.delete_eq split: option.splits if_splits)
  show "keys_ok (add_execution now g sid name i p)"
    by (simp add: add_execution_def new_execution_def keys_ok_execs ok)
  show "mark_completed now g i st = Inr g' \<Longrightarrow> keys_ok g'"
    unfolding mark_completed_def by (rule keys_ok_change [OF ok]) auto
  show "mark_failed now g i err = Inr g' \<Longrightarrow> keys_ok g'"
    unfolding mark_failed_def by (rule keys_ok_change [OF ok]) auto
  show "get_execution g i = Some e \<Longrightarrow> ex_status e = XPending \<Longrightarrow> mark_waiting g i w = Inr g' \<Longrightarrow> keys_ok g'"
    unfolding mark_waiting_def by (rule keys_ok_change [OF ok]) auto
  show "keys_ok (fst (wake_execution g i))"
    using ok by (auto simp: wake_execution_def keys_ok_exec_id split: option.split intro!: keys_ok_execs)
  show "set_effects g i ef = Inr g' \<Longrightarrow> keys_ok g'"
    unfolding set_effects_def by (rule keys_ok_change [OF ok]) auto
  show "keys_ok (add_edge g sid a c k)" "keys_ok (remove_edge g a c)"
    using ok by (simp_all add: keys_ok_def add_edge_def remove_edge_def)
  show "mark_running now g i st = Inr g' \<Longrightarrow> keys_ok g'"
    unfolding mark_running_def by (rule keys_ok_change [OF ok]) auto
  show "mark_retrying g i err t = Inr g' \<Longrightarrow> keys_ok g'"
    unfolding mark_retrying_def by (rule keys_ok_change [OF ok]) auto
qed

subsection \<open>Serial keys\<close>

definition serial_ok :: "graph \<Rightarrow> bool" where
  "serial_ok g \<longleftrightarrow> (\<forall>i j s t k. map_of (gr_sessions g) i = Some s \<longrightarrow> map_of (gr_sessions g) j = Some t
     \<longrightarrow> gs_status s = SRunning \<longrightarrow> gs_status t = SRunning \<longrightarrow> gs_serial s = Some k \<longrightarrow> gs_serial t = Some k \<longrightarrow> i = j)"

lemma serial_ok_same: "gr_sessions g' = gr_sessions g \<Longrightarrow> serial_ok g' = serial_ok g"
  by (simp add: serial_ok_def)

lemma change_exec_sessions: "change_exec g i f = Inr g' \<Longrightarrow> gr_sessions g' = gr_sessions g"
  by (auto simp: change_exec_def split: option.splits)

lemma serial_free: "\<not> serial_taken g key \<Longrightarrow> map_of (gr_sessions g) i = Some s \<Longrightarrow> gs_status s = SRunning \<Longrightarrow> gs_serial s = Some k
    \<Longrightarrow> key \<noteq> Some k"
  by (auto simp: serial_taken_def list_ex_iff dest!: map_of_SomeD split: option.splits)

interpretation serial: total_invariant serial_ok "\<lambda>_. True"
proof unfold_locales
  fix g g' :: graph and b now fresh trigger st serial given status i sid name p err e w ef a c k t
  assume ok: "serial_ok g"
  show "serial_ok (fst (create_graph_session now fresh g trigger st serial given))"
    using ok by (auto simp: create_graph_session_def Let_def serial_ok_def dest: serial_free)
  show "status \<noteq> SRunning \<Longrightarrow> end_session status now g i = Inr g' \<Longrightarrow> serial_ok g'"
    using ok by (auto simp: end_session_def serial_ok_def split: option.splits if_splits)
  show "delete_terminal_session g i = Inr (g', b) \<Longrightarrow> serial_ok g'"
    using ok by (auto simp: delete_terminal_session_def serial_ok_def split: option.splits if_splits)
  show "mark_completed now g i st = Inr g' \<Longrightarrow> serial_ok g'" "mark_failed now g i err = Inr g' \<Longrightarrow> serial_ok g'"
    "mark_waiting g i w = Inr g' \<Longrightarrow> serial_ok g'" "set_effects g i ef = Inr g' \<Longrightarrow> serial_ok g'"
    "mark_running now g i st = Inr g' \<Longrightarrow> serial_ok g'" "mark_retrying g i err t = Inr g' \<Longrightarrow> serial_ok g'"
    using ok unfolding mark_completed_def mark_failed_def mark_waiting_def set_effects_def mark_running_def mark_retrying_def
    by (simp_all add: change_exec_sessions serial_ok_same [OF change_exec_sessions])
  show "serial_ok (fst (wake_execution g i))" "serial_ok (add_execution now g sid name i p)"
    "serial_ok (add_edge g sid a c k)" "serial_ok (remove_edge g a c)"
    using ok by (simp_all add: wake_execution_def add_execution_def add_edge_def remove_edge_def serial_ok_def split: option.split)
qed

subsection \<open>Attempts\<close>

text \<open>How often a callable may be tried: once unless its own or its registered policy says more.\<close>

definition tries :: "(string \<times> node_policy) list \<Rightarrow> execution \<Rightarrow> nat" where
  "tries pol e = nat (max 1 (case po_max_attempts (effective_policy (map_of pol (ex_name e)) (ex_policy e)) of None \<Rightarrow> 1 | Some m \<Rightarrow> m))"

lemma tries_pos [simp]: "0 < tries pol e"
  by (simp add: tries_def)

text \<open>A property of the single executions, so each write is checked on the execution it writes.\<close>

definition each_exec :: "(string \<Rightarrow> execution \<Rightarrow> bool) \<Rightarrow> graph \<Rightarrow> bool" where
  "each_exec Q g \<longleftrightarrow> dict_ok (gr_execs g) \<and> (\<forall>(i, e) \<in> set (gr_execs g). Q i e)"

lemma each_exec_update: "each_exec Q g \<Longrightarrow> Q i e \<Longrightarrow> each_exec Q (g\<lparr>gr_execs := AList.update i e (gr_execs g)\<rparr>)"
  by (fastforce simp: each_exec_def dest: set_update_sub)

lemma each_exec_change:
  "each_exec Q g \<Longrightarrow> (\<And>e. get_execution g i = Some e \<Longrightarrow> Q i e \<Longrightarrow> Q i (f e)) \<Longrightarrow> change_exec g i f = Inr g' \<Longrightarrow> each_exec Q g'"
  by (fastforce simp: change_exec_def get_execution_def each_exec_def split: option.splits dest: map_of_SomeD set_update_sub)

lemma each_exec_same: "gr_execs g' = gr_execs g \<Longrightarrow> each_exec Q g' = each_exec Q g"
  by (simp add: each_exec_def)

text \<open>A property of single executions that new ones have and the engine's changes keep.\<close>

locale exec_property =
  fixes Q :: "string \<Rightarrow> execution \<Rightarrow> bool"
  assumes new: "Q i (new_execution now i sid name p)"
    and closed: "Q i e \<Longrightarrow> status \<in> {XCompleted, XFailed} \<Longrightarrow> Q i (e\<lparr>ex_status := status, ex_result := r, ex_error := err, ex_completed := t\<rparr>)"
    and waits: "Q i e \<Longrightarrow> ex_status e = XPending \<Longrightarrow> Q i (e\<lparr>ex_status := XWaiting, ex_wake := w\<rparr>)"
    and wakes: "Q i e \<Longrightarrow> ex_status e = XWaiting \<Longrightarrow> Q i (e\<lparr>ex_status := XPending\<rparr>)"
    and effects: "Q i e \<Longrightarrow> Q i (e\<lparr>ex_effects := ef\<rparr>)"

sublocale exec_property \<subseteq> engine_writes "each_exec Q" "\<lambda>_. True"
proof unfold_locales
  fix g g' :: graph and b now fresh trigger st serial given status i sid name p err e w ef a c k
  assume ok: "each_exec Q g"
  show "each_exec Q (fst (create_graph_session now fresh g trigger st serial given))"
    using ok by (simp add: create_graph_session_def Let_def each_exec_def)
  show "end_session status now g i = Inr g' \<Longrightarrow> each_exec Q g'"
    using ok by (auto simp: end_session_def each_exec_def split: option.splits)
  show "delete_terminal_session g i = Inr (g', b) \<Longrightarrow> each_exec Q g'"
    using ok by (auto simp: delete_terminal_session_def each_exec_def dict_ok_filter split: option.splits if_splits)
  show "each_exec Q (add_execution now g sid name i p)"
    unfolding add_execution_def by (rule each_exec_update [OF ok new])
  show "mark_completed now g i st = Inr g' \<Longrightarrow> each_exec Q g'"
    unfolding mark_completed_def
  proof (rule each_exec_change [OF ok])
    fix e assume "Q i e"
    from closed [OF this, where status = XCompleted and r = "Some st" and err = "ex_error e" and t = "Some now"]
    show "Q i (e\<lparr>ex_status := XCompleted, ex_result := Some st, ex_completed := Some now\<rparr>)" by simp
  qed
  show "mark_failed now g i err = Inr g' \<Longrightarrow> each_exec Q g'"
    unfolding mark_failed_def by (rule each_exec_change [OF ok]) (auto intro: closed)
  show "each_exec Q (fst (wake_execution g i))"
    using ok by (auto simp: wake_execution_def split: option.split intro!: each_exec_update wakes)
      (auto simp: each_exec_def dest: map_of_SomeD)
  show "set_effects g i ef = Inr g' \<Longrightarrow> each_exec Q g'"
    unfolding set_effects_def by (rule each_exec_change [OF ok]) (auto intro: effects)
  show "each_exec Q (add_edge g sid a c k)" "each_exec Q (remove_edge g a c)"
    using ok by (simp_all add: each_exec_def add_edge_def remove_edge_def)
  assume e: "get_execution g i = Some e" "ex_status e = XPending"
  show "mark_waiting g i w = Inr g' \<Longrightarrow> each_exec Q g'"
    unfolding mark_waiting_def by (rule each_exec_change [OF ok]) (auto intro: waits simp: e)
qed

definition tried_well :: "(string \<times> node_policy) list \<Rightarrow> string \<Rightarrow> execution \<Rightarrow> bool" where
  "tried_well pol i e \<longleftrightarrow> ex_attempts e \<le> tries pol e \<and> (ex_status e \<in> {XPending, XWaiting} \<longrightarrow> ex_attempts e < tries pol e)"

text \<open>One execution, unless written anew, has the given name and policy and at most \<open>k\<close> attempts.\<close>

definition capped_at :: "string \<Rightarrow> nat \<Rightarrow> string \<Rightarrow> node_policy option \<Rightarrow> string \<Rightarrow> execution \<Rightarrow> bool" where
  "capped_at x k name p i e \<longleftrightarrow> i = x \<longrightarrow> ex_attempts e = 0 \<or> (ex_attempts e \<le> k \<and> ex_name e = name \<and> ex_policy e = p)"

interpretation tried: exec_property "tried_well pol" for pol
  by unfold_locales (auto simp: tried_well_def new_execution_def tries_def)

interpretation cap: exec_property "capped_at x k name p" for x k name p
  by unfold_locales (auto simp: capped_at_def new_execution_def)

subsection \<open>The attempt of a callable\<close>

lemma retry_keeps_tries:
  assumes tried: "each_exec (tried_well pol) g" and cap: "each_exec (capped_at i k name own) g"
    and more: "int k < (case po_max_attempts (effective_policy (map_of pol name) own) of None \<Rightarrow> 1 | Some m \<Rightarrow> m)"
    and retry: "mark_retrying g i err t = Inr g'"
  shows "each_exec (tried_well pol) g'"
proof (rule each_exec_change [OF tried _ retry [unfolded mark_retrying_def]])
  fix e
  assume e: "get_execution g i = Some e"
  then have "capped_at i k name own i e" using cap by (auto simp: each_exec_def get_execution_def dest: map_of_SomeD)
  then have "ex_attempts e < tries pol e"
    using more by (auto simp: capped_at_def tries_def)
  then show "tried_well pol i (e\<lparr>ex_status := XPending, ex_error := err, ex_retry_at := t\<rparr>)"
    by (simp add: tried_well_def tries_def)
qed

lemma failure_keeps_tries:
  assumes "holds (each_exec (tried_well pol)) (\<lambda>_. True) pol s" "holds (each_exec (capped_at i k (ex_name e) (ex_policy e))) (\<lambda>_. True) pol s"
  shows "holds (each_exec (tried_well pol)) (\<lambda>_. True) pol
    (fst (node_failed now i sid k (effective_policy (map_of pol (ex_name e)) (ex_policy e)) x s))"
proof -
  have again: "holds (each_exec (tried_well pol)) (\<lambda>_. True) pol
      (fst (aseq (store_do (\<lambda>g. mark_retrying g i err t)) (send_to_queue now i sid t) s))"
    if "int k < (case po_max_attempts (effective_policy (map_of pol (ex_name e)) (ex_policy e)) of None \<Rightarrow> 1 | Some m \<Rightarrow> m)" for err t
    using assms retry_keeps_tries [OF _ _ that, of "en_store s" i err t]
    by (auto simp: aseq_def abind_def store_do_def holds_def send_to_queue_def queue_send_def modifies_def split: sum.split)
  show ?thesis
    unfolding node_failed_def Let_def
    by (cases x) (auto intro: again keepsD [OF tried.give_up_holds assms(1)])
qed

lemma attempt_keeps_tries:
  assumes P: "holds (each_exec (tried_well pol)) (\<lambda>_. True) pol s" and e: "get_execution (en_store s) i = Some e" "ex_status e = XPending"
  shows "holds (each_exec (tried_well pol)) (\<lambda>_. True) pol (fst (execute_callable sv now e i sid obj s))"
proof (cases "collect_input_state (en_store s) i")
  case (Inl x)
  then show ?thesis using P by (simp add: execute_callable_def abind_def reads_def)
next
  case (Inr input)
  let ?p = "effective_policy (map_of pol (ex_name e)) (ex_policy e)"
  let ?e = "e\<lparr>ex_status := XRunning, ex_input := Some input, ex_attempts := Suc (ex_attempts e), ex_started := Some now\<rparr>"
  let ?g = "en_store s\<lparr>gr_execs := AList.update i ?e (gr_execs (en_store s))\<rparr>"
  let ?s = "s\<lparr>en_store := ?g\<rparr>"
  have run: "mark_running now (en_store s) i input = Inr ?g"
    using e(1) by (simp add: mark_running_def change_exec_def get_execution_def)
  have e': "tried_well pol i e" using P e(1) by (auto simp: holds_def each_exec_def get_execution_def dest: map_of_SomeD)
  have tried: "holds (each_exec (tried_well pol)) (\<lambda>_. True) pol ?s"
    using P each_exec_update [of "tried_well pol" "en_store s" i ?e] e' e(2) by (simp add: holds_def tried_well_def tries_def)
  have upd: "ex_attempts e2 = Suc (ex_attempts e) \<and> ex_name e2 = ex_name e \<and> ex_policy e2 = ex_policy e"
    if "(i, e2) \<in> set (AList.update i ?e (gr_execs (en_store s)))" for e2
    using P that by (auto simp: holds_def each_exec_def dict_ok_map_of)
  have capped: "holds (each_exec (capped_at i (Suc (ex_attempts e)) (ex_name e) (ex_policy e))) (\<lambda>_. True) pol ?s"
    using P by (auto simp: holds_def each_exec_def capped_at_def dest: upd)
  have eq: "execute_callable sv now e i sid obj s
      = catches (run_node sv now i sid obj input (po_timeout ?p)) (node_failed now i sid (Suc (ex_attempts e)) ?p) ?s"
    using P by (simp add: execute_callable_def abind_def reads_def aseq_def store_do_def Inr run holds_def)
  let ?r = "run_node sv now i sid obj input (po_timeout ?p) ?s"
  have "holds (each_exec (tried_well pol)) (\<lambda>_. True) pol (fst ?r)" "holds (each_exec (capped_at i (Suc (ex_attempts e)) (ex_name e) (ex_policy e))) (\<lambda>_. True) pol (fst ?r)"
    using keepsD [OF tried.run_node_holds tried] keepsD [OF cap.run_node_holds capped] .
  then show ?thesis
    unfolding eq catches_def by (cases ?r) (auto intro: failure_keeps_tries split: sum.split)
qed

interpretation tried: engine_invariant "each_exec (tried_well pol)" "\<lambda>_. True" pol for pol
  by unfold_locales (rule attempt_keeps_tries)

end
