(* ===== verification/Graph_SQL_Laws.thy ===== *)
theory Graph_SQL_Laws
  imports Graph_SQL Graph_Properties
begin

text \<open>
  The SQLite graph store refines the reference store: the tables related to a reference graph, one
  simulation lemma per method, and the refinement of whole runs, commits included.
\<close>

subsection \<open>Tables as dictionaries\<close>

definition session_dict :: "sql_graph \<Rightarrow> (string \<times> graph_session) list" where
  "session_dict db = map (\<lambda>s. (gs_id s, s)) (sq_sessions db)"

definition exec_dict :: "sql_graph \<Rightarrow> (string \<times> execution) list" where
  "exec_dict db = map (\<lambda>e. (ex_id e, e)) (sq_execs db)"

definition edge_dict :: "sql_graph \<Rightarrow> ((string \<times> string) \<times> edge) list" where
  "edge_dict db = map (\<lambda>r. ((er_from r, er_to r), \<lparr>ed_session = er_session r, ed_condition = er_condition r\<rparr>)) (sq_edges db)"

lemma find_map_of: "find (\<lambda>x. k x = i) xs = map_of (map (\<lambda>x. (k x, x)) xs) i"
  by (induction xs) auto

lemma session_find: "sql_get_session db i = map_of (session_dict db) i"
  by (simp add: sql_get_session_def session_dict_def find_map_of)

lemma exec_find: "sql_get_execution db i = map_of (exec_dict db) i"
  by (simp add: sql_get_execution_def exec_dict_def find_map_of)

lemma map_of_filter_dict:
  "dict_ok d \<Longrightarrow> map_of (filter P d) k = (case map_of d k of None \<Rightarrow> None | Some v \<Rightarrow> if P (k, v) then Some v else None)"
proof (induction d)
  case (Cons a d)
  have "map_of (filter P d) (fst a) = None" if "fst a \<notin> fst ` set d"
    using that by (auto simp: map_of_eq_None_iff)
  with Cons show ?case by (cases a) (auto simp: dict_ok_def)
qed simp

text \<open>A row changed in place, keeping its key.\<close>

lemma map_of_changed:
  assumes "\<And>x. k (f x) = k x"
  shows "map_of (map (\<lambda>x. (k x, x)) (map (\<lambda>x. if k x = i then f x else x) xs)) j
    = (if j = i then map_option f (map_of (map (\<lambda>x. (k x, x)) xs) i) else map_of (map (\<lambda>x. (k x, x)) xs) j)"
  using assms by (induction xs) auto

subsection \<open>The refinement relation\<close>

text \<open>A session's row drops the serial key when the session ends.\<close>

definition agrees :: "graph_session \<Rightarrow> graph_session \<Rightarrow> bool" where
  "agrees r s \<longleftrightarrow> r\<lparr>gs_serial := None\<rparr> = s\<lparr>gs_serial := None\<rparr> \<and> gs_serial r = (if gs_status s = SRunning then gs_serial s else None)"

definition sql_rel :: "sql_graph \<Rightarrow> graph \<Rightarrow> bool" where
  "sql_rel db g \<longleftrightarrow> dict_ok (session_dict db) \<and> dict_ok (exec_dict db) \<and> dict_ok (edge_dict db)
     \<and> (\<forall>i. rel_option agrees (map_of (session_dict db) i) (map_of (gr_sessions g) i))
     \<and> map_of (exec_dict db) = map_of (gr_execs g) \<and> map_of (edge_dict db) = map_of (gr_edges g)"

lemma rel_empty: "sql_rel sql_empty empty_graph"
  by (simp add: sql_rel_def sql_empty_def empty_graph_def session_dict_def exec_dict_def edge_dict_def)

lemma rel_get_session: "sql_rel db g \<Longrightarrow> (sql_get_session db i = None) = (get_session g i = None)"
  unfolding sql_rel_def session_find get_session_def
  by (metis option.rel_distinct(1) option.rel_distinct(2) option.exhaust)

subsection \<open>Executions and edges\<close>

lemma rel_update:
  assumes "sql_rel db g" and "\<And>e. ex_id (f e) = ex_id e" and "change_exec g i f = Inr g'"
  shows "sql_rel (sql_update db i f) g'"
proof -
  from assms(3) obtain e where e: "map_of (gr_execs g) i = Some e" and g': "g' = g\<lparr>gr_execs := AList.update i (f e) (gr_execs g)\<rparr>"
    by (auto simp: change_exec_def split: option.splits)
  let ?db = "sql_update db i f"
  have k: "map fst (exec_dict ?db) = map fst (exec_dict db)"
    by (simp add: exec_dict_def sql_update_def comp_def assms(2))
  have "map_of (exec_dict ?db) j = (if j = i then map_option f (map_of (exec_dict db) i) else map_of (exec_dict db) j)" for j
    using map_of_changed [of ex_id f i "sq_execs db" j] assms(2) by (simp add: exec_dict_def sql_update_def)
  with e assms(1) have "map_of (exec_dict ?db) = map_of (gr_execs g')"
    by (auto simp: g' sql_rel_def)
  moreover have "dict_ok (exec_dict ?db)" using assms(1) by (simp only: dict_ok_def k sql_rel_def)
  ultimately show ?thesis
    using assms(1) by (simp add: sql_rel_def g' sql_update_def session_dict_def edge_dict_def)
qed

lemma rel_wake:
  assumes "sql_rel db g"
  shows "sql_rel (fst (sql_wake_execution db i)) (fst (wake_execution g i))
    \<and> snd (sql_wake_execution db i) = snd (wake_execution g i)"
proof -
  let ?f = "\<lambda>e. if ex_status e = XWaiting then e\<lparr>ex_status := XPending\<rparr> else e"
  have up: "fst (sql_wake_execution db i) = sql_update db i ?f"
    by (simp add: sql_wake_execution_def sql_update_def)
  have snd: "snd (sql_wake_execution db i) = list_ex (\<lambda>e. ex_id e = i \<and> ex_status e = XWaiting) (sq_execs db)"
    by (simp add: sql_wake_execution_def)
  have ok: "dict_ok (exec_dict db)" and eq: "map_of (exec_dict db) = map_of (gr_execs g)" using assms by (simp_all add: sql_rel_def)
  have flag: "list_ex (\<lambda>e. ex_id e = i \<and> ex_status e = XWaiting) (sq_execs db)
      \<longleftrightarrow> (case map_of (exec_dict db) i of None \<Rightarrow> False | Some e \<Rightarrow> ex_status e = XWaiting)"
  proof -
    have "list_ex (\<lambda>e. ex_id e = i \<and> ex_status e = XWaiting) (sq_execs db) \<longleftrightarrow> (\<exists>e. (i, e) \<in> set (exec_dict db) \<and> ex_status e = XWaiting)"
      by (auto simp: list_ex_iff exec_dict_def)
    then show ?thesis using dict_ok_map_of [OF ok, of i] by (auto split: option.split)
  qed
  show ?thesis
  proof (cases "map_of (gr_execs g) i")
    case None
    then have "map (\<lambda>e. if ex_id e = i then ?f e else e) (sq_execs db) = sq_execs db"
      using eq map_of_eq_None_iff [of "exec_dict db" i] by (intro map_idI) (auto simp: exec_dict_def image_image)
    then have "sql_update db i ?f = db" by (simp add: sql_update_def)
    with None assms show ?thesis using flag eq snd by (simp add: up wake_execution_def)
  next
    case (Some e)
    have "change_exec g i ?f = Inr (g\<lparr>gr_execs := AList.update i (?f e) (gr_execs g)\<rparr>)" using Some by (simp add: change_exec_def)
    from rel_update [OF assms _ this] have r: "sql_rel (sql_update db i ?f) (g\<lparr>gr_execs := AList.update i (?f e) (gr_execs g)\<rparr>)" by simp
    show ?thesis
      using r flag eq Some snd unfolding up
      by (cases "ex_status e = XWaiting") (simp_all add: wake_execution_def update_triv)
  qed
qed

lemma rel_add_execution:
  assumes "sql_rel db g" and "sql_add_execution now db sid name i p = Inr db'"
  shows "sql_rel db' (add_execution now g sid name i p)"
proof -
  from assms(2) have new: "i \<notin> ex_id ` set (sq_execs db)" and db': "db' = db\<lparr>sq_execs := sq_execs db @ [new_execution now i sid name p]\<rparr>"
    by (auto simp: sql_add_execution_def list_ex_iff split: if_splits)
  have "exec_dict db' = exec_dict db @ [(i, new_execution now i sid name p)]"
    by (simp add: db' exec_dict_def new_execution_def)
  moreover have "map_of (exec_dict db) i = None" using new by (auto simp: exec_dict_def map_of_eq_None_iff)
  ultimately show ?thesis
    using assms(1) new
    by (auto simp: sql_rel_def add_execution_def db' session_dict_def edge_dict_def dict_ok_def exec_dict_def map_add_def fun_eq_iff split: option.split)
qed

lemma rel_remove_edge:
  assumes "sql_rel db g"
  shows "sql_rel (sql_remove_edge db a b) (remove_edge g a b)"
proof -
  have e: "edge_dict (sql_remove_edge db a b) = filter (\<lambda>(k, v). k \<noteq> (a, b)) (edge_dict db)"
    by (auto simp: edge_dict_def sql_remove_edge_def filter_map comp_def intro!: arg_cong [where f = "map _"] filter_cong)
  have ok: "dict_ok (edge_dict db)" using assms by (simp add: sql_rel_def)
  have "map_of (edge_dict (sql_remove_edge db a b)) = (map_of (edge_dict db))((a, b) := None)"
    unfolding e map_of_filter_dict [OF ok] by (auto simp: fun_eq_iff map_of_filter_dict [OF ok] split: option.split)
  then show ?thesis
    using assms ok e dict_ok_filter [OF ok]
    by (simp add: sql_rel_def remove_edge_def) (simp add: sql_remove_edge_def session_dict_def exec_dict_def)
qed

lemma rel_add_edge:
  assumes "sql_rel db g" and "sql_add_edge db sid a b c = Inr db'"
  shows "sql_rel db' (add_edge g sid a b c)"
proof -
  let ?v = "\<lparr>ed_session = sid, ed_condition = c\<rparr>" and ?db = "sql_remove_edge db a b"
  from assms(2) have db': "db' = ?db\<lparr>sq_edges := sq_edges ?db @ [\<lparr>er_session = sid, er_from = a, er_to = b, er_condition = c\<rparr>]\<rparr>"
    by (auto simp: sql_add_edge_def sql_remove_edge_def split: if_splits)
  from rel_remove_edge [OF assms(1)] have r: "sql_rel ?db (remove_edge g a b)" .
  then have m: "map_of (edge_dict ?db) = (map_of (gr_edges g))((a, b) := None)" by (simp add: sql_rel_def remove_edge_def)
  have e: "edge_dict db' = edge_dict ?db @ [((a, b), ?v)]" by (simp add: db' edge_dict_def)
  have "(a, b) \<notin> fst ` set (edge_dict ?db)" using m map_of_eq_None_iff [of "edge_dict ?db" "(a, b)"] by simp
  then have "dict_ok (edge_dict db')" using r by (simp add: e dict_ok_def sql_rel_def)
  moreover have "map_of (edge_dict db') = (map_of (gr_edges g))((a, b) \<mapsto> ?v)"
    by (auto simp: e m map_add_def fun_eq_iff split: option.split)
  ultimately show ?thesis
    using r by (simp add: sql_rel_def add_edge_def remove_edge_def) (simp add: db' session_dict_def exec_dict_def)
qed

subsection \<open>Sessions\<close>

lemma rel_session:
  "sql_rel db g \<Longrightarrow> map_of (gr_sessions g) i = Some s \<Longrightarrow> \<exists>r. map_of (session_dict db) i = Some r \<and> agrees r s"
  unfolding sql_rel_def by (metis option_rel_Some2)

lemma rel_row:
  "sql_rel db g \<Longrightarrow> map_of (session_dict db) i = Some r \<Longrightarrow> \<exists>s. map_of (gr_sessions g) i = Some s \<and> agrees r s"
  unfolding sql_rel_def by (metis option_rel_Some1)

lemma agrees_status: "agrees r s \<Longrightarrow> gs_status r = gs_status s \<and> gs_id r = gs_id s \<and> gs_completed r = gs_completed s \<and> gs_state r = gs_state s"
  by (cases r; cases s) (simp add: agrees_def)

lemma rel_conflict:
  assumes "sql_rel db g" and "keys_ok g"
  shows "session_conflict db i serial \<longleftrightarrow> map_of (gr_sessions g) i \<noteq> None \<or> serial_taken g serial"
proof -
  have ok: "dict_ok (session_dict db)" "dict_ok (gr_sessions g)" using assms by (simp_all add: sql_rel_def keys_ok_def)
  have rows: "r \<in> set (sq_sessions db) \<longleftrightarrow> map_of (session_dict db) (gs_id r) = Some r" for r
    using dict_ok_map_of [OF ok(1), of "gs_id r" r] by (auto simp: session_dict_def)
  have id: "(\<exists>r \<in> set (sq_sessions db). gs_id r = i) \<longleftrightarrow> map_of (gr_sessions g) i \<noteq> None"
  proof
    assume "\<exists>r \<in> set (sq_sessions db). gs_id r = i"
    then obtain r where "map_of (session_dict db) i = Some r" using rows by blast
    from rel_row [OF assms(1) this] show "map_of (gr_sessions g) i \<noteq> None" by auto
  next
    assume "map_of (gr_sessions g) i \<noteq> None"
    then obtain s where "map_of (gr_sessions g) i = Some s" by blast
    from rel_session [OF assms(1) this] obtain r where "map_of (session_dict db) i = Some r" by blast
    then have "(i, r) \<in> set (session_dict db)" using dict_ok_map_of [OF ok(1)] by blast
    then show "\<exists>r \<in> set (sq_sessions db). gs_id r = i" by (auto simp: session_dict_def)
  qed
  have key: "(\<exists>r \<in> set (sq_sessions db). gs_serial r = Some k) \<longleftrightarrow> serial_taken g (Some k)" for k
  proof
    assume "\<exists>r \<in> set (sq_sessions db). gs_serial r = Some k"
    then obtain r where r: "map_of (session_dict db) (gs_id r) = Some r" "gs_serial r = Some k" using rows by blast
    from rel_row [OF assms(1) r(1)] obtain s where s: "map_of (gr_sessions g) (gs_id r) = Some s" "agrees r s" by blast
    with r(2) have "gs_serial s = Some k \<and> gs_status s = SRunning" by (auto simp: agrees_def split: if_splits)
    with map_of_SomeD [OF s(1)] show "serial_taken g (Some k)" by (auto simp: serial_taken_def list_ex_iff)
  next
    assume "serial_taken g (Some k)"
    then obtain j s where s: "map_of (gr_sessions g) j = Some s" "gs_serial s = Some k" "gs_status s = SRunning"
      using dict_ok_map_of [OF ok(2)] by (auto simp: serial_taken_def list_ex_iff)
    from rel_session [OF assms(1) s(1)] obtain r where r: "map_of (session_dict db) j = Some r" "agrees r s" by blast
    then have "(j, r) \<in> set (session_dict db)" "gs_serial r = Some k" using dict_ok_map_of [OF ok(1)] s by (auto simp: agrees_def)
    then show "\<exists>r \<in> set (sq_sessions db). gs_serial r = Some k" by (auto simp: session_dict_def)
  qed
  have "session_conflict db i serial \<longleftrightarrow> (\<exists>r \<in> set (sq_sessions db). gs_id r = i)
      \<or> (case serial of None \<Rightarrow> False | Some k \<Rightarrow> \<exists>r \<in> set (sq_sessions db). gs_serial r = Some k)"
    by (cases serial) (auto simp: session_conflict_def list_ex_iff)
  then show ?thesis unfolding id key by (cases serial) (simp_all add: serial_taken_def)
qed

lemma rel_new_session:
  assumes "sql_rel db g" and "map_of (gr_sessions g) (gs_id s) = None" and "gs_status s = SRunning"
  shows "sql_rel (db\<lparr>sq_sessions := sq_sessions db @ [s]\<rparr>) (g\<lparr>gr_sessions := AList.update (gs_id s) s (gr_sessions g)\<rparr>)"
proof -
  let ?db = "db\<lparr>sq_sessions := sq_sessions db @ [s]\<rparr>"
  have d: "session_dict ?db = session_dict db @ [(gs_id s, s)]" by (simp add: session_dict_def)
  have n: "map_of (session_dict db) (gs_id s) = None" using assms(1,2) by (auto simp: sql_rel_def dest: spec [of _ "gs_id s"])
  then have "gs_id s \<notin> fst ` set (session_dict db)" by (simp add: map_of_eq_None_iff)
  then have "dict_ok (session_dict ?db)" using assms(1) by (simp add: d dict_ok_def sql_rel_def)
  moreover have "map_of (session_dict ?db) i = (if i = gs_id s then Some s else map_of (session_dict db) i)" for i
    using n by (simp add: d map_add_def split: option.split)
  then have "rel_option agrees (map_of (session_dict ?db) i) (((map_of (gr_sessions g))(gs_id s \<mapsto> s)) i)" for i
    using assms by (simp add: sql_rel_def agrees_def)
  ultimately show ?thesis
    using assms(1) by (simp add: sql_rel_def) (simp add: exec_dict_def edge_dict_def)
qed

lemma rel_create:
  assumes "sql_rel db g" and "keys_ok g" and "given = None \<longrightarrow> map_of (gr_sessions g) fresh = None"
  shows "sql_rel (fst (sql_create_session now fresh db t st serial given)) (fst (create_graph_session now fresh g t st serial given))
    \<and> snd (sql_create_session now fresh db t st serial given) = snd (create_graph_session now fresh g t st serial given)"
proof -
  let ?i = "case given of None \<Rightarrow> fresh | Some i \<Rightarrow> i"
  let ?s = "\<lparr>gs_id = ?i, gs_trigger = t, gs_status = SRunning, gs_state = st, gs_serial = serial, gs_created = now, gs_completed = None\<rparr>"
  have c: "session_conflict db ?i serial \<longleftrightarrow> serial_taken g serial \<or> (case given of None \<Rightarrow> False | Some i \<Rightarrow> map_of (gr_sessions g) i \<noteq> None)"
    using rel_conflict [OF assms(1,2), of ?i serial] assms(3) by (cases given) auto
  show ?thesis
  proof (cases "session_conflict db ?i serial")
    case True
    then show ?thesis using c assms(1) by (auto simp: sql_create_session_def create_graph_session_def)
  next
    case False
    then have "map_of (gr_sessions g) ?i = None" using rel_conflict [OF assms(1,2), of ?i serial] by simp
    with rel_new_session [OF assms(1), of ?s] False c show ?thesis
      by (auto simp: sql_create_session_def create_graph_session_def Let_def)
  qed
qed

lemma rel_end:
  assumes "sql_rel db g" and "status \<noteq> SRunning" and "end_session status now g i = Inr g'"
  shows "sql_rel (sql_end_session status now db i) g'"
proof -
  let ?f = "\<lambda>s. s\<lparr>gs_status := status, gs_completed := Some now, gs_serial := None\<rparr>"
  let ?db = "sql_end_session status now db i"
  from assms(3) obtain s where s: "map_of (gr_sessions g) i = Some s"
    and g': "g' = g\<lparr>gr_sessions := AList.update i (s\<lparr>gs_status := status, gs_completed := Some now\<rparr>) (gr_sessions g)\<rparr>"
    by (auto simp: end_session_def split: option.splits)
  have k: "map fst (session_dict ?db) = map fst (session_dict db)" by (simp add: session_dict_def sql_end_session_def comp_def)
  have m: "map_of (session_dict ?db) j = (if j = i then map_option ?f (map_of (session_dict db) i) else map_of (session_dict db) j)" for j
    using map_of_changed [of gs_id ?f i "sq_sessions db" j] by (simp add: session_dict_def sql_end_session_def)
  from rel_session [OF assms(1) s] obtain r where r: "map_of (session_dict db) i = Some r" "agrees r s" by blast
  then have "agrees (?f r) (s\<lparr>gs_status := status, gs_completed := Some now\<rparr>)"
    using assms(2) by (cases r; cases s) (simp add: agrees_def)
  with r assms(1) have "rel_option agrees (map_of (session_dict ?db) j) (map_of (gr_sessions g') j)" for j
    by (simp add: m g' sql_rel_def)
  moreover have "dict_ok (session_dict ?db)" using assms(1) by (simp only: dict_ok_def k sql_rel_def)
  ultimately show ?thesis
    using assms(1) by (simp add: sql_rel_def g') (simp add: sql_end_session_def exec_dict_def edge_dict_def)
qed

lemma rel_delete:
  assumes "sql_rel db g" and "keys_ok g"
  shows "case (sql_delete_terminal_session db i, delete_terminal_session g i) of
      (Inr (db', b), Inr (g', b')) \<Rightarrow> sql_rel db' g' \<and> b = b' | (Inl e, Inl e') \<Rightarrow> e = e' | _ \<Rightarrow> False"
proof (cases "map_of (gr_sessions g) i")
  case None
  with assms(1) have "map_of (session_dict db) i = None" by (auto simp: sql_rel_def dest: spec [of _ i])
  with None assms(1) show ?thesis by (simp add: sql_delete_terminal_session_def delete_terminal_session_def session_find)
next
  case (Some s)
  from rel_session [OF assms(1) Some] obtain r where r: "map_of (session_dict db) i = Some r" "agrees r s" by blast
  note st = agrees_status [OF r(2)]
  show ?thesis
  proof (cases "gs_status s = SRunning")
    case True
    with Some r(1) st show ?thesis by (simp add: sql_delete_terminal_session_def delete_terminal_session_def session_find)
  next
    case False
    let ?db = "\<lparr>sq_sessions = filter (\<lambda>s. gs_id s \<noteq> i) (sq_sessions db), sq_execs = filter (\<lambda>e. ex_session e \<noteq> i) (sq_execs db),
      sq_edges = filter (\<lambda>e. er_session e \<noteq> i) (sq_edges db)\<rparr>"
    let ?g = "\<lparr>gr_sessions = AList.delete i (gr_sessions g), gr_execs = filter (\<lambda>(k, e). ex_session e \<noteq> i) (gr_execs g),
      gr_edges = filter (\<lambda>(k, e). ed_session e \<noteq> i) (gr_edges g)\<rparr>"
    have d: "session_dict ?db = filter (\<lambda>(j, s). j \<noteq> i) (session_dict db)" "exec_dict ?db = filter (\<lambda>(k, e). ex_session e \<noteq> i) (exec_dict db)"
      "edge_dict ?db = filter (\<lambda>(k, e). ed_session e \<noteq> i) (edge_dict db)"
      by (simp_all add: session_dict_def exec_dict_def edge_dict_def filter_map comp_def)
    have ok: "dict_ok (session_dict db)" "dict_ok (exec_dict db)" "dict_ok (edge_dict db)" "dict_ok (gr_execs g)" "dict_ok (gr_edges g)"
      using assms by (simp_all add: sql_rel_def keys_ok_def)
    have "rel_option agrees (map_of (session_dict ?db) j) (map_of (gr_sessions ?g) j)" for j
      using assms(1) unfolding d map_of_filter_dict [OF ok(1)]
      by (cases "map_of (session_dict db) j") (auto simp: sql_rel_def dest: spec [of _ j])
    moreover have "map_of (exec_dict ?db) = map_of (gr_execs ?g)" "map_of (edge_dict ?db) = map_of (gr_edges ?g)"
      using assms(1) by (simp_all add: d fun_eq_iff map_of_filter_dict ok sql_rel_def)
    ultimately have "sql_rel ?db ?g"
      unfolding sql_rel_def using ok by (simp add: d dict_ok_filter del: map_of_delete)
    then show ?thesis
      using Some r(1) st False by (simp add: sql_delete_terminal_session_def delete_terminal_session_def session_find)
  qed
qed

subsection \<open>Commits\<close>

lemma fold_rel:
  assumes "fold_res f db xs = Inr db'" and "R db g" and "\<And>x db g db'. x \<in> set xs \<Longrightarrow> f db x = Inr db' \<Longrightarrow> R db g \<Longrightarrow> R db' (h g x)"
  shows "R db' (foldl h g xs)"
  using assms
proof (induction xs arbitrary: db g)
  case (Cons x xs)
  from Cons.prems(1) obtain db1 where f: "f db x = Inr db1" "fold_res f db1 xs = Inr db'" by (auto simp: result_simps)
  show ?case
    using Cons.IH [OF f(2) Cons.prems(3) [OF _ f(1) Cons.prems(2)]] Cons.prems(3) by simp
qed (simp add: fold_res.simps)

lemma rel_write_execs: "sql_write_execs now sid es db = Inr db' \<Longrightarrow> sql_rel db g \<Longrightarrow> sql_rel db' (write_execs now sid es g)"
  unfolding sql_write_execs_def write_execs_def by (erule fold_rel [where R = sql_rel]) (auto intro: rel_add_execution)

lemma rel_write_edges: "sql_write_edges sid es db = Inr db' \<Longrightarrow> sql_rel db g \<Longrightarrow> sql_rel db' (write_edges sid es g)"
  unfolding sql_write_edges_def write_edges_def by (erule fold_rel [where R = sql_rel]) (auto intro: rel_add_edge)

lemma rel_remove_edges: "sql_rel db g \<Longrightarrow> sql_rel (foldl (\<lambda>db (c, k). sql_remove_edge db i c) db cs) (remove_edges i cs g)"
  unfolding remove_edges_def by (induction cs arbitrary: db g) (auto intro: rel_remove_edge)

lemma rel_splice:
  assumes "sql_splice now db i sid sp cs = Inr db'" and "sql_rel db g"
  shows "sql_rel db' (splice now g i sid sp cs)"
proof -
  from assms(1) obtain db1 db2 db3 where w: "sql_write_execs now sid (sl_execs sp) db = Inr db1" "sql_write_edges sid (sl_edges sp) db1 = Inr db2"
    and l: "fold_res (\<lambda>db s. sql_add_edge db sid i s None) (foldl (\<lambda>db (c, k). sql_remove_edge db i c) db2 cs) (sl_starts sp) = Inr db3"
    and c: "fold_res (\<lambda>db (c, k). sql_add_edge db sid (sl_end sp) c k) db3 cs = Inr db'"
    by (auto simp: sql_splice_def result_simps)
  have "sql_rel db2 (apply_staged now g sid sp)"
    unfolding apply_staged_def by (rule rel_write_edges [OF w(2) rel_write_execs [OF w(1) assms(2)]])
  note e = rel_remove_edges [OF this]
  have l': "sql_rel db3 (link_all sid i (sl_starts sp) (remove_edges i cs (apply_staged now g sid sp)))"
    unfolding link_all_def by (rule fold_rel [where R = sql_rel, OF l e]) (rule rel_add_edge)
  show ?thesis
    unfolding splice_def link_children_def by (rule fold_rel [where R = sql_rel, OF c l']) (auto intro: rel_add_edge)
qed

lemma rel_mark_completed: "sql_rel db g \<Longrightarrow> mark_completed now g i st = Inr g' \<Longrightarrow> sql_rel (sql_mark_completed now db i st) g'"
  unfolding mark_completed_def sql_mark_completed_def by (rule rel_update) simp_all

lemma rel_set_effects: "sql_rel db g \<Longrightarrow> set_effects g i ef = Inr g' \<Longrightarrow> sql_rel (sql_set_effects db i ef) g'"
  unfolding set_effects_def sql_set_effects_def by (rule rel_update) simp_all

lemma rel_spawn:
  assumes "sql_rel db g \<and> keys_ok g" and "sql_commit_spawn now db child = Inr db'" and "commit_spawn now g child = Inr g'"
  shows "sql_rel db' g' \<and> keys_ok g'"
proof (cases "get_session g (ss_id child) = None")
  case False
  with assms rel_get_session [of db g "ss_id child"] show ?thesis by (simp add: sql_commit_spawn_def commit_spawn_def)
next
  case True
  let ?db0 = "fst (sql_create_session now [] db (ss_trigger child) (ss_state child) None (Some (ss_id child)))"
  let ?g0 = "fst (create_graph_session now [] g (ss_trigger child) (ss_state child) None (Some (ss_id child)))"
  from True assms(1,2) rel_get_session [of db g "ss_id child"] obtain db1 db2 db3 db4 where
    x: "sql_add_execution now ?db0 (ss_id child) head_name (ss_head child) None = Inr db1"
      "sql_add_execution now db1 (ss_id child) end_name (ss_end child) None = Inr db2"
      "sql_write_execs now (ss_id child) (ss_execs child) db2 = Inr db3"
      "sql_write_edges (ss_id child) (ss_edges child) db3 = Inr db4"
      "db' = sql_mark_completed now db4 (ss_head child) (ss_state child)"
    by (auto simp: sql_commit_spawn_def result_simps)
  have "sql_rel ?db0 ?g0" using rel_create [of db g "Some (ss_id child)"] assms(1) by simp
  from rel_write_edges [OF x(4) rel_write_execs [OF x(3) rel_add_execution [OF rel_add_execution [OF this x(1)] x(2)]]]
  have "sql_rel db' g'" using True assms(3) by (auto simp: commit_spawn_def Let_def x(5) intro: rel_mark_completed)
  moreover have "keys_ok g'" using assms(1,3) by (auto intro: keys.commit_spawn)
  ultimately show ?thesis ..
qed

lemma rel_spawns:
  "fold_res (sql_commit_spawn now) db cs = Inr db' \<Longrightarrow> fold_res (commit_spawn now) g cs = Inr g' \<Longrightarrow> sql_rel db g \<and> keys_ok g
     \<Longrightarrow> sql_rel db' g' \<and> keys_ok g'"
proof (induction cs arbitrary: db g)
  case (Cons c cs)
  then obtain db1 g1 where s: "sql_commit_spawn now db c = Inr db1" "fold_res (sql_commit_spawn now) db1 cs = Inr db'"
    "commit_spawn now g c = Inr g1" "fold_res (commit_spawn now) g1 cs = Inr g'" by (auto simp: result_simps)
  show ?case by (rule Cons.IH [OF s(2,4) rel_spawn [OF Cons.prems(3) s(1,3)]])
qed simp

lemma rel_commit:
  assumes "sql_rel db g" and "keys_ok g" and "sql_commit_writes now i sid r staged cs ef spawns db = Inr db'"
    and "commit_transition now g i sid r staged cs ef spawns = Inr g'"
  shows "sql_rel db' g'"
proof -
  let ?g1 = "case staged of None \<Rightarrow> g | Some sp \<Rightarrow> splice now g i sid sp cs"
  from assms(3) obtain db1 db2 where d: "(case staged of None \<Rightarrow> Inr db | Some sp \<Rightarrow> sql_splice now db i sid sp cs) = Inr db1"
    "fold_res (sql_commit_spawn now) db1 spawns = Inr db2"
    "db' = sql_mark_completed now (case ef of None \<Rightarrow> db2 | Some e \<Rightarrow> sql_set_effects db2 i (Some e)) i r"
    by (auto simp: sql_commit_writes_def result_simps)
  from assms(4) obtain g2 g3 where g: "fold_res (commit_spawn now) ?g1 spawns = Inr g2"
    "(case ef of None \<Rightarrow> Inr g2 | Some e \<Rightarrow> set_effects g2 i (Some e)) = Inr g3" "mark_completed now g3 i r = Inr g'"
    by (auto simp: commit_transition_def result_simps Let_def)
  have "sql_rel db1 ?g1" using d(1) assms(1) rel_splice by (cases staged) auto
  moreover have "keys_ok ?g1" using keys.splice [OF assms(2)] assms(2) by (simp split: option.split)
  ultimately have "sql_rel db2 g2" using rel_spawns [OF d(2) g(1)] by blast
  then have "sql_rel (case ef of None \<Rightarrow> db2 | Some e \<Rightarrow> sql_set_effects db2 i (Some e)) g3"
    using g(2) rel_set_effects by (cases ef) auto
  then show ?thesis unfolding d(3) using g(3) by (rule rel_mark_completed)
qed

subsection \<open>Runs of both stores\<close>

datatype graph_op =
    CreateOp rat string string dict "string option" "string option"
  | EndOp bool rat string
  | DeleteOp string
  | AddExecutionOp rat string string string "node_policy option"
  | RunningOp rat string dict
  | CompletedOp rat string dict
  | RetryingOp string "string option" "rat option"
  | FailedOp rat string "string option"
  | WaitingOp string wake
  | WakeOp string
  | EffectsOp string "effects option"
  | AddEdgeOp string string string "string option"
  | RemoveEdgeOp string string
  | CommitOp rat string string dict "staged_plan option" "(string \<times> string option) list" "effects option" "staged_session list"

datatype answer = Done | Created "string option" | Flag bool

definition finished :: "'g res \<Rightarrow> ('g \<times> answer) res" where
  "finished r = rbind r (\<lambda>g. Inr (g, Done))"

fun ref_step :: "graph_op \<Rightarrow> graph \<Rightarrow> (graph \<times> answer) res" where
  "ref_step (CreateOp now fresh t st serial given) g =
     (let (g', a) = create_graph_session now fresh g t st serial given in Inr (g', Created a))"
| "ref_step (EndOp ok now i) g = finished (if ok then complete_session now g i else fail_session now g i)"
| "ref_step (DeleteOp i) g = rbind (delete_terminal_session g i) (\<lambda>(g', b). Inr (g', Flag b))"
| "ref_step (AddExecutionOp now sid name i p) g = Inr (add_execution now g sid name i p, Done)"
| "ref_step (RunningOp now i st) g = finished (mark_running now g i st)"
| "ref_step (CompletedOp now i st) g = finished (mark_completed now g i st)"
| "ref_step (RetryingOp i err t) g = finished (mark_retrying g i err t)"
| "ref_step (FailedOp now i err) g = finished (mark_failed now g i err)"
| "ref_step (WaitingOp i w) g = finished (mark_waiting g i w)"
| "ref_step (WakeOp i) g = (let (g', b) = wake_execution g i in Inr (g', Flag b))"
| "ref_step (EffectsOp i ef) g = finished (set_effects g i ef)"
| "ref_step (AddEdgeOp sid a b c) g = Inr (add_edge g sid a b c, Done)"
| "ref_step (RemoveEdgeOp a b) g = Inr (remove_edge g a b, Done)"
| "ref_step (CommitOp now i sid r staged cs ef spawns) g = finished (commit_transition now g i sid r staged cs ef spawns)"

fun sql_step :: "graph_op \<Rightarrow> sql_graph \<Rightarrow> (sql_graph \<times> answer) res" where
  "sql_step (CreateOp now fresh t st serial given) db =
     (let (db', a) = sql_create_session now fresh db t st serial given in Inr (db', Created a))"
| "sql_step (EndOp ok now i) db = Inr (if ok then sql_complete_session now db i else sql_fail_session now db i, Done)"
| "sql_step (DeleteOp i) db = rbind (sql_delete_terminal_session db i) (\<lambda>(db', b). Inr (db', Flag b))"
| "sql_step (AddExecutionOp now sid name i p) db = finished (sql_add_execution now db sid name i p)"
| "sql_step (RunningOp now i st) db = Inr (sql_mark_running now db i st, Done)"
| "sql_step (CompletedOp now i st) db = Inr (sql_mark_completed now db i st, Done)"
| "sql_step (RetryingOp i err t) db = Inr (sql_mark_retrying db i err t, Done)"
| "sql_step (FailedOp now i err) db = Inr (sql_mark_failed now db i err, Done)"
| "sql_step (WaitingOp i w) db = Inr (sql_mark_waiting db i w, Done)"
| "sql_step (WakeOp i) db = (let (db', b) = sql_wake_execution db i in Inr (db', Flag b))"
| "sql_step (EffectsOp i ef) db = Inr (sql_set_effects db i ef, Done)"
| "sql_step (AddEdgeOp sid a b c) db = finished (sql_add_edge db sid a b c)"
| "sql_step (RemoveEdgeOp a b) db = Inr (sql_remove_edge db a b, Done)"
| "sql_step (CommitOp now i sid r staged cs ef spawns) db =
     (case sql_commit_transition now db i sid r staged cs ef spawns of (db', Inl e) \<Rightarrow> Inl e | (db', Inr u) \<Rightarrow> Inr (db', Done))"

text \<open>A random session ID is new.\<close>

fun fresh_op :: "graph_op \<Rightarrow> graph \<Rightarrow> bool" where
  "fresh_op (CreateOp now fresh t st serial None) g \<longleftrightarrow> map_of (gr_sessions g) fresh = None"
| "fresh_op _ _ \<longleftrightarrow> True"

lemma finished_Inr [simp]: "finished r = Inr (g, a) \<longleftrightarrow> r = Inr g \<and> a = Done"
  by (cases r) (auto simp: finished_def)

lemma keys_waiting: "mark_waiting g i w = Inr g' \<Longrightarrow> keys_ok g \<Longrightarrow> keys_ok g'"
  unfolding mark_waiting_def by (erule keys_ok_change [rotated 2]) auto

lemma ref_step_keys: "keys_ok g \<Longrightarrow> ref_step op g = Inr (g', a) \<Longrightarrow> keys_ok g'"
  by (cases op) (auto simp: complete_session_def fail_session_def split_beta Let_def result_simps intro: keys.created keys.added keys.linked keys.unlinked keys.woken
      elim: keys.ended [rotated 2] keys.deleted [rotated] keys.completed [rotated] keys.failed [rotated] keys.running [rotated]
        keys.retrying [rotated] keys.effected [rotated] keys.commit_transition [rotated]
        keys_waiting split: if_splits)

lemma step_refines:
  assumes "sql_rel db g" and "keys_ok g" and "fresh_op op g" and "ref_step op g = Inr (g', a)" and "sql_step op db = Inr (db', b)"
  shows "sql_rel db' g' \<and> b = a"
proof (cases op)
  case (CreateOp now fresh t st serial given)
  with assms rel_create [OF assms(1,2), of given fresh now t st serial] show ?thesis
    by (cases given) (auto simp: split_beta)
next
  case (EndOp ok now i)
  with assms show ?thesis
    by (cases ok) (auto simp: complete_session_def fail_session_def sql_complete_session_def sql_fail_session_def intro: rel_end)
next
  case (DeleteOp i)
  with assms rel_delete [OF assms(1,2), of i] show ?thesis by (auto simp: result_simps split: sum.splits)
next
  case (WakeOp i)
  with assms rel_wake [OF assms(1), of i] show ?thesis by (auto simp: split_beta)
next
  case (CommitOp now i sid r staged cs ef spawns)
  with assms have "sql_commit_writes now i sid r staged cs ef spawns db = Inr db'" "b = Done"
    by (auto simp: sql_commit_transition_def transaction_def split: sum.splits prod.splits)
  with CommitOp assms rel_commit [OF assms(1,2)] show ?thesis by auto
qed (use assms in \<open>auto simp: mark_running_def mark_completed_def mark_retrying_def mark_failed_def mark_waiting_def set_effects_def
      sql_mark_running_def sql_mark_completed_def sql_mark_retrying_def sql_mark_failed_def sql_mark_waiting_def sql_set_effects_def
      intro: rel_update rel_add_execution rel_add_edge rel_remove_edge\<close>)

text \<open>Runs that every operation of a store accepts: the state and the answers.\<close>

fun store_run :: "(graph_op \<Rightarrow> 'g \<Rightarrow> ('g \<times> answer) res) \<Rightarrow> graph_op list \<Rightarrow> 'g \<Rightarrow> ('g \<times> answer list) res" where
  "store_run step [] g = Inr (g, [])"
| "store_run step (op # ops) g =
     (case step op g of
        Inl e \<Rightarrow> Inl e
      | Inr (g', a) \<Rightarrow> (case store_run step ops g' of Inl e \<Rightarrow> Inl e | Inr (g'', as) \<Rightarrow> Inr (g'', a # as)))"

text \<open>Every random session ID of the run is new when it is used.\<close>

fun fresh_run :: "graph_op list \<Rightarrow> graph \<Rightarrow> bool" where
  "fresh_run [] g \<longleftrightarrow> True"
| "fresh_run (op # ops) g \<longleftrightarrow> fresh_op op g \<and> (case ref_step op g of Inl e \<Rightarrow> True | Inr (g', a) \<Rightarrow> fresh_run ops g')"

lemma run_refines:
  "sql_rel db g \<Longrightarrow> keys_ok g \<Longrightarrow> fresh_run ops g \<Longrightarrow> store_run ref_step ops g = Inr (g', as)
   \<Longrightarrow> store_run sql_step ops db = Inr (db', bs) \<Longrightarrow> sql_rel db' g' \<and> keys_ok g' \<and> bs = as"
proof (induction ops arbitrary: db g as bs)
  case (Cons op ops)
  from Cons.prems(4) obtain g1 a as1 where r: "ref_step op g = Inr (g1, a)" "store_run ref_step ops g1 = Inr (g', as1)" "as = a # as1"
    by (auto split: sum.splits prod.splits)
  from Cons.prems(5) obtain db1 b bs1 where s: "sql_step op db = Inr (db1, b)" "store_run sql_step ops db1 = Inr (db', bs1)" "bs = b # bs1"
    by (auto split: sum.splits prod.splits)
  from Cons.prems(3) r(1) have f: "fresh_op op g" "fresh_run ops g1" by auto
  from step_refines [OF Cons.prems(1,2) f(1) r(1) s(1)] have "sql_rel db1 g1" "b = a" by auto
  with Cons.IH [OF _ ref_step_keys [OF Cons.prems(2) r(1)] f(2) r(2), of db1] s(2,3) r(3) show ?case by simp
qed simp

subsection \<open>What a reader sees\<close>

lemma rel_exec_rows: "sql_rel db g \<Longrightarrow> keys_ok g \<Longrightarrow> set (sq_execs db) = snd ` set (gr_execs g)"
proof -
  assume r: "sql_rel db g" and k: "keys_ok g"
  have ok: "dict_ok (exec_dict db)" "dict_ok (gr_execs g)" using r k by (simp_all add: sql_rel_def keys_ok_def)
  have "(i, e) \<in> set (exec_dict db) \<longleftrightarrow> (i, e) \<in> set (gr_execs g)" for i e
    using r dict_ok_map_of [OF ok(1)] dict_ok_map_of [OF ok(2)] by (simp add: sql_rel_def)
  then have "set (exec_dict db) = set (gr_execs g)" by auto
  moreover have "snd ` set (exec_dict db) = set (sq_execs db)" by (simp add: exec_dict_def image_image)
  ultimately show ?thesis by simp
qed

lemma rel_edge_rows:
  "sql_rel db g \<Longrightarrow> keys_ok g \<Longrightarrow> set (edge_dict db) = set (gr_edges g)"
proof -
  assume r: "sql_rel db g" and k: "keys_ok g"
  have ok: "dict_ok (edge_dict db)" "dict_ok (gr_edges g)" using r k by (simp_all add: sql_rel_def keys_ok_def)
  have "(i, e) \<in> set (edge_dict db) \<longleftrightarrow> (i, e) \<in> set (gr_edges g)" for i e
    using r dict_ok_map_of [OF ok(1)] dict_ok_map_of [OF ok(2)] by (simp add: sql_rel_def)
  then show ?thesis by auto
qed

lemma get_parents_member:
  "x \<in> set (get_parents g i) \<longleftrightarrow> (\<exists>a v p. ((a, i), v) \<in> set (gr_edges g) \<and> get_execution g a = Some p \<and> x = (p, ed_condition v))"
proof -
  have "x \<in> set (List.map_filter f xs) \<longleftrightarrow> (\<exists>y \<in> set xs. f y = Some x)" for f and xs :: "((string \<times> string) \<times> edge) list"
    by (induction xs) (auto simp: map_filter_simps split: option.splits)
  then have "x \<in> set (get_parents g i) \<longleftrightarrow> (\<exists>a b v. ((a, b), v) \<in> set (gr_edges g)
      \<and> (if b = i then map_option (\<lambda>p. (p, ed_condition v)) (get_execution g a) else None) = Some x)"
    unfolding get_parents_def by (simp only: Bex_def split_paired_Ex prod.case)
  also have "\<dots> \<longleftrightarrow> (\<exists>a v p. ((a, i), v) \<in> set (gr_edges g) \<and> get_execution g a = Some p \<and> x = (p, ed_condition v))"
    by (auto split: if_splits)
  finally show ?thesis .
qed

lemma rel_children: "sql_rel db g \<Longrightarrow> keys_ok g \<Longrightarrow> set (sql_children db i) = set (get_children g i)"
proof -
  assume "sql_rel db g" "keys_ok g"
  note e = rel_edge_rows [OF this]
  have "x \<in> set (sql_children db i) \<longleftrightarrow> (\<exists>b v. ((i, b), v) \<in> set (edge_dict db) \<and> x = (b, ed_condition v))" for x
    by (force simp: sql_children_def edge_dict_def)
  moreover have "x \<in> set (get_children g i) \<longleftrightarrow> (\<exists>b v. ((i, b), v) \<in> set (gr_edges g) \<and> x = (b, ed_condition v))" for x
    by (force simp: get_children_def List.map_filter_def split: if_splits)
  ultimately show ?thesis using e by blast
qed

lemma rel_parents: "sql_rel db g \<Longrightarrow> keys_ok g \<Longrightarrow> set (sql_parents db i) = set (get_parents g i)"
proof -
  assume r: "sql_rel db g" and k: "keys_ok g"
  note e = rel_edge_rows [OF r k]
  have ex: "p \<in> set (sq_execs db) \<and> ex_id p = a \<longleftrightarrow> get_execution g a = Some p" for p a
  proof -
    have ok: "dict_ok (exec_dict db)" using r by (simp add: sql_rel_def)
    have "p \<in> set (sq_execs db) \<and> ex_id p = a \<longleftrightarrow> (a, p) \<in> set (exec_dict db)" by (auto simp: exec_dict_def)
    also have "\<dots> \<longleftrightarrow> get_execution g a = Some p" using r dict_ok_map_of [OF ok] by (simp add: sql_rel_def get_execution_def)
    finally show ?thesis .
  qed
  have "x \<in> set (sql_parents db i) \<longleftrightarrow> (\<exists>a v p. ((a, i), v) \<in> set (edge_dict db) \<and> (p \<in> set (sq_execs db) \<and> ex_id p = a) \<and> x = (p, ed_condition v))" for x
    by (force simp: sql_parents_def edge_dict_def)
  moreover have "x \<in> set (get_parents g i) \<longleftrightarrow> (\<exists>a v p. ((a, i), v) \<in> set (gr_edges g) \<and> get_execution g a = Some p \<and> x = (p, ed_condition v))" for x
    by (force simp: get_parents_member)
  ultimately show ?thesis using e by (auto simp: ex)
qed

lemma keys_ok_session: "keys_ok g \<Longrightarrow> (i, s) \<in> set (gr_sessions g) \<Longrightarrow> gs_id s = i"
  by (auto simp: keys_ok_def)

lemma rel_sessions:
  assumes "sql_rel db g" and "keys_ok g"
  shows "gs_id ` {s \<in> set (sq_sessions db). P (gs_status s)} = gs_id ` {s \<in> snd ` set (gr_sessions g). P (gs_status s)}"
proof -
  have ok: "dict_ok (session_dict db)" "dict_ok (gr_sessions g)" using assms by (simp_all add: sql_rel_def keys_ok_def)
  have row: "r \<in> set (sq_sessions db) \<longleftrightarrow> map_of (session_dict db) (gs_id r) = Some r" for r
    using dict_ok_map_of [OF ok(1), of "gs_id r" r] by (auto simp: session_dict_def)
  have ses: "s \<in> snd ` set (gr_sessions g) \<longleftrightarrow> map_of (gr_sessions g) (gs_id s) = Some s" for s
  proof -
    have "(gs_id s, s) \<in> set (gr_sessions g)" if "s \<in> snd ` set (gr_sessions g)"
    proof -
      from that obtain i where i: "(i, s) \<in> set (gr_sessions g)" by auto
      with keys_ok_session [OF assms(2) i] show ?thesis by simp
    qed
    moreover have "s \<in> snd ` set (gr_sessions g)" if "(gs_id s, s) \<in> set (gr_sessions g)"
      using that by (rule rev_image_eqI) simp
    ultimately have "s \<in> snd ` set (gr_sessions g) \<longleftrightarrow> (gs_id s, s) \<in> set (gr_sessions g)" by blast
    then show ?thesis using dict_ok_map_of [OF ok(2), of "gs_id s" s] by simp
  qed
  show ?thesis
  proof (intro equalityI subsetI)
    fix i assume "i \<in> gs_id ` {s \<in> set (sq_sessions db). P (gs_status s)}"
    then obtain r where "i = gs_id r" "r \<in> set (sq_sessions db)" "P (gs_status r)" by blast
    with rel_row [OF assms(1), of "gs_id r" r] row agrees_status ses
    obtain s where "map_of (gr_sessions g) i = Some s" "agrees r s" by auto
    with agrees_status [of r s] \<open>i = gs_id r\<close> \<open>P (gs_status r)\<close> ses [of s]
    have "s \<in> {s \<in> snd ` set (gr_sessions g). P (gs_status s)}" "i = gs_id s" by auto
    then show "i \<in> gs_id ` {s \<in> snd ` set (gr_sessions g). P (gs_status s)}" by blast
  next
    fix i assume "i \<in> gs_id ` {s \<in> snd ` set (gr_sessions g). P (gs_status s)}"
    then obtain s where "i = gs_id s" "s \<in> snd ` set (gr_sessions g)" "P (gs_status s)" by blast
    with rel_session [OF assms(1), of "gs_id s" s] ses
    obtain r where "map_of (session_dict db) i = Some r" "agrees r s" by auto
    with agrees_status [of r s] \<open>i = gs_id s\<close> \<open>P (gs_status s)\<close> row [of r]
    have "r \<in> {r \<in> set (sq_sessions db). P (gs_status r)}" "i = gs_id r" by auto
    then show "i \<in> gs_id ` {r \<in> set (sq_sessions db). P (gs_status r)}" by blast
  qed
qed



text \<open>
  Where the stores differ: SQLite refuses an execution ID that is taken or a session that is unknown, the
  reference store overwrites; SQLite ignores a missing row, the reference store raises.
\<close>

lemma sql_refuses_taken_ids:
  "sql_rel db g \<Longrightarrow> get_execution g i \<noteq> None \<Longrightarrow>
     sql_add_execution now db sid name i p = Inl (integrity_error ''UNIQUE constraint failed: executions.id'')
     \<and> get_execution (add_execution now g sid name i p) i = Some (new_execution now i sid name p)"
proof -
  assume r: "sql_rel db g" and e: "get_execution g i \<noteq> None"
  then have "map_of (exec_dict db) i \<noteq> None" by (simp add: sql_rel_def get_execution_def)
  then have "i \<in> fst ` set (exec_dict db)" by (simp add: map_of_eq_None_iff)
  then have "list_ex (\<lambda>e. ex_id e = i) (sq_execs db)" by (auto simp: list_ex_iff exec_dict_def)
  then show ?thesis by (simp add: sql_add_execution_def get_execution_def add_execution_def)
qed

end
