(* ===== verification/Graph_Theorems.thy ===== *)
theory Graph_Theorems
  imports Graph_Properties "HOL-Library.Multiset"
begin

text \<open>
  What the graph runtime promises: one running session per serial key, bounded attempts, exactly-once
  publication across restarts, timely waking and bounded retention.
\<close>

subsection \<open>A sample engine\<close>

definition idle_services :: services where
  "idle_services = \<lparr>sv_call = (\<lambda>obj n st. (Inr (BareState st), 0)), sv_ids = (\<lambda>n. ''id-'' @ nat_text n),
     sv_resolver = None, sv_retention = None\<rparr>"

lemma tries_empty: "each_exec (tried_well pol) empty_graph"
  by (simp add: each_exec_def empty_graph_def)

lemma serial_empty: "serial_ok empty_graph"
  by (simp add: serial_ok_def empty_graph_def)

lemma new_engine_fields [simp]: "en_store (new_engine reg box ms) = empty_graph" "en_policies (new_engine reg box ms) = []"
  by (simp_all add: new_engine_def)

subsection \<open>Serial keys\<close>

text \<open>
  C20. A serial key is exclusive. Whatever is started, executed, collected and recovered, two running
  sessions never share a serial key; and starting a session under the key of a running one creates
  nothing and returns \<open>None\<close>.
\<close>

theorem serial_key_is_exclusive:
  assumes "serial_ok (en_store s)"
  shows "(map_of (gr_sessions (en_store (engine_run sv ops s))) i = Some a
      \<and> map_of (gr_sessions (en_store (engine_run sv ops s))) j = Some b
      \<and> gs_status a = SRunning \<and> gs_status b = SRunning \<and> gs_serial a = Some k \<and> gs_serial b = Some k \<longrightarrow> i = j)
    \<and> (map_of (gr_sessions (en_store (engine_run sv ops s))) i = Some a \<and> gs_status a = SRunning \<and> gs_serial a = Some k \<longrightarrow>
        (case start_session sv now (AdhocPlan p) st None (Some k) (engine_run sv ops s) of
           (s', r) \<Rightarrow> en_store s' = en_store (engine_run sv ops s) \<and> en_queue s' = en_queue (engine_run sv ops s) \<and> r = Inr None))"
proof -
  let ?t = "engine_run sv ops s"
  have "holds serial_ok (\<lambda>_. True) (en_policies s) s" using assms by (simp add: holds_def)
  from serial.total_run_holds [OF this, of sv ops] have ok: "serial_ok (en_store ?t)" by (simp add: holds_def)
  have "serial_taken (en_store ?t) (Some k)"
    if "map_of (gr_sessions (en_store ?t)) i = Some a" "gs_status a = SRunning" "gs_serial a = Some k"
    using that by (auto simp: serial_taken_def list_ex_iff dest!: map_of_SomeD)
  then have 1: "case start_session sv now (AdhocPlan p) st None (Some k) ?t of
           (s', r) \<Rightarrow> en_store s' = en_store ?t \<and> en_queue s' = en_queue ?t \<and> r = Inr None"
    if "map_of (gr_sessions (en_store ?t)) i = Some a" "gs_status a = SRunning" "gs_serial a = Some k"
    using that by (simp add: start_session_def trigger_plan_def abind_def ret_def create_running_def create_graph_session_def)
  have 2: "i = j"
    if "map_of (gr_sessions (en_store ?t)) i = Some a" "map_of (gr_sessions (en_store ?t)) j = Some b"
      "gs_status a = SRunning" "gs_status b = SRunning" "gs_serial a = Some k" "gs_serial b = Some k"
    using ok that by (simp add: serial_ok_def)
  show ?thesis by (intro conjI impI; elim conjE) (use 1 2 in simp_all)
qed

definition busy_session :: graph_session where
  "busy_session = \<lparr>gs_id = ''s1'', gs_trigger = ''adhoc'', gs_status = SRunning, gs_state = [], gs_serial = Some ''k'',
     gs_created = 1, gs_completed = None\<rparr>"

definition busy_engine :: engine where
  "busy_engine = new_engine [] None None\<lparr>en_store := empty_graph\<lparr>gr_sessions := [(''s1'', busy_session)]\<rparr>\<rparr>"

theorem serial_key_is_exclusive_witness:
  "snd (start_session idle_services 2 (AdhocPlan (Leaf (NamedNode ''a''))) [] None (Some ''k'') (engine_run idle_services [] busy_engine)) = Inr None"
proof -
  have ok: "serial_ok (en_store busy_engine)" by (simp add: serial_ok_def busy_engine_def)
  have "map_of (gr_sessions (en_store (engine_run idle_services [] busy_engine))) ''s1'' = Some busy_session"
    "gs_status busy_session = SRunning" "gs_serial busy_session = Some ''k''"
    by (simp_all add: engine_run_def busy_engine_def busy_session_def)
  with serial_key_is_exclusive [OF ok, where sv = idle_services and ops = "[]" and i = "''s1''" and a = busy_session and k = "''k''"
      and now = 2 and p = "Leaf (NamedNode ''a'')" and st = "[]"]
  show ?thesis by (simp add: split_beta)
qed

subsection \<open>Attempts\<close>

text \<open>
  C21. A callable is not tried more often than its policy allows. As long as the worker is not restarted,
  no execution gets more attempts than its own policy, or else the registered one, or else one; an
  execution that is to be tried again has an attempt left.
\<close>

theorem attempts_are_bounded:
  assumes "each_exec (tried_well (en_policies s)) (en_store s)"
    and "\<forall>(now, op) \<in> set ops. op \<noteq> Recover"
  shows "\<forall>(i, e) \<in> set (gr_execs (en_store (engine_run sv ops s))).
      ex_attempts e \<le> tries (en_policies s) e \<and> (ex_status e = XPending \<longrightarrow> ex_attempts e < tries (en_policies s) e)"
proof -
  have "holds (each_exec (tried_well (en_policies s))) (\<lambda>_. True) (en_policies s) s" using assms(1) by (simp add: holds_def)
  from tried.run_holds [OF assms(2) this] show ?thesis
    by (fastforce simp: holds_def each_exec_def tried_well_def)
qed

theorem attempts_are_bounded_witness:
  "list_all (\<lambda>(i, e). ex_attempts e \<le> tries [] e) (gr_execs (en_store (engine_run idle_services
       [(1, StartSession (AdhocPlan (Leaf (CallableNode ''a'' 1))) [] None None), (2, RunOnce)] (new_engine [] None None))))"
proof -
  let ?ops = "[(1::rat, StartSession (AdhocPlan (Leaf (CallableNode ''a'' 1))) [] None None), (2, RunOnce)]"
  have "\<forall>(now, op) \<in> set ?ops. op \<noteq> Recover" by simp
  from attempts_are_bounded [OF _ this, of "new_engine [] None None" idle_services] tries_empty show ?thesis
    by (fastforce simp: list_all_iff)
qed

subsection \<open>Publication\<close>

text \<open>Box \<open>b\<close> is well formed and knows the event ID \<open>i\<close>, under conversation \<open>c\<close>.\<close>

definition knows :: "string \<Rightarrow> string \<Rightarrow> string \<Rightarrow> (string \<times> mailbox) list \<Rightarrow> bool" where
  "knows b i c bs \<longleftrightarrow> (\<exists>mb t. map_of bs b = Some mb \<and> mailbox_ok mb \<and> map_of (mb_ids mb) i = Some (c, t))"

lemma knows_update:
  "knows b i c bs \<Longrightarrow> map_of bs x = Some mb \<Longrightarrow> (mailbox_ok mb \<Longrightarrow> mailbox_ok mb')
     \<Longrightarrow> (\<And>t. map_of (mb_ids mb) i = Some (c, t) \<Longrightarrow> map_of (mb_ids mb') i = Some (c, t)) \<Longrightarrow> knows b i c (AList.update x mb' bs)"
  by (auto simp: knows_def)

lemma ids_acknowledged: "mb_ids (fst (acknowledge_mail now mb c consumer ids f)) = mb_ids mb"
  by (simp add: acknowledge_mail_def split_beta)

lemma ids_appended: "append_mail_event now fresh mb c ev = Inr (mb', j) \<Longrightarrow> map_of (mb_ids mb) i = Some v \<Longrightarrow> map_of (mb_ids mb') i = Some v"
  using append_Inr [of now fresh mb c ev mb' j] by auto

lemma ids_claimed: "claim_mail now mb c consumer n t = Inr (mb', ds) \<Longrightarrow> mb_ids mb' = mb_ids mb"
  by (auto simp: claim_mail_def split_beta split: if_splits)

interpretation known: total_invariant "\<lambda>_. True" "knows b i c" for b i c
proof unfold_locales
  fix bs x mb mb' now fresh c' ev j consumer ids f n t ds
  assume k: "knows b i c bs" "map_of bs x = Some mb"
  show "append_mail_event now fresh mb c' ev = Inr (mb', j) \<Longrightarrow> knows b i c (AList.update x mb' bs)"
    by (rule knows_update [OF k]) (simp_all add: append_ok ids_appended)
  show "knows b i c (AList.update x (fst (acknowledge_mail now mb c' consumer ids f)) bs)"
    using mail_step_ok [of mb now "AckMail c' consumer ids f"] by (intro knows_update [OF k]) (simp_all add: ids_acknowledged)
  show "claim_mail now mb c' consumer n t = Inr (mb', ds) \<Longrightarrow> knows b i c (AList.update x mb' bs)"
    by (rule knows_update [OF k]) (auto simp: claim_ok ids_claimed)
qed simp_all

lemma event_once:
  assumes "mailbox_ok mb" "map_of (mb_ids mb) i = Some (c, t)"
  shows "length (filter (\<lambda>e. me_id e = i) (conversation mb k)) \<le> (if k = c then 1 else 0)"
proof -
  have "k = c" if "e \<in> set (conversation mb k)" "me_id e = i" for e
    using mailbox_okD [OF assms(1) that(1)] that(2) assms(2) by (auto simp: event_ok_def)
  moreover have "length (filter (\<lambda>e. me_id e = i) es) \<le> 1" if "distinct (map me_id es)" for es
    using that by (induction es) (auto simp: filter_empty_conv image_iff)
  ultimately show ?thesis using assms(1) by (auto simp: mailbox_ok_def filter_empty_conv)
qed


definition posted_box :: mailbox where
  "posted_box = \<lparr>mb_events = [(''c'', [appended 1 0 ''txn-e1-0'' ''c'' []])], mb_ids = [(''txn-e1-0'', (''c'', 1))], mb_next = 1\<rparr>"


subsection \<open>Waking\<close>

lemma update_is_map: "dict_ok d \<Longrightarrow> map_of d k = Some w \<Longrightarrow> AList.update k v d = map (\<lambda>(j, x). (j, if j = k then v else x)) d"
proof (induction d)
  case (Cons a d)
  have "map (\<lambda>(j, x). (j, if j = fst a then v else x)) d = d" if "fst a \<notin> fst ` set d"
  proof (intro map_idI)
    fix x assume "x \<in> set d"
    then have "fst x \<noteq> fst a" using that by (metis imageI)
    then show "(case x of (j, x) \<Rightarrow> (j, if j = fst a then v else x)) = x" by (simp add: split_beta)
  qed
  with Cons show ?case by (cases a) (auto simp: dict_ok_def)
qed simp

text \<open>The graph with the executions of the IDs \<open>I\<close> pending.\<close>

definition woken :: "string set \<Rightarrow> graph \<Rightarrow> graph" where
  "woken I g = g\<lparr>gr_execs := map (\<lambda>(i, e). (i, if i \<in> I then e\<lparr>ex_status := XPending\<rparr> else e)) (gr_execs g)\<rparr>"

lemma woken_empty [simp]: "woken {} g = g"
  by (simp add: woken_def map_idI split_beta)

lemma woken_insert: "woken J (woken I g) = woken (I \<union> J) g"
  by (simp add: woken_def split_beta cong: if_cong)

lemma woken_keys [simp]: "dict_ok (gr_execs (woken I g)) = dict_ok (gr_execs g)"
  by (simp add: woken_def dict_ok_def split_beta comp_def)

lemma woken_other: "i \<notin> I \<Longrightarrow> (i, e) \<in> set (gr_execs g) \<Longrightarrow> (i, e) \<in> set (gr_execs (woken I g))"
  by (force simp: woken_def)

lemma wake_is_woken:
  "dict_ok (gr_execs g) \<Longrightarrow> (i, e) \<in> set (gr_execs g) \<Longrightarrow> ex_status e = XWaiting \<Longrightarrow> wake_execution g i = (woken {i} g, True)"
proof -
  assume d: "dict_ok (gr_execs g)" and e: "(i, e) \<in> set (gr_execs g)" "ex_status e = XWaiting"
  have m: "map_of (gr_execs g) i = Some e" using d e(1) by (simp add: dict_ok_map_of)
  have "map (\<lambda>(j, x). (j, if j = i then e\<lparr>ex_status := XPending\<rparr> else x)) (gr_execs g)
      = map (\<lambda>(j, x). (j, if j = i then x\<lparr>ex_status := XPending\<rparr> else x)) (gr_execs g)"
    using d m by (intro map_cong) (auto simp: dict_ok_map_of)
  then show ?thesis using m e(2) by (simp add: wake_execution_def woken_def update_is_map [OF d m])
qed

definition wake_message :: "rat \<Rightarrow> execution \<Rightarrow> message" where
  "wake_message now e = \<lparr>ms_body = ExecuteMessage (ex_id e) (ex_session e), ms_not_before = None, ms_created = now\<rparr>"

lemma wait_due_boxes: "en_boxes s' = en_boxes s \<Longrightarrow> wait_due now s' e = wait_due now s e"
proof -
  assume "en_boxes s' = en_boxes s"
  then have "own_box s' = own_box s" by (simp add: own_box_def)
  then show ?thesis by (cases "ex_wake e") (simp_all add: wait_due_def)
qed

lemma wake_each:
  assumes "dict_ok (gr_execs (en_store s))" and "distinct (map ex_id es)"
    and "\<forall>e \<in> set es. ex_status e = XWaiting \<and> (ex_id e, e) \<in> set (gr_execs (en_store s))"
  shows "sum_each (wake_one now) es n s =
    (s\<lparr>en_store := woken (ex_id ` set (filter (wait_due now s) es)) (en_store s),
       en_queue := en_queue s @ map (wake_message now) (filter (wait_due now s) es)\<rparr>, Inr (n + length (filter (wait_due now s) es)))"
  using assms
proof (induction es arbitrary: s n)
  case (Cons e es)
  show ?case
  proof (cases "wait_due now s e")
    case False
    then have "wake_one now e s = (s, Inr 0)" by (simp add: wake_one_def abind_def reads_def ret_def)
    with Cons.IH [of s] Cons.prems False show ?thesis by simp
  next
    case True
    let ?s = "s\<lparr>en_store := woken {ex_id e} (en_store s), en_queue := en_queue s @ [wake_message now e]\<rparr>"
    have "wake_execution (en_store s) (ex_id e) = (woken {ex_id e} (en_store s), True)"
      using Cons.prems by (intro wake_is_woken [of _ _ e]) auto
    then have one: "wake_one now e s = (?s, Inr 1)"
      using True by (simp add: wake_one_def abind_def aseq_def reads_def ret_def send_to_queue_def queue_send_def modifies_def wake_message_def)
    have due: "wait_due now ?s = wait_due now s" by (intro ext wait_due_boxes) simp
    have "\<forall>x \<in> set es. ex_status x = XWaiting \<and> (ex_id x, x) \<in> set (gr_execs (en_store ?s))"
    proof
      fix x assume x: "x \<in> set es"
      then have "ex_id x \<in> ex_id ` set es" by simp
      with Cons.prems(2) have "ex_id x \<notin> {ex_id e}" by (metis distinct.simps(2) list.set_map list.simps(9) singletonD)
      from woken_other [OF this] x Cons.prems(3) show "ex_status x = XWaiting \<and> (ex_id x, x) \<in> set (gr_execs (en_store ?s))" by simp
    qed
    with Cons.IH [of ?s "n + 1"] Cons.prems(1,2) one True show ?thesis by (simp add: due woken_insert insert_is_Un [symmetric])
  qed
qed simp

lemma keys_ok_member: "keys_ok g \<Longrightarrow> (i, e) \<in> set (gr_execs g) \<Longrightarrow> ex_id e = i"
  by (auto simp: keys_ok_def)

lemma wake_due_exact:
  assumes "keys_ok (en_store s)"
  shows "wake_due_waits now s =
    (s\<lparr>en_store := en_store s\<lparr>gr_execs := map (\<lambda>(i, e). (i, if ex_status e = XWaiting \<and> wait_due now s e then e\<lparr>ex_status := XPending\<rparr> else e))
         (gr_execs (en_store s))\<rparr>,
       en_queue := en_queue s @ map (wake_message now) (filter (wait_due now s) (waiting_executions (en_store s)))\<rparr>,
     Inr (length (filter (wait_due now s) (waiting_executions (en_store s)))))"
proof -
  let ?g = "en_store s" and ?es = "waiting_executions (en_store s)"
  have ids: "map ex_id (map snd (gr_execs ?g)) = map fst (gr_execs ?g)"
    using assms by (auto simp: keys_ok_def split_beta)
  have d: "dict_ok (gr_execs ?g)" using assms by (simp add: keys_ok_def)
  then have "distinct (map ex_id (map snd (gr_execs ?g)))" unfolding ids dict_ok_def .
  then have "distinct (map ex_id ?es)" unfolding waiting_executions_def by (rule distinct_map_filter)
  moreover have mem: "e \<in> set ?es \<longleftrightarrow> ex_status e = XWaiting \<and> (ex_id e, e) \<in> set (gr_execs ?g)" for e
  proof -
    have "(\<exists>i. (i, e) \<in> set (gr_execs ?g)) \<longleftrightarrow> (ex_id e, e) \<in> set (gr_execs ?g)"
      by (metis keys_ok_member [OF assms])
    then show ?thesis unfolding waiting_executions_def by (auto simp: image_iff intro: bexI [of _ "(ex_id e, e)"])
  qed
  ultimately have run: "sum_each (wake_one now) ?es 0 s =
    (s\<lparr>en_store := woken (ex_id ` set (filter (wait_due now s) ?es)) ?g,
       en_queue := en_queue s @ map (wake_message now) (filter (wait_due now s) ?es)\<rparr>, Inr (length (filter (wait_due now s) ?es)))"
    using wake_each [OF d, of ?es now 0] by simp
  have iff: "i \<in> ex_id ` set (filter (wait_due now s) ?es) \<longleftrightarrow> ex_status e = XWaiting \<and> wait_due now s e" if e: "(i, e) \<in> set (gr_execs ?g)" for i e
  proof -
    have i: "ex_id e = i" by (rule keys_ok_member [OF assms e])
    have u: "x = e" if "x \<in> set ?es" "ex_id x = i" for x
      using that e dict_ok_map_of [OF d, of i] mem by (metis option.inject)
    show ?thesis
    proof
      assume "i \<in> ex_id ` set (filter (wait_due now s) ?es)"
      then obtain x where "x \<in> set ?es" "ex_id x = i" "wait_due now s x" by auto
      with u mem show "ex_status e = XWaiting \<and> wait_due now s e" by blast
    next
      assume "ex_status e = XWaiting \<and> wait_due now s e"
      with mem i e have "e \<in> set (filter (wait_due now s) ?es)" by simp
      then show "i \<in> ex_id ` set (filter (wait_due now s) ?es)" using i by (metis imageI)
    qed
  qed
  have "map (\<lambda>(i, e). (i, if i \<in> ex_id ` set (filter (wait_due now s) ?es) then e\<lparr>ex_status := XPending\<rparr> else e)) (gr_execs ?g)
      = map (\<lambda>(i, e). (i, if ex_status e = XWaiting \<and> wait_due now s e then e\<lparr>ex_status := XPending\<rparr> else e)) (gr_execs ?g)"
    by (rule map_cong [OF refl]) (clarify, simp only: prod.case iff)
  then have "woken (ex_id ` set (filter (wait_due now s) ?es)) ?g
      = ?g\<lparr>gr_execs := map (\<lambda>(i, e). (i, if ex_status e = XWaiting \<and> wait_due now s e then e\<lparr>ex_status := XPending\<rparr> else e)) (gr_execs ?g)\<rparr>"
    unfolding woken_def by (rule arg_cong)
  with run show ?thesis by (simp add: wake_due_waits_def abind_def reads_def)
qed

lemma run_keys_ok: "keys_ok (en_store s) \<Longrightarrow> keys_ok (en_store (engine_run sv ops s))"
  using keys.total_run_holds [of "en_policies s" s sv ops] by (simp add: holds_def)

text \<open>
  Exactly the due waits are woken. After any run from a consistent graph, \<open>wake_due_waits\<close> makes pending exactly the
  waiting executions whose deadline has passed or whose conversation has claimable mail, queues one
  message for each of them, changes nothing else, and returns their number.
\<close>

theorem due_waits_are_woken:
  assumes "keys_ok (en_store s0)" and "s = engine_run sv ops s0"
  shows "wake_due_waits now s =
    (s\<lparr>en_store := en_store s\<lparr>gr_execs := map (\<lambda>(i, e). (i, if ex_status e = XWaiting \<and> wait_due now s e then e\<lparr>ex_status := XPending\<rparr> else e))
         (gr_execs (en_store s))\<rparr>,
       en_queue := en_queue s @ map (wake_message now) (filter (wait_due now s) (waiting_executions (en_store s)))\<rparr>,
     Inr (length (filter (wait_due now s) (waiting_executions (en_store s)))))"
  unfolding assms(2) by (rule wake_due_exact [OF run_keys_ok [OF assms(1)]])

definition parked_engine :: engine where
  "parked_engine = new_engine [] None None\<lparr>en_store := empty_graph\<lparr>gr_execs :=
     [(''e1'', (new_execution 1 ''e1'' ''s1'' wait_name None)\<lparr>ex_status := XWaiting, ex_wake := Some \<lparr>wk_conversation = ''c'', wk_at = Some 5\<rparr>\<rparr>),
      (''e2'', (new_execution 1 ''e2'' ''s1'' wait_name None)\<lparr>ex_status := XWaiting, ex_wake := Some \<lparr>wk_conversation = ''c'', wk_at = Some 9\<rparr>\<rparr>)]\<rparr>\<rparr>"

theorem due_waits_are_woken_witness:
  "map (\<lambda>(i, e). ex_status e) (gr_execs (en_store (fst (wake_due_waits 6 parked_engine)))) = [XPending, XWaiting]
     \<and> snd (wake_due_waits 6 parked_engine) = Inr 1"
proof -
  have "keys_ok (en_store parked_engine)"
    by (simp add: parked_engine_def keys_ok_def empty_graph_def dict_ok_def new_execution_def)
  moreover have "parked_engine = engine_run idle_services [] parked_engine" by (simp add: engine_run_def)
  ultimately show ?thesis using due_waits_are_woken [of parked_engine parked_engine idle_services "[]" 6]
    by (simp add: parked_engine_def empty_graph_def new_execution_def wait_due_def own_box_def new_engine_def waiting_executions_def)
qed

subsection \<open>Retention\<close>

definition without :: "string set \<Rightarrow> graph \<Rightarrow> graph" where
  "without I g = \<lparr>gr_sessions = filter (\<lambda>(i, s). i \<notin> I) (gr_sessions g), gr_execs = filter (\<lambda>(i, e). ex_session e \<notin> I) (gr_execs g),
     gr_edges = filter (\<lambda>(i, e). ed_session e \<notin> I) (gr_edges g)\<rparr>"

lemma without_delete:
  "map_of (gr_sessions g) i = Some s \<Longrightarrow> gs_status s \<noteq> SRunning \<Longrightarrow> delete_terminal_session g i = Inr (without {i} g, True)"
  by (auto simp: delete_terminal_session_def without_def AList.delete_eq intro!: filter_cong)

lemma without_without: "without J (without I g) = without (I \<union> J) g"
  by (simp add: without_def) (intro conjI filter_cong; auto)

lemma without_session: "i \<notin> I \<Longrightarrow> map_of (gr_sessions (without I g)) i = map_of (gr_sessions g) i"
  by (simp add: without_def map_of_filter_keep)

lemma gc_each:
  assumes "distinct is" and "\<forall>i \<in> set is. \<exists>s. map_of (gr_sessions g) i = Some s \<and> gs_status s \<noteq> SRunning"
  shows "fold_res gc_delete (g, acc) is = Inr (without (set is) g, acc @ is)"
  using assms
proof (induction "is" arbitrary: g acc)
  case Nil
  then show ?case by (simp add: without_def)
next
  case (Cons i rest)
  from Cons.prems(2) obtain s where s: "map_of (gr_sessions g) i = Some s" "gs_status s \<noteq> SRunning" by auto
  have "\<forall>j \<in> set rest. map_of (gr_sessions (without {i} g)) j = map_of (gr_sessions g) j"
    using Cons.prems(1) by (auto intro!: without_session)
  then have "fold_res gc_delete (without {i} g, acc @ [i]) rest = Inr (without (set rest) (without {i} g), (acc @ [i]) @ rest)"
    using Cons.prems by (intro Cons.IH) auto
  moreover have "gc_delete (g, acc) i = Inr (without {i} g, acc @ [i])"
    by (simp add: gc_delete_def without_delete [OF s])
  ultimately show ?case by (simp add: without_without)
qed

lemma terminal_mset: "mset (terminal_sessions g) = mset (filter (\<lambda>s. gs_status s \<noteq> SRunning) (map snd (gr_sessions g)))"
proof -
  have "mset (filter (\<lambda>s. finish_time s \<noteq> None) xs) + mset (filter (\<lambda>s. finish_time s = None) xs) = mset xs" for xs
    by (induction xs) auto
  then show ?thesis by (simp only: terminal_sessions_def Let_def mset_append mset_sort)
qed

lemma terminal_set: "s \<in> set (terminal_sessions g) \<longleftrightarrow> s \<in> snd ` set (gr_sessions g) \<and> gs_status s \<noteq> SRunning"
  using arg_cong [OF terminal_mset [of g], of set_mset] by auto

lemma terminal_distinct:
  assumes "keys_ok g"
  shows "distinct (map gs_id (terminal_sessions g))"
proof -
  have "map gs_id (map snd (gr_sessions g)) = map fst (gr_sessions g)" using assms by (auto simp: keys_ok_def)
  then have "distinct (map gs_id (map snd (gr_sessions g)))" using assms by (simp only: keys_ok_def dict_ok_def)
  then have "distinct (map gs_id (filter (\<lambda>s. gs_status s \<noteq> SRunning) (map snd (gr_sessions g))))" by (rule distinct_map_filter)
  moreover have "mset (map gs_id (terminal_sessions g)) = mset (map gs_id (filter (\<lambda>s. gs_status s \<noteq> SRunning) (map snd (gr_sessions g))))"
    by (simp only: mset_map terminal_mset)
  ultimately show ?thesis using mset_eq_imp_distinct_iff by blast
qed

lemma selected_distinct: "distinct (map gs_id ts) \<Longrightarrow> distinct (gc_selected p now ts)"
proof -
  assume "distinct (map gs_id ts)"
  moreover have "map (\<lambda>(k, s). gs_id s) (enumerate 0 ts) = map gs_id ts"
    by (metis (no_types, lifting) map_snd_enumerate map_map comp_def case_prod_beta map_eq_conv)
  ultimately have "distinct (map (\<lambda>(k, s). gs_id s) (enumerate 0 ts))" by simp
  then show ?thesis unfolding gc_selected_def by (intro distinct_take distinct_map_filter)
qed

lemma selected_why:
  assumes "i \<in> set (gc_selected p now ts)"
  shows "\<exists>k < length ts. gs_id (ts ! k) = i \<and> (k < overflow_of p (length ts) \<or> expired_session p now (ts ! k))"
  using assms by (auto simp: gc_selected_def in_set_enumerate_eq dest!: in_set_takeD) blast+

lemma selected_enough:
  assumes "overflow_of p (length ts) \<le> nat (rt_batch p)" and "overflow_of p (length ts) \<le> length ts"
  shows "overflow_of p (length ts) \<le> length (gc_selected p now ts)"
proof -
  let ?ov = "overflow_of p (length ts)" and ?P = "\<lambda>(k, s). k < overflow_of p (length ts) \<or> expired_session p now s"
  have "?ov = card {..< ?ov}" by simp
  also have "\<dots> \<le> card {k. k < length (enumerate 0 ts) \<and> ?P (enumerate 0 ts ! k)}"
    using assms(2) by (intro card_mono) (auto simp: nth_enumerate_eq)
  also have "\<dots> = length (filter ?P (enumerate 0 ts))" by (simp only: length_filter_conv_card)
  finally show ?thesis using assms(1) by (simp add: gc_selected_def)
qed

lemma terminal_order:
  assumes "j < k" "k < length (terminal_sessions g)" "finish_time (terminal_sessions g ! k) = Some t"
  shows "\<exists>t'. finish_time (terminal_sessions g ! j) = Some t' \<and> t' \<le> t"
proof -
  define over where "over = filter (\<lambda>s. gs_status s \<noteq> SRunning) (map snd (gr_sessions g))"
  define xs where "xs = sort_key (\<lambda>s. the (finish_time s)) (filter (\<lambda>s. finish_time s \<noteq> None) over)"
  define ys where "ys = filter (\<lambda>s. finish_time s = None) over"
  have ts: "terminal_sessions g = xs @ ys" by (simp add: terminal_sessions_def over_def xs_def ys_def Let_def)
  have "k < length xs"
  proof (rule ccontr)
    assume "\<not> k < length xs"
    then have "terminal_sessions g ! k \<in> set ys" using assms(2) by (simp add: ts nth_append)
    then show False using assms(3) by (simp add: ys_def)
  qed
  moreover have "sorted (map (\<lambda>s. the (finish_time s)) xs)" by (simp add: xs_def)
  ultimately have "the (finish_time (xs ! j)) \<le> the (finish_time (xs ! k))"
    using assms(1) by (auto simp: sorted_iff_nth_mono_less)
  moreover have "xs ! j \<in> set xs" using \<open>k < length xs\<close> assms(1) by simp
  then have "finish_time (xs ! j) \<noteq> None" by (simp add: xs_def)
  ultimately show ?thesis using assms(1,3) \<open>k < length xs\<close> by (auto simp: ts nth_append)
qed

lemma terminal_left:
  assumes ok: "keys_ok g" and d: "distinct is" and sub: "\<forall>i \<in> set is. \<exists>s. map_of (gr_sessions g) i = Some s \<and> gs_status s \<noteq> SRunning"
  shows "length (terminal_sessions (without (set is) g)) + length is = length (terminal_sessions g)"
proof -
  let ?T = "\<lambda>x :: string \<times> graph_session. gs_status (snd x) \<noteq> SRunning" and ?I = "\<lambda>x :: string \<times> graph_session. fst x \<in> set is" and ?d = "gr_sessions g"
  have n: "length (terminal_sessions h) = length (filter ?T (gr_sessions h))" for h
    using mset_eq_length [OF terminal_mset [of h]] by (simp add: filter_map comp_def split_beta)
  have key: "dict_ok ?d" using ok by (simp add: keys_ok_def)
  have "length is = card (set is)" using d by (simp add: distinct_card)
  also have "set is = fst ` set (filter (\<lambda>x. ?T x \<and> ?I x) ?d)"
    using sub by (force simp: dict_ok_map_of [OF key] image_iff)
  also have "card \<dots> = length (filter (\<lambda>x. ?T x \<and> ?I x) ?d)"
    using distinct_card [OF distinct_map_filter [OF key [unfolded dict_ok_def]]] by simp
  finally have "length is = length (filter ?I (filter ?T ?d))" by (simp add: conj_commute split_beta)
  moreover have "filter ?T (gr_sessions (without (set is) g)) = filter (\<lambda>x. \<not> ?I x) (filter ?T ?d)"
    by (auto simp: without_def split_beta intro!: filter_cong)
  ultimately show ?thesis
    using sum_length_filter_compl [of ?I "filter ?T ?d"] by (simp add: n)
qed

lemma collect_exact:
  assumes "keys_ok g"
  shows "collect_terminal_sessions g p now
      = Inr (without (set (gc_selected p now (terminal_sessions g))) g, gc_selected p now (terminal_sessions g))
    \<and> length (gc_selected p now (terminal_sessions g)) \<le> nat (rt_batch p)
    \<and> (\<forall>i \<in> set (gc_selected p now (terminal_sessions g)). \<exists>k < length (terminal_sessions g).
         map_of (gr_sessions g) i = Some (terminal_sessions g ! k) \<and> gs_status (terminal_sessions g ! k) \<noteq> SRunning
         \<and> (k < overflow_of p (length (terminal_sessions g)) \<or> expired_session p now (terminal_sessions g ! k)))
    \<and> (\<forall>j k t. j < k \<and> k < length (terminal_sessions g) \<and> finish_time (terminal_sessions g ! k) = Some t \<longrightarrow>
         (\<exists>t'. finish_time (terminal_sessions g ! j) = Some t' \<and> t' \<le> t))
    \<and> (\<forall>m. rt_max p = Some m \<and> overflow_of p (length (terminal_sessions g)) \<le> nat (rt_batch p) \<longrightarrow>
         length (terminal_sessions (without (set (gc_selected p now (terminal_sessions g))) g)) \<le> nat m)"
proof -
  let ?ts = "terminal_sessions g"
  let ?sel = "gc_selected p now ?ts"
  note d = selected_distinct [OF terminal_distinct [OF assms], of p now]
  have why: "\<exists>k < length ?ts. map_of (gr_sessions g) i = Some (?ts ! k) \<and> gs_status (?ts ! k) \<noteq> SRunning
      \<and> (k < overflow_of p (length ?ts) \<or> expired_session p now (?ts ! k))" if "i \<in> set ?sel" for i
  proof -
    from selected_why [OF that] obtain k where k: "k < length ?ts" "gs_id (?ts ! k) = i"
      "k < overflow_of p (length ?ts) \<or> expired_session p now (?ts ! k)" by blast
    from nth_mem [OF k(1)] obtain j where j: "(j, ?ts ! k) \<in> set (gr_sessions g)" "gs_status (?ts ! k) \<noteq> SRunning"
      by (auto simp: terminal_set)
    then have "map_of (gr_sessions g) j = Some (?ts ! k)" using assms by (simp add: keys_ok_def dict_ok_map_of)
    moreover from keys_ok_session_id [OF assms this] k(2) have "j = i" by simp
    ultimately have "map_of (gr_sessions g) i = Some (?ts ! k)" by simp
    with k j show ?thesis by blast
  qed
  then have sub: "\<forall>i \<in> set ?sel. \<exists>s. map_of (gr_sessions g) i = Some s \<and> gs_status s \<noteq> SRunning" by blast
  have run: "collect_terminal_sessions g p now = Inr (without (set ?sel) g, ?sel)"
    using gc_each [OF d sub, of "[]"] by (simp add: collect_terminal_sessions_def)
  have "length (terminal_sessions (without (set ?sel) g)) \<le> nat m"
    if m: "rt_max p = Some m" "overflow_of p (length ?ts) \<le> nat (rt_batch p)" for m
  proof -
    have ov: "overflow_of p (length ?ts) = length ?ts - nat m" by (simp add: overflow_of_def m(1))
    with selected_enough [OF m(2), of now] terminal_left [OF assms d sub] show ?thesis by simp
  qed
  moreover have "length ?sel \<le> nat (rt_batch p)" by (simp add: gc_selected_def)
  ultimately show ?thesis using run why terminal_order [of _ _ g] by blast
qed

text \<open>
  C23. A collection is bounded and exact. After any run from a consistent graph it never raises, deletes at most one batch,
  only ended sessions that are expired or among the oldest over the maximum, and of each its executions
  and edges with it and nothing else; and it reaches the maximum whenever the batch allows.
\<close>

theorem collection_is_exact:
  assumes "keys_ok (en_store s)" and "g = en_store (engine_run sv ops s)"
  shows "collect_terminal_sessions g p now
      = Inr (without (set (gc_selected p now (terminal_sessions g))) g, gc_selected p now (terminal_sessions g))
    \<and> length (gc_selected p now (terminal_sessions g)) \<le> nat (rt_batch p)
    \<and> (\<forall>i \<in> set (gc_selected p now (terminal_sessions g)). \<exists>k < length (terminal_sessions g).
         map_of (gr_sessions g) i = Some (terminal_sessions g ! k) \<and> gs_status (terminal_sessions g ! k) \<noteq> SRunning
         \<and> (k < overflow_of p (length (terminal_sessions g)) \<or> expired_session p now (terminal_sessions g ! k)))
    \<and> (\<forall>j k t. j < k \<and> k < length (terminal_sessions g) \<and> finish_time (terminal_sessions g ! k) = Some t \<longrightarrow>
         (\<exists>t'. finish_time (terminal_sessions g ! j) = Some t' \<and> t' \<le> t))
    \<and> (\<forall>m. rt_max p = Some m \<and> overflow_of p (length (terminal_sessions g)) \<le> nat (rt_batch p) \<longrightarrow>
         length (terminal_sessions (without (set (gc_selected p now (terminal_sessions g))) g)) \<le> nat m)"
  unfolding assms(2) by (rule collect_exact [OF run_keys_ok [OF assms(1)]])

definition ended_session :: "string \<Rightarrow> rat \<Rightarrow> graph_session" where
  "ended_session i t = \<lparr>gs_id = i, gs_trigger = ''adhoc'', gs_status = SCompleted, gs_state = [], gs_serial = None, gs_created = 1, gs_completed = Some t\<rparr>"

definition full_engine :: engine where
  "full_engine = new_engine [] None None\<lparr>en_store := empty_graph\<lparr>gr_sessions :=
     [(''s2'', ended_session ''s2'' 7), (''s1'', ended_session ''s1'' 3)]\<rparr>\<rparr>"

theorem collection_is_exact_witness:
  "collect_terminal_sessions (en_store full_engine) \<lparr>rt_ttl = None, rt_max = Some 1, rt_batch = 5, rt_interval = 60\<rparr> 9
     = Inr (without {''s1''} (en_store full_engine), [''s1''])"
proof -
  let ?p = "\<lparr>rt_ttl = None, rt_max = Some 1, rt_batch = 5, rt_interval = 60\<rparr>"
  have ok: "keys_ok (en_store full_engine)"
    by (simp add: full_engine_def keys_ok_def empty_graph_def dict_ok_def ended_session_def)
  have run: "en_store full_engine = en_store (engine_run idle_services [] full_engine)" by (simp add: engine_run_def)
  have "gc_selected ?p 9 (terminal_sessions (en_store full_engine)) = [''s1'']"
    by (simp add: full_engine_def empty_graph_def terminal_sessions_def ended_session_def finish_time_def gc_selected_def
        overflow_of_def expired_session_def)
  with collection_is_exact [OF ok run, of ?p 9] show ?thesis by simp
qed

end
