(* ===== verification/Return_Ingress.thy ===== *)
theory Return_Ingress
  imports Graph_Theorems
begin

text \<open>
  The return ingress (\<open>entourage/ingress.py\<close>): route registrations and the router that ends every external
  delivery as one append to a mailbox. The router's callables are optional, as in the code; \<open>runtime_router\<close> is
  the router wired to the graph runtime the way the class's documentation says. \<open>now\<close> is the clock reading of a call
  and \<open>fresh\<close> the random ID an event without one gets. The mailbox is one of the engine's boxes, by name.
\<close>

subsection \<open>Events and routes\<close>

definition correlation_conversation :: "string \<Rightarrow> string" where
  "correlation_conversation cid = ''corr:'' @ cid"

record inbound_event =
  iv_event_id :: string
  iv_kind :: string
  iv_source :: string
  iv_payload :: dict
  iv_correlation :: "string option"
  iv_conversation :: "string option"
  iv_created :: "rat option"

record ingress_route =
  rt_conversation :: string
  rt_expires :: "rat option"

type_synonym route_store = "(string \<times> ingress_route) list"

definition register_route :: "route_store \<Rightarrow> string \<Rightarrow> string \<Rightarrow> rat option \<Rightarrow> route_store" where
  "register_route rs cid conv expires = AList.update cid \<lparr>rt_conversation = conv, rt_expires = expires\<rparr> rs"

definition resolve_route :: "rat \<Rightarrow> route_store \<Rightarrow> string \<Rightarrow> string option" where
  "resolve_route now rs cid =
     (case map_of rs cid of
        None \<Rightarrow> None
      | Some r \<Rightarrow>
          if (case rt_expires r of None \<Rightarrow> False | Some t \<Rightarrow> t \<le> now) then None
          else Some (rt_conversation r))"

subsection \<open>The router\<close>

record ingress_router =
  ir_box :: string
  ir_routes :: route_store
  ir_default :: "string option"
  ir_waiting :: "(engine \<Rightarrow> string list) option"
  ir_wake :: "(rat \<Rightarrow> nat engine_act) option"
  ir_observe :: "(rat \<Rightarrow> string option \<Rightarrow> string option \<Rightarrow> unit engine_act) option"

definition route_register :: "ingress_router \<Rightarrow> string \<Rightarrow> string \<Rightarrow> rat option \<Rightarrow> ingress_router" where
  "route_register rt cid conv expires = rt\<lparr>ir_routes := register_route (ir_routes rt) cid conv expires\<rparr>"

text \<open>\<open>a or b\<close> on optional strings, and their truth.\<close>

definition nonempty :: "string option \<Rightarrow> bool" where
  "nonempty v \<longleftrightarrow> v \<noteq> None \<and> v \<noteq> Some []"

definition hinted :: "ingress_router \<Rightarrow> inbound_event \<Rightarrow> string option" where
  "hinted rt ev = (if nonempty (iv_conversation ev) then iv_conversation ev else ir_default rt)"

definition resolve_event :: "rat \<Rightarrow> ingress_router \<Rightarrow> engine \<Rightarrow> inbound_event \<Rightarrow> string option" where
  "resolve_event now rt s ev =
     (if nonempty (iv_correlation ev) then
        let cid = the (iv_correlation ev); routed = resolve_route now (ir_routes rt) cid in
        if nonempty routed then routed
        else if (case ir_waiting rt of None \<Rightarrow> False | Some f \<Rightarrow> correlation_conversation cid \<in> set (f s))
        then Some (correlation_conversation cid)
        else hinted rt ev
      else hinted rt ev)"

definition repr_opt :: "string option \<Rightarrow> string" where
  "repr_opt v = (case v of None \<Rightarrow> ''None'' | Some t \<Rightarrow> repr_str t)"

definition no_destination :: "inbound_event \<Rightarrow> py_error" where
  "no_destination ev = ValueError (''no destination for inbound event '' @ repr_str (iv_event_id ev)
     @ '' (correlation '' @ repr_opt (iv_correlation ev) @ '', no default inbox)'')"

definition envelope :: "inbound_event \<Rightarrow> dict" where
  "envelope ev =
     [(''event_id'', JStr (iv_event_id ev)), (''kind'', JStr (iv_kind ev)), (''source'', JStr (iv_source ev)),
      (''payload'', JObj (iv_payload ev))]
     @ (if nonempty (iv_correlation ev) then [(''correlation_id'', JStr (the (iv_correlation ev)))] else [])
     @ (case iv_created ev of None \<Rightarrow> [] | Some t \<Rightarrow> [(''created_at'', JFloat (Fin t))])"

text \<open>\<open>self.mailbox.append(conversation, envelope)\<close>.\<close>

definition deposit :: "rat \<Rightarrow> string \<Rightarrow> string \<Rightarrow> string \<Rightarrow> dict \<Rightarrow> unit engine_act" where
  "deposit now fresh box conv event s =
     (case map_of (en_boxes s) box of
        None \<Rightarrow> (s, Inl (KeyError box))
      | Some mb \<Rightarrow>
          (case append_mail_event now fresh mb conv event of
             Inl e \<Rightarrow> (s, Inl e)
           | Inr (mb', i) \<Rightarrow> (s\<lparr>en_boxes := AList.update box mb' (en_boxes s)\<rparr>, Inr ())))"

definition accept :: "rat \<Rightarrow> string \<Rightarrow> ingress_router \<Rightarrow> inbound_event \<Rightarrow> string engine_act" where
  "accept now fresh rt ev =
     abind (reads (\<lambda>s. resolve_event now rt s ev)) (\<lambda>dest.
       if \<not> nonempty dest then raise_error (no_destination ev)
       else
         aseq (deposit now fresh (ir_box rt) (the dest) (envelope ev))
         (aseq (case ir_observe rt of None \<Rightarrow> ret () | Some f \<Rightarrow> f now (iv_correlation ev) (Some (iv_source ev)))
         (aseq (case ir_wake rt of None \<Rightarrow> ret 0 | Some f \<Rightarrow> f now)
           (ret (the dest)))))"

definition runtime_router :: "route_store \<Rightarrow> string option \<Rightarrow> ingress_router" where
  "runtime_router routes inbox = \<lparr>ir_box = ''self'', ir_routes = routes, ir_default = inbox,
     ir_waiting = Some waiting_conversations, ir_wake = Some wake_due_waits, ir_observe = Some observe_event\<rparr>"

subsection \<open>Laws\<close>

lemma nonempty_Some [simp]: "nonempty (Some c) \<longleftrightarrow> c \<noteq> []" "\<not> nonempty None"
  by (simp_all add: nonempty_def)

lemma resolve_registered:
  "resolve_route now (register_route rs cid conv expires) x =
     (if x = cid then (if (case expires of None \<Rightarrow> False | Some t \<Rightarrow> t \<le> now) then None else Some conv) else resolve_route now rs x)"
  by (simp add: resolve_route_def register_route_def)

lemma envelope_id: "chosen_id fresh (envelope ev) = Inr (if iv_event_id ev = [] then fresh else iv_event_id ev)"
  by (simp add: chosen_id_def envelope_def)

lemma resolve_prefers:
  assumes "resolve_event now (runtime_router rs inbox) s ev = Some c"
  shows "(\<forall>cid r. iv_correlation ev = Some cid \<and> cid \<noteq> [] \<and> map_of rs cid = Some r \<and> rt_conversation r \<noteq> []
          \<and> (\<forall>t. rt_expires r = Some t \<longrightarrow> now < t) \<longrightarrow> c = rt_conversation r)
    \<and> (\<forall>h. iv_correlation ev = None \<and> iv_conversation ev = Some h \<and> h \<noteq> [] \<longrightarrow> c = h)"
  using assms by (auto simp: resolve_event_def resolve_route_def hinted_def runtime_router_def nonempty_def not_le Let_def split: option.splits if_splits)

text \<open>The wired router in one equation: deposit, observe, wake.\<close>

lemma accept_wired:
  "accept now fresh (runtime_router rs inbox) ev s =
     (case resolve_event now (runtime_router rs inbox) s ev of
        None \<Rightarrow> (s, Inl (no_destination ev))
      | Some c \<Rightarrow> if c = [] then (s, Inl (no_destination ev)) else
          (case deposit now fresh ''self'' c (envelope ev) s of
             (s1, Inl e) \<Rightarrow> (s1, Inl e)
           | (s1, Inr u) \<Rightarrow> (case wake_due_waits now (fst (observe_event now (iv_correlation ev) (Some (iv_source ev)) s1)) of
               (s2, Inl e) \<Rightarrow> (s2, Inl e) | (s2, Inr n) \<Rightarrow> (s2, Inr c))))"
  by (simp add: accept_def runtime_router_def abind_def aseq_def reads_def raise_error_def ret_def observe_event_def modifies_def
      split: option.split sum.split prod.split)

lemma deposit_own:
  "own_box s = Some mb \<Longrightarrow> iv_event_id ev \<noteq> [] \<Longrightarrow> c \<noteq> [] \<Longrightarrow>
     deposit now fresh ''self'' c (envelope ev) s =
       (case map_of (mb_ids mb) (iv_event_id ev) of
          Some (k, t) \<Rightarrow> if k = c then (s, Inr ())
            else (s, Inl (ValueError (''event_id '' @ repr_str (iv_event_id ev) @ '' belongs to another conversation'')))
        | None \<Rightarrow> (s\<lparr>en_boxes := AList.update ''self''
              \<lparr>mb_events = AList.update c (conversation mb c @ [appended now (mb_next mb) (iv_event_id ev) c (envelope ev)]) (mb_events mb),
               mb_ids = AList.update (iv_event_id ev) (c, now) (mb_ids mb), mb_next = Suc (mb_next mb)\<rparr> (en_boxes s)\<rparr>, Inr ()))"
  by (simp add: deposit_def own_box_def append_mail_event_def envelope_id rbind_def update_triv split: option.split prod.split)

lemma deposit_keeps: "deposit now fresh box c e s = (s', Inl x) \<Longrightarrow> s' = s"
  by (auto simp: deposit_def split: option.splits sum.splits prod.splits)

lemma wake_one_runs: "\<exists>n s'. wake_one now e s = (s', Inr n) \<and> en_boxes s' = en_boxes s \<and> en_monitors s' = en_monitors s"
  by (simp add: wake_one_def abind_def reads_def ret_def aseq_def send_to_queue_def queue_send_def modifies_def split_beta Let_def)

lemma wake_runs: "\<exists>n s'. wake_due_waits now s = (s', Inr n) \<and> en_boxes s' = en_boxes s \<and> en_monitors s' = en_monitors s"
proof -
  have "\<exists>n s'. sum_each (wake_one now) es m s = (s', Inr n) \<and> en_boxes s' = en_boxes s \<and> en_monitors s' = en_monitors s" for es m
  proof (induction es arbitrary: m s)
    case (Cons e es)
    from wake_one_runs [of now e s] obtain k s1 where
      s1: "wake_one now e s = (s1, Inr k)" "en_boxes s1 = en_boxes s" "en_monitors s1 = en_monitors s" by blast
    with Cons.IH [of "m + k" s1] show ?case by simp
  qed simp
  then show ?thesis by (simp add: wake_due_waits_def abind_def reads_def)
qed

lemma observe_fields [simp]:
  "en_boxes (fst (observe_event now c src s)) = en_boxes s" "en_store (fst (observe_event now c src s)) = en_store s"
  "en_queue (fst (observe_event now c src s)) = en_queue s"
  "en_monitors (fst (observe_event now c src s)) = map_option (\<lambda>ms. fst (observe_monitors ms c src now)) (en_monitors s)"
  by (simp_all add: observe_event_def modifies_def split: option.split)

lemma appended_claimable: "claimable now (appended now n i c ev)"
  by (simp add: claimable_def appended_ok)

text \<open>A wait on a conversation with claimable mail does not stay parked.\<close>

lemma woken_conversation:
  assumes "keys_ok (en_store s)" and "own_box s = Some mb" and "0 < claimable_count now mb c" and "c \<noteq> []"
  shows "c \<notin> set (waiting_conversations (fst (wake_due_waits now s)))"
proof
  let ?f = "\<lambda>e. if ex_status e = XWaiting \<and> wait_due now s e then e\<lparr>ex_status := XPending\<rparr> else e"
  assume "c \<in> set (waiting_conversations (fst (wake_due_waits now s)))"
  then obtain e where e: "e \<in> set (waiting_executions (en_store (fst (wake_due_waits now s))))"
    "map_option wk_conversation (ex_wake e) = Some c"
    by (auto simp: waiting_conversations_def List.map_filter_def)
  from e(1) obtain i e0 where e0: "e = ?f e0" "ex_status e = XWaiting"
    by (auto simp: wake_due_exact [OF assms(1)] waiting_executions_def)
  have e': "\<not> (ex_status e0 = XWaiting \<and> wait_due now s e0)"
  proof
    assume "ex_status e0 = XWaiting \<and> wait_due now s e0"
    then have "ex_status e = XPending" unfolding e0(1) by simp
    with e0(2) show False by simp
  qed
  then have "e = e0" unfolding e0(1) by simp
  with e' e0(2) have "\<not> wait_due now s e" by simp
  moreover from e(2) obtain w where "ex_wake e = Some w" "wk_conversation w = c" by auto
  ultimately show False using assms(2-4) by (simp add: wait_due_def)
qed

subsection \<open>Acceptance\<close>

lemma accept_run:
  assumes "keys_ok (en_store s)" and "own_box s = Some mb"
    and "resolve_event now (runtime_router rs inbox) s ev = Some c" and "c \<noteq> []" and "iv_event_id ev \<noteq> []"
    and "\<forall>k t. map_of (mb_ids mb) (iv_event_id ev) = Some (k, t) \<longrightarrow> k = c"
  shows "\<exists>s' mb'. accept now fresh (runtime_router rs inbox) ev s = (s', Inr c) \<and> own_box s' = Some mb'
    \<and> (\<forall>k. conversation mb' k = conversation mb k @
          (if k = c \<and> map_of (mb_ids mb) (iv_event_id ev) = None then [appended now (mb_next mb) (iv_event_id ev) c (envelope ev)] else []))
    \<and> (\<forall>b. b \<noteq> ''self'' \<longrightarrow> map_of (en_boxes s') b = map_of (en_boxes s) b)
    \<and> en_monitors s' = map_option (\<lambda>ms. fst (observe_monitors ms (iv_correlation ev) (Some (iv_source ev)) now)) (en_monitors s)
    \<and> en_queue s' = en_queue s @ map (wake_message now) (filter (wait_due now s') (waiting_executions (en_store s)))
    \<and> (map_of (mb_ids mb) (iv_event_id ev) = None \<longrightarrow> c \<notin> set (waiting_conversations s'))"
proof -
  let ?new = "map_of (mb_ids mb) (iv_event_id ev) = None"
  define mb1 where "mb1 = (if ?new then \<lparr>mb_events = AList.update c (conversation mb c @ [appended now (mb_next mb) (iv_event_id ev) c (envelope ev)]) (mb_events mb),
               mb_ids = AList.update (iv_event_id ev) (c, now) (mb_ids mb), mb_next = Suc (mb_next mb)\<rparr> else mb)"
  obtain s1 where s1: "deposit now fresh ''self'' c (envelope ev) s = (s1, Inr ())"
    "s1 = s\<lparr>en_boxes := AList.update ''self'' mb1 (en_boxes s)\<rparr>"
    using deposit_own [OF assms(2,5,4), of now fresh] assms(2,6) unfolding mb1_def
    by (cases "map_of (mb_ids mb) (iv_event_id ev)") (auto simp: own_box_def update_triv)
  let ?s2 = "fst (observe_event now (iv_correlation ev) (Some (iv_source ev)) s1)"
  have box2: "own_box ?s2 = Some mb1" by (simp add: own_box_def s1(2))
  have k2: "keys_ok (en_store ?s2)" using assms(1) by (simp add: s1(2))
  obtain n s' where run: "wake_due_waits now ?s2 = (s', Inr n)" "en_boxes s' = en_boxes s1" "en_monitors s' = en_monitors ?s2"
    using wake_runs [of now ?s2] by auto
  then have s': "fst (wake_due_waits now ?s2) = s'" by simp
  have acc: "accept now fresh (runtime_router rs inbox) ev s = (s', Inr c)"
    using assms(4) by (simp add: accept_wired assms(3) s1(1) run(1))
  have box': "own_box s' = Some mb1" using box2 run(2) by (simp add: own_box_def)
  have con: "conversation mb1 k = conversation mb k @ (if k = c \<and> ?new
      then [appended now (mb_next mb) (iv_event_id ev) c (envelope ev)] else [])" for k
    by (simp add: conversation_def mb1_def)
  have w: "wait_due now s' = wait_due now ?s2" using wait_due_boxes [of s' ?s2 now] run(2) by auto
  have "en_queue (fst (wake_due_waits now ?s2)) = en_queue s @ map (wake_message now) (filter (wait_due now ?s2) (waiting_executions (en_store s)))"
    unfolding wake_due_exact [OF k2] by (simp add: s1(2))
  then have q: "en_queue s' = en_queue s @ map (wake_message now) (filter (wait_due now s') (waiting_executions (en_store s)))"
    unfolding w s' .
  have wait: "c \<notin> set (waiting_conversations s')" if ?new
    using that appended_claimable
    unfolding s' [symmetric] by (intro woken_conversation [OF k2 box2 _ assms(4)]) (simp add: claimable_count_def con)
  have other: "\<forall>b. b \<noteq> ''self'' \<longrightarrow> map_of (en_boxes s') b = map_of (en_boxes s) b" unfolding run(2) s1(2) by simp
  have mon: "en_monitors s' = map_option (\<lambda>ms. fst (observe_monitors ms (iv_correlation ev) (Some (iv_source ev)) now)) (en_monitors s)"
    unfolding run(3) by (simp add: s1(2))
  show ?thesis
    by (rule exI [of _ s'], rule exI [of _ mb1], intro conjI acc box' allI [OF con] other mon q impI wait)
qed

text \<open>
  C29. An accepted event reaches the conversation it resolves to. After any run from a consistent graph, \<open>accept\<close>
  of an event whose ID is new or known in that very conversation returns the conversation; a new event is
  appended there, at the end and nowhere else, a known one changes no mailbox; the monitors observe it;
  and when it is new no execution stays parked on that conversation: each due wait is made pending and queued.
  A live route for the event's correlation ID decides the conversation, and without a correlation the event's own hint.
\<close>

theorem accept_delivers:
  assumes "keys_ok (en_store s0)" and "s = engine_run sv ops s0" and "own_box s = Some mb"
    and "resolve_event now (runtime_router rs inbox) s ev = Some c" and "c \<noteq> []" and "iv_event_id ev \<noteq> []"
    and "\<forall>k t. map_of (mb_ids mb) (iv_event_id ev) = Some (k, t) \<longrightarrow> k = c"
  shows "\<exists>s' mb'. accept now fresh (runtime_router rs inbox) ev s = (s', Inr c) \<and> own_box s' = Some mb'
    \<and> (\<forall>k. conversation mb' k = conversation mb k @
          (if k = c \<and> map_of (mb_ids mb) (iv_event_id ev) = None then [appended now (mb_next mb) (iv_event_id ev) c (envelope ev)] else []))
    \<and> (\<forall>b. b \<noteq> ''self'' \<longrightarrow> map_of (en_boxes s') b = map_of (en_boxes s) b)
    \<and> en_monitors s' = map_option (\<lambda>ms. fst (observe_monitors ms (iv_correlation ev) (Some (iv_source ev)) now)) (en_monitors s)
    \<and> en_queue s' = en_queue s @ map (wake_message now) (filter (wait_due now s') (waiting_executions (en_store s)))
    \<and> (map_of (mb_ids mb) (iv_event_id ev) = None \<longrightarrow> c \<notin> set (waiting_conversations s'))
    \<and> (\<forall>cid r. iv_correlation ev = Some cid \<and> cid \<noteq> [] \<and> map_of rs cid = Some r \<and> rt_conversation r \<noteq> []
          \<and> (\<forall>t. rt_expires r = Some t \<longrightarrow> now < t) \<longrightarrow> c = rt_conversation r)
    \<and> (\<forall>h. iv_correlation ev = None \<and> iv_conversation ev = Some h \<and> h \<noteq> [] \<longrightarrow> c = h)"
proof -
  have "keys_ok (en_store s)" unfolding assms(2) by (rule run_keys_ok [OF assms(1)])
  from accept_run [OF this assms(3-7), where fresh = fresh] show ?thesis
    apply (elim exE conjE)
    by (intro exI conjI; (assumption | rule resolve_prefers [OF assms(4), THEN conjunct1] resolve_prefers [OF assms(4), THEN conjunct2]))
qed

definition result_event :: inbound_event where
  "result_event = \<lparr>iv_event_id = ''r1'', iv_kind = ''result'', iv_source = ''remote'', iv_payload = [(''answer'', JInt 42)],
     iv_correlation = Some ''op-1'', iv_conversation = None, iv_created = None\<rparr>"

text \<open>One execution is parked on \<open>corr:op-1\<close>.\<close>

definition awaiting_engine :: engine where
  "awaiting_engine = new_engine [] (Some empty_mailbox) None\<lparr>en_store := empty_graph\<lparr>gr_execs :=
     [(''e1'', (new_execution 1 ''e1'' ''s1'' wait_name None)\<lparr>ex_status := XWaiting, ex_wake := Some \<lparr>wk_conversation = ''corr:op-1'', wk_at = None\<rparr>\<rparr>)]\<rparr>\<rparr>"

lemma awaiting_engine_facts:
  "keys_ok (en_store awaiting_engine)" "own_box awaiting_engine = Some empty_mailbox"
  "resolve_event now (runtime_router [] inbox) awaiting_engine result_event = Some ''corr:op-1''"
  by (simp_all add: awaiting_engine_def keys_ok_def empty_graph_def dict_ok_def new_execution_def own_box_def new_engine_def
      resolve_event_def runtime_router_def result_event_def resolve_route_def correlation_conversation_def
      waiting_conversations_def waiting_executions_def List.map_filter_def)

theorem accept_delivers_witness:
  "\<exists>s' mb'. accept 5 [] (runtime_router [] (Some ''inbox'')) result_event awaiting_engine = (s', Inr ''corr:op-1'')
     \<and> own_box s' = Some mb' \<and> map me_id (conversation mb' ''corr:op-1'') = [''r1''] \<and> conversation mb' ''inbox'' = []
     \<and> ''corr:op-1'' \<notin> set (waiting_conversations s')"
proof -
  have run: "awaiting_engine = engine_run idle_services [] awaiting_engine" by (simp add: engine_run_def)
  have p: "''corr:op-1'' \<noteq> []" "iv_event_id result_event \<noteq> []"
    "\<forall>k t. map_of (mb_ids empty_mailbox) (iv_event_id result_event) = Some (k, t) \<longrightarrow> k = ''corr:op-1''"
    by (simp_all add: result_event_def empty_mailbox_def)
  have new: "map_of (mb_ids empty_mailbox) (iv_event_id result_event) = None" "iv_event_id result_event = ''r1''"
    by (simp_all add: result_event_def empty_mailbox_def)
  from accept_delivers [OF awaiting_engine_facts(1) run awaiting_engine_facts(2,3) p, where fresh = "[]" and now = 5 and inbox = "Some ''inbox''"]
  obtain s' mb' where "accept 5 [] (runtime_router [] (Some ''inbox'')) result_event awaiting_engine = (s', Inr ''corr:op-1'')"
    and "own_box s' = Some mb'"
    and con: "\<forall>k. conversation mb' k = conversation empty_mailbox k @ (if k = ''corr:op-1'' \<and> map_of (mb_ids empty_mailbox) (iv_event_id result_event) = None
          then [appended 5 (mb_next empty_mailbox) (iv_event_id result_event) ''corr:op-1'' (envelope result_event)] else [])"
    and "map_of (mb_ids empty_mailbox) (iv_event_id result_event) = None \<longrightarrow> ''corr:op-1'' \<notin> set (waiting_conversations s')"
    by (elim exE conjE) (rule that)
  moreover have "map me_id (conversation mb' ''corr:op-1'') = [''r1'']" "conversation mb' ''inbox'' = []"
    by (simp_all add: con new appended_ok) (simp_all add: conversation_def empty_mailbox_def)
  ultimately show ?thesis using new(1) by (intro exI [of _ s'] exI [of _ mb'] conjI) simp_all
qed


text \<open>
  The wait ends between two deliveries of one event: its replay then resolves to the inbox and is refused, although
  the first delivery was accepted.
\<close>

definition woken_engine :: engine where
  "woken_engine = fst (accept 5 [] (runtime_router [] (Some ''inbox'')) result_event awaiting_engine)"


end
