(* ===== verification/Shard.thy ===== *)
theory Shard
  imports Dispatcher
begin

text \<open>
  The shard manifest and the worker's command line (\<open>entourage/runner.py\<close>, classes \<open>Member\<close> and \<open>Shard\<close>;
  \<open>entourage/worker.py\<close>). A manifest is its parsed YAML document; names and paths in it are
  strings and the runner's numbers integers. Reading files, resolving paths, and reading and showing a float are a record
  of functions. An option of the command line is given by its full name, its value as a word of its own.
\<close>

subsection \<open>Members and shards\<close>

record shard_member =
  sm_alias :: string
  sm_folder :: string
  sm_definition :: string
  sm_start :: string
  sm_reserved :: int
  sm_parallel :: int
  sm_idle_exit :: "pyfloat option"
  sm_lease :: pyfloat
  sm_max_attempts :: int

record shard =
  sh_name :: string
  sh_store :: string
  sh_members :: "(string \<times> shard_member) list"
  sh_pool :: int
  sh_notify :: "string option"
  sh_launcher :: dict

record platform =
  pf_yaml :: "string \<Rightarrow> json res"
  pf_join :: "string \<Rightarrow> string \<Rightarrow> string"
  pf_read_float :: "string \<Rightarrow> pyfloat option"
  pf_show_float :: "pyfloat \<Rightarrow> string"
  pf_read_int :: "string \<Rightarrow> int option"

subsection \<open>Values of a manifest\<close>

definition only_keys :: "string list \<Rightarrow> dict \<Rightarrow> bool" where
  "only_keys allowed d = list_all (\<lambda>(k, v). k \<in> set allowed) d"

text \<open>\<open>value or {}\<close>, read as a mapping.\<close>

definition mapping_or_empty :: "json option \<Rightarrow> dict res" where
  "mapping_or_empty v =
     (case v of
        None \<Rightarrow> Inr []
      | Some w \<Rightarrow> if \<not> truthy w then Inr []
          else (case w of JObj d \<Rightarrow> Inr d | _ \<Rightarrow> Inl (OtherError ''AttributeError'' ''not a mapping'')))"

definition plain_int :: "json \<Rightarrow> int res" where
  "plain_int v = (case v of JInt i \<Rightarrow> Inr i | JBool b \<Rightarrow> Inr (if b then 1 else 0) | _ \<Rightarrow> Inl (TypeError ''not a number''))"

definition plain_str :: "json \<Rightarrow> string res" where
  "plain_str v = (case v of JStr s \<Rightarrow> Inr s | _ \<Rightarrow> Inl (TypeError ''not a string''))"

text \<open>\<open>float(v)\<close> and \<open>int(v)\<close>.\<close>

definition to_float :: "platform \<Rightarrow> json \<Rightarrow> pyfloat res" where
  "to_float pf v =
     (case v of
        JInt i \<Rightarrow> Inr (Fin (of_int i))
      | JBool b \<Rightarrow> Inr (Fin (if b then 1 else 0))
      | JFloat x \<Rightarrow> Inr x
      | JStr s \<Rightarrow> (case pf_read_float pf s of None \<Rightarrow> Inl (ValueError (''could not convert string to float: '' @ repr_str s)) | Some x \<Rightarrow> Inr x)
      | _ \<Rightarrow> Inl (TypeError ''float() argument''))"

definition to_int :: "platform \<Rightarrow> json \<Rightarrow> int res" where
  "to_int pf v =
     (case v of
        JInt i \<Rightarrow> Inr i
      | JBool b \<Rightarrow> Inr (if b then 1 else 0)
      | JFloat (Fin r) \<Rightarrow> Inr (if 0 \<le> r then \<lfloor>r\<rfloor> else \<lceil>r\<rceil>)
      | JFloat NaN \<Rightarrow> Inl (ValueError ''cannot convert float NaN to integer'')
      | JFloat x \<Rightarrow> Inl (OtherError ''OverflowError'' ''cannot convert float infinity to integer'')
      | JStr s \<Rightarrow> (case pf_read_int pf s of None \<Rightarrow> Inl (ValueError (''invalid literal for int() with base 10: '' @ repr_str s)) | Some i \<Rightarrow> Inr i)
      | _ \<Rightarrow> Inl (TypeError ''int() argument''))"

definition required :: "dict \<Rightarrow> string \<Rightarrow> json res" where
  "required d k = (case map_of d k of None \<Rightarrow> Inl (KeyError k) | Some v \<Rightarrow> Inr v)"

text \<open>\<open>x <= 0\<close> on a float: false of NaN.\<close>

definition not_positive :: "pyfloat \<Rightarrow> bool" where
  "not_positive x = (case x of Fin r \<Rightarrow> r \<le> 0 | NegInf \<Rightarrow> True | _ \<Rightarrow> False)"

subsection \<open>Reading a manifest\<close>

definition member_numbers_ok :: "shard_member \<Rightarrow> bool" where
  "member_numbers_ok m \<longleftrightarrow> \<not> (sm_reserved m < 0 \<or> sm_parallel m < 1 \<or> not_positive (sm_lease m) \<or> sm_max_attempts m < 1)"

definition read_member :: "platform \<Rightarrow> string \<Rightarrow> string \<Rightarrow> dict \<Rightarrow> shard_member res" where
  "read_member pf parent alias spec =
     rbind (rbind (required spec ''folder'') plain_str) (\<lambda>sub.
     let folder = pf_join pf parent sub in
     rbind (pf_yaml pf (pf_join pf folder ''agent.yaml'')) (\<lambda>agent.
     rbind (mapping_or_empty (map_of spec ''runner'')) (\<lambda>rn.
     rbind (mapping_or_empty (map_of spec ''worker'')) (\<lambda>wk.
     if \<not> only_keys [''start'', ''reserved'', ''parallel''] rn \<or> \<not> only_keys [''idle_exit'', ''lease'', ''max_attempts''] wk
     then Inl (ValueError (''member '' @ repr_str alias @ '' has unknown policy fields''))
     else
       let start = dict_get rn ''start'' (JStr ''on_demand'') in
       if start \<notin> {JStr ''eager'', JStr ''on_demand''}
       then Inl (ValueError (''member '' @ repr_str alias @ '': start must be eager or on_demand''))
       else
         let eager = (start = JStr ''eager'');
             idle = dict_get wk ''idle_exit'' (if eager then JStr ''never'' else JInt 600) in
         rbind (case agent of JObj d \<Rightarrow> rbind (required d ''definition'') plain_str | _ \<Rightarrow> Inl (TypeError ''agent.yaml'')) (\<lambda>definition.
         rbind (plain_int (dict_get rn ''reserved'' (JInt (if eager then 1 else 0)))) (\<lambda>reserved.
         rbind (plain_int (dict_get rn ''parallel'' (JInt 1))) (\<lambda>parallel.
         rbind (if idle = JStr ''never'' then Inr None else rbind (to_float pf idle) (\<lambda>t. Inr (Some t))) (\<lambda>idle_exit.
         rbind (to_float pf (dict_get wk ''lease'' (JInt 300))) (\<lambda>lease.
         rbind (to_int pf (dict_get wk ''max_attempts'' (JInt 3))) (\<lambda>attempts.
         let m = \<lparr>sm_alias = alias, sm_folder = folder, sm_definition = definition, sm_start = str_of start,
                   sm_reserved = reserved, sm_parallel = max parallel reserved, sm_idle_exit = idle_exit,
                   sm_lease = lease, sm_max_attempts = attempts\<rparr> in
         if \<not> member_numbers_ok m then Inl (ValueError (''member '' @ repr_str alias @ '': invalid policy numbers''))
         else Inr m))))))))))"

definition add_shard_member :: "platform \<Rightarrow> string \<Rightarrow> (string \<times> shard_member) list \<Rightarrow> string \<times> json \<Rightarrow> ((string \<times> shard_member) list) res" where
  "add_shard_member pf parent ms entry =
     (case entry of (alias, spec) \<Rightarrow>
        (case spec of
           JObj d \<Rightarrow>
             if CHR '':'' \<in> set alias then Inl (ValueError (''invalid member '' @ repr_str alias))
             else if \<not> only_keys [''folder'', ''runner'', ''worker''] d
             then Inl (ValueError (''member '' @ repr_str alias @ '' has unknown fields''))
             else rbind (read_member pf parent alias d) (\<lambda>m. Inr (AList.update alias m ms))
         | _ \<Rightarrow> Inl (ValueError (''invalid member '' @ repr_str alias))))"

definition shard_from_manifest :: "platform \<Rightarrow> string \<Rightarrow> json \<Rightarrow> shard res" where
  "shard_from_manifest pf parent data =
     (case data of
        JObj d \<Rightarrow>
          if \<not> only_keys [''shard'', ''store'', ''pool'', ''notify'', ''launcher'', ''executables''] d \<or> map_of d ''shard'' = None
          then Inl (ValueError ''invalid shard manifest or unknown fields'')
          else
            rbind (mapping_or_empty (map_of d ''executables'')) (\<lambda>specs.
            rbind (fold_res (add_shard_member pf parent) [] specs) (\<lambda>members.
            rbind (rbind (required d ''shard'') plain_str) (\<lambda>name.
            rbind (plain_str (dict_get d ''store'' (JStr ''sessions.db''))) (\<lambda>store.
            rbind (to_int pf (dict_get d ''pool'' (JInt 4))) (\<lambda>pool.
            rbind (case map_of d ''notify'' of None \<Rightarrow> Inr None | Some JNull \<Rightarrow> Inr None
                     | Some v \<Rightarrow> rbind (plain_str v) (\<lambda>t. Inr (Some t))) (\<lambda>notify.
            rbind (mapping_or_empty (map_of d ''launcher'')) (\<lambda>launcher.
              Inr \<lparr>sh_name = name, sh_store = pf_join pf parent store, sh_members = members, sh_pool = pool,
                   sh_notify = notify, sh_launcher = (if launcher = [] then [(''kind'', JStr ''process'')] else launcher)\<rparr>)))))))
      | _ \<Rightarrow> Inl (ValueError ''invalid shard manifest or unknown fields''))"

subsection \<open>The worker's command line\<close>

definition worker_args :: "platform \<Rightarrow> shard_member \<Rightarrow> string list" where
  "worker_args pf m =
     [''--lease'', pf_show_float pf (sm_lease m), ''--max-attempts'', int_text (sm_max_attempts m)]
     @ (case sm_idle_exit m of None \<Rightarrow> [] | Some t \<Rightarrow> [''--idle-exit'', pf_show_float pf t])"

text \<open>The command line of a worker process, after \<open>python -m entourage.worker\<close>.\<close>

definition worker_command :: "platform \<Rightarrow> string \<Rightarrow> string \<Rightarrow> shard_member \<Rightarrow> string list" where
  "worker_command pf store name m =
     [''--store'', store, ''--agent'', sm_folder m, ''--worker'', name] @ worker_args pf m"

record worker_options =
  wo_store :: "string option"
  wo_agents :: "string list"
  wo_manifests :: "string list"
  wo_session :: "string option"
  wo_worker :: "string option"
  wo_idle_exit :: "pyfloat option"
  wo_lease :: pyfloat
  wo_max_attempts :: int
  wo_poll :: pyfloat
  wo_max_events :: int
  wo_log_level :: string

definition default_options :: worker_options where
  "default_options = \<lparr>wo_store = None, wo_agents = [], wo_manifests = [], wo_session = None, wo_worker = None,
     wo_idle_exit = None, wo_lease = Fin 300, wo_max_attempts = 3, wo_poll = Fin (1/2), wo_max_events = 64,
     wo_log_level = ''INFO''\<rparr>"

text \<open>The parser ends the process on a command line it cannot read.\<close>

definition usage_error :: "string \<Rightarrow> py_error" where
  "usage_error m = OtherError ''SystemExit'' m"

definition float_value :: "platform \<Rightarrow> string \<Rightarrow> pyfloat res" where
  "float_value pf s = (case pf_read_float pf s of None \<Rightarrow> Inl (usage_error ''invalid float value'') | Some x \<Rightarrow> Inr x)"

definition int_value :: "platform \<Rightarrow> string \<Rightarrow> int res" where
  "int_value pf s = (case pf_read_int pf s of None \<Rightarrow> Inl (usage_error ''invalid int value'') | Some x \<Rightarrow> Inr x)"

definition set_option :: "platform \<Rightarrow> string \<Rightarrow> string \<Rightarrow> worker_options \<Rightarrow> worker_options res" where
  "set_option pf name v wo =
     (if name = ''--store'' then Inr (wo\<lparr>wo_store := Some v\<rparr>)
      else if name = ''--agent'' then Inr (wo\<lparr>wo_agents := wo_agents wo @ [v]\<rparr>)
      else if name = ''--manifest'' then Inr (wo\<lparr>wo_manifests := wo_manifests wo @ [v]\<rparr>)
      else if name = ''--session'' then Inr (wo\<lparr>wo_session := Some v\<rparr>)
      else if name = ''--worker'' then Inr (wo\<lparr>wo_worker := Some v\<rparr>)
      else if name = ''--idle-exit'' then rbind (float_value pf v) (\<lambda>x. Inr (wo\<lparr>wo_idle_exit := Some x\<rparr>))
      else if name = ''--lease'' then rbind (float_value pf v) (\<lambda>x. Inr (wo\<lparr>wo_lease := x\<rparr>))
      else if name = ''--max-attempts'' then rbind (int_value pf v) (\<lambda>x. Inr (wo\<lparr>wo_max_attempts := x\<rparr>))
      else if name = ''--poll'' then rbind (float_value pf v) (\<lambda>x. Inr (wo\<lparr>wo_poll := x\<rparr>))
      else if name = ''--max-events'' then rbind (int_value pf v) (\<lambda>x. Inr (wo\<lparr>wo_max_events := x\<rparr>))
      else if name = ''--log-level'' then Inr (wo\<lparr>wo_log_level := v\<rparr>)
      else Inl (usage_error (''unrecognized arguments: '' @ name)))"

text \<open>A word that starts with a dash and is no negative number is never taken for a value.\<close>

definition negative_number :: "string \<Rightarrow> bool" where
  "negative_number s \<longleftrightarrow> starts_with ''-'' s \<and> tl s \<noteq> [] \<and> list_all (\<lambda>c. c \<in> set ''0123456789.'') (tl s)"

definition option_like :: "string \<Rightarrow> bool" where
  "option_like s \<longleftrightarrow> starts_with ''-'' s \<and> \<not> negative_number s"

fun parse_words :: "platform \<Rightarrow> string list \<Rightarrow> worker_options \<Rightarrow> worker_options res" where
  "parse_words pf [] wo = Inr wo"
| "parse_words pf [w] wo = Inl (usage_error ''expected one argument'')"
| "parse_words pf (w # v # rest) wo =
     (if option_like v then Inl (usage_error ''expected one argument'')
      else rbind (set_option pf w v wo) (parse_words pf rest))"

definition parse_worker :: "platform \<Rightarrow> string list \<Rightarrow> worker_options res" where
  "parse_worker pf argv =
     rbind (parse_words pf argv default_options) (\<lambda>wo.
       if wo_store wo = None then Inl (usage_error ''the following arguments are required: --store'') else Inr wo)"

text \<open>
  The worker up to its first claim: the options, the dispatcher it builds over the store, the definitions it
  registers. \<open>load\<close> is \<open>Executable.from_manifest\<close> on a path.
\<close>

definition worker_manifests :: "platform \<Rightarrow> worker_options \<Rightarrow> string list" where
  "worker_manifests pf wo = map (\<lambda>folder. pf_join pf folder ''agent.yaml'') (wo_agents wo) @ wo_manifests wo"

definition register_manifest ::
    "'db backend \<Rightarrow> (string \<Rightarrow> executable res) \<Rightarrow> (string \<Rightarrow> string) \<Rightarrow> 'db \<times> dispatcher \<Rightarrow> string \<Rightarrow> ('db \<times> dispatcher) res" where
  "register_manifest be load digest x path =
     rbind (load path) (\<lambda>ex. register be digest (fst x) (snd x) ex None None)"

definition worker_ready ::
    "platform \<Rightarrow> 'db backend \<Rightarrow> (string \<Rightarrow> executable res) \<Rightarrow> (string \<Rightarrow> string) \<Rightarrow> string \<Rightarrow> string list \<Rightarrow> 'db
       \<Rightarrow> ('db \<times> dispatcher) res" where
  "worker_ready pf be load digest host argv db =
     rbind (parse_worker pf argv) (\<lambda>wo.
     if worker_manifests pf wo = [] then Inl (usage_error ''at least one --agent folder or --manifest is required'')
     else
       rbind (new_dispatcher host (wo_max_events wo) (wo_lease wo) (Some (wo_max_attempts wo)) (wo_worker wo) (wo_session wo)) (\<lambda>d.
         fold_res (register_manifest be load digest) (db, d) (worker_manifests pf wo)))"

definition worker_main ::
    "platform \<Rightarrow> 'db backend \<Rightarrow> (string \<Rightarrow> executable res) \<Rightarrow> (string \<Rightarrow> string) \<Rightarrow> string \<Rightarrow> string list \<Rightarrow> (bool \<times> wake_env) list
       \<Rightarrow> 'db \<Rightarrow> ('db \<times> resident \<times> dispatch_result list) res" where
  "worker_main pf be load digest host argv world db =
     rbind (worker_ready pf be load digest host argv db) (\<lambda>(db', d).
     rbind (parse_worker pf argv) (\<lambda>wo.
       run_forever be (wo_poll wo) (wo_idle_exit wo) world d db'))"

subsection \<open>Laws\<close>

definition member_ok :: "string \<times> shard_member \<Rightarrow> bool" where
  "member_ok e = (case e of (alias, m) \<Rightarrow> sm_alias m = alias \<and> CHR '':'' \<notin> set alias \<and> sm_start m \<in> {''eager'', ''on_demand''}
     \<and> 0 \<le> sm_reserved m \<and> sm_reserved m \<le> sm_parallel m \<and> 1 \<le> sm_parallel m \<and> \<not> not_positive (sm_lease m) \<and> 1 \<le> sm_max_attempts m)"

lemma read_member_ok: "read_member pf parent alias d = Inr m \<Longrightarrow> CHR '':'' \<notin> set alias \<Longrightarrow> member_ok (alias, m)"
  by (auto simp: read_member_def Let_def result_simps member_ok_def member_numbers_ok_def str_of_def split: if_splits)

lemma update_members: "set (AList.update k v d) \<subseteq> insert (k, v) (set d)"
  by (induction d) auto

lemma add_shard_member_ok:
  "add_shard_member pf parent ms entry = Inr ms' \<Longrightarrow> dict_ok ms \<and> list_all member_ok ms \<Longrightarrow> dict_ok ms' \<and> list_all member_ok ms'"
proof -
  assume a: "add_shard_member pf parent ms entry = Inr ms'" and ok: "dict_ok ms \<and> list_all member_ok ms"
  obtain nm spec where e: "entry = (nm, spec)" by (cases entry)
  from a e obtain d m where "CHR '':'' \<notin> set nm" "read_member pf parent nm d = Inr m" "ms' = AList.update nm m ms"
    by (auto simp: add_shard_member_def result_simps split: json.splits if_splits)
  with read_member_ok [of pf parent nm d m] ok update_members [of nm m ms] show ?thesis
    by (auto simp: list_all_iff)
qed

text \<open>
  C34. An accepted manifest describes a shard in bounds. Its members have distinct aliases without a colon, each is
  stored under its own alias, starts eagerly or on demand, may run at least one worker and at least as many as
  it has reserved, has a lease that is not zero or less, and at least one attempt.
\<close>

theorem manifest_is_in_bounds:
  assumes "shard_from_manifest pf parent data = Inr sh"
  shows "dict_ok (sh_members sh) \<and> list_all member_ok (sh_members sh)"
proof -
  from assms obtain specs where "fold_res (add_shard_member pf parent) [] specs = Inr (sh_members sh)"
    by (auto simp: shard_from_manifest_def result_simps split: json.splits if_splits)
  then show ?thesis
    by (rule fold_res_invariant [where P = "\<lambda>ms. dict_ok ms \<and> list_all member_ok ms", rotated])
       (simp_all add: add_shard_member_ok)
qed

definition plain_platform :: platform where
  "plain_platform = \<lparr>pf_yaml = (\<lambda>p. Inr (JObj [(''definition'', JStr ''echo:v1'')])), pf_join = (\<lambda>a b. a @ ''/'' @ b),
     pf_read_float = (\<lambda>s. if s = ''300.0'' then Some (Fin 300) else if s = ''600.0'' then Some (Fin 600) else None),
     pf_show_float = (\<lambda>x. if x = Fin 300 then ''300.0'' else ''600.0''),
     pf_read_int = (\<lambda>s. if s = ''3'' then Some 3 else None)\<rparr>"

definition small_manifest :: json where
  "small_manifest = JObj [(''shard'', JStr ''s''), (''executables'', JObj [(''echo'', JObj [(''folder'', JStr ''echo'')]),
     (''desk'', JObj [(''folder'', JStr ''desk''), (''runner'', JObj [(''start'', JStr ''eager'')])])])]"

theorem manifest_is_in_bounds_witness:
  "\<exists>sh. shard_from_manifest plain_platform ''/srv'' small_manifest = Inr sh \<and> map fst (sh_members sh) = [''echo'', ''desk'']
     \<and> dict_ok (sh_members sh) \<and> list_all member_ok (sh_members sh)"
proof -
  have "case shard_from_manifest plain_platform ''/srv'' small_manifest of
      Inr sh \<Rightarrow> map fst (sh_members sh) = [''echo'', ''desk''] | Inl e \<Rightarrow> False"
    by code_simp
  then obtain sh where sh: "shard_from_manifest plain_platform ''/srv'' small_manifest = Inr sh" "map fst (sh_members sh) = [''echo'', ''desk'']"
    by (auto split: sum.splits)
  show ?thesis by (rule exI [of _ sh], intro conjI sh manifest_is_in_bounds [OF sh(1), THEN conjunct1] manifest_is_in_bounds [OF sh(1), THEN conjunct2])
qed

lemma digits_plain: "CHR ''-'' \<notin> set (nat_text n)"
proof (induction n rule: nat_text.induct)
  case (1 n)
  have d: "CHR ''-'' \<noteq> digit_char d" if "d < 10" for d
  proof
    assume "CHR ''-'' = digit_char d"
    with of_digit_char [OF that] have "(of_char CHR ''-'' :: nat) = 48 + d" by simp
    then show False by simp
  qed
  show ?case
    using d [of n] d [of "n mod 10"] 1 by (subst nat_text.simps) auto
qed

lemma int_text_value: "1 \<le> i \<Longrightarrow> \<not> option_like (int_text i)"
  using digits_plain [of "nat i"] by (cases "nat_text (nat i)") (auto simp: option_like_def int_text_def starts_with_def)


definition echo_member :: shard_member where
  "echo_member = \<lparr>sm_alias = ''echo'', sm_folder = ''/srv/echo'', sm_definition = ''echo:v1'', sm_start = ''on_demand'',
     sm_reserved = 0, sm_parallel = 2, sm_idle_exit = Some (Fin 600), sm_lease = Fin 300, sm_max_attempts = 3\<rparr>"


text \<open>
  What the manifest lets through and the worker refuses: a lease that is infinite, and an idle time below zero.
\<close>

lemma accepted_lease_stops_the_worker:
  "member_numbers_ok (echo_member\<lparr>sm_lease := PosInf\<rparr>)
     \<and> new_dispatcher host 64 PosInf (Some 3) (Some name) None = Inl (ValueError ''lease_seconds must be finite and positive'')"
  by (simp add: member_numbers_ok_def echo_member_def not_positive_def new_dispatcher_def isfinite_def)

lemma accepted_idle_stops_the_worker:
  "member_numbers_ok (echo_member\<lparr>sm_idle_exit := Some (Fin (- 1))\<rparr>)
     \<and> run_forever be (Fin (1/2)) (Some (Fin (- 1))) world d db = Inl (ValueError ''idle_exit must be finite and nonnegative'')"
  by (simp add: member_numbers_ok_def echo_member_def not_positive_def run_forever_def)

end
