(* ===== verification/Runner.thy ===== *)
theory Runner
  imports Shard
begin

text \<open>
  The shard runner (\<open>entourage/runner.py\<close>): launchers that own worker processes, the failure notices, and the
  runner's tick over any launcher and any session store. The operating system is part of a launcher's state:
  its processes, which may end at any time between the runner's calls. A launcher is a record of actions on its
  state; an action may raise. \<open>podman\<close> is a function from a command line to its exit code and output.
\<close>

subsection \<open>Launchers\<close>

record running =
  ru_alias :: string
  ru_started :: rat

record 'l launcher =
  la_start :: "string \<Rightarrow> shard_member \<Rightarrow> rat \<Rightarrow> ('l, unit) act"
  la_running :: "('l, (string \<times> running) list) act"
  la_stop :: "string \<Rightarrow> ('l, unit) act"
  la_kill :: "string \<Rightarrow> ('l, unit) act"
  la_reap :: "('l, nat) act"

subsection \<open>Workers as child processes\<close>

record os_process =
  op_argv :: "string list"
  op_alive :: bool

text \<open>\<open>pl_refuses\<close>: the system has no room for another process.\<close>

record process_table =
  pl_procs :: "(string \<times> (nat \<times> running)) list"
  pl_os :: "os_process list"
  pl_refuses :: bool

definition no_processes :: process_table where
  "no_processes = \<lparr>pl_procs = [], pl_os = [], pl_refuses = False\<rparr>"

definition alive :: "process_table \<Rightarrow> nat \<Rightarrow> bool" where
  "alive t pid = (pid < length (pl_os t) \<and> op_alive (pl_os t ! pid))"

definition end_process :: "nat \<Rightarrow> process_table \<Rightarrow> process_table" where
  "end_process pid t = t\<lparr>pl_os := (pl_os t)[pid := (pl_os t ! pid)\<lparr>op_alive := False\<rparr>]\<rparr>"

definition process_start :: "platform \<Rightarrow> string \<Rightarrow> string \<Rightarrow> string \<Rightarrow> shard_member \<Rightarrow> rat \<Rightarrow> (process_table, unit) act" where
  "process_start pf python store name m now t =
     (if pl_refuses t then (t, Inl (OtherError ''OSError'' ''cannot start a process''))
      else (t\<lparr>pl_procs := AList.update name (length (pl_os t), \<lparr>ru_alias = sm_alias m, ru_started = now\<rparr>) (pl_procs t),
              pl_os := pl_os t @ [\<lparr>op_argv = [python, ''-m'', ''entourage.worker''] @ worker_command pf store name m, op_alive = True\<rparr>]\<rparr>,
            Inr ()))"

definition process_running :: "(process_table, (string \<times> running) list) act" where
  "process_running t =
     (let procs = filter (\<lambda>(name, pid, info). alive t pid) (pl_procs t)
      in (t\<lparr>pl_procs := procs\<rparr>, Inr (map (\<lambda>(name, pid, info). (name, info)) procs)))"

text \<open>Ended by the signal, by the process itself, or by the kill after the grace period: a wait follows each.\<close>

definition process_kill :: "string \<Rightarrow> (process_table, unit) act" where
  "process_kill name t =
     (case map_of (pl_procs t) name of
        None \<Rightarrow> (t, Inr ())
      | Some (pid, info) \<Rightarrow> if alive t pid then (end_process pid t, Inr ()) else (t, Inr ()))"

definition process_stop :: "string \<Rightarrow> (process_table, unit) act" where
  "process_stop = process_kill"

definition process_stop_all :: "(process_table, unit) act" where
  "process_stop_all = abind (reads (\<lambda>t. map fst (pl_procs t))) (for_each process_stop)"

definition process_launcher :: "platform \<Rightarrow> string \<Rightarrow> string \<Rightarrow> process_table launcher" where
  "process_launcher pf python store = \<lparr>la_start = process_start pf python store, la_running = process_running,
     la_stop = process_stop, la_kill = process_kill, la_reap = ret 0\<rparr>"

subsection \<open>Workers as containers\<close>

record 'w podman =
  po_command :: string
  po_image :: string
  po_env :: "string list"
  po_extra :: "string list"
  po_grace :: string
  po_run :: "string list \<Rightarrow> 'w \<Rightarrow> 'w \<times> bool \<times> string"
  po_loads :: "string \<Rightarrow> json res"
  po_words :: "string \<Rightarrow> string list"
  po_parent :: "string \<Rightarrow> string"
  po_leaf :: "string \<Rightarrow> string"

text \<open>\<open>_run\<close>: a failed command raises only when it is checked.\<close>

definition podman_run :: "'w podman \<Rightarrow> bool \<Rightarrow> string list \<Rightarrow> ('w, string) act" where
  "podman_run po check args w =
     (let (w', ok, out) = po_run po (po_command po # args) w
      in (w', if check \<and> \<not> ok then Inl (OtherError ''CalledProcessError'' (po_command po)) else Inr out))"

definition shard_label :: "shard \<Rightarrow> string" where
  "shard_label sh = ''entourage.shard='' @ sh_name sh"

definition container_command :: "'w podman \<Rightarrow> platform \<Rightarrow> shard \<Rightarrow> string \<Rightarrow> shard_member \<Rightarrow> string list" where
  "container_command po pf sh name m =
     [''run'', ''-d'', ''--rm'', ''--name'', name, ''--label'', shard_label sh, ''--label'', ''entourage.agent='' @ sm_alias m,
      ''-v'', po_parent po (sh_store sh) @ '':/state'', ''-v'', sm_folder m @ '':/agent:ro'']
     @ concat (map (\<lambda>var. [''-e'', var]) (po_env po)) @ po_extra po
     @ [po_image po, ''--store'', ''/state/'' @ po_leaf po (sh_store sh), ''--agent'', ''/agent'', ''--worker'', name] @ worker_args pf m"

definition podman_start :: "'w podman \<Rightarrow> platform \<Rightarrow> shard \<Rightarrow> string \<Rightarrow> shard_member \<Rightarrow> rat \<Rightarrow> ('w, unit) act" where
  "podman_start po pf sh name m now = aseq (podman_run po True (container_command po pf sh name m)) (ret ())"

definition container_name :: "dict \<Rightarrow> string res" where
  "container_name item = (case dict_get item ''Names'' JNull of
     JList (x # xs) \<Rightarrow> plain_str x
   | JList [] \<Rightarrow> Inl (OtherError ''IndexError'' ''list index out of range'')
   | v \<Rightarrow> plain_str v)"

definition container_started :: "dict \<Rightarrow> json" where
  "container_started item =
     (if truthy (dict_get item ''StartedAt'' JNull) then dict_get item ''StartedAt'' JNull
      else if truthy (dict_get item ''Created'' JNull) then dict_get item ''Created'' JNull
      else JInt 0)"

definition container_entry :: "platform \<Rightarrow> (string \<times> running) list \<Rightarrow> json \<Rightarrow> ((string \<times> running) list) res" where
  "container_entry pf acc v =
     (case v of
        JObj item \<Rightarrow>
          rbind (container_name item) (\<lambda>name.
          rbind (to_float pf (container_started item)) (\<lambda>t.
            let labels = (case dict_get item ''Labels'' (JObj []) of JObj d \<Rightarrow> d | _ \<Rightarrow> []) in
            Inr (AList.update name
              \<lparr>ru_alias = str_of (dict_get labels ''entourage.agent'' (JStr ''?'')), ru_started = fin_val t\<rparr> acc)))
      | _ \<Rightarrow> Inl (TypeError ''podman ps''))"

definition podman_running :: "'w podman \<Rightarrow> platform \<Rightarrow> shard \<Rightarrow> ('w, (string \<times> running) list) act" where
  "podman_running po pf sh =
     abind (podman_run po True [''ps'', ''--filter'', ''label='' @ shard_label sh, ''--format'', ''json'']) (\<lambda>out.
     abind (lifts (po_loads po (if out = [] then ''[]'' else out))) (\<lambda>v. case v of
       JList items \<Rightarrow> lifts (fold_res (container_entry pf) [] items)
     | _ \<Rightarrow> raise_error (TypeError ''podman ps'')))"

definition podman_stop :: "'w podman \<Rightarrow> string \<Rightarrow> ('w, unit) act" where
  "podman_stop po name = aseq (podman_run po False [''stop'', ''-t'', po_grace po, name]) (ret ())"

definition podman_kill :: "'w podman \<Rightarrow> string \<Rightarrow> ('w, unit) act" where
  "podman_kill po name = aseq (podman_run po False [''kill'', name]) (ret ())"

definition podman_reap :: "'w podman \<Rightarrow> shard \<Rightarrow> ('w, nat) act" where
  "podman_reap po sh =
     abind (podman_run po True [''ps'', ''-aq'', ''--filter'', ''label='' @ shard_label sh]) (\<lambda>out.
       let ids = po_words po out in
       if ids = [] then ret 0 else aseq (podman_run po False ([''rm'', ''-f''] @ ids)) (ret (length ids)))"

definition podman_launcher :: "'w podman \<Rightarrow> platform \<Rightarrow> shard \<Rightarrow> 'w launcher" where
  "podman_launcher po pf sh = \<lparr>la_start = podman_start po pf sh, la_running = podman_running po pf sh,
     la_stop = podman_stop po, la_kill = podman_kill po, la_reap = podman_reap po sh\<rparr>"

datatype launcher_kind = ProcessKind | PodmanKind

definition make_launcher :: "shard \<Rightarrow> launcher_kind res" where
  "make_launcher sh =
     (let kind = dict_get (sh_launcher sh) ''kind'' (JStr ''process'') in
      if kind = JStr ''process'' then Inr ProcessKind
      else if kind = JStr ''podman'' then Inr PodmanKind
      else Inl (ValueError (''unknown launcher kind '' @ (case kind of JStr s \<Rightarrow> repr_str s | _ \<Rightarrow> ''?''))))"

subsection \<open>Failure notices\<close>

definition notice_id :: "session_listing \<Rightarrow> string" where
  "notice_id row = ''runner:failed:'' @ sl_session_id row @ '':'' @ nat_text (sl_revision row) @ '':'' @ nat_text (sl_attempts row)"

definition failure_notice :: "session_listing \<Rightarrow> dict" where
  "failure_notice row =
     [(''event_id'', JStr (notice_id row)), (''kind'', JStr ''system''), (''source'', JStr ''runner''),
      (''payload'', JObj [(''failed'', JStr (sl_session_id row)), (''executable'', JStr (sl_executable row)),
        (''attempts'', JInt (int (sl_attempts row)))])]"

text \<open>One notice; a store that refuses it is logged.\<close>

definition notify_one :: "'db backend \<Rightarrow> string \<Rightarrow> session_listing \<Rightarrow> ('db, nat) act" where
  "notify_one be target row db =
     (case bk_append be db target (failure_notice row) of
        Inl e \<Rightarrow> if is_key_error e \<or> is_value_error e then (db, Inr 0) else (db, Inl e)
      | Inr (db', new) \<Rightarrow> (db', Inr (if new then 1 else 0)))"

definition notify_failures :: "'db backend \<Rightarrow> rat \<Rightarrow> string \<Rightarrow> ('db, nat) act" where
  "notify_failures be now target =
     abind (\<lambda>db. (db, bk_list be db now None (Some ''failed'') None None)) (\<lambda>rows. sum_each (notify_one be target) rows 0)"

subsection \<open>The runner\<close>

record ('l, 'db) runner =
  rn_launcher :: 'l
  rn_store :: 'db
  rn_seen :: "(string \<times> running) list"
  rn_backoff :: "(string \<times> rat) list"
  rn_next_start :: "(string \<times> rat) list"
  rn_serial :: nat

definition new_runner :: "'l \<Rightarrow> 'db \<Rightarrow> ('l, 'db) runner" where
  "new_runner l db = \<lparr>rn_launcher = l, rn_store = db, rn_seen = [], rn_backoff = [], rn_next_start = [], rn_serial = 0\<rparr>"

text \<open>What a runner is built with: the shard, the launcher, the store, \<open>quick_exit\<close> and \<open>max_backoff\<close>.\<close>

record ('l, 'db) runner_config =
  rc_shard :: shard
  rc_launcher :: "'l launcher"
  rc_store :: "'db backend"
  rc_quick_exit :: rat
  rc_max_backoff :: rat

definition on_launcher :: "('l, 'a) act \<Rightarrow> (('l, 'db) runner, 'a) act" where
  "on_launcher m s = (case m (rn_launcher s) of (l, r) \<Rightarrow> (s\<lparr>rn_launcher := l\<rparr>, r))"

definition on_store :: "('db, 'a) act \<Rightarrow> (('l, 'db) runner, 'a) act" where
  "on_store m s = (case m (rn_store s) of (db, r) \<Rightarrow> (s\<lparr>rn_store := db\<rparr>, r))"

definition get_or :: "(string \<times> 'v) list \<Rightarrow> string \<Rightarrow> 'v \<Rightarrow> 'v" where
  "get_or d k v = (case map_of d k of None \<Rightarrow> v | Some w \<Rightarrow> w)"

definition worker_name :: "shard \<Rightarrow> string \<Rightarrow> nat \<Rightarrow> string" where
  "worker_name sh a n = sh_name sh @ ''-'' @ a @ ''-'' @ nat_text n"

definition next_name :: "shard \<Rightarrow> shard_member \<Rightarrow> (('l, 'db) runner, string) act" where
  "next_name sh m s = (s\<lparr>rn_serial := Suc (rn_serial s)\<rparr>, Inr (worker_name sh (sm_alias m) (Suc (rn_serial s))))"

definition start_worker :: "('l, 'db) runner_config \<Rightarrow> shard_member \<Rightarrow> rat \<Rightarrow> (('l, 'db) runner, bool) act" where
  "start_worker rc m now =
     abind (reads (\<lambda>s. get_or (rn_next_start s) (sm_alias m) 0)) (\<lambda>earliest.
       if now < earliest then ret False
       else
         abind (next_name (rc_shard rc) m) (\<lambda>name.
         aseq (on_launcher (la_start (rc_launcher rc) name m now))
         (aseq (modifies (\<lambda>s. s\<lparr>rn_next_start := AList.update (sm_alias m) (now + get_or (rn_backoff s) (sm_alias m) 0) (rn_next_start s)\<rparr>))
           (ret True))))"

text \<open>A vanished worker that ran only briefly doubles its alias's backoff.\<close>

definition observe_exit ::
    "('l, 'db) runner_config \<Rightarrow> (string \<times> running) list \<Rightarrow> rat \<Rightarrow> ('l, 'db) runner \<Rightarrow> string \<times> running \<Rightarrow> ('l, 'db) runner" where
  "observe_exit rc live now s entry =
     (case entry of (name, info) \<Rightarrow>
        if map_of live name \<noteq> None then s
        else
          let quick = now - ru_started info < rc_quick_exit rc;
              current = get_or (rn_backoff s) (ru_alias info) 0;
              b = (if quick then min (rc_max_backoff rc) (max 1 (current * 2)) else 0) in
          s\<lparr>rn_backoff := AList.update (ru_alias info) b (rn_backoff s),
            rn_next_start := (if quick then AList.update (ru_alias info) (now + b) (rn_next_start s) else rn_next_start s)\<rparr>)"

definition observe_exits ::
    "('l, 'db) runner_config \<Rightarrow> (string \<times> running) list \<Rightarrow> rat \<Rightarrow> ('l, 'db) runner \<Rightarrow> ('l, 'db) runner" where
  "observe_exits rc live now s = (foldl (observe_exit rc live now) s (rn_seen s))\<lparr>rn_seen := live\<rparr>"

text \<open>A live worker whose lease expired is killed; the workers left.\<close>

fun kill_stuck ::
    "('l, 'db) runner_config \<Rightarrow> rat \<Rightarrow> session_listing list \<Rightarrow> (string \<times> running) list
       \<Rightarrow> (('l, 'db) runner, (string \<times> running) list) act" where
  "kill_stuck rc now [] live = ret live"
| "kill_stuck rc now (row # rows) live =
     (case sl_worker row of
        None \<Rightarrow> kill_stuck rc now rows live
      | Some w \<Rightarrow>
          if map_of live w \<noteq> None \<and> (case sl_lease_until row of None \<Rightarrow> False | Some t \<Rightarrow> t \<le> now)
          then aseq (on_launcher (la_kill (rc_launcher rc) w)) (kill_stuck rc now rows (AList.delete w live))
          else kill_stuck rc now rows live)"

definition busy_workers :: "session_listing list \<Rightarrow> (string \<times> running) list \<Rightarrow> string list" where
  "busy_workers rows live = List.map_filter (\<lambda>row. case sl_worker row of None \<Rightarrow> None
     | Some w \<Rightarrow> if map_of live w \<noteq> None then Some w else None) rows"

definition workers_of :: "(string \<times> running) list \<Rightarrow> string \<Rightarrow> (string \<times> running) list" where
  "workers_of live a = filter (\<lambda>(name, info). ru_alias info = a) live"

text \<open>The workers of each alias, and those of them that hold no session.\<close>

definition worker_count :: "(string \<times> running) list \<Rightarrow> string \<Rightarrow> int" where
  "worker_count live a = int (length (workers_of live a))"

definition idle_of :: "session_listing list \<Rightarrow> (string \<times> running) list \<Rightarrow> string \<Rightarrow> nat" where
  "idle_of rows live a = length (filter (\<lambda>(name, info). name \<notin> set (busy_workers rows live)) (workers_of live a))"

definition shared_of :: "shard \<Rightarrow> (string \<Rightarrow> int) \<Rightarrow> int" where
  "shared_of sh counts = sum_list (map (\<lambda>(a, m). max 0 (counts a - sm_reserved m)) (sh_members sh))"

record tick_state =
  tk_counts :: "string \<Rightarrow> int"
  tk_shared :: int
  tk_started :: "string list"

definition started :: "string \<Rightarrow> int \<Rightarrow> tick_state \<Rightarrow> tick_state" where
  "started a shared k = k\<lparr>tk_counts := (tk_counts k)(a := tk_counts k a + 1), tk_shared := tk_shared k + shared, tk_started := tk_started k @ [a]\<rparr>"

definition wanted :: "shard_member \<Rightarrow> int" where
  "wanted m = (if sm_start m = ''eager'' then max (sm_reserved m) 1 else 0)"

definition visit_member ::
    "('l, 'db) runner_config \<Rightarrow> rat \<Rightarrow> (string \<Rightarrow> nat) \<Rightarrow> string \<times> shard_member \<Rightarrow> tick_state \<Rightarrow> (('l, 'db) runner, tick_state) act" where
  "visit_member rc now idle entry k =
     (case entry of (a, m) \<Rightarrow>
        if tk_counts k a < wanted m then
          abind (start_worker rc m now) (\<lambda>ok. ret (if ok then started a 0 k else k))
        else
          abind (on_store (\<lambda>db. (db, bk_list (rc_store rc) db now (Some (sm_definition m)) None (Some True) None))) (\<lambda>ready.
            if ready = [] \<or> length ready \<le> idle a \<or> tk_counts k a \<ge> sm_parallel m then ret k
            else
              let beyond = (tk_counts k a \<ge> sm_reserved m) in
              if beyond \<and> tk_shared k \<ge> sh_pool (rc_shard rc) then ret k
              else abind (start_worker rc m now) (\<lambda>ok. ret (if ok then started a (if beyond then 1 else 0) k else k))))"

fun visit_members ::
    "('l, 'db) runner_config \<Rightarrow> rat \<Rightarrow> (string \<Rightarrow> nat) \<Rightarrow> (string \<times> shard_member) list \<Rightarrow> tick_state \<Rightarrow> (('l, 'db) runner, tick_state) act" where
  "visit_members rc now idle [] k = ret k"
| "visit_members rc now idle (e # es) k = abind (visit_member rc now idle e k) (\<lambda>k'. visit_members rc now idle es k')"

text \<open>The tick once it knows the live workers and the active sessions: kill, notify, start.\<close>

definition tick_workers ::
    "('l, 'db) runner_config \<Rightarrow> rat \<Rightarrow> (string \<times> running) list \<Rightarrow> session_listing list \<Rightarrow> (('l, 'db) runner, string list) act" where
  "tick_workers rc now live active =
     abind (kill_stuck rc now active live) (\<lambda>left.
     aseq (case sh_notify (rc_shard rc) of None \<Rightarrow> ret 0
           | Some t \<Rightarrow> if t = [] then ret 0 else on_store (notify_failures (rc_store rc) now t))
     (abind (visit_members rc now (idle_of active left) (sh_members (rc_shard rc))
               \<lparr>tk_counts = worker_count left, tk_shared = shared_of (rc_shard rc) (worker_count left), tk_started = []\<rparr>) (\<lambda>k.
       ret (tk_started k))))"

definition tick :: "('l, 'db) runner_config \<Rightarrow> rat \<Rightarrow> (('l, 'db) runner, string list) act" where
  "tick rc now =
     abind (on_launcher (la_running (rc_launcher rc))) (\<lambda>live.
     aseq (modifies (observe_exits rc live now))
     (abind (on_store (\<lambda>db. (db, bk_list (rc_store rc) db now None (Some ''active'') None None))) (\<lambda>active.
       tick_workers rc now live active)))"

text \<open>The loop: a tick that raises is logged. \<open>world\<close> is what the rest of the system does between two ticks.\<close>

fun runner_turns ::
    "('l, 'db) runner_config \<Rightarrow> (rat \<times> (('l, 'db) runner \<Rightarrow> ('l, 'db) runner)) list \<Rightarrow> (('l, 'db) runner, unit) act" where
  "runner_turns rc [] = ret ()"
| "runner_turns rc ((now, world) # turns) =
     aseq (catches (tick rc now) (\<lambda>e. ret [])) (aseq (modifies world) (runner_turns rc turns))"

definition runner_run ::
    "('l, 'db) runner_config \<Rightarrow> (('l, unit) act) option \<Rightarrow> (rat \<times> (('l, 'db) runner \<Rightarrow> ('l, 'db) runner)) list
       \<Rightarrow> (('l, 'db) runner, unit) act" where
  "runner_run rc stop_all turns =
     aseq (on_launcher (la_reap (rc_launcher rc)))
     (aseq (runner_turns rc turns) (case stop_all of None \<Rightarrow> ret () | Some m \<Rightarrow> on_launcher m))"

end
