(* ===== verification/Runner_Laws.thy ===== *)
theory Runner_Laws
  imports Runner
begin

text \<open>
  The runner's bounds, over any launcher that keeps the laws of the locale \<open>worker_launcher\<close>: the workers a
  shard runs beyond what its members are entitled to stay within the pool, and no member runs more than its limit.
  The process launcher keeps these laws.
\<close>

subsection \<open>What the runner relies on\<close>

text \<open>
  \<open>live l\<close> are the workers that run, \<open>known l\<close> the names the launcher has not forgotten, \<open>ok\<close> its own invariant.
\<close>

locale worker_launcher =
  fixes la :: "'l launcher" and live :: "'l \<Rightarrow> (string \<times> running) list" and known :: "'l \<Rightarrow> string set" and ok :: "'l \<Rightarrow> bool"
  assumes live_names: "ok l \<Longrightarrow> dict_ok (live l)"
    and runs: "ok l \<Longrightarrow> la_running la l = (l', r) \<Longrightarrow>
      ok l' \<and> live l' = live l \<and> known l' \<subseteq> known l \<and> (\<forall>xs. r = Inr xs \<longrightarrow> xs = live l)"
    and starts: "ok l \<Longrightarrow> name \<notin> known l \<Longrightarrow> la_start la name m now l = (l', q) \<Longrightarrow>
      ok l' \<and> known l' \<subseteq> insert name (known l)
      \<and> live l' = live l @ (case q of Inl e \<Rightarrow> [] | Inr u \<Rightarrow> [(name, \<lparr>ru_alias = sm_alias m, ru_started = now\<rparr>)])"
    and kills: "ok l \<Longrightarrow> la_kill la name l = (l', q) \<Longrightarrow> ok l' \<and> known l' \<subseteq> known l \<and> live l' = AList.delete name (live l)"

subsection \<open>Counting\<close>

definition entitled :: "shard_member \<Rightarrow> int" where
  "entitled m = max (sm_reserved m) (wanted m)"

text \<open>The workers beyond what each member is entitled to.\<close>

definition extra :: "shard \<Rightarrow> (string \<Rightarrow> int) \<Rightarrow> int" where
  "extra sh c = sum_list (map (\<lambda>(a, m). max 0 (c a - entitled m)) (sh_members sh))"

definition shard_ok :: "shard \<Rightarrow> bool" where
  "shard_ok sh \<longleftrightarrow> dict_ok (sh_members sh) \<and> list_all member_ok (sh_members sh)"

definition in_bounds :: "shard \<Rightarrow> (string \<Rightarrow> int) \<Rightarrow> bool" where
  "in_bounds sh c \<longleftrightarrow> extra sh c \<le> max 0 (sh_pool sh) \<and> list_all (\<lambda>(a, m). c a \<le> sm_parallel m) (sh_members sh)"

lemma shard_okD: "shard_ok sh \<Longrightarrow> (a, m) \<in> set (sh_members sh) \<Longrightarrow>
    sm_alias m = a \<and> 0 \<le> sm_reserved m \<and> entitled m \<le> sm_parallel m"
  by (auto simp: shard_ok_def list_all_iff member_ok_def entitled_def wanted_def)

lemma sum_bump:
  fixes f :: "'m \<Rightarrow> int \<Rightarrow> int"
  assumes "dict_ok ms" and "(a, m) \<in> set ms"
  shows "sum_list (map (\<lambda>(b, n). f n ((c(a := v)) b)) ms) = sum_list (map (\<lambda>(b, n). f n (c b)) ms) + (f m v - f m (c a))"
  using assms
proof (induction ms)
  case (Cons x ms)
  obtain b n where x: "x = (b, n)" by (cases x)
  have same: "sum_list (map (\<lambda>(b, n). f n ((c(a := v)) b)) ms) = sum_list (map (\<lambda>(b, n). f n (c b)) ms)" if "a \<notin> fst ` set ms"
    using that by (intro arg_cong [of _ _ sum_list] map_cong) (auto simp: image_iff)
  show ?case
  proof (cases "b = a")
    case True
    with Cons.prems x have "a \<notin> fst ` set ms" "n = m" by (auto simp: dict_ok_def image_iff)
    with same True x show ?thesis by simp
  next
    case False
    with Cons x show ?thesis by (auto simp: dict_ok_def)
  qed
qed simp

lemma extra_bump:
  assumes "shard_ok sh" and "(a, m) \<in> set (sh_members sh)"
  shows "extra sh (c(a := c a + 1)) = extra sh c + (if c a < entitled m then 0 else 1)"
proof -
  have "dict_ok (sh_members sh)" using assms(1) by (simp add: shard_ok_def)
  from sum_bump [OF this assms(2), of "\<lambda>m v. max 0 (v - entitled m)" c "c a + 1"] show ?thesis
    unfolding extra_def by auto
qed

lemma extra_mono: "(\<And>a. c a \<le> d a) \<Longrightarrow> extra sh c \<le> extra sh d"
proof -
  assume le: "\<And>a. c a \<le> d a"
  have "max 0 (c a - entitled m) \<le> max 0 (d a - entitled m)" for a m
    using le [of a] by linarith
  then show ?thesis unfolding extra_def by (intro sum_list_mono) auto
qed

lemma extra_shared: "shard_ok sh \<Longrightarrow> extra sh c \<le> shared_of sh c"
  unfolding extra_def shared_of_def by (rule sum_list_mono) (auto simp: entitled_def)

lemma in_bounds_mono: "in_bounds sh d \<Longrightarrow> (\<And>a. c a \<le> d a) \<Longrightarrow> in_bounds sh c"
  unfolding in_bounds_def list_all_iff using extra_mono [of c d sh] by (fastforce intro: order_trans)

lemma count_append: "worker_count (live @ [(name, \<lparr>ru_alias = a, ru_started = t\<rparr>)]) = (worker_count live)(a := worker_count live a + 1)"
  by (auto simp: worker_count_def workers_of_def fun_eq_iff)

lemma count_filter: "worker_count (filter P live) a \<le> worker_count live a"
  by (induction live) (auto simp: worker_count_def workers_of_def)

lemma count_delete: "worker_count (AList.delete n live) a \<le> worker_count live a"
  unfolding AList.delete_eq by (rule count_filter)

subsection \<open>Worker names\<close>

lemma name_serial: "worker_name sh a n = worker_name sh b k \<Longrightarrow> n = k"
proof -
  assume e: "worker_name sh a n = worker_name sh b k"
  have "takeWhile (\<lambda>c. c \<noteq> CHR ''-'') (rev (worker_name sh x j)) = rev (nat_text j)" for x j
  proof -
    have "takeWhile (\<lambda>c. c \<noteq> CHR ''-'') (rev (nat_text j) @ ys) = rev (nat_text j) @ takeWhile (\<lambda>c. c \<noteq> CHR ''-'') ys" for ys
      by (rule takeWhile_append2) (use digits_plain [of j] in auto)
    then show ?thesis by (simp add: worker_name_def)
  qed
  from arg_cong [OF e, of "\<lambda>s. takeWhile (\<lambda>c. c \<noteq> CHR ''-'') (rev s)"] this have "nat_text n = nat_text k" by simp
  then show ?thesis by simp
qed

definition named_upto :: "shard \<Rightarrow> nat \<Rightarrow> string set \<Rightarrow> bool" where
  "named_upto sh n names \<longleftrightarrow> (\<forall>x \<in> names. \<exists>a k. x = worker_name sh a k \<and> k \<le> n)"

lemma named_fresh: "named_upto sh n names \<Longrightarrow> worker_name sh a (Suc n) \<notin> names"
  unfolding named_upto_def using name_serial by fastforce

lemma named_grows: "named_upto sh n names \<Longrightarrow> names' \<subseteq> insert (worker_name sh a (Suc n)) names \<Longrightarrow> named_upto sh (Suc n) names'"
  unfolding named_upto_def by (metis insertE le_Suc_eq subsetD order_refl)

lemma named_shrinks: "named_upto sh n names \<Longrightarrow> names' \<subseteq> names \<Longrightarrow> named_upto sh n names'"
  unfolding named_upto_def by blast

subsection \<open>A tick keeps the bounds\<close>

lemma on_store_launcher: "rn_launcher (fst (on_store m s)) = rn_launcher s" "rn_serial (fst (on_store m s)) = rn_serial s"
  by (simp_all add: on_store_def split: prod.split)

lemma observe_launcher: "rn_launcher (observe_exits rc xs now s) = rn_launcher s" "rn_serial (observe_exits rc xs now s) = rn_serial s"
proof -
  have "rn_launcher (foldl (observe_exit rc xs now) s es) = rn_launcher s \<and> rn_serial (foldl (observe_exit rc xs now) s es) = rn_serial s" for es
    by (induction es arbitrary: s) (auto simp: observe_exit_def Let_def split: prod.split)
  then show "rn_launcher (observe_exits rc xs now s) = rn_launcher s" "rn_serial (observe_exits rc xs now s) = rn_serial s"
    by (simp_all add: observe_exits_def)
qed

context worker_launcher
begin

definition sound :: "shard \<Rightarrow> ('l, 'db) runner \<Rightarrow> bool" where
  "sound sh s \<longleftrightarrow> ok (rn_launcher s) \<and> named_upto sh (rn_serial s) (known (rn_launcher s)) \<and> in_bounds sh (worker_count (live (rn_launcher s)))"

text \<open>Between two members of a tick: the counts are true, and the shared slots counted cover the extra workers.\<close>

definition tallied :: "shard \<Rightarrow> tick_state \<Rightarrow> ('l, 'db) runner \<Rightarrow> bool" where
  "tallied sh k s \<longleftrightarrow> tk_counts k = worker_count (live (rn_launcher s)) \<and> extra sh (tk_counts k) \<le> tk_shared k"

lemma sound_same: "sound sh s \<Longrightarrow> rn_launcher s' = rn_launcher s \<Longrightarrow> rn_serial s' = rn_serial s \<Longrightarrow> sound sh s'"
  by (simp add: sound_def)

lemma start_sound:
  assumes "rc_launcher rc = la" and "sound (rc_shard rc) s" and "start_worker rc m now s = (s', r)"
    and "in_bounds (rc_shard rc) ((worker_count (live (rn_launcher s)))(sm_alias m := worker_count (live (rn_launcher s)) (sm_alias m) + 1))"
  shows "sound (rc_shard rc) s' \<and> (\<forall>b. r = Inr b \<longrightarrow> worker_count (live (rn_launcher s')) =
      (if b then (worker_count (live (rn_launcher s)))(sm_alias m := worker_count (live (rn_launcher s)) (sm_alias m) + 1) else worker_count (live (rn_launcher s))))"
proof (cases "now < get_or (rn_next_start s) (sm_alias m) 0")
  case True
  with assms(2,3) show ?thesis by (auto simp: start_worker_def abind_def reads_def ret_def)
next
  case False
  let ?n = "worker_name (rc_shard rc) (sm_alias m) (Suc (rn_serial s))"
  obtain l' q where st: "la_start la ?n m now (rn_launcher s) = (l', q)" by fastforce
  have o: "ok (rn_launcher s)" "?n \<notin> known (rn_launcher s)"
    using assms(2) named_fresh by (auto simp: sound_def)
  note l' = starts [OF o st]
  have "rn_launcher s' = l' \<and> rn_serial s' = Suc (rn_serial s) \<and> (\<forall>b. r = Inr b \<longrightarrow> b \<and> (\<exists>u. q = Inr u))"
    using assms(3) False st
    by (auto simp: start_worker_def abind_def aseq_def reads_def ret_def next_name_def on_launcher_def modifies_def assms(1) split: sum.splits)
  moreover have "named_upto (rc_shard rc) (Suc (rn_serial s)) (known l')"
    using named_grows [OF _ conjunct1 [OF conjunct2 [OF l']]] assms(2) by (simp add: sound_def)
  moreover have "in_bounds (rc_shard rc) (worker_count (live l'))"
    using l' assms(2,4) by (cases q) (auto simp: sound_def count_append)
  ultimately show ?thesis using l' by (auto simp: sound_def count_append)
qed

lemma visit_member_sound:
  assumes "rc_launcher rc = la" and "shard_ok (rc_shard rc)" and "e \<in> set (sh_members (rc_shard rc))"
    and "sound (rc_shard rc) s" and "tallied (rc_shard rc) k s" and "visit_member rc now idle e k s = (s', r)"
  shows "sound (rc_shard rc) s' \<and> (\<forall>k'. r = Inr k' \<longrightarrow> tallied (rc_shard rc) k' s')"
proof -
  let ?sh = "rc_shard rc"
  obtain a m where e: "e = (a, m)" by (cases e)
  note m = shard_okD [OF assms(2) assms(3) [unfolded e]]
  note mem = assms(3) [unfolded e]
  have bump: "in_bounds ?sh ((tk_counts k)(a := tk_counts k a + 1))"
    if "tk_counts k a < entitled m \<or> tk_shared k < sh_pool ?sh" "tk_counts k a < sm_parallel m"
  proof -
    have "in_bounds ?sh (tk_counts k)" using assms(4,5) by (simp add: sound_def tallied_def)
    moreover have "n = m" if "(a, n) \<in> set (sh_members ?sh)" for n
      using that mem assms(2) by (auto simp: shard_ok_def dict_ok_map_of)
    ultimately show ?thesis
      using that extra_bump [OF assms(2) mem, of "tk_counts k"] assms(5)
      by (auto simp: in_bounds_def list_all_iff tallied_def)
  qed
  have start: "sound ?sh s2 \<and> (\<forall>k'. r2 = Inr k' \<longrightarrow> tallied ?sh k' s2)"
    if run: "abind (start_worker rc m now) (\<lambda>b. ret (if b then started a j k else k)) s1 = (s2, r2)"
      and s1: "rn_launcher s1 = rn_launcher s" "rn_serial s1 = rn_serial s"
      and free: "tk_counts k a < entitled m \<or> tk_shared k < sh_pool ?sh" "tk_counts k a < sm_parallel m"
      and paid: "tk_counts k a < entitled m \<and> j = 0 \<or> j = 1" for s1 s2 r2 j
  proof -
    obtain s3 q where st: "start_worker rc m now s1 = (s3, q)" by fastforce
    have "in_bounds ?sh ((worker_count (live (rn_launcher s1)))(sm_alias m := worker_count (live (rn_launcher s1)) (sm_alias m) + 1))"
      using bump [OF free] m assms(5) by (simp add: s1 tallied_def)
    from start_sound [OF assms(1) sound_same [OF assms(4) s1] st this] st run m assms(5) s1(1)
    show ?thesis
      using extra_bump [OF assms(2) mem, of "tk_counts k"] paid
      by (cases q) (auto simp: abind_def ret_def tallied_def started_def split: if_splits)
  qed
  show ?thesis
  proof (cases "tk_counts k a < wanted m")
    case True
    then have "tk_counts k a < entitled m" by (simp add: entitled_def)
    with start [of 0 s s' r] True m assms(6) show ?thesis by (simp add: visit_member_def e)
  next
    case False
    obtain db ls where ls: "on_store (\<lambda>db. (db, bk_list (rc_store rc) db now (Some (sm_definition m)) None (Some True) None)) s = (db, ls)"
      by fastforce
    have s1: "rn_launcher db = rn_launcher s" "rn_serial db = rn_serial s"
      using on_store_launcher [of "\<lambda>db. (db, bk_list (rc_store rc) db now (Some (sm_definition m)) None (Some True) None)" s] ls by auto
    have same: "sound ?sh db" "tallied ?sh k db" using assms(4,5) s1 by (auto simp: sound_def tallied_def)
    let ?j = "if tk_counts k a \<ge> sm_reserved m then 1 else 0"
    have r: "tk_counts k a < sm_reserved m \<Longrightarrow> tk_counts k a < entitled m" by (simp add: entitled_def)
    note go = start [of ?j db s' r, OF _ s1]
    show ?thesis
      using assms(6) False same go r
      by (cases ls) (auto simp: visit_member_def e abind_def ls ret_def Let_def split: if_splits)
  qed
qed

lemma visit_members_sound:
  "rc_launcher rc = la \<Longrightarrow> shard_ok (rc_shard rc) \<Longrightarrow> set es \<subseteq> set (sh_members (rc_shard rc)) \<Longrightarrow> sound (rc_shard rc) s
     \<Longrightarrow> tallied (rc_shard rc) k s \<Longrightarrow> sound (rc_shard rc) (fst (visit_members rc now idle es k s))"
proof (induction es arbitrary: k s)
  case (Cons e es)
  obtain s1 r where v: "visit_member rc now idle e k s = (s1, r)" by fastforce
  from visit_member_sound [OF Cons.prems(1,2) _ Cons.prems(4,5) v] Cons.prems(3) Cons.IH [OF Cons.prems(1,2)]
  show ?case by (cases r) (auto simp: abind_def v)
qed (simp add: ret_def)

lemma kill_stuck_sound:
  "rc_launcher rc = la \<Longrightarrow> sound sh s \<Longrightarrow> xs = live (rn_launcher s) \<Longrightarrow> kill_stuck rc now rows xs s = (s', r)
     \<Longrightarrow> sound sh s' \<and> (\<forall>ys. r = Inr ys \<longrightarrow> ys = live (rn_launcher s'))"
proof (induction rows arbitrary: xs s)
  case (Cons row rows)
  have kill: "sound sh s1 \<and> live (rn_launcher s1) = AList.delete w (live (rn_launcher s))"
    if on: "on_launcher (la_kill (rc_launcher rc) w) s = (s1, q)" for w s1 q
  proof -
    obtain l' where k: "la_kill la w (rn_launcher s) = (l', q)" and s1: "s1 = s\<lparr>rn_launcher := l'\<rparr>"
      using on unfolding on_launcher_def Cons.prems(1) by (cases "la_kill la w (rn_launcher s)") auto
    have o: "ok (rn_launcher s)" using Cons.prems(2) by (simp add: sound_def)
    note l' = kills [OF o k]
    with Cons.prems(2) have "sound sh s1"
      by (auto simp: sound_def s1 intro: named_shrinks in_bounds_mono [OF _ count_delete])
    with l' s1 show ?thesis by simp
  qed
  show ?case
  proof (cases "sl_worker row")
    case None
    with Cons show ?thesis by simp
  next
    case (Some w)
    obtain s1 q where k: "on_launcher (la_kill (rc_launcher rc) w) s = (s1, q)" by fastforce
    from kill [OF k] Cons.IH [of s1 "AList.delete w xs"] Cons.IH [of s xs] Cons.prems Some k show ?thesis
      by (cases q) (auto simp: aseq_def abind_def split: if_splits)
  qed
qed (auto simp: ret_def)

lemma tick_workers_sound:
  assumes "rc_launcher rc = la" and "shard_ok (rc_shard rc)" and "sound (rc_shard rc) s" and "xs = live (rn_launcher s)"
  shows "sound (rc_shard rc) (fst (tick_workers rc now xs active s))"
proof -
  let ?sh = "rc_shard rc"
  obtain s4 r4 where s4: "kill_stuck rc now active xs s = (s4, r4)" by fastforce
  note k = kill_stuck_sound [OF assms(1,3,4) s4]
  show ?thesis
  proof (cases r4)
    case (Inl x)
    with k s4 show ?thesis by (simp add: tick_workers_def abind_def)
  next
    case (Inr left)
    let ?note = "case sh_notify (rc_shard rc) of None \<Rightarrow> ret 0
        | Some t \<Rightarrow> if t = [] then ret 0 else on_store (notify_failures (rc_store rc) now t)"
    obtain s5 r5 where s5: "?note s4 = (s5, r5)" by fastforce
    then have l5: "rn_launcher s5 = rn_launcher s4" "rn_serial s5 = rn_serial s4"
      using on_store_launcher [of "notify_failures (rc_store rc) now (the (sh_notify (rc_shard rc)))" s4]
      by (auto simp: ret_def split: option.splits if_splits)
    have ok5: "sound ?sh s5" using k by (auto intro: sound_same [OF _ l5])
    let ?k = "\<lparr>tk_counts = worker_count left, tk_shared = shared_of ?sh (worker_count left), tk_started = []\<rparr>"
    have "tallied ?sh ?k s5" using k Inr l5 extra_shared [OF assms(2)] by (simp add: tallied_def)
    from visit_members_sound [OF assms(1,2) subset_refl ok5 this, of now "idle_of active left"] ok5
    show ?thesis using s4 Inr s5
      by (cases r5) (auto simp: tick_workers_def abind_def aseq_def ret_def split: prod.split sum.split)
  qed
qed

lemma tick_sound:
  assumes "rc_launcher rc = la" and "shard_ok (rc_shard rc)" and "sound (rc_shard rc) s"
  shows "sound (rc_shard rc) (fst (tick rc now s))"
proof -
  let ?sh = "rc_shard rc"
  obtain l1 r1 where l1: "la_running la (rn_launcher s) = (l1, r1)" by fastforce
  have o: "ok (rn_launcher s)" using assms(3) by (simp add: sound_def)
  note run = runs [OF o l1]
  let ?s1 = "s\<lparr>rn_launcher := l1\<rparr>"
  have s1: "sound ?sh ?s1" using run assms(3) by (auto simp: sound_def intro: named_shrinks)
  show ?thesis
  proof (cases r1)
    case (Inl x)
    with l1 s1 show ?thesis by (simp add: tick_def abind_def on_launcher_def assms(1))
  next
    case (Inr xs)
    let ?s2 = "observe_exits rc xs now ?s1"
    have s2: "sound ?sh ?s2" by (rule sound_same [OF s1]) (simp_all add: observe_launcher)
    obtain s3 r3 where s3: "on_store (\<lambda>db. (db, bk_list (rc_store rc) db now None (Some ''active'') None None)) ?s2 = (s3, r3)" by fastforce
    have l3: "rn_launcher s3 = rn_launcher ?s2" "rn_serial s3 = rn_serial ?s2"
      using on_store_launcher [of "\<lambda>db. (db, bk_list (rc_store rc) db now None (Some ''active'') None None)" ?s2] s3 by auto
    have ok3: "sound ?sh s3" by (rule sound_same [OF s2 l3])
    have "xs = live (rn_launcher s3)" using run Inr l3 by (simp add: observe_launcher)
    note tick_workers_sound [OF assms(1,2) ok3 this]
    with l1 Inr s3 ok3 show ?thesis
      by (cases r3) (simp_all add: tick_def abind_def aseq_def on_launcher_def modifies_def assms(1))
  qed
qed

end

subsection \<open>The process launcher\<close>

definition live_processes :: "process_table \<Rightarrow> (string \<times> running) list" where
  "live_processes t = map (\<lambda>(name, pid, info). (name, info)) (filter (\<lambda>(name, pid, info). alive t pid) (pl_procs t))"

text \<open>Every process that runs is the worker of exactly one entry.\<close>

definition table_ok :: "process_table \<Rightarrow> bool" where
  "table_ok t \<longleftrightarrow> dict_ok (pl_procs t) \<and> distinct (map (\<lambda>(name, pid, info). pid) (pl_procs t))
     \<and> (\<forall>pid. alive t pid \<longrightarrow> pid \<in> (\<lambda>(name, pid, info). pid) ` set (pl_procs t))
     \<and> (\<forall>(name, pid, info) \<in> set (pl_procs t). pid < length (pl_os t))"

lemma alive_append: "alive (t\<lparr>pl_procs := ps, pl_os := pl_os t @ [p]\<rparr>) pid = (alive t pid \<or> pid = length (pl_os t) \<and> op_alive p)"
  by (auto simp: alive_def nth_append)

lemma alive_ended: "alive (end_process p t) pid = (alive t pid \<and> pid \<noteq> p)"
  by (cases "p < length (pl_os t)") (auto simp: alive_def end_process_def nth_list_update)

lemma update_fresh: "k \<notin> fst ` set d \<Longrightarrow> AList.update k v d = d @ [(k, v)]"
  by (induction d) auto

lemma running_laws:
  assumes "table_ok t" and "process_running t = (t', r)"
  shows "table_ok t' \<and> live_processes t' = live_processes t \<and> fst ` set (pl_procs t') \<subseteq> fst ` set (pl_procs t) \<and> r = Inr (live_processes t)"
proof -
  have t': "t' = t\<lparr>pl_procs := filter (\<lambda>(name, pid, info). alive t pid) (pl_procs t)\<rparr>" and r: "r = Inr (live_processes t)"
    using assms(2) by (auto simp: process_running_def live_processes_def Let_def)
  have a: "alive t' = alive t" by (simp add: t' alive_def fun_eq_iff)
  have "dict_ok (pl_procs t')" "distinct (map (\<lambda>(name, pid, info). pid) (pl_procs t'))"
    using assms(1) by (simp_all add: t' table_ok_def dict_ok_def distinct_map_filter)
  moreover have "\<forall>pid. alive t' pid \<longrightarrow> pid \<in> (\<lambda>(name, pid, info). pid) ` set (pl_procs t')"
  proof (intro allI impI)
    fix pid assume "alive t' pid"
    then have al: "alive t pid" by (simp add: a)
    with assms(1) obtain name info where "(name, pid, info) \<in> set (pl_procs t)" by (auto simp: table_ok_def)
    with al have "(name, pid, info) \<in> set (pl_procs t')" by (simp add: t')
    then show "pid \<in> (\<lambda>(name, pid, info). pid) ` set (pl_procs t')" by (rule rev_image_eqI) simp
  qed
  moreover have "\<forall>(name, pid, info) \<in> set (pl_procs t'). pid < length (pl_os t')"
    using assms(1) by (auto simp: t' table_ok_def)
  ultimately have "table_ok t'" unfolding table_ok_def by blast
  moreover have "live_processes t' = live_processes t" unfolding live_processes_def a by (simp add: t')
  ultimately show ?thesis using r by (auto simp: t')
qed

lemma start_laws:
  assumes "table_ok t" and "name \<notin> fst ` set (pl_procs t)" and "process_start pf python store name m now t = (t', r)"
  shows "table_ok t' \<and> fst ` set (pl_procs t') \<subseteq> insert name (fst ` set (pl_procs t))
    \<and> live_processes t' = live_processes t @ (case r of Inl e \<Rightarrow> [] | Inr u \<Rightarrow> [(name, \<lparr>ru_alias = sm_alias m, ru_started = now\<rparr>)])"
proof (cases "pl_refuses t")
  case True
  with assms(1,3) show ?thesis by (auto simp: process_start_def)
next
  case False
  let ?p = "\<lparr>op_argv = [python, ''-m'', ''entourage.worker''] @ worker_command pf store name m, op_alive = True\<rparr>"
  let ?i = "\<lparr>ru_alias = sm_alias m, ru_started = now\<rparr>"
  let ?procs = "pl_procs t @ [(name, length (pl_os t), ?i)]"
  have t': "t' = t\<lparr>pl_procs := ?procs, pl_os := pl_os t @ [?p]\<rparr>" and r: "r = Inr ()"
    using assms(3) False by (auto simp: process_start_def update_fresh [OF assms(2)])
  have a: "alive t' pid = (alive t pid \<or> pid = length (pl_os t))" for pid unfolding t' alive_append by simp
  have below: "pid < length (pl_os t)" if "(n, pid, info) \<in> set (pl_procs t)" for n pid info
    using assms(1) that by (auto simp: table_ok_def)
  have keep: "filter (\<lambda>(n, pid, info). alive t' pid) (pl_procs t) = filter (\<lambda>(n, pid, info). alive t pid) (pl_procs t)"
    by (rule filter_cong) (auto simp: a dest: below)
  have "length (pl_os t) \<notin> (\<lambda>(n, pid, info). pid) ` set (pl_procs t)" by (auto dest: below)
  then have d: "dict_ok ?procs" "distinct (map (\<lambda>(n, pid, info). pid) ?procs)"
    using assms(1,2) by (auto simp: table_ok_def dict_ok_def)
  have "\<forall>pid. alive t' pid \<longrightarrow> pid \<in> (\<lambda>(n, pid, info). pid) ` set ?procs"
    using assms(1) by (auto simp: a table_ok_def)
  moreover have "\<forall>(n, pid, info) \<in> set ?procs. pid < length (pl_os t')"
    using below by (fastforce simp: t')
  ultimately have "table_ok t'" using d unfolding table_ok_def by (simp add: t')
  moreover have "live_processes t' = live_processes t @ [(name, ?i)]"
  proof -
    have "pl_procs t' = ?procs" by (simp add: t')
    then show ?thesis unfolding live_processes_def by (simp add: keep) (simp add: a)
  qed
  ultimately show ?thesis by (auto simp: r t')
qed

lemma kill_laws:
  assumes "table_ok t" and "process_kill name t = (t', r)"
  shows "table_ok t' \<and> pl_procs t' = pl_procs t \<and> live_processes t' = AList.delete name (live_processes t)"
proof (cases "map_of (pl_procs t) name")
  case None
  then have "name \<notin> fst ` set (pl_procs t)" by (simp add: map_of_eq_None_iff)
  then have "name \<notin> fst ` set (live_processes t)" by (force simp: live_processes_def)
  with None assms show ?thesis by (simp add: process_kill_def delete_id)
next
  case (Some x)
  obtain pid info where x: "x = (pid, info)" by (cases x)
  have d: "dict_ok (pl_procs t)" and pids: "distinct (map (\<lambda>(n, p, i). p) (pl_procs t))"
    using assms(1) by (simp_all add: table_ok_def)
  have own: "n = name \<longleftrightarrow> p = pid" if "(n, p, i) \<in> set (pl_procs t)" for n p i
  proof
    assume "n = name"
    with that Some x dict_ok_map_of [OF d, of name "(p, i)"] show "p = pid" by simp
  next
    assume "p = pid"
    have "(name, pid, info) \<in> set (pl_procs t)" using Some x map_of_SomeD by fastforce
    with that \<open>p = pid\<close> pids have "(n, p, i) = (name, pid, info)" unfolding distinct_map
      by (intro inj_onD [of "\<lambda>(n, p, i). p" "set (pl_procs t)"]) auto
    then show "n = name" by simp
  qed
  have t': "t' = (if alive t pid then end_process pid t else t)" using assms(2) Some x by (auto simp: process_kill_def)
  have p: "pl_procs t' = pl_procs t" "length (pl_os t') = length (pl_os t)" by (simp_all add: t' end_process_def)
  have a: "alive t' q \<longleftrightarrow> alive t q \<and> q \<noteq> pid" for q by (auto simp: t' alive_ended)
  have "table_ok t'" using assms(1) by (auto simp: table_ok_def p a)
  moreover have "live_processes t' = AList.delete name (live_processes t)"
  proof -
    have "filter (\<lambda>(n, q, i). alive t' q) (pl_procs t) = filter (\<lambda>(n, q, i). name \<noteq> n) (filter (\<lambda>(n, q, i). alive t q) (pl_procs t))"
      unfolding filter_filter using own by (intro filter_cong) (auto simp: a)
    then show ?thesis
      unfolding live_processes_def AList.delete_eq p filter_map by (simp add: o_def split_beta)
  qed
  ultimately show ?thesis using p by simp
qed

interpretation processes: worker_launcher "process_launcher pf python store" live_processes "\<lambda>t. fst ` set (pl_procs t)" table_ok
  for pf python store
proof (unfold_locales, goal_cases)
  case (1 l)
  then have "distinct (map fst (filter (\<lambda>(name, pid, info). alive l pid) (pl_procs l)))"
    by (simp add: table_ok_def dict_ok_def distinct_map_filter)
  then show ?case by (simp add: live_processes_def dict_ok_def split_beta comp_def)
next
  case (2 l l' r)
  then show ?case using running_laws [of l l' r] by (auto simp: process_launcher_def)
next
  case (3 l name m now l' r)
  then show ?case using start_laws [of l name pf python store m now l' r] by (auto simp: process_launcher_def)
next
  case (4 l name l' r)
  then show ?case using kill_laws [of l name l' r] by (auto simp: process_launcher_def)
qed

subsection \<open>The bounds of a shard\<close>

text \<open>Between two ticks processes may end, the system may refuse or allow new ones, and the store is anyone's.\<close>

definition processes_end :: "process_table \<Rightarrow> process_table \<Rightarrow> bool" where
  "processes_end t t' \<longleftrightarrow> pl_procs t' = pl_procs t \<and> length (pl_os t') = length (pl_os t) \<and> (\<forall>pid. alive t' pid \<longrightarrow> alive t pid)"

inductive runner_reachable :: "(process_table, 'db) runner_config \<Rightarrow> (process_table, 'db) runner \<Rightarrow> bool" for rc where
  runner_new: "runner_reachable rc (new_runner no_processes db)"
| runner_tick: "runner_reachable rc s \<Longrightarrow> runner_reachable rc (fst (tick rc now s))"
| runner_world: "runner_reachable rc s \<Longrightarrow> processes_end (rn_launcher s) t \<Longrightarrow> runner_reachable rc (s\<lparr>rn_launcher := t, rn_store := db\<rparr>)"

lemma ended_laws:
  assumes "table_ok t" and "processes_end t t'"
  shows "table_ok t' \<and> worker_count (live_processes t') a \<le> worker_count (live_processes t) a"
proof
  show "table_ok t'" using assms by (auto simp: table_ok_def processes_end_def)
  have "filter (\<lambda>(n, p, i). alive t' p) (pl_procs t') = filter (\<lambda>(n, p, i). alive t' p) (filter (\<lambda>(n, p, i). alive t p) (pl_procs t))"
    using assms(2) unfolding filter_filter processes_end_def by (auto intro: filter_cong)
  moreover have "worker_count (map (\<lambda>(n, p, i). (n, i)) (filter P xs)) a \<le> worker_count (map (\<lambda>(n, p, i). (n, i)) xs) a"
    for P and xs :: "(string \<times> nat \<times> running) list"
    by (induction xs) (auto simp: worker_count_def workers_of_def)
  ultimately show "worker_count (live_processes t') a \<le> worker_count (live_processes t) a" unfolding live_processes_def by metis
qed

lemma reachable_sound:
  assumes "rc_launcher rc = process_launcher pf python store" and "shard_ok (rc_shard rc)" and "runner_reachable rc s"
  shows "processes.sound (rc_shard rc) s"
  using assms(3)
proof (induction rule: runner_reachable.induct)
  case (runner_new db)
  have "list_all (\<lambda>(a, m). (0 :: int) \<le> sm_parallel m) (sh_members (rc_shard rc))"
    using assms(2) by (auto simp: shard_ok_def list_all_iff member_ok_def)
  moreover have "extra (rc_shard rc) (\<lambda>a. 0) \<le> 0"
  proof -
    have "entitled m \<ge> 0" if "(a, m) \<in> set (sh_members (rc_shard rc))" for a m
      using shard_okD [OF assms(2) that] by (simp add: entitled_def max_def)
    then have "map (\<lambda>(a, m). max 0 (0 - entitled m)) (sh_members (rc_shard rc)) = map (\<lambda>x. 0) (sh_members (rc_shard rc))"
      by (intro map_cong) auto
    then show ?thesis unfolding extra_def by (simp only:) simp
  qed
  ultimately show ?case
    unfolding processes.sound_def by (simp add: new_runner_def no_processes_def table_ok_def named_upto_def live_processes_def
        worker_count_def [abs_def] workers_of_def in_bounds_def alive_def)
next
  case (runner_tick s now)
  then show ?case by (intro processes.tick_sound [OF assms(1,2)])
next
  case (runner_world s t db)
  from runner_world(3) have o: "table_ok (rn_launcher s)" by (simp add: processes.sound_def)
  note e = ended_laws [OF o runner_world(2)]
  then have "in_bounds (rc_shard rc) (worker_count (live_processes t))"
    using runner_world(3) by (auto simp: processes.sound_def intro: in_bounds_mono)
  with runner_world e show ?case by (simp add: processes.sound_def processes_end_def)
qed

text \<open>
  C31. The shared pool bounds a shard. Whatever the store holds, whenever workers end and the system refuses
  new ones, and however many ticks run: the workers beyond what the members are entitled to (the reserved ones,
  and the first of an eager member) never exceed the pool; no member has more workers than its limit; and every
  process that runs is one of the counted workers.
\<close>

theorem pool_is_respected:
  assumes "runner_reachable rc s" and "rc_launcher rc = process_launcher pf python store" and "shard_ok (rc_shard rc)"
  shows "sum_list (map (\<lambda>(a, m). max 0 (worker_count (live_processes (rn_launcher s)) a - max (sm_reserved m) (wanted m))) (sh_members (rc_shard rc)))
        \<le> max 0 (sh_pool (rc_shard rc))
    \<and> list_all (\<lambda>(a, m). worker_count (live_processes (rn_launcher s)) a \<le> sm_parallel m) (sh_members (rc_shard rc))
    \<and> card {pid. alive (rn_launcher s) pid} = length (live_processes (rn_launcher s))"
proof -
  have s: "processes.sound (rc_shard rc) s" by (rule reachable_sound [OF assms(2,3,1)])
  let ?t = "rn_launcher s" let ?on = "filter (\<lambda>(n, p, i). alive ?t p) (pl_procs ?t)"
  have t: "table_ok ?t" using s by (simp add: processes.sound_def)
  have "{pid. alive ?t pid} = set (map (\<lambda>(n, p, i). p) ?on)"
  proof (intro equalityI subsetI)
    fix pid assume "pid \<in> {pid. alive ?t pid}"
    then have al: "alive ?t pid" by simp
    with t obtain n i where "(n, pid, i) \<in> set (pl_procs ?t)" by (auto simp: table_ok_def)
    with al have "(n, pid, i) \<in> set ?on" by simp
    then show "pid \<in> set (map (\<lambda>(n, p, i). p) ?on)" by (force simp: image_iff)
  qed auto
  moreover have "distinct (map (\<lambda>(n, p, i). p) ?on)" using t by (simp add: table_ok_def distinct_map_filter)
  ultimately have "card {pid. alive ?t pid} = length (live_processes ?t)"
    by (simp only: distinct_card live_processes_def length_map)
  with s show ?thesis by (simp add: processes.sound_def in_bounds_def extra_def entitled_def)
qed

definition desk_member :: shard_member where
  "desk_member = echo_member\<lparr>sm_alias := ''desk'', sm_start := ''eager'', sm_reserved := 1, sm_parallel := 1, sm_idle_exit := None\<rparr>"

definition small_config :: "int \<Rightarrow> int \<Rightarrow> (process_table, wake_db) runner_config" where
  "small_config pool reserved = \<lparr>rc_shard = \<lparr>sh_name = ''s'', sh_store = ''/srv/sessions.db'',
       sh_members = [(''echo'', echo_member), (''desk'', desk_member\<lparr>sm_reserved := reserved\<rparr>)], sh_pool = pool, sh_notify = None, sh_launcher = []\<rparr>,
     rc_launcher = process_launcher plain_platform ''python'' ''/srv/sessions.db'', rc_store = local_store, rc_quick_exit = 10, rc_max_backoff = 60\<rparr>"

definition two_ready :: wake_db where
  "two_ready = empty_db\<lparr>sessions := [new_row ''a'' ''echo:v1'' (JObj []), new_row ''b'' ''echo:v1'' (JObj [])]\<rparr>"

definition after_tick :: "int \<Rightarrow> int \<Rightarrow> (process_table, wake_db) runner" where
  "after_tick pool reserved = fst (tick (small_config pool reserved) 5 (new_runner no_processes two_ready))"

lemma first_tick: "snd (tick (small_config 1 1) 5 (new_runner no_processes two_ready)) = Inr [''echo'', ''desk'']"
  by code_simp

theorem pool_is_respected_witness:
  "worker_count (live_processes (rn_launcher (after_tick 1 1))) ''echo'' = 1 \<and> worker_count (live_processes (rn_launcher (after_tick 1 1))) ''desk'' = 1
     \<and> sum_list (map (\<lambda>(a, m). max 0 (worker_count (live_processes (rn_launcher (after_tick 1 1))) a - max (sm_reserved m) (wanted m)))
          [(''echo'', echo_member), (''desk'', desk_member)]) \<le> 1"
proof -
  have r: "runner_reachable (small_config 1 1) (after_tick 1 1)"
    unfolding after_tick_def by (intro runner_tick runner_new)
  have l: "rc_launcher (small_config 1 1) = process_launcher plain_platform ''python'' ''/srv/sessions.db''" by (simp add: small_config_def)
  have m: "sh_members (rc_shard (small_config 1 1)) = [(''echo'', echo_member), (''desk'', desk_member)]" "sh_pool (rc_shard (small_config 1 1)) = 1"
    by (simp_all add: small_config_def desk_member_def)
  have k: "shard_ok (rc_shard (small_config 1 1))"
    unfolding shard_ok_def m by (simp add: dict_ok_def member_ok_def echo_member_def desk_member_def not_positive_def)
  have c: "worker_count (live_processes (rn_launcher (after_tick 1 1))) ''echo'' = 1 \<and> worker_count (live_processes (rn_launcher (after_tick 1 1))) ''desk'' = 1"
    by code_simp
  from pool_is_respected [OF r l k] c show ?thesis unfolding m by simp
qed

text \<open>
  An eager member that reserves no worker outgrows the pool: its first worker takes a shared slot without asking.
\<close>

lemma eager_member_outgrows_the_pool:
  "shared_of (rc_shard (small_config 0 0)) (worker_count (live_processes (rn_launcher (after_tick 0 0)))) = 1 \<and> sh_pool (rc_shard (small_config 0 0)) = 0"
  by code_simp

subsection \<open>Failure notices\<close>

lemma notice_key: "event_key (failure_notice row) = Some (notice_id row)" "\<not> starts_with ''timer:'' (notice_id row)"
  by (simp_all add: event_key_def failure_notice_def notice_id_def starts_with_def)

lemma colon_free: "CHR '':'' \<notin> set (nat_text n)"
proof (induction n rule: nat_text.induct)
  case (1 n)
  have d: "CHR '':'' \<noteq> digit_char d" if "d < 10" for d
  proof
    assume "CHR '':'' = digit_char d"
    with of_digit_char [OF that] have "(of_char CHR '':'' :: nat) = 48 + d" by simp
    with that show False by simp
  qed
  show ?case
    using d [of n] d [of "n mod 10"] 1 by (subst nat_text.simps) auto
qed

text \<open>The session, the revision and the attempts can be read off a notice's ID.\<close>

lemma tail_field:
  assumes "u @ '':'' @ nat_text n = v @ '':'' @ nat_text k"
  shows "u = v \<and> n = k"
proof -
  have t: "takeWhile (\<lambda>c. c \<noteq> CHR '':'') (rev (w @ '':'' @ nat_text j)) = rev (nat_text j)" for w j
  proof -
    have "takeWhile (\<lambda>c. c \<noteq> CHR '':'') (rev (nat_text j) @ ys) = rev (nat_text j) @ takeWhile (\<lambda>c. c \<noteq> CHR '':'') ys" for ys
      by (rule takeWhile_append2) (use colon_free [of j] in auto)
    then show ?thesis by simp
  qed
  from arg_cong [OF assms, of "\<lambda>s. takeWhile (\<lambda>c. c \<noteq> CHR '':'') (rev s)"] have "n = k" unfolding t by simp
  with assms show ?thesis by simp
qed

lemma notice_id_inj: "notice_id r = notice_id q \<Longrightarrow> sl_session_id r = sl_session_id q"
proof -
  assume "notice_id r = notice_id q"
  then have "(sl_session_id r @ '':'' @ nat_text (sl_revision r)) @ '':'' @ nat_text (sl_attempts r)
      = (sl_session_id q @ '':'' @ nat_text (sl_revision q)) @ '':'' @ nat_text (sl_attempts q)"
    by (simp add: notice_id_def)
  from tail_field [OF conjunct1 [OF tail_field [OF this]]] show ?thesis by simp
qed

lemma distinct_coarser: "(\<And>x y. f x = f y \<Longrightarrow> g x = g y) \<Longrightarrow> distinct (map g xs) \<Longrightarrow> distinct (map f xs)"
  unfolding distinct_map inj_on_def by blast

definition notice_row :: "string \<Rightarrow> session_listing \<Rightarrow> input_row" where
  "notice_row target row = \<lparr>i_session = target, i_event_id = notice_id row, i_event = failure_notice row, i_incorporated = False\<rparr>"

lemma notify_one_open:
  assumes "find_session db target = Some t" and "s_status t \<noteq> Complete"
  shows "notify_one local_store target row db =
    (if has_input db target (notice_id row) then (db, Inr 0) else (db\<lparr>inputs := inputs db @ [notice_row target row]\<rparr>, Inr 1))"
  using assms by (simp add: notify_one_def append_mail_def append_input_def notice_key notice_row_def)

lemma notify_rows:
  assumes "find_session db target = Some t" and "s_status t \<noteq> Complete" and "distinct (map notice_id rows)"
  shows "sum_each (notify_one local_store target) rows n db =
    (db\<lparr>inputs := inputs db @ map (notice_row target) (filter (\<lambda>r. \<not> has_input db target (notice_id r)) rows)\<rparr>,
     Inr (n + length (filter (\<lambda>r. \<not> has_input db target (notice_id r)) rows)))"
  using assms
proof (induction rows arbitrary: db n)
  case (Cons r rows)
  show ?case
  proof (cases "has_input db target (notice_id r)")
    case True
    with Cons.IH [OF Cons.prems(1,2)] Cons.prems(3) show ?thesis
      by (simp add: notify_one_open [OF Cons.prems(1,2)])
  next
    case False
    let ?db = "db\<lparr>inputs := inputs db @ [notice_row target r]\<rparr>"
    have f: "find_session ?db target = Some t" using Cons.prems(1) by (simp add: find_session_def)
    have "filter (\<lambda>q. \<not> has_input ?db target (notice_id q)) rows = filter (\<lambda>q. \<not> has_input db target (notice_id q)) rows"
      using Cons.prems(3) by (intro filter_cong) (auto simp: has_input_def notice_row_def)
    with Cons.IH [OF f Cons.prems(2), of "n + 1"] Cons.prems(3) False show ?thesis
      by (simp add: notify_one_open [OF Cons.prems(1,2)])
  qed
qed simp

text \<open>
  C32. Each failure is reported once. When the notified session is open, a round of notices adds exactly one
  pending mail to it for every failed session whose failure (session, revision and attempts) was not reported
  before, changes nothing else and returns their number; another round adds none.
\<close>

theorem failures_are_reported_once:
  assumes "db_ok db" and "find_session db target = Some t" and "s_status t \<noteq> Complete"
    and "news = filter (\<lambda>r. \<not> has_input db target (notice_id r)) (map listing_of (filter (\<lambda>r. s_status r = Failed) (sessions db)))"
    and "db' = db\<lparr>inputs := inputs db @ map (notice_row target) news\<rparr>"
  shows "notify_failures local_store now target db = (db', Inr (length news))
    \<and> notify_failures local_store now' target db' = (db', Inr 0)"
proof -
  let ?rows = "map listing_of (filter (\<lambda>r. s_status r = Failed) (sessions db))"
  have list: "list_sessions d u None (Some ''failed'') None None = Inr (map listing_of (filter (\<lambda>r. s_status r = Failed) (sessions d)))" for d u
  proof -
    have "''failed'' = status_text x \<longleftrightarrow> x = Failed" for x by (cases x) (simp_all add: status_text_def)
    then show ?thesis by (simp add: list_sessions_def take_opt_def)
  qed
  have "distinct (map s_id (filter (\<lambda>r. s_status r = Failed) (sessions db)))"
    using assms(1) by (simp add: db_ok_def distinct_map_filter)
  then have d: "distinct (map notice_id ?rows)"
    unfolding map_map by (rule distinct_coarser [rotated]) (use notice_id_inj in \<open>force simp: listing_of_def\<close>)
  have first: "notify_failures local_store now target db = (db', Inr (length news))"
    by (simp add: notify_failures_def abind_def list notify_rows [OF assms(2,3) d] assms(4,5))
  have f: "find_session db' target = Some t" using assms(2) by (simp add: assms(5) find_session_def)
  have none: "filter (\<lambda>r. \<not> has_input db' target (notice_id r)) ?rows = []"
  proof -
    have "has_input db' target i \<longleftrightarrow> has_input db target i \<or> i \<in> notice_id ` set news" for i
      unfolding has_input_def assms(5) list_ex_iff by (simp add: bex_Un) (auto simp: notice_row_def)
    then show ?thesis by (auto simp: filter_empty_conv assms(4))
  qed
  have "sum_each (notify_one local_store target) ?rows 0 db' = (db', Inr 0)"
    unfolding notify_rows [OF f assms(3) d] none by simp
  moreover have "sessions db' = sessions db" by (simp add: assms(5))
  ultimately have "notify_failures local_store now' target db' = (db', Inr 0)"
    by (simp add: notify_failures_def abind_def list)
  with first show ?thesis by blast
qed

definition failed_row :: session_row where
  "failed_row = (new_row ''job'' ''echo:v1'' (JObj []))\<lparr>s_status := Failed, s_attempts := 3, s_revision := 1\<rparr>"

definition failed_db :: wake_db where
  "failed_db = empty_db\<lparr>sessions := [failed_row, new_row ''ops'' ''echo:v1'' (JObj [])]\<rparr>"

theorem failures_are_reported_once_witness:
  "snd (notify_failures local_store 5 ''ops'' failed_db) = Inr 1
     \<and> snd (notify_failures local_store 9 ''ops'' (fst (notify_failures local_store 5 ''ops'' failed_db))) = Inr 0
     \<and> map i_event_id (inputs (fst (notify_failures local_store 5 ''ops'' failed_db))) = [''runner:failed:job:1:3'']"
proof -
  have ok: "db_ok failed_db"
    by (simp add: db_ok_def row_ok_def failed_db_def failed_row_def new_row_def empty_db_def pending_def)
  have f: "find_session failed_db ''ops'' = Some (new_row ''ops'' ''echo:v1'' (JObj []))" "s_status (new_row ''ops'' ''echo:v1'' (JObj [])) \<noteq> Complete"
    by (simp_all add: failed_db_def failed_row_def find_session_def new_row_def)
  have news: "filter (\<lambda>r. \<not> has_input failed_db ''ops'' (notice_id r)) (map listing_of (filter (\<lambda>r. s_status r = Failed) (sessions failed_db))) = [listing_of failed_row]"
    by (simp add: failed_db_def failed_row_def new_row_def empty_db_def has_input_def)
  have i: "notice_id (listing_of failed_row) = ''runner:failed:job:1:3''" by code_simp
  from failures_are_reported_once [OF ok f news [symmetric] refl, where now = 5 and now' = 9] show ?thesis
    by (simp add: notice_row_def i failed_db_def empty_db_def)
qed

end
