(* ===== verification/Configuration.thy ===== *)
theory Configuration
  imports Shard
begin

text \<open>
  Agent manifests and backend settings (\<open>entourage/config.py\<close>). A manifest is its parsed YAML document. Reading a
  number and joining paths are functions of the platform; the text of a float, a list or a mapping (\<open>str\<close>) is the
  function \<open>ce_show\<close>. A path is its text: no normalisation.
\<close>

subsection \<open>Values\<close>

record config_env =
  ce_platform :: platform
  ce_show :: "json \<Rightarrow> string"
  ce_environ :: "(string \<times> string) list"

definition py_str :: "(json \<Rightarrow> string) \<Rightarrow> json \<Rightarrow> string" where
  "py_str sh v = (case v of JStr s \<Rightarrow> s | JInt i \<Rightarrow> int_text i | JBool b \<Rightarrow> (if b then ''True'' else ''False'') | JNull \<Rightarrow> ''None'' | _ \<Rightarrow> sh v)"

definition name_start :: "char \<Rightarrow> bool" where
  "name_start c \<longleftrightarrow> (let n = of_char c :: nat in (65 \<le> n \<and> n \<le> 90) \<or> (97 \<le> n \<and> n \<le> 122) \<or> n = 95)"

definition name_char :: "char \<Rightarrow> bool" where
  "name_char c \<longleftrightarrow> name_start c \<or> (let n = of_char c :: nat in 48 \<le> n \<and> n \<le> 57)"

text \<open>The name in a text that is one reference \<open>${NAME}\<close>; the pattern's end also matches before a last line feed.\<close>

definition env_reference :: "string \<Rightarrow> string option" where
  "env_reference s =
     (case s of
        d # b # rest \<Rightarrow>
          let name = takeWhile (\<lambda>c. c \<noteq> CHR ''}'') rest in
          if d = CHR ''$'' \<and> b = CHR ''{'' \<and> dropWhile (\<lambda>c. c \<noteq> CHR ''}'') rest \<in> {''}'', [CHR ''}'', CHR 0x0A]}
             \<and> (case name of [] \<Rightarrow> False | c # cs \<Rightarrow> name_start c \<and> list_all name_char cs)
          then Some name else None
      | _ \<Rightarrow> None)"

definition resolve_value :: "(string \<times> string) list \<Rightarrow> json \<Rightarrow> json" where
  "resolve_value environ v =
     (case v of
        JStr s \<Rightarrow> (case env_reference s of
                     None \<Rightarrow> v
                   | Some name \<Rightarrow> JStr (case map_of environ name of None \<Rightarrow> [] | Some t \<Rightarrow> t))
      | _ \<Rightarrow> v)"

subsection \<open>Backends\<close>

record redis_config =
  rd_url :: string
  rd_prefix :: string

definition default_url :: string where
  "default_url = ''redis://localhost:6379/0''"

definition redis_from_mapping :: "config_env \<Rightarrow> dict \<Rightarrow> redis_config" where
  "redis_from_mapping ce d = \<lparr>rd_url = py_str (ce_show ce) (dict_get d ''url'' (JStr default_url)),
     rd_prefix = py_str (ce_show ce) (dict_get d ''prefix'' (JStr ''entourage''))\<rparr>"

definition graph_namespace :: "redis_config \<Rightarrow> string" where
  "graph_namespace r = rd_prefix r @ '':graph''"

definition queue_namespace :: "redis_config \<Rightarrow> string" where
  "queue_namespace r = rd_prefix r @ '':queue''"

definition mailbox_namespace :: "redis_config \<Rightarrow> string" where
  "mailbox_namespace r = rd_prefix r @ '':mailbox''"

definition monitors_namespace :: "redis_config \<Rightarrow> string" where
  "monitors_namespace r = rd_prefix r @ '':monitors''"

text \<open>A strategy is the class and the arguments of its constructor.\<close>

datatype strategy = InMemory | OnRedis string string

record runtime_resources =
  rs_graph_store :: strategy
  rs_ready_queue :: strategy
  rs_mailbox :: strategy
  rs_monitors :: strategy

definition redis_resources :: "redis_config \<Rightarrow> runtime_resources" where
  "redis_resources r = \<lparr>rs_graph_store = OnRedis (rd_url r) (graph_namespace r), rs_ready_queue = OnRedis (rd_url r) (queue_namespace r),
     rs_mailbox = OnRedis (rd_url r) (mailbox_namespace r), rs_monitors = OnRedis (rd_url r) (monitors_namespace r)\<rparr>"

record backend_config =
  bc_backend :: string
  bc_url :: string
  bc_prefix :: string

definition backend_from_mapping :: "config_env \<Rightarrow> dict \<Rightarrow> backend_config" where
  "backend_from_mapping ce d =
     \<lparr>bc_backend = py_str (ce_show ce) (dict_get d ''backend'' (JStr ''memory'')),
      bc_url = py_str (ce_show ce) (resolve_value (ce_environ ce) (dict_get d ''url'' (JStr default_url))),
      bc_prefix = py_str (ce_show ce) (dict_get d ''prefix'' (JStr ''entourage''))\<rparr>"

definition resources :: "backend_config \<Rightarrow> runtime_resources res" where
  "resources c =
     (if bc_backend c = ''memory'' then Inr \<lparr>rs_graph_store = InMemory, rs_ready_queue = InMemory, rs_mailbox = InMemory, rs_monitors = InMemory\<rparr>
      else if bc_backend c = ''redis'' then Inr (redis_resources \<lparr>rd_url = bc_url c, rd_prefix = bc_prefix c\<rparr>)
      else Inl (ValueError (''unknown runtime backend '' @ repr_str (bc_backend c) @ ''; expected 'memory' or 'redis'' @ [CHR 0x27])))"

subsection \<open>Agent manifests\<close>

record conversation_config =
  cc_detect :: bool
  cc_reset :: string
  cc_summaries :: int
  cc_carry :: int

record agent_manifest =
  am_id :: string
  am_trigger :: string
  am_runtime :: backend_config
  am_state_dir :: string
  am_model :: string
  am_utility_model :: string
  am_prompt :: string
  am_tools :: "string list"
  am_path :: string
  am_setup :: "string option"
  am_conversation :: conversation_config
  am_params :: dict

definition chat_dir :: "agent_manifest \<Rightarrow> string" where
  "chat_dir m = am_state_dir m @ ''/chats''"

definition topic_archive_dir :: "agent_manifest \<Rightarrow> string" where
  "topic_archive_dir m = am_state_dir m @ ''/topics''"

definition relative_to_manifest :: "config_env \<Rightarrow> string \<Rightarrow> json \<Rightarrow> string" where
  "relative_to_manifest ce parent v =
     (let p = py_str (ce_show ce) v in if starts_with ''/'' p then p else pf_join (ce_platform ce) parent p)"

text \<open>\<open>value or {}\<close>, which must be a mapping.\<close>

definition mapping_field :: "string \<Rightarrow> json option \<Rightarrow> dict res" where
  "mapping_field name v =
     (case v of
        None \<Rightarrow> Inr []
      | Some w \<Rightarrow> if \<not> truthy w then Inr []
          else (case w of JObj d \<Rightarrow> Inr d | _ \<Rightarrow> Inl (ValueError (''agent.'' @ name @ '' must be a mapping''))))"

definition tools_field :: "json option \<Rightarrow> (string list) res" where
  "tools_field v =
     (case v of
        None \<Rightarrow> Inr []
      | Some w \<Rightarrow> if \<not> truthy w then Inr []
          else (case w of
                  JList xs \<Rightarrow> if list_all is_str xs then Inr (map str_of xs) else Inl (ValueError ''agent.tools must be a list of import strings'')
                | _ \<Rightarrow> Inl (ValueError ''agent.tools must be a list of import strings'')))"

text \<open>Without a runtime section the manifest is of the first draft, which knew only Redis.\<close>

definition manifest_backend :: "config_env \<Rightarrow> string \<Rightarrow> dict \<Rightarrow> backend_config res" where
  "manifest_backend ce i raw =
     (let text = py_str (ce_show ce); prefix = JStr (''entourage:'' @ i) in
      case dict_get raw ''runtime'' JNull of
        JNull \<Rightarrow> Inr \<lparr>bc_backend = ''redis'', bc_url = text (resolve_value (ce_environ ce) (dict_get raw ''redis_url'' (JStr default_url))),
                      bc_prefix = text (dict_get raw ''redis_prefix'' prefix)\<rparr>
      | JObj d \<Rightarrow> Inr \<lparr>bc_backend = text (dict_get d ''backend'' (JStr ''memory'')),
                      bc_url = text (resolve_value (ce_environ ce) (dict_get d ''url'' (JStr default_url))),
                      bc_prefix = text (dict_get d ''prefix'' prefix)\<rparr>
      | _ \<Rightarrow> Inl (ValueError ''agent.runtime must be a mapping''))"

definition read_conversation :: "config_env \<Rightarrow> dict \<Rightarrow> conversation_config res" where
  "read_conversation ce d =
     rbind (to_int (ce_platform ce) (dict_get d ''recent_summary_limit'' (JInt 3))) (\<lambda>summaries.
     rbind (to_int (ce_platform ce) (dict_get d ''topic_carry_messages'' (JInt 10))) (\<lambda>carry.
       Inr \<lparr>cc_detect = truthy (dict_get d ''topic_shift_detection'' (JBool True)),
            cc_reset = py_str (ce_show ce) (dict_get d ''reset_command'' (JStr ''/new'')),
            cc_summaries = summaries, cc_carry = carry\<rparr>))"

definition read_agent :: "config_env \<Rightarrow> string \<Rightarrow> string \<Rightarrow> dict \<Rightarrow> agent_manifest res" where
  "read_agent ce parent path raw =
     (let text = py_str (ce_show ce); env = resolve_value (ce_environ ce) in
      rbind (mapping_field ''conversation'' (map_of raw ''conversation'')) (\<lambda>conv.
      rbind (tools_field (map_of raw ''tools'')) (\<lambda>tools.
      rbind (mapping_field ''model_params'' (map_of raw ''model_params'')) (\<lambda>params.
      rbind (required raw ''id'') (\<lambda>i.
      rbind (manifest_backend ce (text i) raw) (\<lambda>backend.
      rbind (required raw ''model'') (\<lambda>model.
      rbind (read_conversation ce conv) (\<lambda>conversation.
        Inr \<lparr>am_id = text i, am_trigger = text (dict_get raw ''trigger'' (JStr (text i @ ''.message''))), am_runtime = backend,
             am_state_dir = relative_to_manifest ce parent (dict_get raw ''state_dir'' (JStr ''state'')),
             am_model = text (env model), am_utility_model = text (env (dict_get raw ''utility_model'' model)),
             am_prompt = relative_to_manifest ce parent (dict_get raw ''prompt'' (JStr ''prompt.md'')),
             am_tools = tools, am_path = path,
             am_setup = (if truthy (dict_get raw ''setup'' JNull) then Some (text (dict_get raw ''setup'' JNull)) else None),
             am_conversation = conversation, am_params = map (\<lambda>(k, v). (k, env v)) params\<rparr>))))))))"

text \<open>\<open>path\<close> is the resolved path of the manifest and \<open>parent\<close> its directory.\<close>

definition load_agent_manifest :: "config_env \<Rightarrow> string \<Rightarrow> string \<Rightarrow> agent_manifest res" where
  "load_agent_manifest ce parent path =
     rbind (pf_yaml (ce_platform ce) path) (\<lambda>document.
     rbind (mapping_or_empty (Some document)) (\<lambda>d.
     (case dict_get d ''agent'' JNull of
        JObj raw \<Rightarrow> read_agent ce parent path raw
      | _ \<Rightarrow> Inl (ValueError ''manifest must contain an 'agent' mapping''))))"

end
