(* ===== verification/Histories.thy ===== *)
theory Histories
  imports Py_Values
begin

text \<open>
  Conversation files (\<open>entourage/memory.py\<close>): the dialogue of a transcript, storage keys, the chat history
  of one conversation, the durable event history, the fact list and the topic archive. A file's content is what its
  text denotes: a JSON list of objects (what these classes write there), JSON lines, text, or text that is not JSON.
  \<open>disk\<close> says which writes of a call the disk takes. The answer of a model call is an argument.
\<close>

subsection \<open>Dialogue\<close>

definition dialogue_message :: "dict \<Rightarrow> dict option" where
  "dialogue_message m =
     (if dict_get m ''role'' JNull \<in> {JStr ''user'', JStr ''assistant''} \<and> truthy (dict_get m ''content'' JNull)
      then Some [(''role'', dict_get m ''role'' JNull), (''content'', dict_get m ''content'' JNull)] else None)"

definition dialogue_only :: "dict list \<Rightarrow> dict list" where
  "dialogue_only ms = List.map_filter dialogue_message ms"

text \<open>\<open>xs[-n:]\<close> for a positive \<open>n\<close>.\<close>

definition last_n :: "nat \<Rightarrow> 'a list \<Rightarrow> 'a list" where
  "last_n n xs = drop (length xs - n) xs"

definition dialogue_tail :: "dict list \<Rightarrow> int \<Rightarrow> dict list" where
  "dialogue_tail ms limit = (if limit \<le> 0 then [] else last_n (nat limit) (dialogue_only ms))"

subsection \<open>Storage keys\<close>

text \<open>\<open>urllib.parse.quote(s, safe="-_.:")\<close>: the UTF-8 bytes of every other character, in hexadecimal.\<close>

definition plain_char :: "char \<Rightarrow> bool" where
  "plain_char c \<longleftrightarrow> (let n = of_char c :: nat in
     (48 \<le> n \<and> n \<le> 57) \<or> (65 \<le> n \<and> n \<le> 90) \<or> (97 \<le> n \<and> n \<le> 122) \<or> c \<in> set ''-_.:~'')"

definition utf8 :: "char \<Rightarrow> nat list" where
  "utf8 c = (let n = of_char c in if n < 128 then [n] else [192 + n div 64, 128 + n mod 64])"

definition hex_digit :: "nat \<Rightarrow> char" where
  "hex_digit d = (if d < 10 then char_of (48 + d) else char_of (55 + d))"

definition percent :: "nat \<Rightarrow> string" where
  "percent b = [CHR ''%'', hex_digit (b div 16), hex_digit (b mod 16)]"

definition quote_char :: "char \<Rightarrow> string" where
  "quote_char c = (if plain_char c then [c] else concat (map percent (utf8 c)))"

definition conversation_storage_key :: "string \<Rightarrow> string" where
  "conversation_storage_key cid = concat (map quote_char cid)"

subsection \<open>Files\<close>

datatype file_content = Document "dict list" | Malformed | EmptyFile | JsonLines "dict list" | TextFile string

type_synonym files = "(string \<times> file_content) list"

text \<open>
  Which writes of a call the disk takes: all, none, all but the last, or all but the last, which it
  breaks off after it has emptied the file.
\<close>

datatype disk = DiskOk | ArchiveFails | SaveFails | SaveTorn

definition io_error :: py_error where
  "io_error = OtherError ''OSError'' ''write failed''"

subsection \<open>The chat history\<close>

record chat_history =
  ch_id :: string
  ch_dir :: string
  ch_path :: string
  ch_messages :: "dict list"

definition chat_path :: "string \<Rightarrow> string \<Rightarrow> string" where
  "chat_path dir cid = dir @ ''/'' @ conversation_storage_key cid @ ''.json''"

definition open_history :: "files \<Rightarrow> string \<Rightarrow> string \<Rightarrow> chat_history" where
  "open_history fs dir cid = \<lparr>ch_id = cid, ch_dir = dir, ch_path = chat_path dir cid,
     ch_messages = (case map_of fs (chat_path dir cid) of
        Some (Document ms) \<Rightarrow> ms
      | _ \<Rightarrow> [])\<rparr>"

text \<open>A write that fails is reported and ignored; one that breaks off leaves text that is not JSON.\<close>

definition save_history :: "disk \<Rightarrow> chat_history \<Rightarrow> files \<Rightarrow> files" where
  "save_history dk h fs = (case dk of
     DiskOk \<Rightarrow> AList.update (ch_path h) (Document (ch_messages h)) fs
   | SaveTorn \<Rightarrow> AList.update (ch_path h) Malformed fs
   | _ \<Rightarrow> fs)"

definition set_messages :: "disk \<Rightarrow> dict list \<Rightarrow> chat_history \<times> files \<Rightarrow> chat_history \<times> files" where
  "set_messages dk ms s = (let h = (fst s)\<lparr>ch_messages := ms\<rparr> in (h, save_history dk h (snd s)))"

definition append_message :: "disk \<Rightarrow> string \<Rightarrow> dict \<Rightarrow> chat_history \<times> files \<Rightarrow> chat_history \<times> files" where
  "append_message dk timestamp m s = set_messages dk (ch_messages (fst s) @ [AList.update ''timestamp'' (JStr timestamp) m]) s"

definition start_new_session :: "disk \<Rightarrow> string \<Rightarrow> chat_history \<times> files \<Rightarrow> (chat_history \<times> files) \<times> string" where
  "start_new_session dk fresh s =
     (set_messages dk [] ((fst s)\<lparr>ch_id := fresh, ch_path := ch_dir (fst s) @ ''/'' @ fresh @ ''.json''\<rparr>, snd s), fresh)"

subsection \<open>The event history\<close>

record event_history =
  eh_path :: string
  eh_archive :: string
  eh_max :: int
  eh_events :: "dict list"

definition events_path :: "string \<Rightarrow> string \<Rightarrow> string" where
  "events_path dir cid = dir @ ''/'' @ conversation_storage_key cid @ ''.events.json''"

definition archive_path :: "string \<Rightarrow> string \<Rightarrow> string" where
  "archive_path dir cid = dir @ ''/'' @ conversation_storage_key cid @ ''.events.archive.jsonl''"

definition open_events :: "files \<Rightarrow> string \<Rightarrow> string \<Rightarrow> int \<Rightarrow> event_history res" where
  "open_events fs dir cid max_events =
     (if max_events < 1 then Inl (ValueError ''max_events must be >= 1'')
      else
        let h = \<lparr>eh_path = events_path dir cid, eh_archive = archive_path dir cid, eh_max = max_events, eh_events = []\<rparr> in
        (case map_of fs (events_path dir cid) of
           None \<Rightarrow> Inr h
         | Some (Document es) \<Rightarrow> Inr (h\<lparr>eh_events := es\<rparr>)
         | Some c \<Rightarrow> Inl (OtherError ''RuntimeError'' ''could not load event history'')))"

definition archived_lines :: "files \<Rightarrow> string \<Rightarrow> dict list" where
  "archived_lines fs path = (case map_of fs path of Some (JsonLines ls) \<Rightarrow> ls | _ \<Rightarrow> [])"

definition same_id :: "json \<Rightarrow> dict \<Rightarrow> bool" where
  "same_id i e \<longleftrightarrow> dict_get e ''event_id'' JNull = i"

text \<open>
  The list in memory grows first; then the overflow goes to the archive and leaves memory; then the
  document is replaced by a finished copy. A write that fails raises and leaves what was done before it.
  The identifiers of a history are compared as JSON values.
\<close>

definition append_event :: "disk \<Rightarrow> dict \<Rightarrow> (event_history \<times> files, bool) act" where
  "append_event dk event s =
     (case s of (h, fs) \<Rightarrow>
        let i = dict_get event ''event_id'' JNull in
        if \<not> truthy i then (s, Inl (ValueError ''event_id is required''))
        else if list_ex (same_id i) (eh_events h) then (s, Inr False)
        else
          let es = eh_events h @ [event]; over = length es - nat (eh_max h) in
          if 0 < over \<and> dk = ArchiveFails then ((h\<lparr>eh_events := es\<rparr>, fs), Inl io_error)
          else
            let h1 = h\<lparr>eh_events := (if 0 < over then last_n (nat (eh_max h)) es else es)\<rparr>;
                fs1 = (if 0 < over then AList.update (eh_archive h) (JsonLines (archived_lines fs (eh_archive h) @ take over es)) fs else fs)
            in if dk \<noteq> DiskOk then ((h1, fs1), Inl io_error)
               else ((h1, AList.update (eh_path h) (Document (eh_events h1)) fs1), Inr True))"

definition get_events :: "event_history \<Rightarrow> dict list" where
  "get_events h = eh_events h"

subsection \<open>Facts\<close>

text \<open>The fact file is text; opening it creates it when it is missing.\<close>

definition open_facts :: "string option \<Rightarrow> string" where
  "open_facts f = (case f of None \<Rightarrow> [] | Some t \<Rightarrow> t)"

definition add_note :: "string \<Rightarrow> string \<Rightarrow> string \<Rightarrow> string" where
  "add_note timestamp note t = t @ ''['' @ timestamp @ ''] '' @ note @ [CHR 0x0A]"

text \<open>Reading text turns every line end into a line feed.\<close>

fun newlines :: "string \<Rightarrow> string" where
  "newlines [] = []"
| "newlines [c] = (if c = CHR 0x0D then [CHR 0x0A] else [c])"
| "newlines (c # d # cs) =
     (if c = CHR 0x0D then CHR 0x0A # newlines (if d = CHR 0x0A then cs else d # cs) else c # newlines (d # cs))"

text \<open>\<open>readlines\<close>: what follows the last line break is a line when it is not empty.\<close>

fun read_lines :: "string \<Rightarrow> string list" where
  "read_lines [] = []"
| "read_lines (c # cs) =
     (if c = CHR 0x0A then [c] # read_lines cs
      else (case read_lines cs of [] \<Rightarrow> [[c]] | l # ls \<Rightarrow> (c # l) # ls))"

definition white :: "char \<Rightarrow> bool" where
  "white c \<longleftrightarrow> (let n = of_char c :: nat in (9 \<le> n \<and> n \<le> 13) \<or> (28 \<le> n \<and> n \<le> 32) \<or> n = 133 \<or> n = 160)"

text \<open>\<open>s.strip()\<close>.\<close>

definition strip :: "string \<Rightarrow> string" where
  "strip s = rev (dropWhile white (rev (dropWhile white s)))"

definition get_facts :: "string \<Rightarrow> string list" where
  "get_facts t = map strip (read_lines (newlines t))"

subsection \<open>Topics\<close>

text \<open>An answer of the model: its text, or the error the call raised.\<close>

type_synonym answer = "string res"

text \<open>\<open>s.upper()\<close>; the two letters whose capital lies above code point 255 stay.\<close>

definition upper_char :: "char \<Rightarrow> string" where
  "upper_char c = (let n = of_char c :: nat in
     if n = 223 then ''SS''
     else if (97 \<le> n \<and> n \<le> 122) \<or> (224 \<le> n \<and> n \<le> 254 \<and> n \<noteq> 247) then [char_of (n - 32)] else [c])"

text \<open>The judge is asked only when there are two dialogue messages.\<close>

definition is_new_topic :: "(dict list \<times> dict \<Rightarrow> answer) \<Rightarrow> dict list \<Rightarrow> bool" where
  "is_new_topic judge ms =
     (let d = dialogue_only ms in
      if length d < 2 then False
      else (case judge (last_n 4 (butlast d), last d) of
              Inl e \<Rightarrow> False
            | Inr t \<Rightarrow> starts_with ''YES'' (concat (map upper_char (strip t)))))"

definition summarize :: "(dict list \<Rightarrow> answer) \<Rightarrow> dict list \<Rightarrow> string" where
  "summarize summarizer ms = (case summarizer (dialogue_only ms) of Inl e \<Rightarrow> ''Summary generation failed.'' | Inr t \<Rightarrow> t)"

record topic_archive =
  ta_id :: string
  ta_summary :: string
  ta_transcript_path :: string
  ta_summary_path :: string

text \<open>The summary is written first, then the transcript; \<open>topic_id\<close> is the fresh UUID.\<close>

definition archive_record :: "disk \<Rightarrow> (dict list \<Rightarrow> answer) \<Rightarrow> string \<Rightarrow> string \<Rightarrow> dict list \<Rightarrow> (files, topic_archive) act" where
  "archive_record dk summarizer dir topic_id ms fs =
     (let summary = summarize summarizer ms;
          sp = dir @ ''/summary_'' @ topic_id @ ''.txt'';
          tp = dir @ ''/topic_'' @ topic_id @ ''.json'';
          fs1 = AList.update sp (TextFile summary) fs
      in case dk of
           ArchiveFails \<Rightarrow> (fs, Inl io_error)
         | SaveFails \<Rightarrow> (fs1, Inl io_error)
         | SaveTorn \<Rightarrow> (AList.update tp Malformed fs1, Inl io_error)
         | DiskOk \<Rightarrow> (AList.update tp (Document ms) fs1,
             Inr \<lparr>ta_id = topic_id, ta_summary = summary, ta_transcript_path = tp, ta_summary_path = sp\<rparr>))"

text \<open>
  The summary files of the archive with their modification times, in the order \<open>glob\<close> gives: newest first, at
  most \<open>limit\<close>. Slicing with a negative limit drops from the end.
\<close>

definition recent_summaries :: "int \<Rightarrow> (nat \<times> string) list \<Rightarrow> string list" where
  "recent_summaries limit found =
     (let newest = rev (sort_key fst (rev found))
      in map snd (if 0 \<le> limit then take (nat limit) newest else take (length newest - nat (- limit)) newest))"

end
