(* ===== verification/Agent_Loop.thy ===== *)
theory Agent_Loop
  imports Histories
begin

text \<open>
  The tool-calling agent of the retired runtime (\<open>entourage/agent.py\<close>): one model call, the tools it asks
  for, and the loop the runtime makes of them by running the returned plan \<open>Sequence(tool, ..., agent)\<close>. The model is a
  function of the messages it is sent; it answers or raises. A tool acts on the world and returns a JSON value or
  raises. The world holds the chat history, the files, the fresh identifiers used so far and what else the
  application keeps.
\<close>

subsection \<open>The world\<close>

record 'x conv_world =
  cw_history :: chat_history
  cw_files :: files
  cw_ids :: nat
  cw_app :: 'x

definition store_messages :: "disk \<Rightarrow> dict list \<Rightarrow> 'x conv_world \<Rightarrow> 'x conv_world" where
  "store_messages dk ms w =
     (case set_messages dk ms (cw_history w, cw_files w) of (h, fs) \<Rightarrow> w\<lparr>cw_history := h, cw_files := fs\<rparr>)"

abbreviation history_of :: "'x conv_world \<Rightarrow> dict list" where
  "history_of w \<equiv> ch_messages (cw_history w)"

subsection \<open>Replies and tools\<close>

text \<open>
  A requested call: its identifier, the name of the tool, the object its argument text denotes or the error of
  reading it, and the call as a dictionary.
\<close>

record requested_call =
  rq_id :: string
  rq_name :: string
  rq_arguments :: "dict res"
  rq_dict :: dict

record model_reply =
  mr_role :: json
  mr_content :: json
  mr_calls :: "requested_call list"
  mr_function_call :: dict

record 'x agent_tool =
  at_name :: string
  at_execute :: "dict \<Rightarrow> ('x conv_world, json) act"

record 'x tool_agent =
  gt_model :: "dict list \<Rightarrow> model_reply res"
  gt_tools :: "'x agent_tool list"
  gt_return_node :: string

definition reply_message :: "model_reply \<Rightarrow> dict" where
  "reply_message r =
     [(''role'', mr_role r), (''content'', mr_content r)]
     @ (if mr_calls r = [] then [] else [(''tool_calls'', JList (map (\<lambda>c. JObj (rq_dict c)) (mr_calls r)))])
     @ (if mr_function_call r = [] then [] else [(''function_call'', JObj (mr_function_call r))])"

definition tool_named :: "'x agent_tool list \<Rightarrow> string \<Rightarrow> 'x agent_tool option" where
  "tool_named tools name = List.find (\<lambda>t. at_name t = name) tools"

text \<open>The calls of a reply that name a known tool, each with its tool; a call of an unknown tool is only reported.\<close>

definition bound_calls :: "'x agent_tool list \<Rightarrow> requested_call list \<Rightarrow> ('x agent_tool \<times> requested_call) list" where
  "bound_calls tools calls = List.map_filter (\<lambda>c. map_option (\<lambda>t. (t, c)) (tool_named tools (rq_name c))) calls"

datatype 'x next_step = AgentDone | ReturnTo string | RunTools "('x agent_tool \<times> requested_call) list"

text \<open>\<open>AgentWithTools.__call__\<close>: a model call that fails ends the turn.\<close>

definition agent_call :: "'x tool_agent \<Rightarrow> dict list \<Rightarrow> dict list \<times> 'x next_step" where
  "agent_call ag ms =
     (case gt_model ag ms of
        Inl e \<Rightarrow> (ms, AgentDone)
      | Inr r \<Rightarrow>
          let ms' = ms @ [reply_message r] in
          if mr_calls r = [] then (ms', AgentDone)
          else
            let steps = bound_calls (gt_tools ag) (mr_calls r) in
            if steps = [] then (ms', AgentDone) else (ms', RunTools steps))"

text \<open>\<open>PersistableAgent.__call__\<close>: the messages of the state become the history.\<close>

definition persistable_call :: "disk \<Rightarrow> 'x tool_agent \<Rightarrow> 'x conv_world \<times> dict list \<Rightarrow> ('x conv_world \<times> dict list) \<times> 'x next_step" where
  "persistable_call dk ag s =
     (case agent_call ag (snd s) of (ms, nx) \<Rightarrow>
        ((store_messages dk ms (fst s), ms),
         case nx of AgentDone \<Rightarrow> if gt_return_node ag = [] then AgentDone else ReturnTo (gt_return_node ag) | _ \<Rightarrow> nx))"

definition tool_error_text :: "py_error \<Rightarrow> json" where
  "tool_error_text e = JStr (''Tool error ('' @ error_class e @ ''): '' @ error_text e)"

definition result_message :: "requested_call \<Rightarrow> json \<Rightarrow> dict" where
  "result_message c v = [(''role'', JStr ''tool''), (''tool_call_id'', JStr (rq_id c)), (''name'', JStr (rq_name c)), (''content'', v)]"

text \<open>\<open>ToolWrapper.__call__\<close>: bad arguments and a failing tool become the result.\<close>

definition wrapped_tool :: "'x agent_tool \<times> requested_call \<Rightarrow> 'x conv_world \<times> dict list \<Rightarrow> 'x conv_world \<times> dict list" where
  "wrapped_tool step s =
     (case step of (t, c) \<Rightarrow> (case s of (w, ms) \<Rightarrow>
        (case abind (lifts (rq_arguments c)) (at_execute t) w of
           (w', Inr v) \<Rightarrow> (w', ms @ [result_message c v])
         | (w', Inl e) \<Rightarrow> (w', ms @ [result_message c (tool_error_text e)]))))"

definition run_tools :: "('x agent_tool \<times> requested_call) list \<Rightarrow> 'x conv_world \<times> dict list \<Rightarrow> 'x conv_world \<times> dict list" where
  "run_tools steps s = fold wrapped_tool steps s"

text \<open>
  The plan of the agent as the runtime runs it: the tools in order, then the agent again. Nothing in the code bounds the
  number of rounds, so the loop takes fuel, a number of model calls.
\<close>

fun agent_loop :: "nat \<Rightarrow> disk \<Rightarrow> 'x tool_agent \<Rightarrow> 'x conv_world \<times> dict list \<Rightarrow> ('x conv_world \<times> dict list) option" where
  "agent_loop 0 dk ag s = None"
| "agent_loop (Suc n) dk ag s =
     (case persistable_call dk ag s of
        (s', RunTools steps) \<Rightarrow> agent_loop n dk ag (run_tools steps s')
      | (s', _) \<Rightarrow> Some s')"

end
