(* ===== verification/Capabilities.thy ===== *)
theory Capabilities
  imports Histories
begin

text \<open>
  Composable capabilities (\<open>entourage/capabilities.py\<close>, \<open>entourage/builtin_capabilities.py\<close>): the turn a capability
  sees, the plan of the history owner, the registry that composes them, and the capabilities that render facts
  and summaries. A capability is a record of its hooks over a world it may change; one with a \<open>before_turn\<close> hook
  is a history owner. Its tools are values of any type.
\<close>

subsection \<open>Turns and plans\<close>

record turn_input =
  ti_conversation :: string
  ti_incoming :: string
  ti_segment :: "dict list"
  ti_events :: "dict list"
  ti_kind :: string

definition turn_of :: "string \<Rightarrow> string \<Rightarrow> dict list \<Rightarrow> turn_input" where
  "turn_of cid incoming segment = \<lparr>ti_conversation = cid, ti_incoming = incoming, ti_segment = segment, ti_events = [], ti_kind = ''user''\<rparr>"

record turn_plan =
  tp_history :: "dict list option"
  tp_view :: "dict list option"
  tp_handled :: bool
  tp_reply :: string

definition no_plan :: turn_plan where
  "no_plan = \<lparr>tp_history = None, tp_view = None, tp_handled = False, tp_reply = []\<rparr>"

subsection \<open>Capabilities\<close>

record ('w, 't) capability =
  cap_id :: string
  cap_tools :: "'t list"
  cap_prompt :: "turn_input \<Rightarrow> ('w, string option) act"
  cap_after :: "turn_input \<Rightarrow> string \<Rightarrow> ('w, unit) act"
  cap_before :: "(turn_input \<Rightarrow> ('w, turn_plan) act) option"

text \<open>The hooks of the base class contribute nothing.\<close>

definition base_capability :: "string \<Rightarrow> ('w, 't) capability" where
  "base_capability i = \<lparr>cap_id = i, cap_tools = [], cap_prompt = \<lambda>turn. ret None, cap_after = \<lambda>turn reply. ret (), cap_before = None\<rparr>"

definition base_lifecycle :: "string \<Rightarrow> ('w, 't) capability" where
  "base_lifecycle i = (base_capability i)\<lparr>cap_before := Some (\<lambda>turn. ret no_plan)\<rparr>"

definition owns_history :: "('w, 't) capability \<Rightarrow> bool" where
  "owns_history c \<longleftrightarrow> \<not> Option.is_none (cap_before c)"

subsection \<open>The registry\<close>

record ('w, 't) capability_registry =
  rg_capabilities :: "('w, 't) capability list"
  rg_lifecycle :: "('w, 't) capability option"

fun check_ids :: "string list \<Rightarrow> ('w, 't) capability list \<Rightarrow> unit res" where
  "check_ids seen [] = Inr ()"
| "check_ids seen (c # cs) =
     (if cap_id c = [] then Inl (ValueError ''no capability id'')
      else if cap_id c \<in> set seen then Inl (ValueError (''duplicate capability id '' @ repr_str (cap_id c)))
      else check_ids (cap_id c # seen) cs)"

fun join_text :: "string \<Rightarrow> string list \<Rightarrow> string" where
  "join_text sep [] = []"
| "join_text sep [s] = s"
| "join_text sep (s # t # ss) = s @ sep @ join_text sep (t # ss)"

definition new_registry :: "('w, 't) capability list \<Rightarrow> ('w, 't) capability_registry res" where
  "new_registry cs =
     rbind (check_ids [] cs) (\<lambda>_.
     let owners = filter owns_history cs in
     if 1 < length owners
     then Inl (ValueError (''conversation lifecycle is exclusive, but it is claimed by '' @ join_text '', '' (map cap_id owners)
            @ ''; compose at most one history owner per agent''))
     else Inr \<lparr>rg_capabilities = cs, rg_lifecycle = (case owners of [] \<Rightarrow> None | c # _ \<Rightarrow> Some c)\<rparr>)"

definition registry_get :: "('w, 't) capability_registry \<Rightarrow> string \<Rightarrow> ('w, 't) capability res" where
  "registry_get r i = (case List.find (\<lambda>c. cap_id c = i) (rg_capabilities r) of None \<Rightarrow> Inl (KeyError i) | Some c \<Rightarrow> Inr c)"

definition registry_tools :: "('w, 't) capability_registry \<Rightarrow> 't list" where
  "registry_tools r = concat (map cap_tools (rg_capabilities r))"

fun collect_sections :: "turn_input \<Rightarrow> ('w, 't) capability list \<Rightarrow> ('w, string list) act" where
  "collect_sections turn [] = ret []"
| "collect_sections turn (c # cs) =
     abind (cap_prompt c turn) (\<lambda>section.
     abind (collect_sections turn cs) (\<lambda>rest.
       ret ((case section of None \<Rightarrow> [] | Some s \<Rightarrow> if strip s = [] then [] else [strip s]) @ rest)))"

definition prompt_sections :: "('w, 't) capability_registry \<Rightarrow> turn_input \<Rightarrow> ('w, string list) act" where
  "prompt_sections r turn = collect_sections turn (rg_capabilities r)"

definition registry_before :: "('w, 't) capability_registry \<Rightarrow> turn_input \<Rightarrow> ('w, turn_plan) act" where
  "registry_before r turn =
     (case rg_lifecycle r of None \<Rightarrow> ret no_plan
      | Some c \<Rightarrow> (case cap_before c of None \<Rightarrow> ret no_plan | Some before \<Rightarrow> before turn))"

definition registry_after :: "('w, 't) capability_registry \<Rightarrow> turn_input \<Rightarrow> string \<Rightarrow> ('w, unit) act" where
  "registry_after r turn reply = for_each (\<lambda>c. cap_after c turn reply) (rg_capabilities r)"

subsection \<open>Facts and summaries\<close>

text \<open>\<open>fact.split("] ", 1)[1] if "] " in fact else fact\<close>.\<close>

fun after_stamp :: "string \<Rightarrow> string option" where
  "after_stamp [] = None"
| "after_stamp (c # cs) = (if starts_with ''] '' (c # cs) then Some (drop 1 cs) else after_stamp cs)"

definition bare_fact :: "string \<Rightarrow> string" where
  "bare_fact s = (case after_stamp s of None \<Rightarrow> s | Some t \<Rightarrow> t)"

definition facts_section :: "string \<Rightarrow> string list \<Rightarrow> string option" where
  "facts_section heading facts =
     (if facts = [] then None else Some (join_text [CHR 0x0A] (heading # map (\<lambda>f. ''- '' @ bare_fact f) facts)))"

definition facts_capability :: "('w \<Rightarrow> string) \<Rightarrow> string \<Rightarrow> ('w, 't) capability" where
  "facts_capability fact_file heading =
     (base_capability ''facts'')\<lparr>cap_prompt := \<lambda>turn. reads (\<lambda>w. facts_section heading (get_facts (fact_file w)))\<rparr>"

definition summaries_heading :: string where
  "summaries_heading = ''# Earlier topics in this conversation (summaries, oldest first)''"

definition numbered_from :: "nat \<Rightarrow> string list \<Rightarrow> string list" where
  "numbered_from n ss = map (\<lambda>(i, s). nat_text i @ ''. '' @ strip s) (enumerate n ss)"

definition summaries_section :: "string list \<Rightarrow> string option" where
  "summaries_section summaries =
     (if summaries = [] then None
      else Some (summaries_heading @ [CHR 0x0A, CHR 0x0A] @ join_text [CHR 0x0A, CHR 0x0A] (numbered_from 1 (rev summaries))))"

definition summaries_capability :: "('w \<Rightarrow> string list) \<Rightarrow> ('w, 't) capability" where
  "summaries_capability summaries =
     (base_capability ''recent_summaries'')\<lparr>cap_prompt := \<lambda>turn. reads (\<lambda>w. summaries_section (summaries w))\<rparr>"

end
