(* ===== verification/Conversations.thy ===== *)
theory Conversations
  imports Agent_Loop Capabilities
begin

text \<open>
  Conversations across turns (\<open>entourage/conversation.py\<close>): the live segment, reset and topic shifts, the durable
  record and the model's view of it, one handled turn of the continuous agent; and the default history owner of
  \<open>builtin_capabilities.py\<close>. The topic judge and the summarizer are model calls and arguments here; so are the loop
  that runs the agent and which writes the disk takes.
\<close>

subsection \<open>The conversation\<close>

record topic_memory =
  tm_dir :: string
  tm_judge :: "dict list \<times> dict \<Rightarrow> answer"
  tm_summarizer :: "dict list \<Rightarrow> answer"
  tm_uuid :: "nat \<Rightarrow> string"
  tm_disk :: disk

record conversation_policy =
  cp_detect :: bool
  cp_reset :: "string option"
  cp_carry :: int

definition default_policy :: conversation_policy where
  "default_policy = \<lparr>cp_detect = True, cp_reset = Some ''/new'', cp_carry = 10\<rparr>"

record live_conversation =
  cv_topics :: "topic_memory option"
  cv_policy :: conversation_policy
  cv_disk :: disk

definition segment_of :: "dict list \<Rightarrow> dict list" where
  "segment_of ms = filter (\<lambda>m. dict_get m ''role'' JNull \<noteq> JStr ''system'') ms"

definition segment :: "'x conv_world \<Rightarrow> dict list" where
  "segment w = segment_of (history_of w)"

definition put_messages :: "live_conversation \<Rightarrow> dict list \<Rightarrow> ('x conv_world, unit) act" where
  "put_messages cv ms = modifies (store_messages (cv_disk cv) ms)"

text \<open>\<open>TopicMemory.archive\<close> under a fresh identifier.\<close>

definition archive_segment :: "topic_memory \<Rightarrow> dict list \<Rightarrow> ('x conv_world, unit) act" where
  "archive_segment tm ms w =
     (case archive_record (tm_disk tm) (tm_summarizer tm) (tm_dir tm) (tm_uuid tm (cw_ids w)) ms (cw_files w) of
        (fs, r) \<Rightarrow> (w\<lparr>cw_files := fs, cw_ids := Suc (cw_ids w)\<rparr>, rbind r (\<lambda>_. Inr ())))"

definition archive_if :: "live_conversation \<Rightarrow> dict list \<Rightarrow> ('x conv_world, unit) act" where
  "archive_if cv ms = (case cv_topics cv of None \<Rightarrow> ret () | Some tm \<Rightarrow> if ms = [] then ret () else archive_segment tm ms)"

definition reset :: "live_conversation \<Rightarrow> ('x conv_world, bool) act" where
  "reset cv =
     abind (reads segment) (\<lambda>ms.
     aseq (archive_if cv ms) (aseq (put_messages cv []) (ret (ms \<noteq> []))))"

definition is_reset :: "live_conversation \<Rightarrow> string \<Rightarrow> bool" where
  "is_reset cv incoming = (case cp_reset (cv_policy cv) of None \<Rightarrow> False | Some c \<Rightarrow> c \<noteq> [] \<and> strip incoming = c)"

definition incoming_message :: "string \<Rightarrow> dict" where
  "incoming_message t = [(''role'', JStr ''user''), (''content'', JStr t)]"

definition system_message :: "string \<Rightarrow> dict" where
  "system_message t = [(''role'', JStr ''system''), (''content'', JStr t)]"

definition shifted :: "live_conversation \<Rightarrow> string \<Rightarrow> dict list \<Rightarrow> bool" where
  "shifted cv incoming ms =
     (cp_detect (cv_policy cv) \<and> (case cv_topics cv of None \<Rightarrow> False | Some tm \<Rightarrow> is_new_topic (tm_judge tm) (ms @ [incoming_message incoming])))"

definition begin_turn :: "live_conversation \<Rightarrow> string \<Rightarrow> ('x conv_world, bool) act" where
  "begin_turn cv incoming =
     (if is_reset cv incoming then aseq (reset cv) (ret True)
      else abind (reads segment) (\<lambda>ms.
        if shifted cv incoming ms
        then aseq (archive_if cv ms) (aseq (put_messages cv (dialogue_tail ms (cp_carry (cv_policy cv)))) (ret True))
        else ret False))"

text \<open>The record is saved whole; what the model sees is the record, or the view in its place.\<close>

definition messages_for :: "live_conversation \<Rightarrow> string \<Rightarrow> string \<Rightarrow> dict list option \<Rightarrow> ('x conv_world, dict list) act" where
  "messages_for cv incoming system_prompt view =
     abind (reads segment) (\<lambda>ms.
     let durable = system_message system_prompt # ms @ [incoming_message incoming] in
     aseq (put_messages cv durable)
       (ret (case view of None \<Rightarrow> durable | Some v \<Rightarrow> system_message system_prompt # v @ [incoming_message incoming])))"

subsection \<open>The continuous agent\<close>

type_synonym 'x conv_registry = "('x conv_world, 'x agent_tool) capability_registry"

record 'x continuous_agent =
  ca_conversation :: live_conversation
  ca_prompt :: "turn_input \<Rightarrow> ('x conv_world, string) act"
  ca_registry :: "'x conv_registry option"
  ca_loop :: "'x conv_world \<times> dict list \<Rightarrow> ('x conv_world \<times> dict list) option"

definition turn_for :: "string \<Rightarrow> 'x conv_world \<Rightarrow> turn_input" where
  "turn_for incoming w = turn_of (ch_id (cw_history w)) incoming (segment w)"

definition plan_turn :: "'x continuous_agent \<Rightarrow> turn_input \<Rightarrow> ('x conv_world, turn_plan) act" where
  "plan_turn ca turn = (case ca_registry ca of None \<Rightarrow> ret no_plan | Some r \<Rightarrow> registry_before r turn)"

definition unowned :: "'x continuous_agent \<Rightarrow> bool" where
  "unowned ca \<longleftrightarrow> (case ca_registry ca of None \<Rightarrow> True | Some r \<Rightarrow> Option.is_none (rg_lifecycle r))"

text \<open>The last assistant message with content.\<close>

definition last_reply :: "dict list \<Rightarrow> json" where
  "last_reply ms =
     (case List.find (\<lambda>m. dict_get m ''role'' JNull = JStr ''assistant'' \<and> truthy (dict_get m ''content'' JNull)) (rev ms) of
        None \<Rightarrow> JStr ''(no reply)'' | Some m \<Rightarrow> dict_get m ''content'' JNull)"

datatype turn_start = Answered string | ToModel "dict list"

text \<open>The policy when nobody owns the history, the plan's history, the prompt, and the messages to send.\<close>

definition send_turn :: "'x continuous_agent \<Rightarrow> string \<Rightarrow> turn_input \<Rightarrow> turn_plan \<Rightarrow> ('x conv_world, dict list) act" where
  "send_turn ca incoming turn plan =
     (let cv = ca_conversation ca in
      aseq (if unowned ca then aseq (begin_turn cv incoming) (ret ()) else ret ())
      (aseq (case tp_history plan of None \<Rightarrow> ret () | Some ms \<Rightarrow> put_messages cv ms)
      (abind (ca_prompt ca turn) (\<lambda>prompt. messages_for cv incoming prompt (tp_view plan)))))"

text \<open>\<open>ContinuousAgent.handle\<close> up to the run of the agent: an answer without a model call, or the messages to send.\<close>

definition open_turn :: "'x continuous_agent \<Rightarrow> string \<Rightarrow> turn_input \<Rightarrow> ('x conv_world, turn_start) act" where
  "open_turn ca incoming turn =
     abind (plan_turn ca turn) (\<lambda>plan.
      if tp_handled plan then ret (Answered (tp_reply plan))
      else if unowned ca \<and> cp_reset (cv_policy (ca_conversation ca)) = Some (strip incoming)
      then aseq (reset (ca_conversation ca)) (ret (Answered ''[fresh topic]''))
      else abind (send_turn ca incoming turn plan) (\<lambda>ms. ret (ToModel ms)))"

definition close_turn :: "'x continuous_agent \<Rightarrow> turn_input \<Rightarrow> ('x conv_world, json) act" where
  "close_turn ca turn =
     abind (reads (\<lambda>w. last_reply (history_of w))) (\<lambda>reply.
     aseq (case ca_registry ca of None \<Rightarrow> ret () | Some r \<Rightarrow> registry_after r turn (str_of reply)) (ret reply))"

text \<open>\<open>ContinuousAgent.handle\<close>; no result when the agent's loop gives none.\<close>

definition handle :: "'x continuous_agent \<Rightarrow> string \<Rightarrow> 'x conv_world \<Rightarrow> ('x conv_world \<times> json res) option" where
  "handle ca incoming w =
     (let turn = turn_for incoming w in
      case open_turn ca incoming turn w of
        (w1, Inl e) \<Rightarrow> Some (w1, Inl e)
      | (w1, Inr (Answered reply)) \<Rightarrow> Some (w1, Inr (JStr reply))
      | (w1, Inr (ToModel ms)) \<Rightarrow>
          (case ca_loop ca (w1, ms) of None \<Rightarrow> None | Some (w2, ms2) \<Rightarrow> Some (close_turn ca turn w2)))"

subsection \<open>The default history owner\<close>

definition topic_shift :: "live_conversation \<Rightarrow> string \<Rightarrow> ('x conv_world, 't) capability" where
  "topic_shift cv reset_reply = (base_capability ''topic_shift'')\<lparr>cap_before := Some (\<lambda>turn.
     if is_reset cv (ti_incoming turn)
     then aseq (reset cv) (ret (no_plan\<lparr>tp_handled := True, tp_reply := reset_reply\<rparr>))
     else aseq (begin_turn cv (ti_incoming turn)) (ret no_plan))\<rparr>"

end
