(* ===== verification/Deployment.thy ===== *)
theory Deployment
  imports Configuration Plans Conversations
begin

text \<open>
  Configured agents and their workers (\<open>entourage/deployment.py\<close>): imports and tools of a manifest, the configured
  agent, the trigger worker and the mailbox worker with its turn loop. Importing a module is a parameter. A
  worker is generic in the agent it drives (\<open>agent_factory\<close>): a value with a state, made for a conversation when
  it is first needed. A publisher acts on a world of its own.
\<close>

subsection \<open>Imports\<close>

text \<open>\<open>reference.partition(":")\<close>, both sides not empty.\<close>

definition split_reference :: "string \<Rightarrow> (string \<times> string) res" where
  "split_reference r =
     (let m = takeWhile (\<lambda>c. c \<noteq> CHR '':'') r; rest = dropWhile (\<lambda>c. c \<noteq> CHR '':'') r in
      if rest = [] \<or> m = [] \<or> tl rest = [] then Inl (ValueError (''invalid import reference '' @ repr_str r @ ''; expected module:object''))
      else Inr (m, tl rest))"

text \<open>\<open>importer\<close> gives the attributes of a module or the error of importing it.\<close>

definition import_object :: "(string \<Rightarrow> (string \<Rightarrow> 'o option) res) \<Rightarrow> string \<Rightarrow> 'o res" where
  "import_object importer r =
     rbind (split_reference r) (\<lambda>(m, name).
     rbind (importer m) (\<lambda>attributes.
     (case attributes name of None \<Rightarrow> Inl (ValueError (repr_str r @ '' does not exist'')) | Some x \<Rightarrow> Inr x)))"

text \<open>\<open>build\<close> calls a factory with the setup context, when there is one.\<close>

fun load_tools :: "(string \<Rightarrow> (string \<Rightarrow> 'o option) res) \<Rightarrow> ('o \<Rightarrow> 't res) \<Rightarrow> string list \<Rightarrow> ('t list) res" where
  "load_tools importer build [] = Inr []"
| "load_tools importer build (r # rs) =
     rbind (import_object importer r) (\<lambda>f. rbind (build f) (\<lambda>t. rbind (load_tools importer build rs) (\<lambda>ts. Inr (t # ts))))"

subsection \<open>The configured agent\<close>

definition configured_conversation :: "disk \<Rightarrow> agent_manifest \<Rightarrow> live_conversation" where
  "configured_conversation dk m = \<lparr>cv_topics = None,
     cv_policy = \<lparr>cp_detect = False, cp_reset = Some (cc_reset (am_conversation m)), cp_carry = cc_carry (am_conversation m)\<rparr>,
     cv_disk = dk\<rparr>"

text \<open>The manifest's prompt, read anew for each turn, and the section of each capability.\<close>

definition configured_prompt :: "('x conv_world, string) act \<Rightarrow> 'x conv_registry \<Rightarrow> turn_input \<Rightarrow> ('x conv_world, string) act" where
  "configured_prompt read_prompt r turn =
     abind read_prompt (\<lambda>base. abind (prompt_sections r turn) (\<lambda>sections.
       ret (if sections = [] then base else join_text [CHR 0x0A, CHR 0x0A] (base # sections))))"

definition configured_agent ::
    "nat \<Rightarrow> disk \<Rightarrow> (dict list \<Rightarrow> model_reply res) \<Rightarrow> ('x conv_world, string) act \<Rightarrow> agent_manifest \<Rightarrow> 'x agent_tool list
     \<Rightarrow> ('x conv_world, 'x agent_tool) capability list \<Rightarrow> 'x continuous_agent res" where
  "configured_agent fuel dk model read_prompt m tools capabilities =
     rbind (new_registry capabilities) (\<lambda>r.
       Inr \<lparr>ca_conversation = configured_conversation dk m, ca_prompt = configured_prompt read_prompt r, ca_registry = Some r,
            ca_loop = agent_loop fuel dk \<lparr>gt_model = model, gt_tools = tools @ registry_tools r, gt_return_node = []\<rparr>\<rparr>)"

subsection \<open>Workers and their agents\<close>

record ('a, 'p) worker_state =
  ws_agents :: "(string \<times> 'a) list"
  ws_out :: 'p

record ('a, 'p) worker_env =
  we_config :: config_env
  we_new :: "string \<Rightarrow> 'a res"
  we_handle :: "string \<Rightarrow> ('a, json) act"
  we_publish :: "(dict \<Rightarrow> ('p, unit) act) option"

abbreviation text_of_json :: "('a, 'p) worker_env \<Rightarrow> json \<Rightarrow> string" where
  "text_of_json we \<equiv> py_str (ce_show (we_config we))"

definition agent_for :: "('a, 'p) worker_env \<Rightarrow> string \<Rightarrow> (('a, 'p) worker_state, 'a) act" where
  "agent_for we cid s =
     (case map_of (ws_agents s) cid of
        Some a \<Rightarrow> (s, Inr a)
      | None \<Rightarrow> (case we_new we cid of
          Inl e \<Rightarrow> (s, Inl e)
        | Inr a \<Rightarrow> (s\<lparr>ws_agents := AList.update cid a (ws_agents s)\<rparr>, Inr a)))"

text \<open>\<open>self._agent(cid).handle(text)\<close>.\<close>

definition talk :: "('a, 'p) worker_env \<Rightarrow> string \<Rightarrow> string \<Rightarrow> (('a, 'p) worker_state, json) act" where
  "talk we cid text =
     abind (agent_for we cid) (\<lambda>a s. case we_handle we text a of (a', r) \<Rightarrow> (s\<lparr>ws_agents := AList.update cid a' (ws_agents s)\<rparr>, r))"

definition publish :: "('a, 'p) worker_env \<Rightarrow> dict \<Rightarrow> (('a, 'p) worker_state, unit) act" where
  "publish we d s = (case we_publish we of None \<Rightarrow> (s, Inr ()) | Some f \<Rightarrow>
     (case f d (ws_out s) of (p, r) \<Rightarrow> (s\<lparr>ws_out := p\<rparr>, r)))"

subsection \<open>The trigger worker\<close>

definition handle_event :: "('a, 'p) worker_env \<Rightarrow> dict \<Rightarrow> (('a, 'p) worker_state, dict) act" where
  "handle_event we st =
     (case dict_get st ''text'' JNull of
        JStr text \<Rightarrow>
          if strip text = [] then ret (AList.update ''reply'' (JStr []) st)
          else abind (talk we (text_of_json we (dict_get st ''conversation_id'' (JStr ''main''))) text) (\<lambda>reply.
                 ret (AList.update ''reply'' reply st))
      | _ \<Rightarrow> ret (AList.update ''reply'' (JStr []) st))"

definition publish_reply :: "('a, 'p) worker_env \<Rightarrow> dict \<Rightarrow> (('a, 'p) worker_state, dict) act" where
  "publish_reply we st =
     aseq (if \<not> Option.is_none (we_publish we) \<and> truthy (dict_get st ''reply'' JNull) then publish we st else ret ()) (ret st)"

definition event_plan :: "string \<Rightarrow> plan" where
  "event_plan i = Sequence [Leaf (NamedNode (i @ ''.handle_event'')), Leaf (NamedNode (i @ ''.publish_reply''))]"

subsection \<open>The mailbox worker\<close>

record mailbox_worker =
  mw_id :: string
  mw_reset :: string
  mw_limit :: int
  mw_rotate :: int
  mw_formatter :: "(string \<Rightarrow> dict list \<Rightarrow> string option) option"

definition new_mailbox_worker ::
    "string \<Rightarrow> string \<Rightarrow> (string \<Rightarrow> dict list \<Rightarrow> string option) option \<Rightarrow> int \<Rightarrow> int \<Rightarrow> mailbox_worker res" where
  "new_mailbox_worker i reset_command formatter batch_limit rotate_after =
     (if batch_limit < 1 then Inl (ValueError ''batch_limit must be >= 1'')
      else if rotate_after < 1 then Inl (ValueError ''rotate_after must be >= 1'')
      else Inr \<lparr>mw_id = i, mw_reset = reset_command, mw_limit = batch_limit, mw_rotate = rotate_after, mw_formatter = formatter\<rparr>)"

definition actor_plan :: "mailbox_worker \<Rightarrow> plan res" where
  "actor_plan mw = rbind (new_wait None None (mw_limit mw)) (\<lambda>wait.
     Inr (Sequence [wait, Leaf (NamedNode (mw_id mw @ ''.handle_turn'')), Leaf (NamedNode (mw_id mw @ ''.publish_replies''))]))"

definition content_text :: "('a, 'p) worker_env \<Rightarrow> dict \<Rightarrow> string" where
  "content_text we event = text_of_json we (dict_get event ''content'' (JStr []))"

definition format_group :: "('a, 'p) worker_env \<Rightarrow> mailbox_worker \<Rightarrow> string \<Rightarrow> dict list \<Rightarrow> string option" where
  "format_group we mw cid events =
     (case mw_formatter mw of
        Some f \<Rightarrow> f cid events
      | None \<Rightarrow> let text = strip (join_text [CHR 0x0A] (map (content_text we) events)) in if text = [] then None else Some text)"

definition flush_group :: "('a, 'p) worker_env \<Rightarrow> mailbox_worker \<Rightarrow> string \<Rightarrow> string list \<times> dict list \<Rightarrow> string list \<times> dict list" where
  "flush_group we mw cid s =
     (case s of (texts, events) \<Rightarrow>
        (if events = [] then texts
         else (case format_group we mw cid events of None \<Rightarrow> texts | Some t \<Rightarrow> if t = [] then texts else texts @ [t]), []))"

definition user_event :: "dict \<Rightarrow> bool" where
  "user_event event \<longleftrightarrow> dict_get event ''kind'' JNull = JStr ''user''"

definition reset_event :: "('a, 'p) worker_env \<Rightarrow> mailbox_worker \<Rightarrow> dict \<Rightarrow> bool" where
  "reset_event we mw event \<longleftrightarrow> mw_reset mw \<noteq> [] \<and> strip (content_text we event) = mw_reset mw"

definition take_event :: "('a, 'p) worker_env \<Rightarrow> mailbox_worker \<Rightarrow> string \<Rightarrow> dict \<Rightarrow> string list \<times> dict list \<Rightarrow> string list \<times> dict list" where
  "take_event we mw cid event s =
     (if \<not> user_event event then s
      else if reset_event we mw event then (case flush_group we mw cid s of (texts, events) \<Rightarrow> (texts @ [mw_reset mw], events))
      else (fst s, snd s @ [event]))"

definition turn_texts :: "('a, 'p) worker_env \<Rightarrow> mailbox_worker \<Rightarrow> string \<Rightarrow> dict list \<Rightarrow> string list" where
  "turn_texts we mw cid events = fst (flush_group we mw cid (fold (take_event we mw cid) events ([], [])))"

fun talk_all :: "('a, 'p) worker_env \<Rightarrow> string \<Rightarrow> string list \<Rightarrow> (('a, 'p) worker_state, json list) act" where
  "talk_all we cid [] = ret []"
| "talk_all we cid (t # ts) = abind (talk we cid t) (\<lambda>r. abind (talk_all we cid ts) (\<lambda>rs. ret (r # rs)))"

text \<open>\<open>value or []\<close>, read as a list, and the objects in it.\<close>

definition list_or_empty :: "json \<Rightarrow> json list" where
  "list_or_empty v = (case v of JList xs \<Rightarrow> xs | _ \<Rightarrow> [])"

definition objects :: "json list \<Rightarrow> dict list" where
  "objects xs = map (\<lambda>x. case x of JObj d \<Rightarrow> d | _ \<Rightarrow> []) xs"

definition chat_of :: "('a, 'p) worker_env \<Rightarrow> dict list \<Rightarrow> json \<Rightarrow> json" where
  "chat_of we events dflt =
     (case List.find (\<lambda>e. truthy (dict_get e ''chat_id'' JNull)) (rev events) of
        None \<Rightarrow> dflt | Some e \<Rightarrow> JStr (text_of_json we (dict_get e ''chat_id'' JNull)))"

definition handle_turn :: "('a, 'p) worker_env \<Rightarrow> mailbox_worker \<Rightarrow> dict \<Rightarrow> (('a, 'p) worker_state, dict) act" where
  "handle_turn we mw st =
     (let events = objects (list_or_empty (dict_get st ''events'' JNull));
          cid = text_of_json we (dict_get st ''conversation_id'' (JStr ''main''));
          chat = chat_of we events (dict_get st ''chat_id'' JNull)
      in abind (agent_for we cid) (\<lambda>_.
         abind (talk_all we cid (turn_texts we mw cid events)) (\<lambda>replies.
           ret (AList.update ''replies'' (JList replies) (AList.update ''events'' (JList []) (AList.update ''chat_id'' chat st))))))"

definition publish_each :: "('a, 'p) worker_env \<Rightarrow> dict \<Rightarrow> json list \<Rightarrow> (('a, 'p) worker_state, unit) act" where
  "publish_each we st replies =
     for_each (\<lambda>r. if truthy r then publish we (AList.update ''reply'' r st) else ret ()) replies"

definition publish_replies :: "('a, 'p) worker_env \<Rightarrow> mailbox_worker \<Rightarrow> dict \<Rightarrow> (('a, 'p) worker_state, node_value) act" where
  "publish_replies we mw st =
     aseq (if Option.is_none (we_publish we) then ret () else publish_each we st (list_or_empty (dict_get st ''replies'' JNull)))
     (abind (lifts (to_int (ce_platform (we_config we)) (dict_get st ''turns'' (JInt 0)))) (\<lambda>n.
      let turns = n + 1; next = AList.update ''turns'' (JInt turns) (AList.update ''replies'' (JList []) st) in
      if mw_rotate mw \<le> turns then ret (BareState next)
      else abind (lifts (actor_plan mw)) (\<lambda>p. ret (StateAndPlan next (Some p)))))"

end
