(* ===== verification/Agent_Laws.thy ===== *)
theory Agent_Laws
  imports Agent_Loop
begin

text \<open>
  The laws of the tool-calling agent: a transcript whose calls are all answered stays one through any run of the
  loop, the record follows the transcript, and the loop ends when the model stops asking for tools.
\<close>

subsection \<open>Answered transcripts\<close>

definition message_role :: "dict \<Rightarrow> json" where
  "message_role m = dict_get m ''role'' JNull"

definition calls_of :: "dict \<Rightarrow> json list" where
  "calls_of m = (case dict_get m ''tool_calls'' JNull of
     JList xs \<Rightarrow> map (\<lambda>x. case x of JObj d \<Rightarrow> dict_get d ''id'' JNull | _ \<Rightarrow> JNull) xs | _ \<Rightarrow> [])"

text \<open>
  The calls still without a result after a transcript, in order; no result when a tool message does not
  answer the next open call or another message comes before all calls are answered.
\<close>

fun open_calls :: "json list \<Rightarrow> dict list \<Rightarrow> (json list) option" where
  "open_calls p [] = Some p"
| "open_calls p (m # ms) =
     (if message_role m = JStr ''tool''
      then (case p of [] \<Rightarrow> None | i # q \<Rightarrow> if dict_get m ''tool_call_id'' JNull = i then open_calls q ms else None)
      else if p = [] then open_calls (calls_of m) ms else None)"

lemma open_calls_append:
  "open_calls p (ms @ ns) = (case open_calls p ms of None \<Rightarrow> None | Some q \<Rightarrow> open_calls q ns)"
  by (induction p ms rule: open_calls.induct) (auto split: list.splits)

text \<open>A provider that keeps to the protocol: it speaks as the assistant and names the tools it was given.\<close>

definition keeps_protocol :: "'x tool_agent \<Rightarrow> bool" where
  "keeps_protocol ag \<longleftrightarrow>
     (\<forall>ms r. gt_model ag ms = Inr r \<longrightarrow> mr_role r = JStr ''assistant'' \<and>
        (\<forall>c \<in> set (mr_calls r). dict_get (rq_dict c) ''id'' JNull = JStr (rq_id c) \<and> tool_named (gt_tools ag) (rq_name c) \<noteq> None))"

lemma reply_message_role: "message_role (reply_message r) = mr_role r"
  by (simp add: message_role_def reply_message_def dict_get_def)

lemma reply_message_calls:
  assumes "\<And>c. c \<in> set (mr_calls r) \<Longrightarrow> dict_get (rq_dict c) ''id'' JNull = JStr (rq_id c)"
  shows "calls_of (reply_message r) = map (\<lambda>c. JStr (rq_id c)) (mr_calls r)"
  using assms by (auto simp: calls_of_def reply_message_def dict_get_def)

lemma bound_calls_all:
  "(\<And>c. c \<in> set cs \<Longrightarrow> tool_named tools (rq_name c) \<noteq> None) \<Longrightarrow> map snd (bound_calls tools cs) = cs"
proof (induction cs)
  case (Cons c cs)
  from Cons.prems [of c] obtain t where "tool_named tools (rq_name c) = Some t" by auto
  then show ?case using Cons by (simp add: bound_calls_def)
qed (simp add: bound_calls_def)

lemma wrapped_tool_messages:
  "\<exists>v. snd (wrapped_tool (t, c) (w, ms)) = ms @ [result_message c v]"
  by (auto simp: wrapped_tool_def split: prod.splits sum.splits)

text \<open>The tools answer their calls in order, whatever they do.\<close>

lemma run_tools_messages:
  "\<exists>new. snd (run_tools steps (w, ms)) = ms @ new \<and> length new = length steps
    \<and> list_all2 (\<lambda>(t, c) m. message_role m = JStr ''tool'' \<and> dict_get m ''tool_call_id'' JNull = JStr (rq_id c)) steps new"
proof (induction steps arbitrary: w ms)
  case Nil
  then show ?case by (simp add: run_tools_def)
next
  case (Cons s steps)
  obtain t c where s: "s = (t, c)" by (cases s)
  obtain v where v: "snd (wrapped_tool (t, c) (w, ms)) = ms @ [result_message c v]" using wrapped_tool_messages by blast
  obtain w1 where w1: "wrapped_tool (t, c) (w, ms) = (w1, ms @ [result_message c v])" using v by (metis prod.collapse)
  from Cons.IH [of w1 "ms @ [result_message c v]"] obtain new where
    "snd (run_tools steps (w1, ms @ [result_message c v])) = (ms @ [result_message c v]) @ new" "length new = length steps"
    "list_all2 (\<lambda>(t, c) m. message_role m = JStr ''tool'' \<and> dict_get m ''tool_call_id'' JNull = JStr (rq_id c)) steps new"
    by blast
  then show ?case
    by (intro exI [where x = "result_message c v # new"])
      (simp add: run_tools_def s w1 result_message_def message_role_def dict_get_def)
qed

lemma answers_close_calls:
  "list_all2 (\<lambda>(t, c) m. message_role m = JStr ''tool'' \<and> dict_get m ''tool_call_id'' JNull = JStr (rq_id c)) steps new \<Longrightarrow>
     open_calls (map (\<lambda>(t, c). JStr (rq_id c)) steps) new = Some []"
  by (induction rule: list_all2_induct) auto

text \<open>One round: the reply and the results of its calls.\<close>

lemma agent_round:
  assumes "keeps_protocol ag" "gt_model ag ms = Inr r" "open_calls [] ms = Some []"
  shows "open_calls [] (snd (run_tools (bound_calls (gt_tools ag) (mr_calls r)) (w, ms @ [reply_message r]))) = Some []"
proof -
  let ?steps = "bound_calls (gt_tools ag) (mr_calls r)"
  have r: "mr_role r = JStr ''assistant''"
    and ids: "\<And>c. c \<in> set (mr_calls r) \<Longrightarrow> dict_get (rq_dict c) ''id'' JNull = JStr (rq_id c)"
    and known: "\<And>c. c \<in> set (mr_calls r) \<Longrightarrow> tool_named (gt_tools ag) (rq_name c) \<noteq> None"
    using assms(1,2) by (auto simp: keeps_protocol_def)
  have "map (\<lambda>(t, c). JStr (rq_id c)) ?steps = map (\<lambda>c. JStr (rq_id c)) (map snd ?steps)" by (simp add: case_prod_unfold)
  then have calls: "calls_of (reply_message r) = map (\<lambda>(t, c). JStr (rq_id c)) ?steps"
    using reply_message_calls [OF ids] bound_calls_all [OF known] by simp
  obtain new where new: "snd (run_tools ?steps (w, ms @ [reply_message r])) = (ms @ [reply_message r]) @ new"
    "list_all2 (\<lambda>(t, c) m. message_role m = JStr ''tool'' \<and> dict_get m ''tool_call_id'' JNull = JStr (rq_id c)) ?steps new"
    using run_tools_messages by blast
  show ?thesis
    using assms(3) answers_close_calls [OF new(2)] r
    by (simp add: new(1) open_calls_append reply_message_role calls)
qed

lemma store_messages_history [simp]: "history_of (store_messages dk ms w) = ms"
  by (simp add: store_messages_def set_messages_def Let_def)

subsection \<open>The loop\<close>

text \<open>The two ways a call of the agent goes on.\<close>

lemma agent_loop_cases:
  assumes "agent_loop (Suc n) dk ag (w, ms) = Some s'"
  obtains (stops) new where "s' = (store_messages dk (ms @ new) w, ms @ new)"
      "new = [] \<or> (\<exists>r. gt_model ag ms = Inr r \<and> new = [reply_message r] \<and> bound_calls (gt_tools ag) (mr_calls r) = [])"
    | (goes_on) r where "gt_model ag ms = Inr r" "mr_calls r \<noteq> []"
      "agent_loop n dk ag (run_tools (bound_calls (gt_tools ag) (mr_calls r)) (store_messages dk (ms @ [reply_message r]) w, ms @ [reply_message r])) = Some s'"
proof (cases "gt_model ag ms")
  case (Inl e)
  then have "s' = (store_messages dk (ms @ []) w, ms @ [])"
    using assms by (auto simp: persistable_call_def agent_call_def split: if_splits)
  then show ?thesis by (rule stops) simp
next
  case (Inr r)
  show ?thesis
  proof (cases "mr_calls r = [] \<or> bound_calls (gt_tools ag) (mr_calls r) = []")
    case True
    have "s' = (store_messages dk (ms @ [reply_message r]) w, ms @ [reply_message r])"
      using assms Inr True by (auto simp: persistable_call_def agent_call_def Let_def split: if_splits)
    moreover have "bound_calls (gt_tools ag) (mr_calls r) = []" using True by (auto simp: bound_calls_def)
    ultimately show ?thesis using Inr by (intro stops) auto
  next
    case False
    then show ?thesis
      using assms Inr by (intro goes_on) (auto simp: persistable_call_def agent_call_def Let_def)
  qed
qed

lemma agent_loop_extends:
  "agent_loop n dk ag (w, ms) = Some (w', ms') \<Longrightarrow> (\<exists>new. ms' = ms @ new) \<and> history_of w' = ms'"
proof (induction n arbitrary: w ms)
  case 0
  then show ?case by simp
next
  case (Suc n)
  from Suc.prems show ?case
  proof (cases rule: agent_loop_cases)
    case (stops new)
    then show ?thesis by auto
  next
    case (goes_on r)
    let ?s = "run_tools (bound_calls (gt_tools ag) (mr_calls r)) (store_messages dk (ms @ [reply_message r]) w, ms @ [reply_message r])"
    obtain new where "snd ?s = (ms @ [reply_message r]) @ new" using run_tools_messages by blast
    then obtain w1 where "?s = (w1, (ms @ [reply_message r]) @ new)" by (metis prod.collapse)
    then show ?thesis using Suc.IH [of w1 "(ms @ [reply_message r]) @ new"] goes_on(3) by auto
  qed
qed


text \<open>An agent that calls its tool once and then answers, and what it is started on.\<close>

definition sample_call :: requested_call where
  "sample_call = \<lparr>rq_id = ''c1'', rq_name = ''clock'', rq_arguments = Inr [], rq_dict = [(''id'', JStr ''c1'')]\<rparr>"

definition sample_model :: "dict list \<Rightarrow> model_reply res" where
  "sample_model ms =
     Inr \<lparr>mr_role = JStr ''assistant'', mr_content = (if length ms < 3 then JNull else JStr ''noon''),
          mr_calls = (if length ms < 3 then [sample_call] else []), mr_function_call = []\<rparr>"

definition sample_agent :: "nat tool_agent" where
  "sample_agent = \<lparr>gt_model = sample_model,
     gt_tools = [\<lparr>at_name = ''clock'', at_execute = \<lambda>args w. (w\<lparr>cw_app := Suc (cw_app w)\<rparr>, Inr (JStr ''12:00''))\<rparr>],
     gt_return_node = []\<rparr>"

definition sample_world :: "nat conv_world" where
  "sample_world = \<lparr>cw_history = open_history [] ''d'' ''c'', cw_files = [], cw_ids = 0, cw_app = 0\<rparr>"

definition sample_prompt :: "dict list" where
  "sample_prompt = [[(''role'', JStr ''system''), (''content'', JStr ''s'')], [(''role'', JStr ''user''), (''content'', JStr ''time?'')]]"

definition sample_turn :: "(nat conv_world \<times> dict list) option" where
  "sample_turn = agent_loop 2 DiskOk sample_agent (sample_world, sample_prompt)"

lemma sample_keeps_protocol: "keeps_protocol sample_agent"
  by (auto simp: keeps_protocol_def sample_agent_def sample_model_def sample_call_def tool_named_def dict_get_def)

lemma sample_turn_runs: "map_option (\<lambda>(w, ms). (cw_app w, map message_role ms)) sample_turn
    = Some (1, map JStr [''system'', ''user'', ''assistant'', ''tool'', ''assistant''])"
  by code_simp


text \<open>
  Without the protocol the transcript breaks: a call of a tool the agent does not have is only printed. Beside
  a known call the run goes on with the call unanswered; alone it ends the turn with the call open, and the next
  turn sends the transcript so.
\<close>

definition stray_agent :: "requested_call list \<Rightarrow> nat tool_agent" where
  "stray_agent calls = sample_agent\<lparr>gt_model := (\<lambda>ms. Inr \<lparr>mr_role = JStr ''assistant'', mr_content = JNull,
     mr_calls = (if length ms < 3 then calls else []), mr_function_call = []\<rparr>)\<rparr>"

definition stray_call :: requested_call where
  "stray_call = \<lparr>rq_id = ''c2'', rq_name = ''compass'', rq_arguments = Inr [], rq_dict = [(''id'', JStr ''c2'')]\<rparr>"

lemma unknown_call_is_never_answered:
  "map_option (\<lambda>s. open_calls [] (snd s)) (agent_loop 2 DiskOk (stray_agent [stray_call]) (sample_world, sample_prompt)) = Some (Some [JStr ''c2''])"
  "map_option (\<lambda>s. open_calls [] (snd s)) (agent_loop 2 DiskOk (stray_agent [sample_call, stray_call]) (sample_world, sample_prompt)) = Some None"
  by code_simp+

subsection \<open>Termination\<close>

lemma agent_loop_mono: "agent_loop n dk ag s = Some s' \<Longrightarrow> agent_loop (n + j) dk ag s = Some s'"
proof (induction n arbitrary: s)
  case (Suc n)
  obtain s1 nx where "persistable_call dk ag s = (s1, nx)" by fastforce
  then show ?case using Suc by (cases nx) auto
qed simp

text \<open>A model that asks for no tool once the transcript has \<open>k\<close> messages.\<close>

definition stops_asking :: "nat \<Rightarrow> 'x tool_agent \<Rightarrow> bool" where
  "stops_asking k ag \<longleftrightarrow> (\<forall>ms r. k \<le> length ms \<longrightarrow> gt_model ag ms = Inr r \<longrightarrow> mr_calls r = [])"

lemma agent_loop_ends:
  assumes stops: "stops_asking k ag"
  shows "k - length ms < n \<Longrightarrow> \<exists>s'. agent_loop n dk ag (w, ms) = Some s'"
proof (induction n arbitrary: w ms)
  case 0
  then show ?case by simp
next
  case (Suc n)
  obtain s1 nx where call: "persistable_call dk ag (w, ms) = (s1, nx)" by fastforce
  show ?case
  proof (cases nx)
    case (RunTools steps)
    then obtain r where r: "gt_model ag ms = Inr r" "mr_calls r \<noteq> []" "snd s1 = ms @ [reply_message r]"
      using call by (auto simp: persistable_call_def agent_call_def Let_def split: sum.splits if_splits)
    obtain new where "snd (run_tools steps (fst s1, snd s1)) = snd s1 @ new" using run_tools_messages by blast
    then obtain w2 where s2: "run_tools steps s1 = (w2, ms @ [reply_message r] @ new)"
      using r(3) by (metis append_assoc prod.collapse)
    have "length ms < k" using stops r(1,2) by (meson stops_asking_def not_le)
    then have "k - length (ms @ [reply_message r] @ new) < n" using Suc.prems by simp
    from Suc.IH [OF this, of w2] show ?thesis using call RunTools s2 by simp
  qed (use call in auto)
qed

text \<open>
  C38. The loop ends. Every round adds to the transcript, so if the model asks for no tool once the transcript has
  \<open>k\<close> messages, the run returns within \<open>k\<close> model calls and one, whatever the tools do, and more
  fuel changes nothing.
\<close>

theorem agent_loop_returns:
  assumes stops: "stops_asking k ag" and fuel: "k - length ms < n"
  shows "\<exists>s'. \<forall>j. agent_loop (n + j) dk ag (w, ms) = Some s'"
proof -
  obtain s' where s': "agent_loop n dk ag (w, ms) = Some s'" using agent_loop_ends [OF stops fuel] by blast
  then show ?thesis using agent_loop_mono [OF s'] by blast
qed

theorem agent_loop_returns_witness:
  "\<exists>s'. \<forall>j. agent_loop (2 + j) DiskOk sample_agent (sample_world, sample_prompt) = Some s'"
  by (rule agent_loop_returns [where k = 3]) (auto simp: stops_asking_def sample_agent_def sample_model_def sample_prompt_def)

end
