(* ===== verification/Histories_Laws.thy ===== *)
theory Histories_Laws
  imports Histories
begin

text \<open>
  The laws of the conversation files: storage keys read back to the identifiers they encode, the dialogue tail is a
  standalone transcript, and an event history loses no event and keeps its bound.
\<close>

subsection \<open>Storage keys\<close>

definition hex_digit_val :: "char \<Rightarrow> nat" where
  "hex_digit_val c = (let n = of_char c in if n < 58 then n - 48 else n - 55)"

text \<open>Percent decoding of UTF-8 text: the reader of a storage key.\<close>

fun unquote :: "string \<Rightarrow> string" where
  "unquote [] = []"
| "unquote (c # cs) =
     (if c \<noteq> CHR ''%'' then c # unquote cs
      else (case cs of
              a # b # rest \<Rightarrow>
                let n = 16 * hex_digit_val a + hex_digit_val b in
                if n < 128 then char_of n # unquote rest
                else (case rest of
                        p # x # y # rest2 \<Rightarrow> char_of (64 * (n - 192) + (16 * hex_digit_val x + hex_digit_val y - 128)) # unquote rest2
                      | _ \<Rightarrow> [])
            | _ \<Rightarrow> []))"

lemma hex_digit_val [simp]: "d < 16 \<Longrightarrow> hex_digit_val (hex_digit d) = d"
  by (simp add: hex_digit_val_def hex_digit_def Let_def)

lemma percent_val: "n < 256 \<Longrightarrow> 16 * hex_digit_val (hex_digit (n div 16)) + hex_digit_val (hex_digit (n mod 16)) = n"
  by (simp add: less_mult_imp_div_less)

lemma plain_not_percent: "plain_char c \<Longrightarrow> c \<noteq> CHR ''%''"
  by (auto simp: plain_char_def)

lemma unquote_quote_char: "unquote (quote_char c @ t) = c # unquote t"
proof -
  let ?n = "of_char c :: nat"
  have n: "?n < 256" by simp
  consider (plain) "plain_char c" | (ascii) "\<not> plain_char c" "?n < 128" | (wide) "\<not> plain_char c" "128 \<le> ?n"
    by linarith
  then show ?thesis
  proof cases
    case plain
    then show ?thesis by (simp add: quote_char_def plain_not_percent)
  next
    case ascii
    then show ?thesis
      by (simp add: quote_char_def utf8_def percent_def Let_def percent_val)
  next
    case wide
    have d: "?n div 64 < 4" using n by (simp add: less_mult_imp_div_less)
    have a: "16 * hex_digit_val (hex_digit ((192 + ?n div 64) div 16)) + hex_digit_val (hex_digit ((192 + ?n div 64) mod 16)) = 192 + ?n div 64"
      using d by (intro percent_val) simp
    have b: "16 * hex_digit_val (hex_digit ((128 + ?n mod 64) div 16)) + hex_digit_val (hex_digit ((128 + ?n mod 64) mod 16)) = 128 + ?n mod 64"
      by (intro percent_val) (simp add: less_le_trans [OF mod_less_divisor])
    have "char_of (64 * (?n div 64) + ?n mod 64) = c" by (metis char_of_char mult_div_mod_eq)
    with wide a b show ?thesis
      by (simp add: quote_char_def utf8_def percent_def Let_def)
  qed
qed

lemma unquote_key: "unquote (conversation_storage_key s) = s"
  by (induction s) (simp_all add: conversation_storage_key_def unquote_quote_char)

lemma key_inj: "conversation_storage_key s = conversation_storage_key t \<longleftrightarrow> s = t"
  by (metis unquote_key)

lemma hex_digit_no_slash: "d < 16 \<Longrightarrow> hex_digit d \<noteq> CHR ''/''"
  by (auto simp: hex_digit_def dest: arg_cong [where f = "of_char :: char \<Rightarrow> nat"])

lemma percent_no_slash: "n < 256 \<Longrightarrow> CHR ''/'' \<notin> set (percent n)"
  using hex_digit_no_slash [of "n div 16"] hex_digit_no_slash [of "n mod 16"]
  by (auto simp: percent_def less_mult_imp_div_less)

lemma utf8_bytes: "b \<in> set (utf8 c) \<Longrightarrow> b < 256"
proof -
  assume b: "b \<in> set (utf8 c)"
  have "(of_char c :: nat) div 64 < 4" by (simp add: less_mult_imp_div_less)
  then have "192 + (of_char c :: nat) div 64 < 256" by simp
  moreover have "128 + (of_char c :: nat) mod 64 < 256" by (simp add: less_le_trans [OF mod_less_divisor])
  ultimately show ?thesis using b by (auto simp: utf8_def Let_def split: if_splits)
qed

lemma quote_char_no_slash: "CHR ''/'' \<notin> set (quote_char c)"
  using percent_no_slash utf8_bytes by (auto simp: quote_char_def plain_char_def)

lemma key_no_slash: "CHR ''/'' \<notin> set (conversation_storage_key s)"
  using quote_char_no_slash by (auto simp: conversation_storage_key_def)

subsection \<open>Dialogue\<close>

lemma dialogue_message_Some:
  "dialogue_message m = Some d \<Longrightarrow>
     map fst d = [''role'', ''content''] \<and> dict_get d ''role'' JNull \<in> {JStr ''user'', JStr ''assistant''}
     \<and> truthy (dict_get d ''content'' JNull) \<and> dialogue_message d = Some d"
  by (auto simp: dialogue_message_def dict_get_def split: if_splits)

lemma in_dialogue_only: "d \<in> set (dialogue_only ms) \<Longrightarrow> dialogue_message d = Some d"
  by (auto simp: dialogue_only_def map_filter_def dest: dialogue_message_Some)

lemma dialogue_only_fixed: "(\<And>d. d \<in> set xs \<Longrightarrow> dialogue_message d = Some d) \<Longrightarrow> dialogue_only xs = xs"
  by (induction xs) (auto simp: dialogue_only_def map_filter_def)

lemma dialogue_only_idem: "dialogue_only (dialogue_only ms) = dialogue_only ms"
  by (rule dialogue_only_fixed) (rule in_dialogue_only)

lemma dialogue_only_append: "dialogue_only (xs @ ys) = dialogue_only xs @ dialogue_only ys"
  by (simp add: dialogue_only_def map_filter_def)

lemma length_last_n [simp]: "length (last_n n xs) = min n (length xs)"
  by (simp add: last_n_def)

lemma set_last_n: "set (last_n n xs) \<subseteq> set xs"
  by (simp add: last_n_def set_drop_subset)

lemma last_n_append: "take (length xs - n) xs @ last_n n xs = xs"
  by (simp add: last_n_def)

lemma dialogue_tail_length: "int (length (dialogue_tail ms k)) \<le> max 0 k"
  by (auto simp: dialogue_tail_def min_def)

lemma in_dialogue_tail: "d \<in> set (dialogue_tail ms k) \<Longrightarrow> dialogue_message d = Some d"
  using set_last_n [of "nat k" "dialogue_only ms"] in_dialogue_only
  by (auto simp: dialogue_tail_def split: if_splits)

text \<open>A tail of a tail is the shorter tail: nothing more is dropped by keeping it.\<close>

lemma dialogue_tail_tail:
  assumes "k \<le> m"
  shows "dialogue_tail (dialogue_tail ms m) k = dialogue_tail ms k"
proof -
  have id: "dialogue_only (dialogue_tail ms m) = dialogue_tail ms m"
    by (rule dialogue_only_fixed) (rule in_dialogue_tail)
  show ?thesis
    using assms unfolding dialogue_tail_def [of "dialogue_tail ms m"] id
    by (auto simp: dialogue_tail_def last_n_def intro: arg_cong [where f = "\<lambda>n. drop n (dialogue_only ms)"])
qed

subsection \<open>The event history\<close>

lemma archive_not_document: "events_path dir cid \<noteq> archive_path dir cid"
  by (simp add: events_path_def archive_path_def)

definition event_ids :: "dict list \<Rightarrow> json list" where
  "event_ids es = map (\<lambda>e. dict_get e ''event_id'' JNull) es"

text \<open>An event the history takes: it has an identifier that no live event has.\<close>

definition takes_event :: "event_history \<Rightarrow> dict \<Rightarrow> bool" where
  "takes_event h e \<longleftrightarrow> truthy (dict_get e ''event_id'' JNull) \<and> dict_get e ''event_id'' JNull \<notin> set (event_ids (eh_events h))"

lemma takes_event_iff:
  "takes_event h e \<longleftrightarrow> truthy (dict_get e ''event_id'' JNull) \<and> \<not> list_ex (same_id (dict_get e ''event_id'' JNull)) (eh_events h)"
  by (auto simp: takes_event_def event_ids_def list_ex_iff same_id_def image_iff)

lemma append_event_refused: "\<not> takes_event h e \<Longrightarrow> fst (append_event dk e (h, fs)) = (h, fs)"
  by (auto simp: append_event_def takes_event_iff Let_def)

lemma append_event_events:
  assumes "append_event dk e (h, fs) = ((h', fs'), r)"
  shows "\<exists>k. eh_events h' = drop k (eh_events h @ (if takes_event h e then [e] else []))"
proof -
  let ?es = "eh_events h @ (if takes_event h e then [e] else [])"
  have "eh_events h' = ?es \<or> eh_events h' = last_n (nat (eh_max h)) ?es"
    using assms by (auto simp: append_event_def takes_event_iff Let_def split: if_splits)
  then show ?thesis
  proof
    assume "eh_events h' = ?es"
    then have "eh_events h' = drop 0 ?es" by simp
    then show ?thesis by (rule exI)
  next
    assume "eh_events h' = last_n (nat (eh_max h)) ?es"
    then show ?thesis unfolding last_n_def by (rule exI)
  qed
qed

lemma append_event_step:
  assumes "append_event dk e (h, fs) = ((h', fs'), r)" "eh_path h \<noteq> eh_archive h"
  shows "eh_path h' = eh_path h \<and> eh_archive h' = eh_archive h \<and> eh_max h' = eh_max h"
    and "archived_lines fs' (eh_archive h) @ eh_events h'
         = archived_lines fs (eh_archive h) @ eh_events h @ (if takes_event h e then [e] else [])"
  using assms last_n_append [of "eh_events h @ [e]" "nat (eh_max h)"]
  by (auto simp: append_event_def takes_event_iff Let_def archived_lines_def update_conv' last_n_def
      split: if_splits prod.splits)

lemma append_event_True:
  assumes "append_event dk e (h, fs) = ((h', fs'), Inr True)"
  shows "takes_event h e" "map_of fs' (eh_path h) = Some (Document (eh_events h'))" "length (eh_events h') \<le> nat (eh_max h)"
  using assms by (auto simp: append_event_def takes_event_iff Let_def update_conv' last_n_def split: if_splits)

text \<open>A run of appends, each with the writes the disk takes; and the events the history took.\<close>

fun append_events :: "(disk \<times> dict) list \<Rightarrow> event_history \<times> files \<Rightarrow> (event_history \<times> files) \<times> dict list" where
  "append_events [] s = (s, [])"
| "append_events ((dk, e) # calls) s =
     (case append_events calls (fst (append_event dk e s)) of
        (s', es) \<Rightarrow> (s', (if takes_event (fst s) e then [e] else []) @ es))"

lemma append_events_run:
  assumes "append_events calls (h, fs) = ((h', fs'), es)" "eh_path h \<noteq> eh_archive h" "distinct (event_ids (eh_events h))"
  shows "eh_path h' = eh_path h \<and> eh_archive h' = eh_archive h \<and> eh_max h' = eh_max h
    \<and> archived_lines fs' (eh_archive h) @ eh_events h' = archived_lines fs (eh_archive h) @ eh_events h @ es
    \<and> distinct (event_ids (eh_events h'))"
  using assms
proof (induction calls arbitrary: h fs es)
  case Nil
  then show ?case by simp
next
  case (Cons c calls)
  obtain dk e where c: "c = (dk, e)" by (cases c)
  obtain h1 fs1 r where s: "append_event dk e (h, fs) = ((h1, fs1), r)" by (cases "append_event dk e (h, fs)") auto
  obtain es1 where run: "append_events calls (h1, fs1) = ((h', fs'), es1)"
      and es: "es = (if takes_event h e then [e] else []) @ es1"
    using Cons.prems(1) c s by (auto split: prod.splits)
  note step = append_event_step [OF s Cons.prems(2)]
  obtain k where k: "eh_events h1 = drop k (eh_events h @ (if takes_event h e then [e] else []))"
    using append_event_events [OF s] by blast
  have "distinct (event_ids (eh_events h @ (if takes_event h e then [e] else [])))"
    using Cons.prems(3) by (auto simp: takes_event_def event_ids_def)
  then have "distinct (drop k (event_ids (eh_events h @ (if takes_event h e then [e] else []))))"
    by (rule distinct_drop)
  then have "distinct (event_ids (eh_events h1))"
    unfolding k event_ids_def drop_map .
  then show ?case
    using Cons.IH [OF run] Cons.prems(2) step(1,2) es by simp
qed

lemma open_events_Inr:
  "open_events fs dir cid n = Inr h \<Longrightarrow>
     1 \<le> n \<and> eh_path h = events_path dir cid \<and> eh_archive h = archive_path dir cid \<and> eh_max h = n"
  by (auto simp: open_events_def Let_def split: if_splits option.splits file_content.splits)


definition sample_event :: "string \<Rightarrow> dict" where
  "sample_event i = [(''event_id'', JStr i)]"

definition sample_history :: event_history where
  "sample_history = \<lparr>eh_path = events_path ''d'' ''c'', eh_archive = archive_path ''d'' ''c'', eh_max = 1, eh_events = []\<rparr>"

lemma sample_opens: "open_events [] ''d'' ''c'' 1 = Inr sample_history"
  by (simp add: open_events_def sample_history_def)

text \<open>Two appends whose second loses its document write, then a third that succeeds.\<close>

definition sample_run :: "(event_history \<times> files) \<times> dict list" where
  "sample_run = append_events [(DiskOk, sample_event ''a''), (SaveFails, sample_event ''b'')] (sample_history, [])"

definition sample_last :: "(event_history \<times> files) \<times> bool res" where
  "sample_last = append_event DiskOk (sample_event ''c'') (fst sample_run)"

lemma sample_last_True: "snd sample_last = Inr True"
  by code_simp


text \<open>
  What the identifier check does not cover: an event that left the live list is taken again, and an event whose
  write failed is refused as known although no file holds it.
\<close>

lemma archived_event_is_taken_again:
  "snd (append_events [(DiskOk, sample_event ''a''), (DiskOk, sample_event ''b''), (DiskOk, sample_event ''a'')] (sample_history, []))
   = [sample_event ''a'', sample_event ''b'', sample_event ''a'']"
  by code_simp

lemma failed_append_is_refused_on_retry:
  "case append_event SaveFails (sample_event ''a'') (sample_history, []) of (s, r) \<Rightarrow>
     r = Inl io_error \<and> append_event DiskOk (sample_event ''a'') s = (s, Inr False) \<and> snd s = []"
  by code_simp

subsection \<open>The chat history\<close>

text \<open>
  A storage key decodes to the conversation identifier it was built from and holds no path separator, so
  distinct conversations have distinct chat files directly inside the history directory; and a chat history opened on a
  file that was saved holds the messages that were set.
\<close>

theorem chat_files_roundtrip:
  "unquote (conversation_storage_key cid) = cid \<and> CHR ''/'' \<notin> set (conversation_storage_key cid)
    \<and> (chat_path dir cid = chat_path dir cid' \<longleftrightarrow> cid = cid')
    \<and> open_history (snd (set_messages DiskOk ms (open_history fs dir cid, fs))) dir cid = (open_history fs dir cid)\<lparr>ch_messages := ms\<rparr>"
  by (auto simp: unquote_key key_no_slash chat_path_def key_inj open_history_def set_messages_def save_history_def Let_def)

text \<open>The event document of one conversation is the chat file of another: the two kinds of file share their names.\<close>

lemma event_file_can_be_a_chat_file: "events_path dir ''a'' = chat_path dir ''a.events''"
  by (simp add: events_path_def chat_path_def conversation_storage_key_def quote_char_def plain_char_def)

text \<open>A save that breaks off costs the whole history at the next start.\<close>

lemma torn_history_opens_empty:
  "ch_messages (open_history (snd (set_messages SaveTorn ms (open_history fs dir cid, fs))) dir cid) = []"
  by (simp add: open_history_def set_messages_def save_history_def Let_def)

subsection \<open>Facts\<close>

lemma read_lines_append:
  "t = [] \<or> last t = CHR 0x0A \<Longrightarrow> read_lines (t @ u) = read_lines t @ read_lines u"
proof (induction t)
  case Nil
  then show ?case by simp
next
  case (Cons c t)
  show ?case
  proof (cases "t = []")
    case True
    with Cons.prems show ?thesis by simp
  next
    case False
    with Cons.prems have "read_lines (t @ u) = read_lines t @ read_lines u" by (simp add: Cons.IH)
    moreover have "read_lines t \<noteq> []" using False by (cases t) (auto split: list.splits)
    ultimately show ?thesis by (auto split: list.splits)
  qed
qed

lemma read_lines_line: "CHR 0x0A \<notin> set l \<Longrightarrow> read_lines (l @ [CHR 0x0A]) = [l @ [CHR 0x0A]]"
  by (induction l) auto

lemma newlines_id: "CHR 0x0D \<notin> set t \<Longrightarrow> newlines t = t"
  by (induction t rule: newlines.induct) auto

text \<open>A fact without line ends adds one line, behind the facts there are.\<close>

lemma add_note_adds_a_fact:
  assumes "t = [] \<or> last t = CHR 0x0A" and "CHR 0x0D \<notin> set t"
    and "set (stamp @ note) \<inter> {CHR 0x0A, CHR 0x0D} = {}"
  shows "get_facts (add_note stamp note t) = get_facts t @ [strip (''['' @ stamp @ ''] '' @ note @ [CHR 0x0A])]"
proof -
  let ?l = "''['' @ stamp @ ''] '' @ note"
  have "read_lines (?l @ [CHR 0x0A]) = [?l @ [CHR 0x0A]]"
    using assms(3) by (intro read_lines_line) auto
  moreover have "newlines (add_note stamp note t) = t @ ?l @ [CHR 0x0A]"
    using assms(2,3) by (subst newlines_id) (auto simp: add_note_def)
  ultimately show ?thesis
    using assms(1,2) by (simp add: get_facts_def newlines_id read_lines_append del: append_assoc read_lines.simps) simp
qed

subsection \<open>Topics\<close>

lemma failing_judge_continues: "(\<And>q. \<exists>e. judge q = Inl e) \<Longrightarrow> \<not> is_new_topic judge ms"
  by (auto simp: is_new_topic_def Let_def split: sum.splits dest: meta_spec) (metis Inl_Inr_False)

lemma recent_summaries_bound: "0 \<le> k \<Longrightarrow> int (length (recent_summaries k found)) \<le> k"
  by (auto simp: recent_summaries_def Let_def min_def)

end
