(* ===== verification/Conversation_Laws.thy ===== *)
theory Conversation_Laws
  imports Conversations Agent_Laws Histories_Laws
begin

text \<open>
  The laws of conversations: what a registry accepts, that a segment leaves the record only after it was archived,
  and what the record holds after a turn.
\<close>

lemmas act_defs = abind_def aseq_def ret_def reads_def modifies_def lifts_def

lemma abind_returns: "abind m f s = (s', Inr y) \<longleftrightarrow> (\<exists>s1 x. m s = (s1, Inr x) \<and> f x s1 = (s', Inr y))"
  by (auto simp: abind_def split: prod.splits sum.splits)

lemma aseq_returns: "aseq m n s = (s', Inr y) \<longleftrightarrow> (\<exists>s1 x. m s = (s1, Inr x) \<and> n s1 = (s', Inr y))"
  by (simp add: aseq_def abind_returns)

subsection \<open>The registry\<close>

lemma check_ids_iff:
  "check_ids seen cs = Inr u \<longleftrightarrow> [] \<notin> cap_id ` set cs \<and> distinct (map cap_id cs) \<and> set seen \<inter> cap_id ` set cs = {}"
proof (induction cs arbitrary: seen)
  case (Cons c cs)
  show ?case using Cons.IH [of "cap_id c # seen"] by auto
qed simp

text \<open>A list of capabilities is composed exactly when its identifiers are names of their own and at most one owns the history.\<close>

lemma new_registry_iff:
  "(\<exists>r. new_registry cs = Inr r) \<longleftrightarrow>
     [] \<notin> cap_id ` set cs \<and> distinct (map cap_id cs) \<and> length (filter owns_history cs) \<le> 1"
  by (auto simp: new_registry_def Let_def check_ids_iff result_simps)

lemma registry_lifecycle:
  assumes "new_registry cs = Inr r" "rg_lifecycle r = Some c"
  shows "c \<in> set cs \<and> owns_history c \<and> (\<forall>d \<in> set cs. owns_history d \<longrightarrow> d = c)"
proof -
  have one: "length (filter owns_history cs) \<le> 1" and l: "rg_lifecycle r = (case filter owns_history cs of [] \<Rightarrow> None | c # _ \<Rightarrow> Some c)"
    using assms(1) by (auto simp: new_registry_def Let_def result_simps split: if_splits)
  then obtain rest where "filter owns_history cs = c # rest" using assms(2) by (auto split: list.splits)
  with one have "filter owns_history cs = [c]" by simp
  then have "set (filter owns_history cs) = {c}" by simp
  then show ?thesis by auto
qed

lemma registry_get_found:
  assumes "new_registry cs = Inr r" "c \<in> set cs"
  shows "registry_get r (cap_id c) = Inr c"
proof -
  have cs: "rg_capabilities r = cs" and d: "distinct (map cap_id cs)"
    using assms(1) by (auto simp: new_registry_def Let_def check_ids_iff result_simps split: if_splits)
  have "List.find (\<lambda>d. cap_id d = cap_id c) cs = Some c"
    using d assms(2) by (induction cs) (auto simp: image_iff)
  then show ?thesis by (simp add: registry_get_def cs)
qed

subsection \<open>Archive before dropping\<close>

lemma store_messages_simps [simp]:
  "cw_ids (store_messages dk ms w) = cw_ids w" "cw_app (store_messages dk ms w) = cw_app w"
  "ch_path (cw_history (store_messages dk ms w)) = ch_path (cw_history w)"
  by (simp_all add: store_messages_def set_messages_def Let_def)

lemma store_messages_files:
  "f \<noteq> ch_path (cw_history w) \<Longrightarrow> map_of (cw_files (store_messages dk ms w)) f = map_of (cw_files w) f"
  by (auto simp: store_messages_def set_messages_def save_history_def Let_def update_conv' split: disk.splits)

definition transcript_file :: "topic_memory \<Rightarrow> nat \<Rightarrow> string" where
  "transcript_file tm k = tm_dir tm @ ''/topic_'' @ tm_uuid tm k @ ''.json''"

lemma archive_if_outcome:
  assumes "archive_if cv ms w = (w1, r)" "cv_topics cv = Some tm"
  shows "cw_history w1 = cw_history w"
    and "r = Inr () \<Longrightarrow> ms \<noteq> [] \<Longrightarrow> map_of (cw_files w1) (transcript_file tm (cw_ids w)) = Some (Document ms)"
  using assms
  by (auto simp: archive_if_def archive_segment_def archive_record_def transcript_file_def Let_def ret_def update_conv' io_error_def
      split: if_splits disk.splits)

text \<open>
  A segment is dropped only after it was archived. When a turn begins, either the record stays as it is, also when
  archiving fails; or the whole segment stands in the transcript file of a fresh topic and the record holds
  nothing, or the end of its dialogue, at most \<open>topic_carry_messages\<close> messages, each of the user or the assistant.
\<close>

theorem segment_is_archived_first:
  assumes topics: "cv_topics cv = Some tm" and apart: "transcript_file tm (cw_ids w) \<noteq> ch_path (cw_history w)"
    and begun: "begin_turn cv incoming w = (w', r)"
  shows "history_of w' = history_of w
    \<or> ((segment w = [] \<or> map_of (cw_files w') (transcript_file tm (cw_ids w)) = Some (Document (segment w)))
       \<and> history_of w' = (if is_reset cv incoming then [] else dialogue_tail (segment w) (cp_carry (cv_policy cv)))
       \<and> int (length (history_of w')) \<le> max 0 (cp_carry (cv_policy cv))
       \<and> (\<forall>m \<in> set (history_of w'). dialogue_message m = Some m))"
proof -
  obtain w1 q where a: "archive_if cv (segment w) w = (w1, q)" by fastforce
  note h = archive_if_outcome(1) [OF a topics] and f = archive_if_outcome(2) [OF a topics]
  show ?thesis
  proof (cases q)
    case (Inl e)
    then have "history_of w' = history_of w"
      using begun a h by (auto simp: begin_turn_def reset_def act_defs split: if_splits)
    then show ?thesis ..
  next
    case (Inr u)
    let ?t = "dialogue_tail (segment w) (cp_carry (cv_policy cv))"
    have doc: "segment w = [] \<or> map_of (cw_files (store_messages (cv_disk cv) ms w1)) (transcript_file tm (cw_ids w)) = Some (Document (segment w))" for ms
      using f Inr apart h by (cases "segment w = []") (simp_all add: store_messages_files)
    consider (reset) "is_reset cv incoming" | (shift) "\<not> is_reset cv incoming" "shifted cv incoming (segment w)"
      | (same) "\<not> is_reset cv incoming" "\<not> shifted cv incoming (segment w)" by blast
    then show ?thesis
    proof cases
      case reset
      then have "w' = store_messages (cv_disk cv) [] w1"
        using begun a Inr by (auto simp: begin_turn_def reset_def put_messages_def act_defs)
      then show ?thesis using doc reset by simp
    next
      case shift
      then have "w' = store_messages (cv_disk cv) ?t w1"
        using begun a Inr by (auto simp: begin_turn_def put_messages_def act_defs)
      then show ?thesis using doc shift dialogue_tail_length in_dialogue_tail by auto
    next
      case same
      then show ?thesis using begun by (auto simp: begin_turn_def act_defs)
    qed
  qed
qed

definition cv_sample :: live_conversation where
  "cv_sample = \<lparr>cv_topics = Some \<lparr>tm_dir = ''t'', tm_judge = \<lambda>q. Inr '' yes'', tm_summarizer = \<lambda>ms. Inr ''sum'', tm_uuid = nat_text, tm_disk = DiskOk\<rparr>,
     cv_policy = default_policy\<lparr>cp_carry := 1\<rparr>, cv_disk = DiskOk\<rparr>"

definition told_world :: "nat conv_world" where
  "told_world = store_messages DiskOk [incoming_message ''old'', [(''role'', JStr ''assistant''), (''content'', JStr ''older'')]] sample_world"

theorem segment_is_archived_first_witness:
  "transcript_file (the (cv_topics cv_sample)) 0 = ''t/topic_0.json''
   \<and> history_of (fst (begin_turn cv_sample ''new'' told_world)) = [[(''role'', JStr ''assistant''), (''content'', JStr ''older'')]]
   \<and> map_of (cw_files (fst (begin_turn cv_sample ''new'' told_world))) ''t/topic_0.json'' = Some (Document (segment told_world))"
proof -
  let ?b = "begin_turn cv_sample ''new'' told_world"
  let ?tm = "the (cv_topics cv_sample)"
  have topics: "cv_topics cv_sample = Some ?tm" by (simp add: cv_sample_def)
  have path: "transcript_file ?tm 0 = ''t/topic_0.json''" by code_simp
  have ids: "cw_ids told_world = 0" by code_simp
  have apart: "transcript_file ?tm (cw_ids told_world) \<noteq> ch_path (cw_history told_world)" by code_simp
  have h: "history_of (fst ?b) = [[(''role'', JStr ''assistant''), (''content'', JStr ''older'')]]" by code_simp
  have n: "history_of told_world \<noteq> history_of (fst ?b)" by code_simp
  have s: "segment told_world \<noteq> []" by code_simp
  from segment_is_archived_first [OF topics apart, of "''new''" "fst ?b" "snd ?b"] n s
  have "map_of (cw_files (fst ?b)) (transcript_file ?tm 0) = Some (Document (segment told_world))"
    unfolding ids by simp
  with h path show ?thesis by simp
qed

subsection \<open>The record after a turn\<close>

text \<open>Hooks that observe a turn and leave the record alone, as the contract of a capability asks.\<close>

definition leaves_record :: "'x continuous_agent \<Rightarrow> bool" where
  "leaves_record ca \<longleftrightarrow> (case ca_registry ca of None \<Rightarrow> True | Some r \<Rightarrow>
     \<forall>c \<in> set (rg_capabilities r). \<forall>turn reply h. keeps (\<lambda>w. cw_history w = h) (cap_after c turn reply))"

lemma close_turn_record:
  assumes "leaves_record ca" "close_turn ca turn w = (w', r)"
  shows "cw_history w' = cw_history w" and "\<And>v. r = Inr v \<Longrightarrow> v = last_reply (history_of w)"
proof -
  have "keeps (\<lambda>u. cw_history u = cw_history w) (close_turn ca turn)"
    unfolding close_turn_def registry_after_def
    using assms(1) by (intro keeps_rules) (auto simp: leaves_record_def)
  from keepsD [OF this] show "cw_history w' = cw_history w" using assms(2) by (metis fst_conv)
  show "v = last_reply (history_of w)" if "r = Inr v" for v
    using assms(2) that by (auto simp: close_turn_def act_defs split: option.splits prod.splits sum.splits)
qed

lemma messages_for_outcome:
  "messages_for cv incoming prompt view w = (w', Inr ms) \<Longrightarrow>
     \<exists>seen. ms = system_message prompt # seen @ [incoming_message incoming]
       \<and> (case view of Some v \<Rightarrow> seen = v | None \<Rightarrow> seen = segment w \<and> history_of w' = ms)"
  by (auto simp: messages_for_def put_messages_def act_defs Let_def split: option.splits)

lemma send_turn_outcome:
  assumes "send_turn ca incoming turn p w = (w1, Inr ms)"
  shows "\<exists>prompt seen. ms = system_message prompt # seen @ [incoming_message incoming]
       \<and> (case tp_view p of Some v \<Rightarrow> seen = v | None \<Rightarrow> history_of w1 = ms)"
proof -
  from assms obtain w2 prompt where "messages_for (ca_conversation ca) incoming prompt (tp_view p) w2 = (w1, Inr ms)"
    by (simp only: send_turn_def Let_def abind_returns aseq_returns) blast
  from messages_for_outcome [OF this] show ?thesis by (fastforce split: option.splits)
qed

lemma open_turn_messages:
  assumes "open_turn ca incoming turn w = (w1, Inr (ToModel ms))"
  shows "\<exists>p. snd (plan_turn ca turn w) = Inr p \<and> (\<exists>prompt seen. ms = system_message prompt # seen @ [incoming_message incoming]
       \<and> (case tp_view p of Some v \<Rightarrow> seen = v | None \<Rightarrow> history_of w1 = ms))"
proof -
  from assms obtain w0 p where p: "plan_turn ca turn w = (w0, Inr p)"
      and "(if tp_handled p then ret (Answered (tp_reply p))
        else if unowned ca \<and> cp_reset (cv_policy (ca_conversation ca)) = Some (strip incoming)
        then aseq (reset (ca_conversation ca)) (ret (Answered ''[fresh topic]''))
        else abind (send_turn ca incoming turn p) (\<lambda>ms. ret (ToModel ms))) w0 = (w1, Inr (ToModel ms))"
    by (auto simp only: open_turn_def abind_returns)
  then have "send_turn ca incoming turn p w0 = (w1, Inr ms)"
    by (simp add: abind_returns aseq_returns ret_def split: if_splits)
  from send_turn_outcome [OF this] p show ?thesis by (metis snd_conv)
qed

lemma segment_of_append: "segment_of (xs @ ys) = segment_of xs @ segment_of ys"
  by (simp add: segment_of_def)

lemma segment_of_sent:
  "segment_of (system_message p # seen @ incoming_message t # new) = segment_of seen @ incoming_message t # segment_of new"
  by (simp add: segment_of_def system_message_def incoming_message_def dict_get_def)


text \<open>An owner that shows the model a digest for one call, over a record of two messages.\<close>

definition digest_owner :: "(nat conv_world, nat agent_tool) capability" where
  "digest_owner = (base_capability ''digest'')\<lparr>cap_before := Some (\<lambda>turn. ret (no_plan\<lparr>tp_view := Some [incoming_message ''digest'']\<rparr>))\<rparr>"

definition digest_agent :: "nat continuous_agent" where
  "digest_agent = \<lparr>ca_conversation = cv_sample, ca_prompt = \<lambda>turn. ret ''system'',
     ca_registry = Some \<lparr>rg_capabilities = [digest_owner], rg_lifecycle = Some digest_owner\<rparr>,
     ca_loop = agent_loop 1 DiskOk sample_agent\<rparr>"

definition digest_start :: "nat conv_world \<times> dict list" where
  "digest_start = (case open_turn digest_agent ''now'' (turn_for ''now'' told_world) told_world of (w1, Inr (ToModel ms)) \<Rightarrow> (w1, ms) | (w1, _) \<Rightarrow> (w1, []))"

definition digest_end :: "nat conv_world \<times> json" where
  "digest_end = (case handle digest_agent ''now'' told_world of Some (w', Inr v) \<Rightarrow> (w', v) | _ \<Rightarrow> (told_world, JNull))"

lemma digest_opens: "open_turn digest_agent ''now'' (turn_for ''now'' told_world) told_world = (fst digest_start, Inr (ToModel (snd digest_start)))"
proof -
  have "(case snd (open_turn digest_agent ''now'' (turn_for ''now'' told_world) told_world) of Inr (ToModel ms) \<Rightarrow> True | _ \<Rightarrow> False)"
    by code_simp
  then show ?thesis by (auto simp: digest_start_def split: prod.splits sum.splits turn_start.splits)
qed

lemma digest_handled: "handle digest_agent ''now'' told_world = Some (fst digest_end, Inr (snd digest_end))"
proof -
  have "(case handle digest_agent ''now'' told_world of Some (w', Inr v) \<Rightarrow> True | _ \<Rightarrow> False)" by code_simp
  then show ?thesis by (auto simp: digest_end_def split: option.splits prod.splits sum.splits)
qed

lemma digest_leaves_record: "leaves_record digest_agent"
  by (simp add: leaves_record_def digest_agent_def digest_owner_def base_capability_def keeps_ret)

text \<open>The digest is what is left of the two messages: neither of them is in the record, or in any file, after the turn.\<close>

lemma view_costs_the_record:
  "map (\<lambda>m. dict_get m ''content'' JNull) (segment (fst digest_end)) = map JStr [''digest'', ''now'', ''noon'']"
  "map (\<lambda>m. dict_get m ''content'' JNull) (segment told_world) = map JStr [''old'', ''older'']"
  "map fst (cw_files (fst digest_end)) = [ch_path (cw_history told_world)]"
  by code_simp+


text \<open>
  An empty reset command, which switches the command off in \<open>begin_turn\<close>, makes \<open>handle\<close> reset the conversation on a
  blank message.
\<close>

lemma blank_message_resets:
  assumes "unowned ca" "ca_registry ca = None" "cp_reset (cv_policy (ca_conversation ca)) = Some []" "strip incoming = []"
    and "cv_topics (ca_conversation ca) = None"
  shows "\<not> is_reset (ca_conversation ca) incoming
    \<and> (\<exists>w'. handle ca incoming w = Some (w', Inr (JStr ''[fresh topic]'')) \<and> history_of w' = [])"
  using assms
  by (simp add: is_reset_def handle_def open_turn_def plan_turn_def reset_def archive_if_def put_messages_def no_plan_def act_defs Let_def)

end
