(* ===== verification/Deployment_Laws.thy ===== *)
theory Deployment_Laws
  imports Deployment Conversation_Laws
begin

text \<open>
  The laws of the workers: the texts a batch of mail becomes against their plain description, what the turns of an actor
  publish and when it rotates, and the namespaces of configured agents.
\<close>

subsection \<open>The texts of a batch\<close>

text \<open>The description: the user events between reset commands, each group rendered once, the commands bare.\<close>

definition render :: "('a, 'p) worker_env \<Rightarrow> mailbox_worker \<Rightarrow> string \<Rightarrow> dict list \<Rightarrow> string list" where
  "render we mw cid events =
     (if events = [] then [] else case format_group we mw cid events of None \<Rightarrow> [] | Some t \<Rightarrow> if t = [] then [] else [t])"

function described_texts :: "('a, 'p) worker_env \<Rightarrow> mailbox_worker \<Rightarrow> string \<Rightarrow> dict list \<Rightarrow> string list" where
  "described_texts we mw cid events =
     render we mw cid (takeWhile (\<lambda>e. \<not> reset_event we mw e) events)
     @ (case dropWhile (\<lambda>e. \<not> reset_event we mw e) events of
          [] \<Rightarrow> [] | e # rest \<Rightarrow> mw_reset mw # described_texts we mw cid rest)"
  by pat_completeness auto
termination
proof (relation "measure (\<lambda>(we, mw, cid, events). length events)")
  fix we :: "('a, 'p) worker_env" and mw cid events e rest
  assume "dropWhile (\<lambda>e. \<not> reset_event we mw e) events = e # rest"
  then have "length (e # rest) \<le> length events" by (metis length_dropWhile_le)
  then show "((we, mw, cid, rest), (we, mw, cid, events)) \<in> measure (\<lambda>(we, mw, cid, events). length events)" by simp
qed simp

declare described_texts.simps [simp del]

lemma flush_group_render: "flush_group we mw cid (texts, g) = (texts @ render we mw cid g, [])"
  by (auto simp: flush_group_def render_def split: option.splits)

lemma take_events:
  "fst (flush_group we mw cid (fold (take_event we mw cid) events (texts, g)))
   = texts @ (let us = filter user_event events in
       render we mw cid (g @ takeWhile (\<lambda>e. \<not> reset_event we mw e) us)
       @ (case dropWhile (\<lambda>e. \<not> reset_event we mw e) us of [] \<Rightarrow> [] | e # rest \<Rightarrow> mw_reset mw # described_texts we mw cid rest))"
proof (induction events arbitrary: texts g)
  case Nil
  then show ?case by (simp add: flush_group_render)
next
  case (Cons e events)
  show ?case
  proof (cases "user_event e")
    case False
    then show ?thesis using Cons.IH [of texts g] by (simp add: take_event_def)
  next
    case user: True
    show ?thesis
    proof (cases "reset_event we mw e")
      case True
      then show ?thesis
        using Cons.IH [of "(texts @ render we mw cid g) @ [mw_reset mw]" "[]"] user
        by (simp add: take_event_def flush_group_render Let_def described_texts.simps [of we mw cid "filter user_event events"])
    next
      case False
      then show ?thesis using Cons.IH [of texts "g @ [e]"] user by (simp add: take_event_def Let_def)
    qed
  qed
qed

text \<open>
  C39. A drained batch becomes the texts its plain description gives: the user events, in order, split at the reset
  commands; each group one text, rendered by the formatter, and dropped when that gives none; every reset command
  alone and bare between them. Other kinds of mail give no text.
\<close>

theorem turn_texts_as_described:
  "turn_texts we mw cid events = described_texts we mw cid (filter user_event events)"
  using take_events [of we mw cid events "[]" "[]"]
  by (simp add: turn_texts_def Let_def described_texts.simps [of we mw cid "filter user_event events"])

subsection \<open>The turns of an actor\<close>

text \<open>One turn as the runtime runs the plan: the mail drained by the wait is in the state, then the two nodes.\<close>

definition actor_turn ::
    "('a, 'p) worker_env \<Rightarrow> mailbox_worker \<Rightarrow> dict list \<Rightarrow> dict \<Rightarrow> (('a, 'p) worker_state, node_value) act" where
  "actor_turn we mw mail st =
     abind (handle_turn we mw (AList.update ''events'' (JList (map JObj mail)) st)) (publish_replies we mw)"

text \<open>The turns of one session over successive batches: it goes on while a plan comes back.\<close>

fun actor_session ::
    "('a, 'p) worker_env \<Rightarrow> mailbox_worker \<Rightarrow> dict list list \<Rightarrow> dict \<Rightarrow> (('a, 'p) worker_state, dict \<times> dict list list) act" where
  "actor_session we mw [] st = ret (st, [])"
| "actor_session we mw (mail # batches) st =
     abind (actor_turn we mw mail st) (\<lambda>v. case v of
         StateAndPlan st' (Some p) \<Rightarrow> actor_session we mw batches st'
       | _ \<Rightarrow> ret (tr_state (normalize_result v), batches))"

text \<open>A publisher that records what it is given.\<close>

definition recording :: "(dict \<Rightarrow> (dict list, unit) act) option" where
  "recording = Some (\<lambda>d out. (out @ [d], Inr ()))"

lemma publish_each_recorded:
  assumes "we_publish we = recording"
  shows "publish_each we st rs s = (s\<lparr>ws_out := ws_out s @ map (\<lambda>r. AList.update ''reply'' r st) (filter truthy rs)\<rparr>, Inr ())"
  unfolding publish_each_def
proof (induction rs arbitrary: s)
  case (Cons r rs)
  then show ?case by (simp add: publish_def assms recording_def ret_def)
qed simp

lemma talk_all_length: "talk_all we cid ts s = (s', Inr rs) \<Longrightarrow> length rs = length ts"
  by (induction ts arbitrary: s s' rs) (auto simp: abind_returns ret_def)

lemma talk_out: "talk we cid t s = (s', r) \<Longrightarrow> ws_out s' = ws_out s"
  by (auto simp: talk_def agent_for_def abind_def split: option.splits sum.splits prod.splits)

lemma talk_all_out: "talk_all we cid ts s = (s', Inr rs) \<Longrightarrow> ws_out s' = ws_out s"
  by (induction ts arbitrary: s s' rs) (auto simp: abind_returns ret_def dest: talk_out)

lemma agent_for_out: "agent_for we cid s = (s', r) \<Longrightarrow> ws_out s' = ws_out s"
  by (auto simp: agent_for_def split: option.splits sum.splits)

lemma get_update: "dict_get (AList.update k v d) k' x = (if k = k' then v else dict_get d k' x)"
  by (simp add: dict_get_def update_conv')

lemma objects_JObj: "objects (map JObj ds) = ds"
  by (induction ds) (simp_all add: objects_def)

text \<open>A turn that returns: one reply per text, in order; the counter grows by one; the plan comes back until it is full.\<close>

lemma actor_turn_returns:
  assumes "actor_turn we mw mail st s = (s', Inr v)" and rec: "we_publish we = recording"
    and n: "dict_get st ''turns'' (JInt 0) = JInt k"
    and limit: "1 \<le> mw_limit mw"
  obtains rs st' where "length rs = length (turn_texts we mw (text_of_json we (dict_get st ''conversation_id'' (JStr ''main''))) mail)"
    "ws_out s' = ws_out s @ map (\<lambda>r. AList.update ''reply'' r st') (filter truthy rs)"
    "dict_get (tr_state (normalize_result v)) ''turns'' (JInt 0) = JInt (k + 1)"
    "(\<exists>st2. v = BareState st2) \<and> mw_rotate mw \<le> k + 1 \<or> (\<exists>st2 p. v = StateAndPlan st2 (Some p)) \<and> k + 1 < mw_rotate mw"
    "dict_get (tr_state (normalize_result v)) ''conversation_id'' (JStr ''main'') = dict_get st ''conversation_id'' (JStr ''main'')"
proof -
  let ?cid = "text_of_json we (dict_get st ''conversation_id'' (JStr ''main''))"
  let ?st0 = "AList.update ''events'' (JList (map JObj mail)) st"
  obtain s1 st1 where h: "handle_turn we mw ?st0 s = (s1, Inr st1)" and p: "publish_replies we mw st1 s1 = (s', Inr v)"
    using assms(1) by (auto simp: actor_turn_def abind_returns)
  obtain s0 a rs where a: "agent_for we ?cid s = (s0, Inr a)" and t: "talk_all we ?cid (turn_texts we mw ?cid mail) s0 = (s1, Inr rs)"
    and st1: "st1 = AList.update ''replies'' (JList rs) (AList.update ''events'' (JList []) (AList.update ''chat_id'' (chat_of we mail (dict_get st ''chat_id'' JNull)) ?st0))"
    using h by (auto simp: handle_turn_def Let_def abind_returns ret_def get_update list_or_empty_def objects_JObj)
  have out: "ws_out s1 = ws_out s" using talk_all_out [OF t] agent_for_out [OF a] by simp
  have turns: "dict_get st1 ''turns'' (JInt 0) = JInt k" using n st1 by (simp add: get_update)
  have r: "list_or_empty (dict_get st1 ''replies'' JNull) = rs" using st1 by (simp add: get_update list_or_empty_def)
  have wait: "\<exists>p. actor_plan mw = Inr p" using limit by (auto simp: actor_plan_def new_wait_def)
  have cid: "dict_get st1 ''conversation_id'' (JStr ''main'') = dict_get st ''conversation_id'' (JStr ''main'')"
    using st1 by (simp add: get_update)
  have p': "ws_out s' = ws_out s1 @ map (\<lambda>r. AList.update ''reply'' r st1) (filter truthy rs)
    \<and> (if mw_rotate mw \<le> k + 1 then v = BareState (AList.update ''turns'' (JInt (k + 1)) (AList.update ''replies'' (JList []) st1))
       else \<exists>q. v = StateAndPlan (AList.update ''turns'' (JInt (k + 1)) (AList.update ''replies'' (JList []) st1)) (Some q))"
    using p wait rec
    by (auto simp: publish_replies_def aseq_def abind_def lifts_def ret_def Let_def turns r to_int_def publish_each_recorded recording_def Option.is_none_def
        split: if_splits)
  show ?thesis
  proof (rule that)
    show "length rs = length (turn_texts we mw ?cid mail)" by (rule talk_all_length [OF t])
    show "ws_out s' = ws_out s @ map (\<lambda>r. AList.update ''reply'' r st1) (filter truthy rs)" using p' out by simp
  qed (use p' cid in \<open>auto simp: get_update plain_def split: if_splits\<close>)
qed

abbreviation replies_in :: "dict list \<Rightarrow> json list" where
  "replies_in ds \<equiv> map (\<lambda>d. dict_get d ''reply'' JNull) ds"

lemma replies_recorded: "replies_in (map (\<lambda>r. AList.update ''reply'' r st) rs) = rs"
  by (induction rs) (simp_all add: get_update)

lemma actor_session_returns:
  assumes "actor_session we mw batches st s = (s', Inr (st', left))" and rec: "we_publish we = recording"
    and n: "dict_get st ''turns'' (JInt 0) = JInt k" and limit: "1 \<le> mw_limit mw" and before: "k < mw_rotate mw"
  shows "left = drop (nat (mw_rotate mw - k)) batches
    \<and> dict_get st' ''turns'' (JInt 0) = JInt (min (mw_rotate mw) (k + int (length batches)))
    \<and> (\<exists>rss. list_all2 (\<lambda>rs mail. length rs = length (turn_texts we mw (text_of_json we (dict_get st ''conversation_id'' (JStr ''main''))) mail))
               rss (take (nat (mw_rotate mw - k)) batches)
         \<and> replies_in (ws_out s') = replies_in (ws_out s) @ filter truthy (concat rss))"
  using assms(1) n before
proof (induction batches arbitrary: st s k)
  case Nil
  then show ?case by (auto simp: ret_def intro: exI [where x = "[]"])
next
  case (Cons mail batches)
  let ?P = "\<lambda>rs mail. length rs = length (turn_texts we mw (text_of_json we (dict_get st ''conversation_id'' (JStr ''main''))) mail)"
  from Cons.prems(1) obtain s1 v where turn: "actor_turn we mw mail st s = (s1, Inr v)"
    and go: "(case v of StateAndPlan st' (Some p) \<Rightarrow> actor_session we mw batches st'
       | _ \<Rightarrow> ret (tr_state (normalize_result v), batches)) s1 = (s', Inr (st', left))"
    by (auto simp: abind_returns)
  obtain rs sp where t: "?P rs mail" "ws_out s1 = ws_out s @ map (\<lambda>r. AList.update ''reply'' r sp) (filter truthy rs)"
    "dict_get (tr_state (normalize_result v)) ''turns'' (JInt 0) = JInt (k + 1)"
    "(\<exists>st2. v = BareState st2) \<and> mw_rotate mw \<le> k + 1 \<or> (\<exists>st2 p. v = StateAndPlan st2 (Some p)) \<and> k + 1 < mw_rotate mw"
    "dict_get (tr_state (normalize_result v)) ''conversation_id'' (JStr ''main'') = dict_get st ''conversation_id'' (JStr ''main'')"
    by (rule actor_turn_returns [OF turn rec Cons.prems(2) limit])
  have out: "replies_in (ws_out s1) = replies_in (ws_out s) @ filter truthy rs"
    using t(2) by (simp add: replies_recorded del: map_map)
  from t(4) show ?case
  proof (elim disjE exE conjE)
    fix st2 assume v: "v = BareState st2" and full: "mw_rotate mw \<le> k + 1"
    then have one: "nat (mw_rotate mw - k) = 1" and r: "mw_rotate mw = k + 1" using Cons.prems(3) by auto
    show ?thesis
      using go v t(1,3) out unfolding one r by (auto simp: ret_def intro!: exI [where x = "[rs]"])
  next
    fix st2 p assume v: "v = StateAndPlan st2 (Some p)" and more: "k + 1 < mw_rotate mw"
    have st2: "dict_get st2 ''turns'' (JInt 0) = JInt (k + 1)"
        "dict_get st2 ''conversation_id'' (JStr ''main'') = dict_get st ''conversation_id'' (JStr ''main'')"
      using t(3,5) v by (simp_all add: plain_def)
    have "actor_session we mw batches st2 s1 = (s', Inr (st', left))" using go v by simp
    from Cons.IH [OF this st2(1) more] st2(2)
    have ih: "left = drop (nat (mw_rotate mw - (k + 1))) batches"
        "dict_get st' ''turns'' (JInt 0) = JInt (min (mw_rotate mw) (k + 1 + int (length batches)))"
      and "\<exists>rss. list_all2 ?P rss (take (nat (mw_rotate mw - (k + 1))) batches)
         \<and> replies_in (ws_out s') = replies_in (ws_out s1) @ filter truthy (concat rss)" by simp_all
    then obtain rss where rss: "list_all2 ?P rss (take (nat (mw_rotate mw - (k + 1))) batches)"
         "replies_in (ws_out s') = replies_in (ws_out s1) @ filter truthy (concat rss)" by blast
    have suc: "nat (mw_rotate mw - k) = Suc (nat (mw_rotate mw - (k + 1)))" using more by simp
    have "list_all2 ?P (rs # rss) (take (nat (mw_rotate mw - k)) (mail # batches))" using rss(1) t(1) by (simp add: suc)
    moreover have "replies_in (ws_out s') = replies_in (ws_out s) @ filter truthy (concat (rs # rss))" using rss(2) out by simp
    ultimately show ?thesis using ih by (auto simp: suc)
  qed
qed


text \<open>An agent that counts and echoes, under a worker that rotates after two turns.\<close>

definition echo_env :: "(nat, dict list) worker_env" where
  "echo_env = \<lparr>we_config = \<lparr>ce_platform = plain_platform, ce_show = \<lambda>v. [], ce_environ = []\<rparr>, we_new = \<lambda>cid. Inr 0,
     we_handle = \<lambda>text n. (Suc n, Inr (JStr (nat_text n @ '': '' @ text))), we_publish = recording\<rparr>"

definition echo_worker :: mailbox_worker where
  "echo_worker = \<lparr>mw_id = ''echo'', mw_reset = ''/new'', mw_limit = 10, mw_rotate = 2, mw_formatter = None\<rparr>"

definition mail_of :: "string list \<Rightarrow> dict list" where
  "mail_of ts = map (\<lambda>t. [(''kind'', JStr ''user''), (''content'', JStr t)]) ts"

definition echo_run :: "(nat, dict list) worker_state \<times> (dict \<times> dict list list) res" where
  "echo_run = actor_session echo_env echo_worker [mail_of [''a'', ''b'', ''/new'', ''c''], mail_of ['' ''], mail_of [''d'']] [] \<lparr>ws_agents = [], ws_out = []\<rparr>"

lemma echo_run_returns: "snd echo_run = Inr (fst (projr (snd echo_run)), snd (projr (snd echo_run)))"
proof -
  have "(case snd echo_run of Inr v \<Rightarrow> True | Inl e \<Rightarrow> False)" by code_simp
  then show ?thesis by (auto split: sum.splits)
qed


subsection \<open>Namespaces\<close>

lemma namespaces_apart:
  "distinct [graph_namespace r, queue_namespace r, mailbox_namespace r, monitors_namespace r]"
  by (simp add: graph_namespace_def queue_namespace_def mailbox_namespace_def monitors_namespace_def)

text \<open>A reference is resolved once: the value of a variable is not read again.\<close>

lemma resolve_reference:
  "env_reference s = Some x \<Longrightarrow> resolve_value env (JStr s) = JStr (case map_of env x of None \<Rightarrow> [] | Some t \<Rightarrow> t)"
  by (simp add: resolve_value_def)

lemma resolve_plain: "env_reference s = None \<Longrightarrow> resolve_value env (JStr s) = JStr s"
  by (simp add: resolve_value_def)

lemma load_tools_length: "load_tools importer build refs = Inr ts \<Longrightarrow> length ts = length refs"
  by (induction refs arbitrary: ts) (auto simp: result_simps)

text \<open>Agents that name no prefix and have distinct identifiers never share a namespace.\<close>

lemma default_namespaces_apart:
  assumes "read_agent ce p1 q1 raw1 = Inr m1" "read_agent ce p2 q2 raw2 = Inr m2" "am_id m1 \<noteq> am_id m2"
    and "map_of raw1 ''runtime'' = None" "map_of raw1 ''redis_prefix'' = None"
    and "map_of raw2 ''runtime'' = None" "map_of raw2 ''redis_prefix'' = None"
  shows "bc_prefix (am_runtime m1) \<noteq> bc_prefix (am_runtime m2)"
  using assms by (auto simp: read_agent_def manifest_backend_def result_simps Let_def dict_get_def py_str_def)

end
