(* ===== verification/Redis_Mailbox.thy ===== *)
theory Redis_Mailbox
  imports Mailbox_Laws
begin

text \<open>
  The Redis mailbox (\<open>entourage/redis_mailbox.py\<close>). The server is a parameter: a record of the commands the code
  sends, over a state of any type; \<open>redis_contract\<close> states what their documentation promises, through a view of the state
  as documents, sorted sets, hashes, sets and counters. A document or hash value is what its JSON text reads back
  as: an event, or a conversation with a time. The namespace lock makes a method one step; a lock that runs into its
  timeout is not modelled. The hash function of the keys and the iteration order of a Python set are parameters too.
\<close>

subsection \<open>The server\<close>

record 's redis_api =
  rk_get :: "string \<Rightarrow> 's \<Rightarrow> mail_event option"
  rk_set :: "string \<Rightarrow> mail_event \<Rightarrow> 's \<Rightarrow> 's"
  rk_delete :: "string \<Rightarrow> 's \<Rightarrow> 's"
  rk_zrange :: "string \<Rightarrow> 's \<Rightarrow> string list"
  rk_zadd :: "string \<Rightarrow> string \<Rightarrow> nat \<Rightarrow> 's \<Rightarrow> 's"
  rk_zrem :: "string \<Rightarrow> string \<Rightarrow> 's \<Rightarrow> 's"
  rk_hget :: "string \<Rightarrow> string \<Rightarrow> 's \<Rightarrow> (string \<times> rat) option"
  rk_hset :: "string \<Rightarrow> string \<Rightarrow> string \<times> rat \<Rightarrow> 's \<Rightarrow> 's"
  rk_hdel :: "string \<Rightarrow> string list \<Rightarrow> 's \<Rightarrow> 's"
  rk_hgetall :: "string \<Rightarrow> 's \<Rightarrow> (string \<times> string \<times> rat) list"
  rk_sadd :: "string \<Rightarrow> string \<Rightarrow> 's \<Rightarrow> 's"
  rk_srem :: "string \<Rightarrow> string \<Rightarrow> 's \<Rightarrow> 's"
  rk_smembers :: "string \<Rightarrow> 's \<Rightarrow> string list"
  rk_incr :: "string \<Rightarrow> 's \<Rightarrow> 's \<times> nat"
  rk_scan :: "string \<Rightarrow> 's \<Rightarrow> string list"
  rk_delete_key :: "string \<Rightarrow> 's \<Rightarrow> 's \<times> nat"

record redis_data =
  da_docs :: "string \<Rightarrow> mail_event option"
  da_zsets :: "string \<Rightarrow> (string \<times> nat) list"
  da_hashes :: "string \<Rightarrow> string \<Rightarrow> (string \<times> rat) option"
  da_sets :: "string \<Rightarrow> string set"
  da_counters :: "string \<Rightarrow> nat"

definition key_used :: "redis_data \<Rightarrow> string \<Rightarrow> bool" where
  "key_used d k \<longleftrightarrow> da_docs d k \<noteq> None \<or> da_zsets d k \<noteq> [] \<or> (\<exists>f. da_hashes d k f \<noteq> None) \<or> da_sets d k \<noteq> {} \<or> da_counters d k \<noteq> 0"

text \<open>
  Each type of value has a table of its own, since the mailbox uses no key for two types (lemma \<open>keys_apart\<close>). A sorted set
  is listed by score; the law of \<open>ZADD\<close> is for a new member with the highest score. \<open>rk_delete\<close> is the deletion of a document, \<open>rk_delete_key\<close> of a key of any type.
\<close>

definition redis_contract :: "'s redis_api \<Rightarrow> ('s \<Rightarrow> redis_data) \<Rightarrow> bool" where
  "redis_contract r view \<longleftrightarrow>
     (\<forall>k s. rk_get r k s = da_docs (view s) k)
   \<and> (\<forall>k e s. view (rk_set r k e s) = (view s)\<lparr>da_docs := (da_docs (view s))(k \<mapsto> e)\<rparr>)
   \<and> (\<forall>k s. view (rk_delete r k s) = (view s)\<lparr>da_docs := (da_docs (view s))(k := None)\<rparr>)
   \<and> (\<forall>k s. rk_zrange r k s = map fst (da_zsets (view s) k))
   \<and> (\<forall>k m n s. (\<forall>x \<in> set (da_zsets (view s) k). fst x \<noteq> m \<and> snd x < n) \<longrightarrow>
        view (rk_zadd r k m n s) = (view s)\<lparr>da_zsets := (da_zsets (view s))(k := da_zsets (view s) k @ [(m, n)])\<rparr>)
   \<and> (\<forall>k m s. view (rk_zrem r k m s) = (view s)\<lparr>da_zsets := (da_zsets (view s))(k := filter (\<lambda>x. fst x \<noteq> m) (da_zsets (view s) k))\<rparr>)
   \<and> (\<forall>k f s. rk_hget r k f s = da_hashes (view s) k f)
   \<and> (\<forall>k f v s. view (rk_hset r k f v s) = (view s)\<lparr>da_hashes := (da_hashes (view s))(k := (da_hashes (view s) k)(f \<mapsto> v))\<rparr>)
   \<and> (\<forall>k fs s. view (rk_hdel r k fs s) = (view s)\<lparr>da_hashes := (da_hashes (view s))(k := (\<lambda>f. if f \<in> set fs then None else da_hashes (view s) k f))\<rparr>)
   \<and> (\<forall>k s. map_of (rk_hgetall r k s) = da_hashes (view s) k \<and> distinct (map fst (rk_hgetall r k s)))
   \<and> (\<forall>k m s. view (rk_sadd r k m s) = (view s)\<lparr>da_sets := (da_sets (view s))(k := insert m (da_sets (view s) k))\<rparr>)
   \<and> (\<forall>k m s. view (rk_srem r k m s) = (view s)\<lparr>da_sets := (da_sets (view s))(k := da_sets (view s) k - {m})\<rparr>)
   \<and> (\<forall>k s. set (rk_smembers r k s) = da_sets (view s) k \<and> distinct (rk_smembers r k s))
   \<and> (\<forall>k s. view (fst (rk_incr r k s)) = (view s)\<lparr>da_counters := (da_counters (view s))(k := Suc (da_counters (view s) k))\<rparr>
          \<and> snd (rk_incr r k s) = Suc (da_counters (view s) k))
   \<and> (\<forall>p s. set (rk_scan r p s) = {k. starts_with p k \<and> key_used (view s) k})
   \<and> (\<forall>k s. view (fst (rk_delete_key r k s)) = \<lparr>da_docs = (da_docs (view s))(k := None), da_zsets = (da_zsets (view s))(k := []),
          da_hashes = (da_hashes (view s))(k := Map.empty), da_sets = (da_sets (view s))(k := {}), da_counters = (da_counters (view s))(k := 0)\<rparr>
        \<and> snd (rk_delete_key r k s) = (if key_used (view s) k then 1 else 0))"

record 's redis_env =
  re_api :: "'s redis_api"
  re_namespace :: string
  re_digest :: "string \<Rightarrow> string"
  re_order :: "string list \<Rightarrow> string list"

text \<open>The digest tells identifiers apart, and a Python set holds each of its elements once.\<close>

definition sound_env :: "'s redis_env \<Rightarrow> ('s \<Rightarrow> redis_data) \<Rightarrow> bool" where
  "sound_env env view \<longleftrightarrow> redis_contract (re_api env) view \<and> inj (re_digest env)
     \<and> (\<forall>xs. set (re_order env xs) = set xs \<and> distinct (re_order env xs))"

subsection \<open>Keys\<close>

definition event_key :: "'s redis_env \<Rightarrow> string \<Rightarrow> string" where
  "event_key env i = re_namespace env @ '':event:'' @ re_digest env i"

definition events_key :: "'s redis_env \<Rightarrow> string \<Rightarrow> string" where
  "events_key env c = re_namespace env @ '':events:'' @ re_digest env c"

definition conversations_key :: "'s redis_env \<Rightarrow> string" where
  "conversations_key env = re_namespace env @ '':conversations''"

definition dedup_key :: "'s redis_env \<Rightarrow> string" where
  "dedup_key env = re_namespace env @ '':dedup''"

definition sequence_key :: "'s redis_env \<Rightarrow> string" where
  "sequence_key env = re_namespace env @ '':sequence''"

lemma keys_apart:
  "event_key env i \<noteq> events_key env c" "event_key env i \<noteq> conversations_key env" "event_key env i \<noteq> dedup_key env"
  "event_key env i \<noteq> sequence_key env" "events_key env c \<noteq> conversations_key env" "events_key env c \<noteq> dedup_key env"
  "events_key env c \<noteq> sequence_key env" "conversations_key env \<noteq> dedup_key env" "conversations_key env \<noteq> sequence_key env"
  "dedup_key env \<noteq> sequence_key env"
  by (simp_all add: event_key_def events_key_def conversations_key_def dedup_key_def sequence_key_def)

subsection \<open>Append\<close>

definition rm_append :: "'s redis_env \<Rightarrow> rat \<Rightarrow> string \<Rightarrow> string \<Rightarrow> dict \<Rightarrow> ('s, string) act" where
  "rm_append env now fresh c event s =
     (let r = re_api env in
      if c = [] then (s, Inl (ValueError ''conversation_id is required''))
      else (case chosen_id fresh event of
          Inl e \<Rightarrow> (s, Inl e)
        | Inr i \<Rightarrow>
           (case rk_hget r (dedup_key env) i s of
              Some (known, seen) \<Rightarrow>
                if known \<noteq> c then (s, Inl (ValueError (''event_id '' @ repr_str i @ '' belongs to another conversation'')))
                else (s, Inr i)
            | None \<Rightarrow>
                (case rk_incr r (sequence_key env) s of (s1, n) \<Rightarrow>
                  (rk_sadd r (conversations_key env) c
                    (rk_hset r (dedup_key env) i (c, now)
                      (rk_zadd r (events_key env c) i n
                        (rk_set r (event_key env i) (appended now n i c event) s1))),
                   Inr i)))))"

subsection \<open>Claims\<close>

definition rm_load :: "'s redis_env \<Rightarrow> 's \<Rightarrow> string \<Rightarrow> mail_event option" where
  "rm_load env s i = rk_get (re_api env) (event_key env i) s"

text \<open>The events of a conversation in order, as they are read one by one.\<close>

definition rm_events :: "'s redis_env \<Rightarrow> 's \<Rightarrow> string \<Rightarrow> mail_event list" where
  "rm_events env s c = List.map_filter (rm_load env s) (rk_zrange (re_api env) (events_key env c) s)"

definition rm_conversations :: "'s redis_env \<Rightarrow> 's \<Rightarrow> string list" where
  "rm_conversations env s = rk_smembers (re_api env) (conversations_key env) s"

fun rm_lease :: "'s redis_env \<Rightarrow> rat \<Rightarrow> string \<Rightarrow> rat \<Rightarrow> nat \<Rightarrow> string list \<Rightarrow> 's \<Rightarrow> 's \<times> dict list" where
  "rm_lease env now consumer seconds 0 is s = (s, [])"
| "rm_lease env now consumer seconds (Suc n) [] s = (s, [])"
| "rm_lease env now consumer seconds (Suc n) (i # is) s =
     (case rm_load env s i of
        None \<Rightarrow> rm_lease env now consumer seconds (Suc n) is s
      | Some e \<Rightarrow>
          if claimable now e then
            let e' = e\<lparr>me_status := Leased, me_consumer := Some consumer, me_lease := Some (now + seconds)\<rparr>;
                (s', claimed) = rm_lease env now consumer seconds n is (rk_set (re_api env) (event_key env i) e' s)
            in (s', public_event e' # claimed)
          else rm_lease env now consumer seconds (Suc n) is s)"

definition rm_claim_locked :: "'s redis_env \<Rightarrow> rat \<Rightarrow> string \<Rightarrow> string \<Rightarrow> nat \<Rightarrow> rat \<Rightarrow> 's \<Rightarrow> 's \<times> dict list" where
  "rm_claim_locked env now c consumer limit seconds s =
     rm_lease env now consumer seconds limit (rk_zrange (re_api env) (events_key env c) s) s"

definition validate_claim :: "string \<Rightarrow> nat \<Rightarrow> rat \<Rightarrow> unit res" where
  "validate_claim consumer limit seconds =
     (if consumer = [] then Inl (ValueError ''consumer is required'')
      else if limit < 1 then Inl (ValueError ''limit must be >= 1'')
      else if seconds < 0 then Inl (ValueError ''lease_seconds must be >= 0'')
      else Inr ())"

definition rm_claim :: "'s redis_env \<Rightarrow> rat \<Rightarrow> string \<Rightarrow> string \<Rightarrow> nat \<Rightarrow> rat \<Rightarrow> ('s, dict list) act" where
  "rm_claim env now c consumer limit seconds s =
     (case validate_claim consumer limit seconds of
        Inl e \<Rightarrow> (s, Inl e)
      | Inr u \<Rightarrow> (case rm_claim_locked env now c consumer limit seconds s of (s', ds) \<Rightarrow> (s', Inr ds)))"

definition rm_heads :: "'s redis_env \<Rightarrow> rat \<Rightarrow> 's \<Rightarrow> (nat \<times> string) list" where
  "rm_heads env now s = List.map_filter
     (\<lambda>c. map_option (\<lambda>e. (me_seq e, c)) (find (claimable now) (rm_events env s c))) (rm_conversations env s)"

definition rm_claim_any :: "'s redis_env \<Rightarrow> rat \<Rightarrow> string \<Rightarrow> nat \<Rightarrow> rat \<Rightarrow> ('s, dict list) act" where
  "rm_claim_any env now consumer limit seconds s =
     (case validate_claim consumer limit seconds of
        Inl e \<Rightarrow> (s, Inl e)
      | Inr u \<Rightarrow>
         (case min_by fst (rm_heads env now s) of
            None \<Rightarrow> (s, Inr [])
          | Some (n, c) \<Rightarrow> (case rm_claim_locked env now c consumer limit seconds s of (s', ds) \<Rightarrow> (s', Inr ds))))"

definition rm_claimable_count :: "'s redis_env \<Rightarrow> rat \<Rightarrow> 's \<Rightarrow> string \<Rightarrow> nat" where
  "rm_claimable_count env now s c = length (filter (claimable now) (rm_events env s c))"

fun insert_text :: "string \<Rightarrow> string list \<Rightarrow> string list" where
  "insert_text t [] = [t]"
| "insert_text t (u # us) = (if str_less_eq t u then t # u # us else u # insert_text t us)"

definition sort_texts :: "string list \<Rightarrow> string list" where
  "sort_texts ts = foldr insert_text ts []"

definition rm_claimable_conversations :: "'s redis_env \<Rightarrow> rat \<Rightarrow> 's \<Rightarrow> string list" where
  "rm_claimable_conversations env now s =
     filter (\<lambda>c. list_ex (claimable now) (rm_events env s c)) (sort_texts (rm_conversations env s))"

subsection \<open>Acknowledge and release\<close>

definition of_conversation :: "string \<Rightarrow> mail_event \<Rightarrow> bool" where
  "of_conversation c e \<longleftrightarrow> dict_get (me_body e) ''conversation_id'' JNull = JStr c"

definition rm_selected :: "'s redis_env \<Rightarrow> 's \<Rightarrow> string \<Rightarrow> string list \<Rightarrow> (mail_event list) res" where
  "rm_selected env s c ids =
     (let events = map (rm_load env s) (re_order env ids) in
      if list_ex (\<lambda>e. e = None) events \<or> list_ex (\<lambda>e. \<not> of_conversation c e) (List.map_filter id events)
      then Inl (KeyError ''one or more mailbox events were not found'') else Inr (List.map_filter id events))"

text \<open>Each event is checked and written in turn; a failing check leaves the earlier ones written.\<close>

fun rm_settle :: "'s redis_env \<Rightarrow> (mail_event \<Rightarrow> unit res) \<Rightarrow> (mail_event \<Rightarrow> mail_event) \<Rightarrow> mail_event list \<Rightarrow> ('s, unit) act" where
  "rm_settle env check f [] s = (s, Inr ())"
| "rm_settle env check f (e # es) s =
     (case check e of
        Inl err \<Rightarrow> (s, Inl err)
      | Inr u \<Rightarrow> rm_settle env check f es (rk_set (re_api env) (event_key env (me_id e)) (f e) s))"

definition acknowledged :: "rat \<Rightarrow> mail_event \<Rightarrow> mail_event" where
  "acknowledged now e = e\<lparr>me_status := Acknowledged, me_acked := Some now, me_consumer := None, me_lease := None\<rparr>"

definition released :: "mail_event \<Rightarrow> mail_event" where
  "released e = e\<lparr>me_status := Pending, me_consumer := None, me_lease := None\<rparr>"

definition rm_acknowledge :: "'s redis_env \<Rightarrow> rat \<Rightarrow> string \<Rightarrow> string \<Rightarrow> string list \<Rightarrow> bool \<Rightarrow> ('s, unit) act" where
  "rm_acknowledge env now c consumer ids force s =
     (if force then
        rm_settle env (\<lambda>e. Inr ()) (acknowledged now)
          (filter (\<lambda>e. of_conversation c e \<and> me_status e \<noteq> Acknowledged) (List.map_filter (rm_load env s) (re_order env ids))) s
      else (case rm_selected env s c ids of
              Inl e \<Rightarrow> (s, Inl e)
            | Inr es \<Rightarrow> rm_settle env (require_lease now consumer) (acknowledged now) es s))"

definition rm_release :: "'s redis_env \<Rightarrow> rat \<Rightarrow> string \<Rightarrow> string \<Rightarrow> string list \<Rightarrow> ('s, unit) act" where
  "rm_release env now c consumer ids s =
     (case rm_selected env s c ids of
        Inl e \<Rightarrow> (s, Inl e)
      | Inr es \<Rightarrow> rm_settle env (require_lease now consumer) released es s)"

subsection \<open>Purges\<close>

definition rm_candidates :: "'s redis_env \<Rightarrow> 's \<Rightarrow> string list \<Rightarrow> rat option \<Rightarrow> mail_event list" where
  "rm_candidates env s cs older = sort_key me_seq (filter (acked_by older) (concat (map (rm_events env s) cs)))"

text \<open>The conversation of a candidate is the one its document names.\<close>

definition rm_remove :: "'s redis_env \<Rightarrow> mail_event \<Rightarrow> 's \<Rightarrow> 's" where
  "rm_remove env e s =
     rk_zrem (re_api env) (events_key env (str_of (dict_get (me_body e) ''conversation_id'' JNull))) (me_id e)
       (rk_delete (re_api env) (event_key env (me_id e)) s)"

definition rm_drop_empty :: "'s redis_env \<Rightarrow> string \<Rightarrow> 's \<Rightarrow> 's" where
  "rm_drop_empty env c s =
     (if rk_zrange (re_api env) (events_key env c) s = [] then rk_srem (re_api env) (conversations_key env) c s else s)"

definition rm_purge_acknowledged :: "'s redis_env \<Rightarrow> string option \<Rightarrow> rat option \<Rightarrow> nat \<Rightarrow> ('s, nat) act" where
  "rm_purge_acknowledged env c older limit s =
     (if limit < 1 then (s, Inl (ValueError ''limit must be >= 1''))
      else let cs = (case c of None \<Rightarrow> sort_texts (rm_conversations env s) | Some x \<Rightarrow> [x]);
               found = rm_candidates env s cs older
           in (fold (rm_drop_empty env) cs (fold (rm_remove env) (take limit found) s), Inr (min (length found) limit)))"

definition rm_purge_deduplication_keys :: "'s redis_env \<Rightarrow> rat \<Rightarrow> nat \<Rightarrow> ('s, nat) act" where
  "rm_purge_deduplication_keys env older limit s =
     (if limit < 1 then (s, Inl (ValueError ''limit must be >= 1''))
      else let old = take limit (map fst (filter (\<lambda>(i, c, seen). seen \<le> older \<and> rm_load env s i = None)
                  (rk_hgetall (re_api env) (dedup_key env) s)))
           in (if old = [] then s else rk_hdel (re_api env) (dedup_key env) old s, Inr (length old)))"

subsection \<open>Waiting\<close>

text \<open>One turn of the loop of \<open>wait_for_events\<close>: it returns, or it sleeps.\<close>

definition rm_has_claimable :: "'s redis_env \<Rightarrow> rat \<Rightarrow> 's \<Rightarrow> string option \<Rightarrow> bool" where
  "rm_has_claimable env now s c =
     list_ex (\<lambda>x. list_ex (claimable now) (rm_events env s x)) (case c of None \<Rightarrow> rm_conversations env s | Some x \<Rightarrow> [x])"

definition rm_wait_turn :: "'s redis_env \<Rightarrow> rat \<Rightarrow> rat \<Rightarrow> 's \<Rightarrow> string option \<Rightarrow> rat option \<Rightarrow> wait_turn" where
  "rm_wait_turn env now interval s c remaining =
     (if rm_has_claimable env now s c then Return True
      else (case remaining of
              None \<Rightarrow> Block (Some interval)
            | Some t \<Rightarrow> if t \<le> 0 then Return False else Block (Some (min interval (max 0 t)))))"

subsection \<open>Purge of the namespace\<close>

fun rm_delete_each :: "'s redis_env \<Rightarrow> string list \<Rightarrow> 's \<Rightarrow> 's \<times> nat" where
  "rm_delete_each env [] s = (s, 0)"
| "rm_delete_each env (k # ks) s =
     (if k = re_namespace env @ '':lock'' then rm_delete_each env ks s
      else (case rk_delete_key (re_api env) k s of (s1, n) \<Rightarrow> (case rm_delete_each env ks s1 of (s2, m) \<Rightarrow> (s2, n + m))))"

definition rm_purge :: "'s redis_env \<Rightarrow> 's \<Rightarrow> 's \<times> nat" where
  "rm_purge env s = rm_delete_each env (rk_scan (re_api env) (re_namespace env @ '':'') s) s"

end
