(* ===== verification/Ready_Queue.thy ===== *)
theory Ready_Queue
  imports Redis_Mailbox
begin

text \<open>
  The fair queue on Redis (\<open>entourage/runtime/redis_queue.py\<close>): one list per session, an active set of sessions with
  pending payloads, and a hash of the envelopes that are claimed but not acknowledged. The server is a parameter, a record of the
  commands the code sends over a state of any type, with \<open>queue_contract\<close> for what they promise. A stored text is
  what it decodes to, an envelope or nothing. A pipeline is a transaction. Keys that expire after a day without
  use are not modelled: \<open>EXPIRE\<close> leaves the data as it is.
\<close>

subsection \<open>The server\<close>

record queue_envelope =
  fv_id :: string
  fv_key :: string
  fv_enqueued :: rat
  fv_payload :: dict
  fv_claimed :: "rat option"

datatype stored = Stored queue_envelope | Malformed

record 's queue_api =
  ql_lpush :: "string \<Rightarrow> stored \<Rightarrow> 's \<Rightarrow> 's"
  ql_rpush :: "string \<Rightarrow> stored \<Rightarrow> 's \<Rightarrow> 's"
  ql_rpop :: "string \<Rightarrow> 's \<Rightarrow> 's \<times> stored option"
  ql_llen :: "string \<Rightarrow> 's \<Rightarrow> nat"
  ql_sadd :: "string \<Rightarrow> string \<Rightarrow> 's \<Rightarrow> 's"
  ql_srem :: "string \<Rightarrow> string \<Rightarrow> 's \<Rightarrow> 's"
  ql_smembers :: "string \<Rightarrow> 's \<Rightarrow> string list"
  ql_hset :: "string \<Rightarrow> string \<Rightarrow> stored \<Rightarrow> 's \<Rightarrow> 's"
  ql_hdel :: "string \<Rightarrow> string \<Rightarrow> 's \<Rightarrow> 's \<times> bool"
  ql_hscan :: "string \<Rightarrow> 's \<Rightarrow> (string \<times> stored) list"
  ql_hlen :: "string \<Rightarrow> 's \<Rightarrow> nat"
  ql_expire :: "string \<Rightarrow> int \<Rightarrow> 's \<Rightarrow> 's"
  ql_scan :: "string \<Rightarrow> 's \<Rightarrow> string list"
  ql_delete :: "string \<Rightarrow> 's \<Rightarrow> 's \<times> nat"

record queue_data =
  qd_lists :: "string \<Rightarrow> stored list"
  qd_sets :: "string \<Rightarrow> string set"
  qd_hashes :: "string \<Rightarrow> string \<Rightarrow> stored option"

definition key_exists :: "queue_data \<Rightarrow> string \<Rightarrow> bool" where
  "key_exists d k \<longleftrightarrow> qd_lists d k \<noteq> [] \<or> qd_sets d k \<noteq> {} \<or> (\<exists>f. qd_hashes d k f \<noteq> None)"

definition queue_contract :: "'s queue_api \<Rightarrow> ('s \<Rightarrow> queue_data) \<Rightarrow> bool" where
  "queue_contract r view \<longleftrightarrow>
     (\<forall>k x s. view (ql_lpush r k x s) = (view s)\<lparr>qd_lists := (qd_lists (view s))(k := x # qd_lists (view s) k)\<rparr>)
   \<and> (\<forall>k x s. view (ql_rpush r k x s) = (view s)\<lparr>qd_lists := (qd_lists (view s))(k := qd_lists (view s) k @ [x])\<rparr>)
   \<and> (\<forall>k s. view (fst (ql_rpop r k s)) = (view s)\<lparr>qd_lists := (qd_lists (view s))(k := butlast (qd_lists (view s) k))\<rparr>)
   \<and> (\<forall>k s. snd (ql_rpop r k s) = (if qd_lists (view s) k = [] then None else Some (last (qd_lists (view s) k))))
   \<and> (\<forall>k s. ql_llen r k s = length (qd_lists (view s) k))
   \<and> (\<forall>k m s. view (ql_sadd r k m s) = (view s)\<lparr>qd_sets := (qd_sets (view s))(k := insert m (qd_sets (view s) k))\<rparr>)
   \<and> (\<forall>k m s. view (ql_srem r k m s) = (view s)\<lparr>qd_sets := (qd_sets (view s))(k := qd_sets (view s) k - {m})\<rparr>)
   \<and> (\<forall>k s. set (ql_smembers r k s) = qd_sets (view s) k \<and> distinct (ql_smembers r k s))
   \<and> (\<forall>k f x s. view (ql_hset r k f x s) = (view s)\<lparr>qd_hashes := (qd_hashes (view s))(k := (qd_hashes (view s) k)(f \<mapsto> x))\<rparr>)
   \<and> (\<forall>k f s. view (fst (ql_hdel r k f s)) = (view s)\<lparr>qd_hashes := (qd_hashes (view s))(k := (qd_hashes (view s) k)(f := None))\<rparr>
        \<and> (snd (ql_hdel r k f s) \<longleftrightarrow> qd_hashes (view s) k f \<noteq> None))
   \<and> (\<forall>k s. set (ql_hscan r k s) = {(f, x). qd_hashes (view s) k f = Some x})
   \<and> (\<forall>k s. ql_hlen r k s = card (dom (qd_hashes (view s) k)))
   \<and> (\<forall>k n s. view (ql_expire r k n s) = view s)
   \<and> (\<forall>p s. set (ql_scan r p s) = {k. starts_with p k \<and> key_exists (view s) k})
   \<and> (\<forall>k s. view (fst (ql_delete r k s)) = (view s)\<lparr>qd_lists := (qd_lists (view s))(k := []),
          qd_sets := (qd_sets (view s))(k := {}), qd_hashes := (qd_hashes (view s))(k := Map.empty)\<rparr>
        \<and> snd (ql_delete r k s) = (if key_exists (view s) k then 1 else 0))"

record 's queue_env =
  qe_api :: "'s queue_api"
  qe_namespace :: string
  qe_ttl :: int
  qe_reclaim_after :: rat

definition sound_queue :: "'s queue_env \<Rightarrow> ('s \<Rightarrow> queue_data) \<Rightarrow> bool" where
  "sound_queue env view \<longleftrightarrow> queue_contract (qe_api env) view"

subsection \<open>Keys\<close>

definition active_key :: "'s queue_env \<Rightarrow> string" where
  "active_key env = qe_namespace env @ '':active''"

definition list_key :: "'s queue_env \<Rightarrow> string \<Rightarrow> string" where
  "list_key env k = qe_namespace env @ '':list:'' @ k"

definition in_flight_key :: "'s queue_env \<Rightarrow> string" where
  "in_flight_key env = qe_namespace env @ '':in_flight''"

definition system_key :: string where
  "system_key = ''__system__''"

text \<open>The identifiers of a payload are strings or missing.\<close>

definition fairness_key :: "dict \<Rightarrow> string" where
  "fairness_key payload =
     (if truthy (dict_get payload ''session_id'' JNull) then str_of (dict_get payload ''session_id'' JNull)
      else if truthy (dict_get payload ''serial_key'' JNull) then str_of (dict_get payload ''serial_key'' JNull)
      else system_key)"

subsection \<open>Sending\<close>

definition fq_push :: "'s queue_env \<Rightarrow> queue_envelope \<Rightarrow> bool \<Rightarrow> 's \<Rightarrow> 's" where
  "fq_push env e front s =
     (let r = qe_api env; k = list_key env (fv_key e);
          s1 = (if front then ql_rpush r k (Stored e) s else ql_lpush r k (Stored e) s)
      in ql_expire r (active_key env) (qe_ttl env) (ql_expire r k (qe_ttl env) (ql_sadd r (active_key env) (fv_key e) s1)))"

definition new_envelope :: "string \<Rightarrow> rat \<Rightarrow> dict \<Rightarrow> queue_envelope" where
  "new_envelope fresh now payload =
     \<lparr>fv_id = fresh, fv_key = fairness_key payload, fv_enqueued = now, fv_payload = payload, fv_claimed = None\<rparr>"

definition fq_send :: "'s queue_env \<Rightarrow> string \<Rightarrow> rat \<Rightarrow> dict \<Rightarrow> 's \<Rightarrow> 's" where
  "fq_send env fresh now payload s = fq_push env (new_envelope fresh now payload) False s"

subsection \<open>Claiming\<close>

text \<open>The last part of a claim, once an envelope was taken from its list.\<close>

definition fq_record :: "'s queue_env \<Rightarrow> rat \<Rightarrow> string \<Rightarrow> queue_envelope \<Rightarrow> 's \<Rightarrow> 's" where
  "fq_record env now k e s =
     (let r = qe_api env;
          s1 = (if ql_llen r (list_key env k) s > 0
                then ql_expire r (active_key env) (qe_ttl env) (ql_expire r (list_key env k) (qe_ttl env) s) else s)
      in ql_hset r (in_flight_key env) (fv_id e) (Stored (e\<lparr>fv_claimed := Some now\<rparr>)) s1)"

definition fq_claim_one :: "'s queue_env \<Rightarrow> rat \<Rightarrow> string \<Rightarrow> 's \<Rightarrow> 's \<times> queue_envelope option" where
  "fq_claim_one env now k s =
     (let r = qe_api env in
      case ql_rpop r (list_key env k) s of
        (s1, None) \<Rightarrow>
          (let s2 = ql_srem r (active_key env) k s1
           in (if ql_llen r (list_key env k) s2 > 0 then ql_sadd r (active_key env) k s2 else s2, None))
      | (s1, Some Malformed) \<Rightarrow> (s1, None)
      | (s1, Some (Stored e)) \<Rightarrow> (fq_record env now k e s1, Some (e\<lparr>fv_claimed := Some now\<rparr>)))"

text \<open>One pass over the active keys, with room for \<open>n\<close> more messages.\<close>

fun fq_pass :: "'s queue_env \<Rightarrow> rat \<Rightarrow> nat \<Rightarrow> string list \<Rightarrow> 's \<Rightarrow> 's \<times> queue_envelope list" where
  "fq_pass env now n [] s = (s, [])"
| "fq_pass env now n (k # ks) s =
     (if n = 0 then (s, [])
      else (case fq_claim_one env now k s of
              (s1, None) \<Rightarrow> fq_pass env now n ks s1
            | (s1, Some e) \<Rightarrow> (case fq_pass env now (n - 1) ks s1 of (s2, es) \<Rightarrow> (s2, e # es))))"

text \<open>Every pass but the last claims a message, so there are no more passes than the batch has room.\<close>

function (sequential) fq_claim_batch :: "'s queue_env \<Rightarrow> rat \<Rightarrow> nat \<Rightarrow> 's \<Rightarrow> 's \<times> queue_envelope list" where
  "fq_claim_batch env now 0 s = (s, [])"
| "fq_claim_batch env now (Suc n) s =
     (case ql_smembers (qe_api env) (active_key env) s of
        [] \<Rightarrow> (s, [])
      | k # ks \<Rightarrow>
         (case fq_pass env now (Suc n) (k # ks) s of
            (s1, []) \<Rightarrow> (s1, [])
          | (s1, e # es) \<Rightarrow> (case fq_claim_batch env now (n - length es) s1 of (s2, fs) \<Rightarrow> (s2, (e # es) @ fs))))"
  by pat_completeness auto

termination
  by (relation "measure (\<lambda>(env, now, n, s). n)") auto

subsection \<open>Acknowledging, returning, reclaiming\<close>

definition fq_ack :: "'s queue_env \<Rightarrow> queue_envelope \<Rightarrow> 's \<Rightarrow> 's" where
  "fq_ack env e s = fst (ql_hdel (qe_api env) (in_flight_key env) (fv_id e) s)"

definition fq_nack :: "'s queue_env \<Rightarrow> queue_envelope \<Rightarrow> 's \<Rightarrow> 's" where
  "fq_nack env e s = fq_push env e True (fst (ql_hdel (qe_api env) (in_flight_key env) (fv_id e) s))"

definition is_stale :: "rat \<Rightarrow> queue_envelope \<Rightarrow> bool" where
  "is_stale threshold e \<longleftrightarrow> (case fv_claimed e of None \<Rightarrow> 0 | Some t \<Rightarrow> t) \<le> threshold"

fun fq_reclaim_each :: "'s queue_env \<Rightarrow> rat \<Rightarrow> (string \<times> stored) list \<Rightarrow> 's \<Rightarrow> 's \<times> nat" where
  "fq_reclaim_each env threshold [] s = (s, 0)"
| "fq_reclaim_each env threshold ((i, Malformed) # rows) s =
     fq_reclaim_each env threshold rows (fst (ql_hdel (qe_api env) (in_flight_key env) i s))"
| "fq_reclaim_each env threshold ((i, Stored e) # rows) s =
     (if is_stale threshold e then
        (case ql_hdel (qe_api env) (in_flight_key env) i s of
           (s1, False) \<Rightarrow> fq_reclaim_each env threshold rows s1
         | (s1, True) \<Rightarrow> (case fq_reclaim_each env threshold rows (fq_push env e True s1) of (s2, n) \<Rightarrow> (s2, Suc n)))
      else fq_reclaim_each env threshold rows s)"

definition fq_reclaim_stale :: "'s queue_env \<Rightarrow> rat \<Rightarrow> rat option \<Rightarrow> 's \<Rightarrow> 's \<times> nat" where
  "fq_reclaim_stale env now older s =
     fq_reclaim_each env (now - (case older of None \<Rightarrow> qe_reclaim_after env | Some t \<Rightarrow> t)) (ql_hscan (qe_api env) (in_flight_key env) s) s"

text \<open>The time of the last reclaim is the worker's own, on its monotonic clock.\<close>

definition fq_maybe_reclaim :: "'s queue_env \<Rightarrow> rat \<Rightarrow> rat \<Rightarrow> rat \<Rightarrow> 's \<Rightarrow> 's \<times> rat" where
  "fq_maybe_reclaim env now clock last_reclaim s =
     (if clock - last_reclaim \<ge> min (qe_reclaim_after env) 60 then (fst (fq_reclaim_stale env now None s), clock) else (s, last_reclaim))"

text \<open>The polls of \<open>receive\<close> until its deadline, each with its time; other processes may change the server in between.\<close>

fun fq_poll :: "'s queue_env \<Rightarrow> nat \<Rightarrow> (rat \<times> ('s \<Rightarrow> 's)) list \<Rightarrow> 's \<Rightarrow> 's \<times> queue_envelope list" where
  "fq_poll env n [] s = (s, [])"
| "fq_poll env n ((now, others) # polls) s =
     (case fq_claim_batch env now n (others s) of
        (s1, []) \<Rightarrow> fq_poll env n polls s1
      | (s1, e # es) \<Rightarrow> (s1, e # es))"

definition fq_receive :: "'s queue_env \<Rightarrow> rat \<Rightarrow> rat \<Rightarrow> rat \<Rightarrow> nat \<Rightarrow> (rat \<times> ('s \<Rightarrow> 's)) list \<Rightarrow> 's \<Rightarrow> ('s \<times> rat) \<times> queue_envelope list" where
  "fq_receive env now clock last_reclaim n polls s =
     (case fq_maybe_reclaim env now clock last_reclaim s of
        (s1, reclaimed) \<Rightarrow> (case fq_poll env n ((now, \<lambda>s. s) # polls) s1 of (s2, es) \<Rightarrow> ((s2, reclaimed), es)))"

subsection \<open>Introspection and maintenance\<close>

definition fq_active_keys :: "'s queue_env \<Rightarrow> 's \<Rightarrow> string list" where
  "fq_active_keys env s = sort_texts (ql_smembers (qe_api env) (active_key env) s)"

definition fq_pending_count :: "'s queue_env \<Rightarrow> 's \<Rightarrow> string \<Rightarrow> nat" where
  "fq_pending_count env s k = ql_llen (qe_api env) (list_key env k) s"

definition fq_in_flight_count :: "'s queue_env \<Rightarrow> 's \<Rightarrow> nat" where
  "fq_in_flight_count env s = ql_hlen (qe_api env) (in_flight_key env) s"

fun fq_delete_each :: "'s queue_env \<Rightarrow> string list \<Rightarrow> 's \<Rightarrow> 's \<times> nat" where
  "fq_delete_each env [] s = (s, 0)"
| "fq_delete_each env (k # ks) s =
     (case ql_delete (qe_api env) k s of (s1, n) \<Rightarrow> (case fq_delete_each env ks s1 of (s2, m) \<Rightarrow> (s2, n + m)))"

definition fq_purge :: "'s queue_env \<Rightarrow> 's \<Rightarrow> 's \<times> nat" where
  "fq_purge env s = fq_delete_each env (ql_scan (qe_api env) (qe_namespace env @ '':'') s) s"

end
