(* ===== verification/Redis_Laws.thy ===== *)
theory Redis_Laws
  imports Redis_Mailbox
begin

text \<open>
  The Redis mailbox against the reference mailbox: over any server that keeps its contract, the two mirror each other
  through every step, and deliver the same mail.
\<close>

subsection \<open>Mirrors\<close>

text \<open>The Redis sequence starts at one, the reference's at zero; nothing else of an event differs.\<close>

definition renumbered :: "mail_event \<Rightarrow> mail_event" where
  "renumbered e = e\<lparr>me_seq := Suc (me_seq e)\<rparr>"

lemma renumbered_simps [simp]:
  "me_id (renumbered e) = me_id e" "me_body (renumbered e) = me_body e" "me_status (renumbered e) = me_status e"
  "me_consumer (renumbered e) = me_consumer e" "me_lease (renumbered e) = me_lease e" "me_acked (renumbered e) = me_acked e"
  "me_seq (renumbered e) = Suc (me_seq e)" "claimable now (renumbered e) = claimable now e"
  "public_event (renumbered e) = public_event e" "acked_by older (renumbered e) = acked_by older e"
  "of_conversation c (renumbered e) = of_conversation c e" "require_lease now u (renumbered e) = require_lease now u e"
  by (simp_all add: renumbered_def claimable_def lease_expired_def public_event_def acked_by_def of_conversation_def require_lease_def
      split: option.splits)

text \<open>What the reference mailbox keeps besides \<open>mailbox_ok\<close>.\<close>

definition box_tidy :: "mailbox \<Rightarrow> bool" where
  "box_tidy mb \<longleftrightarrow>
     distinct (map fst (mb_events mb)) \<and> (\<forall>k \<in> set (map fst (mb_events mb)). conversation mb k \<noteq> []) \<and> distinct (map fst (mb_ids mb))
   \<and> (\<forall>c. sorted_wrt (<) (map me_seq (conversation mb c)))
   \<and> (\<forall>c d e f. e \<in> set (conversation mb c) \<longrightarrow> f \<in> set (conversation mb d) \<longrightarrow> me_seq e = me_seq f \<longrightarrow> c = d)
   \<and> (\<forall>c. \<forall>e \<in> set (conversation mb c). of_conversation c e)"

definition mirrors :: "'s redis_env \<Rightarrow> ('s \<Rightarrow> redis_data) \<Rightarrow> 's \<Rightarrow> mailbox \<Rightarrow> bool" where
  "mirrors env view s mb \<longleftrightarrow> mailbox_ok mb \<and> box_tidy mb
   \<and> (\<forall>c. da_zsets (view s) (events_key env c) = map (\<lambda>e. (me_id e, Suc (me_seq e))) (conversation mb c))
   \<and> (\<forall>c. \<forall>e \<in> set (conversation mb c). da_docs (view s) (event_key env (me_id e)) = Some (renumbered e))
   \<and> (\<forall>i. da_docs (view s) (event_key env i) \<noteq> None \<longrightarrow> (\<exists>c. \<exists>e \<in> set (conversation mb c). me_id e = i))
   \<and> (\<forall>i. da_hashes (view s) (dedup_key env) i = map_of (mb_ids mb) i)
   \<and> da_sets (view s) (conversations_key env) = set (map fst (mb_events mb))
   \<and> da_counters (view s) (sequence_key env) = mb_next mb"

lemma mirrorsD:
  assumes "mirrors env view s mb"
  shows "mailbox_ok mb" "box_tidy mb"
    "\<And>c. da_zsets (view s) (events_key env c) = map (\<lambda>e. (me_id e, Suc (me_seq e))) (conversation mb c)"
    "\<And>c e. e \<in> set (conversation mb c) \<Longrightarrow> da_docs (view s) (event_key env (me_id e)) = Some (renumbered e)"
    "\<And>i d. da_docs (view s) (event_key env i) = Some d \<Longrightarrow> \<exists>c. \<exists>e \<in> set (conversation mb c). me_id e = i"
    "\<And>i. da_hashes (view s) (dedup_key env) i = map_of (mb_ids mb) i"
    "da_sets (view s) (conversations_key env) = set (map fst (mb_events mb))"
    "da_counters (view s) (sequence_key env) = mb_next mb"
  using assms by (auto simp: mirrors_def)

lemma contractD:
  assumes "sound_env env view"
  shows "rk_get (re_api env) k s = da_docs (view s) k"
    "view (rk_set (re_api env) k e s) = (view s)\<lparr>da_docs := (da_docs (view s))(k \<mapsto> e)\<rparr>"
    "view (rk_delete (re_api env) k s) = (view s)\<lparr>da_docs := (da_docs (view s))(k := None)\<rparr>"
    "rk_zrange (re_api env) k s = map fst (da_zsets (view s) k)"
    "(\<forall>x \<in> set (da_zsets (view s) k). fst x \<noteq> m \<and> snd x < n) \<Longrightarrow>
        view (rk_zadd (re_api env) k m n s) = (view s)\<lparr>da_zsets := (da_zsets (view s))(k := da_zsets (view s) k @ [(m, n)])\<rparr>"
    "view (rk_zrem (re_api env) k m s) = (view s)\<lparr>da_zsets := (da_zsets (view s))(k := filter (\<lambda>x. fst x \<noteq> m) (da_zsets (view s) k))\<rparr>"
    "rk_hget (re_api env) k f s = da_hashes (view s) k f"
    "view (rk_hset (re_api env) k f v s) = (view s)\<lparr>da_hashes := (da_hashes (view s))(k := (da_hashes (view s) k)(f \<mapsto> v))\<rparr>"
    "view (rk_hdel (re_api env) k fs s) = (view s)\<lparr>da_hashes := (da_hashes (view s))(k := (\<lambda>f. if f \<in> set fs then None else da_hashes (view s) k f))\<rparr>"
    "map_of (rk_hgetall (re_api env) k s) = da_hashes (view s) k" "distinct (map fst (rk_hgetall (re_api env) k s))"
    "view (rk_sadd (re_api env) k m s) = (view s)\<lparr>da_sets := (da_sets (view s))(k := insert m (da_sets (view s) k))\<rparr>"
    "view (rk_srem (re_api env) k m s) = (view s)\<lparr>da_sets := (da_sets (view s))(k := da_sets (view s) k - {m})\<rparr>"
    "set (rk_smembers (re_api env) k s) = da_sets (view s) k" "distinct (rk_smembers (re_api env) k s)"
    "view (fst (rk_incr (re_api env) k s)) = (view s)\<lparr>da_counters := (da_counters (view s))(k := Suc (da_counters (view s) k))\<rparr>"
    "snd (rk_incr (re_api env) k s) = Suc (da_counters (view s) k)"
    "set (re_order env xs) = set xs" "distinct (re_order env xs)"
    "set (rk_scan (re_api env) k s) = {x. starts_with k x \<and> key_used (view s) x}"
    "view (fst (rk_delete_key (re_api env) k s)) = \<lparr>da_docs = (da_docs (view s))(k := None), da_zsets = (da_zsets (view s))(k := []),
        da_hashes = (da_hashes (view s))(k := Map.empty), da_sets = (da_sets (view s))(k := {}), da_counters = (da_counters (view s))(k := 0)\<rparr>"
  using assms by (simp_all add: sound_env_def redis_contract_def) (cases v; simp)

lemma event_key_inj: "sound_env env view \<Longrightarrow> event_key env i = event_key env j \<longleftrightarrow> i = j"
  by (auto simp: event_key_def sound_env_def dest: injD)

lemma event_key_in: "sound_env env view \<Longrightarrow> event_key env i \<in> event_key env ` S \<longleftrightarrow> i \<in> S"
  by (auto simp: event_key_inj)

lemma events_key_inj: "sound_env env view \<Longrightarrow> events_key env i = events_key env j \<longleftrightarrow> i = j"
  by (auto simp: events_key_def sound_env_def dest: injD)

lemma load_mirrored: "sound_env env view \<Longrightarrow> mirrors env view s mb \<Longrightarrow> e \<in> set (conversation mb c) \<Longrightarrow> rm_load env s (me_id e) = Some (renumbered e)"
  by (simp add: rm_load_def contractD(1) mirrorsD(4))

lemma events_mirrored:
  assumes "sound_env env view" "mirrors env view s mb"
  shows "rm_events env s c = map renumbered (conversation mb c)"
proof -
  have "List.map_filter (rm_load env s) (map me_id es) = map renumbered es"
    if "set es \<subseteq> set (conversation mb c)" for es
    using that by (induction es) (simp_all add: load_mirrored [OF assms, of _ c])
  then show ?thesis
    by (simp add: rm_events_def contractD(4) [OF assms(1)] mirrorsD(3) [OF assms(2)] comp_def)
qed

subsection \<open>Changes in place\<close>

definition kept_event :: "mail_event \<Rightarrow> mail_event \<Rightarrow> bool" where
  "kept_event e e' \<longleftrightarrow> e' = e \<or> same_event e e'"

lemma kept_eventD: "kept_event e e' \<Longrightarrow> me_id e' = me_id e \<and> me_body e' = me_body e \<and> me_seq e' = me_seq e"
  by (auto simp: kept_event_def same_event_def)

lemma kept_events:
  assumes "list_all2 kept_event es es'"
  shows "map me_id es' = map me_id es" "map me_seq es' = map me_seq es" "map (of_conversation c) es' = map (of_conversation c) es"
  using assms by (induction rule: list_all2_induct) (auto dest!: kept_eventD simp: of_conversation_def)

lemma tidy_in_place:
  assumes tidy: "box_tidy mb" and kept: "list_all2 kept_event (conversation mb c) es"
  shows "box_tidy (set_conversation c es mb)"
proof -
  let ?mb = "set_conversation c es mb"
  have seqs: "map me_seq (conversation ?mb k) = map me_seq (conversation mb k)" for k
    using kept_events(2) [OF kept] by simp
  have conv: "map (of_conversation k) (conversation ?mb k) = map (of_conversation k) (conversation mb k)" for k
    using kept_events(3) [OF kept] by simp
  have len: "length (conversation ?mb k) = length (conversation mb k)" for k
    using seqs by (metis length_map)
  have source: "\<exists>f \<in> set (conversation mb k). me_seq f = me_seq e" if "e \<in> set (conversation ?mb k)" for e k
    using arg_cong [OF seqs [of k], of set] that by (metis image_iff list.set_map)
  have oc: "of_conversation k e" if "e \<in> set (conversation ?mb k)" for e k
  proof -
    have "of_conversation k e \<in> set (map (of_conversation k) (conversation ?mb k))" using that by simp
    then show ?thesis using tidy unfolding conv by (auto simp: box_tidy_def)
  qed
  have ne: "conversation ?mb k \<noteq> []" if "k \<in> set (map fst (mb_events mb))" for k
  proof -
    have "conversation mb k \<noteq> []" using tidy that unfolding box_tidy_def by blast
    then show ?thesis using len [of k] by (metis length_0_conv)
  qed
  have uniq: "k = d" if "e \<in> set (conversation ?mb k)" "f \<in> set (conversation ?mb d)" "me_seq e = me_seq f" for e f k d
    using source [OF that(1)] source [OF that(2)] that(3) tidy unfolding box_tidy_def by metis
  note t = tidy [unfolded box_tidy_def]
  show ?thesis
    unfolding box_tidy_def keys_set ids_set seqs
    by (intro conjI ballI allI impI conjunct1 [OF t] conjunct1 [OF conjunct2 [OF conjunct2 [OF t]]]
        spec [OF conjunct1 [OF conjunct2 [OF conjunct2 [OF conjunct2 [OF t]]]]]) (fact ne, fact uniq, fact oc)
qed

lemma mirrors_in_place:
  assumes m: "mirrors env view s mb" and env: "sound_env env view"
    and kept: "list_all2 kept_event (conversation mb c) es"
    and v: "view s' = (view s)\<lparr>da_docs := D\<rparr>"
    and new: "\<And>e. e \<in> set es \<Longrightarrow> D (event_key env (me_id e)) = Some (renumbered e)"
    and old: "\<And>i. i \<notin> me_id ` set es \<Longrightarrow> D (event_key env i) = da_docs (view s) (event_key env i)"
  shows "mirrors env view s' (set_conversation c es mb)"
proof -
  let ?mb = "set_conversation c es mb"
  note d = mirrorsD [OF m]
  have ok: "mailbox_ok ?mb"
    by (rule rel_set_ok [OF d(1)], rule list_all2_mono [OF kept]) (simp add: kept_event_def)
  have ids: "me_id ` set es = me_id ` set (conversation mb c)"
    using kept_events(1) [OF kept] by (metis list.set_map)
  have z: "map (\<lambda>e. (me_id e, Suc (me_seq e))) es = map (\<lambda>e. (me_id e, Suc (me_seq e))) (conversation mb c)"
    using kept by (induction rule: list_all2_induct) (auto dest!: kept_eventD)
  have doc: "D (event_key env (me_id e)) = Some (renumbered e)" if e: "e \<in> set (conversation ?mb k)" for e k
  proof (cases "k = c \<and> map_of (mb_events mb) c \<noteq> None")
    case True
    then show ?thesis using e new by simp
  next
    case False
    then have e': "e \<in> set (conversation mb k)" using e by (simp split: if_splits)
    show ?thesis
    proof (cases "me_id e \<in> me_id ` set es")
      case True
      then obtain f where f: "f \<in> set (conversation mb c)" "me_id f = me_id e" using ids by auto
      then have "k = c" using mailbox_okD [OF d(1) f(1)] mailbox_okD [OF d(1) e'] by (auto simp: event_ok_def)
      with False have "conversation mb c = []" by (simp add: conversation_None)
      then show ?thesis using f(1) by simp
    next
      case False
      then show ?thesis using old d(4) [OF e'] by simp
    qed
  qed
  have live: "\<exists>k. \<exists>e \<in> set (conversation ?mb k). me_id e = i" if i: "D (event_key env i) \<noteq> None" for i
  proof -
    have "\<exists>k. \<exists>e \<in> set (conversation mb k). me_id e = i"
      using i d(5) [of i] old [of i] ids by (cases "i \<in> me_id ` set es") auto
    then obtain k e where e: "e \<in> set (conversation mb k)" "me_id e = i" by blast
    show ?thesis
    proof (cases "k = c \<and> map_of (mb_events mb) c \<noteq> None")
      case True
      then have "i \<in> me_id ` set es" using ids e by auto
      then show ?thesis using True by (intro exI [where x = c]) auto
    next
      case False
      then have "e \<in> set (conversation ?mb k)" using e(1) by auto
      then show ?thesis using e(2) by blast
    qed
  qed
  show ?thesis
    unfolding mirrors_def keys_set ids_set
    using ok tidy_in_place [OF d(2) kept] doc live d(3,6,7,8) z by (auto simp: v)
qed

subsection \<open>Claims\<close>

lemma rm_lease_events:
  assumes env: "sound_env env view"
    and docs: "\<forall>e \<in> set es. da_docs (view s) (event_key env (me_id e)) = Some (renumbered e)" and "distinct (map me_id es)"
  shows "snd (rm_lease env now consumer seconds n (map me_id es) s) = snd (lease_events now consumer seconds n es)
    \<and> (\<exists>D. view (fst (rm_lease env now consumer seconds n (map me_id es) s)) = (view s)\<lparr>da_docs := D\<rparr>
       \<and> (\<forall>e \<in> set (fst (lease_events now consumer seconds n es)). D (event_key env (me_id e)) = Some (renumbered e))
       \<and> (\<forall>k. k \<notin> event_key env ` me_id ` set es \<longrightarrow> D k = da_docs (view s) k))"
  using docs assms(3)
proof (induction now consumer seconds n es arbitrary: s rule: lease_events.induct)
  case (1 now consumer seconds es)
  then show ?case by (auto intro!: exI [where x = "da_docs (view s)"])
next
  case (2 now consumer seconds n)
  then show ?case by (auto intro!: exI [where x = "da_docs (view s)"])
next
  case (3 now consumer seconds n e es)
  let ?e' = "e\<lparr>me_status := Leased, me_consumer := Some consumer, me_lease := Some (now + seconds)\<rparr>"
  have load: "rm_load env s (me_id e) = Some (renumbered e)"
    using "3.prems"(1) by (simp add: rm_load_def contractD(1) [OF env])
  show ?case
  proof (cases "claimable now e")
    case True
    let ?s1 = "rk_set (re_api env) (event_key env (me_id e)) (renumbered ?e') s"
    have v1: "view ?s1 = (view s)\<lparr>da_docs := (da_docs (view s))(event_key env (me_id e) \<mapsto> renumbered ?e')\<rparr>"
      by (rule contractD(2) [OF env])
    have "\<forall>x \<in> set es. me_id x \<noteq> me_id e" using "3.prems"(2) by (metis distinct.simps(2) image_eqI list.set_map list.simps(9))
    then have rest: "\<forall>x \<in> set es. da_docs (view ?s1) (event_key env (me_id x)) = Some (renumbered x)" "distinct (map me_id es)"
      using "3.prems" by (simp_all add: v1 event_key_inj [OF env])
    obtain D where ih: "snd (rm_lease env now consumer seconds n (map me_id es) ?s1) = snd (lease_events now consumer seconds n es)"
      "view (fst (rm_lease env now consumer seconds n (map me_id es) ?s1)) = (view ?s1)\<lparr>da_docs := D\<rparr>"
      "\<forall>x \<in> set (fst (lease_events now consumer seconds n es)). D (event_key env (me_id x)) = Some (renumbered x)"
      "\<forall>k. k \<notin> event_key env ` me_id ` set es \<longrightarrow> D k = da_docs (view ?s1) k"
      using "3.IH"(1) [OF True rest] by blast
    have mine: "D (event_key env (me_id e)) = Some (renumbered ?e')"
      using ih(4) "3.prems"(2) by (simp add: v1 event_key_in [OF env])
    have r: "(renumbered e)\<lparr>me_status := Leased, me_consumer := Some consumer, me_lease := Some (now + seconds)\<rparr> = renumbered ?e'"
      by (simp add: renumbered_def)
    have pub: "public_event (renumbered ?e') = public_event e" by (simp add: public_event_def)
    show ?thesis
    proof (intro conjI)
      show "snd (rm_lease env now consumer seconds (Suc n) (map me_id (e # es)) s) = snd (lease_events now consumer seconds (Suc n) (e # es))"
        using ih(1) True load pub by (simp add: split_beta Let_def r)
      have step: "fst (rm_lease env now consumer seconds (Suc n) (map me_id (e # es)) s) = fst (rm_lease env now consumer seconds n (map me_id es) ?s1)"
        using True load by (simp add: split_beta Let_def r)
      show "\<exists>D. view (fst (rm_lease env now consumer seconds (Suc n) (map me_id (e # es)) s)) = (view s)\<lparr>da_docs := D\<rparr>
         \<and> (\<forall>x \<in> set (fst (lease_events now consumer seconds (Suc n) (e # es))). D (event_key env (me_id x)) = Some (renumbered x))
         \<and> (\<forall>k. k \<notin> event_key env ` me_id ` set (e # es) \<longrightarrow> D k = da_docs (view s) k)"
        unfolding step using ih(2-4) mine True by (intro exI [where x = D]) (auto simp: v1 split_beta)
    qed
  next
    case False
    have rest: "\<forall>x \<in> set es. da_docs (view s) (event_key env (me_id x)) = Some (renumbered x)" "distinct (map me_id es)"
      using "3.prems" by auto
    obtain D where ih: "snd (rm_lease env now consumer seconds (Suc n) (map me_id es) s) = snd (lease_events now consumer seconds (Suc n) es)"
      "view (fst (rm_lease env now consumer seconds (Suc n) (map me_id es) s)) = (view s)\<lparr>da_docs := D\<rparr>"
      "\<forall>x \<in> set (fst (lease_events now consumer seconds (Suc n) es)). D (event_key env (me_id x)) = Some (renumbered x)"
      "\<forall>k. k \<notin> event_key env ` me_id ` set es \<longrightarrow> D k = da_docs (view s) k"
      using "3.IH"(2) [OF False rest] by blast
    have mine: "D (event_key env (me_id e)) = Some (renumbered e)"
      using ih(4) "3.prems" by (simp add: event_key_in [OF env])
    show ?thesis
      using ih mine False load by (auto simp: split_beta intro!: exI [where x = D])
  qed
qed

lemma claim_locked_mirrors:
  assumes env: "sound_env env view" and m: "mirrors env view s mb"
  shows "snd (rm_claim_locked env now c consumer n seconds s) = snd (lease_events now consumer seconds n (conversation mb c))
    \<and> mirrors env view (fst (rm_claim_locked env now c consumer n seconds s))
        (set_conversation c (fst (lease_events now consumer seconds n (conversation mb c))) mb)"
proof -
  let ?es = "conversation mb c"
  have docs: "\<forall>e \<in> set ?es. da_docs (view s) (event_key env (me_id e)) = Some (renumbered e)" and dist: "distinct (map me_id ?es)"
    using mirrorsD(1,4) [OF m] by (auto simp: mailbox_ok_def)
  have ids: "rk_zrange (re_api env) (events_key env c) s = map me_id ?es"
    by (simp add: contractD(4) [OF env] mirrorsD(3) [OF m] comp_def)
  obtain D where d: "snd (rm_lease env now consumer seconds n (map me_id ?es) s) = snd (lease_events now consumer seconds n ?es)"
    "view (fst (rm_lease env now consumer seconds n (map me_id ?es) s)) = (view s)\<lparr>da_docs := D\<rparr>"
    "\<forall>e \<in> set (fst (lease_events now consumer seconds n ?es)). D (event_key env (me_id e)) = Some (renumbered e)"
    "\<forall>k. k \<notin> event_key env ` me_id ` set ?es \<longrightarrow> D k = da_docs (view s) k"
    using rm_lease_events [OF env docs dist] by blast
  have kept: "list_all2 kept_event ?es (fst (lease_events now consumer seconds n ?es))"
    by (rule list_all2_mono [OF conjunct1 [OF lease_events_rel]]) (auto simp: kept_event_def same_event_def)
  have same: "me_id ` set (fst (lease_events now consumer seconds n ?es)) = me_id ` set ?es"
    using kept_events(1) [OF kept] by (metis list.set_map)
  have "mirrors env view (fst (rm_lease env now consumer seconds n (map me_id ?es) s))
        (set_conversation c (fst (lease_events now consumer seconds n ?es)) mb)"
    by (rule mirrors_in_place [OF m env kept d(2)]) (use d(3,4) same event_key_in [OF env] in auto)
  then show ?thesis using d(1) by (simp add: rm_claim_locked_def ids)
qed

lemma claim_mail_cases:
  "claim_mail now mb c consumer n seconds =
     (case validate_claim consumer n seconds of Inl e \<Rightarrow> Inl e
      | Inr u \<Rightarrow> (case lease_events now consumer seconds n (conversation mb c) of (es, ds) \<Rightarrow> Inr (set_conversation c es mb, ds)))"
  by (simp add: claim_mail_def validate_claim_def)

lemma rm_claim_mirrors:
  assumes "sound_env env view" "mirrors env view s mb"
  shows "case claim_mail now mb c consumer n seconds of
      Inl e \<Rightarrow> rm_claim env now c consumer n seconds s = (s, Inl e)
    | Inr (mb', ds) \<Rightarrow> \<exists>s'. rm_claim env now c consumer n seconds s = (s', Inr ds) \<and> mirrors env view s' mb'"
  using claim_locked_mirrors [OF assms, of now c consumer n seconds]
  by (auto simp: claim_mail_cases rm_claim_def split: sum.splits prod.splits)

subsection \<open>The oldest conversation\<close>

lemma in_map_filter: "y \<in> set (List.map_filter f xs) \<longleftrightarrow> (\<exists>x \<in> set xs. f x = Some y)"
  by (induction xs) (auto split: option.splits)

lemma heads_in:
  assumes "box_tidy mb"
  shows "(q, c) \<in> set (heads now mb) \<longleftrightarrow> (\<exists>e. find (claimable now) (conversation mb c) = Some e \<and> q = me_seq e)"
proof -
  have d: "distinct (map fst (mb_events mb))" using assms by (simp add: box_tidy_def)
  have "(q, c) \<in> set (heads now mb) \<longleftrightarrow> (\<exists>es. (c, es) \<in> set (mb_events mb) \<and> (\<exists>e. find (claimable now) es = Some e \<and> q = me_seq e))"
    by (force simp: heads_def in_map_filter)
  also have "\<dots> \<longleftrightarrow> (\<exists>es. map_of (mb_events mb) c = Some es \<and> (\<exists>e. find (claimable now) es = Some e \<and> q = me_seq e))"
    using d by simp
  also have "\<dots> \<longleftrightarrow> (\<exists>e. find (claimable now) (conversation mb c) = Some e \<and> q = me_seq e)"
    by (cases "map_of (mb_events mb) c") (simp_all add: conversation_def)
  finally show ?thesis .
qed

lemma rm_heads_in:
  assumes "sound_env env view" "mirrors env view s mb"
  shows "(q, c) \<in> set (rm_heads env now s) \<longleftrightarrow> (\<exists>e. find (claimable now) (conversation mb c) = Some e \<and> q = Suc (me_seq e))"
proof -
  have f: "find (claimable now) (map renumbered (conversation mb c)) = map_option renumbered (find (claimable now) (conversation mb c))" for c
    by (rule find_map_same) simp
  have members: "set (rm_conversations env s) = set (map fst (mb_events mb))"
    by (simp add: rm_conversations_def contractD(14) [OF assms(1)] mirrorsD(7) [OF assms(2)])
  have known: "c \<in> set (map fst (mb_events mb))" if "find (claimable now) (conversation mb c) = Some e" for e
  proof (rule ccontr)
    assume "c \<notin> set (map fst (mb_events mb))"
    then have "conversation mb c = []" by (metis conversation_None map_of_eq_None_iff list.set_map)
    with that show False by simp
  qed
  have "(q, c) \<in> set (rm_heads env now s) \<longleftrightarrow> c \<in> set (rm_conversations env s) \<and> (\<exists>e. find (claimable now) (conversation mb c) = Some e \<and> q = Suc (me_seq e))"
    by (force simp: rm_heads_def in_map_filter events_mirrored [OF assms] f)
  then show ?thesis using members known by auto
qed

lemma oldest_mirrored:
  assumes env: "sound_env env view" and m: "mirrors env view s mb"
  shows "map_option snd (min_by fst (rm_heads env now s)) = map_option snd (min_by fst (heads now mb))"
proof -
  note tidy = mirrorsD(2) [OF m]
  have seqs: "(q, c) \<in> set (heads now mb) \<longleftrightarrow> (Suc q, c) \<in> set (rm_heads env now s)" for q c
    by (simp add: heads_in [OF tidy] rm_heads_in [OF env m])
  have sucs: "\<exists>p. q = Suc p" if "(q, c) \<in> set (rm_heads env now s)" for q c
    using that by (auto simp: rm_heads_in [OF env m])
  show ?thesis
  proof (cases "min_by fst (heads now mb)")
    case None
    then have "heads now mb = []" by simp
    then have "rm_heads env now s = []" using seqs sucs by (metis list.set_intros(1) neq_Nil_conv prod.collapse empty_iff list.set(1))
    then show ?thesis using None by simp
  next
    case (Some x)
    obtain q c where x: "x = (q, c)" by (cases x)
    have in1: "(q, c) \<in> set (heads now mb)" using min_by_in [OF Some] x by simp
    then have "rm_heads env now s \<noteq> []" using seqs by (metis empty_iff list.set(1))
    then obtain y where y: "min_by fst (rm_heads env now s) = Some y" by (metis min_by_None not_None_eq)
    obtain p d where p: "y = (Suc p, d)" using sucs min_by_in [OF y] by (metis prod.collapse)
    have in2: "(p, d) \<in> set (heads now mb)" using min_by_in [OF y] p seqs by simp
    have "q \<le> p" using min_by_le [OF Some in2] x by simp
    moreover have "p \<le> q" using min_by_le [OF y, of "(Suc q, c)"] in1 seqs p by simp
    ultimately have "p = q" by simp
    with in1 in2 obtain e f where e: "find (claimable now) (conversation mb c) = Some e" "me_seq e = q"
        "find (claimable now) (conversation mb d) = Some f" "me_seq f = q"
      by (auto simp: heads_in [OF tidy])
    then have "c = d" using tidy find_Some_in unfolding box_tidy_def by metis
    then show ?thesis using Some x y p by simp
  qed
qed

lemma rm_claim_any_mirrors:
  assumes env: "sound_env env view" and m: "mirrors env view s mb"
  shows "case claim_any_mail now mb consumer n seconds of
      Inl e \<Rightarrow> rm_claim_any env now consumer n seconds s = (s, Inl e)
    | Inr (mb', ds) \<Rightarrow> (\<exists>s'. rm_claim_any env now consumer n seconds s = (s', Inr ds) \<and> mirrors env view s' mb')
        \<or> mb' = mb \<and> ds = [] \<and> (\<exists>e. rm_claim_any env now consumer n seconds s = (s, Inl e))"
proof (cases "min_by fst (heads now mb)")
  case None
  then have "min_by fst (rm_heads env now s) = None" using oldest_mirrored [OF env m, of now] by simp
  then show ?thesis using None m by (auto simp: claim_any_mail_def rm_claim_any_def split: sum.splits)
next
  case (Some x)
  obtain q c where x: "x = (q, c)" by (cases x)
  obtain p where "min_by fst (rm_heads env now s) = Some (p, c)"
    using oldest_mirrored [OF env m, of now] Some x by (cases "min_by fst (rm_heads env now s)") auto
  then show ?thesis
    using Some x claim_locked_mirrors [OF env m, of now c consumer n seconds]
    by (auto simp: claim_any_mail_def rm_claim_any_def claim_mail_cases split: sum.splits prod.splits)
qed

subsection \<open>Acknowledge and release\<close>

lemma settle_events_returns:
  "snd (settle_events sel check f es) = Inr u \<longleftrightarrow> (\<forall>e \<in> set es. sel e \<longrightarrow> check e = Inr ())"
  by (induction es) (auto simp: split_beta split: sum.splits)

lemma settle_events_map:
  "(\<forall>e \<in> set es. sel e \<longrightarrow> check e = Inr ()) \<Longrightarrow> settle_events sel check f es = (map (\<lambda>e. if sel e then f e else e) es, Inr ())"
  by (induction es) (auto simp: split_beta)

lemma rm_settle_writes:
  assumes env: "sound_env env view" and f: "\<And>e. me_id (f e) = me_id e"
    and "\<forall>e \<in> set us. check e = Inr ()" and "distinct (map me_id us)"
  shows "\<exists>s' D. rm_settle env check f us s = (s', Inr ()) \<and> view s' = (view s)\<lparr>da_docs := D\<rparr>
    \<and> (\<forall>e \<in> set us. D (event_key env (me_id e)) = Some (f e))
    \<and> (\<forall>k. k \<notin> event_key env ` me_id ` set us \<longrightarrow> D k = da_docs (view s) k)"
  using assms(3,4)
proof (induction us arbitrary: s)
  case Nil
  then show ?case by (auto intro!: exI [where x = "da_docs (view s)"])
next
  case (Cons e us)
  let ?s1 = "rk_set (re_api env) (event_key env (me_id e)) (f e) s"
  have v1: "view ?s1 = (view s)\<lparr>da_docs := (da_docs (view s))(event_key env (me_id e) \<mapsto> f e)\<rparr>"
    by (rule contractD(2) [OF env])
  obtain s' D where ih: "rm_settle env check f us ?s1 = (s', Inr ())" "view s' = (view ?s1)\<lparr>da_docs := D\<rparr>"
    "\<forall>x \<in> set us. D (event_key env (me_id x)) = Some (f x)"
    "\<forall>k. k \<notin> event_key env ` me_id ` set us \<longrightarrow> D k = da_docs (view ?s1) k"
    using Cons.IH [of ?s1] Cons.prems by auto
  have "D (event_key env (me_id e)) = Some (f e)"
    using ih(4) Cons.prems(2) by (simp add: v1 event_key_in [OF env])
  then show ?case
    using ih Cons.prems(1) by (intro exI [where x = s'] exI [where x = D]) (auto simp: v1)
qed

lemma settle_mirrors:
  assumes env: "sound_env env view" and m: "mirrors env view s mb"
    and f: "\<And>e. same_event e (f e)" "\<And>e. f (renumbered e) = renumbered (f e)"
    and us: "set us = renumbered ` {e \<in> set (conversation mb c). sel e}" "distinct (map me_id us)"
    and check: "\<forall>e \<in> set (conversation mb c). sel e \<longrightarrow> check e = Inr ()" "\<And>e. check (renumbered e) = check e"
  shows "snd (rm_settle env check f us s) = Inr ()
    \<and> mirrors env view (fst (rm_settle env check f us s)) (set_conversation c (fst (settle_events sel check f (conversation mb c))) mb)"
proof -
  let ?es = "map (\<lambda>e. if sel e then f e else e) (conversation mb c)"
  have ok: "\<forall>e \<in> set us. check e = Inr ()" using us(1) check by auto
  have fid: "me_id (f e) = me_id e" for e using f(1) [of e] by (simp add: same_event_def)
  obtain s' D where d: "rm_settle env check f us s = (s', Inr ())" "view s' = (view s)\<lparr>da_docs := D\<rparr>"
    "\<forall>e \<in> set us. D (event_key env (me_id e)) = Some (f e)"
    "\<forall>k. k \<notin> event_key env ` me_id ` set us \<longrightarrow> D k = da_docs (view s) k"
    using rm_settle_writes [where f = f, OF env fid ok us(2)] by blast
  have dist: "distinct (map me_id (conversation mb c))" using mirrorsD(1) [OF m] by (simp add: mailbox_ok_def)
  have kept: "list_all2 kept_event (conversation mb c) ?es"
    using f(1) by (simp add: list_all2_conv_all_nth kept_event_def)
  have ids: "me_id ` set ?es = me_id ` set (conversation mb c)" using kept_events(1) [OF kept] by (metis list.set_map)
  have uids: "me_id ` set us = me_id ` {e \<in> set (conversation mb c). sel e}" by (auto simp: us(1) image_image)
  have new: "D (event_key env (me_id x)) = Some (renumbered x)" if x: "x \<in> set ?es" for x
  proof -
    obtain e where e: "e \<in> set (conversation mb c)" "x = (if sel e then f e else e)" using x by auto
    show ?thesis
    proof (cases "sel e")
      case True
      then have "renumbered e \<in> set us" using e us(1) by auto
      then show ?thesis using d(3) e True f(2) fid by fastforce
    next
      case False
      have "me_id e \<notin> me_id ` set us"
        using e(1) False dist unfolding uids by (auto simp: distinct_map inj_on_def)
      then have "D (event_key env (me_id e)) = da_docs (view s) (event_key env (me_id e))"
        using d(4) by (simp add: event_key_in [OF env])
      then show ?thesis using mirrorsD(4) [OF m e(1)] e(2) False by simp
    qed
  qed
  have old: "D (event_key env i) = da_docs (view s) (event_key env i)" if "i \<notin> me_id ` set ?es" for i
  proof -
    have "i \<notin> me_id ` set us" using that unfolding ids uids by blast
    then have "event_key env i \<notin> event_key env ` me_id ` set us" by (simp add: event_key_in [OF env])
    then show ?thesis using d(4) by blast
  qed
  have "mirrors env view s' (set_conversation c ?es mb)"
    by (rule mirrors_in_place [OF m env kept d(2) new old])
  then show ?thesis using d(1) settle_events_map [OF check(1)] by simp
qed

lemma loaded:
  assumes env: "sound_env env view" and m: "mirrors env view s mb"
  shows "rm_load env s i = Some d \<longleftrightarrow> (\<exists>c. \<exists>e \<in> set (conversation mb c). me_id e = i \<and> d = renumbered e)"
proof
  assume l: "rm_load env s i = Some d"
  then have "da_docs (view s) (event_key env i) = Some d" by (simp add: rm_load_def contractD(1) [OF env])
  from mirrorsD(5) [OF m this] obtain c e where e: "e \<in> set (conversation mb c)" "me_id e = i" by blast
  with l load_mirrored [OF env m e(1)] show "\<exists>c. \<exists>e \<in> set (conversation mb c). me_id e = i \<and> d = renumbered e" by auto
qed (use load_mirrored [OF env m] in auto)

lemma conversation_of_event:
  assumes "mirrors env view s mb" "e \<in> set (conversation mb k)"
  shows "of_conversation c e \<longleftrightarrow> c = k"
proof -
  have "of_conversation k e" using mirrorsD(2) [OF assms(1)] assms(2) unfolding box_tidy_def by blast
  then show ?thesis by (auto simp: of_conversation_def)
qed

lemma selection_iff:
  assumes "distinct (map me_id (conversation mb c))"
  shows "selection_ok mb c ids \<longleftrightarrow> set ids \<subseteq> me_id ` set (conversation mb c)"
proof -
  let ?xs = "map me_id (filter (\<lambda>e. me_id e \<in> set ids) (conversation mb c))"
  have d: "distinct ?xs" using assms by (rule distinct_map_filter)
  have s: "set ?xs = me_id ` set (conversation mb c) \<inter> set ids" by auto
  have "selection_ok mb c ids \<longleftrightarrow> card (set ?xs) = card (set ids)"
    using distinct_card [OF d] by (simp add: selection_ok_def length_remdups_card_conv)
  also have "\<dots> \<longleftrightarrow> set ?xs = set ids"
    using card_subset_eq [of "set ids" "set ?xs"] s by auto
  also have "\<dots> \<longleftrightarrow> set ids \<subseteq> me_id ` set (conversation mb c)" unfolding s by blast
  finally show ?thesis .
qed

text \<open>What the loop over the set of identifiers reads: each event once.\<close>

lemma loaded_list:
  assumes env: "sound_env env view" and m: "mirrors env view s mb"
  shows "set (List.map_filter (rm_load env s) (re_order env ids)) = renumbered ` {e. (\<exists>k. e \<in> set (conversation mb k)) \<and> me_id e \<in> set ids}"
    and "distinct (map me_id (List.map_filter (rm_load env s) (re_order env ids)))"
proof -
  show "set (List.map_filter (rm_load env s) (re_order env ids)) = renumbered ` {e. (\<exists>k. e \<in> set (conversation mb k)) \<and> me_id e \<in> set ids}"
  proof (rule set_eqI)
    fix y
    have "y \<in> set (List.map_filter (rm_load env s) (re_order env ids)) \<longleftrightarrow> (\<exists>i \<in> set ids. \<exists>k. \<exists>e \<in> set (conversation mb k). me_id e = i \<and> y = renumbered e)"
      by (simp add: in_map_filter contractD(18) [OF env] loaded [OF env m])
    then show "y \<in> set (List.map_filter (rm_load env s) (re_order env ids)) \<longleftrightarrow> y \<in> renumbered ` {e. (\<exists>k. e \<in> set (conversation mb k)) \<and> me_id e \<in> set ids}"
      by blast
  qed
  have "rm_load env s i = Some d \<Longrightarrow> me_id d = i" for i d by (auto simp: loaded [OF env m])
  then have "map me_id (List.map_filter (rm_load env s) xs) = filter (\<lambda>i. rm_load env s i \<noteq> None) xs" for xs
    by (induction xs) (auto split: option.splits)
  then show "distinct (map me_id (List.map_filter (rm_load env s) (re_order env ids)))"
    by (simp add: contractD(19) [OF env])
qed

lemma rm_selected_mirrored:
  assumes env: "sound_env env view" and m: "mirrors env view s mb"
  shows "if selection_ok mb c ids
    then \<exists>us. rm_selected env s c ids = Inr us \<and> set us = renumbered ` {e \<in> set (conversation mb c). me_id e \<in> set ids} \<and> distinct (map me_id us)
    else rm_selected env s c ids = Inl (KeyError ''one or more mailbox events were not found'')"
proof -
  let ?us = "List.map_filter (rm_load env s) (re_order env ids)"
  have dist: "distinct (map me_id (conversation mb c))" using mirrorsD(1) [OF m] by (simp add: mailbox_ok_def)
  have us: "List.map_filter id (map (rm_load env s) xs) = List.map_filter (rm_load env s) xs" for xs
    by (induction xs) (auto split: option.splits)
  have bad: "(list_ex (\<lambda>e. e = None) (map (rm_load env s) (re_order env ids)) \<or> list_ex (\<lambda>e. \<not> of_conversation c e) ?us)
      \<longleftrightarrow> \<not> selection_ok mb c ids"
  proof -
    have "(\<exists>d. rm_load env s i = Some d \<and> of_conversation c d) \<longleftrightarrow> (\<exists>k. \<exists>e \<in> set (conversation mb k). me_id e = i \<and> of_conversation c e)" for i
      unfolding loaded [OF env m] by (metis renumbered_simps(11))
    then have "i \<in> me_id ` set (conversation mb c) \<longleftrightarrow> (\<exists>d. rm_load env s i = Some d \<and> of_conversation c d)" for i
      using conversation_of_event [OF m] by (auto simp: image_iff)
    then have "selection_ok mb c ids \<longleftrightarrow> (\<forall>i \<in> set ids. \<exists>d. rm_load env s i = Some d \<and> of_conversation c d)"
      unfolding selection_iff [OF dist] by blast
    moreover have "list_ex (\<lambda>e. e = None) (map (rm_load env s) (re_order env ids)) \<longleftrightarrow> (\<exists>i \<in> set ids. rm_load env s i = None)"
      by (simp add: list_ex_iff contractD(18) [OF env]) (metis imageE imageI)
    moreover have "list_ex (\<lambda>e. \<not> of_conversation c e) ?us \<longleftrightarrow> (\<exists>i \<in> set ids. \<exists>d. rm_load env s i = Some d \<and> \<not> of_conversation c d)"
      by (simp add: list_ex_iff Bex_def in_map_filter contractD(18) [OF env]) blast
    moreover have "(\<nexists>d. rm_load env s i = Some d \<and> of_conversation c d)
        \<longleftrightarrow> rm_load env s i = None \<or> (\<exists>d. rm_load env s i = Some d \<and> \<not> of_conversation c d)" for i
      by (cases "rm_load env s i") auto
    ultimately show ?thesis by blast
  qed
  show ?thesis
  proof (cases "selection_ok mb c ids")
    case True
    then have r: "rm_selected env s c ids = Inr ?us" using bad by (simp add: rm_selected_def Let_def us)
    have "\<forall>d \<in> set ?us. of_conversation c d" using True bad by (auto simp: list_ex_iff)
    then have "set ?us = renumbered ` {e \<in> set (conversation mb c). me_id e \<in> set ids}"
      using conversation_of_event [OF m] unfolding loaded_list(1) [OF env m] by auto
    then show ?thesis using True r loaded_list(2) [OF env m] by simp
  next
    case False
    then show ?thesis using bad by (simp add: rm_selected_def Let_def us)
  qed
qed

lemma settled_same [simp]: "same_event e (acknowledged now e)" "same_event e (released e)"
  "acknowledged now (renumbered e) = renumbered (acknowledged now e)" "released (renumbered e) = renumbered (released e)"
  by (simp_all add: same_event_def acknowledged_def released_def renumbered_def)

text \<open>A call that fails no lease check halfway.\<close>

definition clean_result :: "unit res \<Rightarrow> bool" where
  "clean_result r \<longleftrightarrow> r = Inr () \<or> r = Inl (KeyError ''one or more mailbox events were not found'')"

lemma acknowledge_mail_alt:
  "acknowledge_mail now mb c consumer ids force =
     (if \<not> force \<and> \<not> selection_ok mb c ids then (mb, Inl (KeyError ''one or more mailbox events were not found''))
      else (set_conversation c (fst (settle_events (\<lambda>e. me_id e \<in> set ids \<and> (force \<longrightarrow> me_status e \<noteq> Acknowledged))
               (\<lambda>e. if force then Inr () else require_lease now consumer e) (acknowledged now) (conversation mb c))) mb,
            snd (settle_events (\<lambda>e. me_id e \<in> set ids \<and> (force \<longrightarrow> me_status e \<noteq> Acknowledged))
               (\<lambda>e. if force then Inr () else require_lease now consumer e) (acknowledged now) (conversation mb c))))"
  by (simp add: acknowledge_mail_def split_beta Let_def acknowledged_def [abs_def])

lemma require_lease_not_key: "require_lease now u e \<noteq> Inl (KeyError x)"
  by (simp add: require_lease_def)

lemma settle_events_error:
  "snd (settle_events sel check f es) = Inl err \<Longrightarrow> \<exists>e \<in> set es. sel e \<and> check e = Inl err"
  by (induction es) (auto simp: split_beta split: if_splits sum.splits)

lemma clean_settle:
  assumes "clean_result (snd (settle_events sel check f es))" "\<And>e x. check e \<noteq> Inl (KeyError x)"
  shows "\<forall>e \<in> set es. sel e \<longrightarrow> check e = Inr ()"
  using assms settle_events_error [of sel check f es] settle_events_returns [of sel check f es "()"]
  by (auto simp: clean_result_def)

lemma rm_acknowledge_mirrors:
  assumes env: "sound_env env view" and m: "mirrors env view s mb"
    and clean: "clean_result (snd (acknowledge_mail now mb c consumer ids force))"
  shows "snd (rm_acknowledge env now c consumer ids force s) = snd (acknowledge_mail now mb c consumer ids force)
    \<and> mirrors env view (fst (rm_acknowledge env now c consumer ids force s)) (fst (acknowledge_mail now mb c consumer ids force))"
proof (cases force)
  case True
  let ?sel = "\<lambda>e. me_id e \<in> set ids \<and> me_status e \<noteq> Acknowledged"
  let ?us = "filter (\<lambda>e. of_conversation c e \<and> me_status e \<noteq> Acknowledged) (List.map_filter (rm_load env s) (re_order env ids))"
  have "set ?us = renumbered ` {e \<in> set (conversation mb c). ?sel e}"
    using conversation_of_event [OF m] by (auto simp: loaded_list(1) [OF env m])
  moreover have "distinct (map me_id ?us)" by (rule distinct_map_filter [OF loaded_list(2) [OF env m]])
  ultimately have "snd (rm_settle env (\<lambda>e. Inr ()) (acknowledged now) ?us s) = Inr ()
    \<and> mirrors env view (fst (rm_settle env (\<lambda>e. Inr ()) (acknowledged now) ?us s))
        (set_conversation c (fst (settle_events ?sel (\<lambda>e. Inr ()) (acknowledged now) (conversation mb c))) mb)"
    by (intro settle_mirrors [OF env m]) auto
  moreover have "snd (settle_events ?sel (\<lambda>e. Inr ()) (acknowledged now) (conversation mb c)) = Inr ()"
    by (simp add: settle_events_returns)
  ultimately show ?thesis using True by (simp add: acknowledge_mail_alt rm_acknowledge_def)
next
  case False
  show ?thesis
  proof (cases "selection_ok mb c ids")
    case True
    then obtain us where us: "rm_selected env s c ids = Inr us" "set us = renumbered ` {e \<in> set (conversation mb c). me_id e \<in> set ids}" "distinct (map me_id us)"
      using rm_selected_mirrored [OF env m, of c ids] by auto
    have ok: "\<forall>e \<in> set (conversation mb c). me_id e \<in> set ids \<longrightarrow> require_lease now consumer e = Inr ()"
      by (rule clean_settle [where f = "acknowledged now"]) (use clean True False in \<open>simp_all add: acknowledge_mail_alt require_lease_not_key\<close>)
    then have r: "snd (settle_events (\<lambda>e. me_id e \<in> set ids) (require_lease now consumer) (acknowledged now) (conversation mb c)) = Inr ()"
      by (simp add: settle_events_returns)
    have "snd (rm_settle env (require_lease now consumer) (acknowledged now) us s) = Inr ()
    \<and> mirrors env view (fst (rm_settle env (require_lease now consumer) (acknowledged now) us s))
        (set_conversation c (fst (settle_events (\<lambda>e. me_id e \<in> set ids) (require_lease now consumer) (acknowledged now) (conversation mb c))) mb)"
      by (rule settle_mirrors [OF env m _ _ us(2,3) ok]) auto
    then show ?thesis using True False us(1) r by (simp add: acknowledge_mail_alt rm_acknowledge_def)
  next
    case none: False
    then show ?thesis using False rm_selected_mirrored [OF env m, of c ids] m by (simp add: acknowledge_mail_alt rm_acknowledge_def)
  qed
qed

lemma release_mail_alt:
  "release_mail now mb c consumer ids =
     (if \<not> selection_ok mb c ids then (mb, Inl (KeyError ''one or more mailbox events were not found''))
      else (set_conversation c (fst (settle_events (\<lambda>e. me_id e \<in> set ids) (require_lease now consumer) released (conversation mb c))) mb,
            snd (settle_events (\<lambda>e. me_id e \<in> set ids) (require_lease now consumer) released (conversation mb c))))"
  by (simp add: release_mail_def split_beta Let_def released_def [abs_def])

lemma rm_release_mirrors:
  assumes env: "sound_env env view" and m: "mirrors env view s mb"
    and clean: "clean_result (snd (release_mail now mb c consumer ids))"
  shows "snd (rm_release env now c consumer ids s) = snd (release_mail now mb c consumer ids)
    \<and> mirrors env view (fst (rm_release env now c consumer ids s)) (fst (release_mail now mb c consumer ids))"
proof (cases "selection_ok mb c ids")
  case True
  then obtain us where us: "rm_selected env s c ids = Inr us" "set us = renumbered ` {e \<in> set (conversation mb c). me_id e \<in> set ids}" "distinct (map me_id us)"
    using rm_selected_mirrored [OF env m, of c ids] by auto
  have ok: "\<forall>e \<in> set (conversation mb c). me_id e \<in> set ids \<longrightarrow> require_lease now consumer e = Inr ()"
    by (rule clean_settle [where f = released]) (use clean True in \<open>simp_all add: release_mail_alt require_lease_not_key\<close>)
  then have r: "snd (settle_events (\<lambda>e. me_id e \<in> set ids) (require_lease now consumer) released (conversation mb c)) = Inr ()"
    by (simp add: settle_events_returns)
  have "snd (rm_settle env (require_lease now consumer) released us s) = Inr ()
    \<and> mirrors env view (fst (rm_settle env (require_lease now consumer) released us s))
        (set_conversation c (fst (settle_events (\<lambda>e. me_id e \<in> set ids) (require_lease now consumer) released (conversation mb c))) mb)"
    by (rule settle_mirrors [OF env m _ _ us(2,3) ok]) auto
  then show ?thesis using True us(1) r by (simp add: release_mail_alt rm_release_def)
next
  case False
  then show ?thesis using rm_selected_mirrored [OF env m, of c ids] m by (simp add: release_mail_alt rm_release_def)
qed

subsection \<open>Append\<close>

lemma appended_renumbered: "appended now (Suc n) i c event = renumbered (appended now n i c event)"
  by (simp add: appended_def renumbered_def)

lemma appended_conversation: "of_conversation c (appended now n i c event)"
  by (simp add: of_conversation_def appended_def dict_get_def dict_default_def update_conv' split: option.splits)

lemma tidy_append:
  assumes ok: "mailbox_ok mb" and tidy: "box_tidy mb" and new: "map_of (mb_ids mb) i = None"
    and mb': "mb' = \<lparr>mb_events = AList.update c (conversation mb c @ [appended now (mb_next mb) i c event]) (mb_events mb),
                  mb_ids = AList.update i (c, now) (mb_ids mb), mb_next = Suc (mb_next mb)\<rparr>"
  shows "box_tidy mb'"
proof -
  let ?e = "appended now (mb_next mb) i c event"
  have conv: "conversation mb' k = (if k = c then conversation mb c @ [?e] else conversation mb k)" for k
    by (auto simp: mb' conversation_def)
  note t = tidy [unfolded box_tidy_def]
  have lt: "me_seq e < mb_next mb" if "e \<in> set (conversation mb k)" for e k
    using mailbox_okD [OF ok that] by (simp add: event_ok_def)
  have keys: "set (map fst (mb_events mb')) = insert c (set (map fst (mb_events mb)))"
    by (simp add: mb' dom_update)
  show ?thesis
    unfolding box_tidy_def
  proof (intro conjI ballI allI impI)
    show "distinct (map fst (mb_events mb'))" using t by (simp add: mb' distinct_update)
    show "distinct (map fst (mb_ids mb'))" using t by (simp add: mb' distinct_update)
    show "conversation mb' k \<noteq> []" if "k \<in> set (map fst (mb_events mb'))" for k
      using that t unfolding keys conv by auto
    show "sorted_wrt (<) (map me_seq (conversation mb' k))" for k
      using t lt by (auto simp: conv sorted_wrt_append appended_ok)
    show "k = d" if "e \<in> set (conversation mb' k)" "f \<in> set (conversation mb' d)" "me_seq e = me_seq f" for e f k d
    proof -
      have bound: "x \<in> set (conversation mb k) \<or> k = c \<and> x = ?e" if "x \<in> set (conversation mb' k)" for x k
        using that by (auto simp: conv split: if_splits)
      from bound [OF that(1)] bound [OF that(2)] show ?thesis
      proof (elim disjE conjE)
        assume "e \<in> set (conversation mb k)" "f \<in> set (conversation mb d)"
        then show ?thesis using t that(3) by blast
      qed (use that(3) lt in \<open>fastforce simp: appended_ok\<close>)+
    qed
    show "of_conversation k e" if "e \<in> set (conversation mb' k)" for e k
      using that t appended_conversation by (auto simp: conv split: if_splits)
  qed
qed

lemma rm_append_mirrors:
  assumes env: "sound_env env view" and m: "mirrors env view s mb"
  shows "case append_mail_event now fresh mb c event of
      Inl e \<Rightarrow> rm_append env now fresh c event s = (s, Inl e)
    | Inr (mb', i) \<Rightarrow> \<exists>s'. rm_append env now fresh c event s = (s', Inr i) \<and> mirrors env view s' mb'"
proof (cases "c = []")
  case True
  then show ?thesis by (simp add: append_mail_event_def rm_append_def)
next
  case c: False
  note d = mirrorsD [OF m]
  show ?thesis
  proof (cases "chosen_id fresh event")
    case (Inl e)
    then show ?thesis using c by (simp add: append_mail_event_def rm_append_def)
  next
    case i: (Inr i)
    have h: "rk_hget (re_api env) (dedup_key env) i s = map_of (mb_ids mb) i" by (simp add: contractD(7) [OF env] d(6))
    show ?thesis
    proof (cases "map_of (mb_ids mb) i")
      case (Some v)
      then show ?thesis using c i h m by (cases v) (simp add: append_mail_event_def rm_append_def)
    next
      case None
      let ?e = "appended now (mb_next mb) i c event"
      let ?mb = "\<lparr>mb_events = AList.update c (conversation mb c @ [?e]) (mb_events mb),
                  mb_ids = AList.update i (c, now) (mb_ids mb), mb_next = Suc (mb_next mb)\<rparr>"
      obtain s1 n where s1: "rk_incr (re_api env) (sequence_key env) s = (s1, n)" by fastforce
      have n: "n = Suc (mb_next mb)" and v1: "view s1 = (view s)\<lparr>da_counters := (da_counters (view s))(sequence_key env := Suc (mb_next mb))\<rparr>"
        using contractD(16,17) [OF env, of "sequence_key env" s] s1 d(8) by simp_all
      let ?s2 = "rk_set (re_api env) (event_key env i) (renumbered ?e) s1"
      let ?s3 = "rk_zadd (re_api env) (events_key env c) i (Suc (mb_next mb)) ?s2"
      let ?s4 = "rk_hset (re_api env) (dedup_key env) i (c, now) ?s3"
      let ?s5 = "rk_sadd (re_api env) (conversations_key env) c ?s4"
      have known: "me_id e \<noteq> i \<and> me_seq e < mb_next mb" if "e \<in> set (conversation mb k)" for e k
        using mailbox_okD [OF d(1) that] None by (auto simp: event_ok_def)
      have v2: "view ?s2 = (view s1)\<lparr>da_docs := (da_docs (view s1))(event_key env i \<mapsto> renumbered ?e)\<rparr>" by (rule contractD(2) [OF env])
      have zs: "da_zsets (view ?s2) (events_key env c) = map (\<lambda>e. (me_id e, Suc (me_seq e))) (conversation mb c)" by (simp add: v2 v1 d(3))
      have v3: "view ?s3 = (view ?s2)\<lparr>da_zsets := (da_zsets (view ?s2))(events_key env c := map (\<lambda>e. (me_id e, Suc (me_seq e))) (conversation mb c @ [?e]))\<rparr>"
        by (subst contractD(5) [OF env]) (use known in \<open>auto simp: zs appended_ok\<close>)
      have r: "rm_append env now fresh c event s = (?s5, Inr i)"
        using c i h None s1 n by (simp add: rm_append_def appended_renumbered Let_def)
      have a: "append_mail_event now fresh mb c event = Inr (?mb, i)"
        using c i None by (simp add: append_mail_event_def)
      have conv: "conversation ?mb k = (if k = c then conversation mb c @ [?e] else conversation mb k)" for k
        by (auto simp: conversation_def)
      have docs: "da_docs (view ?s5) = (da_docs (view s))(event_key env i \<mapsto> renumbered ?e)"
        and zsets: "da_zsets (view ?s5) = (da_zsets (view s))(events_key env c := map (\<lambda>e. (me_id e, Suc (me_seq e))) (conversation mb c @ [?e]))"
        and hashes: "da_hashes (view ?s5) (dedup_key env) = (da_hashes (view s) (dedup_key env))(i \<mapsto> (c, now))"
        and sets: "da_sets (view ?s5) (conversations_key env) = insert c (da_sets (view s) (conversations_key env))"
        and counter: "da_counters (view ?s5) (sequence_key env) = Suc (mb_next mb)"
        by (simp_all add: contractD(12) [OF env] contractD(8) [OF env] v3 v2 v1)
      have "mirrors env view ?s5 ?mb"
        unfolding mirrors_def
      proof (intro conjI allI ballI impI)
        show "mailbox_ok ?mb" by (rule append_ok [OF a d(1)])
        show "box_tidy ?mb" by (rule tidy_append [OF d(1,2) None refl])
        show "da_zsets (view ?s5) (events_key env k) = map (\<lambda>e. (me_id e, Suc (me_seq e))) (conversation ?mb k)" for k
          unfolding zsets conv using d(3) by (simp add: events_key_inj [OF env])
        show "da_docs (view ?s5) (event_key env (me_id e)) = Some (renumbered e)" if "e \<in> set (conversation ?mb k)" for k e
          using that known d(4) unfolding docs conv by (auto simp: event_key_inj [OF env] appended_ok split: if_splits)
        show "\<exists>k. \<exists>e \<in> set (conversation ?mb k). me_id e = j" if "da_docs (view ?s5) (event_key env j) \<noteq> None" for j
        proof (cases "j = i")
          case True
          then show ?thesis unfolding conv by (intro exI [where x = c]) (simp add: appended_ok)
        next
          case False
          then have "da_docs (view s) (event_key env j) \<noteq> None"
            using that unfolding docs by (simp add: event_key_inj [OF env])
          then obtain x where "da_docs (view s) (event_key env j) = Some x" by blast
          from d(5) [OF this] obtain k e where "e \<in> set (conversation mb k)" "me_id e = j" by blast
          then show ?thesis unfolding conv by (intro exI [where x = k]) auto
        qed
        show "da_hashes (view ?s5) (dedup_key env) j = map_of (mb_ids ?mb) j" for j
          unfolding hashes using d(6) by (simp add: update_conv')
        show "da_sets (view ?s5) (conversations_key env) = set (map fst (mb_events ?mb))"
          unfolding sets d(7) by (simp add: dom_update)
        show "da_counters (view ?s5) (sequence_key env) = mb_next ?mb" unfolding counter by simp
      qed
      then show ?thesis using a r by simp
    qed
  qed
qed

subsection \<open>Purges\<close>

lemma set_insert_text: "set (insert_text t ts) = insert t (set ts)"
  by (induction ts) auto

lemma distinct_insert_text: "t \<notin> set ts \<Longrightarrow> distinct ts \<Longrightarrow> distinct (insert_text t ts)"
  by (induction ts) (auto simp: set_insert_text)

lemma set_sort_texts [simp]: "set (sort_texts ts) = set ts"
  by (induction ts) (simp_all add: sort_texts_def set_insert_text)

lemma distinct_sort_texts: "distinct ts \<Longrightarrow> distinct (sort_texts ts)"
  by (induction ts) (use set_sort_texts in \<open>auto simp: sort_texts_def intro!: distinct_insert_text\<close>)

lemma sort_key_Suc: "sort_key (\<lambda>x. Suc (f x)) xs = sort_key f xs"
proof -
  have "insort_key (\<lambda>x. Suc (f x)) a ys = insort_key f a ys" for a ys by (induction ys) auto
  then show ?thesis by (induction xs) simp_all
qed

lemma sort_key_renumbered: "sort_key me_seq (map renumbered es) = map renumbered (sort_key me_seq es)"
proof -
  have "insort_key me_seq (renumbered a) (map renumbered ys) = map renumbered (insort_key me_seq a ys)" for a ys
    by (induction ys) auto
  then show ?thesis by (induction es) simp_all
qed

lemma sort_key_unique:
  assumes "distinct xs" "distinct ys" "set xs = set ys" "inj_on f (set xs)"
  shows "sort_key f xs = sort_key f ys"
proof (rule map_sorted_distinct_set_unique)
  show "inj_on f (set (sort_key f xs) \<union> set (sort_key f ys))" using assms by simp
  have "distinct (map f (sort_key f zs))" if "distinct zs" "inj_on f (set zs)" for zs
    using that by (simp add: distinct_map)
  then show "distinct (map f (sort_key f xs))" "distinct (map f (sort_key f ys))" using assms by auto
qed (use assms in simp_all)

lemma tidy_seq_inj:
  assumes "mirrors env view s mb" "e \<in> set (conversation mb c)" "f \<in> set (conversation mb d)" "me_seq e = me_seq f"
  shows "e = f"
proof -
  note t = mirrorsD(2) [OF assms(1), unfolded box_tidy_def]
  have "c = d" using t assms(2-4) by blast
  moreover have "distinct (map me_seq (conversation mb c))" using t strict_sorted_iff by blast
  ultimately show ?thesis using assms(2-4) by (auto simp: distinct_map dest: inj_onD)
qed

lemma distinct_events:
  assumes m: "mirrors env view s mb" and "distinct cs"
  shows "distinct (concat (map (conversation mb) cs))"
  using assms(2)
proof (induction cs)
  case (Cons c cs)
  have "distinct (conversation mb c)" using mirrorsD(1) [OF m] by (simp add: mailbox_ok_def distinct_map)
  moreover have "e \<notin> set (conversation mb k)" if "e \<in> set (conversation mb c)" "k \<in> set cs" for e k
    using that Cons.prems conversation_of_event [OF m] by (metis distinct.simps(2))
  ultimately show ?case using Cons by auto
qed simp

lemma candidates_mirrored:
  assumes env: "sound_env env view" and m: "mirrors env view s mb"
    and cs: "distinct cs" "distinct ds" "set cs = set ds"
  shows "rm_candidates env s cs older = map renumbered (sort_key me_seq (filter (acked_by older) (concat (map (conversation mb) ds))))"
proof -
  have "concat (map (rm_events env s) cs) = map renumbered (concat (map (conversation mb) cs))"
    by (induction cs) (simp_all add: events_mirrored [OF env m])
  then have "rm_candidates env s cs older = sort_key me_seq (map renumbered (filter (acked_by older) (concat (map (conversation mb) cs))))"
    by (simp add: rm_candidates_def filter_map comp_def)
  also have "\<dots> = map renumbered (sort_key me_seq (filter (acked_by older) (concat (map (conversation mb) cs))))"
    by (rule sort_key_renumbered)
  also have "sort_key me_seq (filter (acked_by older) (concat (map (conversation mb) cs)))
      = sort_key me_seq (filter (acked_by older) (concat (map (conversation mb) ds)))"
  proof (rule sort_key_unique)
    show "inj_on me_seq (set (filter (acked_by older) (concat (map (conversation mb) cs))))"
      by (rule inj_onI) (use tidy_seq_inj [OF m] in auto)
  qed (use distinct_events [OF m] cs in \<open>simp_all add: distinct_filter\<close>)
  finally show ?thesis .
qed

definition home :: "mail_event \<Rightarrow> string" where
  "home e = str_of (dict_get (me_body e) ''conversation_id'' JNull)"

lemma home_eq: "of_conversation c e \<Longrightarrow> home e = c"
  by (simp add: of_conversation_def home_def str_of_def)

lemma remove_all_view:
  assumes env: "sound_env env view"
  shows "view (fold (rm_remove env) us s) = (view s)\<lparr>
      da_docs := (\<lambda>k. if k \<in> event_key env ` me_id ` set us then None else da_docs (view s) k),
      da_zsets := (\<lambda>k. filter (\<lambda>x. \<forall>u \<in> set us. k = events_key env (home u) \<longrightarrow> fst x \<noteq> me_id u) (da_zsets (view s) k))\<rparr>"
proof (induction us arbitrary: s)
  case Nil
  then show ?case by simp
next
  case (Cons u us)
  have "view (rm_remove env u s) = (view s)\<lparr>da_docs := (da_docs (view s))(event_key env (me_id u) := None),
      da_zsets := (da_zsets (view s))(events_key env (home u) := filter (\<lambda>x. fst x \<noteq> me_id u) (da_zsets (view s) (events_key env (home u))))\<rparr>"
    by (simp add: rm_remove_def home_def contractD(3,6) [OF env])
  then show ?case
    using Cons [of "rm_remove env u s"] by (auto simp: fun_eq_iff intro!: filter_cong)
qed

lemma drop_empty_view:
  assumes env: "sound_env env view"
  shows "view (fold (rm_drop_empty env) cs s) = (view s)\<lparr>
      da_sets := (da_sets (view s))(conversations_key env := da_sets (view s) (conversations_key env) - {c \<in> set cs. da_zsets (view s) (events_key env c) = []})\<rparr>"
proof (induction cs arbitrary: s)
  case Nil
  then show ?case by simp
next
  case (Cons c cs)
  have "view (rm_drop_empty env c s) = (view s)\<lparr>da_sets := (da_sets (view s))(conversations_key env := da_sets (view s) (conversations_key env) - {x. x = c \<and> da_zsets (view s) (events_key env c) = []})\<rparr>"
    by (auto simp: rm_drop_empty_def contractD(4,13) [OF env])
  moreover have "A - {x. x = c \<and> da_zsets (view s) (events_key env c) = []} - {x \<in> set cs. da_zsets (view s) (events_key env x) = []}
      = A - {x. (x = c \<or> x \<in> set cs) \<and> da_zsets (view s) (events_key env x) = []}" for A
    by auto
  ultimately show ?case using Cons [of "rm_drop_empty env c s"] by (simp cong: if_cong)
qed

text \<open>What the reference purge leaves, conversation by conversation.\<close>

lemma purge_fold_result:
  assumes "distinct (map fst (mb_events mb))"
  shows "conversation (fst (foldl (purge_conversation ids) (mb, k) cs)) x
      = (if x \<in> set cs then filter (\<lambda>e. me_id e \<notin> set ids) (conversation mb x) else conversation mb x)
    \<and> map fst (mb_events (fst (foldl (purge_conversation ids) (mb, k) cs)))
      = filter (\<lambda>c. c \<in> set cs \<longrightarrow> filter (\<lambda>e. me_id e \<notin> set ids) (conversation mb c) \<noteq> []) (map fst (mb_events mb))"
  using assms
proof (induction cs arbitrary: mb k)
  case Nil
  then show ?case by simp
next
  case (Cons c cs)
  let ?keep = "filter (\<lambda>e. me_id e \<notin> set ids)"
  obtain mb1 k1 where s: "purge_conversation ids (mb, k) c = (mb1, k1)" by fastforce
  have conv: "conversation mb1 y = (if y = c then ?keep (conversation mb y) else conversation mb y)" for y
    using s by (auto simp: purge_conversation_def Let_def conversation_def set_conversation_def map_of_map_snd delete_conv'
        filter_empty_conv split: option.splits if_splits)
  have delete: "map fst (AList.delete c xs) = filter (\<lambda>y. y \<noteq> c) (map fst xs)" for xs :: "(string \<times> mail_event list) list"
    by (induction xs) auto
  have keys: "map fst (mb_events mb1) = filter (\<lambda>y. y = c \<longrightarrow> ?keep (conversation mb y) \<noteq> []) (map fst (mb_events mb))"
  proof (cases "?keep (conversation mb c) = []")
    case True
    then have "mb1 = mb\<lparr>mb_events := AList.delete c (mb_events mb)\<rparr>" using s by (simp add: purge_conversation_def Let_def)
    then have "map fst (mb_events mb1) = filter (\<lambda>y. y \<noteq> c) (map fst (mb_events mb))" by (simp add: delete)
    also have "\<dots> = filter (\<lambda>y. y = c \<longrightarrow> ?keep (conversation mb y) \<noteq> []) (map fst (mb_events mb))"
      using True by (intro filter_cong) auto
    finally show ?thesis .
  next
    case False
    then have "mb1 = set_conversation c (?keep (conversation mb c)) mb" using s by (simp add: purge_conversation_def Let_def)
    then show ?thesis using False by (simp add: filter_id_conv)
  qed
  have d: "distinct (map fst (mb_events mb1))" unfolding keys using Cons.prems by (rule distinct_filter)
  have twice: "?keep (?keep es) = ?keep es" for es by simp
  show ?case
    using Cons.IH [OF d, of k1] s
    by (auto simp: conv keys filter_filter twice intro!: filter_cong)
qed

lemma rm_purge_mirrors:
  assumes env: "sound_env env view" and m: "mirrors env view s mb"
    and p: "purge_acknowledged mb c older limit = Inr (mb', n)"
  shows "\<exists>s' k. rm_purge_acknowledged env c older limit s = (s', Inr k) \<and> mirrors env view s' mb'"
proof -
  note d = mirrorsD [OF m]
  have keys: "distinct (map fst (mb_events mb))" using d(2) by (simp add: box_tidy_def)
  define ds where "ds = (case c of None \<Rightarrow> map fst (mb_events mb) | Some x \<Rightarrow> [x])"
  define cs where "cs = (case c of None \<Rightarrow> sort_texts (rm_conversations env s) | Some x \<Rightarrow> [x])"
  have members: "set (rm_conversations env s) = set (map fst (mb_events mb))" "distinct (rm_conversations env s)"
    by (simp_all add: rm_conversations_def contractD(14,15) [OF env] d(7))
  have dist: "distinct cs" "distinct ds" "set cs = set ds"
    using keys members by (auto simp: cs_def ds_def distinct_sort_texts split: option.splits)
  define es where "es = purge_candidates mb ds older limit"
  let ?ids = "map me_id es"
  let ?keep = "filter (\<lambda>e. me_id e \<notin> set ?ids)"
  have limit: "1 \<le> limit" and mb': "mb' = fst (foldl (purge_conversation ?ids) (mb, 0) ds)"
    using p by (auto simp: purge_acknowledged_def Let_def ds_def es_def split: if_splits prod.splits)
  have found: "take limit (rm_candidates env s cs older) = map renumbered es"
    by (simp add: candidates_mirrored [OF env m dist] es_def purge_candidates_def take_map)
  let ?us = "map renumbered es"
  let ?s' = "fold (rm_drop_empty env) cs (fold (rm_remove env) ?us s)"
  have r: "rm_purge_acknowledged env c older limit s = (?s', Inr (min (length (rm_candidates env s cs older)) limit))"
    using limit found by (simp add: rm_purge_acknowledged_def Let_def cs_def)
  have from_ds: "\<exists>x \<in> set ds. e \<in> set (conversation mb x)" if "e \<in> set es" for e
    using that unfolding es_def purge_candidates_def by (auto dest!: in_set_takeD)
  have gone: "me_id e \<in> set ?ids \<longleftrightarrow> e \<in> set es" if "e \<in> set (conversation mb x)" for e x
  proof
    assume "me_id e \<in> set ?ids"
    then obtain f where f: "f \<in> set es" "me_id f = me_id e" by auto
    obtain y where y: "y \<in> set ds" "f \<in> set (conversation mb y)" using from_ds [OF f(1)] by blast
    have "x = y" using mailbox_okD [OF d(1) that] mailbox_okD [OF d(1) y(2)] f(2) by (auto simp: event_ok_def)
    then show "e \<in> set es" using mailbox_ok_unique [OF d(1) that, of f] y(2) f by simp
  qed auto
  have out: "?keep (conversation mb x) = conversation mb x" if "x \<notin> set ds" for x
  proof -
    have "e \<notin> set es" if "e \<in> set (conversation mb x)" for e
      using from_ds [of e] that \<open>x \<notin> set ds\<close> conversation_of_event [OF m] by metis
    then show ?thesis using gone by (auto simp: filter_id_conv)
  qed
  have conv: "conversation mb' x = ?keep (conversation mb x)" for x
    unfolding mb' using purge_fold_result [OF keys, of ?ids 0 ds x] out by (auto split: if_splits)
  have keys': "map fst (mb_events mb') = filter (\<lambda>x. ?keep (conversation mb x) \<noteq> []) (map fst (mb_events mb))"
  proof -
    have "map fst (mb_events mb') = filter (\<lambda>x. x \<in> set ds \<longrightarrow> ?keep (conversation mb x) \<noteq> []) (map fst (mb_events mb))"
      unfolding mb' using purge_fold_result [OF keys, of ?ids 0 ds] by blast
    also have "\<dots> = filter (\<lambda>x. ?keep (conversation mb x) \<noteq> []) (map fst (mb_events mb))"
      using d(2) out by (intro filter_cong) (auto simp: box_tidy_def)
    finally show ?thesis .
  qed
  have trim: "trimmed mb mb' (\<lambda>e. me_status e = Acknowledged)" by (rule purge_trims [OF p d(1)])
  then have same: "mb_ids mb' = mb_ids mb" "mb_next mb' = mb_next mb" by (simp_all add: trimmed_def)
  have ok: "mailbox_ok mb'" by (rule trimmed_ok [OF d(1) trim])
  note t = d(2) [unfolded box_tidy_def]
  have tidy: "box_tidy mb'"
    unfolding box_tidy_def
  proof (intro conjI ballI allI impI)
    show "distinct (map fst (mb_events mb'))" unfolding keys' using keys by (rule distinct_filter)
    show "distinct (map fst (mb_ids mb'))" using t same by simp
    show "conversation mb' x \<noteq> []" if "x \<in> set (map fst (mb_events mb'))" for x
      using that unfolding keys' conv by simp
    show "sorted_wrt (<) (map me_seq (conversation mb' x))" for x
      using t unfolding conv by (simp add: sorted_wrt_map sorted_wrt_filter)
    show "x = y" if "e \<in> set (conversation mb' x)" "f \<in> set (conversation mb' y)" "me_seq e = me_seq f" for e f x y
      using that t unfolding conv by (metis filter_is_subset subsetD)
    show "of_conversation x e" if "e \<in> set (conversation mb' x)" for e x
      using that t unfolding conv by (metis filter_is_subset subsetD)
  qed
  have homes: "home (renumbered e) = x" if "e \<in> set (conversation mb x)" for e x
    using that t by (intro home_eq) auto
  have zs: "da_zsets (view (fold (rm_remove env) ?us s)) (events_key env x) = map (\<lambda>e. (me_id e, Suc (me_seq e))) (conversation mb' x)" for x
  proof -
    have "(\<forall>u \<in> set ?us. events_key env x = events_key env (home u) \<longrightarrow> me_id e \<noteq> me_id u) \<longleftrightarrow> me_id e \<notin> set ?ids"
      if e: "e \<in> set (conversation mb x)" for e
      using gone [OF e] homes [OF e] by (auto simp: events_key_inj [OF env])
    then have "filter (\<lambda>e. \<forall>u \<in> set ?us. events_key env x = events_key env (home u) \<longrightarrow> me_id e \<noteq> me_id u) (conversation mb x)
        = ?keep (conversation mb x)"
      by (intro filter_cong refl)
    then show ?thesis
      by (simp add: remove_all_view [OF env] d(3) conv filter_map comp_def)
  qed
  have docs: "da_docs (view ?s') (event_key env i) = (if i \<in> set ?ids then None else da_docs (view s) (event_key env i))" for i
  proof -
    have "event_key env i \<in> event_key env ` me_id ` set ?us \<longleftrightarrow> i \<in> set ?ids"
      unfolding event_key_in [OF env] by (simp add: image_image)
    then show ?thesis by (simp add: drop_empty_view [OF env] remove_all_view [OF env] del: set_map)
  qed
  have "mirrors env view ?s' mb'"
    unfolding mirrors_def
  proof (intro conjI allI ballI impI)
    show "mailbox_ok mb'" by (rule ok)
    show "box_tidy mb'" by (rule tidy)
    show "da_zsets (view ?s') (events_key env x) = map (\<lambda>e. (me_id e, Suc (me_seq e))) (conversation mb' x)" for x
      using zs by (simp add: drop_empty_view [OF env])
    show "da_docs (view ?s') (event_key env (me_id e)) = Some (renumbered e)" if "e \<in> set (conversation mb' x)" for e x
      using that d(4) unfolding docs conv by auto
    show "\<exists>x. \<exists>e \<in> set (conversation mb' x). me_id e = i" if i: "da_docs (view ?s') (event_key env i) \<noteq> None" for i
    proof -
      have n: "i \<notin> set ?ids" and "da_docs (view s) (event_key env i) \<noteq> None"
        using i unfolding docs by (auto split: if_splits)
      then obtain x e where "e \<in> set (conversation mb x)" "me_id e = i" using d(5) [of i] by blast
      then show ?thesis using n unfolding conv by (intro exI [where x = x] bexI [where x = e]) auto
    qed
    show "da_hashes (view ?s') (dedup_key env) i = map_of (mb_ids mb') i" for i
      using d(6) same by (simp add: drop_empty_view [OF env] remove_all_view [OF env])
    show "da_sets (view ?s') (conversations_key env) = set (map fst (mb_events mb'))"
    proof -
      have "da_zsets (view (fold (rm_remove env) ?us s)) (events_key env x) = [] \<longleftrightarrow> ?keep (conversation mb x) = []" for x
        unfolding zs conv by simp
      moreover have "da_sets (view (fold (rm_remove env) ?us s)) (conversations_key env) = set (map fst (mb_events mb))"
        by (simp add: remove_all_view [OF env] d(7))
      ultimately have "da_sets (view ?s') (conversations_key env) = set (map fst (mb_events mb)) - {x \<in> set ds. ?keep (conversation mb x) = []}"
        using dist(3) by (simp only: drop_empty_view [OF env]) simp
      also have "\<dots> = set (map fst (mb_events mb'))" unfolding keys' using out t by fastforce
      finally show ?thesis .
    qed
    show "da_counters (view ?s') (sequence_key env) = mb_next mb'"
      using d(8) same by (simp add: drop_empty_view [OF env] remove_all_view [OF env])
  qed
  then show ?thesis using r by blast
qed

lemma live_ids_iff:
  assumes "distinct (map fst (mb_events mb))"
  shows "i \<in> set (live_ids mb) \<longleftrightarrow> (\<exists>c. \<exists>e \<in> set (conversation mb c). me_id e = i)"
proof
  assume "i \<in> set (live_ids mb)"
  then obtain c es e where "(c, es) \<in> set (mb_events mb)" "e \<in> set es" "me_id e = i" by (auto simp: live_ids_def)
  moreover from this(1) have "conversation mb c = es" using assms by (simp add: conversation_def)
  ultimately show "\<exists>c. \<exists>e \<in> set (conversation mb c). me_id e = i" by blast
qed (use live_idsI in blast)

lemma missing_iff:
  assumes "sound_env env view" and "mirrors env view s mb"
  shows "rm_load env s i = None \<longleftrightarrow> \<not> (\<exists>c. \<exists>e \<in> set (conversation mb c). me_id e = i)"
proof (cases "rm_load env s i")
  case None
  then show ?thesis using load_mirrored [OF assms] by fastforce
next
  case (Some a)
  then have "\<exists>c. \<exists>e \<in> set (conversation mb c). me_id e = i" using loaded [OF assms, of i a] by blast
  then show ?thesis using Some by simp
qed

definition dead_keys :: "mailbox \<Rightarrow> rat \<Rightarrow> string list" where
  "dead_keys mb older = map fst (filter (\<lambda>(i, c, seen). i \<notin> set (live_ids mb) \<and> seen \<le> older) (mb_ids mb))"

lemma rm_purge_keys_mirrors:
  assumes env: "sound_env env view" and m: "mirrors env view s mb"
    and p: "purge_deduplication_keys mb older limit = Inr (mb', n)" and small: "length (dead_keys mb older) \<le> limit"
  shows "\<exists>s'. rm_purge_deduplication_keys env older limit s = (s', Inr n) \<and> mirrors env view s' mb'"
proof -
  note d = mirrorsD [OF m] and t = mirrorsD(2) [OF m, unfolded box_tidy_def]
  have keys: "distinct (map fst (mb_events mb))" "distinct (map fst (mb_ids mb))" using t by simp_all
  let ?h = "rk_hgetall (re_api env) (dedup_key env) s"
  let ?cand = "map fst (filter (\<lambda>(i, c, seen). seen \<le> older \<and> rm_load env s i = None) ?h)"
  let ?dead = "dead_keys mb older"
  have h: "map_of ?h = map_of (mb_ids mb)" "distinct (map fst ?h)"
    using contractD(10,11) [OF env, of "dedup_key env" s] d(6) by (simp_all add: fun_eq_iff)
  have none: "rm_load env s i = None \<longleftrightarrow> i \<notin> set (live_ids mb)" for i
    unfolding live_ids_iff [OF keys(1)] by (rule missing_iff [OF env m])
  have mem: "(i, v) \<in> set ?h \<longleftrightarrow> (i, v) \<in> set (mb_ids mb)" for i v
    using h keys(2) by (metis map_of_eq_Some_iff)
  have same: "set ?cand = set ?dead" by (force simp: dead_keys_def none mem)
  have dist: "distinct ?cand" "distinct ?dead"
    using h(2) keys(2) by (simp_all add: dead_keys_def distinct_map_filter)
  have len: "length ?cand = length ?dead" using same dist by (metis distinct_card)
  have limit: "1 \<le> limit" and mb': "mb' = mb\<lparr>mb_ids := foldl (\<lambda>d i. AList.delete i d) (mb_ids mb) ?dead\<rparr>" and n: "n = length ?dead"
    using p small by (auto simp: purge_deduplication_keys_def dead_keys_def Let_def split: if_splits)
  let ?s' = "if ?cand = [] then s else rk_hdel (re_api env) (dedup_key env) ?cand s"
  have r: "rm_purge_deduplication_keys env older limit s = (?s', Inr n)"
    using limit small len n by (simp add: rm_purge_deduplication_keys_def Let_def)
  have v: "view ?s' = (view s)\<lparr>da_hashes := (da_hashes (view s))(dedup_key env := (\<lambda>f. if f \<in> set ?dead then None else da_hashes (view s) (dedup_key env) f))\<rparr>"
  proof (cases "?cand = []")
    case True
    then have "set ?dead = {}" unfolding same [symmetric] by simp
    then show ?thesis using True by simp
  next
    case False
    then have "view ?s' = view (rk_hdel (re_api env) (dedup_key env) ?cand s)" by simp
    then show ?thesis unfolding contractD(9) [OF env] same .
  qed
  have conv: "conversation mb' c = conversation mb c" for c by (simp add: mb' conversation_def)
  have "distinct (map fst (foldl (\<lambda>d i. AList.delete i d) xs is))" if "distinct (map fst xs)" for xs :: "(string \<times> string \<times> rat) list" and "is"
    using that by (induction "is" arbitrary: xs) (simp_all add: distinct_delete)
  then have tidy: "box_tidy mb'" using t keys(2) unfolding box_tidy_def conv by (simp add: mb')
  have ok: "mailbox_ok mb'" using purge_keys_ok [OF p d(1)] by simp
  have "mirrors env view ?s' mb'"
    unfolding mirrors_def conv v using ok tidy d(3-8) by (auto simp: mb' map_of_delete_all)
  then show ?thesis using r by blast
qed

end
