(* ===== verification/Redis_Runs.thy ===== *)
theory Redis_Runs
  imports Redis_Laws
begin

text \<open>
  Runs of the Redis mailbox: it delivers what the reference mailbox delivers; a server that keeps the contract; and
  what a purge leaves.
\<close>

subsection \<open>Counting and waiting\<close>

lemma rm_claimable_count_same:
  assumes "sound_env env view" and "mirrors env view s mb"
  shows "rm_claimable_count env now s c = claimable_count now mb c"
  by (simp add: rm_claimable_count_def claimable_count_def events_mirrored [OF assms] filter_map comp_def)

lemma some_claimable:
  assumes "sound_env env view" and "mirrors env view s mb"
  shows "list_ex (claimable now) (rm_events env s c) \<longleftrightarrow> list_ex (claimable now) (conversation mb c)"
  by (simp add: events_mirrored [OF assms] list_ex_iff)

lemma claimable_somewhere:
  assumes "sound_env env view" and m: "mirrors env view s mb"
  shows "c \<in> set (rm_conversations env s) \<and> list_ex (claimable now) (rm_events env s c)
     \<longleftrightarrow> (\<exists>es. (c, es) \<in> set (mb_events mb) \<and> list_ex (claimable now) es)"
proof -
  have k: "distinct (map fst (mb_events mb))" using mirrorsD(2) [OF m] by (simp add: box_tidy_def)
  have "set (rm_conversations env s) = fst ` set (mb_events mb)"
    using contractD(14) [OF assms(1)] mirrorsD(7) [OF m] by (simp add: rm_conversations_def)
  moreover have "conversation mb c = es" if "(c, es) \<in> set (mb_events mb)" for es using that k by (simp add: conversation_def)
  ultimately show ?thesis unfolding some_claimable [OF assms] by (metis (no_types, lifting) fst_conv imageE image_eqI prod.collapse)
qed

lemma rm_claimable_conversations_same:
  assumes "sound_env env view" and "mirrors env view s mb"
  shows "set (rm_claimable_conversations env now s) = set (claimable_conversations now mb)"
proof -
  have "c \<in> set (rm_claimable_conversations env now s) \<longleftrightarrow> c \<in> set (claimable_conversations now mb)" for c
    using claimable_somewhere [OF assms, of c now] by (auto simp: rm_claimable_conversations_def claimable_conversations_def image_iff)
  then show ?thesis by blast
qed

lemma rm_wait_turn_same:
  assumes "sound_env env view" and "mirrors env view s mb"
  shows "rm_wait_turn env now interval s c remaining = Return b \<longleftrightarrow> wait_turn_of now mb c remaining = Return b"
proof -
  have "rm_has_claimable env now s c = has_claimable now mb c"
  proof (cases c)
    case None
    have "rm_has_claimable env now s None \<longleftrightarrow> (\<exists>x es. (x, es) \<in> set (mb_events mb) \<and> list_ex (claimable now) es)"
      unfolding rm_has_claimable_def option.case list_ex_iff [of _ "rm_conversations env s"] Bex_def claimable_somewhere [OF assms] ..
    also have "\<dots> \<longleftrightarrow> has_claimable now mb None"
      unfolding has_claimable_def watched_def list_ex_iff by (simp add: Bex_def) blast
    finally show ?thesis using None by simp
  next
    case (Some x)
    then show ?thesis by (simp add: rm_has_claimable_def has_claimable_def watched_def some_claimable [OF assms])
  qed
  then show ?thesis by (auto simp: rm_wait_turn_def wait_turn_of_def split: option.splits)
qed

subsection \<open>Runs\<close>

fun rm_step :: "'s redis_env \<Rightarrow> rat \<Rightarrow> mail_op \<Rightarrow> 's \<Rightarrow> 's \<times> dict list" where
  "rm_step env now (AppendMail c fresh event) s = (fst (rm_append env now fresh c event s), [])"
| "rm_step env now (ClaimMail c consumer n t) s = (case rm_claim env now c consumer n t s of (s', Inl e) \<Rightarrow> (s', []) | (s', Inr ds) \<Rightarrow> (s', ds))"
| "rm_step env now (ClaimAny consumer n t) s = (case rm_claim_any env now consumer n t s of (s', Inl e) \<Rightarrow> (s', []) | (s', Inr ds) \<Rightarrow> (s', ds))"
| "rm_step env now (AckMail c consumer ids force) s = (fst (rm_acknowledge env now c consumer ids force s), [])"
| "rm_step env now (ReleaseMail c consumer ids) s = (fst (rm_release env now c consumer ids s), [])"
| "rm_step env now (PurgeMail c older n) s = (fst (rm_purge_acknowledged env c older n s), [])"
| "rm_step env now (PurgeKeys older n) s = (fst (rm_purge_deduplication_keys env older n s), [])"

text \<open>
  The steps on which the backends are bound to agree: no acknowledgement or release fails a lease check after it
  has settled other events, which each backend does in an order of its own, and a purge of keys is not cut off
  by its limit, which leaves each backend its own choice.
\<close>

fun clean_op :: "rat \<Rightarrow> mail_op \<Rightarrow> mailbox \<Rightarrow> bool" where
  "clean_op now (AckMail c consumer ids force) mb \<longleftrightarrow> clean_result (snd (acknowledge_mail now mb c consumer ids force))"
| "clean_op now (ReleaseMail c consumer ids) mb \<longleftrightarrow> clean_result (snd (release_mail now mb c consumer ids))"
| "clean_op now (PurgeKeys older n) mb \<longleftrightarrow> length (dead_keys mb older) \<le> n"
| "clean_op now _ mb \<longleftrightarrow> True"

lemma rm_step_mirrors:
  assumes env: "sound_env env view" and m: "mirrors env view s mb" and clean: "clean_op now op mb"
  shows "snd (rm_step env now op s) = snd (mail_step now op mb) \<and> mirrors env view (fst (rm_step env now op s)) (fst (mail_step now op mb))"
proof (cases op)
  case (AppendMail c fresh event)
  then show ?thesis using rm_append_mirrors [OF env m, of now fresh c event] m by (auto split: sum.splits)
next
  case (ClaimMail c consumer n t)
  then show ?thesis using rm_claim_mirrors [OF env m, of now c consumer n t] m by (auto split: sum.splits)
next
  case (ClaimAny consumer n t)
  then show ?thesis using rm_claim_any_mirrors [OF env m, of now consumer n t] m by (auto split: sum.splits)
next
  case (AckMail c consumer ids force)
  then show ?thesis using rm_acknowledge_mirrors [OF env m, of now c consumer ids force] clean by simp
next
  case (ReleaseMail c consumer ids)
  then show ?thesis using rm_release_mirrors [OF env m, of now c consumer ids] clean by simp
next
  case (PurgeMail c older n)
  show ?thesis
  proof (cases "purge_acknowledged mb c older n")
    case (Inl e)
    then have "n < 1" by (auto simp: purge_acknowledged_def Let_def split: if_splits)
    then show ?thesis using PurgeMail Inl m by (simp add: rm_purge_acknowledged_def)
  next
    case (Inr r)
    then show ?thesis using PurgeMail rm_purge_mirrors [OF env m, of c older n "fst r" "snd r"] by (auto split: prod.splits)
  qed
next
  case (PurgeKeys older n)
  show ?thesis
  proof (cases "purge_deduplication_keys mb older n")
    case (Inl e)
    then have "n < 1" by (auto simp: purge_deduplication_keys_def Let_def split: if_splits)
    then show ?thesis using PurgeKeys Inl m by (simp add: rm_purge_deduplication_keys_def)
  next
    case (Inr r)
    then show ?thesis using PurgeKeys rm_purge_keys_mirrors [OF env m, of older n "fst r" "snd r"] clean by (auto split: prod.splits)
  qed
qed

fun rm_run :: "'s redis_env \<Rightarrow> (rat \<times> mail_op) list \<Rightarrow> 's \<Rightarrow> 's \<times> dict list" where
  "rm_run env [] s = (s, [])"
| "rm_run env ((now, op) # calls) s =
     (case rm_step env now op s of (s1, ds) \<Rightarrow> (case rm_run env calls s1 of (s2, es) \<Rightarrow> (s2, ds @ es)))"

fun clean_run :: "(rat \<times> mail_op) list \<Rightarrow> mailbox \<Rightarrow> bool" where
  "clean_run [] mb \<longleftrightarrow> True"
| "clean_run ((now, op) # calls) mb \<longleftrightarrow> clean_op now op mb \<and> clean_run calls (fst (mail_step now op mb))"

lemma rm_run_mirrors:
  assumes env: "sound_env env view"
  shows "mirrors env view s mb \<Longrightarrow> clean_run calls mb \<Longrightarrow>
     snd (rm_run env calls s) = snd (mail_run calls mb) \<and> mirrors env view (fst (rm_run env calls s)) (fst (mail_run calls mb))"
proof (induction calls arbitrary: s mb)
  case Nil
  then show ?case by simp
next
  case (Cons call calls)
  obtain now op where call: "call = (now, op)" by (cases call)
  have "clean_op now op mb" "clean_run calls (fst (mail_step now op mb))" using Cons.prems(2) call by simp_all
  with rm_step_mirrors [OF env Cons.prems(1)] Cons.IH show ?case
    by (auto simp: call split_beta)
qed

text \<open>A namespace nobody has used.\<close>

definition fresh_namespace :: "'s redis_env \<Rightarrow> ('s \<Rightarrow> redis_data) \<Rightarrow> 's \<Rightarrow> bool" where
  "fresh_namespace env view s \<longleftrightarrow>
     (\<forall>c. da_zsets (view s) (events_key env c) = [] \<and> da_docs (view s) (event_key env c) = None \<and> da_hashes (view s) (dedup_key env) c = None)
   \<and> da_sets (view s) (conversations_key env) = {} \<and> da_counters (view s) (sequence_key env) = 0"

lemma fresh_mirrors: "fresh_namespace env view s \<Longrightarrow> mirrors env view s empty_mailbox"
  by (simp add: fresh_namespace_def mirrors_def mailbox_ok_def box_tidy_def empty_mailbox_def conversation_def)


subsection \<open>A server that keeps the contract\<close>

text \<open>The commands over association lists.\<close>

record redis_tables =
  ta_docs :: "(string \<times> mail_event) list"
  ta_zsets :: "(string \<times> (string \<times> nat) list) list"
  ta_hashes :: "(string \<times> (string \<times> string \<times> rat) list) list"
  ta_sets :: "(string \<times> string list) list"
  ta_counters :: "(string \<times> nat) list"

definition row :: "'a list \<Rightarrow> (string \<times> 'a list) list \<Rightarrow> string \<Rightarrow> 'a list" where
  "row d t k = (case map_of t k of None \<Rightarrow> d | Some v \<Rightarrow> v)"

definition counter_of :: "(string \<times> nat) list \<Rightarrow> string \<Rightarrow> nat" where
  "counter_of t k = (case map_of t k of None \<Rightarrow> 0 | Some n \<Rightarrow> n)"

definition keys_used :: "redis_tables \<Rightarrow> string list" where
  "keys_used t = map fst (ta_docs t) @ filter (\<lambda>k. row [] (ta_zsets t) k \<noteq> []) (map fst (ta_zsets t))
     @ filter (\<lambda>k. row [] (ta_hashes t) k \<noteq> []) (map fst (ta_hashes t)) @ filter (\<lambda>k. row [] (ta_sets t) k \<noteq> []) (map fst (ta_sets t))
     @ filter (\<lambda>k. counter_of (ta_counters t) k \<noteq> 0) (map fst (ta_counters t))"

definition tables_view :: "redis_tables \<Rightarrow> redis_data" where
  "tables_view t = \<lparr>da_docs = map_of (ta_docs t), da_zsets = row [] (ta_zsets t),
     da_hashes = (\<lambda>k. map_of (row [] (ta_hashes t) k)), da_sets = (\<lambda>k. set (row [] (ta_sets t) k)), da_counters = counter_of (ta_counters t)\<rparr>"

definition place :: "string \<Rightarrow> nat \<Rightarrow> (string \<times> nat) list \<Rightarrow> (string \<times> nat) list" where
  "place m n zs = takeWhile (\<lambda>x. snd x < n) zs @ (m, n) # dropWhile (\<lambda>x. snd x < n) zs"

definition tables_api :: "redis_tables redis_api" where
  "tables_api = \<lparr>
     rk_get = (\<lambda>k t. map_of (ta_docs t) k),
     rk_set = (\<lambda>k e t. t\<lparr>ta_docs := AList.update k e (ta_docs t)\<rparr>),
     rk_delete = (\<lambda>k t. t\<lparr>ta_docs := AList.delete k (ta_docs t)\<rparr>),
     rk_zrange = (\<lambda>k t. map fst (row [] (ta_zsets t) k)),
     rk_zadd = (\<lambda>k m n t. t\<lparr>ta_zsets := AList.update k (place m n (filter (\<lambda>x. fst x \<noteq> m) (row [] (ta_zsets t) k))) (ta_zsets t)\<rparr>),
     rk_zrem = (\<lambda>k m t. t\<lparr>ta_zsets := AList.update k (filter (\<lambda>x. fst x \<noteq> m) (row [] (ta_zsets t) k)) (ta_zsets t)\<rparr>),
     rk_hget = (\<lambda>k f t. map_of (row [] (ta_hashes t) k) f),
     rk_hset = (\<lambda>k f v t. t\<lparr>ta_hashes := AList.update k (AList.update f v (row [] (ta_hashes t) k)) (ta_hashes t)\<rparr>),
     rk_hdel = (\<lambda>k fs t. t\<lparr>ta_hashes := AList.update k (filter (\<lambda>x. fst x \<notin> set fs) (row [] (ta_hashes t) k)) (ta_hashes t)\<rparr>),
     rk_hgetall = (\<lambda>k t. AList.clearjunk (row [] (ta_hashes t) k)),
     rk_sadd = (\<lambda>k m t. t\<lparr>ta_sets := AList.update k (List.insert m (row [] (ta_sets t) k)) (ta_sets t)\<rparr>),
     rk_srem = (\<lambda>k m t. t\<lparr>ta_sets := AList.update k (filter (\<lambda>x. x \<noteq> m) (row [] (ta_sets t) k)) (ta_sets t)\<rparr>),
     rk_smembers = (\<lambda>k t. remdups (row [] (ta_sets t) k)),
     rk_incr = (\<lambda>k t. (t\<lparr>ta_counters := AList.update k (Suc (counter_of (ta_counters t) k)) (ta_counters t)\<rparr>, Suc (counter_of (ta_counters t) k))),
     rk_scan = (\<lambda>p t. filter (starts_with p) (keys_used t)),
     rk_delete_key = (\<lambda>k t. (t\<lparr>ta_docs := AList.delete k (ta_docs t), ta_zsets := AList.update k [] (ta_zsets t),
        ta_hashes := AList.update k [] (ta_hashes t), ta_sets := AList.update k [] (ta_sets t), ta_counters := AList.update k 0 (ta_counters t)\<rparr>,
        if k \<in> set (keys_used t) then 1 else 0))\<rparr>"

definition tables_env :: "redis_tables redis_env" where
  "tables_env = \<lparr>re_api = tables_api, re_namespace = ''entourage:mailbox'', re_digest = (\<lambda>i. i), re_order = remdups\<rparr>"

lemma row_update: "row d (AList.update k v t) = (row d t)(k := v)"
  by (simp add: row_def update_conv' fun_eq_iff)

lemma counter_of_update: "counter_of (AList.update k n t) = (counter_of t)(k := n)"
  by (simp add: counter_of_def update_conv' fun_eq_iff)

lemma place_last: "\<forall>x \<in> set zs. fst x \<noteq> m \<and> snd x < n \<Longrightarrow> place m n zs = zs @ [(m, n)]"
  by (simp add: place_def takeWhile_eq_all_conv)

lemma map_of_dropped: "map_of (filter (\<lambda>x. fst x \<notin> set fs) xs) f = (if f \<in> set fs then None else map_of xs f)"
  by (induction xs) auto

lemma row_held: "row [] t k \<noteq> [] \<Longrightarrow> k \<in> fst ` set t"
  by (cases "map_of t k") (force simp: row_def dest: map_of_SomeD)+

lemma count_held: "counter_of t k \<noteq> 0 \<Longrightarrow> k \<in> fst ` set t"
  by (cases "map_of t k") (force simp: counter_of_def dest: map_of_SomeD)+

lemma keys_used_iff: "k \<in> set (keys_used t) \<longleftrightarrow> key_used (tables_view t) k"
proof -
  have docs: "da_docs (tables_view t) k \<noteq> None \<longleftrightarrow> k \<in> fst ` set (ta_docs t)" by (simp add: tables_view_def map_of_eq_None_iff)
  have hashes: "(\<exists>f. da_hashes (tables_view t) k f \<noteq> None) \<longleftrightarrow> row [] (ta_hashes t) k \<noteq> []"
    by (cases "row [] (ta_hashes t) k") (auto simp: tables_view_def)
  show ?thesis
    unfolding key_used_def docs hashes
    using row_held [of "ta_zsets t" k] row_held [of "ta_hashes t" k] row_held [of "ta_sets t" k] count_held [of "ta_counters t" k]
    by (auto simp: keys_used_def tables_view_def)
qed

lemma tables_contract: "redis_contract tables_api tables_view"
  unfolding redis_contract_def
  by (simp add: tables_api_def keys_used_iff) (auto simp: tables_view_def row_update counter_of_update update_conv' delete_conv' fun_eq_iff
      place_last map_of_dropped map_of_clearjunk distinct_clearjunk)

lemma tables_sound: "sound_env tables_env tables_view"
  by (simp add: sound_env_def tables_env_def tables_contract inj_def)

definition no_tables :: redis_tables where
  "no_tables = \<lparr>ta_docs = [], ta_zsets = [], ta_hashes = [], ta_sets = [], ta_counters = []\<rparr>"

lemma tables_fresh: "fresh_namespace tables_env tables_view no_tables"
  by (simp add: fresh_namespace_def tables_view_def no_tables_def row_def counter_of_def)

text \<open>Two conversations; mail is claimed, settled and released, a lease runs out, and settled mail is purged.\<close>

definition sample_run :: "(rat \<times> mail_op) list" where
  "sample_run =
     [(0, AppendMail ''c'' ''f'' note_event), (1, AppendMail ''d'' ''g'' []), (2, ClaimAny ''w1'' 5 30),
      (3, AckMail ''c'' ''w1'' [''e1''] False), (4, ClaimAny ''w1'' 5 10), (20, ClaimMail ''d'' ''w2'' 5 30),
      (21, ReleaseMail ''d'' ''w2'' [''g'']), (22, PurgeMail None None 10), (23, PurgeKeys 5 10), (24, ClaimAny ''w3'' 5 30)]"

lemma sample_clean: "clean_run sample_run empty_mailbox"
  by code_simp


subsection \<open>Purge\<close>

lemma rm_delete_each_view:
  assumes env: "sound_env env view"
  shows "view (fst (rm_delete_each env ks s)) = (let gone = \<lambda>k. k \<in> set ks \<and> k \<noteq> re_namespace env @ '':lock'' in
     \<lparr>da_docs = (\<lambda>k. if gone k then None else da_docs (view s) k), da_zsets = (\<lambda>k. if gone k then [] else da_zsets (view s) k),
      da_hashes = (\<lambda>k. if gone k then Map.empty else da_hashes (view s) k), da_sets = (\<lambda>k. if gone k then {} else da_sets (view s) k),
      da_counters = (\<lambda>k. if gone k then 0 else da_counters (view s) k)\<rparr>)"
proof (induction ks arbitrary: s)
  case Nil
  then show ?case by simp
next
  case (Cons k ks)
  obtain s1 n where d: "rk_delete_key (re_api env) k s = (s1, n)" by fastforce
  show ?case
  proof (cases "k = re_namespace env @ '':lock''")
    case True
    then show ?thesis by (auto simp: Cons.IH fun_eq_iff Let_def)
  next
    case False
    then have "view (fst (rm_delete_each env (k # ks) s)) = view (fst (rm_delete_each env ks s1))" by (simp add: d split: prod.splits)
    then show ?thesis using contractD(21) [OF env, of k s] d False by (auto simp: Cons.IH fun_eq_iff Let_def)
  qed
qed

text \<open>A purge leaves the namespace as if nobody had used it.\<close>

lemma rm_purge_empties:
  assumes env: "sound_env env view"
  shows "fresh_namespace env view (fst (rm_purge env s))"
proof -
  let ?ks = "rk_scan (re_api env) (re_namespace env @ '':'') s"
  have left: "key_used (view (fst (rm_purge env s))) k \<longleftrightarrow> key_used (view s) k \<and> \<not> (k \<in> set ?ks \<and> k \<noteq> re_namespace env @ '':lock'')" for k
    by (cases "k \<in> set ?ks \<and> k \<noteq> re_namespace env @ '':lock''")
       (auto simp: key_used_def rm_purge_def rm_delete_each_view [OF env] Let_def)
  have clear: "\<not> key_used (view (fst (rm_purge env s))) (re_namespace env @ '':'' @ r)" if "r \<noteq> ''lock''" for r
    unfolding left using that by (simp add: contractD(20) [OF env] starts_with_def)
  have "\<not> key_used (view (fst (rm_purge env s))) (events_key env c)" "\<not> key_used (view (fst (rm_purge env s))) (event_key env c)"
    "\<not> key_used (view (fst (rm_purge env s))) (dedup_key env)" "\<not> key_used (view (fst (rm_purge env s))) (conversations_key env)"
    "\<not> key_used (view (fst (rm_purge env s))) (sequence_key env)" for c
    using clear [of "''events:'' @ re_digest env c"] clear [of "''event:'' @ re_digest env c"] clear [of "''dedup''"] clear [of "''conversations''"]
      clear [of "''sequence''"] by (simp_all add: events_key_def event_key_def dedup_key_def conversations_key_def sequence_key_def)
  then show ?thesis unfolding fresh_namespace_def key_used_def by (auto simp del: split_paired_All split_paired_Ex)
qed

end
