(* ===== verification/Ready_Queue_Laws.thy ===== *)
theory Ready_Queue_Laws
  imports Ready_Queue Redis_Runs
begin

text \<open>
  What the fair queue promises: a batch takes the oldest payloads of each session and shares its room between the sessions;
  and however many processes work on the queue at once, command by command, a payload stays in a list that a claim
  can find, in the hash of claimed envelopes or with a worker, until it is acknowledged.
\<close>

lemma rev_butlast: "rev (butlast xs) = tl (rev xs)"
  by (induction xs rule: rev_induct) simp_all

lemma rev_last: "xs \<noteq> [] \<Longrightarrow> rev xs = last xs # tl (rev xs)"
  by (induction xs rule: rev_induct) simp_all

subsection \<open>Commands\<close>

lemma queueD:
  assumes "sound_queue env view"
  shows "view (ql_lpush (qe_api env) k x s) = (view s)\<lparr>qd_lists := (qd_lists (view s))(k := x # qd_lists (view s) k)\<rparr>"
    "view (ql_rpush (qe_api env) k x s) = (view s)\<lparr>qd_lists := (qd_lists (view s))(k := qd_lists (view s) k @ [x])\<rparr>"
    "view (fst (ql_rpop (qe_api env) k s)) = (view s)\<lparr>qd_lists := (qd_lists (view s))(k := butlast (qd_lists (view s) k))\<rparr>"
    "snd (ql_rpop (qe_api env) k s) = (if qd_lists (view s) k = [] then None else Some (last (qd_lists (view s) k)))"
    "ql_llen (qe_api env) k s = length (qd_lists (view s) k)"
    "view (ql_sadd (qe_api env) k f s) = (view s)\<lparr>qd_sets := (qd_sets (view s))(k := insert f (qd_sets (view s) k))\<rparr>"
    "view (ql_srem (qe_api env) k f s) = (view s)\<lparr>qd_sets := (qd_sets (view s))(k := qd_sets (view s) k - {f})\<rparr>"
    "set (ql_smembers (qe_api env) k s) = qd_sets (view s) k" "distinct (ql_smembers (qe_api env) k s)"
    "view (ql_hset (qe_api env) k f x s) = (view s)\<lparr>qd_hashes := (qd_hashes (view s))(k := (qd_hashes (view s) k)(f \<mapsto> x))\<rparr>"
    "view (fst (ql_hdel (qe_api env) k f s)) = (view s)\<lparr>qd_hashes := (qd_hashes (view s))(k := (qd_hashes (view s) k)(f := None))\<rparr>"
    "snd (ql_hdel (qe_api env) k f s) \<longleftrightarrow> qd_hashes (view s) k f \<noteq> None"
    "set (ql_hscan (qe_api env) k s) = {(f, x). qd_hashes (view s) k f = Some x}"
    "view (ql_expire (qe_api env) k n s) = view s"
    "set (ql_scan (qe_api env) f s) = {k. starts_with f k \<and> key_exists (view s) k}"
    "view (fst (ql_delete (qe_api env) k s)) = (view s)\<lparr>qd_lists := (qd_lists (view s))(k := []),
        qd_sets := (qd_sets (view s))(k := {}), qd_hashes := (qd_hashes (view s))(k := Map.empty)\<rparr>"
  using assms by (simp_all add: sound_queue_def queue_contract_def)

lemma list_key_inj [simp]: "list_key env k = list_key env k' \<longleftrightarrow> k = k'"
  by (simp add: list_key_def)

lemma push_view:
  assumes "sound_queue env view"
  shows "view (fq_push env e front s) = (view s)\<lparr>
     qd_lists := (qd_lists (view s))(list_key env (fv_key e) :=
       (if front then qd_lists (view s) (list_key env (fv_key e)) @ [Stored e] else Stored e # qd_lists (view s) (list_key env (fv_key e)))),
     qd_sets := (qd_sets (view s))(active_key env := insert (fv_key e) (qd_sets (view s) (active_key env)))\<rparr>"
  by (simp add: fq_push_def Let_def queueD [OF assms])

lemma record_view:
  assumes "sound_queue env view"
  shows "view (fq_record env now k e s) = (view s)\<lparr>qd_hashes := (qd_hashes (view s))(in_flight_key env :=
     (qd_hashes (view s) (in_flight_key env))(fv_id e \<mapsto> Stored (e\<lparr>fv_claimed := Some now\<rparr>)))\<rparr>"
  by (simp add: fq_record_def Let_def queueD [OF assms])

subsection \<open>Batches\<close>

text \<open>The payloads of a key, oldest first, and what the claims of a batch take of them.\<close>

definition waiting_of :: "'s queue_env \<Rightarrow> ('s \<Rightarrow> queue_data) \<Rightarrow> 's \<Rightarrow> string \<Rightarrow> stored list" where
  "waiting_of env view s k = rev (qd_lists (view s) (list_key env k))"

definition lists_ok :: "'s queue_env \<Rightarrow> ('s \<Rightarrow> queue_data) \<Rightarrow> 's \<Rightarrow> bool" where
  "lists_ok env view s \<longleftrightarrow>
     (\<forall>k. (\<forall>x \<in> set (waiting_of env view s k). \<exists>e. x = Stored e \<and> fv_key e = k)
        \<and> (waiting_of env view s k \<noteq> [] \<longrightarrow> k \<in> qd_sets (view s) (active_key env)))"

definition of_key :: "string \<Rightarrow> queue_envelope list \<Rightarrow> queue_envelope list" where
  "of_key k es = filter (\<lambda>e. fv_key e = k) es"

fun stamp :: "rat \<Rightarrow> stored \<Rightarrow> stored" where
  "stamp now (Stored e) = Stored (e\<lparr>fv_claimed := Some now\<rparr>)"
| "stamp now Malformed = Malformed"

definition takes :: "'s queue_env \<Rightarrow> ('s \<Rightarrow> queue_data) \<Rightarrow> rat \<Rightarrow> 's \<Rightarrow> queue_envelope list \<Rightarrow> 's \<Rightarrow> bool" where
  "takes env view now s es s' \<longleftrightarrow> lists_ok env view s'
     \<and> (\<forall>k. map Stored (of_key k es) = map (stamp now) (take (length (of_key k es)) (waiting_of env view s k))
          \<and> waiting_of env view s' k = drop (length (of_key k es)) (waiting_of env view s k))"

lemma of_key_simps [simp]:
  "of_key k [] = []" "of_key k (e # es) = (if fv_key e = k then e # of_key k es else of_key k es)"
  "of_key k (es @ fs) = of_key k es @ of_key k fs"
  by (simp_all add: of_key_def)

lemma takes_length: "takes env view now s es s' \<Longrightarrow> length (of_key k es) \<le> length (waiting_of env view s k)"
  unfolding takes_def by (metis length_map length_take min_def nat_le_linear)

lemma takes_nil: "lists_ok env view s \<Longrightarrow> takes env view now s [] s"
  by (simp add: takes_def)

lemma takes_append:
  assumes a: "takes env view now s es s1" and b: "takes env view now s1 fs s2"
  shows "takes env view now s (es @ fs) s2"
proof -
  have "take (length (of_key k es) + length (of_key k fs)) (waiting_of env view s k)
      = take (length (of_key k es)) (waiting_of env view s k) @ take (length (of_key k fs)) (waiting_of env view s1 k)" for k
    using a by (simp add: takes_def take_add)
  then show ?thesis using a b by (simp add: takes_def add.commute)
qed

lemma claim_one_takes:
  assumes env: "sound_queue env view" and ok: "lists_ok env view s" and r: "fq_claim_one env now k s = (s', q)"
  shows "takes env view now s (case q of None \<Rightarrow> [] | Some e \<Rightarrow> [e]) s'"
    and "q = None \<longleftrightarrow> waiting_of env view s k = []" and "q = Some e \<Longrightarrow> fv_key e = k"
proof -
  let ?l = "qd_lists (view s) (list_key env k)"
  obtain s1 p where pop: "ql_rpop (qe_api env) (list_key env k) s = (s1, p)" by fastforce
  have v: "view s1 = (view s)\<lparr>qd_lists := (qd_lists (view s))(list_key env k := butlast ?l)\<rparr>"
    and p: "p = (if ?l = [] then None else Some (last ?l))"
    using queueD(3,4) [OF env, of "list_key env k" s] pop by simp_all
  have "takes env view now s (case q of None \<Rightarrow> [] | Some e \<Rightarrow> [e]) s' \<and> (q = None \<longleftrightarrow> ?l = []) \<and> (\<forall>e. q = Some e \<longrightarrow> fv_key e = k)"
  proof (cases "?l = []")
    case True
    then have q: "q = None" and s': "view s' = (view s)\<lparr>qd_sets := (qd_sets (view s))(active_key env := qd_sets (view s) (active_key env) - {k})\<rparr>"
      using r v p by (auto simp: fq_claim_one_def pop queueD [OF env] fun_upd_idem)
    have "waiting_of env view s' x = waiting_of env view s x" for x by (simp add: waiting_of_def s')
    moreover from this have "lists_ok env view s'" using ok True by (auto simp: lists_ok_def s' waiting_of_def)
    ultimately show ?thesis using q True by (simp add: takes_def)
  next
    case False
    then have "last ?l \<in> set (waiting_of env view s k)" by (simp add: waiting_of_def)
    then obtain e where e: "last ?l = Stored e" "fv_key e = k" using ok unfolding lists_ok_def by blast
    have q: "q = Some (e\<lparr>fv_claimed := Some now\<rparr>)" and s': "s' = fq_record env now k e s1"
      using r p e False by (auto simp: fq_claim_one_def pop)
    have w: "waiting_of env view s' x = (if x = k then tl (waiting_of env view s k) else waiting_of env view s x)" for x
      by (simp add: waiting_of_def s' record_view [OF env] v rev_butlast)
    obtain ws where ws: "waiting_of env view s k = Stored e # ws"
      using rev_last [OF False] e(1) by (simp add: waiting_of_def)
    then have "k \<in> qd_sets (view s) (active_key env)" "\<forall>x \<in> set ws. \<exists>e. x = Stored e \<and> fv_key e = k"
      using ok by (simp_all add: lists_ok_def)
    then have "lists_ok env view s'"
      unfolding lists_ok_def w using ok by (simp add: lists_ok_def s' record_view [OF env] v ws)
    then show ?thesis using q e(2) False ws unfolding takes_def w by simp
  qed
  then show "takes env view now s (case q of None \<Rightarrow> [] | Some e \<Rightarrow> [e]) s'" "q = None \<longleftrightarrow> waiting_of env view s k = []"
    "q = Some e \<Longrightarrow> fv_key e = k" by (simp_all add: waiting_of_def)
qed

text \<open>A pass takes at most one payload of each key, and one of each that has some, if there is room.\<close>

lemma pass_takes:
  assumes env: "sound_queue env view"
  shows "lists_ok env view s \<Longrightarrow> distinct ks \<Longrightarrow> fq_pass env now n ks s = (s', es) \<Longrightarrow>
    takes env view now s es s' \<and> length es \<le> n \<and> (\<forall>k. length (of_key k es) \<le> (if k \<in> set ks then 1 else 0))
    \<and> (length es < n \<longrightarrow> (\<forall>k \<in> set ks. waiting_of env view s k \<noteq> [] \<longrightarrow> length (of_key k es) = 1))"
proof (induction ks arbitrary: n s es)
  case Nil
  then show ?case by (auto simp: takes_nil)
next
  case (Cons k ks)
  show ?case
  proof (cases "n = 0")
    case True
    then show ?thesis using Cons.prems by (auto simp: takes_nil)
  next
    case False
    obtain s1 q where c: "fq_claim_one env now k s = (s1, q)" by fastforce
    note one = claim_one_takes [OF env Cons.prems(1) c]
    have ok1: "lists_ok env view s1" using one(1) by (simp add: takes_def)
    define m where "m = (case q of None \<Rightarrow> n | Some e \<Rightarrow> n - 1)"
    obtain fs where fs: "fq_pass env now m ks s1 = (s', fs)" and es: "es = (case q of None \<Rightarrow> [] | Some e \<Rightarrow> [e]) @ fs"
      using Cons.prems(3) False by (auto simp: c m_def split: option.splits prod.splits)
    have ih: "takes env view now s1 fs s'" "length fs \<le> m" "\<And>x. length (of_key x fs) \<le> (if x \<in> set ks then 1 else 0)"
      "\<And>x. length fs < m \<Longrightarrow> x \<in> set ks \<Longrightarrow> waiting_of env view s1 x \<noteq> [] \<Longrightarrow> length (of_key x fs) = 1"
      using Cons.IH [OF ok1 _ fs] Cons.prems(2) by auto
    have t: "takes env view now s es s'" unfolding es using takes_append [OF one(1) ih(1)] .
    have n: "length es \<le> n" using ih(2) False by (auto simp: es m_def split: option.splits)
    have k: "k \<notin> set ks" using Cons.prems(2) by simp
    have head: "length (of_key x (case q of None \<Rightarrow> [] | Some e \<Rightarrow> [e])) = (if x = k \<and> q \<noteq> None then 1 else 0)" for x
      using one(3) by (auto split: option.splits)
    have least: "length (of_key x es) \<le> (if x \<in> set (k # ks) then 1 else 0)" for x
      using ih(3) [of x] k head [of x] by (auto simp: es split: if_splits)
    have "length (of_key x es) = 1" if "length es < n" "x \<in> set (k # ks)" "waiting_of env view s x \<noteq> []" for x
    proof (cases "x = k")
      case True
      then show ?thesis using that(3) one(2) least [of x] head [of k] by (auto simp: es)
    next
      case no: False
      then have "waiting_of env view s1 x = waiting_of env view s x"
        using one(1) head [of x] by (simp add: takes_def)
      moreover have "length fs < m" using that(1) False by (auto simp: es m_def split: option.splits)
      ultimately show ?thesis using ih(4) [of x] that no head [of x] by (simp add: es)
    qed
    then show ?thesis using t n least by blast
  qed
qed

lemma batch_takes:
  assumes env: "sound_queue env view"
  shows "lists_ok env view s \<Longrightarrow> fq_claim_batch env now n s = (s', es) \<Longrightarrow>
    takes env view now s es s' \<and> length es \<le> n \<and> (length es < n \<longrightarrow> (\<forall>k. waiting_of env view s' k = []))
    \<and> (\<forall>k l. length (of_key k es) \<le> Suc (length (of_key l es)) \<or> waiting_of env view s' l = [])"
proof (induction n arbitrary: s es rule: less_induct)
  case (less n)
  show ?case
  proof (cases n)
    case 0
    then show ?thesis using less.prems by (auto simp: takes_nil)
  next
    case (Suc m)
    let ?active = "ql_smembers (qe_api env) (active_key env) s"
    have active: "k \<in> set ?active" if "waiting_of env view s k \<noteq> []" for k
      using less.prems(1) that by (simp add: lists_ok_def queueD(8) [OF env])
    show ?thesis
    proof (cases "?active = []")
      case True
      then show ?thesis using less.prems active Suc by (auto simp: takes_nil)
    next
      case False
      obtain s1 fs where pass: "fq_pass env now n ?active s = (s1, fs)" by fastforce
      note p = pass_takes [OF env less.prems(1) queueD(9) [OF env] pass]
      have one: "length (of_key k fs) \<le> 1" for k using p by (meson le_trans if_splits(1) order_refl zero_le_one)
      have each: "length (of_key k fs) = 1" if "length fs < n" "waiting_of env view s k \<noteq> []" for k
        using p that active by blast
      have dry: "waiting_of env view s' k = []" if "takes env view now s es s'" "waiting_of env view s k = []" for k
        using that by (simp add: takes_def)
      show ?thesis
      proof (cases fs)
        case Nil
        then have r: "s' = s1" "es = []" using less.prems(2) pass False Suc by (auto split: list.splits)
        have "waiting_of env view s k = []" for k using each [of k] Nil Suc by auto
        then show ?thesis using p r Nil dry Suc by auto
      next
        case (Cons e rest)
        obtain gs where rec: "fq_claim_batch env now (m - length rest) s1 = (s', gs)" and es: "es = fs @ gs"
          using less.prems(2) pass False Suc Cons by (auto split: list.splits prod.splits)
        have "m - length rest < n" "lists_ok env view s1" using Suc p by (auto simp: takes_def)
        note ih = less.IH [OF this rec]
        have t: "takes env view now s es s'" unfolding es using takes_append [OF conjunct1 [OF p] conjunct1 [OF ih]] .
        have len: "length es \<le> n" "length es < n \<longrightarrow> length gs < m - length rest" using ih p Suc Cons by (auto simp: es)
        have "length (of_key k es) \<le> Suc (length (of_key l es)) \<or> waiting_of env view s' l = []" for k l
        proof (cases "length fs < n \<and> waiting_of env view s l \<noteq> []")
          case True
          then have "length (of_key l fs) = 1" using each by blast
          moreover have "length (of_key k gs) \<le> Suc (length (of_key l gs)) \<or> waiting_of env view s' l = []" using ih by blast
          ultimately show ?thesis using one [of k] by (auto simp: es)
        next
          case False
          show ?thesis
          proof (cases "waiting_of env view s l = []")
            case True
            then show ?thesis using dry [OF t] by blast
          next
            case 2: False
            then have "m - length rest = 0" using False p Cons Suc by auto
            then have "gs = []" using ih by simp
            then show ?thesis using one [of k] by (simp add: es)
          qed
        qed
        then show ?thesis using t len ih by blast
      qed
    qed
  qed
qed

end
