(* ===== verification/Ready_Queue_Runs.thy ===== *)
theory Ready_Queue_Runs
  imports Ready_Queue_Laws
begin

text \<open>
  Any number of processes on the fair queue, interleaved command by command. A worker between two commands
  of one method has something in hand; it can crash there. Sent, acknowledged and lost payloads and the keys
  a crash left inactive are history.
\<close>

subsection \<open>Steps\<close>

datatype hand =
    Idle
  | Popped string queue_envelope
  | Drained string
  | Rechecking string
  | Restoring string
  | Requeueing queue_envelope

record 's queue_world =
  qw_server :: 's
  qw_hands :: "string \<Rightarrow> hand"
  qw_sent :: "queue_envelope list"
  qw_acked :: "string list"
  qw_lost :: "string list"
  qw_stranded :: "string list"

datatype queue_action =
    SendPayload string rat dict
  | PopKey string string
  | Advance string rat
  | AckMessage queue_envelope
  | NackMessage string queue_envelope
  | ReclaimEntry string queue_envelope
  | CrashWorker string

definition now_in :: "string \<Rightarrow> hand \<Rightarrow> 's \<Rightarrow> 's queue_world \<Rightarrow> 's queue_world" where
  "now_in c h s w = w\<lparr>qw_server := s, qw_hands := (qw_hands w)(c := h)\<rparr>"

definition advance_hand :: "'s queue_env \<Rightarrow> string \<Rightarrow> rat \<Rightarrow> 's queue_world \<Rightarrow> 's queue_world" where
  "advance_hand env c now w =
     (let r = qe_api env; s = qw_server w in
      case qw_hands w c of
        Idle \<Rightarrow> w
      | Popped k e \<Rightarrow> now_in c Idle (fq_record env now k e s) w
      | Drained k \<Rightarrow> now_in c (Rechecking k) (ql_srem r (active_key env) k s) w
      | Rechecking k \<Rightarrow> now_in c (if ql_llen r (list_key env k) s > 0 then Restoring k else Idle) s w
      | Restoring k \<Rightarrow> now_in c Idle (ql_sadd r (active_key env) k s) w
      | Requeueing e \<Rightarrow> now_in c Idle (fq_push env e True s) w)"

definition crash_hand :: "string \<Rightarrow> 's queue_world \<Rightarrow> 's queue_world" where
  "crash_hand c w =
     (let w' = now_in c Idle (qw_server w) w in
      case qw_hands w c of
        Popped k e \<Rightarrow> w'\<lparr>qw_lost := fv_id e # qw_lost w\<rparr>
      | Requeueing e \<Rightarrow> w'\<lparr>qw_lost := fv_id e # qw_lost w\<rparr>
      | Rechecking k \<Rightarrow> w'\<lparr>qw_stranded := k # qw_stranded w\<rparr>
      | Restoring k \<Rightarrow> w'\<lparr>qw_stranded := k # qw_stranded w\<rparr>
      | _ \<Rightarrow> w')"

fun queue_step :: "'s queue_env \<Rightarrow> queue_action \<Rightarrow> 's queue_world \<Rightarrow> 's queue_world" where
  "queue_step env (SendPayload i now p) w =
     w\<lparr>qw_server := fq_send env i now p (qw_server w), qw_sent := new_envelope i now p # qw_sent w\<rparr>"
| "queue_step env (PopKey c k) w =
     (case qw_hands w c of
        Idle \<Rightarrow> (case ql_rpop (qe_api env) (list_key env k) (qw_server w) of
                   (s, None) \<Rightarrow> now_in c (Drained k) s w
                 | (s, Some Malformed) \<Rightarrow> now_in c Idle s w
                 | (s, Some (Stored e)) \<Rightarrow> now_in c (Popped k e) s w)
      | _ \<Rightarrow> w)"
| "queue_step env (Advance c now) w = advance_hand env c now w"
| "queue_step env (AckMessage e) w = w\<lparr>qw_server := fq_ack env e (qw_server w), qw_acked := fv_id e # qw_acked w\<rparr>"
| "queue_step env (NackMessage c e) w =
     (case qw_hands w c of
        Idle \<Rightarrow> now_in c (Requeueing e) (fst (ql_hdel (qe_api env) (in_flight_key env) (fv_id e) (qw_server w))) w
      | _ \<Rightarrow> w)"
| "queue_step env (ReclaimEntry c e) w =
     (case qw_hands w c of
        Idle \<Rightarrow> (case ql_hdel (qe_api env) (in_flight_key env) (fv_id e) (qw_server w) of
                   (s, deleted) \<Rightarrow> now_in c (if deleted then Requeueing e else Idle) s w)
      | _ \<Rightarrow> w)"
| "queue_step env (CrashWorker c) w = crash_hand c w"

text \<open>
  Identifiers of new envelopes are fresh. A process acknowledges, returns or reclaims only envelopes it read from
  the server, at any time since.
\<close>

definition plain :: "queue_envelope \<Rightarrow> queue_envelope" where
  "plain e = e\<lparr>fv_claimed := None\<rparr>"

fun may_happen :: "queue_action \<Rightarrow> 's queue_world \<Rightarrow> bool" where
  "may_happen (SendPayload i now p) w \<longleftrightarrow> i \<notin> set (map fv_id (qw_sent w))"
| "may_happen (AckMessage e) w \<longleftrightarrow> plain e \<in> set (qw_sent w)"
| "may_happen (NackMessage c e) w \<longleftrightarrow> plain e \<in> set (qw_sent w)"
| "may_happen (ReclaimEntry c e) w \<longleftrightarrow> plain e \<in> set (qw_sent w)"
| "may_happen _ w \<longleftrightarrow> True"

definition new_world :: "'s \<Rightarrow> 's queue_world" where
  "new_world s = \<lparr>qw_server = s, qw_hands = (\<lambda>c. Idle), qw_sent = [], qw_acked = [], qw_lost = [], qw_stranded = []\<rparr>"

definition unused_queue :: "'s queue_env \<Rightarrow> ('s \<Rightarrow> queue_data) \<Rightarrow> 's \<Rightarrow> bool" where
  "unused_queue env view s \<longleftrightarrow>
     (\<forall>k. qd_lists (view s) (list_key env k) = []) \<and> (\<forall>f. qd_hashes (view s) (in_flight_key env) f = None)"

inductive reachable_world :: "'s queue_env \<Rightarrow> ('s \<Rightarrow> queue_data) \<Rightarrow> 's queue_world \<Rightarrow> bool" for env view where
  start: "unused_queue env view s \<Longrightarrow> reachable_world env view (new_world s)"
| step: "reachable_world env view w \<Longrightarrow> may_happen a w \<Longrightarrow> reachable_world env view (queue_step env a w)"

subsection \<open>The methods as steps\<close>

fun queue_steps :: "'s queue_env \<Rightarrow> queue_action list \<Rightarrow> 's queue_world \<Rightarrow> 's queue_world" where
  "queue_steps env [] w = w"
| "queue_steps env (a # acts) w = queue_steps env acts (queue_step env a w)"

text \<open>A worker that is left alone between its commands does what the sequential method does.\<close>

lemma claim_one_is_steps:
  assumes "qw_hands w c = Idle"
  shows "queue_steps env [PopKey c k, Advance c now, Advance c now, Advance c now] w
       = w\<lparr>qw_server := fst (fq_claim_one env now k (qw_server w)), qw_hands := (qw_hands w)(c := Idle)\<rparr>"
proof -
  obtain s1 p where pop: "ql_rpop (qe_api env) (list_key env k) (qw_server w) = (s1, p)" by fastforce
  consider "p = None" | "p = Some Malformed" | e where "p = Some (Stored e)" by (cases p) (auto elim: stored.exhaust)
  then show ?thesis using assms by cases (simp_all add: pop fq_claim_one_def advance_hand_def now_in_def Let_def)
qed

lemma nack_is_steps:
  assumes "qw_hands w c = Idle"
  shows "queue_steps env [NackMessage c e, Advance c now] w
       = w\<lparr>qw_server := fq_nack env e (qw_server w), qw_hands := (qw_hands w)(c := Idle)\<rparr>"
  using assms by (simp add: fq_nack_def advance_hand_def now_in_def)

lemma reclaim_is_steps:
  assumes "qw_hands w c = Idle" and "is_stale threshold e"
  shows "queue_steps env [ReclaimEntry c e, Advance c now] w
       = w\<lparr>qw_server := fst (fq_reclaim_each env threshold [(fv_id e, Stored e)] (qw_server w)), qw_hands := (qw_hands w)(c := Idle)\<rparr>"
  using assms by (auto simp: advance_hand_def now_in_def split: prod.splits bool.splits)

subsection \<open>Where payloads are\<close>

definition listed :: "stored list \<Rightarrow> queue_envelope set" where
  "listed xs = plain ` {x. Stored x \<in> set xs}"

fun entered :: "stored option \<Rightarrow> queue_envelope set" where
  "entered (Some (Stored x)) = {plain x}"
| "entered _ = {}"

definition in_lists :: "'s queue_env \<Rightarrow> queue_data \<Rightarrow> queue_envelope set" where
  "in_lists env d = (\<Union>k. listed (qd_lists d (list_key env k)))"

definition in_flight :: "'s queue_env \<Rightarrow> queue_data \<Rightarrow> queue_envelope set" where
  "in_flight env d = (\<Union>f. entered (qd_hashes d (in_flight_key env) f))"

fun held :: "hand \<Rightarrow> queue_envelope set" where
  "held (Popped k e) = {plain e}"
| "held (Requeueing e) = {plain e}"
| "held _ = {}"

fun rechecked :: "hand \<Rightarrow> string set" where
  "rechecked (Rechecking k) = {k}"
| "rechecked (Restoring k) = {k}"
| "rechecked _ = {}"

definition in_hands :: "(string \<Rightarrow> hand) \<Rightarrow> queue_envelope set" where
  "in_hands hs = (\<Union>c. held (hs c))"

definition restored :: "(string \<Rightarrow> hand) \<Rightarrow> string set" where
  "restored hs = (\<Union>c. rechecked (hs c))"

definition found :: "'s queue_env \<Rightarrow> ('s \<Rightarrow> queue_data) \<Rightarrow> 's queue_world \<Rightarrow> queue_envelope set" where
  "found env view w = in_lists env (view (qw_server w)) \<union> in_flight env (view (qw_server w)) \<union> in_hands (qw_hands w)"

fun hand_ok :: "queue_envelope set \<Rightarrow> hand \<Rightarrow> bool" where
  "hand_ok sent (Popped k e) \<longleftrightarrow> fv_key e = k \<and> plain e \<in> sent"
| "hand_ok sent (Requeueing e) \<longleftrightarrow> plain e \<in> sent"
| "hand_ok sent _ \<longleftrightarrow> True"

definition places_ok :: "'s queue_env \<Rightarrow> ('s \<Rightarrow> queue_data) \<Rightarrow> 's queue_world \<Rightarrow> bool" where
  "places_ok env view w \<longleftrightarrow>
     (let d = view (qw_server w); sent = set (qw_sent w) in
      (\<forall>k. \<forall>x \<in> set (qd_lists d (list_key env k)). \<exists>e. x = Stored e \<and> fv_key e = k \<and> plain e \<in> sent)
    \<and> (\<forall>f x. qd_hashes d (in_flight_key env) f = Some x \<longrightarrow> (\<exists>e. x = Stored e \<and> fv_id e = f \<and> plain e \<in> sent))
    \<and> (\<forall>c. hand_ok sent (qw_hands w c)))"

definition world_ok :: "'s queue_env \<Rightarrow> ('s \<Rightarrow> queue_data) \<Rightarrow> 's queue_world \<Rightarrow> bool" where
  "world_ok env view w \<longleftrightarrow> distinct (map fv_id (qw_sent w)) \<and> (\<forall>e \<in> set (qw_sent w). plain e = e) \<and> places_ok env view w
   \<and> (\<forall>e \<in> set (qw_sent w). fv_id e \<in> set (qw_acked w) \<or> fv_id e \<in> set (qw_lost w) \<or> e \<in> found env view w)
   \<and> (\<forall>k. qd_lists (view (qw_server w)) (list_key env k) \<noteq> [] \<longrightarrow>
        k \<in> qd_sets (view (qw_server w)) (active_key env) \<or> k \<in> set (qw_stranded w) \<or> k \<in> restored (qw_hands w))"

lemma Union_at: "(\<Union>x. f x) = f c \<union> (\<Union>x \<in> - {c}. f x)"
  by auto

lemma hands_at:
  "in_hands (hs(c := h)) = held h \<union> (\<Union>x \<in> - {c}. held (hs x))" "in_hands hs = held (hs c) \<union> (\<Union>x \<in> - {c}. held (hs x))"
  "restored (hs(c := h)) = rechecked h \<union> (\<Union>x \<in> - {c}. rechecked (hs x))"
  "restored hs = rechecked (hs c) \<union> (\<Union>x \<in> - {c}. rechecked (hs x))"
  unfolding in_hands_def restored_def by (subst Union_at [of _ c]; auto)+

lemma lists_at:
  "in_lists env (d\<lparr>qd_lists := (qd_lists d)(list_key env k := xs)\<rparr>) = listed xs \<union> (\<Union>j \<in> - {k}. listed (qd_lists d (list_key env j)))"
  "in_lists env d = listed (qd_lists d (list_key env k)) \<union> (\<Union>j \<in> - {k}. listed (qd_lists d (list_key env j)))"
  unfolding in_lists_def by (subst Union_at [of _ k]; auto)+

lemma flight_at:
  "in_flight env (d\<lparr>qd_hashes := (qd_hashes d)(in_flight_key env := (qd_hashes d (in_flight_key env))(f := x))\<rparr>)
     = entered x \<union> (\<Union>i \<in> - {f}. entered (qd_hashes d (in_flight_key env) i))"
  "in_flight env d = entered (qd_hashes d (in_flight_key env) f) \<union> (\<Union>i \<in> - {f}. entered (qd_hashes d (in_flight_key env) i))"
  unfolding in_flight_def by (subst Union_at [of _ f]; auto)+

lemma found_same [simp]:
  "in_lists env (d\<lparr>qd_sets := g\<rparr>) = in_lists env d" "in_lists env (d\<lparr>qd_hashes := h\<rparr>) = in_lists env d"
  "in_flight env (d\<lparr>qd_sets := g\<rparr>) = in_flight env d" "in_flight env (d\<lparr>qd_lists := l\<rparr>) = in_flight env d"
  by (simp_all add: in_lists_def in_flight_def)

lemma listed_simps [simp]:
  "listed [] = {}" "listed (Stored e # xs) = insert (plain e) (listed xs)" "listed (Malformed # xs) = listed xs"
  "listed (xs @ ys) = listed xs \<union> listed ys"
  by (auto simp: listed_def)

lemma found_push:
  assumes "sound_queue env view"
  shows "in_lists env (view (fq_push env e front s)) = insert (plain e) (in_lists env (view s))"
    "in_flight env (view (fq_push env e front s)) = in_flight env (view s)"
  by (simp_all add: push_view [OF assms] lists_at(1) lists_at(2) [of env "view s" "fv_key e"] Un_assoc)

lemma push_parts:
  assumes "sound_queue env view"
  shows "qd_sets (view (fq_push env e front s)) (active_key env) = insert (fv_key e) (qd_sets (view s) (active_key env))"
    "k \<noteq> fv_key e \<Longrightarrow> qd_lists (view (fq_push env e front s)) (list_key env k) = qd_lists (view s) (list_key env k)"
  by (simp_all add: push_view [OF assms])

lemma same_message:
  assumes "distinct (map fv_id sent)" and "plain x \<in> set sent" and "plain y \<in> set sent" and "fv_id x = fv_id y"
  shows "plain x = plain y"
  using assms inj_onD [of fv_id "set sent" "plain x" "plain y"] by (simp add: distinct_map plain_def)

lemma world_ok_step:
  assumes ok: "world_ok env view w" and places: "places_ok env view w'"
    and hist: "qw_sent w' = qw_sent w" "set (qw_acked w) \<subseteq> set (qw_acked w')" "set (qw_lost w) \<subseteq> set (qw_lost w')"
      "set (qw_stranded w) \<subseteq> set (qw_stranded w')"
    and keep: "\<And>e. e \<in> set (qw_sent w) \<Longrightarrow> e \<in> found env view w \<Longrightarrow>
       e \<in> found env view w' \<or> fv_id e \<in> set (qw_acked w') \<or> fv_id e \<in> set (qw_lost w')"
    and active: "\<And>k. qd_lists (view (qw_server w')) (list_key env k) \<noteq> [] \<Longrightarrow>
       qd_lists (view (qw_server w)) (list_key env k) \<noteq> [] \<and> k \<in> qd_sets (view (qw_server w)) (active_key env) \<union> restored (qw_hands w)
       \<or> k \<in> set (qw_stranded w') \<Longrightarrow> k \<in> qd_sets (view (qw_server w')) (active_key env) \<union> restored (qw_hands w') \<union> set (qw_stranded w')"
    and new: "\<And>k. qd_lists (view (qw_server w')) (list_key env k) \<noteq> [] \<Longrightarrow> qd_lists (view (qw_server w)) (list_key env k) = [] \<Longrightarrow>
       k \<in> qd_sets (view (qw_server w')) (active_key env)"
  shows "world_ok env view w'"
proof -
  have "fv_id e \<in> set (qw_acked w') \<or> fv_id e \<in> set (qw_lost w') \<or> e \<in> found env view w'" if "e \<in> set (qw_sent w)" for e
    using that ok hist keep [OF that] unfolding world_ok_def by blast
  moreover have "k \<in> qd_sets (view (qw_server w')) (active_key env) \<or> k \<in> set (qw_stranded w') \<or> k \<in> restored (qw_hands w')"
    if k: "qd_lists (view (qw_server w')) (list_key env k) \<noteq> []" for k
    using k ok hist(4) active [OF k] new [OF k] unfolding world_ok_def by blast
  ultimately show ?thesis using ok places unfolding world_ok_def hist(1) by blast
qed

subsection \<open>Every step keeps the queue in order\<close>

lemma world_okD:
  assumes "world_ok env view w"
  shows "distinct (map fv_id (qw_sent w))" "places_ok env view w" "\<And>e. e \<in> set (qw_sent w) \<Longrightarrow> plain e = e"
  using assms by (simp_all add: world_ok_def)

lemma placesD:
  assumes "places_ok env view w"
  shows "\<And>k x. x \<in> set (qd_lists (view (qw_server w)) (list_key env k)) \<Longrightarrow> \<exists>e. x = Stored e \<and> fv_key e = k \<and> plain e \<in> set (qw_sent w)"
    "\<And>f x. qd_hashes (view (qw_server w)) (in_flight_key env) f = Some x \<Longrightarrow> \<exists>e. x = Stored e \<and> fv_id e = f \<and> plain e \<in> set (qw_sent w)"
    "\<And>c. hand_ok (set (qw_sent w)) (qw_hands w c)"
  using assms by (simp_all add: places_ok_def Let_def)

lemma now_in_simps [simp]:
  "qw_server (now_in c h s w) = s" "qw_hands (now_in c h s w) = (qw_hands w)(c := h)" "qw_sent (now_in c h s w) = qw_sent w"
  "qw_acked (now_in c h s w) = qw_acked w" "qw_lost (now_in c h s w) = qw_lost w" "qw_stranded (now_in c h s w) = qw_stranded w"
  by (simp_all add: now_in_def)

lemma plain_fields [simp]: "fv_id (plain e) = fv_id e" "fv_key (plain e) = fv_key e" "plain (e\<lparr>fv_claimed := t\<rparr>) = plain e"
  by (simp_all add: plain_def)

text \<open>A list that loses its oldest payload, a hash that gains or loses an entry, a list that gains a payload.\<close>

lemma places_pop:
  assumes "places_ok env view w" and "view s = (view (qw_server w))\<lparr>qd_lists := (qd_lists (view (qw_server w)))(list_key env k := xs)\<rparr>"
    and "set xs \<subseteq> set (qd_lists (view (qw_server w)) (list_key env k))" and "hand_ok (set (qw_sent w)) h"
  shows "places_ok env view (now_in c h s w)"
  using assms placesD [OF assms(1)] by (auto simp: places_ok_def Let_def)

lemma places_flight:
  assumes "places_ok env view w"
    and "view s = (view (qw_server w))\<lparr>qd_hashes := (qd_hashes (view (qw_server w)))(in_flight_key env :=
       (qd_hashes (view (qw_server w)) (in_flight_key env))(f := x))\<rparr>"
    and "x = None \<or> (\<exists>e. x = Some (Stored e) \<and> fv_id e = f \<and> plain e \<in> set (qw_sent w))" and "hand_ok (set (qw_sent w)) h"
  shows "places_ok env view (now_in c h s w)"
  using assms(3,4) placesD [OF assms(1)] unfolding places_ok_def Let_def now_in_simps assms(2) by auto

lemma places_sets:
  assumes "places_ok env view w" and "view s = (view (qw_server w))\<lparr>qd_sets := g\<rparr>" and "hand_ok (set (qw_sent w)) h"
  shows "places_ok env view (now_in c h s w)"
  using assms(3) placesD [OF assms(1)] unfolding places_ok_def Let_def now_in_simps assms(2) by auto

lemma places_push:
  assumes env: "sound_queue env view" and "places_ok env view w" and "plain e \<in> set (qw_sent w)" and "hand_ok (set (qw_sent w)) h"
  shows "places_ok env view (now_in c h (fq_push env e front (qw_server w)) w)"
  using assms(3,4) placesD [OF assms(2)] unfolding places_ok_def Let_def now_in_simps push_view [OF env] by auto

lemma ok_requeue:
  assumes env: "sound_queue env view" and ok: "world_ok env view w" and h: "qw_hands w c = Requeueing e"
  shows "world_ok env view (now_in c Idle (fq_push env e True (qw_server w)) w)"
proof (rule world_ok_step [OF ok])
  have "plain e \<in> set (qw_sent w)" using placesD(3) [OF world_okD(2) [OF ok], of c] h by simp
  then show "places_ok env view (now_in c Idle (fq_push env e True (qw_server w)) w)"
    by (intro places_push [OF env world_okD(2) [OF ok]]) simp_all
  show "k \<in> qd_sets (view (qw_server (now_in c Idle (fq_push env e True (qw_server w)) w))) (active_key env)"
    if "qd_lists (view (qw_server (now_in c Idle (fq_push env e True (qw_server w)) w))) (list_key env k) \<noteq> []"
      and "qd_lists (view (qw_server w)) (list_key env k) = []" for k
    using that push_parts(2) [OF env, of k e] by (cases "k = fv_key e") (simp_all add: push_parts(1) [OF env])
qed (auto simp: found_def found_push [OF env] push_parts(1) [OF env] hands_at(1,3) hands_at(2,4) [of "qw_hands w" c] h)

lemma ok_restore:
  assumes env: "sound_queue env view" and ok: "world_ok env view w" and h: "qw_hands w c = Restoring k"
  shows "world_ok env view (now_in c Idle (ql_sadd (qe_api env) (active_key env) k (qw_server w)) w)"
proof (rule world_ok_step [OF ok])
  show "places_ok env view (now_in c Idle (ql_sadd (qe_api env) (active_key env) k (qw_server w)) w)"
    by (rule places_sets [OF world_okD(2) [OF ok] queueD(6) [OF env]]) simp
qed (auto simp: found_def queueD [OF env] hands_at(1,3) hands_at(2,4) [of "qw_hands w" c] h)

lemma ok_recheck:
  assumes env: "sound_queue env view" and ok: "world_ok env view w" and h: "qw_hands w c = Rechecking k"
  shows "world_ok env view (now_in c (if ql_llen (qe_api env) (list_key env k) (qw_server w) > 0 then Restoring k else Idle) (qw_server w) w)"
proof (rule world_ok_step [OF ok])
  show "places_ok env view (now_in c (if ql_llen (qe_api env) (list_key env k) (qw_server w) > 0 then Restoring k else Idle) (qw_server w) w)"
    using placesD [OF world_okD(2) [OF ok]] by (simp add: places_ok_def Let_def)
qed (auto simp: found_def queueD [OF env] hands_at(1,3) hands_at(2,4) [of "qw_hands w" c] h split: if_splits)

lemma ok_prune:
  assumes env: "sound_queue env view" and ok: "world_ok env view w" and h: "qw_hands w c = Drained k"
  shows "world_ok env view (now_in c (Rechecking k) (ql_srem (qe_api env) (active_key env) k (qw_server w)) w)"
proof (rule world_ok_step [OF ok])
  show "places_ok env view (now_in c (Rechecking k) (ql_srem (qe_api env) (active_key env) k (qw_server w)) w)"
    by (rule places_sets [OF world_okD(2) [OF ok] queueD(7) [OF env]]) simp
qed (auto simp: found_def queueD [OF env] hands_at(1,3) hands_at(2,4) [of "qw_hands w" c] h)

text \<open>An entry with the same identifier holds the same message.\<close>

lemma entered_same:
  assumes ok: "world_ok env view w" and e: "plain e \<in> set (qw_sent w)"
  shows "entered (qd_hashes (view (qw_server w)) (in_flight_key env) (fv_id e)) \<subseteq> {plain e}"
proof (cases "qd_hashes (view (qw_server w)) (in_flight_key env) (fv_id e)")
  case (Some x)
  then obtain y where "x = Stored y" "fv_id y = fv_id e" "plain y \<in> set (qw_sent w)" using placesD(2) [OF world_okD(2) [OF ok]] by blast
  then show ?thesis using Some same_message [OF world_okD(1) [OF ok] _ e] by simp
qed simp

lemma ok_record:
  assumes env: "sound_queue env view" and ok: "world_ok env view w" and h: "qw_hands w c = Popped k e"
  shows "world_ok env view (now_in c Idle (fq_record env now k e (qw_server w)) w)"
proof (rule world_ok_step [OF ok])
  have e: "plain e \<in> set (qw_sent w)" using placesD(3) [OF world_okD(2) [OF ok], of c] h by simp
  show "places_ok env view (now_in c Idle (fq_record env now k e (qw_server w)) w)"
    using places_flight [OF world_okD(2) [OF ok] record_view [OF env], where c = c and h = Idle] e by simp
  show "x \<in> found env view (now_in c Idle (fq_record env now k e (qw_server w)) w) \<or> fv_id x \<in> set (qw_acked (now_in c Idle (fq_record env now k e (qw_server w)) w))
     \<or> fv_id x \<in> set (qw_lost (now_in c Idle (fq_record env now k e (qw_server w)) w))" if "x \<in> found env view w" for x
    using that entered_same [OF ok e]
    by (auto simp: found_def record_view [OF env] flight_at(1) flight_at(2) [of env "view (qw_server w)" "fv_id e"] hands_at(1) hands_at(2) [of "qw_hands w" c] h)
qed (auto simp: record_view [OF env] hands_at(3) hands_at(4) [of "qw_hands w" c] h)

lemma ok_advance: "sound_queue env view \<Longrightarrow> world_ok env view w \<Longrightarrow> world_ok env view (advance_hand env c now w)"
  by (cases "qw_hands w c")
    (simp_all only: advance_hand_def Let_def hand.case ok_record ok_prune ok_recheck ok_restore ok_requeue)

lemma ok_pop:
  assumes env: "sound_queue env view" and ok: "world_ok env view w"
  shows "world_ok env view (queue_step env (PopKey c k) w)"
proof (cases "qw_hands w c")
  case Idle
  let ?l = "qd_lists (view (qw_server w)) (list_key env k)"
  obtain s p where pop: "ql_rpop (qe_api env) (list_key env k) (qw_server w) = (s, p)" by fastforce
  have v: "view s = (view (qw_server w))\<lparr>qd_lists := (qd_lists (view (qw_server w)))(list_key env k := butlast ?l)\<rparr>"
    and p: "p = (if ?l = [] then None else Some (last ?l))"
    using queueD(3,4) [OF env, of "list_key env k" "qw_server w"] pop by simp_all
  note places = places_pop [OF world_okD(2) [OF ok] v]
  show ?thesis
  proof (cases "?l = []")
    case True
    then have "world_ok env view (now_in c (Drained k) s w)"
    proof (intro world_ok_step [OF ok] places)
    qed (auto simp: found_def v hands_at(1,3) hands_at(2,4) [of "qw_hands w" c] Idle fun_upd_idem)
    then show ?thesis using True Idle p by (simp add: pop)
  next
    case False
    then have last: "last ?l \<in> set ?l" by simp
    then obtain e where e: "last ?l = Stored e" "fv_key e = k" "plain e \<in> set (qw_sent w)" using placesD(1) [OF world_okD(2) [OF ok]] by blast
    have l: "?l = butlast ?l @ [Stored e]" using False e(1) by (metis append_butlast_last_id)
    have "listed ?l = insert (plain e) (listed (butlast ?l))" by (subst l) simp
    then have "world_ok env view (now_in c (Popped k e) s w)"
    proof (intro world_ok_step [OF ok] places)
      show "set (butlast ?l) \<subseteq> set ?l" by (auto dest: in_set_butlastD)
    qed (use e in \<open>auto simp: found_def v lists_at(1) lists_at(2) [of env "view (qw_server w)" k] hands_at(1,3) hands_at(2,4) [of "qw_hands w" c] Idle
          split: if_splits\<close>)
    then show ?thesis using False Idle p e by (simp add: pop)
  qed
qed (use ok in simp_all)

lemma ok_take_back:
  assumes env: "sound_queue env view" and ok: "world_ok env view w" and e: "plain e \<in> set (qw_sent w)"
    and del: "ql_hdel (qe_api env) (in_flight_key env) (fv_id e) (qw_server w) = (s, b)"
    and h: "h = Requeueing e \<or> h = Idle \<and> qd_hashes (view (qw_server w)) (in_flight_key env) (fv_id e) = None"
    and idle: "qw_hands w c = Idle"
  shows "world_ok env view (now_in c h s w)"
proof (rule world_ok_step [OF ok])
  have v: "view s = (view (qw_server w))\<lparr>qd_hashes := (qd_hashes (view (qw_server w)))(in_flight_key env :=
     (qd_hashes (view (qw_server w)) (in_flight_key env))(fv_id e := None))\<rparr>"
    using queueD(11) [OF env, of "in_flight_key env" "fv_id e" "qw_server w"] del by simp
  show "places_ok env view (now_in c h s w)"
    by (rule places_flight [OF world_okD(2) [OF ok] v]) (use h e in auto)
  show "x \<in> found env view (now_in c h s w) \<or> fv_id x \<in> set (qw_acked (now_in c h s w)) \<or> fv_id x \<in> set (qw_lost (now_in c h s w))"
    if "x \<in> found env view w" for x
    using that entered_same [OF ok e] h
    by (auto simp: found_def v flight_at(1) flight_at(2) [of env "view (qw_server w)" "fv_id e"] hands_at(1) hands_at(2) [of "qw_hands w" c] idle)
  show "k \<in> qd_sets (view (qw_server (now_in c h s w))) (active_key env)"
    if "qd_lists (view (qw_server (now_in c h s w))) (list_key env k) \<noteq> []" "qd_lists (view (qw_server w)) (list_key env k) = []" for k
    using that by (simp add: v)
  show "k \<in> qd_sets (view (qw_server (now_in c h s w))) (active_key env) \<union> restored (qw_hands (now_in c h s w)) \<union> set (qw_stranded (now_in c h s w))"
    if "qd_lists (view (qw_server w)) (list_key env k) \<noteq> [] \<and> k \<in> qd_sets (view (qw_server w)) (active_key env) \<union> restored (qw_hands w)
       \<or> k \<in> set (qw_stranded (now_in c h s w))" for k
    using that by (auto simp: v hands_at(3) hands_at(4) [of "qw_hands w" c] idle)
qed simp_all

lemma ok_ack:
  assumes env: "sound_queue env view" and ok: "world_ok env view w" and e: "plain e \<in> set (qw_sent w)"
  shows "world_ok env view (queue_step env (AckMessage e) w)"
proof (rule world_ok_step [OF ok])
  have v: "view (fq_ack env e (qw_server w)) = (view (qw_server w))\<lparr>qd_hashes := (qd_hashes (view (qw_server w)))(in_flight_key env :=
     (qd_hashes (view (qw_server w)) (in_flight_key env))(fv_id e := None))\<rparr>"
    by (simp add: fq_ack_def queueD(11) [OF env])
  show "places_ok env view (queue_step env (AckMessage e) w)"
    using placesD [OF world_okD(2) [OF ok]] by (auto simp: places_ok_def Let_def v)
  show "x \<in> found env view (queue_step env (AckMessage e) w) \<or> fv_id x \<in> set (qw_acked (queue_step env (AckMessage e) w))
      \<or> fv_id x \<in> set (qw_lost (queue_step env (AckMessage e) w))" if "x \<in> found env view w" for x
    using that entered_same [OF ok e]
    by (auto simp: found_def v flight_at(1) flight_at(2) [of env "view (qw_server w)" "fv_id e"])
qed (auto simp: fq_ack_def queueD [OF env])

lemma ok_send:
  assumes env: "sound_queue env view" and ok: "world_ok env view w" and fresh: "i \<notin> set (map fv_id (qw_sent w))"
  shows "world_ok env view (queue_step env (SendPayload i now p) w)"
proof -
  let ?e = "new_envelope i now p"
  let ?w = "queue_step env (SendPayload i now p) w"
  have e: "fv_id ?e = i" "plain ?e = ?e" by (simp_all add: new_envelope_def plain_def)
  have s: "qw_server ?w = fq_push env ?e False (qw_server w)" by (simp add: fq_send_def)
  have wider: "hand_ok (set (qw_sent ?w)) (qw_hands ?w c)" for c
    using placesD(3) [OF world_okD(2) [OF ok], of c] by (cases "qw_hands w c") auto
  let ?w1 = "w\<lparr>qw_sent := ?e # qw_sent w\<rparr>"
  have one: "places_ok env view ?w1" using placesD(1,2) [OF world_okD(2) [OF ok]] wider by (fastforce simp: places_ok_def Let_def)
  have "?w = now_in [] (qw_hands w []) (fq_push env ?e False (qw_server ?w1)) ?w1" by (simp add: now_in_def fq_send_def)
  then have places: "places_ok env view ?w"
    using places_push [OF env one, of ?e "qw_hands w []" "[]" False] wider [of "[]"] e by simp
  have f: "found env view ?w = insert ?e (found env view w)"
    using e by (auto simp: found_def s found_push [OF env] simp del: queue_step.simps) (simp_all add: found_def)
  show ?thesis
    unfolding world_ok_def f
  proof (intro conjI)
    show "\<forall>k. qd_lists (view (qw_server ?w)) (list_key env k) \<noteq> [] \<longrightarrow>
        k \<in> qd_sets (view (qw_server ?w)) (active_key env) \<or> k \<in> set (qw_stranded ?w) \<or> k \<in> restored (qw_hands ?w)"
      using ok unfolding s world_ok_def push_view [OF env] by auto
  qed (use ok places fresh e in \<open>auto simp: world_ok_def\<close>)
qed

lemma ok_crash:
  assumes ok: "world_ok env view w"
  shows "world_ok env view (crash_hand c w)"
proof (rule world_ok_step [OF ok])
  have "qw_server (crash_hand c w) = qw_server w" "qw_sent (crash_hand c w) = qw_sent w" "qw_hands (crash_hand c w) = (qw_hands w)(c := Idle)"
    by (cases "qw_hands w c"; simp add: crash_hand_def)+
  then show "places_ok env view (crash_hand c w)" using placesD [OF world_okD(2) [OF ok]] by (simp add: places_ok_def Let_def)
qed (cases "qw_hands w c"; auto simp: crash_hand_def Let_def found_def hands_at(1,3) hands_at(2,4) [of "qw_hands w" c])+

lemma ok_step:
  assumes env: "sound_queue env view" and ok: "world_ok env view w" and may: "may_happen a w"
  shows "world_ok env view (queue_step env a w)"
proof (cases a)
  case (SendPayload i now p)
  then show ?thesis using ok_send [OF env ok] may by simp
next
  case (PopKey c k)
  then show ?thesis using ok_pop [OF env ok] by blast
next
  case (Advance c now)
  then show ?thesis using ok_advance [OF env ok] by simp
next
  case (AckMessage e)
  then show ?thesis using ok_ack [OF env ok] may by simp
next
  case (NackMessage c e)
  obtain s b where del: "ql_hdel (qe_api env) (in_flight_key env) (fv_id e) (qw_server w) = (s, b)" by fastforce
  show ?thesis
  proof (cases "qw_hands w c")
    case Idle
    then show ?thesis using NackMessage ok_take_back [OF env ok _ del, of "Requeueing e" c] may by (simp add: del)
  qed (use NackMessage ok in simp_all)
next
  case (ReclaimEntry c e)
  obtain s b where del: "ql_hdel (qe_api env) (in_flight_key env) (fv_id e) (qw_server w) = (s, b)" by fastforce
  have b: "b \<longleftrightarrow> qd_hashes (view (qw_server w)) (in_flight_key env) (fv_id e) \<noteq> None"
    using queueD(12) [OF env, of "in_flight_key env" "fv_id e" "qw_server w"] del by simp
  show ?thesis
  proof (cases "qw_hands w c")
    case Idle
    then show ?thesis using ReclaimEntry ok_take_back [OF env ok _ del, of "if b then Requeueing e else Idle" c] may b by (simp add: del)
  qed (use ReclaimEntry ok in simp_all)
next
  case (CrashWorker c)
  then show ?thesis using ok_crash [OF ok] by simp
qed

lemma ok_start: "unused_queue env view s \<Longrightarrow> world_ok env view (new_world s)"
  by (simp add: world_ok_def places_ok_def unused_queue_def new_world_def Let_def)

lemma reachable_ok:
  assumes "sound_queue env view" and "reachable_world env view w"
  shows "world_ok env view w"
  using assms(2)
proof (induction rule: reachable_world.induct)
  case (start s)
  then show ?case by (rule ok_start)
next
  case (step w a)
  then show ?case using ok_step [OF assms(1)] by blast
qed

fun may_run :: "'s queue_env \<Rightarrow> queue_action list \<Rightarrow> 's queue_world \<Rightarrow> bool" where
  "may_run env [] w \<longleftrightarrow> True"
| "may_run env (a # acts) w \<longleftrightarrow> may_happen a w \<and> may_run env acts (queue_step env a w)"

lemma reachable_steps: "reachable_world env view w \<Longrightarrow> may_run env acts w \<Longrightarrow> reachable_world env view (queue_steps env acts w)"
  by (induction acts arbitrary: w) (simp_all add: reachable_world.step)


text \<open>With no worker between two commands and no crash behind it, the queue is in order for a batch.\<close>

lemma quiet_lists_ok:
  assumes "sound_queue env view" and "reachable_world env view w" and idle: "\<And>c. qw_hands w c = Idle" and "qw_stranded w = []"
  shows "lists_ok env view (qw_server w)"
proof -
  note ok = reachable_ok [OF assms(1,2)]
  have "restored (qw_hands w) = {}" using idle by (simp add: restored_def)
  then have "k \<in> qd_sets (view (qw_server w)) (active_key env)" if "qd_lists (view (qw_server w)) (list_key env k) \<noteq> []" for k
    using ok that assms(4) unfolding world_ok_def by auto
  then show ?thesis using placesD(1) [OF world_okD(2) [OF ok]] by (fastforce simp: lists_ok_def waiting_of_def)
qed

text \<open>
  C28. A batch is fair. Claimed from a quiet queue, it holds the oldest payloads of every key in their order and leaves
  the rest; it is full or the queue is dry; and of two keys neither gets two payloads more than the other while
  the other has any left.
\<close>

theorem batch_is_fair:
  assumes "sound_queue env view" and "reachable_world env view w" and "\<And>c. qw_hands w c = Idle" and "qw_stranded w = []"
    and "fq_claim_batch env now n (qw_server w) = (s', es)"
  shows "(\<forall>k. map Stored (of_key k es) = map (stamp now) (take (length (of_key k es)) (waiting_of env view (qw_server w) k))
           \<and> waiting_of env view s' k = drop (length (of_key k es)) (waiting_of env view (qw_server w) k))
    \<and> length es \<le> n \<and> (length es = n \<or> (\<forall>k. waiting_of env view s' k = []))
    \<and> (\<forall>k l. length (of_key k es) \<le> length (of_key l es) + 1 \<or> waiting_of env view s' l = [])"
  using batch_takes [OF assms(1) quiet_lists_ok [OF assms(1-4)] assms(5)] by (fastforce simp: takes_def)

subsection \<open>A server that keeps the contract\<close>

record queue_tables =
  qt_lists :: "(string \<times> stored list) list"
  qt_sets :: "(string \<times> string list) list"
  qt_hashes :: "(string \<times> (string \<times> stored) list) list"

definition queue_view :: "queue_tables \<Rightarrow> queue_data" where
  "queue_view t = \<lparr>qd_lists = row [] (qt_lists t), qd_sets = (\<lambda>k. set (row [] (qt_sets t) k)), qd_hashes = (\<lambda>k. map_of (row [] (qt_hashes t) k))\<rparr>"

definition keys_held :: "queue_tables \<Rightarrow> string list" where
  "keys_held t = filter (\<lambda>k. row [] (qt_lists t) k \<noteq> []) (map fst (qt_lists t)) @ filter (\<lambda>k. row [] (qt_sets t) k \<noteq> []) (map fst (qt_sets t))
     @ filter (\<lambda>k. row [] (qt_hashes t) k \<noteq> []) (map fst (qt_hashes t))"

definition queue_tables_api :: "queue_tables queue_api" where
  "queue_tables_api = \<lparr>
     ql_lpush = (\<lambda>k x t. t\<lparr>qt_lists := AList.update k (x # row [] (qt_lists t) k) (qt_lists t)\<rparr>),
     ql_rpush = (\<lambda>k x t. t\<lparr>qt_lists := AList.update k (row [] (qt_lists t) k @ [x]) (qt_lists t)\<rparr>),
     ql_rpop = (\<lambda>k t. (t\<lparr>qt_lists := AList.update k (butlast (row [] (qt_lists t) k)) (qt_lists t)\<rparr>,
        if row [] (qt_lists t) k = [] then None else Some (last (row [] (qt_lists t) k)))),
     ql_llen = (\<lambda>k t. length (row [] (qt_lists t) k)),
     ql_sadd = (\<lambda>k m t. t\<lparr>qt_sets := AList.update k (filter (\<lambda>x. x \<noteq> m) (row [] (qt_sets t) k) @ [m]) (qt_sets t)\<rparr>),
     ql_srem = (\<lambda>k m t. t\<lparr>qt_sets := AList.update k (filter (\<lambda>x. x \<noteq> m) (row [] (qt_sets t) k)) (qt_sets t)\<rparr>),
     ql_smembers = (\<lambda>k t. remdups (row [] (qt_sets t) k)),
     ql_hset = (\<lambda>k f x t. t\<lparr>qt_hashes := AList.update k (AList.update f x (row [] (qt_hashes t) k)) (qt_hashes t)\<rparr>),
     ql_hdel = (\<lambda>k f t. (t\<lparr>qt_hashes := AList.update k (AList.delete f (row [] (qt_hashes t) k)) (qt_hashes t)\<rparr>,
        \<not> Option.is_none (map_of (row [] (qt_hashes t) k) f))),
     ql_hscan = (\<lambda>k t. AList.clearjunk (row [] (qt_hashes t) k)),
     ql_hlen = (\<lambda>k t. length (remdups (map fst (row [] (qt_hashes t) k)))),
     ql_expire = (\<lambda>k n t. t),
     ql_scan = (\<lambda>p t. filter (starts_with p) (keys_held t)),
     ql_delete = (\<lambda>k t. (t\<lparr>qt_lists := AList.update k [] (qt_lists t), qt_sets := AList.update k [] (qt_sets t), qt_hashes := AList.update k [] (qt_hashes t)\<rparr>,
        if k \<in> set (keys_held t) then 1 else 0))\<rparr>"

definition queue_tables_env :: "queue_tables queue_env" where
  "queue_tables_env = \<lparr>qe_api = queue_tables_api, qe_namespace = ''entourage:queue'', qe_ttl = 86400, qe_reclaim_after = 300\<rparr>"

lemma keys_held_iff: "k \<in> set (keys_held t) \<longleftrightarrow> key_exists (queue_view t) k"
proof -
  have "(\<exists>f v. map_of xs f = Some v) \<longleftrightarrow> xs \<noteq> []" for xs :: "(string \<times> stored) list" by (cases xs) auto
  then show ?thesis
    using row_held [of "qt_lists t" k] row_held [of "qt_sets t" k] row_held [of "qt_hashes t" k]
    by (auto simp: keys_held_def key_exists_def queue_view_def)
qed

lemma clearjunk_entries: "set (AList.clearjunk xs) = {(f, x). map_of xs f = Some x}"
  using map_of_eq_Some_iff [OF distinct_clearjunk [of xs]] by (auto simp: map_of_clearjunk)

lemma queue_tables_sound: "sound_queue queue_tables_env queue_view"
  unfolding sound_queue_def queue_contract_def
  by (simp add: queue_tables_env_def queue_tables_api_def keys_held_iff clearjunk_entries)
     (auto simp: queue_view_def row_update update_conv' delete_conv' fun_eq_iff dom_map_of_conv_image_fst length_remdups_card_conv Option.is_none_def)

definition no_queue :: queue_tables where
  "no_queue = \<lparr>qt_lists = [], qt_sets = [], qt_hashes = []\<rparr>"

lemma no_queue_unused: "unused_queue queue_tables_env queue_view no_queue"
  by (simp add: unused_queue_def queue_view_def no_queue_def row_def)

lemma tables_reachable:
  "may_run queue_tables_env acts (new_world no_queue) \<Longrightarrow> reachable_world queue_tables_env queue_view (queue_steps queue_tables_env acts (new_world no_queue))"
  by (rule reachable_steps [OF reachable_world.start [OF no_queue_unused]])

text \<open>Two payloads of one session and one of another; a worker claims, a second one reclaims what it holds.\<close>

definition session_payload :: "string \<Rightarrow> string \<Rightarrow> dict" where
  "session_payload sid i = [(''session_id'', JStr sid), (''exec_id'', JStr i)]"

definition backlog :: "queue_action list" where
  "backlog = [SendPayload ''1'' 0 (session_payload ''A'' ''x''), SendPayload ''2'' 1 (session_payload ''A'' ''y''),
     SendPayload ''3'' 2 (session_payload ''B'' ''z'')]"

definition backlog_world :: "queue_tables queue_world" where
  "backlog_world = queue_steps queue_tables_env backlog (new_world no_queue)"

definition first_message :: queue_envelope where
  "first_message = new_envelope ''1'' 0 (session_payload ''A'' ''x'')"

definition worked_world :: "queue_tables queue_world" where
  "worked_world = queue_steps queue_tables_env (backlog @ [PopKey ''w'' ''A'', Advance ''w'' 3, ReclaimEntry ''v'' first_message, PopKey ''w'' ''B''])
     (new_world no_queue)"


theorem batch_is_fair_witness:
  "map fv_id (snd (fq_claim_batch queue_tables_env 9 2 (qw_server backlog_world))) = [''1'', ''3'']
   \<and> waiting_of queue_tables_env queue_view (fst (fq_claim_batch queue_tables_env 9 2 (qw_server backlog_world))) ''A''
     = drop (length (of_key ''A'' (snd (fq_claim_batch queue_tables_env 9 2 (qw_server backlog_world)))))
         (waiting_of queue_tables_env queue_view (qw_server backlog_world) ''A'')"
proof -
  have "may_run queue_tables_env backlog (new_world no_queue)" by code_simp
  then have reach: "reachable_world queue_tables_env queue_view backlog_world"
    unfolding backlog_world_def by (rule tables_reachable)
  have idle: "qw_hands backlog_world c = Idle" for c by (simp add: backlog_world_def backlog_def new_world_def)
  have calm: "qw_stranded backlog_world = []" by code_simp
  obtain s es where r: "fq_claim_batch queue_tables_env 9 2 (qw_server backlog_world) = (s, es)" by fastforce
  have "map fv_id (snd (fq_claim_batch queue_tables_env 9 2 (qw_server backlog_world))) = [''1'', ''3'']" by code_simp
  then show ?thesis using batch_is_fair [OF queue_tables_sound reach idle calm r] r by simp
qed

text \<open>
  Each batch begins a rotation of its own. A batch with less room than there are active sessions takes the first ones
  of the set again, however long the others wait.
\<close>

lemma deep_backlog_comes_first:
  "let s1 = fst (fq_claim_batch queue_tables_env 9 1 (qw_server backlog_world)) in
     map fv_id (snd (fq_claim_batch queue_tables_env 9 1 (qw_server backlog_world))) = [''1'']
   \<and> map fv_id (snd (fq_claim_batch queue_tables_env 10 1 s1)) = [''2'']"
  by code_simp

text \<open>A worker that crashes right after it took an envelope from its list leaves it nowhere.\<close>

lemma crash_loses_a_payload:
  "let w = queue_steps queue_tables_env (backlog @ [PopKey ''w'' ''B'', CrashWorker ''w'']) (new_world no_queue) in
     qw_lost w = [''3''] \<and> fq_pending_count queue_tables_env (qw_server w) ''B'' = 0 \<and> fq_in_flight_count queue_tables_env (qw_server w) = 0"
  by code_simp

text \<open>One that crashes before it made a key active again hides the payloads another process has just sent.\<close>

lemma crash_hides_a_payload:
  "let w = queue_steps queue_tables_env
       [SendPayload ''1'' 0 (session_payload ''A'' ''x''), PopKey ''v'' ''A'', Advance ''v'' 1, PopKey ''w'' ''A'',
        SendPayload ''2'' 2 (session_payload ''A'' ''y''), Advance ''w'' 3, CrashWorker ''w''] (new_world no_queue) in
     fq_pending_count queue_tables_env (qw_server w) ''A'' = 1 \<and> snd (fq_claim_batch queue_tables_env 9 10 (qw_server w)) = []"
  by code_simp

subsection \<open>Purge\<close>

lemma delete_each_view:
  assumes env: "sound_queue env view"
  shows "view (fst (fq_delete_each env ks s)) = (view s)\<lparr>qd_lists := (\<lambda>k. if k \<in> set ks then [] else qd_lists (view s) k),
     qd_sets := (\<lambda>k. if k \<in> set ks then {} else qd_sets (view s) k), qd_hashes := (\<lambda>k. if k \<in> set ks then Map.empty else qd_hashes (view s) k)\<rparr>"
proof (induction ks arbitrary: s)
  case Nil
  then show ?case by simp
next
  case (Cons k ks)
  obtain s1 n where d: "ql_delete (qe_api env) k s = (s1, n)" by fastforce
  have "view (fst (fq_delete_each env (k # ks) s)) = view (fst (fq_delete_each env ks s1))" by (simp add: d split: prod.splits)
  then show ?case using queueD(16) [OF env, of k s] d by (simp add: Cons.IH fun_eq_iff)
qed

text \<open>A purge leaves the queue as if it had never been used.\<close>

lemma purge_empties:
  assumes "sound_queue env view"
  shows "unused_queue env view (fst (fq_purge env s))"
proof -
  let ?ks = "ql_scan (qe_api env) (qe_namespace env @ '':'') s"
  have "starts_with (qe_namespace env @ '':'') (list_key env k)" "starts_with (qe_namespace env @ '':'') (in_flight_key env)" for k
    by (simp_all add: list_key_def in_flight_key_def starts_with_def)
  then have "list_key env k \<in> set ?ks \<or> qd_lists (view s) (list_key env k) = []"
    and "in_flight_key env \<in> set ?ks \<or> qd_hashes (view s) (in_flight_key env) f = None" for k f
    using queueD(15) [OF assms] by (auto simp: key_exists_def)
  then show ?thesis by (auto simp: unused_queue_def fq_purge_def delete_each_view [OF assms])
qed

subsection \<open>Reclaiming\<close>

definition requeued :: "'s queue_env \<Rightarrow> queue_data \<Rightarrow> stored \<Rightarrow> bool" where
  "requeued env d x \<longleftrightarrow> (\<exists>e. x = Stored e \<and> Stored e \<in> set (qd_lists d (list_key env (fv_key e))) \<and> fv_key e \<in> qd_sets d (active_key env))"

lemma requeued_push:
  assumes "sound_queue env view"
  shows "requeued env (view s) x \<Longrightarrow> requeued env (view (fq_push env f True s)) x" and "requeued env (view (fq_push env e True s)) (Stored e)"
  by (auto simp: requeued_def push_view [OF assms])

lemma requeued_hash [simp]: "requeued env (d\<lparr>qd_hashes := h\<rparr>) x \<longleftrightarrow> requeued env d x"
  by (simp add: requeued_def)

fun stale_row :: "rat \<Rightarrow> stored \<Rightarrow> bool" where
  "stale_row threshold (Stored e) = is_stale threshold e"
| "stale_row threshold Malformed = False"

text \<open>A scanned entry still stands as it was scanned, or it is gone and its envelope was put back.\<close>

definition scanned :: "'s queue_env \<Rightarrow> queue_data \<Rightarrow> rat \<Rightarrow> string \<times> stored \<Rightarrow> bool" where
  "scanned env d threshold r \<longleftrightarrow> qd_hashes d (in_flight_key env) (fst r) = Some (snd r)
     \<or> qd_hashes d (in_flight_key env) (fst r) = None \<and> (stale_row threshold (snd r) \<longrightarrow> requeued env d (snd r))"

lemma scanned_after:
  assumes env: "sound_queue env view" and all: "\<forall>r \<in> set ((i, x) # rows). scanned env (view s) threshold r"
    and del: "ql_hdel (qe_api env) (in_flight_key env) i s = (s1, b)"
  shows "\<not> stale_row threshold x \<or> \<not> b \<Longrightarrow> \<forall>r \<in> set rows. scanned env (view s1) threshold r"
    and "x = Stored e \<Longrightarrow> b \<Longrightarrow> \<forall>r \<in> set rows. scanned env (view (fq_push env e True s1)) threshold r"
proof -
  have v: "view s1 = (view s)\<lparr>qd_hashes := (qd_hashes (view s))(in_flight_key env := (qd_hashes (view s) (in_flight_key env))(i := None))\<rparr>"
    and b: "b \<longleftrightarrow> qd_hashes (view s) (in_flight_key env) i \<noteq> None"
    using queueD(11,12) [OF env, of "in_flight_key env" i s] del by simp_all
  show "\<forall>r \<in> set rows. scanned env (view s1) threshold r" if "\<not> stale_row threshold x \<or> \<not> b"
    using all that b unfolding scanned_def v by auto
  show "\<forall>r \<in> set rows. scanned env (view (fq_push env e True s1)) threshold r" if x: "x = Stored e" "b"
  proof
    fix r assume r: "r \<in> set rows"
    have h: "qd_hashes (view (fq_push env e True s1)) = qd_hashes (view s1)" by (simp add: push_view [OF env])
    have "requeued env (view (fq_push env e True s1)) y" if "requeued env (view s) y" for y
      using requeued_push(1) [OF env, of s1 y e] that by (simp add: v)
    moreover have "scanned env (view s) threshold r" "scanned env (view s) threshold (i, x)" using all r by simp_all
    ultimately show "scanned env (view (fq_push env e True s1)) threshold r"
      using b x requeued_push(2) [OF env, of e s1] unfolding scanned_def h by (auto simp: v)
  qed
qed

lemma reclaim_each_brings_back:
  assumes env: "sound_queue env view"
  shows "\<forall>r \<in> set rows. scanned env (view s) threshold r \<Longrightarrow>
     (\<forall>x. requeued env (view s) x \<longrightarrow> requeued env (view (fst (fq_reclaim_each env threshold rows s))) x)
     \<and> (\<forall>r \<in> set rows. stale_row threshold (snd r) \<longrightarrow> requeued env (view (fst (fq_reclaim_each env threshold rows s))) (snd r))"
proof (induction rows arbitrary: s)
  case Nil
  then show ?case by simp
next
  case (Cons r rows)
  obtain i x where r: "r = (i, x)" by fastforce
  obtain s1 b where del: "ql_hdel (qe_api env) (in_flight_key env) i s = (s1, b)" by fastforce
  have keep: "requeued env (view s1) y \<longleftrightarrow> requeued env (view s) y" for y
    using queueD(11) [OF env, of "in_flight_key env" i s] del by simp
  have b: "b \<longleftrightarrow> qd_hashes (view s) (in_flight_key env) i \<noteq> None"
    using queueD(12) [OF env, of "in_flight_key env" i s] del by simp
  have all: "\<forall>r \<in> set ((i, x) # rows). scanned env (view s) threshold r" using Cons.prems r by simp
  note after = scanned_after [OF env all del]
  show ?case
  proof (cases x)
    case Malformed
    then show ?thesis using Cons.IH [OF after(1)] keep r by (simp add: del)
  next
    case (Stored e)
    show ?thesis
    proof (cases "is_stale threshold e")
      case False
      then show ?thesis using Cons.IH [of s] Cons.prems r Stored by simp
    next
      case stale: True
      show ?thesis
      proof (cases b)
        case False
        then have "requeued env (view s) x" using all b stale Stored by (simp add: scanned_def)
        then show ?thesis using Cons.IH [OF after(1)] keep r Stored stale False by (simp add: del)
      next
        case True
        note ih = Cons.IH [OF after(2) [OF Stored True]]
        have "requeued env (view (fq_push env e True s1)) y" if "requeued env (view s) y" for y
          using requeued_push(1) [OF env, of s1 y e] that keep by blast
        moreover have "fst (fq_reclaim_each env threshold (r # rows) s) = fst (fq_reclaim_each env threshold rows (fq_push env e True s1))"
          using stale True by (simp add: r Stored del split: prod.splits)
        ultimately show ?thesis using ih requeued_push(2) [OF env, of e s1] r Stored by auto
      qed
    qed
  qed
qed

text \<open>A worker that died gives its envelopes back: after a reclaim, every claim older than the threshold is in its list again.\<close>

lemma stale_claims_come_back:
  assumes env: "sound_queue env view" and "qd_hashes (view s) (in_flight_key env) i = Some (Stored e)"
    and "is_stale (now - (case older of None \<Rightarrow> qe_reclaim_after env | Some t \<Rightarrow> t)) e"
  shows "requeued env (view (fst (fq_reclaim_stale env now older s))) (Stored e)"
proof -
  let ?t = "now - (case older of None \<Rightarrow> qe_reclaim_after env | Some t \<Rightarrow> t)"
  have "\<forall>r \<in> set (ql_hscan (qe_api env) (in_flight_key env) s). scanned env (view s) ?t r"
    by (auto simp: queueD(13) [OF env] scanned_def)
  from reclaim_each_brings_back [OF env this] show ?thesis
    using assms(2,3) by (force simp: fq_reclaim_stale_def queueD(13) [OF env])
qed

end
