(* ===== verification/Redis_Graph.thy ===== *)
theory Redis_Graph
  imports Graph_Store Redis_Mailbox
begin

text \<open>
  The Redis graph store (\<open>entourage/runtime/redis_store.py\<close>): its namespace as one table per family of keys, and one
  definition per method. A hash is a record whose fields may be missing; \<open>HSET\<close> on a missing key makes a hash with the
  written fields only, and reading it raises a \<open>KeyError\<close> for a field the code needs. A field holds the value its text
  denotes; the empty text of an absent value is kept where the code reads it back. A pipeline or a script
  is one step. Sets are listed sorted where the code sorts them.
\<close>

subsection \<open>Keys\<close>

record session_hash =
  sh_id :: "string option"
  sh_trigger :: "string option"
  sh_status :: "graph_status option"
  sh_state :: "dict option"
  sh_serial :: "string option"
  sh_created :: "rat option"
  sh_completed :: "rat option"

record exec_hash =
  xh_id :: "string option"
  xh_session :: "string option"
  xh_name :: "string option"
  xh_status :: "exec_status option"
  xh_input :: "dict option"
  xh_result :: "dict option"
  xh_attempts :: "nat option"
  xh_policy :: "node_policy option"
  xh_error :: "string option"
  xh_retry :: "rat option"
  xh_effects :: "effects option"
  xh_wake :: "wake option"
  xh_created :: "rat option"
  xh_started :: "rat option"
  xh_completed :: "rat option"

definition no_session_hash :: session_hash where
  "no_session_hash = \<lparr>sh_id = None, sh_trigger = None, sh_status = None, sh_state = None, sh_serial = None, sh_created = None, sh_completed = None\<rparr>"

definition no_exec_hash :: exec_hash where
  "no_exec_hash = \<lparr>xh_id = None, xh_session = None, xh_name = None, xh_status = None, xh_input = None, xh_result = None, xh_attempts = None,
     xh_policy = None, xh_error = None, xh_retry = None, xh_effects = None, xh_wake = None, xh_created = None, xh_started = None, xh_completed = None\<rparr>"

record redis_graph =
  rg_sessions :: "(string \<times> session_hash) list"
  rg_running :: "string list"
  rg_terminal :: "(string \<times> rat) list"
  rg_serials :: "(string \<times> string) list"
  rg_execs :: "(string \<times> exec_hash) list"
  rg_members :: "(string \<times> string list) list"
  rg_pending :: "(string \<times> string list) list"
  rg_outbox :: "string list"
  rg_waiting :: "string list"
  rg_parents :: "(string \<times> (string \<times> string option) list) list"
  rg_children :: "(string \<times> (string \<times> string option) list) list"

definition redis_empty :: redis_graph where
  "redis_empty = \<lparr>rg_sessions = [], rg_running = [], rg_terminal = [], rg_serials = [], rg_execs = [], rg_members = [], rg_pending = [],
     rg_outbox = [], rg_waiting = [], rg_parents = [], rg_children = []\<rparr>"

text \<open>The members of a set or the entries of a hash under a key, and writing them.\<close>

definition entries :: "(string \<times> 'a list) list \<Rightarrow> string \<Rightarrow> 'a list" where
  "entries t k = (case map_of t k of None \<Rightarrow> [] | Some xs \<Rightarrow> xs)"

definition set_add :: "string \<Rightarrow> string \<Rightarrow> (string \<times> string list) list \<Rightarrow> (string \<times> string list) list" where
  "set_add k x t = AList.update k (List.insert x (entries t k)) t"

definition set_remove :: "string \<Rightarrow> string \<Rightarrow> (string \<times> string list) list \<Rightarrow> (string \<times> string list) list" where
  "set_remove k x t = AList.update k (removeAll x (entries t k)) t"

definition field_set :: "string \<Rightarrow> string \<Rightarrow> 'v \<Rightarrow> (string \<times> (string \<times> 'v) list) list \<Rightarrow> (string \<times> (string \<times> 'v) list) list" where
  "field_set k f v t = AList.update k (AList.update f v (entries t k)) t"

definition field_delete :: "string \<Rightarrow> string \<Rightarrow> (string \<times> (string \<times> 'v) list) list \<Rightarrow> (string \<times> (string \<times> 'v) list) list" where
  "field_delete k f t = AList.update k (AList.delete f (entries t k)) t"

definition hset_session :: "string \<Rightarrow> (session_hash \<Rightarrow> session_hash) \<Rightarrow> redis_graph \<Rightarrow> redis_graph" where
  "hset_session i f rg = rg\<lparr>rg_sessions :=
     AList.update i (f (case map_of (rg_sessions rg) i of None \<Rightarrow> no_session_hash | Some h \<Rightarrow> h)) (rg_sessions rg)\<rparr>"

definition hset_exec :: "string \<Rightarrow> (exec_hash \<Rightarrow> exec_hash) \<Rightarrow> redis_graph \<Rightarrow> redis_graph" where
  "hset_exec i f rg = rg\<lparr>rg_execs := AList.update i (f (case map_of (rg_execs rg) i of None \<Rightarrow> no_exec_hash | Some h \<Rightarrow> h)) (rg_execs rg)\<rparr>"

text \<open>\<open>sorted\<close> of entries, by their text.\<close>

definition sorted_entries :: "(string \<times> 'v) list \<Rightarrow> (string \<times> 'v) list" where
  "sorted_entries xs = foldr insert_key xs []"

text \<open>\<open>[x for x in map(read, ids) if x]\<close>, where \<open>read\<close> may raise.\<close>

fun read_all :: "(string \<Rightarrow> 'a option res) \<Rightarrow> string list \<Rightarrow> 'a list res" where
  "read_all read [] = Inr []"
| "read_all read (i # is) =
     rbind (read i) (\<lambda>x. rbind (read_all read is) (\<lambda>xs. Inr (case x of None \<Rightarrow> xs | Some y \<Rightarrow> y # xs)))"

definition needed :: "string \<Rightarrow> 'a option \<Rightarrow> 'a res" where
  "needed f v = (case v of None \<Rightarrow> Inl (KeyError f) | Some x \<Rightarrow> Inr x)"

definition nonempty_text :: "string option \<Rightarrow> string option" where
  "nonempty_text v = (case v of None \<Rightarrow> None | Some s \<Rightarrow> if s = [] then None else Some s)"

subsection \<open>Sessions\<close>

text \<open>The identifier, the trigger and the status are written whenever the initial state is.\<close>

definition decode_session :: "session_hash \<Rightarrow> graph_session res" where
  "decode_session h =
     rbind (needed ''initial_state'' (sh_state h)) (\<lambda>st. rbind (needed ''created_at'' (sh_created h)) (\<lambda>t.
     rbind (needed ''id'' (sh_id h)) (\<lambda>i. rbind (needed ''trigger'' (sh_trigger h)) (\<lambda>tr. rbind (needed ''status'' (sh_status h)) (\<lambda>status.
       Inr \<lparr>gs_id = i, gs_trigger = tr, gs_status = status, gs_state = st, gs_serial = nonempty_text (sh_serial h),
            gs_created = t, gs_completed = sh_completed h\<rparr>)))))"

definition rg_get_session :: "redis_graph \<Rightarrow> string \<Rightarrow> graph_session option res" where
  "rg_get_session rg i =
     (case map_of (rg_sessions rg) i of None \<Rightarrow> Inr None | Some h \<Rightarrow> rbind (decode_session h) (\<lambda>s. Inr (Some s)))"

definition new_session_fields :: "rat \<Rightarrow> string \<Rightarrow> string \<Rightarrow> dict \<Rightarrow> string \<Rightarrow> session_hash \<Rightarrow> session_hash" where
  "new_session_fields now i trigger st serial h =
     h\<lparr>sh_id := Some i, sh_trigger := Some trigger, sh_status := Some SRunning, sh_state := Some st, sh_serial := Some serial, sh_created := Some now\<rparr>"

definition start_redis_session :: "rat \<Rightarrow> string \<Rightarrow> string \<Rightarrow> dict \<Rightarrow> string \<Rightarrow> redis_graph \<Rightarrow> redis_graph" where
  "start_redis_session now i trigger st serial rg =
     (let rg1 = hset_session i (new_session_fields now i trigger st serial) rg in rg1\<lparr>rg_running := List.insert i (rg_running rg1)\<rparr>)"

definition rg_create_session ::
    "rat \<Rightarrow> string \<Rightarrow> redis_graph \<Rightarrow> string \<Rightarrow> dict \<Rightarrow> string option \<Rightarrow> string option \<Rightarrow> redis_graph \<times> string option" where
  "rg_create_session now fresh rg trigger st serial given =
     (let i = (case given of None \<Rightarrow> fresh | Some i \<Rightarrow> i) in
      if given \<noteq> None \<and> map_of (rg_sessions rg) i \<noteq> None then (rg, None)
      else (case serial of
          Some k \<Rightarrow>
            if map_of (rg_serials rg) k \<noteq> None then (rg, None)
            else (start_redis_session now i trigger st k (rg\<lparr>rg_serials := AList.update k i (rg_serials rg)\<rparr>), Some i)
        | None \<Rightarrow> (start_redis_session now i trigger st [] rg, Some i)))"

definition free_serial :: "graph_session option \<Rightarrow> redis_graph \<Rightarrow> redis_graph" where
  "free_serial s rg =
     (case s of None \<Rightarrow> rg | Some s \<Rightarrow> (case gs_serial s of None \<Rightarrow> rg | Some k \<Rightarrow> rg\<lparr>rg_serials := AList.delete k (rg_serials rg)\<rparr>))"

definition rg_finish_session :: "graph_status \<Rightarrow> rat \<Rightarrow> redis_graph \<Rightarrow> string \<Rightarrow> redis_graph res" where
  "rg_finish_session status now rg i =
     rbind (rg_get_session rg i) (\<lambda>s.
       (let rg1 = hset_session i (\<lambda>h. h\<lparr>sh_status := Some status, sh_completed := Some now\<rparr>) rg in
        Inr (free_serial s (rg1\<lparr>rg_running := removeAll i (rg_running rg1), rg_terminal := AList.update i now (rg_terminal rg1)\<rparr>))))"

definition rg_complete_session :: "rat \<Rightarrow> redis_graph \<Rightarrow> string \<Rightarrow> redis_graph res" where
  "rg_complete_session = rg_finish_session SCompleted"

definition rg_fail_session :: "rat \<Rightarrow> redis_graph \<Rightarrow> string \<Rightarrow> redis_graph res" where
  "rg_fail_session = rg_finish_session SFailed"

definition rg_running_sessions :: "redis_graph \<Rightarrow> graph_session list res" where
  "rg_running_sessions rg = read_all (rg_get_session rg) (sort_texts (rg_running rg))"

text \<open>A sorted set lists its members by score, members of one score by text.\<close>

definition rg_terminal_sessions :: "redis_graph \<Rightarrow> graph_session list res" where
  "rg_terminal_sessions rg = read_all (rg_get_session rg) (map fst (sort_key snd (sorted_entries (rg_terminal rg))))"

definition rg_delete_terminal_session :: "redis_graph \<Rightarrow> string \<Rightarrow> (redis_graph \<times> bool) res" where
  "rg_delete_terminal_session rg sid =
     rbind (rg_get_session rg sid) (\<lambda>q.
       (case q of
          None \<Rightarrow> Inr (rg\<lparr>rg_terminal := AList.delete sid (rg_terminal rg)\<rparr>, False)
        | Some s \<Rightarrow>
            if gs_status s = SRunning then Inl (ValueError (''session '' @ sid @ '' is not terminal''))
            else let gone = entries (rg_members rg) sid in
              Inr (free_serial (Some s)
                \<lparr>rg_sessions = AList.delete sid (rg_sessions rg), rg_running = removeAll sid (rg_running rg),
                 rg_terminal = AList.delete sid (rg_terminal rg), rg_serials = rg_serials rg,
                 rg_execs = filter (\<lambda>(i, h). i \<notin> set gone) (rg_execs rg),
                 rg_members = AList.delete sid (rg_members rg), rg_pending = AList.delete sid (rg_pending rg),
                 rg_outbox = filter (\<lambda>i. i \<notin> set gone) (rg_outbox rg), rg_waiting = filter (\<lambda>i. i \<notin> set gone) (rg_waiting rg),
                 rg_parents = filter (\<lambda>(i, h). i \<notin> set gone) (rg_parents rg),
                 rg_children = filter (\<lambda>(i, h). i \<notin> set gone) (rg_children rg)\<rparr>, True)))"

subsection \<open>Executions\<close>

definition decode_execution :: "exec_hash \<Rightarrow> execution res" where
  "decode_execution h =
     rbind (needed ''id'' (xh_id h)) (\<lambda>i. rbind (needed ''session_id'' (xh_session h)) (\<lambda>sid.
     rbind (needed ''node_name'' (xh_name h)) (\<lambda>name. rbind (needed ''status'' (xh_status h)) (\<lambda>status.
       Inr \<lparr>ex_id = i, ex_session = sid, ex_name = name, ex_status = status, ex_input = xh_input h, ex_result = xh_result h,
            ex_attempts = (case xh_attempts h of None \<Rightarrow> 0 | Some n \<Rightarrow> n), ex_policy = xh_policy h, ex_error = nonempty_text (xh_error h),
            ex_retry_at = xh_retry h, ex_effects = xh_effects h, ex_wake = xh_wake h,
            ex_created = (case xh_created h of None \<Rightarrow> 0 | Some t \<Rightarrow> t), ex_started = xh_started h, ex_completed = xh_completed h\<rparr>))))"

definition rg_get_execution :: "redis_graph \<Rightarrow> string \<Rightarrow> execution option res" where
  "rg_get_execution rg i =
     (case map_of (rg_execs rg) i of None \<Rightarrow> Inr None | Some h \<Rightarrow> rbind (decode_execution h) (\<lambda>e. Inr (Some e)))"

definition rg_get_executions :: "redis_graph \<Rightarrow> string list \<Rightarrow> execution list res" where
  "rg_get_executions rg is = read_all (rg_get_execution rg) is"

text \<open>An empty policy is not written, and leaves a field of the hash as it is.\<close>

definition new_exec_fields :: "rat \<Rightarrow> string \<Rightarrow> string \<Rightarrow> string \<Rightarrow> node_policy option \<Rightarrow> exec_hash \<Rightarrow> exec_hash" where
  "new_exec_fields now i sid name p h =
     h\<lparr>xh_id := Some i, xh_session := Some sid, xh_name := Some name, xh_status := Some XPending, xh_attempts := Some 0, xh_created := Some now,
       xh_policy := (case policy_or_none p of None \<Rightarrow> xh_policy h | Some q \<Rightarrow> Some q)\<rparr>"

definition rg_add_execution :: "rat \<Rightarrow> redis_graph \<Rightarrow> string \<Rightarrow> string \<Rightarrow> string \<Rightarrow> node_policy option \<Rightarrow> redis_graph" where
  "rg_add_execution now rg sid name i p =
     (let rg1 = hset_exec i (new_exec_fields now i sid name p) rg in
      rg1\<lparr>rg_members := set_add sid i (rg_members rg1), rg_pending := set_add sid i (rg_pending rg1)\<rparr>)"

text \<open>With the status \<open>pending\<close> the executions are read from their own set.\<close>

definition rg_session_executions :: "redis_graph \<Rightarrow> string \<Rightarrow> exec_status option \<Rightarrow> execution list res" where
  "rg_session_executions rg sid status =
     (if status = Some XPending then rg_get_executions rg (sort_texts (entries (rg_pending rg) sid))
      else rbind (rg_get_executions rg (sort_texts (entries (rg_members rg) sid))) (\<lambda>es.
        Inr (case status of None \<Rightarrow> es | Some st \<Rightarrow> filter (\<lambda>e. ex_status e = st) es)))"

definition session_of :: "redis_graph \<Rightarrow> string \<Rightarrow> string option" where
  "session_of rg i = nonempty_text (case map_of (rg_execs rg) i of None \<Rightarrow> None | Some h \<Rightarrow> xh_session h)"

definition not_pending :: "string option \<Rightarrow> string \<Rightarrow> redis_graph \<Rightarrow> redis_graph" where
  "not_pending sid i rg = (case sid of None \<Rightarrow> rg | Some k \<Rightarrow> rg\<lparr>rg_pending := set_remove k i (rg_pending rg)\<rparr>)"

definition now_pending :: "string option \<Rightarrow> string \<Rightarrow> redis_graph \<Rightarrow> redis_graph" where
  "now_pending sid i rg = (case sid of None \<Rightarrow> rg | Some k \<Rightarrow> rg\<lparr>rg_pending := set_add k i (rg_pending rg)\<rparr>)"

definition rg_set_status :: "redis_graph \<Rightarrow> string \<Rightarrow> (exec_hash \<Rightarrow> exec_hash) \<Rightarrow> redis_graph" where
  "rg_set_status rg i f = not_pending (session_of rg i) i (hset_exec i f rg)"

definition rg_mark_running :: "rat \<Rightarrow> redis_graph \<Rightarrow> string \<Rightarrow> dict \<Rightarrow> redis_graph" where
  "rg_mark_running now rg i st = rg_set_status rg i
     (\<lambda>h. h\<lparr>xh_status := Some XRunning, xh_input := Some st, xh_started := Some now,
            xh_attempts := Some (Suc (case xh_attempts h of None \<Rightarrow> 0 | Some n \<Rightarrow> n))\<rparr>)"

definition rg_mark_completed :: "rat \<Rightarrow> redis_graph \<Rightarrow> string \<Rightarrow> dict \<Rightarrow> redis_graph" where
  "rg_mark_completed now rg i st = rg_set_status rg i
     (\<lambda>h. h\<lparr>xh_status := Some XCompleted, xh_result := Some st, xh_completed := Some now\<rparr>)"

definition text_or_empty :: "string option \<Rightarrow> string" where
  "text_or_empty v = (case v of None \<Rightarrow> [] | Some s \<Rightarrow> s)"

definition rg_mark_retrying :: "redis_graph \<Rightarrow> string \<Rightarrow> string option \<Rightarrow> rat option \<Rightarrow> redis_graph" where
  "rg_mark_retrying rg i error retry_at =
     now_pending (session_of rg i) i (hset_exec i
       (\<lambda>h. h\<lparr>xh_status := Some XPending, xh_error := Some (text_or_empty error),
              xh_retry := (if retry_at = Some 0 then None else retry_at)\<rparr>) rg)"

definition rg_mark_failed :: "rat \<Rightarrow> redis_graph \<Rightarrow> string \<Rightarrow> string option \<Rightarrow> redis_graph" where
  "rg_mark_failed now rg i error = rg_set_status rg i
     (\<lambda>h. h\<lparr>xh_status := Some XFailed, xh_result := Some [(''error'', opt_json error)], xh_error := Some (text_or_empty error),
            xh_completed := Some now\<rparr>)"

definition rg_mark_waiting :: "redis_graph \<Rightarrow> string \<Rightarrow> wake \<Rightarrow> redis_graph" where
  "rg_mark_waiting rg i w =
     (let rg1 = not_pending (session_of rg i) i (hset_exec i (\<lambda>h. h\<lparr>xh_status := Some XWaiting, xh_wake := Some w\<rparr>) rg)
      in rg1\<lparr>rg_waiting := List.insert i (rg_waiting rg1)\<rparr>)"

text \<open>The script checks the status and writes in one step; it takes an empty session ID for one.\<close>

definition rg_wake_execution :: "redis_graph \<Rightarrow> string \<Rightarrow> redis_graph \<times> bool" where
  "rg_wake_execution rg i =
     (case map_of (rg_execs rg) i of
        None \<Rightarrow> (rg, False)
      | Some h \<Rightarrow>
          if xh_status h \<noteq> Some XWaiting then (rg, False)
          else let rg1 = hset_exec i (\<lambda>h. h\<lparr>xh_status := Some XPending\<rparr>) rg
               in (now_pending (xh_session h) i (rg1\<lparr>rg_waiting := removeAll i (rg_waiting rg1)\<rparr>), True))"

definition rg_waiting_executions :: "redis_graph \<Rightarrow> execution list res" where
  "rg_waiting_executions rg = rbind (rg_get_executions rg (sort_texts (rg_waiting rg))) (\<lambda>es. Inr (filter (\<lambda>e. ex_status e = XWaiting) es))"

text \<open>Without effects, \<open>HDEL\<close> on a missing hash makes none.\<close>

definition rg_set_effects :: "redis_graph \<Rightarrow> string \<Rightarrow> effects option \<Rightarrow> redis_graph" where
  "rg_set_effects rg i ef =
     (case ef of
        None \<Rightarrow> (if map_of (rg_execs rg) i = None then rg else hset_exec i (\<lambda>h. h\<lparr>xh_effects := None\<rparr>) rg)\<lparr>rg_outbox := removeAll i (rg_outbox rg)\<rparr>
      | Some e \<Rightarrow> (hset_exec i (\<lambda>h. h\<lparr>xh_effects := Some e\<rparr>) rg)\<lparr>rg_outbox := List.insert i (rg_outbox rg)\<rparr>)"

definition rg_pending_effect_executions :: "redis_graph \<Rightarrow> execution list res" where
  "rg_pending_effect_executions rg = rbind (rg_get_executions rg (sort_texts (rg_outbox rg))) (\<lambda>es. Inr (filter (\<lambda>e. ex_effects e \<noteq> None) es))"

subsection \<open>Edges\<close>

definition rg_add_edge :: "string \<Rightarrow> string \<Rightarrow> string option \<Rightarrow> redis_graph \<Rightarrow> redis_graph" where
  "rg_add_edge a b c rg = rg\<lparr>rg_children := field_set a b (nonempty_text c) (rg_children rg), rg_parents := field_set b a (nonempty_text c) (rg_parents rg)\<rparr>"

definition rg_remove_edge :: "string \<Rightarrow> string \<Rightarrow> redis_graph \<Rightarrow> redis_graph" where
  "rg_remove_edge a b rg = rg\<lparr>rg_children := field_delete a b (rg_children rg), rg_parents := field_delete b a (rg_parents rg)\<rparr>"

definition rg_get_parents :: "redis_graph \<Rightarrow> string \<Rightarrow> (execution \<times> string option) list res" where
  "rg_get_parents rg i =
     (let edges = entries (rg_parents rg) i in
      rbind (rg_get_executions rg (sort_texts (map fst edges))) (\<lambda>ps.
        Inr (map (\<lambda>p. (p, case map_of edges (ex_id p) of None \<Rightarrow> None | Some c \<Rightarrow> c)) ps)))"

definition rg_get_children :: "redis_graph \<Rightarrow> string \<Rightarrow> (string \<times> string option) list" where
  "rg_get_children rg i = sorted_entries (entries (rg_children rg) i)"

definition rg_session_edges :: "redis_graph \<Rightarrow> string \<Rightarrow> ((string \<times> string) \<times> edge) list" where
  "rg_session_edges rg sid = concat (map
     (\<lambda>a. map (\<lambda>(b, c). ((a, b), \<lparr>ed_session = sid, ed_condition = c\<rparr>)) (entries (rg_children rg) a))
     (sort_texts (entries (rg_members rg) sid)))"

subsection \<open>The transition commit\<close>

definition rg_write_execs :: "rat \<Rightarrow> string \<Rightarrow> staged_exec list \<Rightarrow> redis_graph \<Rightarrow> redis_graph" where
  "rg_write_execs now sid es rg = foldl (\<lambda>rg e. rg_add_execution now rg sid (se_name e) (se_id e) (se_policy e)) rg es"

definition rg_write_edges :: "staged_edge list \<Rightarrow> redis_graph \<Rightarrow> redis_graph" where
  "rg_write_edges es rg = foldl (\<lambda>rg (a, b, c). rg_add_edge a b c rg) rg es"

definition rg_write_head :: "rat \<Rightarrow> staged_session \<Rightarrow> redis_graph \<Rightarrow> redis_graph" where
  "rg_write_head now child rg =
     (let rg1 = hset_exec (ss_head child) (\<lambda>h. h\<lparr>xh_id := Some (ss_head child), xh_session := Some (ss_id child), xh_name := Some head_name,
            xh_status := Some XCompleted, xh_attempts := Some 0, xh_result := Some (ss_state child), xh_created := Some now,
            xh_completed := Some now\<rparr>) rg
      in rg1\<lparr>rg_members := set_add (ss_id child) (ss_head child) (rg_members rg1)\<rparr>)"

definition rg_commit_spawn :: "rat \<Rightarrow> redis_graph \<Rightarrow> staged_session \<Rightarrow> redis_graph" where
  "rg_commit_spawn now rg child =
     rg_write_edges (ss_edges child)
       (rg_write_execs now (ss_id child) (\<lparr>se_id = ss_end child, se_name = end_name, se_policy = None\<rparr> # ss_execs child)
         (rg_write_head now child (start_redis_session now (ss_id child) (ss_trigger child) (ss_state child) [] rg)))"

definition rg_splice :: "rat \<Rightarrow> string \<Rightarrow> string \<Rightarrow> staged_plan \<Rightarrow> (string \<times> string option) list \<Rightarrow> redis_graph \<Rightarrow> redis_graph" where
  "rg_splice now i sid sp children rg =
     (let rg1 = rg_write_edges (sl_edges sp) (rg_write_execs now sid (sl_execs sp) rg);
          rg2 = foldl (\<lambda>rg (c, k). rg_remove_edge i c rg) rg1 children;
          rg3 = foldl (\<lambda>rg s. rg_add_edge i s None rg) rg2 (sl_starts sp)
      in foldl (\<lambda>rg (c, k). rg_add_edge (sl_end sp) c k rg) rg3 children)"

text \<open>Which children exist is read before the transaction is built.\<close>

definition rg_commit_transition ::
    "rat \<Rightarrow> redis_graph \<Rightarrow> string \<Rightarrow> string \<Rightarrow> dict \<Rightarrow> staged_plan option \<Rightarrow> (string \<times> string option) list
       \<Rightarrow> effects option \<Rightarrow> staged_session list \<Rightarrow> redis_graph" where
  "rg_commit_transition now rg i sid result staged children ef spawns =
     (let fresh = filter (\<lambda>child. map_of (rg_sessions rg) (ss_id child) = None) spawns;
          rg1 = foldl (rg_commit_spawn now) rg fresh;
          rg2 = (case staged of None \<Rightarrow> rg1 | Some sp \<Rightarrow> rg_splice now i sid sp children rg1);
          rg3 = (if ef = None then rg2 else rg2\<lparr>rg_outbox := List.insert i (rg_outbox rg2)\<rparr>)
      in not_pending (Some sid) i (hset_exec i (\<lambda>h. h\<lparr>xh_status := Some XCompleted, xh_result := Some result, xh_completed := Some now,
           xh_effects := (case ef of None \<Rightarrow> xh_effects h | Some e \<Rightarrow> Some e)\<rparr>) rg3))"

subsection \<open>Maintenance\<close>

definition rg_purge :: "redis_graph \<Rightarrow> redis_graph \<times> nat" where
  "rg_purge rg = (redis_empty,
     length (rg_sessions rg) + (if rg_running rg = [] then 0 else 1) + (if rg_terminal rg = [] then 0 else 1) + length (rg_serials rg)
     + length (rg_execs rg) + length (filter (\<lambda>(k, xs). xs \<noteq> []) (rg_members rg)) + length (filter (\<lambda>(k, xs). xs \<noteq> []) (rg_pending rg))
     + (if rg_outbox rg = [] then 0 else 1) + (if rg_waiting rg = [] then 0 else 1)
     + length (filter (\<lambda>(k, xs). xs \<noteq> []) (rg_parents rg)) + length (filter (\<lambda>(k, xs). xs \<noteq> []) (rg_children rg)))"

end
