(* ===== verification/Redis_Graph_Laws.thy ===== *)
theory Redis_Graph_Laws
  imports Redis_Graph Redis_Laws
begin

text \<open>
  The indexes of the Redis graph store: the sets it reads its hot paths from name exactly the executions a scan of the
  hashes would find, through any run of its methods.
\<close>

subsection \<open>Sorting\<close>

lemma str_less_eq_refl: "str_less_eq s s"
  by (induction s) simp_all

lemma str_less_eq_total: "str_less_eq s t \<or> str_less_eq t s"
  by (induction s t rule: str_less_eq.induct) auto

lemma str_less_eq_antisym: "str_less_eq s t \<Longrightarrow> str_less_eq t s \<Longrightarrow> s = t"
  by (induction s t rule: str_less_eq.induct) (auto split: if_splits elim: str_less_eq.elims)

lemma str_less_eq_trans: "str_less_eq s t \<Longrightarrow> str_less_eq t u \<Longrightarrow> str_less_eq s u"
proof (induction s t arbitrary: u rule: str_less_eq.induct)
  case (3 c cs d ds)
  then show ?case by (cases u) (auto split: if_splits)
qed simp_all

lemma sorted_insert_text: "sorted_wrt str_less_eq ts \<Longrightarrow> sorted_wrt str_less_eq (insert_text t ts)"
proof (induction ts)
  case (Cons u us)
  then show ?case using str_less_eq_total [of t u] by (auto simp: set_insert_text dest: str_less_eq_trans)
qed simp

lemma sorted_sort_texts: "sorted_wrt str_less_eq (sort_texts ts)"
  by (induction ts) (simp_all add: sort_texts_def sorted_insert_text)

lemma sorted_texts_unique:
  "sorted_wrt str_less_eq xs \<Longrightarrow> distinct xs \<Longrightarrow> sorted_wrt str_less_eq ys \<Longrightarrow> distinct ys \<Longrightarrow> set xs = set ys \<Longrightarrow> xs = ys"
proof (induction xs arbitrary: ys)
  case (Cons x xs)
  obtain y ys' where ys: "ys = y # ys'" using Cons.prems(5) by (cases ys) auto
  have "x = y"
  proof (rule ccontr)
    assume "x \<noteq> y"
    moreover have "x \<in> set ys" "y \<in> set (x # xs)" using Cons.prems(5) ys by auto
    ultimately have "str_less_eq x y" "str_less_eq y x" using Cons.prems(1,3) ys by auto
    then show False using str_less_eq_antisym \<open>x \<noteq> y\<close> by blast
  qed
  moreover have "set xs = set ys'" using Cons.prems(2,4,5) ys \<open>x = y\<close> by (simp add: insert_ident)
  ultimately show ?case using Cons.IH [of ys'] Cons.prems(1-4) ys by simp
qed simp

lemma sort_texts_filter:
  assumes "distinct xs" and "distinct ys" and "set ys = {x \<in> set xs. P x}"
  shows "sort_texts ys = filter P (sort_texts xs)"
  using assms by (intro sorted_texts_unique)
    (auto simp: sorted_sort_texts distinct_sort_texts sorted_wrt_filter)

subsection \<open>Indexes in order\<close>

definition hash_ok :: "string \<Rightarrow> exec_hash \<Rightarrow> bool" where
  "hash_ok i h \<longleftrightarrow> xh_id h = Some i \<and> (\<exists>sid. xh_session h = Some sid \<and> sid \<noteq> []) \<and> xh_name h \<noteq> None \<and> xh_status h \<noteq> None"

definition indexes_ok :: "redis_graph \<Rightarrow> bool" where
  "indexes_ok rg \<longleftrightarrow>
     (\<forall>i h. map_of (rg_execs rg) i = Some h \<longrightarrow> hash_ok i h
        \<and> (xh_status h = Some XWaiting \<longrightarrow> i \<in> set (rg_waiting rg)) \<and> (xh_effects h \<noteq> None \<longrightarrow> i \<in> set (rg_outbox rg)))
   \<and> (\<forall>sid i. i \<in> set (entries (rg_members rg) sid) \<longleftrightarrow> (\<exists>h. map_of (rg_execs rg) i = Some h \<and> xh_session h = Some sid))
   \<and> (\<forall>sid i. i \<in> set (entries (rg_pending rg) sid) \<longleftrightarrow>
        (\<exists>h. map_of (rg_execs rg) i = Some h \<and> xh_session h = Some sid \<and> xh_status h = Some XPending))
   \<and> (\<forall>i \<in> set (rg_waiting rg) \<union> set (rg_outbox rg). map_of (rg_execs rg) i \<noteq> None)
   \<and> (\<forall>sid. distinct (entries (rg_members rg) sid) \<and> distinct (entries (rg_pending rg) sid))
   \<and> distinct (rg_waiting rg) \<and> distinct (rg_outbox rg)"

lemma entries_update [simp]: "entries (AList.update k v t) j = (if j = k then v else entries t j)"
  by (simp add: entries_def)

lemma entries_delete [simp]: "entries (AList.delete k t) j = (if j = k then [] else entries t j)"
  by (simp add: entries_def)

lemma entries_sets [simp]:
  "entries (set_add k x t) j = (if j = k then List.insert x (entries t k) else entries t j)"
  "entries (set_remove k x t) j = (if j = k then removeAll x (entries t k) else entries t j)"
  by (simp_all add: set_add_def set_remove_def)

lemma indexes_empty: "indexes_ok redis_empty"
  by (simp add: indexes_ok_def redis_empty_def entries_def)

text \<open>One execution is written, and the sets follow it.\<close>

lemma indexes_write:
  assumes ok: "indexes_ok rg"
    and h: "map_of (rg_execs rg') = (map_of (rg_execs rg))(i \<mapsto> h)" "hash_ok i h" "xh_session h = Some sid"
    and old: "\<And>g. map_of (rg_execs rg) i = Some g \<Longrightarrow> xh_session g = Some sid"
    and members: "\<And>k. set (entries (rg_members rg') k) = (if k = sid then insert i (set (entries (rg_members rg) k)) else set (entries (rg_members rg) k))"
    and pending: "\<And>k. set (entries (rg_pending rg') k) = (if k = sid then
        (if xh_status h = Some XPending then insert i (set (entries (rg_pending rg) k)) else set (entries (rg_pending rg) k) - {i})
        else set (entries (rg_pending rg) k))"
    and waiting: "set (rg_waiting rg') - {i} = set (rg_waiting rg) - {i}" "xh_status h = Some XWaiting \<Longrightarrow> i \<in> set (rg_waiting rg')"
    and outbox: "set (rg_outbox rg') - {i} = set (rg_outbox rg) - {i}" "xh_effects h \<noteq> None \<Longrightarrow> i \<in> set (rg_outbox rg')"
    and dist: "\<And>k. distinct (entries (rg_members rg') k)" "\<And>k. distinct (entries (rg_pending rg') k)" "distinct (rg_waiting rg')" "distinct (rg_outbox rg')"
  shows "indexes_ok rg'"
proof -
  have w: "j \<in> set (rg_waiting rg') \<longleftrightarrow> j \<in> set (rg_waiting rg)" and o: "j \<in> set (rg_outbox rg') \<longleftrightarrow> j \<in> set (rg_outbox rg)" if "j \<noteq> i" for j
    using waiting(1) outbox(1) that by auto
  have one: "hash_ok j g \<and> (xh_status g = Some XWaiting \<longrightarrow> j \<in> set (rg_waiting rg')) \<and> (xh_effects g \<noteq> None \<longrightarrow> j \<in> set (rg_outbox rg'))"
    if "map_of (rg_execs rg') j = Some g" for j g
    using that ok h waiting(2) outbox(2) w o by (cases "j = i") (auto simp: indexes_ok_def)
  have mem: "j \<in> set (entries (rg_members rg') k) \<longleftrightarrow> (\<exists>g. map_of (rg_execs rg') j = Some g \<and> xh_session g = Some k)" for k j
    unfolding members h(1) using ok old h(3) by (auto simp: indexes_ok_def)
  have pend: "j \<in> set (entries (rg_pending rg') k) \<longleftrightarrow>
      (\<exists>g. map_of (rg_execs rg') j = Some g \<and> xh_session g = Some k \<and> xh_status g = Some XPending)" for k j
    unfolding pending h(1) using ok old h(3) by (auto simp: indexes_ok_def)
  have there: "map_of (rg_execs rg') j \<noteq> None" if "j \<in> set (rg_waiting rg') \<union> set (rg_outbox rg')" for j
    using that ok w [of j] o [of j] h(1) by (cases "j = i") (auto simp: indexes_ok_def)
  show ?thesis unfolding indexes_ok_def using one mem pend there dist by blast
qed

lemma indexes_edges:
  assumes "indexes_ok rg" and "rg_execs rg' = rg_execs rg" and "rg_members rg' = rg_members rg" and "rg_pending rg' = rg_pending rg"
    and "rg_waiting rg' = rg_waiting rg" and "rg_outbox rg' = rg_outbox rg"
  shows "indexes_ok rg'"
  using assms by (simp add: indexes_ok_def)

lemma hset_exec_fields [simp]:
  "map_of (rg_execs (hset_exec i f rg)) = (map_of (rg_execs rg))(i \<mapsto> f (case map_of (rg_execs rg) i of None \<Rightarrow> no_exec_hash | Some h \<Rightarrow> h))"
  "rg_members (hset_exec i f rg) = rg_members rg" "rg_pending (hset_exec i f rg) = rg_pending rg"
  "rg_waiting (hset_exec i f rg) = rg_waiting rg" "rg_outbox (hset_exec i f rg) = rg_outbox rg" "rg_sessions (hset_exec i f rg) = rg_sessions rg"
  by (simp_all add: hset_exec_def)

lemma indexes_okD:
  assumes "indexes_ok rg"
  shows "\<And>i h. map_of (rg_execs rg) i = Some h \<Longrightarrow> hash_ok i h"
    "\<And>i h. map_of (rg_execs rg) i = Some h \<Longrightarrow> xh_status h = Some XWaiting \<Longrightarrow> i \<in> set (rg_waiting rg)"
    "\<And>i h. map_of (rg_execs rg) i = Some h \<Longrightarrow> xh_effects h \<noteq> None \<Longrightarrow> i \<in> set (rg_outbox rg)"
    "\<And>sid i. i \<in> set (entries (rg_members rg) sid) \<longleftrightarrow> (\<exists>h. map_of (rg_execs rg) i = Some h \<and> xh_session h = Some sid)"
    "\<And>sid i. i \<in> set (entries (rg_pending rg) sid) \<longleftrightarrow>
        (\<exists>h. map_of (rg_execs rg) i = Some h \<and> xh_session h = Some sid \<and> xh_status h = Some XPending)"
    "\<And>i. i \<in> set (rg_waiting rg) \<or> i \<in> set (rg_outbox rg) \<Longrightarrow> map_of (rg_execs rg) i \<noteq> None"
    "\<And>sid. distinct (entries (rg_members rg) sid)" "\<And>sid. distinct (entries (rg_pending rg) sid)"
    "distinct (rg_waiting rg)" "distinct (rg_outbox rg)"
  using assms unfolding indexes_ok_def by blast+

text \<open>The session of an execution that exists.\<close>

lemma session_of_ok:
  assumes "indexes_ok rg" and "map_of (rg_execs rg) i = Some h"
  obtains sid where "xh_session h = Some sid" "sid \<noteq> []" "session_of rg i = Some sid" "i \<in> set (entries (rg_members rg) sid)"
proof -
  from indexes_okD(1) [OF assms] obtain sid where "xh_session h = Some sid" "sid \<noteq> []" by (auto simp: hash_ok_def)
  moreover from this have "session_of rg i = Some sid" using assms(2) by (simp add: session_of_def nonempty_text_def)
  moreover have "i \<in> set (entries (rg_members rg) sid)" using indexes_okD(4) [OF assms(1)] assms(2) calculation(1) by blast
  ultimately show ?thesis using that by blast
qed

lemma ok_set_status:
  assumes ok: "indexes_ok rg" and i: "map_of (rg_execs rg) i = Some h"
    and f: "xh_id (f h) = xh_id h" "xh_session (f h) = xh_session h" "xh_name (f h) = xh_name h" "xh_effects (f h) = xh_effects h"
      "xh_status (f h) = Some st" "st \<noteq> XPending" "st \<noteq> XWaiting"
  shows "indexes_ok (rg_set_status rg i f)"
proof -
  obtain sid where s: "xh_session h = Some sid" "session_of rg i = Some sid" "i \<in> set (entries (rg_members rg) sid)"
    using session_of_ok [OF ok i] by blast
  have "hash_ok i (f h)" using indexes_okD(1) [OF ok i] f by (simp add: hash_ok_def)
  then show ?thesis
    by (rule indexes_write [OF ok, rotated, where sid = sid])
       (use i s f indexes_okD [OF ok] in \<open>auto simp: rg_set_status_def not_pending_def distinct_removeAll\<close>)
qed

lemma ok_retrying:
  assumes ok: "indexes_ok rg" and i: "map_of (rg_execs rg) i = Some h"
  shows "indexes_ok (rg_mark_retrying rg i error t)"
proof -
  obtain sid where s: "xh_session h = Some sid" "session_of rg i = Some sid" "i \<in> set (entries (rg_members rg) sid)"
    using session_of_ok [OF ok i] by blast
  let ?h = "h\<lparr>xh_status := Some XPending, xh_error := Some (text_or_empty error), xh_retry := (if t = Some 0 then None else t)\<rparr>"
  have "hash_ok i ?h" using indexes_okD(1) [OF ok i] by (simp add: hash_ok_def)
  then show ?thesis
    by (rule indexes_write [OF ok, rotated, where sid = sid])
       (use i s indexes_okD [OF ok] in \<open>auto simp: rg_mark_retrying_def now_pending_def\<close>)
qed

lemma ok_waiting:
  assumes ok: "indexes_ok rg" and i: "map_of (rg_execs rg) i = Some h"
  shows "indexes_ok (rg_mark_waiting rg i w)"
proof -
  obtain sid where s: "xh_session h = Some sid" "session_of rg i = Some sid" "i \<in> set (entries (rg_members rg) sid)"
    using session_of_ok [OF ok i] by blast
  have "hash_ok i (h\<lparr>xh_status := Some XWaiting, xh_wake := Some w\<rparr>)" using indexes_okD(1) [OF ok i] by (simp add: hash_ok_def)
  then show ?thesis
    by (rule indexes_write [OF ok, rotated, where sid = sid])
       (use i s indexes_okD [OF ok] in \<open>auto simp: rg_mark_waiting_def not_pending_def distinct_removeAll\<close>)
qed

lemma ok_wake:
  assumes ok: "indexes_ok rg"
  shows "indexes_ok (fst (rg_wake_execution rg i))"
proof (cases "map_of (rg_execs rg) i")
  case None
  then show ?thesis using ok by (simp add: rg_wake_execution_def)
next
  case (Some h)
  obtain sid where s: "xh_session h = Some sid" "i \<in> set (entries (rg_members rg) sid)"
    using session_of_ok [OF ok Some] by blast
  show ?thesis
  proof (cases "xh_status h = Some XWaiting")
    case True
    have "hash_ok i (h\<lparr>xh_status := Some XPending\<rparr>)" using indexes_okD(1) [OF ok Some] by (simp add: hash_ok_def)
    then show ?thesis
      by (rule indexes_write [OF ok, rotated, where sid = sid])
         (use Some s True indexes_okD [OF ok] in \<open>auto simp: rg_wake_execution_def now_pending_def Let_def distinct_removeAll\<close>)
  qed (use ok Some in \<open>simp add: rg_wake_execution_def\<close>)
qed

lemma ok_effects:
  assumes ok: "indexes_ok rg" and i: "map_of (rg_execs rg) i = Some h"
  shows "indexes_ok (rg_set_effects rg i ef)"
proof -
  obtain sid where s: "xh_session h = Some sid" "i \<in> set (entries (rg_members rg) sid)"
    using session_of_ok [OF ok i] by blast
  have p: "xh_status h = Some XPending \<longleftrightarrow> i \<in> set (entries (rg_pending rg) sid)"
    using indexes_okD(5) [OF ok] i s(1) by auto
  have "hash_ok i (h\<lparr>xh_effects := ef\<rparr>)" using indexes_okD(1) [OF ok i] by (simp add: hash_ok_def)
  then show ?thesis
    by (rule indexes_write [OF ok, rotated, where sid = sid])
       (use i s p indexes_okD [OF ok] in \<open>auto simp: rg_set_effects_def distinct_removeAll split: option.splits\<close>)
qed

lemma ok_add:
  assumes ok: "indexes_ok rg" and i: "map_of (rg_execs rg) i = None" and sid: "sid \<noteq> []"
  shows "indexes_ok (rg_add_execution now rg sid name i p)"
proof -
  have "hash_ok i (new_exec_fields now i sid name p no_exec_hash)" using sid by (simp add: hash_ok_def new_exec_fields_def)
  then show ?thesis
    by (rule indexes_write [OF ok, rotated, where sid = sid])
       (use i indexes_okD [OF ok] in \<open>auto simp: rg_add_execution_def new_exec_fields_def no_exec_hash_def Let_def\<close>)
qed

lemma ok_head:
  assumes ok: "indexes_ok rg" and i: "map_of (rg_execs rg) (ss_head c) = None" and sid: "ss_id c \<noteq> []"
  shows "indexes_ok (rg_write_head now c rg)"
proof -
  let ?h = "no_exec_hash\<lparr>xh_id := Some (ss_head c), xh_session := Some (ss_id c), xh_name := Some head_name,
            xh_status := Some XCompleted, xh_attempts := Some 0, xh_result := Some (ss_state c), xh_created := Some now, xh_completed := Some now\<rparr>"
  have "ss_head c \<notin> set (entries (rg_pending rg) k)" for k using indexes_okD(5) [OF ok] i by auto
  moreover have "hash_ok (ss_head c) ?h" using sid by (simp add: hash_ok_def)
  then show ?thesis
    by (rule indexes_write [OF ok, rotated, where sid = "ss_id c"])
       (use i indexes_okD [OF ok] calculation in \<open>auto simp: rg_write_head_def no_exec_hash_def Let_def\<close>)
qed

text \<open>What a method leaves of the keys the indexes speak of.\<close>

definition same_indexes :: "redis_graph \<Rightarrow> redis_graph \<Rightarrow> bool" where
  "same_indexes rg rg' \<longleftrightarrow> rg_execs rg' = rg_execs rg \<and> rg_members rg' = rg_members rg \<and> rg_pending rg' = rg_pending rg
     \<and> rg_waiting rg' = rg_waiting rg \<and> rg_outbox rg' = rg_outbox rg"

lemma same_indexes_ok: "same_indexes rg rg' \<Longrightarrow> indexes_ok rg \<Longrightarrow> indexes_ok rg'"
  unfolding same_indexes_def by (rule indexes_edges) simp_all

lemma same_refl [simp]: "same_indexes rg rg"
  by (simp add: same_indexes_def)

lemma same_trans: "same_indexes rg rg1 \<Longrightarrow> same_indexes rg1 rg2 \<Longrightarrow> same_indexes rg rg2"
  by (simp add: same_indexes_def)

lemma same_foldl: "(\<And>rg x. same_indexes rg (f rg x)) \<Longrightarrow> same_indexes rg (foldl f rg xs)"
proof (induction xs arbitrary: rg)
  case (Cons x xs)
  then show ?case using same_trans [OF Cons.prems [of rg x] Cons.IH [OF Cons.prems]] by simp
qed simp

lemma same_edges [simp]: "same_indexes rg (rg_add_edge a b c rg)" "same_indexes rg (rg_remove_edge a b rg)"
  "same_indexes rg (rg_write_edges es rg)"
  by (auto simp: rg_write_edges_def rg_add_edge_def rg_remove_edge_def intro!: same_foldl split: prod.splits)
     (simp_all add: same_indexes_def)

lemma same_sessions [simp]: "same_indexes rg (hset_session i f rg)" "same_indexes rg (start_redis_session now i tr st k rg)"
  "same_indexes rg (free_serial s rg)" "same_indexes rg (fst (rg_create_session now fresh rg tr st serial given))"
  by (auto simp: same_indexes_def hset_session_def start_redis_session_def Let_def free_serial_def rg_create_session_def split: option.splits)

lemma same_finish:
  assumes "rg_finish_session status now rg i = Inr rg'"
  shows "same_indexes rg rg'"
proof -
  let ?rg1 = "hset_session i (\<lambda>h. h\<lparr>sh_status := Some status, sh_completed := Some now\<rparr>) rg"
  obtain s where "rg' = free_serial s (?rg1\<lparr>rg_running := removeAll i (rg_running ?rg1), rg_terminal := AList.update i now (rg_terminal ?rg1)\<rparr>)"
    using assms by (auto simp: rg_finish_session_def Let_def rbind_eq_Inr)
  moreover have "same_indexes rg (?rg1\<lparr>rg_running := removeAll i (rg_running ?rg1), rg_terminal := AList.update i now (rg_terminal ?rg1)\<rparr>)"
    by (simp add: same_indexes_def hset_session_def)
  ultimately show ?thesis using same_trans same_sessions(3) by blast
qed

text \<open>Executions written with fresh identifiers, one after the other.\<close>

definition unused :: "redis_graph \<Rightarrow> string list \<Rightarrow> bool" where
  "unused rg is \<longleftrightarrow> distinct is \<and> (\<forall>i \<in> set is. map_of (rg_execs rg) i = None)"

lemma execs_added: "map_of (rg_execs (rg_add_execution now rg sid name i p)) j = None \<longleftrightarrow> j \<noteq> i \<and> map_of (rg_execs rg) j = None"
  by (simp add: rg_add_execution_def Let_def)

lemma execs_kept: "j \<noteq> i \<Longrightarrow> map_of (rg_execs (rg_add_execution now rg sid name i p)) j = map_of (rg_execs rg) j"
  by (simp add: rg_add_execution_def Let_def)

lemma ok_write_execs:
  "indexes_ok rg \<Longrightarrow> sid \<noteq> [] \<Longrightarrow> unused rg (map se_id es @ is) \<Longrightarrow>
     indexes_ok (rg_write_execs now sid es rg) \<and> unused (rg_write_execs now sid es rg) is
     \<and> (\<forall>j. j \<notin> set (map se_id es) \<longrightarrow> map_of (rg_execs (rg_write_execs now sid es rg)) j = map_of (rg_execs rg) j)"
proof (induction es arbitrary: rg)
  case Nil
  then show ?case by (simp add: rg_write_execs_def)
next
  case (Cons e es)
  let ?rg = "rg_add_execution now rg sid (se_name e) (se_id e) (se_policy e)"
  have "indexes_ok ?rg" using ok_add [OF Cons.prems(1) _ Cons.prems(2)] Cons.prems(3) by (simp add: unused_def)
  moreover have "unused ?rg (map se_id es @ is)" using Cons.prems(3) by (auto simp: unused_def execs_added)
  ultimately have ih: "indexes_ok (rg_write_execs now sid es ?rg)" "unused (rg_write_execs now sid es ?rg) is"
    "\<And>j. j \<notin> set (map se_id es) \<Longrightarrow> map_of (rg_execs (rg_write_execs now sid es ?rg)) j = map_of (rg_execs ?rg) j"
    using Cons.IH [OF _ Cons.prems(2)] by blast+
  have "rg_write_execs now sid (e # es) rg = rg_write_execs now sid es ?rg" by (simp add: rg_write_execs_def)
  then show ?case using ih execs_kept by simp
qed

lemma unused_same: "same_indexes rg rg' \<Longrightarrow> unused rg' is \<longleftrightarrow> unused rg is"
  by (simp add: unused_def same_indexes_def)

definition child_execs :: "staged_session \<Rightarrow> string list" where
  "child_execs c = ss_head c # ss_end c # map se_id (ss_execs c)"

lemma ok_spawn:
  assumes ok: "indexes_ok rg" and sid: "ss_id c \<noteq> []" and new: "unused rg (child_execs c @ is)"
  shows "indexes_ok (rg_commit_spawn now rg c) \<and> unused (rg_commit_spawn now rg c) is
    \<and> (\<forall>j. j \<notin> set (child_execs c) \<longrightarrow> map_of (rg_execs (rg_commit_spawn now rg c)) j = map_of (rg_execs rg) j)"
proof -
  let ?rg1 = "start_redis_session now (ss_id c) (ss_trigger c) (ss_state c) [] rg"
  let ?es = "\<lparr>se_id = ss_end c, se_name = end_name, se_policy = None\<rparr> # ss_execs c"
  have one: "indexes_ok ?rg1" "unused ?rg1 (child_execs c @ is)" "rg_execs ?rg1 = rg_execs rg"
    using same_indexes_ok [OF same_sessions(2) ok] new unused_same [OF same_sessions(2)] same_sessions(2) [unfolded same_indexes_def] by blast+
  let ?rg2 = "rg_write_head now c ?rg1"
  have two: "indexes_ok ?rg2" using ok_head [OF one(1) _ sid] one(2) by (simp add: unused_def child_execs_def)
  have keep: "map_of (rg_execs ?rg2) j = map_of (rg_execs rg) j" if "j \<noteq> ss_head c" for j
    using that one(3) by (simp add: rg_write_head_def Let_def)
  have "child_execs c @ is = ss_head c # (map se_id ?es @ is)" by (simp add: child_execs_def)
  then have rest: "ss_head c \<notin> set (map se_id ?es @ is)" "distinct (map se_id ?es @ is)"
    "\<forall>j \<in> set (map se_id ?es @ is). map_of (rg_execs rg) j = None"
    using one(2,3) unfolding unused_def by (simp_all del: map_append)
  then have "\<forall>j \<in> set (map se_id ?es @ is). map_of (rg_execs ?rg2) j = None" using keep by metis
  then have "unused ?rg2 (map se_id ?es @ is)" using rest(2) unfolding unused_def by blast
  note w = ok_write_execs [OF two sid this, of now]
  let ?rg3 = "rg_write_execs now (ss_id c) ?es ?rg2"
  have s: "same_indexes ?rg3 (rg_commit_spawn now rg c)" by (simp add: rg_commit_spawn_def)
  then have "rg_execs (rg_commit_spawn now rg c) = rg_execs ?rg3" by (simp add: same_indexes_def)
  moreover have "map_of (rg_execs ?rg3) j = map_of (rg_execs rg) j" if "j \<notin> set (child_execs c)" for j
    using that w keep by (simp add: child_execs_def)
  ultimately show ?thesis using w same_indexes_ok [OF s] unused_same [OF s] by simp
qed

lemma ok_spawns:
  "indexes_ok rg \<Longrightarrow> (\<forall>c \<in> set cs. ss_id c \<noteq> []) \<Longrightarrow> unused rg (concat (map child_execs cs) @ is) \<Longrightarrow>
     indexes_ok (foldl (rg_commit_spawn now) rg cs) \<and> unused (foldl (rg_commit_spawn now) rg cs) is
     \<and> (\<forall>j. j \<notin> set (concat (map child_execs cs)) \<longrightarrow> map_of (rg_execs (foldl (rg_commit_spawn now) rg cs)) j = map_of (rg_execs rg) j)"
proof (induction cs arbitrary: rg)
  case (Cons c cs)
  have "indexes_ok (rg_commit_spawn now rg c) \<and> unused (rg_commit_spawn now rg c) (concat (map child_execs cs) @ is)
      \<and> (\<forall>j. j \<notin> set (child_execs c) \<longrightarrow> map_of (rg_execs (rg_commit_spawn now rg c)) j = map_of (rg_execs rg) j)"
    by (rule ok_spawn) (use Cons.prems in auto)
  then show ?case using Cons.IH [of "rg_commit_spawn now rg c"] Cons.prems(2) by simp
qed simp

lemma ok_delete:
  assumes ok: "indexes_ok rg" and d: "rg_delete_terminal_session rg sid = Inr (rg', b)"
  shows "indexes_ok rg'"
proof -
  consider "same_indexes rg rg'"
    | s where "rg' = free_serial (Some s)
                \<lparr>rg_sessions = AList.delete sid (rg_sessions rg), rg_running = removeAll sid (rg_running rg),
                 rg_terminal = AList.delete sid (rg_terminal rg), rg_serials = rg_serials rg,
                 rg_execs = filter (\<lambda>(i, h). i \<notin> set (entries (rg_members rg) sid)) (rg_execs rg),
                 rg_members = AList.delete sid (rg_members rg), rg_pending = AList.delete sid (rg_pending rg),
                 rg_outbox = filter (\<lambda>i. i \<notin> set (entries (rg_members rg) sid)) (rg_outbox rg),
                 rg_waiting = filter (\<lambda>i. i \<notin> set (entries (rg_members rg) sid)) (rg_waiting rg),
                 rg_parents = filter (\<lambda>(i, h). i \<notin> set (entries (rg_members rg) sid)) (rg_parents rg),
                 rg_children = filter (\<lambda>(i, h). i \<notin> set (entries (rg_members rg) sid)) (rg_children rg)\<rparr>"
    using d by (auto simp: rg_delete_terminal_session_def rbind_eq_Inr Let_def same_indexes_def split: option.splits if_splits)
  then show ?thesis
  proof cases
    case 1
    then show ?thesis using same_indexes_ok ok by blast
  next
    case (2 s)
    let ?gone = "set (entries (rg_members rg) sid)"
    have "map_of (filter (\<lambda>(i, h). i \<notin> ?gone) xs) j = (if j \<in> ?gone then None else map_of xs j)" for xs :: "(string \<times> exec_hash) list" and j
      by (induction xs) auto
    then have e: "map_of (rg_execs rg') j = (if j \<in> ?gone then None else map_of (rg_execs rg) j)" for j
      unfolding 2 by (simp add: same_sessions(3) [unfolded same_indexes_def])
    have r: "rg_members rg' = AList.delete sid (rg_members rg)" "rg_pending rg' = AList.delete sid (rg_pending rg)"
      "rg_outbox rg' = filter (\<lambda>i. i \<notin> ?gone) (rg_outbox rg)" "rg_waiting rg' = filter (\<lambda>i. i \<notin> ?gone) (rg_waiting rg)"
      unfolding 2 by (simp_all add: same_sessions(3) [unfolded same_indexes_def])
    have g: "j \<in> ?gone \<longleftrightarrow> (\<exists>h. map_of (rg_execs rg) j = Some h \<and> xh_session h = Some sid)" for j
      by (rule indexes_okD(4) [OF ok])
    show ?thesis
      unfolding indexes_ok_def e r
    proof (intro conjI)
      show "\<forall>k i. i \<in> set (entries (AList.delete sid (rg_members rg)) k) \<longleftrightarrow>
          (\<exists>h. (if i \<in> ?gone then None else map_of (rg_execs rg) i) = Some h \<and> xh_session h = Some k)"
        using indexes_okD(4) [OF ok] g by auto
      show "\<forall>k i. i \<in> set (entries (AList.delete sid (rg_pending rg)) k) \<longleftrightarrow>
          (\<exists>h. (if i \<in> ?gone then None else map_of (rg_execs rg) i) = Some h \<and> xh_session h = Some k \<and> xh_status h = Some XPending)"
        using indexes_okD(5) [OF ok] g by auto
    qed (use indexes_okD [OF ok] in auto)
  qed
qed

subsection \<open>Runs\<close>

datatype redis_op =
    RCreate rat string string dict "string option" "string option"
  | REnd graph_status rat string
  | RDelete string
  | RAdd rat string string string "node_policy option"
  | RRunning rat string dict
  | RCompleted rat string dict
  | RRetrying string "string option" "rat option"
  | RFailed rat string "string option"
  | RWaiting string wake
  | RWake string
  | REffects string "effects option"
  | RAddEdge string string "string option"
  | RRemoveEdge string string
  | RCommit rat string string dict "staged_plan option" "(string \<times> string option) list" "effects option" "staged_session list"

fun redis_step :: "redis_op \<Rightarrow> redis_graph \<Rightarrow> redis_graph" where
  "redis_step (RCreate now fresh tr st serial given) rg = fst (rg_create_session now fresh rg tr st serial given)"
| "redis_step (REnd status now i) rg = (case rg_finish_session status now rg i of Inl e \<Rightarrow> rg | Inr rg' \<Rightarrow> rg')"
| "redis_step (RDelete i) rg = (case rg_delete_terminal_session rg i of Inl e \<Rightarrow> rg | Inr (rg', b) \<Rightarrow> rg')"
| "redis_step (RAdd now sid name i p) rg = rg_add_execution now rg sid name i p"
| "redis_step (RRunning now i st) rg = rg_mark_running now rg i st"
| "redis_step (RCompleted now i st) rg = rg_mark_completed now rg i st"
| "redis_step (RRetrying i error t) rg = rg_mark_retrying rg i error t"
| "redis_step (RFailed now i error) rg = rg_mark_failed now rg i error"
| "redis_step (RWaiting i w) rg = rg_mark_waiting rg i w"
| "redis_step (RWake i) rg = fst (rg_wake_execution rg i)"
| "redis_step (REffects i ef) rg = rg_set_effects rg i ef"
| "redis_step (RAddEdge a b c) rg = rg_add_edge a b c rg"
| "redis_step (RRemoveEdge a b) rg = rg_remove_edge a b rg"
| "redis_step (RCommit now i sid result staged children ef spawns) rg = rg_commit_transition now rg i sid result staged children ef spawns"

text \<open>
  What the callers see to: new executions have fresh identifiers and a session, and the execution that is marked
  exists and, in a commit, belongs to the session.
\<close>

definition new_children :: "redis_graph \<Rightarrow> staged_session list \<Rightarrow> staged_session list" where
  "new_children rg spawns = filter (\<lambda>c. map_of (rg_sessions rg) (ss_id c) = None) spawns"

definition staged_ids :: "staged_plan option \<Rightarrow> string list" where
  "staged_ids staged = (case staged of None \<Rightarrow> [] | Some sp \<Rightarrow> map se_id (sl_execs sp))"

fun redis_op_ok :: "redis_op \<Rightarrow> redis_graph \<Rightarrow> bool" where
  "redis_op_ok (RAdd now sid name i p) rg \<longleftrightarrow> map_of (rg_execs rg) i = None \<and> sid \<noteq> []"
| "redis_op_ok (RRunning now i st) rg \<longleftrightarrow> map_of (rg_execs rg) i \<noteq> None"
| "redis_op_ok (RCompleted now i st) rg \<longleftrightarrow> map_of (rg_execs rg) i \<noteq> None"
| "redis_op_ok (RRetrying i error t) rg \<longleftrightarrow> map_of (rg_execs rg) i \<noteq> None"
| "redis_op_ok (RFailed now i error) rg \<longleftrightarrow> map_of (rg_execs rg) i \<noteq> None"
| "redis_op_ok (RWaiting i w) rg \<longleftrightarrow> map_of (rg_execs rg) i \<noteq> None"
| "redis_op_ok (REffects i ef) rg \<longleftrightarrow> map_of (rg_execs rg) i \<noteq> None"
| "redis_op_ok (RCommit now i sid result staged children ef spawns) rg \<longleftrightarrow>
     session_of rg i = Some sid \<and> list_all (\<lambda>c. ss_id c \<noteq> []) (new_children rg spawns)
     \<and> distinct (concat (map child_execs (new_children rg spawns)) @ staged_ids staged)
     \<and> list_all (\<lambda>j. map_of (rg_execs rg) j = None) (concat (map child_execs (new_children rg spawns)) @ staged_ids staged)"
| "redis_op_ok _ rg \<longleftrightarrow> True"

lemma ok_splice:
  assumes "indexes_ok rg" and "sid \<noteq> []" and "unused rg (map se_id (sl_execs sp))"
  shows "indexes_ok (rg_splice now i sid sp children rg)
    \<and> (\<forall>j. j \<notin> set (map se_id (sl_execs sp)) \<longrightarrow> map_of (rg_execs (rg_splice now i sid sp children rg)) j = map_of (rg_execs rg) j)"
proof -
  let ?rg1 = "rg_write_execs now sid (sl_execs sp) rg"
  have s: "same_indexes ?rg1 (rg_splice now i sid sp children rg)"
    unfolding rg_splice_def Let_def
    by (intro same_trans [OF same_edges(3) same_trans [OF same_foldl same_trans [OF same_foldl same_foldl]]]) (simp_all split: prod.splits)
  then show ?thesis using ok_write_execs [OF assms(1,2), of "sl_execs sp" "[]"] assms(3) same_indexes_ok [OF s] by (simp add: same_indexes_def)
qed

lemma ok_commit:
  assumes ok: "indexes_ok rg" and may: "redis_op_ok (RCommit now i sid result staged children ef spawns) rg"
  shows "indexes_ok (rg_commit_transition now rg i sid result staged children ef spawns)"
proof -
  let ?cs = "new_children rg spawns"
  let ?new = "concat (map child_execs ?cs) @ staged_ids staged"
  obtain h where h: "map_of (rg_execs rg) i = Some h" "xh_session h = Some sid" "sid \<noteq> []"
    using may by (auto simp: session_of_def nonempty_text_def split: option.splits if_splits)
  have new: "unused rg ?new" "\<forall>c \<in> set ?cs. ss_id c \<noteq> []" using may by (simp_all add: unused_def list_all_iff)
  then have out: "i \<notin> set ?new" using h(1) unfolding unused_def by (metis option.distinct(1))
  let ?rg1 = "foldl (rg_commit_spawn now) rg ?cs"
  note one = ok_spawns [OF ok new(2,1), of now]
  let ?rg2 = "case staged of None \<Rightarrow> ?rg1 | Some sp \<Rightarrow> rg_splice now i sid sp children ?rg1"
  have "indexes_ok ?rg2 \<and> (\<forall>j. j \<notin> set (staged_ids staged) \<longrightarrow> map_of (rg_execs ?rg2) j = map_of (rg_execs ?rg1) j)"
    using one ok_splice [OF _ h(3)] by (cases staged) (simp_all add: staged_ids_def)
  then have two: "indexes_ok ?rg2" "map_of (rg_execs ?rg2) i = Some h" using one out h(1) by auto
  have m: "i \<in> set (entries (rg_members ?rg2) sid)" using indexes_okD(4) [OF two(1)] two(2) h(2) by blast
  let ?h = "h\<lparr>xh_status := Some XCompleted, xh_result := Some result, xh_completed := Some now,
       xh_effects := (case ef of None \<Rightarrow> xh_effects h | Some e \<Rightarrow> Some e)\<rparr>"
  have "rg_commit_transition now rg i sid result staged children ef spawns
      = not_pending (Some sid) i (hset_exec i (\<lambda>h. h\<lparr>xh_status := Some XCompleted, xh_result := Some result, xh_completed := Some now,
           xh_effects := (case ef of None \<Rightarrow> xh_effects h | Some e \<Rightarrow> Some e)\<rparr>)
          (if ef = None then ?rg2 else ?rg2\<lparr>rg_outbox := List.insert i (rg_outbox ?rg2)\<rparr>))"
    unfolding rg_commit_transition_def Let_def new_children_def ..
  moreover have "hash_ok i ?h" using indexes_okD(1) [OF two] by (simp add: hash_ok_def)
  ultimately show ?thesis
    by (intro indexes_write [OF two(1), where h = ?h and i = i and sid = sid])
       (use two(2) h(2) m indexes_okD [OF two(1)] in \<open>auto simp: not_pending_def distinct_removeAll split: option.splits\<close>)
qed

lemma ok_redis_step:
  assumes ok: "indexes_ok rg" and may: "redis_op_ok op rg"
  shows "indexes_ok (redis_step op rg)"
proof (cases op)
  case (RCreate now fresh tr st serial given)
  then show ?thesis using same_indexes_ok [OF same_sessions(4) ok] by simp
next
  case (REnd status now i)
  then show ?thesis using same_indexes_ok [OF same_finish ok] ok by (auto split: sum.splits)
next
  case (RDelete i)
  then show ?thesis using ok_delete [OF ok] ok by (auto split: sum.splits)
next
  case (RAdd now sid name i p)
  then show ?thesis using ok_add [OF ok] may by simp
next
  case (RRunning now i st)
  then show ?thesis using ok_set_status [OF ok] may by (auto simp: rg_mark_running_def)
next
  case (RCompleted now i st)
  then show ?thesis using ok_set_status [OF ok] may by (auto simp: rg_mark_completed_def)
next
  case (RRetrying i error t)
  then show ?thesis using ok_retrying [OF ok] may by auto
next
  case (RFailed now i error)
  then show ?thesis using ok_set_status [OF ok] may by (auto simp: rg_mark_failed_def)
next
  case (RWaiting i w)
  then show ?thesis using ok_waiting [OF ok] may by auto
next
  case (RWake i)
  then show ?thesis using ok_wake [OF ok] by simp
next
  case (REffects i ef)
  then show ?thesis using ok_effects [OF ok] may by auto
next
  case (RAddEdge a b c)
  then show ?thesis using same_indexes_ok [OF same_edges(1) ok] by simp
next
  case (RRemoveEdge a b)
  then show ?thesis using same_indexes_ok [OF same_edges(2) ok] by simp
next
  case (RCommit now i sid result staged children ef spawns)
  then show ?thesis using ok_commit [OF ok] may by simp
qed

fun redis_ops_ok :: "redis_op list \<Rightarrow> redis_graph \<Rightarrow> bool" where
  "redis_ops_ok [] rg \<longleftrightarrow> True"
| "redis_ops_ok (op # ops) rg \<longleftrightarrow> redis_op_ok op rg \<and> redis_ops_ok ops (redis_step op rg)"

definition redis_ops :: "redis_op list \<Rightarrow> redis_graph \<Rightarrow> redis_graph" where
  "redis_ops ops rg = foldl (\<lambda>rg op. redis_step op rg) rg ops"

lemma ok_redis_ops: "indexes_ok rg \<Longrightarrow> redis_ops_ok ops rg \<Longrightarrow> indexes_ok (redis_ops ops rg)"
  by (induction ops arbitrary: rg) (simp_all add: redis_ops_def ok_redis_step)

subsection \<open>Reading the indexes\<close>

definition exec_value :: "exec_hash \<Rightarrow> execution" where
  "exec_value h = \<lparr>ex_id = the (xh_id h), ex_session = the (xh_session h), ex_name = the (xh_name h), ex_status = the (xh_status h),
     ex_input = xh_input h, ex_result = xh_result h, ex_attempts = (case xh_attempts h of None \<Rightarrow> 0 | Some n \<Rightarrow> n), ex_policy = xh_policy h,
     ex_error = nonempty_text (xh_error h), ex_retry_at = xh_retry h, ex_effects = xh_effects h, ex_wake = xh_wake h,
     ex_created = (case xh_created h of None \<Rightarrow> 0 | Some t \<Rightarrow> t), ex_started = xh_started h, ex_completed = xh_completed h\<rparr>"

definition exec_at :: "redis_graph \<Rightarrow> string \<Rightarrow> execution" where
  "exec_at rg i = exec_value (the (map_of (rg_execs rg) i))"

lemma read_execution: "indexes_ok rg \<Longrightarrow> map_of (rg_execs rg) i \<noteq> None \<Longrightarrow> rg_get_execution rg i = Inr (Some (exec_at rg i))"
  using indexes_okD(1) [of rg i] by (auto simp: hash_ok_def rg_get_execution_def decode_execution_def needed_def exec_at_def exec_value_def)

lemma read_executions:
  "indexes_ok rg \<Longrightarrow> (\<forall>i \<in> set is. map_of (rg_execs rg) i \<noteq> None) \<Longrightarrow> rg_get_executions rg is = Inr (map (exec_at rg) is)"
  by (induction "is") (simp_all add: rg_get_executions_def read_execution)

lemma read_index:
  assumes ok: "indexes_ok rg" and ids: "\<forall>i \<in> set is. map_of (rg_execs rg) i \<noteq> None"
    and all: "\<And>i. map_of (rg_execs rg) i \<noteq> None \<Longrightarrow> P (exec_at rg i) \<Longrightarrow> i \<in> set is"
  shows "\<exists>es. rbind (rg_get_executions rg (sort_texts is)) (\<lambda>es. Inr (filter P es)) = Inr es
    \<and> set es = {e. (\<exists>i. rg_get_execution rg i = Inr (Some e)) \<and> P e}"
proof -
  have r: "rg_get_executions rg (sort_texts is) = Inr (map (exec_at rg) (sort_texts is))"
    using read_executions [OF ok] ids by simp
  have get: "rg_get_execution rg i = Inr (Some e) \<longleftrightarrow> map_of (rg_execs rg) i \<noteq> None \<and> e = exec_at rg i" for i e
    using read_execution [OF ok, of i] by (cases "map_of (rg_execs rg) i") (auto simp: rg_get_execution_def)
  have "e \<in> exec_at rg ` set is \<and> P e \<longleftrightarrow> (\<exists>i. rg_get_execution rg i = Inr (Some e)) \<and> P e" for e
    unfolding get using ids all by blast
  then show ?thesis unfolding r by auto
qed

lemma status_at:
  assumes "indexes_ok rg" and "map_of (rg_execs rg) i = Some h"
  shows "ex_status (exec_at rg i) = st \<longleftrightarrow> xh_status h = Some st" and "ex_effects (exec_at rg i) = xh_effects h"
  using indexes_okD(1) [OF assms] assms(2) by (auto simp: exec_at_def exec_value_def hash_ok_def)


definition sample_ops :: "redis_op list" where
  "sample_ops = [RCreate 0 [] ''t'' [] None (Some ''A''), RAdd 0 ''A'' ''n'' ''y'' None, RAdd 0 ''A'' ''n'' ''x'' None, RAdd 0 ''A'' ''w'' ''v'' None,
     RRunning 1 ''y'' [], RWaiting ''v'' \<lparr>wk_conversation = ''c'', wk_at = None\<rparr>, RRetrying ''y'' (Some ''oops'') (Some 2), RCompleted 3 ''x'' []]"


subsection \<open>Against the reference store\<close>

text \<open>An execution is marked as the reference store marks it, but that an empty error text or a retry time of zero reads back as none.\<close>

lemma marks_agree:
  assumes "map_of (rg_execs rg) i \<noteq> None" and "map_of (gr_execs g) i = Some (exec_at rg i)"
  shows "mark_running now g i st = Inr g' \<Longrightarrow> map_of (gr_execs g') i = Some (exec_at (rg_mark_running now rg i st) i)"
    and "mark_completed now g i st = Inr g' \<Longrightarrow> map_of (gr_execs g') i = Some (exec_at (rg_mark_completed now rg i st) i)"
    and "error \<noteq> Some [] \<Longrightarrow> mark_failed now g i error = Inr g' \<Longrightarrow> map_of (gr_execs g') i = Some (exec_at (rg_mark_failed now rg i error) i)"
    and "error \<noteq> Some [] \<Longrightarrow> t \<noteq> Some 0 \<Longrightarrow> mark_retrying g i error t = Inr g' \<Longrightarrow>
      map_of (gr_execs g') i = Some (exec_at (rg_mark_retrying rg i error t) i)"
    and "mark_waiting g i w = Inr g' \<Longrightarrow> map_of (gr_execs g') i = Some (exec_at (rg_mark_waiting rg i w) i)"
    and "set_effects g i ef = Inr g' \<Longrightarrow> map_of (gr_execs g') i = Some (exec_at (rg_set_effects rg i ef) i)"
proof -
  have keep: "rg_execs (not_pending k i r) = rg_execs r" "rg_execs (now_pending k i r) = rg_execs r" for k r
    by (simp_all add: not_pending_def now_pending_def split: option.splits)
  note simps = exec_at_def exec_value_def keep change_exec_def rg_set_status_def nonempty_text_def text_or_empty_def Let_def
  obtain h where h: "map_of (rg_execs rg) i = Some h" using assms(1) by blast
  show "mark_running now g i st = Inr g' \<Longrightarrow> map_of (gr_execs g') i = Some (exec_at (rg_mark_running now rg i st) i)"
    "mark_completed now g i st = Inr g' \<Longrightarrow> map_of (gr_execs g') i = Some (exec_at (rg_mark_completed now rg i st) i)"
    "error \<noteq> Some [] \<Longrightarrow> mark_failed now g i error = Inr g' \<Longrightarrow> map_of (gr_execs g') i = Some (exec_at (rg_mark_failed now rg i error) i)"
    "error \<noteq> Some [] \<Longrightarrow> t \<noteq> Some 0 \<Longrightarrow> mark_retrying g i error t = Inr g' \<Longrightarrow>
      map_of (gr_execs g') i = Some (exec_at (rg_mark_retrying rg i error t) i)"
    "mark_waiting g i w = Inr g' \<Longrightarrow> map_of (gr_execs g') i = Some (exec_at (rg_mark_waiting rg i w) i)"
    "set_effects g i ef = Inr g' \<Longrightarrow> map_of (gr_execs g') i = Some (exec_at (rg_set_effects rg i ef) i)"
    using h assms(2)
    by (auto simp: simps mark_running_def rg_mark_running_def mark_completed_def rg_mark_completed_def mark_failed_def rg_mark_failed_def
        mark_retrying_def rg_mark_retrying_def mark_waiting_def rg_mark_waiting_def set_effects_def rg_set_effects_def split: option.splits)
qed

subsection \<open>Where the store departs from its contract\<close>

text \<open>
  A finished session keeps its serial key in its hash, and its deletion deletes the key's lock again, although another
  session may hold it by then: two running sessions come to share the key.
\<close>

definition two_holders :: redis_graph where
  "two_holders = redis_ops [RCreate 0 [] ''t'' [] (Some ''k'') (Some ''A''), REnd SCompleted 1 ''A'', RCreate 2 [] ''t'' [] (Some ''k'') (Some ''B''),
     RDelete ''A'', RCreate 3 [] ''t'' [] (Some ''k'') (Some ''C'')] redis_empty"

lemma retention_frees_a_held_key:
  "rbind (rg_running_sessions two_holders) (\<lambda>ss. Inr (map (\<lambda>s. (gs_id s, gs_serial s)) ss)) = Inr [(''B'', Some ''k''), (''C'', Some ''k'')]"
  by code_simp

text \<open>A mark that comes after its session was deleted leaves a hash without an identifier, which no read gets past.\<close>

lemma late_mark_leaves_a_torn_hash:
  "rg_get_execution (rg_mark_completed 5 redis_empty ''e'' []) ''e'' = Inl (KeyError ''id'')"
  by code_simp

text \<open>So does the end of a session that is not there.\<close>

lemma late_end_leaves_a_torn_hash:
  "rbind (rg_complete_session 5 redis_empty ''s'') rg_terminal_sessions = Inl (KeyError ''initial_state'')"
  by code_simp

end
