(* ===== verification/Redis_Monitors.thy ===== *)
theory Redis_Monitors
  imports Monitors Redis_Laws
begin

text \<open>
  The Redis monitor store (\<open>entourage/monitors.py\<close>, class \<open>RedisMonitorStore\<close>): one document per monitor and the set of
  their identifiers, over which every scan goes in sorted order. A method is one step, and the namespace
  holds no other keys. The store keeps the same records as the
  reference store through any run of the operations.
\<close>

subsection \<open>The store\<close>

record redis_monitors =
  mo_ids :: "string list"
  mo_docs :: "(string \<times> armed) list"

definition mo_empty :: redis_monitors where
  "mo_empty = \<lparr>mo_ids = [], mo_docs = []\<rparr>"

definition mo_save :: "string \<Rightarrow> armed \<Rightarrow> redis_monitors \<Rightarrow> redis_monitors" where
  "mo_save i r s = \<lparr>mo_ids = List.insert i (mo_ids s), mo_docs = AList.update i r (mo_docs s)\<rparr>"

definition mo_load :: "redis_monitors \<Rightarrow> string \<Rightarrow> armed option" where
  "mo_load s i = map_of (mo_docs s) i"

definition mo_delete :: "string \<Rightarrow> redis_monitors \<Rightarrow> redis_monitors \<times> bool" where
  "mo_delete i s = (\<lparr>mo_ids = removeAll i (mo_ids s), mo_docs = AList.delete i (mo_docs s)\<rparr>, map_of (mo_docs s) i \<noteq> None)"

definition mo_arm :: "redis_monitors \<Rightarrow> string \<Rightarrow> monitor \<Rightarrow> rat \<Rightarrow> redis_monitors" where
  "mo_arm s i m now = (case mo_load s i of Some r \<Rightarrow> s | None \<Rightarrow> mo_save i (armed_record (m\<lparr>mn_id := Some i\<rparr>) now) s)"

definition mo_disarm :: "redis_monitors \<Rightarrow> string \<Rightarrow> redis_monitors \<times> bool" where
  "mo_disarm s i = mo_delete i s"

fun mo_observe_each :: "string option \<Rightarrow> string option \<Rightarrow> rat \<Rightarrow> string list \<Rightarrow> redis_monitors \<Rightarrow> redis_monitors \<times> nat" where
  "mo_observe_each c src now [] s = (s, 0)"
| "mo_observe_each c src now (i # is) s =
     (case mo_load s i of
        None \<Rightarrow> mo_observe_each c src now is s
      | Some r \<Rightarrow>
          if \<not> monitor_matches r c src then mo_observe_each c src now is s
          else let s1 = (if mn_deadline r \<noteq> None then fst (mo_delete i s) else mo_save i (r\<lparr>ar_last_seen := now, ar_lapsed := False\<rparr>) s);
                   (s2, n) = mo_observe_each c src now is s1
               in (s2, Suc n))"

definition mo_observe :: "redis_monitors \<Rightarrow> string option \<Rightarrow> string option \<Rightarrow> rat \<Rightarrow> redis_monitors \<times> nat" where
  "mo_observe s c src now = mo_observe_each c src now (sort_texts (mo_ids s)) s"

definition mo_list :: "redis_monitors \<Rightarrow> armed list" where
  "mo_list s = List.map_filter (mo_load s) (sort_texts (mo_ids s))"

definition mo_due :: "redis_monitors \<Rightarrow> rat \<Rightarrow> armed list" where
  "mo_due s now = filter (\<lambda>r. is_due r now) (mo_list s)"

definition mo_mark_lapsed :: "redis_monitors \<Rightarrow> string \<Rightarrow> redis_monitors" where
  "mo_mark_lapsed s i =
     (case mo_load s i of
        None \<Rightarrow> s
      | Some r \<Rightarrow> if mn_deadline r \<noteq> None then fst (mo_delete i s)
          else mo_save i (r\<lparr>ar_lapsed := True, ar_cycles := Suc (ar_cycles r)\<rparr>) s)"

definition mo_purge :: "redis_monitors \<Rightarrow> redis_monitors \<times> nat" where
  "mo_purge s = (mo_empty, length (mo_docs s) + (if mo_ids s = [] then 0 else 1))"

subsection \<open>Against the reference store\<close>

definition same_monitors :: "redis_monitors \<Rightarrow> monitor_store \<Rightarrow> bool" where
  "same_monitors s t \<longleftrightarrow> dict_ok t \<and> (\<forall>i. map_of (mo_docs s) i = map_of t i) \<and> distinct (mo_ids s) \<and> set (mo_ids s) = fst ` set t"

lemma mo_docs_simps [simp]:
  "map_of (mo_docs (mo_save i r s)) = (map_of (mo_docs s))(i \<mapsto> r)" "map_of (mo_docs (fst (mo_delete i s))) = (map_of (mo_docs s))(i := None)"
  "set (mo_ids (mo_save i r s)) = insert i (set (mo_ids s))" "set (mo_ids (fst (mo_delete i s))) = set (mo_ids s) - {i}"
  "distinct (mo_ids s) \<Longrightarrow> distinct (mo_ids (mo_save i r s))" "distinct (mo_ids s) \<Longrightarrow> distinct (mo_ids (fst (mo_delete i s)))"
  by (auto simp: mo_save_def mo_delete_def distinct_removeAll)

lemma keys_iff: "dict_ok t \<Longrightarrow> i \<in> fst ` set t \<longleftrightarrow> map_of t i \<noteq> None"
  by (simp add: map_of_eq_None_iff)

lemma same_monitors_alt:
  "same_monitors s t \<longleftrightarrow> dict_ok t \<and> map_of (mo_docs s) = map_of t \<and> distinct (mo_ids s) \<and> set (mo_ids s) = dom (map_of t)"
  by (auto simp: same_monitors_def fun_eq_iff dom_map_of_conv_image_fst)

lemma same_save: "same_monitors s t \<Longrightarrow> same_monitors (mo_save i r s) (AList.update i r t)"
  by (auto simp: same_monitors_alt split: if_splits)

lemma same_delete: "same_monitors s t \<Longrightarrow> same_monitors (fst (mo_delete i s)) (AList.delete i t)"
  by (auto simp: same_monitors_alt split: if_splits)

lemma same_arm: "same_monitors s t \<Longrightarrow> same_monitors (mo_arm s i m now) (arm_monitor t i m now)"
  using same_save by (auto simp: mo_arm_def arm_monitor_def mo_load_def same_monitors_alt split: option.splits)

lemma same_disarm:
  "same_monitors s t \<Longrightarrow> same_monitors (fst (mo_disarm s i)) (fst (disarm_monitor t i)) \<and> snd (mo_disarm s i) = snd (disarm_monitor t i)"
  using same_delete [of s t i] by (simp add: mo_disarm_def disarm_monitor_def) (simp add: mo_delete_def same_monitors_alt)

lemma same_lapsed: "same_monitors s t \<Longrightarrow> same_monitors (mo_mark_lapsed s i) (mark_lapsed t i)"
  using same_save [of s t i] same_delete [of s t i] by (auto simp: mo_mark_lapsed_def mark_lapsed_def mo_load_def same_monitors_alt split: option.splits)

text \<open>What a record becomes when it is observed.\<close>

definition observed_as :: "string option \<Rightarrow> string option \<Rightarrow> rat \<Rightarrow> armed \<Rightarrow> armed option" where
  "observed_as c src now r =
     (if \<not> monitor_matches r c src then Some r else if mn_deadline r \<noteq> None then None else Some (r\<lparr>ar_last_seen := now, ar_lapsed := False\<rparr>))"

lemma observe_each_effect:
  "distinct is \<Longrightarrow> distinct (mo_ids s) \<Longrightarrow> set (mo_ids s) = dom (map_of (mo_docs s)) \<Longrightarrow> mo_observe_each c src now is s = (s', n) \<Longrightarrow>
     distinct (mo_ids s') \<and> set (mo_ids s') = dom (map_of (mo_docs s'))
     \<and> (\<forall>i. map_of (mo_docs s') i = (if i \<in> set is then Option.bind (map_of (mo_docs s) i) (observed_as c src now) else map_of (mo_docs s) i))
     \<and> n = length (filter (\<lambda>i. \<exists>r. map_of (mo_docs s) i = Some r \<and> monitor_matches r c src) is)"
proof (induction "is" arbitrary: s n)
  case Nil
  then show ?case by auto
next
  case (Cons i "is")
  show ?case
  proof (cases "\<exists>r. mo_load s i = Some r \<and> monitor_matches r c src")
    case False
    then have "mo_observe_each c src now is s = (s', n)" using Cons.prems(4) by (auto split: option.splits)
    note ih = Cons.IH [OF _ Cons.prems(2,3) this]
    have "Option.bind (map_of (mo_docs s) i) (observed_as c src now) = map_of (mo_docs s) i"
      using False by (cases "map_of (mo_docs s) i") (auto simp: mo_load_def observed_as_def)
    then show ?thesis using ih Cons.prems(1) False by (auto simp: mo_load_def)
  next
    case True
    then obtain r where r: "map_of (mo_docs s) i = Some r" "monitor_matches r c src" by (auto simp: mo_load_def)
    define s1 where "s1 = (if mn_deadline r \<noteq> None then fst (mo_delete i s) else mo_save i (r\<lparr>ar_last_seen := now, ar_lapsed := False\<rparr>) s)"
    obtain m where m: "mo_observe_each c src now is s1 = (s', m)" "n = Suc m"
      using Cons.prems(4) r by (auto simp: mo_load_def s1_def Let_def split: prod.splits if_splits)
    have d1: "map_of (mo_docs s1) = (map_of (mo_docs s))(i := observed_as c src now r)"
      using r(2) by (simp add: s1_def observed_as_def)
    have s1: "distinct (mo_ids s1)" "set (mo_ids s1) = dom (map_of (mo_docs s1))"
      using Cons.prems(2,3) by (auto simp: s1_def split: if_splits)
    have "distinct is" "i \<notin> set is" using Cons.prems(1) by simp_all
    note ih = Cons.IH [OF this(1) s1 m(1)]
    have "filter (\<lambda>j. \<exists>r. map_of (mo_docs s1) j = Some r \<and> monitor_matches r c src) is
        = filter (\<lambda>j. \<exists>r. map_of (mo_docs s) j = Some r \<and> monitor_matches r c src) is"
      using \<open>i \<notin> set is\<close> by (intro filter_cong) (auto simp: d1)
    then show ?thesis using ih r m(2) \<open>i \<notin> set is\<close> by (auto simp: d1)
  qed
qed

lemma filter_card:
  assumes "distinct xs" and "set xs = dom f"
  shows "length (filter (\<lambda>i. \<exists>r. f i = Some r \<and> P r) xs) = card {i. \<exists>r. f i = Some r \<and> P r}"
proof -
  have "set (filter (\<lambda>i. \<exists>r. f i = Some r \<and> P r) xs) = {i. \<exists>r. f i = Some r \<and> P r}" using assms(2) by auto
  then show ?thesis using distinct_card [of "filter (\<lambda>i. \<exists>r. f i = Some r \<and> P r) xs"] assms(1) by simp
qed

lemma observed_count:
  assumes "dict_ok t"
  shows "length (filter (\<lambda>(i, r). P r) t) = card {i. \<exists>r. map_of t i = Some r \<and> P r}"
proof -
  have "distinct (map fst (filter (\<lambda>(i, r). P r) t))" using assms by (simp add: dict_ok_def distinct_map_filter)
  moreover have "set (map fst (filter (\<lambda>(i, r). P r) t)) = {i. \<exists>r. map_of t i = Some r \<and> P r}"
    using dict_ok_map_of [OF assms] by force
  ultimately show ?thesis using distinct_card [of "map fst (filter (\<lambda>(i, r). P r) t)"] by simp
qed

lemma observe_dict_ok: "dict_ok t \<Longrightarrow> dict_ok (fst (observe_monitors t c src now))"
proof -
  have "map fst (fst (observe_monitors t c src now)) = map fst (filter (\<lambda>(i, r). \<not> (monitor_matches r c src \<and> mn_deadline r \<noteq> None)) t)"
    unfolding observe_shape by (simp add: comp_def split_beta)
  then show "dict_ok t \<Longrightarrow> dict_ok (fst (observe_monitors t c src now))" by (simp add: dict_ok_def distinct_map_filter)
qed

lemma same_observe:
  assumes "same_monitors s t"
  shows "same_monitors (fst (mo_observe s c src now)) (fst (observe_monitors t c src now))
    \<and> snd (mo_observe s c src now) = snd (observe_monitors t c src now)"
proof -
  note a = assms [unfolded same_monitors_alt]
  obtain s' n where o: "mo_observe_each c src now (sort_texts (mo_ids s)) s = (s', n)" by fastforce
  have "distinct (sort_texts (mo_ids s))" "distinct (mo_ids s)" "set (mo_ids s) = dom (map_of (mo_docs s))"
    using a by (simp_all add: distinct_sort_texts)
  note e = observe_each_effect [OF this o]
  have docs: "map_of (mo_docs s') i = map_of (fst (observe_monitors t c src now)) i" for i
  proof (cases "map_of t i")
    case None
    then show ?thesis using e a by (simp add: observe_map_of domIff)
  next
    case (Some r)
    then have "i \<in> set (mo_ids s)" using a by (simp add: domI)
    then show ?thesis using e a Some by (simp add: observe_map_of observed_as_def)
  qed
  have "n = card {i. \<exists>r. map_of t i = Some r \<and> monitor_matches r c src}"
    using e filter_card [of "sort_texts (mo_ids s)" "map_of t"] a by (simp add: distinct_sort_texts)
  then have "n = snd (observe_monitors t c src now)" using observed_count [of t "\<lambda>r. monitor_matches r c src"] a by (simp add: observe_count)
  moreover have "map_of (mo_docs s') = map_of (fst (observe_monitors t c src now))" using docs by blast
  ultimately show ?thesis using e a observe_dict_ok [of t] by (simp add: mo_observe_def o same_monitors_alt)
qed

lemma same_scans:
  assumes "same_monitors s t"
  shows "set (mo_list s) = set (list_monitors t)" and "set (mo_due s now) = set (due_monitors t now)"
proof -
  note a = assms [unfolded same_monitors_alt]
  have "r \<in> set (mo_list s) \<longleftrightarrow> (\<exists>i. map_of t i = Some r)" for r
    using a by (auto simp: mo_list_def mo_load_def in_map_filter dom_def)
  moreover have "r \<in> set (list_monitors t) \<longleftrightarrow> (\<exists>i. map_of t i = Some r)" for r
  proof -
    have "r \<in> set (list_monitors t) \<longleftrightarrow> (\<exists>i. (i, r) \<in> set t)" by (simp add: list_monitors_def image_iff Bex_def)
    then show ?thesis using a by (simp add: dict_ok_map_of)
  qed
  ultimately show l: "set (mo_list s) = set (list_monitors t)" by blast
  show "set (mo_due s now) = set (due_monitors t now)"
    using l by (auto simp: mo_due_def due_monitors_def list_monitors_def)
qed

subsection \<open>Runs\<close>

datatype monitor_op =
    Arm string monitor rat
  | Disarm string
  | Observe "string option" "string option" rat
  | Lapse string

fun mo_step :: "monitor_op \<Rightarrow> redis_monitors \<Rightarrow> redis_monitors" where
  "mo_step (Arm i m now) s = mo_arm s i m now"
| "mo_step (Disarm i) s = fst (mo_disarm s i)"
| "mo_step (Observe c src now) s = fst (mo_observe s c src now)"
| "mo_step (Lapse i) s = mo_mark_lapsed s i"

fun monitor_step :: "monitor_op \<Rightarrow> monitor_store \<Rightarrow> monitor_store" where
  "monitor_step (Arm i m now) t = arm_monitor t i m now"
| "monitor_step (Disarm i) t = fst (disarm_monitor t i)"
| "monitor_step (Observe c src now) t = fst (observe_monitors t c src now)"
| "monitor_step (Lapse i) t = mark_lapsed t i"

lemma same_step: "same_monitors s t \<Longrightarrow> same_monitors (mo_step op s) (monitor_step op t)"
  by (cases op) (simp_all add: same_arm same_disarm same_observe same_lapsed)

text \<open>After any run both stores hold the same records and find the same monitors due.\<close>

theorem redis_monitors_refine:
  "same_monitors (fold mo_step ops mo_empty) (fold monitor_step ops [])
   \<and> set (mo_due (fold mo_step ops mo_empty) now) = set (due_monitors (fold monitor_step ops []) now)
   \<and> snd (mo_observe (fold mo_step ops mo_empty) c src now) = snd (observe_monitors (fold monitor_step ops []) c src now)"
proof -
  have "same_monitors s t \<Longrightarrow> same_monitors (fold mo_step ops s) (fold monitor_step ops t)" for s t
    by (induction ops arbitrary: s t) (simp_all add: same_step)
  moreover have "same_monitors mo_empty []" by (simp add: same_monitors_alt mo_empty_def dict_ok_def)
  ultimately have s: "same_monitors (fold mo_step ops mo_empty) (fold monitor_step ops [])" by blast
  then show ?thesis using same_scans(2) [OF s] same_observe [OF s] by blast
qed

end
