(* ===== verification/Spec2Isabelle.thy ===== *)
theory Spec2Isabelle
  imports Wake_Lifecycle Session_Ingress Dispatcher_Properties Turn_Properties Plan_Laws Graph_SQL_Laws Return_Ingress Runner_Laws Deployment_Laws Ready_Queue_Runs Redis_Graph_Laws Redis_Monitors
begin

text \<open>
  Entourage: durable agents on a session store, and the graph runtime that preceded it. Paths below are
  under \<open>src/\<close>.

  THE PROGRAM. Two systems share the package. In the session core an agent is a session: a row with
  a JSON state and a mailbox in a store (\<open>entourage/sessions.py\<close>). Producers append mail
  (\<open>session_ingress.py\<close>), a dispatcher (\<open>executables.py\<close>) claims a session that is ready, runs the handler of
  its definition on the delivered mail and commits the handler's proposal (new state, incorporated mail,
  publications, spawned sessions) in one transaction; a lease fences a worker that is too late. The chat agent
  (\<open>turn.py\<close>, over \<open>panel.py\<close>, \<open>deferred_tools.py\<close>, \<open>exchanges.py\<close>) is such a handler. Workers
  (\<open>worker.py\<close>) are processes that a shard runner (\<open>runner.py\<close>) starts by reading the same store. The graph
  runtime (\<open>runtime/queue.py\<close>) runs plans (\<open>flow.py\<close>) as graphs of executions in a graph store, with its own
  mailbox (\<open>mailbox.py\<close>), monitors (\<open>monitors.py\<close>) and return ingress (\<open>ingress.py\<close>).

  COMMON GROUND. \<open>Entourage_Prelude\<close>: exceptions as \<open>py_error\<close>, a call that may raise as a sum (\<open>'a res\<close>), a call
  that changes state and may raise halfway as \<open>('s, 'a) act\<close>, dictionaries as association lists in
  insertion order. \<open>Py_Values\<close>: JSON values, floats (a finite one is an exact rational), truth, and the texts the
  code builds. The clock is an argument \<open>now\<close> of each step; random identifiers are arguments or a function of a
  counter, with freshness a named hypothesis where a property needs it.

  THE SESSION STORE. \<open>Session_Backend\<close> holds the types of \<open>session_backend.py\<close>; \<open>Local_Sessions\<close> the tables of
  \<open>sessions.py\<close> and one definition per transaction (\<open>bind_definition\<close>, \<open>create_session\<close>, \<open>append_mail\<close>, \<open>claim\<close>,
  \<open>release\<close>, \<open>retry\<close>, \<open>commit\<close>, \<open>purge\<close>, \<open>list_sessions\<close>). \<open>Wake_Laws\<close> has the branches of each and the invariant
  \<open>db_ok\<close>; \<open>Wake_Runs\<close> any interleaving of transactions; \<open>Wake_Mail\<close>, \<open>Wake_Leases\<close> and \<open>Wake_Service\<close> what runs do
  to mail, leases and unfinished work; \<open>Wake_Spec\<close> the abstract sessions and the refinement; \<open>Wake_Properties\<close> and
  \<open>Wake_Lifecycle\<close> the properties: commits are final, leases exclusive, accepted mail is delivered until
  it is incorporated and then never again, failed steps come back, claims rotate, purges are safe.

  ITS CLIENTS. \<open>Session_Store\<close> states the storage contract as the record \<open>backend\<close> and the locale
  \<open>producer_store\<close>, which the SQLite store interprets. \<open>Session_Ingress\<close> models the keying of inbound events over
  that locale. \<open>Executables\<close> models definitions, contexts and proposals; \<open>Dispatcher\<close> one step of the dispatcher and
  its loop over any backend; \<open>Dispatcher_Laws\<close> the locale \<open>worker_store\<close>; \<open>Dispatcher_Properties\<close> its
  interpretation: a step is atomic, definitions take turns, no work is overlooked. \<open>Shard\<close> models the shard
  manifest, the worker's command line and entry point; \<open>Runner\<close> the launchers (child processes as a table of
  the operating system's processes; podman as a parameter), failure notices and the tick; \<open>Runner_Laws\<close> the locale
  \<open>worker_launcher\<close>, its interpretation by the process launcher, and the bounds of the pool.

  THE CHAT AGENT. \<open>Exchanges\<close> is the table of pending requests with its shared entries in a heap, since two
  keys may name one entry; \<open>Panel\<close> called work and its tools; \<open>Turn\<close> the activation: ingest mail, settle calls, promote
  expired budgets, call the model, run its tool calls, flush. \<open>Turn_Laws\<close> accounts for every tool call through
  each of these steps; \<open>Turn_Properties\<close> states that none is lost and what a held call, a message or a cancellation
  does. The model and the tools are parameters.

  THE GRAPH RUNTIME. \<open>Mailboxes\<close> and \<open>Mailbox_Laws\<close>: the reference mailbox, its operations as one step function, its
  invariant and what no sequence of steps can do. \<open>Redis_Mailbox\<close> (\<open>redis_mailbox.py\<close>): the same mailbox on a Redis server, whose
  commands are a parameter with their documented contract; \<open>Redis_Laws\<close> and \<open>Redis_Runs\<close>: it mirrors the reference mailbox through
  every operation, and a server of association lists keeps the contract. \<open>Ready_Queue\<close>
  (\<open>runtime/redis_queue.py\<close>): the fair queue on such a server; \<open>Ready_Queue_Laws\<close>: what a batch takes; \<open>Ready_Queue_Runs\<close>: any
  number of processes interleaved command by command, with crashes, and where a payload can be. \<open>Monitors\<close>: deadlines and heartbeats;
  \<open>Redis_Monitors\<close>: their Redis store, which keeps the same records. \<open>Plans\<close>: plan forms,
  transitions and staging (\<open>flow.py\<close>, \<open>transition.py\<close>, \<open>runtime/planner.py\<close>); \<open>Plan_Laws\<close>: a staged plan is a connected
  acyclic graph. \<open>Graph_Store\<close>: the reference graph store, the shared algebra, the transition commit and
  retention (\<open>runtime/memory.py\<close>, \<open>interfaces.py\<close>, \<open>gc.py\<close>). \<open>Graph_SQL\<close> and \<open>Graph_SQL_Laws\<close>: the SQLite store
  (\<open>runtime/store.py\<close>) as tables, and that it refines the reference store over whole runs. \<open>Redis_Graph\<close>
  (\<open>runtime/redis_store.py\<close>): the Redis store, hashes with missing fields included; \<open>Redis_Graph_Laws\<close>: its indexes agree
  with scans through any run, and where it departs from its contract. \<open>Graph_Engine\<close>: the
  runtime itself (\<open>runtime/queue.py\<close>), every handler with its early returns and error paths.
  \<open>Graph_Invariants\<close>: locales that carry an invariant from primitive writes to every run of the engine, restarts
  included; \<open>Graph_Properties\<close> interprets them; \<open>Graph_Theorems\<close> has the properties: exclusive serial keys, bounded
  attempts, publication exactly once, exact waking, exact retention. \<open>Return_Ingress\<close> composes router, mailbox,
  monitors and engine.

  THE CONVERSATION LAYER of the retired runtime. \<open>Histories\<close> (\<open>memory.py\<close>): chat histories, event histories, facts and
  topic archives over a table of files; \<open>Histories_Laws\<close>: an event history loses no event whatever writes fail, storage keys
  decode to their conversation. \<open>Agent_Loop\<close> (\<open>agent.py\<close>) and \<open>Agent_Laws\<close>: one model call, its tools, and the loop of
  both; calls are answered before the model is asked again, and the loop ends when the model stops asking.
  \<open>Capabilities\<close> (\<open>capabilities.py\<close>, \<open>builtin_capabilities.py\<close>), \<open>Conversations\<close> (\<open>conversation.py\<close>) and \<open>Conversation_Laws\<close>: the
  registry, the record and its view, reset and topic shifts; a segment is archived before it is dropped, and the record
  after a turn is what the model was sent and what was added to it. \<open>Configuration\<close> (\<open>config.py\<close>): manifests and
  backends. \<open>Deployment\<close> (\<open>deployment.py\<close>) and \<open>Deployment_Laws\<close>: the workers; the texts of a batch against their plain
  description, and the turns of an actor until it rotates.

  BOUNDS AND FUEL. Loops over finite data are structural. The search of a claim (\<open>claim_search\<close>) is a
  \<open>function\<close> with a termination proof: each round parks a session. The loops without end (\<open>run_forever\<close>, the
  engine's \<open>graph_run\<close>, the runner's loop) run over a finite stretch of the outside world, given as a list or a number
  of turns; properties hold for every stretch. The tool-calling agent of \<open>agent.py\<close> has no bound on its rounds: its loop takes
  fuel, and \<open>Agent_Laws\<close> shows how much is enough and that more
  changes nothing. The limit of executions per session is the code's.

  SEQUENTIALITY. A method under a lock or in a transaction is one step; the methods of the fair queue, which take no lock, are
  also modelled command by command. The reference store's transition
  commit is modelled as all or nothing: a failure inside it, which only a programming error could
  cause, leaves the graph as it was.

  NOT MODELLED. SQS: the same contract is modelled on other backends. Tools (\<open>tools.py\<close>), the telegram integration, the legacy
  prototype and the examples: network and operating-system calls. Logging, sleeping, signals, schema migration, keys that
  expire on a Redis server, and floating-point rounding.
\<close>

end
